(* ===== verification/Prelude.thy ===== *)
theory Prelude
  imports Main "HOL-Library.Word" "HOL-Library.Sublist"
begin

section \<open>Prelude: shared collections and generic lemmas\<close>

text \<open>
  Facts the component theories share and that mention no part of the program: the
  collections that proofs open by name, lemmas on bounded buffers, on lists that are
  flattened and re-split, and on partial maps.
\<close>

named_theorems js_eval \<open>unfolding rules for evaluating string operations on literals\<close>
named_theorems utf_simps \<open>lengths and decompositions of UTF-16 and UTF-8 sequences\<close>
named_theorems gf_simps \<open>arithmetic of the QR code's 256-element field\<close>
named_theorems step_inv \<open>operations preserve their component's invariant\<close>
named_theorems frame \<open>fields an operation leaves unchanged\<close>

subsection \<open>Bounded buffers\<close>

text \<open>
  The idiom \<open>xs.push(x); if (xs.length > cap) xs.shift()\<close>, which the client uses for raw
  packets, system logs and conversation feeds.
\<close>

definition push_bounded :: "nat \<Rightarrow> 'a \<Rightarrow> 'a list \<Rightarrow> 'a list" where
  "push_bounded cap x xs = (let ys = xs @ [x] in if length ys > cap then tl ys else ys)"

lemma length_push_bounded: "length xs \<le> cap \<Longrightarrow> length (push_bounded cap x xs) \<le> cap"
  by (simp add: push_bounded_def Let_def)

lemma set_push_bounded: "set (push_bounded cap x xs) \<subseteq> insert x (set xs)"
  by (cases xs) (auto simp: push_bounded_def Let_def)

lemma distinct_push_bounded:
  "distinct xs \<Longrightarrow> x \<notin> set xs \<Longrightarrow> distinct (push_bounded cap x xs)"
  by (cases xs) (auto simp: push_bounded_def Let_def)

lemma push_bounded_last: "0 < cap \<Longrightarrow> push_bounded cap x xs \<noteq> [] \<and> last (push_bounded cap x xs) = x"
  by (cases xs) (auto simp: push_bounded_def Let_def)

lemma push_bounded_suffix:
  assumes "length xs \<le> cap"
  shows "push_bounded cap x xs = drop (length xs + 1 - cap) (xs @ [x])"
proof (cases "length xs = cap")
  case True
  then show ?thesis by (cases xs) (auto simp: push_bounded_def)
next
  case False
  with assms show ?thesis by (simp add: push_bounded_def)
qed

subsection \<open>Lists\<close>

lemma concat_eq_Nil_iff_all: "[] \<notin> set xss \<Longrightarrow> concat xss = [] \<longleftrightarrow> xss = []"
  by (cases xss) auto

lemma append_eq_longer:
  assumes eq: "xs @ zs = ys @ ws" and len: "length ys < length xs"
  obtains y where "xs = ys @ y" "y \<noteq> []" "y @ zs = ws"
proof
  have "take (length ys) (xs @ zs) = ys" by (simp add: eq)
  with len have tk: "take (length ys) xs = ys" by simp
  then show xs: "xs = ys @ drop (length ys) xs" by (metis append_take_drop_id)
  from len show "drop (length ys) xs \<noteq> []" by simp
  from eq xs show "drop (length ys) xs @ zs = ws" by (metis append_assoc same_append_eq)
qed

lemma append_eq_shorter:
  assumes "xs @ zs = ys @ ws" and "length xs \<le> length ys"
  shows "zs = drop (length xs) ys @ ws"
proof -
  from assms have "drop (length xs) (xs @ zs) = drop (length xs) (ys @ ws)" by simp
  with assms(2) show ?thesis by simp
qed

lemma concat_map_concat: "concat (map concat xsss) = concat (concat xsss)"
  by (induction xsss) auto

lemma sum_list_map_snoc: "sum_list (map f (xs @ [x])) = sum_list (map f xs) + (f x :: nat)"
  by simp

lemma filter_ConsD: "filter P xs = x # ys \<Longrightarrow> x \<in> set xs \<and> P x"
proof -
  assume "filter P xs = x # ys"
  then have "x \<in> set (filter P xs)" by simp
  then show ?thesis by simp
qed

lemma map_of_upt: "i < n \<Longrightarrow> map_of (map (\<lambda>i. (i, g i)) [0..<n]) i = Some (g i)"
  by (simp add: map_of_map_restrict restrict_map_def)

lemma filter_eq_self: "(\<And>x. x \<in> set xs \<Longrightarrow> P x) \<Longrightarrow> filter P xs = xs"
  by (simp add: filter_id_conv)

text \<open>
  A list satisfies a relation between neighbours: the executable form the chunking and
  ordering results use.
\<close>

fun adjacent :: "('a \<Rightarrow> 'a \<Rightarrow> bool) \<Rightarrow> 'a list \<Rightarrow> bool" where
  "adjacent r (x # y # xs) \<longleftrightarrow> r x y \<and> adjacent r (y # xs)"
| "adjacent r _ \<longleftrightarrow> True"

lemma adjacent_snoc: "adjacent r (xs @ [y]) \<longleftrightarrow> adjacent r xs \<and> (xs = [] \<or> r (last xs) y)"
  by (induction r xs rule: adjacent.induct) auto

lemma adjacent_mono:
  "adjacent r xs \<Longrightarrow> (\<And>x y. r x y \<Longrightarrow> s x y) \<Longrightarrow> adjacent s xs"
  by (induction r xs rule: adjacent.induct) auto

subsection \<open>Guards by generation number\<close>

text \<open>
  Several modules take a counter before an asynchronous call and drop the answer when the
  counter has moved. The one fact such a guard rests on: a counter that only grows and has
  the value it had has not moved in between.
\<close>

lemma monotone_counter_unmoved:
  fixes g :: "nat list"
  assumes "sorted g" and "hd g = last g" and "x \<in> set g"
  shows "x = hd g"
proof -
  from assms(3) obtain i where i: "i < length g" "x = g ! i" by (auto simp: in_set_conv_nth)
  then have ne: "g \<noteq> []" by auto
  with i have "g ! 0 \<le> g ! i" "g ! i \<le> g ! (length g - 1)"
    by (auto intro!: sorted_nth_mono[OF assms(1)])
  with ne assms(2) i show ?thesis by (simp add: hd_conv_nth last_conv_nth)
qed

end
