(* ===== verification/JsString.thy ===== *)
theory JsString
  imports Prelude
begin

section \<open>JavaScript strings\<close>

text \<open>
  A JavaScript string is a sequence of 16-bit code units; \<open>length\<close>, indexing and \<open>slice\<close>
  count units, iteration with \<open>for (const c of s)\<close> walks code points. This theory models
  the parts of the standard library the client's text code calls. Case mapping covers the
  Basic Latin and Latin-1 letters (the alphabets of the interface's languages) and leaves
  every other unit as it is.
\<close>

type_synonym jchar = "16 word"
type_synonym jstr = "jchar list"

text \<open>A literal of the source, written as an Isabelle string.\<close>

definition js :: "string \<Rightarrow> jstr" where
  "js s = map of_char s"

lemma js_simps [simp, js_eval]:
  "js [] = []"
  "js (c # s) = of_char c # js s"
  by (simp_all add: js_def)

lemma js_append [simp]: "js (s @ t) = js s @ js t"
  by (simp add: js_def)

lemma length_js [simp]: "length (js s) = length s"
  by (simp add: js_def)

subsection \<open>Case mapping and trimming\<close>

definition lower_unit :: "jchar \<Rightarrow> jchar" where
  "lower_unit c =
     (if 0x41 \<le> c \<and> c \<le> 0x5A \<or> 0xC0 \<le> c \<and> c \<le> 0xDE \<and> c \<noteq> 0xD7 then c + 32 else c)"

definition upper_unit :: "jchar \<Rightarrow> jstr" where
  "upper_unit c =
     (if 0x61 \<le> c \<and> c \<le> 0x7A \<or> 0xE0 \<le> c \<and> c \<le> 0xFE \<and> c \<noteq> 0xF7 then [c - 32]
      else if c = 0xB5 then [0x39C]
      else if c = 0xDF then [0x53, 0x53]
      else if c = 0xFF then [0x178]
      else [c])"

definition toLowerCase :: "jstr \<Rightarrow> jstr" where
  "toLowerCase s = map lower_unit s"

definition toUpperCase :: "jstr \<Rightarrow> jstr" where
  "toUpperCase s = concat (map upper_unit s)"

lemma length_toLowerCase [simp]: "length (toLowerCase s) = length s"
  by (simp add: toLowerCase_def)

lemma toLowerCase_simps [simp]:
  "toLowerCase [] = []"
  "toLowerCase (c # s) = lower_unit c # toLowerCase s"
  "toLowerCase (s @ t) = toLowerCase s @ toLowerCase t"
  by (simp_all add: toLowerCase_def)

lemma toUpperCase_simps [simp]:
  "toUpperCase [] = []"
  "toUpperCase (c # s) = upper_unit c @ toUpperCase s"
  by (simp_all add: toUpperCase_def)

lemma lower_shift: "c \<le> 0xDE \<Longrightarrow> unat (c + 32 :: jchar) = unat c + 32"
  by (simp add: unat_word_ariths word_le_nat_alt)

lemma unat_lower_unit:
  "unat (lower_unit c) =
     (let n = unat c in
      if 0x41 \<le> n \<and> n \<le> 0x5A \<or> 0xC0 \<le> n \<and> n \<le> 0xDE \<and> n \<noteq> 0xD7 then n + 32 else n)"
  by (auto simp: lower_unit_def Let_def word_le_nat_alt word_unat_eq_iff lower_shift)

lemma lower_unit_idem [simp]: "lower_unit (lower_unit c) = lower_unit c"
  by (subst word_unat_eq_iff) (auto simp: unat_lower_unit Let_def)

lemma toLowerCase_idem [simp]: "toLowerCase (toLowerCase s) = toLowerCase s"
  by (simp add: toLowerCase_def)

text \<open>\<open>String.prototype.trim\<close> strips ECMAScript's white space and line terminators.\<close>

definition is_space :: "jchar \<Rightarrow> bool" where
  "is_space c \<longleftrightarrow>
     0x09 \<le> c \<and> c \<le> 0x0D \<or> c = 0x20 \<or> c = 0xA0 \<or> c = 0x1680 \<or>
     0x2000 \<le> c \<and> c \<le> 0x200A \<or> c = 0x2028 \<or> c = 0x2029 \<or> c = 0x202F \<or>
     c = 0x205F \<or> c = 0x3000 \<or> c = 0xFEFF"

definition trim_start :: "jstr \<Rightarrow> jstr" where
  "trim_start s = dropWhile is_space s"

definition trim :: "jstr \<Rightarrow> jstr" where
  "trim s = rev (dropWhile is_space (rev (dropWhile is_space s)))"

lemma trim_Nil [simp]: "trim [] = []"
  by (simp add: trim_def)

lemma trim_id:
  assumes "s = [] \<or> \<not> is_space (hd s) \<and> \<not> is_space (last s)"
  shows "trim s = s"
proof (cases "s = []")
  case False
  with assms have "dropWhile is_space s = s" by (cases s) auto
  moreover from False assms have "dropWhile is_space (rev s) = rev s"
    by (cases "rev s") (auto simp: hd_rev[symmetric])
  ultimately show ?thesis by (simp add: trim_def)
qed simp

lemma visible_not_space: "0x21 \<le> c \<Longrightarrow> c \<le> 0x7E \<Longrightarrow> \<not> is_space c"
  by (auto simp: is_space_def word_le_nat_alt word_unat_eq_iff)

lemma trim_visible: "\<forall>c \<in> set s. 0x21 \<le> c \<and> c \<le> 0x7E \<Longrightarrow> trim s = s"
  by (rule trim_id) (metis visible_not_space hd_in_set last_in_set)

lemma trim_all_spaces: "(\<forall>c \<in> set s. is_space c) \<Longrightarrow> trim s = []"
  by (auto simp: trim_def dest: set_dropWhileD)

lemma trim_ends:
  assumes "trim s \<noteq> []"
  shows "\<not> is_space (hd (trim s)) \<and> \<not> is_space (last (trim s))"
proof -
  let ?d = "dropWhile is_space s" and ?r = "dropWhile is_space (rev (dropWhile is_space s))"
  from assms have r: "?r \<noteq> []" by (simp add: trim_def)
  then have "\<not> is_space (hd ?r)" by (rule hd_dropWhile)
  moreover have "suffix ?r (rev ?d)" by (rule suffix_dropWhile)
  then obtain zs where zs: "rev ?d = zs @ ?r" by (auto simp: suffix_def)
  then have "last ?r = last (rev ?d)" using r by (metis last_appendR)
  moreover from r have d: "?d \<noteq> []" by (metis dropWhile.simps(1) rev.simps(1))
  then have "\<not> is_space (hd ?d)" by (rule hd_dropWhile)
  ultimately show ?thesis using r d
    by (simp add: trim_def hd_rev last_rev)
qed

lemma trim_idem [simp]: "trim (trim s) = trim s"
  using trim_ends by (intro trim_id) blast

lemma is_space_lower [simp]: "is_space (lower_unit c) = is_space c"
  by (auto simp: is_space_def word_le_nat_alt word_unat_eq_iff unat_lower_unit Let_def)

lemma trim_toLowerCase: "trim (toLowerCase s) = toLowerCase (trim s)"
proof -
  have "dropWhile is_space (map lower_unit t) = map lower_unit (dropWhile is_space t)" for t
    by (induction t) auto
  then show ?thesis by (simp add: trim_def toLowerCase_def rev_map)
qed

lemma set_trim: "set (trim s) \<subseteq> set s"
  by (auto simp: trim_def dest!: set_dropWhileD)

subsection \<open>Searching, slicing and padding\<close>

text \<open>\<open>s.startsWith(p)\<close> is \<open>prefix p s\<close> and \<open>s.str_includes(p)\<close> is \<open>sublist p s\<close>.\<close>

definition startsWith :: "jstr \<Rightarrow> jstr \<Rightarrow> bool" where
  "startsWith s p \<longleftrightarrow> prefix p s"

definition str_includes :: "jstr \<Rightarrow> jstr \<Rightarrow> bool" where
  "str_includes s p \<longleftrightarrow> sublist p s"

lemma startsWith_code [simp]:
  "startsWith s [] \<longleftrightarrow> True"
  "startsWith [] (c # p) \<longleftrightarrow> False"
  "startsWith (d # s) (c # p) \<longleftrightarrow> c = d \<and> startsWith s p"
  by (simp_all add: startsWith_def)

lemma startsWith_append [simp]: "startsWith (p @ s) p"
  by (simp add: startsWith_def)

lemma str_includes_code [simp]:
  "str_includes s [] \<longleftrightarrow> True"
  "str_includes [] (c # p) \<longleftrightarrow> False"
  "str_includes (d # s) (c # p) \<longleftrightarrow> startsWith (d # s) (c # p) \<or> str_includes s (c # p)"
  by (simp_all add: str_includes_def startsWith_def sublist_Cons_right)

declare startsWith_code [code] str_includes_code [code]

definition padStart :: "nat \<Rightarrow> jchar \<Rightarrow> jstr \<Rightarrow> jstr" where
  "padStart n c s = replicate (n - length s) c @ s"

definition padEnd :: "nat \<Rightarrow> jchar \<Rightarrow> jstr \<Rightarrow> jstr" where
  "padEnd n c s = s @ replicate (n - length s) c"

lemma length_padStart [simp]: "length (padStart n c s) = max n (length s)"
  by (simp add: padStart_def)

lemma length_padEnd [simp]: "length (padEnd n c s) = max n (length s)"
  by (simp add: padEnd_def)

text \<open>\<open>join\<close> with a separator, and \<open>split\<close> at a single unit.\<close>

fun join :: "jstr \<Rightarrow> jstr list \<Rightarrow> jstr" where
  "join sep [] = []"
| "join sep [x] = x"
| "join sep (x # y # xs) = x @ sep @ join sep (y # xs)"

fun split_on :: "jchar \<Rightarrow> jstr \<Rightarrow> jstr list" where
  "split_on c [] = [[]]"
| "split_on c (d # s) =
     (if d = c then [] # split_on c s
      else (case split_on c s of [] \<Rightarrow> [[d]] | w # ws \<Rightarrow> (d # w) # ws))"

lemma split_on_nonempty [simp]: "split_on c s \<noteq> []"
  by (induction s) (auto split: list.splits)

lemma split_on_no_sep: "c \<notin> set s \<Longrightarrow> split_on c s = [s]"
  by (induction s) auto

lemma split_on_append:
  "c \<notin> set s \<Longrightarrow> split_on c (s @ c # t) = s # split_on c t"
  by (induction s) auto

lemma join_split_on: "join [c] (split_on c s) = s"
proof (induction s)
  case (Cons d s)
  then obtain w ws where "split_on c s = w # ws" by (cases "split_on c s") auto
  with Cons show ?case by (cases ws) auto
qed simp

lemma split_join:
  "\<forall>w \<in> set ws. c \<notin> set w \<Longrightarrow> ws \<noteq> [] \<Longrightarrow> split_on c (join [c] ws) = ws"
  by (induction "[c]" ws rule: join.induct) (auto simp: split_on_no_sep split_on_append)

subsection \<open>Decimal and hexadecimal numerals\<close>

definition digit_unit :: "nat \<Rightarrow> jchar" where
  "digit_unit d = of_nat (if d < 10 then 48 + d else 87 + d)"

fun nat_digits :: "nat \<Rightarrow> nat \<Rightarrow> jstr" where
  "nat_digits b n =
     (if b < 2 \<or> n < b then [digit_unit n] else nat_digits b (n div b) @ [digit_unit (n mod b)])"

declare nat_digits.simps [simp del]

definition nat_str :: "nat \<Rightarrow> jstr" where
  "nat_str n = nat_digits 10 n"

definition int_str :: "int \<Rightarrow> jstr" where
  "int_str i = (if i < 0 then 0x2D # nat_str (nat (- i)) else nat_str (nat i))"

definition is_digit :: "jchar \<Rightarrow> bool" where
  "is_digit c \<longleftrightarrow> 0x30 \<le> c \<and> c \<le> 0x39"

definition is_hex :: "jchar \<Rightarrow> bool" where
  "is_hex c \<longleftrightarrow> is_digit c \<or> 0x41 \<le> c \<and> c \<le> 0x46 \<or> 0x61 \<le> c \<and> c \<le> 0x66"

definition hex_val :: "jchar \<Rightarrow> nat" where
  "hex_val c = (if c \<le> 0x39 then unat c - 0x30 else if c \<le> 0x46 then unat c - 0x37 else unat c - 0x57)"

definition digits_val :: "jstr \<Rightarrow> nat" where
  "digits_val s = foldl (\<lambda>n c. 10 * n + hex_val c) 0 s"

lemma digits_val_snoc: "digits_val (s @ [c]) = 10 * digits_val s + hex_val c"
  by (simp add: digits_val_def)

lemma hex_val_digit_unit: "d < 10 \<Longrightarrow> hex_val (digit_unit d) = d \<and> is_digit (digit_unit d)"
proof -
  assume d: "d < 10"
  then have "d \<in> {0, 1, 2, 3, 4, 5, 6, 7, 8, 9}" by auto
  then show ?thesis by (auto simp: hex_val_def digit_unit_def is_digit_def)
qed

lemma nat_str_digits: "\<forall>c \<in> set (nat_str n). is_digit c"
  unfolding nat_str_def
proof (induction n rule: less_induct)
  case (less n)
  show ?case
  proof (cases "n < 10")
    case True
    then show ?thesis by (subst nat_digits.simps) (simp add: hex_val_digit_unit)
  next
    case False
    then have "\<forall>c \<in> set (nat_digits 10 (n div 10)). is_digit c" by (intro less) simp
    with False show ?thesis by (subst nat_digits.simps) (auto simp: hex_val_digit_unit)
  qed
qed

lemma digits_val_nat_str [simp]: "digits_val (nat_str n) = n"
  unfolding nat_str_def
proof (induction n rule: less_induct)
  case (less n)
  show ?case
  proof (cases "n < 10")
    case True
    then show ?thesis
      by (subst nat_digits.simps) (simp add: digits_val_def hex_val_digit_unit)
  next
    case False
    then have "digits_val (nat_digits 10 (n div 10)) = n div 10" by (intro less) simp
    with False show ?thesis
      by (subst nat_digits.simps) (simp add: digits_val_snoc hex_val_digit_unit)
  qed
qed

lemma nat_str_nonempty [simp]: "nat_str n \<noteq> []"
  unfolding nat_str_def by (subst nat_digits.simps) simp

end
