(* ===== verification/Theme.thy ===== *)
theory Theme
  imports JsString
begin

section \<open>Theme and density preferences (core/theme.js)\<close>

text \<open>
  What the module reads and writes: two keys of the browser's storage, which may be unavailable
  (every access throws), the attributes of the document, and the system's colour scheme as the
  answers of the two media queries.
\<close>

record media =
  prefers_light :: bool
  prefers_dark :: bool

record page =
  storage_works :: bool
  saved_theme :: "jstr option"
  saved_density :: "jstr option"
  theme_preference :: "jstr option"
  bs_theme :: "jstr option"
  body_classes :: "jstr list"
  stylesheet_href :: "jstr option"
  theme_color :: "jstr option"
  root_classes :: "jstr list"
  media_listener :: bool

definition light :: jstr where "light = js ''light''"
definition dark :: jstr where "dark = js ''dark''"
definition auto :: jstr where "auto = js ''auto''"

definition readThemePreference :: "media \<Rightarrow> page \<Rightarrow> jstr" where
  "readThemePreference md p =
     (let known = (\<lambda>v. case v of Some t \<Rightarrow> t \<in> {light, dark, auto} | None \<Rightarrow> False);
          saved = (if storage_works p then saved_theme p else None)
      in if known saved then the saved
         else if known (theme_preference p) then the (theme_preference p)
         else if prefers_light md then light
         else if bs_theme p = Some light then light else dark)"

definition resolveEffectiveTheme :: "media \<Rightarrow> jstr \<Rightarrow> jstr" where
  "resolveEffectiveTheme md pref =
     (if pref = light \<or> pref = dark then pref
      else if prefers_dark md then dark
      else if prefers_light md then light
      else dark)"

definition slate_css :: jstr where "slate_css = js ''/css/bootstrap-slate.min.css''"
definition zephyr_css :: jstr where "zephyr_css = js ''/css/bootstrap-zephyr.local.min.css''"

definition ends_with :: "jstr \<Rightarrow> jstr \<Rightarrow> bool" where
  "ends_with s t \<longleftrightarrow> length t \<le> length s \<and> drop (length s - length t) s = t"

definition valid_theme :: "jstr \<Rightarrow> jstr" where
  "valid_theme theme = (if theme \<in> {light, dark, auto} then theme else dark)"

definition applyThemePreference :: "media \<Rightarrow> jstr \<Rightarrow> bool \<Rightarrow> page \<Rightarrow> page" where
  "applyThemePreference md theme persist p =
     (let pref = valid_theme theme;
          effective = resolveEffectiveTheme md pref;
          isDark = (effective = dark);
          href = (if isDark then slate_css else zephyr_css)
      in p\<lparr>stylesheet_href := (case stylesheet_href p of Some h \<Rightarrow> if ends_with h href then Some h else Some href | None \<Rightarrow> None),
           body_classes := filter (\<lambda>c. c \<noteq> js ''dark-theme'' \<and> c \<noteq> js ''light-theme'') (body_classes p) @ [effective @ js ''-theme''],
           bs_theme := Some effective,
           theme_preference := Some pref,
           theme_color := map_option (\<lambda>_. if isDark then js ''#101b2e'' else js ''#eef3f9'') (theme_color p),
           saved_theme := (if persist \<and> storage_works p then Some pref else saved_theme p)\<rparr>)"

text \<open>\<open>setupAutoThemeListener\<close> installs one listener; the listener and what it passes to the callback.\<close>

definition setupAutoThemeListener :: "page \<Rightarrow> page" where
  "setupAutoThemeListener p = p\<lparr>media_listener := True\<rparr>"

definition on_scheme_change :: "media \<Rightarrow> page \<Rightarrow> page \<times> jstr option" where
  "on_scheme_change md p =
     (if media_listener p \<and> readThemePreference md p = auto
      then (applyThemePreference md auto False p, Some (if prefers_dark md then dark else light))
      else (p, None))"

definition readDensityPreference :: "page \<Rightarrow> jstr" where
  "readDensityPreference p =
     (let saved = (if storage_works p then saved_density p else None)
      in case saved of
           Some d \<Rightarrow> if d \<in> {js ''comfortable'', js ''compact''} then d else js ''compact''
         | None \<Rightarrow> js ''compact'')"

definition toggle_class :: "jstr \<Rightarrow> bool \<Rightarrow> jstr list \<Rightarrow> jstr list" where
  "toggle_class c on cs = (if on then (if c \<in> set cs then cs else cs @ [c]) else filter (\<lambda>x. x \<noteq> c) cs)"

definition applyDensityPreference :: "jstr option \<Rightarrow> bool \<Rightarrow> page \<Rightarrow> page" where
  "applyDensityPreference density persist p =
     (let d = (case density of Some d \<Rightarrow> d | None \<Rightarrow> readDensityPreference p);
          selected = (if d = js ''comfortable'' then js ''comfortable'' else js ''compact'')
      in p\<lparr>root_classes := toggle_class (js ''density-comfortable'') (selected = js ''comfortable'')
                            (toggle_class (js ''density-compact'') (selected = js ''compact'') (root_classes p)),
           saved_density := (if persist \<and> storage_works p then Some selected else saved_density p)\<rparr>)"

subsection \<open>Properties\<close>

lemma theme_names [simp]:
  "light \<noteq> dark" "light \<noteq> auto" "dark \<noteq> auto" "dark \<noteq> light" "auto \<noteq> light" "auto \<noteq> dark"
  by (simp_all add: light_def dark_def auto_def)

lemma resolve_cases: "resolveEffectiveTheme md pref = dark \<or> resolveEffectiveTheme md pref = light"
  by (simp add: resolveEffectiveTheme_def)

text \<open>What the page shows agrees: one theme class, the attribute and the stylesheet.\<close>

definition shows_theme :: "jstr \<Rightarrow> page \<Rightarrow> bool" where
  "shows_theme t p \<longleftrightarrow>
     bs_theme p = Some t \<and> filter (\<lambda>c. c = js ''dark-theme'' \<or> c = js ''light-theme'') (body_classes p) = [t @ js ''-theme''] \<and>
     (case stylesheet_href p of Some h \<Rightarrow> ends_with h (if t = dark then slate_css else zephyr_css) | None \<Rightarrow> True)"

lemma ends_with_self [simp]: "ends_with s s"
  by (simp add: ends_with_def)

lemma valid_auto [simp]: "valid_theme auto = auto"
  by (simp add: valid_theme_def)

lemma apply_sel [simp]:
  "theme_preference (applyThemePreference md theme persist p) = Some (valid_theme theme)"
  "saved_theme (applyThemePreference md theme persist p) = (if persist \<and> storage_works p then Some (valid_theme theme) else saved_theme p)"
  "storage_works (applyThemePreference md theme persist p) = storage_works p"
  by (simp_all add: applyThemePreference_def Let_def del: js_simps js_append)

lemma setup_sel:
  "saved_theme (setupAutoThemeListener p) = saved_theme p" "storage_works (setupAutoThemeListener p) = storage_works p"
  by (simp_all add: setupAutoThemeListener_def)

lemma read_valid:
  "storage_works p \<Longrightarrow> saved_theme p = Some (valid_theme t) \<Longrightarrow> readThemePreference md p = valid_theme t"
  "\<not> storage_works p \<or> saved_theme p = None \<Longrightarrow> theme_preference p = Some (valid_theme t) \<Longrightarrow> readThemePreference md p = valid_theme t"
  by (auto simp: readThemePreference_def valid_theme_def)

lemma classes_replaced:
  "e = a \<or> e = b \<Longrightarrow> filter (\<lambda>c. c = a \<or> c = b) (filter (\<lambda>c. c \<noteq> a \<and> c \<noteq> b) cs @ [e]) = [e]"
  by (induction cs) auto

lemma apply_shows: "shows_theme (resolveEffectiveTheme md (valid_theme theme)) (applyThemePreference md theme persist p)"
proof -
  let ?e = "resolveEffectiveTheme md (valid_theme theme)"
  have "?e @ js ''-theme'' = js ''dark-theme'' \<or> ?e @ js ''-theme'' = js ''light-theme''"
    using resolve_cases[of md "valid_theme theme"] by (auto simp: dark_def light_def)
  note one = this
  have bc: "body_classes (applyThemePreference md theme persist p) =
      filter (\<lambda>c. c \<noteq> js ''dark-theme'' \<and> c \<noteq> js ''light-theme'') (body_classes p) @ [?e @ js ''-theme'']"
    by (simp add: applyThemePreference_def Let_def del: js_simps js_append)
  have "filter (\<lambda>c. c = js ''dark-theme'' \<or> c = js ''light-theme'') (body_classes (applyThemePreference md theme persist p)) = [?e @ js ''-theme'']"
    unfolding bc by (rule classes_replaced) (rule one)
  then show ?thesis
    by (auto simp: shows_theme_def applyThemePreference_def Let_def simp del: js_simps js_append filter.simps split: option.splits)
qed

text \<open>
  A theme once applied is kept and shown: with storage available or entirely unavailable,
  reading the preference gives back the theme that was applied (or dark for an unknown one), the
  page's class, attribute and stylesheet show the one theme it resolves to, and after a change of
  the system's scheme a page that follows it shows the new scheme and any other page is untouched.
\<close>
theorem theme_kept_and_shown:
  assumes "storage_works p \<or> saved_theme p = None"
  shows "let pref = (valid_theme theme);
           q = applyThemePreference md theme True p;
           r = fst (on_scheme_change md' (setupAutoThemeListener q))
     in readThemePreference md' q = pref \<and> shows_theme (resolveEffectiveTheme md pref) q \<and>
        shows_theme (resolveEffectiveTheme (if pref = auto then md' else md) pref) r \<and> readThemePreference md' r = pref"
proof -
  let ?pref = "valid_theme theme" and ?q = "applyThemePreference md theme True p"
  have kept: "readThemePreference m ?q = ?pref" for m
    using assms by (cases "storage_works p") (simp_all add: read_valid)
  have q: "shows_theme (resolveEffectiveTheme md ?pref) ?q" by (rule apply_shows)
  have listen: "readThemePreference m (setupAutoThemeListener x) = readThemePreference m x" for m x
    by (simp add: setupAutoThemeListener_def readThemePreference_def Let_def)
  have same: "shows_theme t (setupAutoThemeListener x) = shows_theme t x" for t x
    by (simp add: shows_theme_def setupAutoThemeListener_def)
  have listening: "media_listener (setupAutoThemeListener x)" for x by (simp add: setupAutoThemeListener_def)
  show ?thesis
  proof (cases "?pref = auto")
    case True
    let ?r = "applyThemePreference md' auto False (setupAutoThemeListener ?q)"
    have r: "fst (on_scheme_change md' (setupAutoThemeListener ?q)) = ?r"
      unfolding on_scheme_change_def using True listening listen kept by simp
    have "shows_theme (resolveEffectiveTheme md' auto) ?r"
      using apply_shows[of md' auto False "setupAutoThemeListener ?q"] by (simp only: valid_auto)
    moreover have "readThemePreference md' ?r = auto"
      using assms True read_valid(1)[of ?r auto md'] read_valid(2)[of ?r auto md'] by (cases "storage_works p") (simp_all add: setup_sel)
    ultimately show ?thesis unfolding Let_def r using True kept q by simp
  next
    case False
    have "fst (on_scheme_change md' (setupAutoThemeListener ?q)) = setupAutoThemeListener ?q"
      unfolding on_scheme_change_def using False listen kept by simp
    then show ?thesis unfolding Let_def using False kept q listen same by simp
  qed
qed

theorem theme_kept_and_shown_witness:
  "let p = \<lparr>storage_works = True, saved_theme = Some dark, saved_density = None, theme_preference = None, bs_theme = None,
             body_classes = [js ''dark-theme''], stylesheet_href = None, theme_color = None, root_classes = [], media_listener = False\<rparr>
   in readThemePreference \<lparr>prefers_light = True, prefers_dark = False\<rparr>
        (applyThemePreference \<lparr>prefers_light = True, prefers_dark = False\<rparr> auto True p) = auto"
  using theme_kept_and_shown[where theme = auto and md = "\<lparr>prefers_light = True, prefers_dark = False\<rparr>"
      and md' = "\<lparr>prefers_light = True, prefers_dark = False\<rparr>"
      and p = "\<lparr>storage_works = True, saved_theme = Some dark, saved_density = None, theme_preference = None, bs_theme = None,
             body_classes = [js ''dark-theme''], stylesheet_href = None, theme_color = None, root_classes = [], media_listener = False\<rparr>"]
  unfolding Let_def valid_auto by (simp only: page.simps simp_thms)

end
