(* ===== verification/JsValue.thy ===== *)
theory JsValue
  imports JsString Complex_Main
begin

section \<open>JavaScript values\<close>

text \<open>
  The dynamically typed values the client reads out of JSON payloads, with the conversions
  its code applies to them: truthiness, \<open>||\<close>, \<open>??\<close>, \<open>String(v)\<close> and \<open>Number(v)\<close>, and the
  \<open>TypeError\<close> of a string method called on something else. A number is NaN, an infinity or
  a rational: rounding of doubles is not modelled, and a fraction prints as its decimal
  expansion, cut at 17 digits. An object is the list of its own properties in insertion order.
\<close>

datatype jnum = NaN | PosInf | NegInf | Fin rat

datatype jsval =
    Undefined
  | Null
  | Bool bool
  | Num jnum
  | Str jstr
  | Arr "jsval list"
  | Obj "(jstr \<times> jsval) list"

datatype js_error = TypeError | URIError | RangeError | ErrorMsg jstr

type_synonym 'a js_result = "js_error + 'a"

definition bindE :: "'e + 'a \<Rightarrow> ('a \<Rightarrow> 'e + 'b) \<Rightarrow> 'e + 'b" where
  "bindE m f = (case m of Inl e \<Rightarrow> Inl e | Inr x \<Rightarrow> f x)"

lemma bindE_simps [simp]: "bindE (Inl e) f = Inl e" "bindE (Inr x) f = f x"
  by (simp_all add: bindE_def)

lemma bindE_eq_Inr: "bindE m f = Inr y \<longleftrightarrow> (\<exists>x. m = Inr x \<and> f x = Inr y)"
  by (cases m) auto

fun mapE :: "('a \<Rightarrow> 'e + 'b) \<Rightarrow> 'a list \<Rightarrow> 'e + 'b list" where
  "mapE f [] = Inr []"
| "mapE f (x # xs) = bindE (f x) (\<lambda>y. bindE (mapE f xs) (\<lambda>ys. Inr (y # ys)))"

fun filterE :: "('a \<Rightarrow> 'e + bool) \<Rightarrow> 'a list \<Rightarrow> 'e + 'a list" where
  "filterE p [] = Inr []"
| "filterE p (x # xs) =
     bindE (p x) (\<lambda>b. bindE (filterE p xs) (\<lambda>ys. Inr (if b then x # ys else ys)))"

lemma filterE_Inr: "(\<And>x. x \<in> set xs \<Longrightarrow> p x = Inr (q x)) \<Longrightarrow> filterE p xs = Inr (filter q xs)"
  by (induction xs) auto

lemma filterE_set: "filterE p xs = Inr ys \<Longrightarrow> set ys = {x \<in> set xs. p x = Inr True}"
  by (induction xs arbitrary: ys) (auto simp: bindE_eq_Inr split: if_splits)

lemma filterE_subseq: "filterE p xs = Inr ys \<Longrightarrow> subseq ys xs"
  by (induction xs arbitrary: ys) (auto simp: bindE_eq_Inr)

subsection \<open>Properties, truthiness and defaults\<close>

text \<open>\<open>v?.k\<close>: a missing property, and any property of a non-object, is \<open>undefined\<close>.\<close>

definition getp :: "jsval \<Rightarrow> jstr \<Rightarrow> jsval" where
  "getp v k =
     (case v of Obj ps \<Rightarrow> (case map_of ps k of Some x \<Rightarrow> x | None \<Rightarrow> Undefined) | _ \<Rightarrow> Undefined)"

text \<open>Assignment keeps the place of an existing property and appends a new one.\<close>

fun set_prop :: "jstr \<Rightarrow> jsval \<Rightarrow> (jstr \<times> jsval) list \<Rightarrow> (jstr \<times> jsval) list" where
  "set_prop k v [] = [(k, v)]"
| "set_prop k v ((k', v') # ps) = (if k = k' then (k, v) # ps else (k', v') # set_prop k v ps)"

text \<open>The spread \<open>{ ...a, ...b }\<close>.\<close>

definition spread :: "(jstr \<times> jsval) list \<Rightarrow> (jstr \<times> jsval) list \<Rightarrow> (jstr \<times> jsval) list" where
  "spread a b = fold (\<lambda>(k, v). set_prop k v) b a"

lemma map_of_set_prop: "map_of (set_prop k v ps) = (map_of ps)(k \<mapsto> v)"
  by (induction ps) auto

lemma keys_set_prop: "fst ` set (set_prop k v ps) = insert k (fst ` set ps)"
  by (simp flip: dom_map_of_conv_image_fst add: map_of_set_prop)

lemma distinct_set_prop: "distinct (map fst ps) \<Longrightarrow> distinct (map fst (set_prop k v ps))"
proof (induction ps)
  case (Cons kv ps)
  then show ?case using keys_set_prop[of k v ps] by (cases kv) auto
qed simp

lemma map_of_spread:
  "distinct (map fst b) \<Longrightarrow> map_of (spread a b) = map_of a ++ map_of b"
  unfolding spread_def
proof (induction b arbitrary: a)
  case (Cons kv b)
  obtain k v where kv: "kv = (k, v)" by (cases kv)
  with Cons.prems have "k \<notin> dom (map_of b)" by (auto simp: dom_map_of_conv_image_fst)
  with Cons kv show ?case
    by (auto simp: map_of_set_prop fun_eq_iff map_add_def split: option.splits)
qed simp

definition truthy :: "jsval \<Rightarrow> bool" where
  "truthy v =
     (case v of Undefined \<Rightarrow> False | Null \<Rightarrow> False | Bool b \<Rightarrow> b
      | Num n \<Rightarrow> n \<noteq> NaN \<and> n \<noteq> Fin 0 | Str s \<Rightarrow> s \<noteq> [] | Arr _ \<Rightarrow> True | Obj _ \<Rightarrow> True)"

definition js_or :: "jsval \<Rightarrow> jsval \<Rightarrow> jsval" where
  "js_or a b = (if truthy a then a else b)"

definition is_nullish :: "jsval \<Rightarrow> bool" where
  "is_nullish v \<longleftrightarrow> v = Undefined \<or> v = Null"

definition nullish :: "jsval \<Rightarrow> jsval \<Rightarrow> jsval" where
  "nullish a b = (if is_nullish a then b else a)"

text \<open>\<open>typeof v === "object"\<close> and \<open>v\<close> is not null.\<close>

definition is_object :: "jsval \<Rightarrow> bool" where
  "is_object v = (case v of Obj _ \<Rightarrow> True | Arr _ \<Rightarrow> True | _ \<Rightarrow> False)"

lemma truthy_simps [simp]:
  "\<not> truthy Undefined" "\<not> truthy Null" "truthy (Bool b) = b" "truthy (Str s) \<longleftrightarrow> s \<noteq> []"
  "truthy (Num n) \<longleftrightarrow> n \<noteq> NaN \<and> n \<noteq> Fin 0" "truthy (Arr xs)" "truthy (Obj ps)"
  by (simp_all add: truthy_def)

subsection \<open>Numbers as text\<close>

fun fraction_digits :: "nat \<Rightarrow> rat \<Rightarrow> jstr" where
  "fraction_digits 0 q = []"
| "fraction_digits (Suc n) q =
     (if q = 0 then [] else digit_unit (nat \<lfloor>10 * q\<rfloor>) # fraction_digits n (10 * q - of_int \<lfloor>10 * q\<rfloor>))"

definition rat_str :: "rat \<Rightarrow> jstr" where
  "rat_str q =
     (let a = \<bar>q\<bar>; i = \<lfloor>a\<rfloor>; f = a - of_int i
      in (if q < 0 then [0x2D] else []) @ nat_str (nat i) @
         (if f = 0 then [] else 0x2E # fraction_digits 17 f))"

definition num_str :: "jnum \<Rightarrow> jstr" where
  "num_str n =
     (case n of NaN \<Rightarrow> js ''NaN'' | PosInf \<Rightarrow> js ''Infinity'' | NegInf \<Rightarrow> js ''-Infinity''
      | Fin q \<Rightarrow> rat_str q)"

lemma rat_str_int: "rat_str (of_int i) = int_str i"
  by (simp add: rat_str_def int_str_def Let_def floor_of_int flip: of_int_abs)

text \<open>\<open>String(v)\<close>; an array joins its elements with commas, an absent element prints as nothing.\<close>

fun to_string :: "jsval \<Rightarrow> jstr" where
  "to_string Undefined = js ''undefined''"
| "to_string Null = js ''null''"
| "to_string (Bool b) = (if b then js ''true'' else js ''false'')"
| "to_string (Num n) = num_str n"
| "to_string (Str s) = s"
| "to_string (Arr xs) =
     join [0x2C] (map (\<lambda>x. if x = Undefined \<or> x = Null then [] else to_string x) xs)"
| "to_string (Obj ps) = js ''[object Object]''"

subsection \<open>Text as numbers\<close>

text \<open>
  \<open>Number(s)\<close>: the trimmed text is empty (zero), a signed \<open>Infinity\<close>, a \<open>0x\<close> literal, or a
  decimal literal with an optional fraction and exponent; anything else is NaN.
\<close>

definition unsigned_decimal :: "jstr \<Rightarrow> rat option" where
  "unsigned_decimal s =
     (let ip = takeWhile is_digit s; r1 = dropWhile is_digit s;
          (fp, r2) = (case r1 of c # t \<Rightarrow> if c = 0x2E then (takeWhile is_digit t, dropWhile is_digit t) else ([], r1)
                      | [] \<Rightarrow> ([], []));
          m = of_nat (digits_val (ip @ fp)) / 10 ^ length fp
      in if ip = [] \<and> fp = [] then None
         else case r2 of
           [] \<Rightarrow> Some m
         | c # t \<Rightarrow>
             if c = 0x65 \<or> c = 0x45 then
               (let neg = (t \<noteq> [] \<and> hd t = 0x2D);
                    ds = (if t \<noteq> [] \<and> (hd t = 0x2D \<or> hd t = 0x2B) then tl t else t)
                in if ds = [] \<or> \<not> list_all is_digit ds then None
                   else Some (if neg then m / 10 ^ digits_val ds else m * 10 ^ digits_val ds))
             else None)"

definition hex_digits_val :: "jstr \<Rightarrow> nat" where
  "hex_digits_val s = foldl (\<lambda>n c. 16 * n + hex_val c) 0 s"

definition str_to_num :: "jstr \<Rightarrow> jnum" where
  "str_to_num s0 =
     (let s = trim s0 in
      if s = [] then Fin 0
      else if startsWith s (js ''0x'') \<or> startsWith s (js ''0X'') then
        (if length s = 2 \<or> \<not> list_all is_hex (drop 2 s) then NaN
         else Fin (of_nat (hex_digits_val (drop 2 s))))
      else
        let neg = (hd s = 0x2D); u = (if hd s = 0x2D \<or> hd s = 0x2B then tl s else s)
        in if u = js ''Infinity'' then (if neg then NegInf else PosInf)
           else case unsigned_decimal u of
             None \<Rightarrow> NaN
           | Some q \<Rightarrow> Fin (if neg then - q else q))"

definition to_number :: "jsval \<Rightarrow> jnum" where
  "to_number v =
     (case v of Undefined \<Rightarrow> NaN | Null \<Rightarrow> Fin 0 | Bool b \<Rightarrow> Fin (if b then 1 else 0)
      | Num n \<Rightarrow> n | Str s \<Rightarrow> str_to_num s
      | Arr xs \<Rightarrow> str_to_num (to_string (Arr xs)) | Obj _ \<Rightarrow> NaN)"

lemma takeWhile_digits [simp]: "takeWhile is_digit (nat_str n) = nat_str n"
  by (simp add: takeWhile_eq_all_conv nat_str_digits)

lemma dropWhile_digits [simp]: "dropWhile is_digit (nat_str n) = []"
  by (simp add: nat_str_digits)

lemma unsigned_decimal_nat_str [simp]: "unsigned_decimal (nat_str n) = Some (of_nat n)"
  by (simp add: unsigned_decimal_def)

text \<open>\<open>parseInt(s, 10)\<close>: the leading digits, after white space and a sign.\<close>

definition parse_int :: "jstr \<Rightarrow> jnum" where
  "parse_int s0 =
     (let s = trim_start s0; neg = (s \<noteq> [] \<and> hd s = 0x2D);
          u = (if s \<noteq> [] \<and> (hd s = 0x2D \<or> hd s = 0x2B) then tl s else s);
          ds = takeWhile is_digit u
      in if ds = [] then NaN
         else Fin (of_int (if neg then - int (digits_val ds) else int (digits_val ds))))"

subsection \<open>String methods on arbitrary values\<close>

text \<open>\<open>v.toLowerCase()\<close> throws a \<open>TypeError\<close> when \<open>v\<close> is no string.\<close>

definition as_string :: "jsval \<Rightarrow> jstr js_result" where
  "as_string v = (case v of Str s \<Rightarrow> Inr s | _ \<Rightarrow> Inl TypeError)"

lemma as_string_simps [simp]: "as_string (Str s) = Inr s"
  by (simp add: as_string_def)

text \<open>\<open>Number.isInteger\<close> and the integer a number holds.\<close>

definition is_integer :: "jsval \<Rightarrow> bool" where
  "is_integer v = (case v of Num (Fin q) \<Rightarrow> q \<in> \<int> | _ \<Rightarrow> False)"

end
