(* ===== verification/Numbers.thy ===== *)
theory Numbers
  imports JsValue
begin

section \<open>Arithmetic on JavaScript numbers\<close>

text \<open>
  Comparison, subtraction and the \<open>Math\<close> functions on values that may be NaN or infinite,
  as the client's formatters use them: every comparison with NaN is false.
\<close>

definition jlt :: "jnum \<Rightarrow> jnum \<Rightarrow> bool" where
  "jlt a b =
     (case (a, b) of
        (Fin x, Fin y) \<Rightarrow> x < y
      | (NegInf, Fin _) \<Rightarrow> True | (NegInf, PosInf) \<Rightarrow> True | (Fin _, PosInf) \<Rightarrow> True
      | _ \<Rightarrow> False)"

definition jle :: "jnum \<Rightarrow> jnum \<Rightarrow> bool" where
  "jle a b \<longleftrightarrow> jlt a b \<or> a = b \<and> a \<noteq> NaN"

lemma jlt_Fin [simp]: "jlt (Fin x) (Fin y) \<longleftrightarrow> x < y"
  by (simp add: jlt_def)

lemma jle_Fin [simp]: "jle (Fin x) (Fin y) \<longleftrightarrow> x \<le> y"
  by (auto simp: jle_def)

lemma jlt_special [simp]:
  "\<not> jlt NaN b" "\<not> jlt a NaN" "jlt NegInf (Fin x)" "jlt (Fin x) PosInf" "\<not> jlt PosInf b" "\<not> jlt a NegInf"
  by (cases a; cases b; simp add: jlt_def)+

lemma jle_special [simp]: "\<not> jle NaN b" "\<not> jle a NaN" "jle NegInf (Fin x)" "\<not> jle PosInf (Fin x)"
  by (simp_all add: jle_def)

definition jneg :: "jnum \<Rightarrow> jnum" where
  "jneg a = (case a of NaN \<Rightarrow> NaN | PosInf \<Rightarrow> NegInf | NegInf \<Rightarrow> PosInf | Fin x \<Rightarrow> Fin (- x))"

definition jadd :: "jnum \<Rightarrow> jnum \<Rightarrow> jnum" where
  "jadd a b =
     (case (a, b) of
        (Fin x, Fin y) \<Rightarrow> Fin (x + y)
      | (NaN, _) \<Rightarrow> NaN | (_, NaN) \<Rightarrow> NaN
      | (PosInf, NegInf) \<Rightarrow> NaN | (NegInf, PosInf) \<Rightarrow> NaN
      | (PosInf, _) \<Rightarrow> PosInf | (_, PosInf) \<Rightarrow> PosInf
      | _ \<Rightarrow> NegInf)"

definition jsub :: "jnum \<Rightarrow> jnum \<Rightarrow> jnum" where
  "jsub a b = jadd a (jneg b)"

lemma jadd_Fin [simp]: "jadd (Fin x) (Fin y) = Fin (x + y)"
  by (simp add: jadd_def)

lemma jadd_NaN [simp]: "jadd NaN b = NaN" "jadd a NaN = NaN"
  by (cases a; cases b; simp add: jadd_def)+

lemma jsub_Fin [simp]: "jsub (Fin x) (Fin y) = Fin (x - y)"
  by (simp add: jsub_def jneg_def)

lemma jsub_NaN [simp]: "jsub NaN b = NaN" "jsub a NaN = NaN"
  by (simp_all add: jsub_def jneg_def)

lemma jsub_inf [simp]: "jsub (Fin x) PosInf = NegInf" "jsub (Fin x) NegInf = PosInf"
  by (simp_all add: jsub_def jneg_def jadd_def)

text \<open>Division by, and multiplication with, a positive literal; \<open>Math.floor\<close> and \<open>Math.max\<close>.\<close>

definition num_map :: "(rat \<Rightarrow> rat) \<Rightarrow> jnum \<Rightarrow> jnum" where
  "num_map f a = (case a of Fin x \<Rightarrow> Fin (f x) | _ \<Rightarrow> a)"

lemma num_map_simps [simp]:
  "num_map f (Fin x) = Fin (f x)" "num_map f NaN = NaN" "num_map f PosInf = PosInf" "num_map f NegInf = NegInf"
  by (simp_all add: num_map_def)

definition jfloor_div :: "rat \<Rightarrow> jnum \<Rightarrow> jnum" where
  "jfloor_div k = num_map (\<lambda>x. of_int \<lfloor>x / k\<rfloor>)"

definition jmax :: "jnum \<Rightarrow> jnum \<Rightarrow> jnum" where
  "jmax a b = (if a = NaN \<or> b = NaN then NaN else if jlt a b then b else a)"

definition jmin :: "jnum \<Rightarrow> jnum \<Rightarrow> jnum" where
  "jmin a b = (if a = NaN \<or> b = NaN then NaN else if jlt a b then a else b)"

definition finite_num :: "jnum \<Rightarrow> bool" where
  "finite_num a = (case a of Fin _ \<Rightarrow> True | _ \<Rightarrow> False)"

lemma finite_num_simps [simp]:
  "finite_num (Fin x)" "\<not> finite_num NaN" "\<not> finite_num PosInf" "\<not> finite_num NegInf"
  by (simp_all add: finite_num_def)

lemma finite_numE: "finite_num a \<Longrightarrow> (\<And>x. a = Fin x \<Longrightarrow> P) \<Longrightarrow> P"
  by (cases a) auto

lemma jlt_weaken: "jlt a (Fin x) \<Longrightarrow> x \<le> y \<Longrightarrow> jlt a (Fin y)"
  by (cases a) auto

lemma jmax_Fin [simp]: "jmax (Fin x) (Fin y) = Fin (max x y)"
  by (auto simp: jmax_def max_def)

lemma jmin_Fin [simp]: "jmin (Fin x) (Fin y) = Fin (min x y)"
  by (auto simp: jmin_def min_def)

lemma jfloor_div_Fin [simp]: "jfloor_div k (Fin x) = Fin (of_int \<lfloor>x / k\<rfloor>)"
  by (simp add: jfloor_div_def)

lemma jfloor_div_NaN [simp]: "jfloor_div k NaN = NaN"
  by (simp add: jfloor_div_def)

text \<open>\<open>Math.round\<close> and \<open>toFixed\<close> on a non-negative value: ties go up.\<close>

definition js_round :: "rat \<Rightarrow> int" where
  "js_round x = \<lfloor>x + 1 / 2\<rfloor>"

lemma js_round_mono: "x \<le> y \<Longrightarrow> js_round x \<le> js_round y"
  by (simp add: js_round_def floor_mono)

definition to_fixed :: "nat \<Rightarrow> rat \<Rightarrow> jstr" where
  "to_fixed d q =
     (let n = nat (js_round (\<bar>q\<bar> * 10 ^ d)); ip = n div 10 ^ d; fp = n mod 10 ^ d
      in (if q < 0 then [0x2D] else []) @ nat_str ip @
         (if d = 0 then [] else 0x2E # padStart d 0x30 (nat_str fp)))"

text \<open>\<open>s.replace(pattern, text)\<close> with a string pattern: the first occurrence only.\<close>

fun replace_first :: "jstr \<Rightarrow> jstr \<Rightarrow> jstr \<Rightarrow> jstr" where
  "replace_first p r s =
     (if startsWith s p then r @ drop (length p) s
      else case s of [] \<Rightarrow> [] | c # t \<Rightarrow> c # replace_first p r t)"

declare replace_first.simps [simp del]

end
