(* ===== verification/Geo.thy ===== *)
theory Geo
  imports Numbers
begin

section \<open>Distances between stations (core/utils.js)\<close>

text \<open>
  \<open>calculateDistanceM\<close>: the great-circle distance by the haversine formula, over the reals, with
  the code's guards on missing, non-finite and out-of-range coordinates, its clamp of the
  intermediate \<open>a\<close> and its final \<open>Math.round\<close>. The rounding errors of double arithmetic are
  not modelled.
\<close>

definition atan2 :: "real \<Rightarrow> real \<Rightarrow> real" where
  "atan2 y x =
     (if x > 0 then arctan (y / x)
      else if x < 0 then (if y \<ge> 0 then arctan (y / x) + pi else arctan (y / x) - pi)
      else if y > 0 then pi / 2 else if y < 0 then - pi / 2 else 0)"

definition round_real :: "real \<Rightarrow> int" where
  "round_real x = \<lfloor>x + 1 / 2\<rfloor>"

definition haversine_a :: "real \<Rightarrow> real \<Rightarrow> real \<Rightarrow> real \<Rightarrow> real" where
  "haversine_a lat1 lon1 lat2 lon2 =
     (let dLat = (lat2 - lat1) * (pi / 180); dLon = (lon2 - lon1) * (pi / 180);
          lat1Rad = lat1 * (pi / 180); lat2Rad = lat2 * (pi / 180);
          sinHalfLat = sin (dLat / 2); sinHalfLon = sin (dLon / 2)
      in sinHalfLat * sinHalfLat + cos lat1Rad * cos lat2Rad * (sinHalfLon * sinHalfLon))"

definition great_circle :: "real \<Rightarrow> real \<Rightarrow> real \<Rightarrow> real \<Rightarrow> int" where
  "great_circle lat1 lon1 lat2 lon2 =
     (let a = max 0 (min 1 (haversine_a lat1 lon1 lat2 lon2));
          c = 2 * atan2 (sqrt a) (sqrt (1 - a))
      in round_real (6371000 * c))"

definition calculateDistanceM :: "jsval \<Rightarrow> jsval \<Rightarrow> jsval \<Rightarrow> jsval \<Rightarrow> int option" where
  "calculateDistanceM lat1 lon1 lat2 lon2 =
     (if is_nullish lat1 \<or> is_nullish lon1 \<or> is_nullish lat2 \<or> is_nullish lon2 then None
      else
        case (to_number lat1, to_number lon1, to_number lat2, to_number lon2) of
          (Fin nLat1, Fin nLon1, Fin nLat2, Fin nLon2) \<Rightarrow>
            if nLat1 < -90 \<or> nLat1 > 90 \<or> nLat2 < -90 \<or> nLat2 > 90 then None
            else if nLon1 < -180 \<or> nLon1 > 180 \<or> nLon2 < -180 \<or> nLon2 > 180 then None
            else Some (great_circle (of_rat nLat1) (of_rat nLon1) (of_rat nLat2) (of_rat nLon2))
        | _ \<Rightarrow> None)"

lemma haversine_a_sym: "haversine_a a b c d = haversine_a c d a b"
proof -
  have "sin ((c - a) * (pi / 180) / 2) = - sin ((a - c) * (pi / 180) / 2)" for a c :: real
    by (metis minus_diff_eq minus_divide_left mult_minus_left sin_minus)
  from this[of c a] this[of d b] show ?thesis
    by (simp add: haversine_a_def Let_def mult.commute)
qed

lemma great_circle_sym: "great_circle a b c d = great_circle c d a b"
  by (simp add: great_circle_def haversine_a_sym[of a b c d])

lemma atan2_quadrant: "0 \<le> y \<Longrightarrow> 0 \<le> x \<Longrightarrow> 0 \<le> atan2 y x \<and> atan2 y x \<le> pi / 2"
  using arctan_ubound[of "y / x"] by (auto simp: atan2_def less_imp_le)

lemma great_circle_bounds: "0 \<le> great_circle a b c d \<and> great_circle a b c d \<le> round_real (6371000 * pi)"
proof -
  define h where "h = max 0 (min 1 (haversine_a a b c d))"
  have "0 \<le> h" "h \<le> 1" by (auto simp: h_def)
  then have q: "0 \<le> atan2 (sqrt h) (sqrt (1 - h))" "atan2 (sqrt h) (sqrt (1 - h)) \<le> pi / 2"
    using atan2_quadrant by auto
  then have "6371000 * (2 * atan2 (sqrt h) (sqrt (1 - h))) + 1 / 2 \<le> 6371000 * pi + 1 / 2" by simp
  then have "\<lfloor>6371000 * (2 * atan2 (sqrt h) (sqrt (1 - h))) + 1 / 2\<rfloor> \<le> \<lfloor>6371000 * pi + 1 / 2\<rfloor>"
    by (rule floor_mono)
  moreover have "0 \<le> \<lfloor>6371000 * (2 * atan2 (sqrt h) (sqrt (1 - h))) + 1 / 2\<rfloor>"
    using q(1) by (simp add: le_floor_iff)
  ultimately show ?thesis by (simp add: great_circle_def round_real_def flip: h_def)
qed

lemma great_circle_same: "great_circle a b a b = 0"
  by (simp add: great_circle_def haversine_a_def atan2_def round_real_def)

text \<open>
  Distances are symmetric and lie between zero and half the Earth's circumference; two
  nodes that report the same valid position are at distance zero, the position (0, 0)
  included.
\<close>
theorem calculateDistanceM_metric:
  "calculateDistanceM a b c d = calculateDistanceM c d a b \<and>
   pred_option (\<lambda>m. 0 \<le> m \<and> m \<le> round_real (6371000 * pi)) (calculateDistanceM a b c d) \<and>
   pred_option (\<lambda>m. m = 0) (calculateDistanceM a b a b) \<and>
   calculateDistanceM (Num (Fin 0)) (Num (Fin 0)) (Num (Fin 0)) (Num (Fin 0)) = Some 0"
  using great_circle_bounds
  by (auto simp: calculateDistanceM_def great_circle_sym great_circle_same to_number_def is_nullish_def
      split: jnum.splits)

end
