(* ===== verification/TimeFormat.thy ===== *)
theory TimeFormat
  imports Numbers
begin

section \<open>Ages, presence and durations (core/utils.js)\<close>

text \<open>
  How the client words the age of a signal and the state of a node. \<open>now\<close> is
  \<open>Date.now()\<close> in milliseconds. The translation table is an argument: \<open>None\<close> when the page has
  no \<open>I18n\<close>, otherwise the function \<open>I18n.t\<close>. The calendar day of a timestamp depends on the
  browser's time zone and is an argument as well.
\<close>

type_synonym i18n = "(jstr \<Rightarrow> jstr) option"

definition translated :: "i18n \<Rightarrow> string \<Rightarrow> jstr" where
  "translated tr key = (case tr of Some t \<Rightarrow> t (js key) | None \<Rightarrow> [])"

definition or_default :: "jstr \<Rightarrow> jstr \<Rightarrow> jstr" where
  "or_default s d = (if s \<noteq> [] then s else d)"

definition with_count :: "jstr \<Rightarrow> jnum \<Rightarrow> jstr \<Rightarrow> jstr \<Rightarrow> jstr" where
  "with_count str n pre post =
     (if str \<noteq> [] then replace_first (js ''{n}'') (num_str n) str else pre @ num_str n @ post)"

text \<open>\<open>!v || v <= 0\<close>, and the age in seconds of an epoch in seconds or milliseconds.\<close>

definition no_signal :: "jsval \<Rightarrow> bool" where
  "no_signal v \<longleftrightarrow> \<not> truthy v \<or> jle (to_number v) (Fin 0)"

definition age_secs :: "int \<Rightarrow> jsval \<Rightarrow> jnum" where
  "age_secs now v =
     (let n = to_number v;
          effTs = (if jlt (Fin 100000000000) n then jfloor_div 1000 n else n);
          diff = jsub (Fin (of_int (now div 1000))) effTs
      in if jlt diff (Fin 0) then Fin 0 else diff)"

definition formatLastSeen :: "i18n \<Rightarrow> int \<Rightarrow> jsval \<Rightarrow> bool \<Rightarrow> jstr" where
  "formatLastSeen tr now lastSeen isLocal =
     (if isLocal then or_default (translated tr ''time.online_local'') (js ''En l'' @ [0xED] @ js ''nea (Local)'')
      else if no_signal lastSeen
      then or_default (translated tr ''time.offline_no_signal'') (js ''Desconectado (Sin se'' @ [0xF1] @ js ''al)'')
      else
        let diff = age_secs now lastSeen in
        if jlt diff (Fin 60) then or_default (translated tr ''time.active_now'') (js ''Activo (ahora mismo)'')
        else if jlt diff (Fin 1800) then
          (let mins = jmax (Fin 1) (jfloor_div 60 diff)
           in with_count (translated tr ''time.active_mins'') mins (js ''Activo (hace '') (js ''m)''))
        else if jlt diff (Fin 7200) then
          (let mins = jfloor_div 60 diff
           in if jlt mins (Fin 60)
              then with_count (translated tr ''time.idle_mins'') mins (js ''Inactivo (hace '') (js ''m)'')
              else with_count (translated tr ''time.idle_hours'') (jfloor_div 3600 diff) (js ''Inactivo (hace '') (js ''h)''))
        else if jlt diff (Fin 86400) then
          with_count (translated tr ''time.offline_hours'') (jfloor_div 3600 diff) (js ''Desconectado (hace '') (js ''h)'')
        else with_count (translated tr ''time.offline_days'') (jmax (Fin 1) (jfloor_div 86400 diff))
               (js ''Desconectado (hace '') (js ''d)''))"

datatype presence = Online | Idle | Offline

definition getPresenceState :: "int \<Rightarrow> jsval \<Rightarrow> bool \<Rightarrow> presence" where
  "getPresenceState now lastSeen isLocal =
     (if isLocal then Online
      else if no_signal lastSeen then Offline
      else
        let diff = age_secs now lastSeen in
        if jlt diff (Fin 1800) then Online
        else if jlt diff (Fin 7200) then Idle
        else Offline)"

text \<open>The language: Spanish unless the page has an \<open>I18n\<close> whose \<open>lang\<close> is \<open>en\<close>.\<close>

definition formatTimeAgo :: "bool \<Rightarrow> int \<Rightarrow> jsval \<Rightarrow> jstr" where
  "formatTimeAgo isEs now epochSec =
     (if no_signal epochSec then js ''--''
      else
        let diff = age_secs now epochSec in
        if jlt diff (Fin 3600) then
          (let mins = jfloor_div 60 diff
           in if jlt mins (Fin 1) then (if isEs then js ''hace menos de 1 minuto'' else js ''less than 1 minute ago'')
              else if mins = Fin 1 then (if isEs then js ''hace 1 minuto'' else js ''1 minute ago'')
              else if isEs then js ''hace '' @ num_str mins @ js '' minutos'' else num_str mins @ js '' minutes ago'')
        else if jlt diff (Fin 86400) then
          (let hrs = jfloor_div 3600 diff
           in if hrs = Fin 1 then (if isEs then js ''hace 1 hora'' else js ''1 hour ago'')
              else if isEs then js ''hace '' @ num_str hrs @ js '' horas'' else num_str hrs @ js '' hours ago'')
        else
          (let days = jfloor_div 86400 diff
           in if days = Fin 1 then (if isEs then js ''hace 1 d'' @ [0xED] @ js ''a'' else js ''1 day ago'')
              else if isEs then js ''hace '' @ num_str days @ js '' d'' @ [0xED] @ js ''as''
              else num_str days @ js '' days ago''))"

definition formatUptimeSecs :: "jsval \<Rightarrow> jstr" where
  "formatUptimeSecs secs =
     (case to_number secs of
        Fin s \<Rightarrow>
          if s < 0 then js ''--''
          else
            let d = \<lfloor>s / 86400\<rfloor>; h = \<lfloor>(s - 86400 * of_int \<lfloor>s / 86400\<rfloor>) / 3600\<rfloor>;
                m = \<lfloor>(s - 3600 * of_int \<lfloor>s / 3600\<rfloor>) / 60\<rfloor>
            in if d > 0 then int_str d @ js ''d '' @ int_str h @ js ''h '' @ int_str m @ js ''m''
               else if h > 0 then int_str h @ js ''h '' @ int_str m @ js ''m''
               else int_str m @ js ''m''
      | _ \<Rightarrow> js ''--'')"

definition formatDistance :: "jsval \<Rightarrow> jstr" where
  "formatDistance meters =
     (if is_nullish meters then js ''--''
      else case to_number meters of
        Fin m \<Rightarrow>
          if m < 0 then js ''--''
          else if m < 1000 then int_str (js_round m) @ js '' m''
          else to_fixed 1 (m / 1000) @ js '' km''
      | _ \<Rightarrow> js ''--'')"

text \<open>
  The unit loop of \<open>formatRelativeTime\<close>: the largest unit that the age reaches, seconds
  otherwise. \<open>fmt\<close> is \<open>Intl.RelativeTimeFormat.format\<close>.
\<close>

definition relative_units :: "(string \<times> rat) list" where
  "relative_units = [(''year'', 31536000), (''month'', 2592000), (''day'', 86400), (''hour'', 3600), (''minute'', 60), (''second'', 1)]"

fun relative_unit :: "rat \<Rightarrow> (string \<times> rat) list \<Rightarrow> (int \<times> string) option" where
  "relative_unit d [] = None"
| "relative_unit d ((u, secs) # us) =
     (if \<bar>d\<bar> \<ge> secs \<or> u = ''second'' then Some (js_round (d / secs), u) else relative_unit d us)"

definition formatRelativeTime :: "(int \<Rightarrow> string \<Rightarrow> jstr) \<Rightarrow> int \<Rightarrow> int option \<Rightarrow> jstr" where
  "formatRelativeTime fmt now ts =
     (case ts of
        None \<Rightarrow> []
      | Some t \<Rightarrow> (case relative_unit (of_int (t - now) / 1000) relative_units of
                     Some (v, u) \<Rightarrow> fmt v u | None \<Rightarrow> []))"

definition getDateGroupLabel :: "i18n \<Rightarrow> (int \<Rightarrow> int) \<Rightarrow> (int \<Rightarrow> jstr) \<Rightarrow> int \<Rightarrow> int option \<Rightarrow> jstr" where
  "getDateGroupLabel tr local_day date_text now ts =
     (case ts of
        None \<Rightarrow> []
      | Some t \<Rightarrow>
          if local_day t = local_day now then or_default (translated tr ''chat.date_today'') (js ''Hoy'')
          else if local_day t = local_day now - 1 then or_default (translated tr ''chat.date_yesterday'') (js ''Ayer'')
          else date_text t)"

subsection \<open>Lemmas\<close>

lemma with_count_default [simp]: "with_count [] n p q = p @ num_str n @ q"
  by (simp add: with_count_def)

lemma or_default_Nil [simp]: "or_default [] d = d"
  by (simp add: or_default_def)

lemma translated_None [simp]: "translated None k = []"
  by (simp add: translated_def)

definition wording :: "jstr \<Rightarrow> presence" where
  "wording s =
     (if startsWith s (js ''Inactivo'') then Idle
      else if startsWith s (js ''Desconectado'') then Offline else Online)"

text \<open>
  The wording of a node's last signal and its presence class always agree, on every
  timestamp that a payload can hold, malformed ones included: text that starts with Activo
  or names the local station goes with online, Inactivo with idle, Desconectado with offline.
\<close>
theorem presence_matches_wording:
  "getPresenceState now lastSeen isLocal = wording (formatLastSeen None now lastSeen isLocal)"
  using jlt_weaken[of "age_secs now lastSeen" 60 1800]
  by (auto simp: getPresenceState_def formatLastSeen_def wording_def Let_def startsWith_def)

lemma floor_split:
  fixes s :: rat
  assumes "0 \<le> s" "0 < a"
  shows "0 \<le> s - a * of_int \<lfloor>s / a\<rfloor>" and "s - a * of_int \<lfloor>s / a\<rfloor> < a" and "0 \<le> \<lfloor>s / a\<rfloor>"
proof -
  have "of_int \<lfloor>s / a\<rfloor> \<le> s / a" "s / a < of_int \<lfloor>s / a\<rfloor> + 1" by linarith+
  with assms(2) have "of_int \<lfloor>s / a\<rfloor> * a \<le> s" "s < (of_int \<lfloor>s / a\<rfloor> + 1) * a"
    by (simp_all only: pos_le_divide_eq pos_divide_less_eq)
  then show "0 \<le> s - a * of_int \<lfloor>s / a\<rfloor>" "s - a * of_int \<lfloor>s / a\<rfloor> < a"
    by (simp_all add: algebra_simps)
  show "0 \<le> \<lfloor>s / a\<rfloor>" using assms by simp
qed

text \<open>The hour of the day, computed from the day's remainder, is the hour count less 24 per day.\<close>

lemma hour_of_day:
  fixes s :: rat
  assumes "0 \<le> s"
  defines "d \<equiv> \<lfloor>s / 86400\<rfloor>"
  shows "\<lfloor>(s - 86400 * of_int d) / 3600\<rfloor> = \<lfloor>s / 3600\<rfloor> - 24 * d"
proof -
  have "(s - 86400 * of_int d) / 3600 = s / 3600 - of_int (24 * d)" by (simp add: field_simps)
  then show ?thesis by (metis floor_diff_of_int)
qed

text \<open>
  An uptime is shown as days, hours and minutes in their ranges (hours below 24, minutes
  below 60) that amount to the given time up to less than a minute; leading zero units are left
  out.
\<close>
theorem formatUptimeSecs_exact:
  assumes "to_number v = Fin s" and "0 \<le> s"
  shows "\<exists>d h m. 0 \<le> d \<and> 0 \<le> h \<and> h < 24 \<and> 0 \<le> m \<and> m < 60 \<and>
      of_int (86400 * d + 3600 * h + 60 * m) \<le> s \<and> s < of_int (86400 * d + 3600 * h + 60 * m) + 60 \<and>
      formatUptimeSecs v =
        (if d > 0 then int_str d @ js ''d '' @ int_str h @ js ''h '' @ int_str m @ js ''m''
         else if h > 0 then int_str h @ js ''h '' @ int_str m @ js ''m''
         else int_str m @ js ''m'')"
proof -
  define d H h r m where "d = \<lfloor>s / 86400\<rfloor>" and "H = \<lfloor>s / 3600\<rfloor>"
    and "h = \<lfloor>(s - 86400 * of_int d) / 3600\<rfloor>" and "r = s - 3600 * of_int H" and "m = \<lfloor>r / 60\<rfloor>"
  have h: "h = H - 24 * d" using hour_of_day[OF assms(2)] by (simp add: h_def H_def d_def)
  have ds: "0 \<le> s - 86400 * of_int d" "s - 86400 * of_int d < 86400" "0 \<le> d"
    using floor_split[OF assms(2), of 86400] by (simp_all add: d_def)
  have hs: "0 \<le> h" "h < 24" using ds by (simp_all add: h_def floor_less_iff)
  have r: "0 \<le> r" "r < 3600" using floor_split[OF assms(2), of 3600] by (simp_all add: r_def H_def)
  have ms: "0 \<le> r - 60 * of_int m" "r - 60 * of_int m < 60" "0 \<le> m" "m < 60"
    using floor_split[OF r(1), of 60] r(2) by (simp_all add: m_def floor_less_iff)
  have tot: "of_int (86400 * d + 3600 * h + 60 * m) = 3600 * of_int H + 60 * (of_int m :: rat)"
    by (simp add: h)
  have le: "of_int (86400 * d + 3600 * h + 60 * m) \<le> s" "s < of_int (86400 * d + 3600 * h + 60 * m) + 60"
    unfolding tot using ms r_def by linarith+
  have "formatUptimeSecs v =
        (if d > 0 then int_str d @ js ''d '' @ int_str h @ js ''h '' @ int_str m @ js ''m''
         else if h > 0 then int_str h @ js ''h '' @ int_str m @ js ''m''
         else int_str m @ js ''m'')"
    using assms by (simp add: formatUptimeSecs_def Let_def d_def h_def m_def r_def H_def)
  with ds(3) hs ms(3,4) le show ?thesis by blast
qed

theorem formatUptimeSecs_exact_witness:
  "\<exists>d h m. 0 \<le> d \<and> h < 24 \<and> m < 60 \<and> of_int (86400 * d + 3600 * h + 60 * m) \<le> (90061 :: rat) \<and>
     formatUptimeSecs (Num (Fin 90061)) =
       (if d > 0 then int_str d @ js ''d '' @ int_str h @ js ''h '' @ int_str m @ js ''m''
         else if h > 0 then int_str h @ js ''h '' @ int_str m @ js ''m''
         else int_str m @ js ''m'')"
proof -
  have "to_number (Num (Fin 90061)) = Fin 90061" "(0::rat) \<le> 90061" by (simp_all add: to_number_def)
  from formatUptimeSecs_exact[OF this] show ?thesis by (elim exE conjE) (intro exI conjI)
qed

text \<open>
  A relative age uses the largest unit that it reaches, so below the top unit the count
  stays under the next unit: at most 60 seconds, 60 minutes, 24 hours, 30 days or 12 months, and
  from a minute on it is never zero.
\<close>
theorem relative_unit_in_range:
  "\<exists>v u. relative_unit d relative_units = Some (v, u) \<and>
     (if u = ''second'' then 0 else 1) \<le> \<bar>v\<bar> \<and>
     \<bar>v\<bar> \<le> (if u = ''second'' \<or> u = ''minute'' then 60 else if u = ''hour'' then 24
            else if u = ''day'' then 30 else if u = ''month'' then 12 else \<bar>v\<bar>)"
proof -
  have up: "\<bar>js_round (d / k)\<bar> \<le> n" if "\<bar>d\<bar> < (of_int n + 1 / 2) * k" "0 < k" for k n
  proof -
    have "d < (of_int n + 1 / 2) * k" "- ((of_int n + 1 / 2) * k) \<le> d" using that(1) by linarith+
    then have "d < (of_int n + 1 / 2) * k" "(- (of_int n + 1 / 2)) * k \<le> d" by (simp_all only: mult_minus_left)
    then have "d / k < of_int n + 1 / 2" "- (of_int n + 1 / 2) \<le> d / k"
      using that(2) by (simp_all only: pos_divide_less_eq pos_le_divide_eq)
    then show ?thesis by (simp add: js_round_def abs_le_iff floor_le_iff minus_le_iff le_floor_iff)
  qed
  have nz: "1 \<le> \<bar>js_round (d / k)\<bar>" if "k \<le> \<bar>d\<bar>" "0 < k" for k
  proof (cases "0 \<le> d")
    case True
    with that have "1 \<le> d / k" by (simp add: pos_le_divide_eq)
    then show ?thesis by (simp add: js_round_def le_floor_iff abs_if not_less)
  next
    case False
    with that have "d / k \<le> -1" by (simp add: pos_divide_le_eq)
    then have "js_round (d / k) \<le> -1" by (simp add: js_round_def floor_le_iff)
    then show ?thesis by simp
  qed
  show ?thesis
    using up[of 60 1] up[of 60 60] up[of 24 3600] up[of 30 86400] up[of 12 2592000]
      nz[of 60] nz[of 3600] nz[of 86400] nz[of 2592000] nz[of 31536000]
    by (simp add: relative_units_def not_le)
qed

end
