(* ===== verification/EventBus.thy ===== *)
theory EventBus
  imports JsString
begin

section \<open>The event bus (core/eventbus.js)\<close>

text \<open>
  \<open>EventBus\<close> on top of the browser's \<open>EventTarget\<close>. Every \<open>on\<close> and \<open>once\<close> allocates a wrapper
  closure; its identity is a number drawn from \<open>bus_next\<close>. \<open>bus_handlers\<close> is the map from
  event names to maps from handlers to wrappers, \<open>bus_target\<close> the target's list of registered
  wrappers in registration order. A handler's own effect is an argument of \<open>emit\<close>: it may
  change the bus while an event is being delivered.
\<close>

record 'h listener =
  lis_event :: jstr
  lis_id :: nat
  lis_handler :: 'h
  lis_once :: bool

record 'h bus =
  bus_target :: "'h listener list"
  bus_handlers :: "jstr \<Rightarrow> ('h \<Rightarrow> nat option) option"
  bus_next :: nat

definition empty_bus :: "'h bus" where
  "empty_bus = \<lparr>bus_target = [], bus_handlers = (\<lambda>_. None), bus_next = 0\<rparr>"

definition handler_map :: "jstr \<Rightarrow> 'h bus \<Rightarrow> 'h \<Rightarrow> nat option" where
  "handler_map ev b = (case bus_handlers b ev of Some m \<Rightarrow> m | None \<Rightarrow> (\<lambda>_. None))"

definition add_listener :: "bool \<Rightarrow> jstr \<Rightarrow> 'h \<Rightarrow> 'h bus \<Rightarrow> 'h bus" where
  "add_listener single ev h b =
     (let w = bus_next b
      in b\<lparr>bus_handlers := (bus_handlers b)(ev := Some ((handler_map ev b)(h := Some w))),
           bus_target := bus_target b @ [\<lparr>lis_event = ev, lis_id = w, lis_handler = h, lis_once = single\<rparr>],
           bus_next := Suc w\<rparr>)"

definition bus_on :: "jstr \<Rightarrow> 'h \<Rightarrow> 'h bus \<Rightarrow> 'h bus" where
  "bus_on ev h b = add_listener False ev h b"

definition bus_off :: "jstr \<Rightarrow> 'h \<Rightarrow> 'h bus \<Rightarrow> 'h bus" where
  "bus_off ev h b =
     (case bus_handlers b ev of
        None \<Rightarrow> b
      | Some m \<Rightarrow>
          (case m h of
             None \<Rightarrow> b
           | Some w \<Rightarrow> b\<lparr>bus_target := filter (\<lambda>l. \<not> (lis_event l = ev \<and> lis_id l = w)) (bus_target b),
                         bus_handlers := (bus_handlers b)(ev := Some (m(h := None)))\<rparr>))"

definition bus_once :: "jstr \<Rightarrow> 'h \<Rightarrow> 'h bus \<Rightarrow> 'h bus" where
  "bus_once ev h b = add_listener True ev h b"

text \<open>
  \<open>dispatchEvent\<close> walks a copy of the listener list and skips a listener removed in the
  meantime; a \<open>once\<close> listener is removed before its callback runs, and the callback of
  \<open>EventBus.once\<close> then calls \<open>off\<close> itself.
\<close>

type_synonym ('h, 'd, 'w) reaction = "'h \<Rightarrow> 'd \<Rightarrow> 'h bus \<times> 'w \<Rightarrow> 'h bus \<times> 'w"

definition run_listener :: "('h, 'd, 'w) reaction \<Rightarrow> jstr \<Rightarrow> 'd \<Rightarrow> 'h listener \<Rightarrow> 'h bus \<times> 'w \<Rightarrow> 'h bus \<times> 'w" where
  "run_listener react ev d l s =
     (let (b, w) = s in
      if l \<notin> set (bus_target b) then s
      else if lis_once l
      then react (lis_handler l) d
             (bus_off ev (lis_handler l) (b\<lparr>bus_target := remove1 l (bus_target b)\<rparr>), w)
      else react (lis_handler l) d (b, w))"

definition bus_emit :: "('h, 'd, 'w) reaction \<Rightarrow> jstr \<Rightarrow> 'd \<Rightarrow> 'h bus \<times> 'w \<Rightarrow> 'h bus \<times> 'w" where
  "bus_emit react ev d s =
     fold (run_listener react ev d) (filter (\<lambda>l. lis_event l = ev) (bus_target (fst s))) s"

subsection \<open>Subscriptions as a table\<close>

text \<open>
  The abstract contract: the subscriptions in order, each an event, a handler and whether it
  is for one event only. The bus keeps to it as long as no handler is subscribed twice to the
  same event.
\<close>

definition subscriptions :: "'h bus \<Rightarrow> (jstr \<times> 'h \<times> bool) list" where
  "subscriptions b = map (\<lambda>l. (lis_event l, lis_handler l, lis_once l)) (bus_target b)"

definition bus_ok :: "'h bus \<Rightarrow> bool" where
  "bus_ok b \<longleftrightarrow>
     distinct (map lis_id (bus_target b)) \<and>
     (\<forall>l \<in> set (bus_target b). lis_id l < bus_next b) \<and>
     (\<forall>ev h w. handler_map ev b h = Some w \<longleftrightarrow>
        (\<exists>l \<in> set (bus_target b). lis_event l = ev \<and> lis_handler l = h \<and> lis_id l = w))"

definition subscribed :: "jstr \<Rightarrow> 'h \<Rightarrow> 'h bus \<Rightarrow> bool" where
  "subscribed ev h b \<longleftrightarrow> (\<exists>l \<in> set (bus_target b). lis_event l = ev \<and> lis_handler l = h)"

lemma bus_ok_empty: "bus_ok empty_bus"
  by (simp add: bus_ok_def empty_bus_def handler_map_def)

lemma subscriptions_empty [simp]: "subscriptions empty_bus = []"
  by (simp add: subscriptions_def empty_bus_def)

lemma bus_ok_handler:
  "bus_ok b \<Longrightarrow> l \<in> set (bus_target b) \<Longrightarrow> handler_map (lis_event l) b (lis_handler l) = Some (lis_id l)"
  by (auto simp: bus_ok_def)

lemma bus_ok_unique:
  assumes "bus_ok b" "l \<in> set (bus_target b)" "l' \<in> set (bus_target b)"
    and "lis_event l = lis_event l'" "lis_handler l = lis_handler l'"
  shows "l = l'"
proof -
  have "lis_id l = lis_id l'"
    using bus_ok_handler[OF assms(1,2)] bus_ok_handler[OF assms(1,3)] assms(4,5) by simp
  with assms(1-3) show ?thesis by (auto simp: bus_ok_def distinct_map inj_on_def)
qed

lemma handler_map_off:
  "handler_map ev' (bus_off ev h b) = (if ev' = ev then (handler_map ev b)(h := None) else handler_map ev' b)"
  by (auto simp: bus_off_def handler_map_def split: option.splits)

lemma bus_off_target:
  assumes "bus_ok b"
  shows "bus_target (bus_off ev h b) =
    filter (\<lambda>l. \<not> (lis_event l = ev \<and> lis_handler l = h)) (bus_target b)"
proof (cases "handler_map ev b h")
  case None
  then have "\<forall>l \<in> set (bus_target b). \<not> (lis_event l = ev \<and> lis_handler l = h)"
    using bus_ok_handler[OF assms] by fastforce
  moreover have "bus_off ev h b = b"
    using None by (auto simp: bus_off_def handler_map_def split: option.splits)
  ultimately show ?thesis by (simp add: filter_eq_self)
next
  case (Some w)
  then obtain m where m: "bus_handlers b ev = Some m" "m h = Some w"
    by (auto simp: handler_map_def split: option.splits)
  have "lis_id l = w \<longleftrightarrow> lis_handler l = h" if "l \<in> set (bus_target b)" "lis_event l = ev" for l
  proof -
    from Some assms obtain k where k: "k \<in> set (bus_target b)" "lis_event k = ev" "lis_handler k = h" "lis_id k = w"
      by (auto simp: bus_ok_def)
    then show ?thesis
      using that bus_ok_unique[OF assms that(1) k(1)] assms
      by (auto simp: bus_ok_def distinct_map inj_on_def)
  qed
  with m show ?thesis by (auto simp: bus_off_def intro!: filter_cong)
qed

lemma bus_off_next [simp]: "bus_next (bus_off ev h b) = bus_next b"
  by (simp add: bus_off_def split: option.splits)

lemma bus_ok_off [step_inv]: "bus_ok b \<Longrightarrow> bus_ok (bus_off ev h b)"
  unfolding bus_ok_def[of "bus_off ev h b"]
  by (auto simp: bus_off_target handler_map_off bus_ok_def distinct_map inj_on_def)

lemma bus_ok_add [step_inv]:
  assumes "bus_ok b" "\<not> subscribed ev h b"
  shows "bus_ok (add_listener single ev h b)"
proof -
  have hm: "handler_map ev' (add_listener single ev h b) =
      (if ev' = ev then (handler_map ev b)(h := Some (bus_next b)) else handler_map ev' b)" for ev'
    by (simp add: add_listener_def handler_map_def Let_def)
  have t: "bus_target (add_listener single ev h b) =
      bus_target b @ [\<lparr>lis_event = ev, lis_id = bus_next b, lis_handler = h, lis_once = single\<rparr>]"
    by (simp add: add_listener_def Let_def)
  have n: "bus_next (add_listener single ev h b) = Suc (bus_next b)" by (simp add: add_listener_def Let_def)
  from assms show ?thesis
    unfolding bus_ok_def[of "add_listener single ev h b"]
    by (auto simp: hm t n bus_ok_def subscribed_def less_Suc_eq)
qed

subsection \<open>Delivery\<close>

text \<open>A handler that only records what it was called with.\<close>

definition note_call :: "('h, 'd, ('h \<times> 'd) list) reaction" where
  "note_call h d s = (fst s, snd s @ [(h, d)])"

lemma bus_off_removed:
  assumes "bus_ok b" "l \<in> set (bus_target b)"
  shows "bus_off (lis_event l) (lis_handler l) (b\<lparr>bus_target := remove1 l (bus_target b)\<rparr>) =
    bus_off (lis_event l) (lis_handler l) b"
proof -
  obtain m where m: "bus_handlers b (lis_event l) = Some m" "m (lis_handler l) = Some (lis_id l)"
    using bus_ok_handler[OF assms] by (auto simp: handler_map_def split: option.splits)
  have "filter P (remove1 l xs) = filter P xs" if "\<not> P l" for P and xs :: "'a listener list"
    using that by (induction xs) auto
  with m show ?thesis by (simp add: bus_off_def)
qed

lemma emit_loop:
  assumes "bus_ok b" "distinct ls" "set ls \<subseteq> {l \<in> set (bus_target b). lis_event l = ev}"
  shows "\<exists>b'. fold (run_listener note_call ev d) ls (b, w) = (b', w @ map (\<lambda>l. (lis_handler l, d)) ls) \<and>
     bus_ok b' \<and> bus_target b' = filter (\<lambda>l. \<not> (l \<in> set ls \<and> lis_once l)) (bus_target b)"
  using assms
proof (induction ls arbitrary: b w)
  case (Cons l ls)
  then have l: "l \<in> set (bus_target b)" "lis_event l = ev" "l \<notin> set ls" by auto
  define b1 where "b1 = (if lis_once l then bus_off ev (lis_handler l) b else b)"
  have step: "run_listener note_call ev d l (b, w) = (b1, w @ [(lis_handler l, d)])"
    using bus_off_removed[OF Cons.prems(1) l(1)] l
    by (simp add: run_listener_def note_call_def b1_def)
  have t: "bus_target b1 = filter (\<lambda>k. \<not> (k = l \<and> lis_once l)) (bus_target b)"
    using bus_ok_unique[OF Cons.prems(1) _ l(1)] l
    by (auto simp: b1_def bus_off_target Cons.prems(1) filter_eq_self intro!: filter_cong)
  have "bus_ok b1" using Cons.prems(1) by (simp add: b1_def bus_ok_off)
  moreover have "set ls \<subseteq> {l \<in> set (bus_target b1). lis_event l = ev}"
    using Cons.prems l by (auto simp: t)
  ultimately obtain b' where "fold (run_listener note_call ev d) ls (b1, w @ [(lis_handler l, d)]) =
      (b', (w @ [(lis_handler l, d)]) @ map (\<lambda>l. (lis_handler l, d)) ls)" "bus_ok b'"
      "bus_target b' = filter (\<lambda>l. \<not> (l \<in> set ls \<and> lis_once l)) (bus_target b1)"
    using Cons.IH[of b1 "w @ [(lis_handler l, d)]"] Cons.prems(2) by auto
  with step show ?case by (auto simp: t filter_filter intro!: filter_cong)
qed (auto simp: filter_eq_self)

lemma bus_emit_notes:
  assumes "bus_ok b"
  shows "\<exists>b'. bus_emit note_call ev d (b, w) =
       (b', w @ map (\<lambda>l. (lis_handler l, d)) (filter (\<lambda>l. lis_event l = ev) (bus_target b))) \<and>
     bus_ok b' \<and> bus_target b' = filter (\<lambda>l. \<not> (lis_event l = ev \<and> lis_once l)) (bus_target b)"
proof -
  have "distinct (bus_target b)" using assms by (auto simp: bus_ok_def distinct_map)
  with emit_loop[OF assms, of "filter (\<lambda>l. lis_event l = ev) (bus_target b)" ev d w]
  show ?thesis by (auto simp: bus_emit_def intro!: filter_cong)
qed

subsection \<open>The bus implements the subscription table\<close>

datatype 'h bus_op = On jstr 'h | Off jstr 'h | Once jstr 'h | Emit jstr

fun bus_step :: "'h bus_op \<Rightarrow> 'h bus \<times> ('h \<times> jstr) list \<Rightarrow> 'h bus \<times> ('h \<times> jstr) list" where
  "bus_step (On ev h) (b, w) = (bus_on ev h b, w)"
| "bus_step (Off ev h) (b, w) = (bus_off ev h b, w)"
| "bus_step (Once ev h) (b, w) = (bus_once ev h b, w)"
| "bus_step (Emit ev) (b, w) = bus_emit note_call ev ev (b, w)"

fun table_step :: "'h bus_op \<Rightarrow> (jstr \<times> 'h \<times> bool) list \<times> ('h \<times> jstr) list \<Rightarrow> (jstr \<times> 'h \<times> bool) list \<times> ('h \<times> jstr) list" where
  "table_step (On ev h) (t, w) = (t @ [(ev, h, False)], w)"
| "table_step (Off ev h) (t, w) = (filter (\<lambda>(e, k, _). \<not> (e = ev \<and> k = h)) t, w)"
| "table_step (Once ev h) (t, w) = (t @ [(ev, h, True)], w)"
| "table_step (Emit ev) (t, w) =
     (filter (\<lambda>(e, _, single). \<not> (e = ev \<and> single)) t,
      w @ map (\<lambda>(_, h, _). (h, ev)) (filter (\<lambda>(e, _, _). e = ev) t))"

text \<open>No step of the table subscribes a handler that is already there.\<close>

fun single_use :: "'h bus_op list \<Rightarrow> (jstr \<times> 'h \<times> bool) list \<Rightarrow> bool" where
  "single_use [] t = True"
| "single_use (op # ops) t \<longleftrightarrow>
     (case op of On ev h \<Rightarrow> (ev, h) \<notin> set (map (\<lambda>(e, k, _). (e, k)) t)
      | Once ev h \<Rightarrow> (ev, h) \<notin> set (map (\<lambda>(e, k, _). (e, k)) t) | _ \<Rightarrow> True) \<and>
     single_use ops (fst (table_step op (t, [])))"

lemma subscribed_table: "subscribed ev h b \<longleftrightarrow> (ev, h) \<in> set (map (\<lambda>(e, k, _). (e, k)) (subscriptions b))"
  by (force simp: subscribed_def subscriptions_def)

lemma subscriptions_add: "subscriptions (add_listener single ev h b) = subscriptions b @ [(ev, h, single)]"
  by (simp add: subscriptions_def add_listener_def Let_def)

lemma subscriptions_off:
  "bus_ok b \<Longrightarrow> subscriptions (bus_off ev h b) = filter (\<lambda>(e, k, _). \<not> (e = ev \<and> k = h)) (subscriptions b)"
  by (simp add: subscriptions_def bus_off_target filter_map comp_def)

lemma table_step_log: "table_step op (t, w) = (fst (table_step op (t, [])), w @ snd (table_step op (t, [])))"
  by (cases op) auto

lemma bus_step_refines:
  assumes "bus_ok b" "single_use [op] (subscriptions b)"
  shows "\<exists>b' w'. bus_step op (b, w) = (b', w') \<and> bus_ok b' \<and> table_step op (subscriptions b, w) = (subscriptions b', w')"
proof (cases op)
  case (Emit ev)
  obtain b' where "bus_emit note_call ev ev (b, w) =
       (b', w @ map (\<lambda>l. (lis_handler l, ev)) (filter (\<lambda>l. lis_event l = ev) (bus_target b)))"
     "bus_ok b'" "bus_target b' = filter (\<lambda>l. \<not> (lis_event l = ev \<and> lis_once l)) (bus_target b)"
    using bus_emit_notes[OF assms(1), of ev ev w] by blast
  with Emit show ?thesis by (simp add: subscriptions_def filter_map comp_def)
qed (use assms in \<open>auto simp: bus_on_def bus_once_def subscriptions_add subscriptions_off subscribed_table
      bus_ok_add bus_ok_off\<close>)

text \<open>
  C19: the bus implements its contract. Along any sequence of subscriptions, cancellations and
  emissions that never subscribes the same handler twice to one event, every event reaches
  exactly the handlers in the subscription table, each once and in subscription order, and a
  one-shot handler leaves the table with its event.
\<close>
theorem bus_refines_table:
  assumes "bus_ok b" and "single_use ops (subscriptions b)"
  shows "\<exists>b' w'. fold bus_step ops (b, w) = (b', w') \<and> bus_ok b' \<and>
     fold table_step ops (subscriptions b, w) = (subscriptions b', w')"
  using assms
proof (induction ops arbitrary: b w)
  case (Cons op ops)
  then have "single_use [op] (subscriptions b)" by simp
  from bus_step_refines[OF Cons.prems(1) this, of w] obtain b1 w1 where s:
    "bus_step op (b, w) = (b1, w1)" "bus_ok b1" "table_step op (subscriptions b, w) = (subscriptions b1, w1)"
    by blast
  then have "single_use ops (subscriptions b1)"
    using Cons.prems(2) table_step_log[of op "subscriptions b" w] by simp
  with Cons.IH[OF s(2), of w1] s show ?case by simp
qed auto

theorem bus_refines_table_witness:
  "\<exists>b' w'. fold bus_step [On [1] (7::nat), Once [1] 8, Emit [1], Off [1] 7, Emit [1]] (empty_bus, []) = (b', w') \<and>
     subscriptions b' = [] \<and> w' = [(7, [1]), (8, [1])]"
  using bus_refines_table[of "empty_bus :: nat bus" "[On [1] 7, Once [1] 8, Emit [1], Off [1] 7, Emit [1]]" "[]"]
  by (auto simp: bus_ok_empty simp del: bus_step.simps)

text \<open>
  Subscribing the same handler twice leaks: the map keeps only the second wrapper, so a
  cancellation leaves the first one registered, the handler still runs, and no further
  cancellation can remove it.
\<close>
theorem double_subscription_leaks:
  "let b = bus_off ev h (bus_on ev h (bus_on ev h empty_bus))
   in subscribed ev h b \<and> bus_off ev h b = b \<and> snd (bus_emit note_call ev d (b, [])) = [(h, d)]"
  by (simp add: bus_on_def bus_off_def add_listener_def empty_bus_def handler_map_def subscribed_def
      bus_emit_def run_listener_def note_call_def Let_def)

end
