(* ===== verification/ReactiveStore.thy ===== *)
theory ReactiveStore
  imports JsString
begin

section \<open>The reactive store (core/store.js)\<close>

text \<open>
  \<open>ReactiveStore\<close>: a state object behind a proxy that dispatches \<open>change:<prop>\<close> and \<open>change\<close>
  events, immediately or collected by \<open>batch\<close>. Values are a type variable with the comparison
  \<open>===\<close> as an argument; an absent property holds the value for \<open>undefined\<close>. Dispatched events
  are recorded in \<open>emitted\<close> (subscribers are observers here, they do not mutate the store). The
  functions given to \<open>batch\<close> are programs that assign, nest batches, call \<open>setMany\<close> or throw.
\<close>

record 'v change =
  ch_prop :: jstr
  ch_value :: 'v
  ch_old :: 'v

datatype 'v store_event =
    PropChange "'v change"
  | GlobalChange "'v change"
  | GlobalBatch "'v change list" "jstr \<Rightarrow> 'v"

record 'v rstore =
  raw_state :: "jstr \<Rightarrow> 'v"
  isBatching :: bool
  batchChanges :: "'v change list"
  emitted :: "'v store_event list"

definition new_store :: "(jstr \<Rightarrow> 'v) \<Rightarrow> 'v rstore" where
  "new_store init = \<lparr>raw_state = init, isBatching = False, batchChanges = [], emitted = []\<rparr>"

definition store_get :: "jstr \<Rightarrow> 'v rstore \<Rightarrow> 'v" where
  "store_get p s = raw_state s p"

definition store_set :: "('v \<Rightarrow> 'v \<Rightarrow> bool) \<Rightarrow> jstr \<Rightarrow> 'v \<Rightarrow> 'v rstore \<Rightarrow> 'v rstore" where
  "store_set same p v s =
     (let old = raw_state s p; c = \<lparr>ch_prop = p, ch_value = v, ch_old = old\<rparr>;
          s1 = s\<lparr>raw_state := (raw_state s)(p := v)\<rparr>
      in if same old v then s
         else if isBatching s then s1\<lparr>batchChanges := batchChanges s @ [c]\<rparr>
         else s1\<lparr>emitted := emitted s @ [PropChange c, GlobalChange c]\<rparr>)"

definition end_batch :: "'v rstore \<Rightarrow> 'v rstore" where
  "end_batch s =
     (let changes = batchChanges s; s1 = s\<lparr>isBatching := False, batchChanges := []\<rparr>
      in if changes = [] then s1
         else s1\<lparr>emitted := emitted s @ map PropChange changes @ [GlobalBatch changes (raw_state s)]\<rparr>)"

text \<open>The second component says that the function threw; the \<open>finally\<close> block runs all the same.\<close>

definition store_batch :: "('v rstore \<Rightarrow> 'v rstore \<times> bool) \<Rightarrow> 'v rstore \<Rightarrow> 'v rstore \<times> bool" where
  "store_batch fn s =
     (if isBatching s then fn s
      else let (s1, threw) = fn (s\<lparr>isBatching := True, batchChanges := []\<rparr>)
           in (end_batch s1, threw))"

text \<open>A patch that is no object is \<open>None\<close>; otherwise it is the list of its own entries.\<close>

definition store_setMany :: "('v \<Rightarrow> 'v \<Rightarrow> bool) \<Rightarrow> (jstr \<times> 'v) list option \<Rightarrow> 'v rstore \<Rightarrow> 'v rstore" where
  "store_setMany same patch s =
     (case patch of
        None \<Rightarrow> s
      | Some kvs \<Rightarrow> fst (store_batch (\<lambda>s. (fold (\<lambda>(k, v). store_set same k v) kvs s, False)) s))"

datatype 'v store_cmd =
    Assign jstr 'v
  | Batch "'v store_cmd list"
  | SetMany "(jstr \<times> 'v) list option"
  | Throw

fun exec_cmd :: "('v \<Rightarrow> 'v \<Rightarrow> bool) \<Rightarrow> 'v store_cmd \<Rightarrow> 'v rstore \<Rightarrow> 'v rstore \<times> bool"
  and exec_cmds :: "('v \<Rightarrow> 'v \<Rightarrow> bool) \<Rightarrow> 'v store_cmd list \<Rightarrow> 'v rstore \<Rightarrow> 'v rstore \<times> bool" where
  "exec_cmd same (Assign p v) s = (store_set same p v s, False)"
| "exec_cmd same (Batch cs) s = store_batch (exec_cmds same cs) s"
| "exec_cmd same (SetMany patch) s = (store_setMany same patch s, False)"
| "exec_cmd same Throw s = (s, True)"
| "exec_cmds same [] s = (s, False)"
| "exec_cmds same (c # cs) s =
     (let (s1, threw) = exec_cmd same c s in if threw then (s1, True) else exec_cmds same cs s1)"

subsection \<open>Replaying the events\<close>

definition apply_change :: "'v change \<Rightarrow> (jstr \<Rightarrow> 'v) \<Rightarrow> jstr \<Rightarrow> 'v" where
  "apply_change c st = st(ch_prop c := ch_value c)"

definition replay :: "'v change list \<Rightarrow> (jstr \<Rightarrow> 'v) \<Rightarrow> jstr \<Rightarrow> 'v" where
  "replay cs st = fold apply_change cs st"

fun prop_changes :: "'v store_event list \<Rightarrow> 'v change list" where
  "prop_changes [] = []"
| "prop_changes (PropChange c # es) = c # prop_changes es"
| "prop_changes (_ # es) = prop_changes es"

lemma prop_changes_append [simp]: "prop_changes (xs @ ys) = prop_changes xs @ prop_changes ys"
  by (induction xs rule: prop_changes.induct) auto

lemma prop_changes_map [simp]: "prop_changes (map PropChange cs) = cs"
  by (induction cs) auto

lemma replay_append [simp]: "replay (xs @ ys) st = replay ys (replay xs st)"
  by (simp add: replay_def)

text \<open>Outside a batch nothing is pending; events and pending changes add up to the state.\<close>

definition mirrors :: "(jstr \<Rightarrow> 'v) \<Rightarrow> 'v rstore \<Rightarrow> bool" where
  "mirrors init s \<longleftrightarrow>
     (isBatching s \<or> batchChanges s = []) \<and>
     raw_state s = replay (batchChanges s) (replay (prop_changes (emitted s)) init)"

lemma mirrors_set [step_inv]: "mirrors init s \<Longrightarrow> mirrors init (store_set same p v s)"
  by (auto simp: mirrors_def store_set_def Let_def replay_def apply_change_def)

lemma mirrors_end [step_inv]: "mirrors init s \<Longrightarrow> mirrors init (end_batch s)"
  by (auto simp: mirrors_def end_batch_def Let_def) (simp_all add: replay_def)

lemma mirrors_start: "mirrors init s \<Longrightarrow> \<not> isBatching s \<Longrightarrow> mirrors init (s\<lparr>isBatching := True, batchChanges := []\<rparr>)"
  by (simp add: mirrors_def)

lemma mirrors_batch [step_inv]:
  assumes "mirrors init s" "\<And>s. mirrors init s \<Longrightarrow> mirrors init (fst (fn s))"
  shows "mirrors init (fst (store_batch fn s))"
  using assms mirrors_start mirrors_end by (fastforce simp: store_batch_def split: prod.splits)

lemma mirrors_fold_set: "mirrors init s \<Longrightarrow> mirrors init (fold (\<lambda>(k, v). store_set same k v) kvs s)"
  by (induction kvs arbitrary: s) (auto simp: mirrors_set)

lemma mirrors_setMany [step_inv]: "mirrors init s \<Longrightarrow> mirrors init (store_setMany same patch s)"
  by (auto simp: store_setMany_def mirrors_fold_set intro!: mirrors_batch split: option.splits)

lemma mirrors_exec:
  "mirrors init s \<Longrightarrow> mirrors init (fst (exec_cmd same c s))"
  "mirrors init s \<Longrightarrow> mirrors init (fst (exec_cmds same cs s))"
proof (induction same c s and same cs s rule: exec_cmd_exec_cmds.induct)
  case (6 same c cs s)
  then show ?case by (cases "exec_cmd same c s") auto
qed (simp_all add: step_inv)

subsection \<open>What happens inside a batch\<close>

text \<open>While a batch runs nothing is emitted and the batch stays open.\<close>

definition quiet_step :: "'v rstore \<Rightarrow> 'v rstore \<Rightarrow> bool" where
  "quiet_step s s' \<longleftrightarrow> isBatching s' \<and> emitted s' = emitted s"

lemma quiet_set: "isBatching s \<Longrightarrow> quiet_step s (store_set same p v s)"
  by (simp add: quiet_step_def store_set_def Let_def)

lemma quiet_fold: "isBatching s \<Longrightarrow> quiet_step s (fold (\<lambda>(k, v). store_set same k v) kvs s)"
proof (induction kvs arbitrary: s)
  case (Cons kv kvs)
  then show ?case using quiet_set[of s same "fst kv" "snd kv"]
    by (auto simp: quiet_step_def split_beta)
qed (simp add: quiet_step_def)

lemma quiet_exec:
  "isBatching s \<Longrightarrow> quiet_step s (fst (exec_cmd same c s))"
  "isBatching s \<Longrightarrow> quiet_step s (fst (exec_cmds same cs s))"
proof (induction same c s and same cs s rule: exec_cmd_exec_cmds.induct)
  case (3 same patch s)
  then show ?case
    using quiet_fold by (auto simp: store_setMany_def store_batch_def quiet_step_def split: option.splits)
next
  case (6 same c cs s)
  then show ?case by (cases "exec_cmd same c s") (auto simp: quiet_step_def)
qed (simp_all add: quiet_set[unfolded quiet_step_def] store_batch_def quiet_step_def)

lemma batch_form:
  assumes "\<not> isBatching s" "mirrors init s"
    and quiet: "\<And>s. isBatching s \<Longrightarrow> quiet_step s (fst (fn s))"
    and mir: "\<And>i s. mirrors i s \<Longrightarrow> mirrors i (fst (fn s))"
  shows "\<exists>cs. emitted (fst (store_batch fn s)) =
       emitted s @ (if cs = [] then [] else map PropChange cs @ [GlobalBatch cs (raw_state (fst (store_batch fn s)))]) \<and>
     raw_state (fst (store_batch fn s)) = replay cs (raw_state s) \<and> \<not> isBatching (fst (store_batch fn s))"
proof -
  let ?s0 = "s\<lparr>isBatching := True, batchChanges := []\<rparr>"
  obtain s1 t where s1: "fn ?s0 = (s1, t)" by (cases "fn ?s0")
  have q: "isBatching s1" "emitted s1 = emitted s" using quiet[of ?s0] s1 by (simp_all add: quiet_step_def)
  have "mirrors (raw_state s) (?s0\<lparr>emitted := []\<rparr>)" by (simp add: mirrors_def replay_def)
  have "mirrors init s1" using mir[of init ?s0] mirrors_start assms(1,2) s1 by fastforce
  then have "raw_state s1 = replay (batchChanges s1) (raw_state s)"
    using assms(1,2) q by (auto simp: mirrors_def replay_def)
  with s1 q assms(1) show ?thesis
    by (intro exI[of _ "batchChanges s1"]) (simp add: store_batch_def end_batch_def Let_def)
qed

text \<open>
  A subscriber that applies every \<open>change:<prop>\<close> event to a copy of the initial state holds
  the store's state after any program, with nested batches, \<open>setMany\<close> and exceptions.
\<close>
theorem store_events_mirror_state:
  "raw_state (fst (exec_cmds same cs (new_store init))) =
     replay (prop_changes (emitted (fst (exec_cmds same cs (new_store init))))) init"
proof -
  have "mirrors init (new_store init)" by (simp add: mirrors_def new_store_def replay_def)
  then have m: "mirrors init (fst (exec_cmds same cs (new_store init)))" by (rule mirrors_exec)
  have nb: "\<not> isBatching (fst (exec_cmd same c s))" if "\<not> isBatching s" for same :: "'a \<Rightarrow> 'a \<Rightarrow> bool" and c s
    using that
    by (cases c) (auto simp: store_set_def store_batch_def store_setMany_def end_batch_def Let_def split_beta split: option.splits)
  have "\<not> isBatching (fst (exec_cmds same cs s))" if "\<not> isBatching s" for s
    using that by (induction cs arbitrary: s) (auto simp: Let_def split_beta nb)
  then have "\<not> isBatching (fst (exec_cmds same cs (new_store init)))" by (simp add: new_store_def)
  with m show ?thesis by (auto simp: mirrors_def replay_def)
qed

text \<open>
  A batch is atomic for observers of the whole state: whatever its function does (nested
  batches, an exception half way), nothing is dispatched until it ends; then come the property
  events in the order of the assignments and exactly one global event, with a snapshot of the
  final state; a batch that changes nothing is silent.
\<close>
theorem batch_single_global_event:
  assumes "mirrors init s" and "\<not> isBatching s"
  shows "\<exists>cs. emitted (fst (exec_cmd same (Batch body) s)) =
       emitted s @ (if cs = [] then []
                    else map PropChange cs @ [GlobalBatch cs (raw_state (fst (exec_cmd same (Batch body) s)))]) \<and>
     raw_state (fst (exec_cmd same (Batch body) s)) = replay cs (raw_state s) \<and>
     \<not> isBatching (fst (exec_cmd same (Batch body) s))"
  unfolding exec_cmd.simps
  using assms by (intro batch_form) (simp_all add: quiet_exec mirrors_exec)

theorem batch_single_global_event_witness:
  "\<exists>cs. emitted (fst (exec_cmd (=) (Batch [Assign [1] (5::nat), Batch [Assign [2] 6], Throw]) (new_store (\<lambda>_. 0)))) =
     (if cs = [] then [] else map PropChange cs @
        [GlobalBatch cs (raw_state (fst (exec_cmd (=) (Batch [Assign [1] 5, Batch [Assign [2] 6], Throw]) (new_store (\<lambda>_. 0)))))])"
proof -
  have "mirrors (\<lambda>_. 0) (new_store (\<lambda>_. 0 :: nat))" "\<not> isBatching (new_store (\<lambda>_. 0 :: nat))"
    by (simp_all add: mirrors_def new_store_def replay_def)
  from batch_single_global_event[OF this, of "(=)" "[Assign [1] 5, Batch [Assign [2] 6], Throw]"]
  obtain cs where "emitted (fst (exec_cmd (=) (Batch [Assign [1] (5::nat), Batch [Assign [2] 6], Throw]) (new_store (\<lambda>_. 0)))) =
    emitted (new_store (\<lambda>_. 0 :: nat)) @ (if cs = [] then [] else map PropChange cs @
        [GlobalBatch cs (raw_state (fst (exec_cmd (=) (Batch [Assign [1] 5, Batch [Assign [2] 6], Throw]) (new_store (\<lambda>_. 0)))))])"
  (is "?E = _ @ ?R cs")
    by (elim exE conjE)
  then have "?E = ?R cs" by (simp only: new_store_def rstore.select_convs append_Nil)
  then show ?thesis by (rule exI)
qed

end
