(* ===== verification/Machine.thy ===== *)
theory Machine
  imports Prelude
begin

section \<open>State machines of the client\<close>

text \<open>
  Every stateful module of the client is a deterministic machine: a state, and a step for each event
  that one of its callbacks handles; a run is the \<open>fold\<close> of the step over a list of events. This
  theory holds what the modules share: reachable states, invariants, and the guards by generation
  number with which the modules drop an answer that has been overtaken.
\<close>

inductive reachable :: "('e \<Rightarrow> 's \<Rightarrow> 's) \<Rightarrow> ('e \<Rightarrow> bool) \<Rightarrow> 's \<Rightarrow> 's \<Rightarrow> bool" for step admissible init where
  start: "reachable step admissible init init"
| event: "reachable step admissible init s \<Longrightarrow> admissible e \<Longrightarrow> reachable step admissible init (step e s)"

lemma fold_preserves:
  "P s \<Longrightarrow> (\<And>e s. e \<in> set evs \<Longrightarrow> P s \<Longrightarrow> P (step e s)) \<Longrightarrow> P (fold step evs s)"
  by (induction evs arbitrary: s) simp_all

lemma reachable_iff_run:
  "reachable step admissible init s \<longleftrightarrow> (\<exists>evs. list_all admissible evs \<and> s = fold step evs init)"
proof
  assume "reachable step admissible init s"
  then show "\<exists>evs. list_all admissible evs \<and> s = fold step evs init"
  proof (induction rule: reachable.induct)
    case start
    have "list_all admissible [] \<and> init = fold step [] init" by simp
    then show ?case ..
  next
    case (event s e)
    from event.IH obtain evs where "list_all admissible evs \<and> s = fold step evs init" ..
    with event.hyps(2) have "list_all admissible (evs @ [e]) \<and> step e s = fold step (evs @ [e]) init" by simp
    then show ?case ..
  qed
next
  assume "\<exists>evs. list_all admissible evs \<and> s = fold step evs init"
  then obtain evs where evs: "list_all admissible evs" and s: "s = fold step evs init" by blast
  show "reachable step admissible init s"
    unfolding s by (rule fold_preserves) (use evs in \<open>auto simp: list_all_iff intro: reachable.intros\<close>)
qed

text \<open>A property that every admissible step keeps, and one that holds at the start as well.\<close>

locale invariant =
  fixes step :: "'e \<Rightarrow> 's \<Rightarrow> 's" and admissible :: "'e \<Rightarrow> bool" and holds :: "'s \<Rightarrow> bool"
  assumes kept: "holds s \<Longrightarrow> admissible e \<Longrightarrow> holds (step e s)"
begin

lemma in_run: "holds s \<Longrightarrow> list_all admissible evs \<Longrightarrow> holds (fold step evs s)"
  by (rule fold_preserves) (auto simp: kept list_all_iff)

end

locale initial_invariant = invariant +
  fixes init
  assumes at_start: "holds init"
begin

lemma always: "list_all admissible evs \<Longrightarrow> holds (fold step evs init)"
  by (rule in_run[OF at_start])

lemma in_reachable: "reachable step admissible init s \<Longrightarrow> holds s"
  by (induction rule: reachable.induct) (auto simp: at_start kept)

end

text \<open>
  Overtaken answers: that a call has been overtaken does not change any more, and its answer does
  not change what can be seen of the state.
\<close>

locale overtaken_calls =
  fixes step :: "'e \<Rightarrow> 's \<Rightarrow> 's" and overtaken :: "'n \<Rightarrow> 's \<Rightarrow> bool"
    and answers :: "'n \<Rightarrow> 'e \<Rightarrow> bool" and seen :: "'s \<Rightarrow> 'v"
  assumes stays: "overtaken n s \<Longrightarrow> overtaken n (step e s)"
    and dropped: "overtaken n s \<Longrightarrow> answers n e \<Longrightarrow> seen (step e s) = seen s"
begin

lemma stays_run: "overtaken n s \<Longrightarrow> overtaken n (fold step evs s)"
  by (rule fold_preserves) (auto simp: stays)

lemma dropped_for_ever:
  "overtaken n s \<Longrightarrow> answers n e \<Longrightarrow> seen (step e (fold step evs s)) = seen (fold step evs s)"
  by (rule dropped[OF stays_run])

end

sublocale overtaken_calls \<subseteq> gone: invariant step "\<lambda>_. True" "overtaken n" for n
  by unfold_locales (rule stays)

end
