(* ===== verification/WebSocketClient.thy ===== *)
theory WebSocketClient
  imports Numbers Machine
begin

section \<open>The resilient WebSocket client (core/websocket.js)\<close>

text \<open>
  \<open>MeshCoreWebSocketClient\<close> as a transition system. Sockets and timers are numbers from one
  counter; \<open>timers\<close> is the browser's list of live timers and what each does, \<open>ready\<close> the state
  of every socket made so far. Handlers of a socket the client has let go are null, so only
  events of the current socket do anything; what survives a replacement are the
  \<open>onclose\<close> continuations that wait for the session check (\<open>pending\<close>, each with the socket it
  saw). The environment chooses the events, whether constructing or sending throws, the
  random jitter and the answer of the session check. \<open>out\<close> records what the client does.
\<close>

datatype ws_status = Disconnected | Connecting | Connected | Reconnecting

datatype ready_state = RsConnecting | RsOpen | RsClosing | RsClosed

datatype timer_kind = ReconnectTimer | HeartbeatTimer | WatchdogTimer

datatype ws_out =
    StatusChange ws_status
  | AuthExpired
  | BusEvent jstr jsval
  | SentPing nat int
  | Sent nat jsval
  | ReconnectIn nat

record ws_client =
  socket :: "nat option"
  reconnectTimer :: "nat option"
  heartbeatInterval :: "nat option"
  heartbeatTimeoutTimer :: "nat option"
  lastPing :: int
  lastPong :: int
  reconnectDelay :: nat
  ws_status :: ws_status
  ready :: "nat \<Rightarrow> ready_state"
  timers :: "(nat \<times> timer_kind) list"
  pending :: "nat option list"
  next_id :: nat
  out :: "ws_out list"

definition maxReconnectDelay :: nat where
  "maxReconnectDelay = 30000"

definition new_client :: ws_client where
  "new_client = \<lparr>socket = None, reconnectTimer = None, heartbeatInterval = None,
     heartbeatTimeoutTimer = None, lastPing = 0, lastPong = 0, reconnectDelay = 1000,
     ws_status = Disconnected, ready = (\<lambda>_. RsClosed), timers = [], pending = [], next_id = 0, out = []\<rparr>"

definition emit_out :: "ws_out \<Rightarrow> ws_client \<Rightarrow> ws_client" where
  "emit_out e c = c\<lparr>out := out c @ [e]\<rparr>"

definition setStatus :: "ws_status \<Rightarrow> ws_client \<Rightarrow> ws_client" where
  "setStatus s c = emit_out (StatusChange s) (c\<lparr>ws_status := s\<rparr>)"

text \<open>\<open>clearTimeout\<close> and \<open>clearInterval\<close>: an unknown or absent timer is ignored.\<close>

definition clear_timer :: "nat option \<Rightarrow> ws_client \<Rightarrow> ws_client" where
  "clear_timer t c = c\<lparr>timers := filter (\<lambda>(i, _). Some i \<noteq> t) (timers c)\<rparr>"

definition start_timer :: "timer_kind \<Rightarrow> ws_client \<Rightarrow> ws_client" where
  "start_timer k c = c\<lparr>timers := timers c @ [(next_id c, k)], next_id := Suc (next_id c)\<rparr>"

definition stopHeartbeat :: "ws_client \<Rightarrow> ws_client" where
  "stopHeartbeat c =
     (let c1 = (clear_timer (heartbeatInterval c) c)\<lparr>heartbeatInterval := None\<rparr>
      in (clear_timer (heartbeatTimeoutTimer c1) c1)\<lparr>heartbeatTimeoutTimer := None\<rparr>)"

definition startHeartbeat :: "ws_client \<Rightarrow> ws_client" where
  "startHeartbeat c =
     (let c1 = stopHeartbeat c
      in (start_timer HeartbeatTimer c1)\<lparr>heartbeatInterval := Some (next_id c1)\<rparr>)"

text \<open>\<open>rnd\<close> is \<open>Math.random()\<close>.\<close>

definition scheduleReconnect :: "rat \<Rightarrow> ws_client \<Rightarrow> ws_client" where
  "scheduleReconnect rnd c =
     (let c1 = setStatus Reconnecting c;
          c2 = clear_timer (reconnectTimer c1) c1;
          jitter = nat \<lfloor>rnd * (of_nat (reconnectDelay c2) / 4)\<rfloor>;
          effectiveDelay = min (reconnectDelay c2 + jitter) maxReconnectDelay;
          c3 = (start_timer ReconnectTimer (emit_out (ReconnectIn effectiveDelay) c2))\<lparr>reconnectTimer := Some (next_id c2)\<rparr>
      in c3\<lparr>reconnectDelay := min (reconnectDelay c3 * 2) maxReconnectDelay\<rparr>)"

definition drop_socket :: "ws_client \<Rightarrow> ws_client" where
  "drop_socket c =
     (case socket c of
        None \<Rightarrow> c
      | Some s \<Rightarrow> c\<lparr>socket := None, ready := (ready c)(s := RsClosing)\<rparr>)"

text \<open>\<open>ok\<close>: the \<open>WebSocket\<close> constructor does not throw.\<close>

definition ws_connect :: "bool \<Rightarrow> rat \<Rightarrow> ws_client \<Rightarrow> ws_client" where
  "ws_connect ok rnd c =
     (let c1 = setStatus Connecting (drop_socket c)
      in if ok then c1\<lparr>socket := Some (next_id c1), ready := (ready c1)(next_id c1 := RsConnecting),
                       next_id := Suc (next_id c1)\<rparr>
         else scheduleReconnect rnd c1)"

definition on_open :: "ws_client \<Rightarrow> ws_client" where
  "on_open c = startHeartbeat (setStatus Connected (c\<lparr>reconnectDelay := 1000\<rparr>))"

definition expire_session :: "ws_client \<Rightarrow> ws_client" where
  "expire_session c = emit_out AuthExpired (setStatus Disconnected c)"

definition auth_codes :: "nat set" where
  "auth_codes = {1008, 4401, 4403}"

text \<open>\<open>onclose\<close> up to its first \<open>await\<close>, and the continuation after the session check.\<close>

definition on_close :: "nat \<Rightarrow> ws_client \<Rightarrow> ws_client" where
  "on_close code c =
     (let c1 = stopHeartbeat c
      in if code \<in> auth_codes then expire_session c1
         else c1\<lparr>pending := pending c1 @ [socket c]\<rparr>)"

datatype session_check = CheckFailed | CheckAnswer nat bool jsval

definition session_lost :: "session_check \<Rightarrow> bool" where
  "session_lost r =
     (case r of
        CheckFailed \<Rightarrow> False
      | CheckAnswer status ok body \<Rightarrow>
          let session = (if ok then body else Null)
          in status = 401 \<or>
             truthy session \<and>
               (\<not> truthy (getp session (js ''authenticated'')) \<or>
                truthy (getp session (js ''must_change_credentials''))))"

definition check_done :: "nat \<Rightarrow> session_check \<Rightarrow> rat \<Rightarrow> ws_client \<Rightarrow> ws_client" where
  "check_done i r rnd c =
     (if length (pending c) \<le> i then c
      else
        let closedSocket = pending c ! i;
            c1 = c\<lparr>pending := take i (pending c) @ drop (Suc i) (pending c)\<rparr>
        in if session_lost r then expire_session c1
           else if socket c1 = None \<or> socket c1 \<noteq> closedSocket then c1
           else scheduleReconnect rnd c1)"

text \<open>\<open>onmessage\<close>: the bus event for a payload; a \<open>pong\<close> disarms the watchdog.\<close>

definition payload_type :: "jsval \<Rightarrow> jstr" where
  "payload_type p =
     toLowerCase (to_string (js_or (getp p (js ''type'')) (js_or (getp p (js ''event_type''))
       (js_or (getp p (js ''event'')) (Str [])))))"

definition payload_data :: "jsval \<Rightarrow> jsval" where
  "payload_data p = js_or (getp p (js ''data'')) p"

definition route_payload :: "jsval \<Rightarrow> jstr \<times> jsval" where
  "route_payload p =
     (let t = payload_type p in
      if t = js ''rf_packet'' then (js ''meshcore:rf_packet'', js_or (getp p (js ''data'')) (js_or (getp p (js ''packet'')) p))
      else if t = js ''system_log'' then (js ''meshcore:system_log'', payload_data p)
      else if t = js ''logs_cleared'' then (js ''meshcore:logs_cleared'', p)
      else if t = js ''metrics_update'' then (js ''meshcore:metrics_update'', p)
      else if t = js ''duty_cycle_alert'' then (js ''meshcore:duty_cycle_alert'', p)
      else if t = js ''airtime_cutoff_change'' then (js ''meshcore:airtime_cutoff_change'', p)
      else if t = js ''channels_updated'' then (js ''meshcore:channels_updated'', payload_data p)
      else if t = js ''contacts_updated'' then (js ''meshcore:contacts_updated'', payload_data p)
      else if t = js ''config_updated'' then (js ''meshcore:config_updated'', payload_data p)
      else if t = js ''message_status'' then (js ''meshcore:message_status'', payload_data p)
      else (js ''meshcore:rx_packet'', p))"

definition on_message :: "jsval option \<Rightarrow> int \<Rightarrow> ws_client \<Rightarrow> ws_client" where
  "on_message data now c =
     (case data of
        None \<Rightarrow> c
      | Some p \<Rightarrow>
          if \<not> is_object p then c
          else if payload_type p = js ''pong''
          then (clear_timer (heartbeatTimeoutTimer c) (c\<lparr>lastPong := now\<rparr>))\<lparr>heartbeatTimeoutTimer := None\<rparr>
          else (let (ev, d) = route_payload p in emit_out (BusEvent ev d) c))"

definition is_open :: "ws_client \<Rightarrow> bool" where
  "is_open c = (case socket c of Some s \<Rightarrow> ready c s = RsOpen | None \<Rightarrow> False)"

definition ws_send :: "jsval \<Rightarrow> ws_client \<Rightarrow> ws_client \<times> bool" where
  "ws_send msg c =
     (case socket c of
        Some s \<Rightarrow> if ready c s = RsOpen then (emit_out (Sent s msg) c, True) else (c, False)
      | None \<Rightarrow> (c, False))"

definition ws_close :: "ws_client \<Rightarrow> ws_client" where
  "ws_close c =
     (let c1 = stopHeartbeat c
      in setStatus Disconnected (drop_socket (clear_timer (reconnectTimer c1) c1)))"

text \<open>The timer callbacks. A heartbeat whose \<open>send\<close> throws does not arm the watchdog.\<close>

definition heartbeat :: "int \<Rightarrow> bool \<Rightarrow> ws_client \<Rightarrow> ws_client" where
  "heartbeat now send_ok c =
     (if \<not> is_open c then c
      else
        let c1 = c\<lparr>lastPing := now\<rparr>
        in if \<not> send_ok then c1
           else
             let c2 = emit_out (SentPing (the (socket c1)) now) c1;
                 c3 = clear_timer (heartbeatTimeoutTimer c2) c2
             in (start_timer WatchdogTimer c3)\<lparr>heartbeatTimeoutTimer := Some (next_id c3)\<rparr>)"

definition watchdog :: "ws_client \<Rightarrow> ws_client" where
  "watchdog c =
     (case socket c of
        Some s \<Rightarrow> c\<lparr>ready := (ready c)(s := (if ready c s = RsClosed then RsClosed else RsClosing))\<rparr>
      | None \<Rightarrow> c)"

datatype ws_event =
    Connect bool rat
  | Close
  | Send jsval
  | SockOpen nat
  | SockClose nat nat
  | SockMessage nat "jsval option" int
  | CheckDone nat session_check rat
  | Fire nat bool rat int bool

definition fire_timer :: "nat \<Rightarrow> bool \<Rightarrow> rat \<Rightarrow> int \<Rightarrow> bool \<Rightarrow> ws_client \<Rightarrow> ws_client" where
  "fire_timer t ok rnd now send_ok c =
     (case map_of (timers c) t of
        None \<Rightarrow> c
      | Some ReconnectTimer \<Rightarrow> ws_connect ok rnd (clear_timer (Some t) c)
      | Some HeartbeatTimer \<Rightarrow> heartbeat now send_ok c
      | Some WatchdogTimer \<Rightarrow> watchdog (clear_timer (Some t) c))"

fun ws_step :: "ws_event \<Rightarrow> ws_client \<Rightarrow> ws_client" where
  "ws_step (Connect ok rnd) c = ws_connect ok rnd c"
| "ws_step Close c = ws_close c"
| "ws_step (Send m) c = fst (ws_send m c)"
| "ws_step (SockOpen s) c =
     (let c1 = c\<lparr>ready := (ready c)(s := RsOpen)\<rparr> in if socket c = Some s then on_open c1 else c1)"
| "ws_step (SockClose s code) c =
     (let c1 = c\<lparr>ready := (ready c)(s := RsClosed)\<rparr> in if socket c = Some s then on_close code c1 else c1)"
| "ws_step (SockMessage s data now) c = (if socket c = Some s then on_message data now c else c)"
| "ws_step (CheckDone i r rnd) c = check_done i r rnd c"
| "ws_step (Fire t ok rnd now send_ok) c = fire_timer t ok rnd now send_ok c"

subsection \<open>The invariant\<close>

definition timer_slot :: "timer_kind \<Rightarrow> ws_client \<Rightarrow> nat option" where
  "timer_slot k c =
     (case k of ReconnectTimer \<Rightarrow> reconnectTimer c | HeartbeatTimer \<Rightarrow> heartbeatInterval c
      | WatchdogTimer \<Rightarrow> heartbeatTimeoutTimer c)"

text \<open>Every live timer is the one its field names, so there is at most one of each kind.\<close>

definition timers_ok :: "ws_client \<Rightarrow> bool" where
  "timers_ok c \<longleftrightarrow> distinct (map fst (timers c)) \<and> (\<forall>(i, k) \<in> set (timers c). i < next_id c \<and> timer_slot k c = Some i)"

definition delays_ok :: "ws_client \<Rightarrow> bool" where
  "delays_ok c \<longleftrightarrow> 1000 \<le> reconnectDelay c \<and> reconnectDelay c \<le> maxReconnectDelay \<and>
     (\<forall>d. ReconnectIn d \<in> set (out c) \<longrightarrow> 1000 \<le> d \<and> d \<le> maxReconnectDelay)"

definition ws_inv :: "ws_client \<Rightarrow> bool" where
  "ws_inv c \<longleftrightarrow> timers_ok c \<and> delays_ok c"

lemma timers_ok_cong:
  assumes "timers c' = timers c" "next_id c \<le> next_id c'" "\<And>k. timer_slot k c' = timer_slot k c"
  shows "timers_ok c \<Longrightarrow> timers_ok c'"
  using assms by (auto simp: timers_ok_def)

lemma delays_ok_cong:
  "out c' = out c \<Longrightarrow> reconnectDelay c' = reconnectDelay c \<Longrightarrow> delays_ok c \<Longrightarrow> delays_ok c'"
  by (simp add: delays_ok_def)

lemma slot_simps [simp]:
  "timer_slot k (c\<lparr>socket := a\<rparr>) = timer_slot k c"
  "timer_slot k (c\<lparr>ready := b\<rparr>) = timer_slot k c"
  "timer_slot k (c\<lparr>pending := d\<rparr>) = timer_slot k c"
  "timer_slot k (c\<lparr>ws_status := e\<rparr>) = timer_slot k c"
  "timer_slot k (c\<lparr>out := f\<rparr>) = timer_slot k c"
  "timer_slot k (c\<lparr>lastPing := g\<rparr>) = timer_slot k c"
  "timer_slot k (c\<lparr>lastPong := g\<rparr>) = timer_slot k c"
  "timer_slot k (c\<lparr>reconnectDelay := h\<rparr>) = timer_slot k c"
  "timer_slot k (c\<lparr>next_id := h\<rparr>) = timer_slot k c"
  "timer_slot k (c\<lparr>timers := j\<rparr>) = timer_slot k c"
  by (cases k; simp add: timer_slot_def)+

lemma clear_timers_ok: "timers_ok c \<Longrightarrow> timers_ok (clear_timer t c)"
  by (auto simp: timers_ok_def clear_timer_def distinct_map_filter)

lemma slot_clear [simp]: "timer_slot k (clear_timer t c) = timer_slot k c"
  by (simp add: clear_timer_def)

text \<open>Clearing a kind's field leaves no live timer of that kind.\<close>

lemma cleared_kind:
  "timers_ok c \<Longrightarrow> (i, k) \<notin> set (timers (clear_timer (timer_slot k c) c))"
  by (auto simp: timers_ok_def clear_timer_def)

lemma timers_ok_set_slot:
  assumes "timers_ok c" "\<And>i. (i, k) \<notin> set (timers c)" "timers c' = timers c" "next_id c' = next_id c"
    and "\<And>k'. k' \<noteq> k \<Longrightarrow> timer_slot k' c' = timer_slot k' c"
  shows "timers_ok c'"
  using assms by (fastforce simp: timers_ok_def)

lemma timers_ok_start:
  assumes "timers_ok c" "\<And>i. (i, k) \<notin> set (timers c)" "timers c' = timers c @ [(next_id c, k)]"
    and "next_id c' = Suc (next_id c)" "timer_slot k c' = Some (next_id c)"
    and "\<And>k'. k' \<noteq> k \<Longrightarrow> timer_slot k' c' = timer_slot k' c"
  shows "timers_ok c'"
proof -
  have "next_id c \<notin> fst ` set (timers c)" using assms(1) by (fastforce simp: timers_ok_def)
  moreover have "timer_slot k' c' = Some i \<and> i < Suc (next_id c)" if "(i, k') \<in> set (timers c)" for i k'
    using that assms(6)[of k'] assms(1,2) by (cases "k' = k") (fastforce simp: timers_ok_def)+
  ultimately show ?thesis using assms(1,3-5) by (auto simp: timers_ok_def)
qed

lemma emit_out_ok: "ws_inv c \<Longrightarrow> (\<forall>d. e \<noteq> ReconnectIn d) \<Longrightarrow> ws_inv (emit_out e c)"
  by (auto simp: ws_inv_def emit_out_def delays_ok_def timers_ok_def)

lemma setStatus_ok: "ws_inv c \<Longrightarrow> ws_inv (setStatus s c)"
  unfolding setStatus_def
  by (rule emit_out_ok) (auto simp: ws_inv_def delays_ok_def timers_ok_def)

lemma clear_timer_ok: "ws_inv c \<Longrightarrow> ws_inv (clear_timer t c)"
  by (auto simp: ws_inv_def clear_timers_ok) (simp add: clear_timer_def delays_ok_def)

lemma clear_slot_ok:
  assumes "ws_inv c" "timers c' = timers (clear_timer (timer_slot k c) c)" "next_id c' = next_id c"
    "out c' = out c" "reconnectDelay c' = reconnectDelay c" "\<And>k'. k' \<noteq> k \<Longrightarrow> timer_slot k' c' = timer_slot k' c"
  shows "ws_inv c'"
proof -
  have "timers_ok (clear_timer (timer_slot k c) c)" using assms(1) by (simp add: ws_inv_def clear_timers_ok)
  moreover have "(i, k) \<notin> set (timers (clear_timer (timer_slot k c) c))" for i
    using assms(1) cleared_kind by (simp add: ws_inv_def)
  ultimately have "timers_ok c'"
    by (rule timers_ok_set_slot) (use assms in \<open>simp_all add: clear_timer_def\<close>)
  with assms show ?thesis by (simp add: ws_inv_def delays_ok_def)
qed

lemma other_slots:
  "k \<noteq> HeartbeatTimer \<Longrightarrow> timer_slot k (c\<lparr>heartbeatInterval := x\<rparr>) = timer_slot k c"
  "k \<noteq> WatchdogTimer \<Longrightarrow> timer_slot k (c\<lparr>heartbeatTimeoutTimer := x\<rparr>) = timer_slot k c"
  "k \<noteq> ReconnectTimer \<Longrightarrow> timer_slot k (c\<lparr>reconnectTimer := x\<rparr>) = timer_slot k c"
  "timer_slot HeartbeatTimer (c\<lparr>heartbeatInterval := x\<rparr>) = x"
  "timer_slot WatchdogTimer (c\<lparr>heartbeatTimeoutTimer := x\<rparr>) = x"
  "timer_slot ReconnectTimer (c\<lparr>reconnectTimer := x\<rparr>) = x"
  by (cases k; simp add: timer_slot_def)+

subsection \<open>Every operation keeps the invariant\<close>

lemma stopHeartbeat_ok [step_inv]: "ws_inv c \<Longrightarrow> ws_inv (stopHeartbeat c)"
proof -
  assume c: "ws_inv c"
  have "ws_inv ((clear_timer (heartbeatInterval c) c)\<lparr>heartbeatInterval := None\<rparr>)"
    by (rule clear_slot_ok[OF c, of _ HeartbeatTimer])
      (simp_all add: clear_timer_def timer_slot_def other_slots split: timer_kind.splits)
  then show ?thesis
    unfolding stopHeartbeat_def Let_def
    by (rule clear_slot_ok[of _ _ WatchdogTimer])
      (simp_all add: clear_timer_def timer_slot_def other_slots split: timer_kind.splits)
qed

lemma start_ok:
  assumes "ws_inv c" "\<And>i. (i, k) \<notin> set (timers c)" "timers c' = timers c @ [(next_id c, k)]"
    "next_id c' = Suc (next_id c)" "timer_slot k c' = Some (next_id c)"
    "\<And>k'. k' \<noteq> k \<Longrightarrow> timer_slot k' c' = timer_slot k' c" "out c' = out c" "reconnectDelay c' = reconnectDelay c"
  shows "ws_inv c'"
  using timers_ok_start[of c k c'] assms by (simp add: ws_inv_def delays_ok_def)

lemma no_heartbeat: "ws_inv c \<Longrightarrow> (i, HeartbeatTimer) \<notin> set (timers (stopHeartbeat c))"
  using cleared_kind[of c i HeartbeatTimer]
  by (auto simp: ws_inv_def stopHeartbeat_def clear_timer_def timer_slot_def Let_def)

lemma startHeartbeat_ok [step_inv]: "ws_inv c \<Longrightarrow> ws_inv (startHeartbeat c)"
  unfolding startHeartbeat_def Let_def
  by (rule start_ok[OF stopHeartbeat_ok no_heartbeat])
    (simp_all add: start_timer_def other_slots)

lemma scheduleReconnect_ok [step_inv]:
  assumes "ws_inv c" "0 \<le> rnd"
  shows "ws_inv (scheduleReconnect rnd c)"
proof -
  define c1 where "c1 = setStatus Reconnecting c"
  define c2 where "c2 = clear_timer (reconnectTimer c1) c1"
  define delay where "delay = min (reconnectDelay c2 + nat \<lfloor>rnd * (of_nat (reconnectDelay c2) / 4)\<rfloor>) maxReconnectDelay"
  have c1: "ws_inv c1" using assms by (simp add: c1_def setStatus_ok)
  then have c2: "ws_inv c2" by (simp add: c2_def clear_timer_ok)
  have none: "(i, ReconnectTimer) \<notin> set (timers c2)" for i
    using c1 cleared_kind[of c1 i ReconnectTimer] by (simp add: ws_inv_def c2_def timer_slot_def)
  let ?c3 = "(start_timer ReconnectTimer (emit_out (ReconnectIn delay) c2))\<lparr>reconnectTimer := Some (next_id c2)\<rparr>"
  have t3: "timers_ok ?c3"
    by (rule timers_ok_start[of c2 ReconnectTimer])
      (use c2 none in \<open>simp_all add: ws_inv_def start_timer_def emit_out_def other_slots\<close>)
  have "1000 \<le> delay" "delay \<le> maxReconnectDelay"
    using c2 by (auto simp: delay_def ws_inv_def delays_ok_def maxReconnectDelay_def)
  with c2 have "delays_ok ?c3"
    by (auto simp: ws_inv_def delays_ok_def start_timer_def emit_out_def)
  moreover have "scheduleReconnect rnd c = ?c3\<lparr>reconnectDelay := min (reconnectDelay ?c3 * 2) maxReconnectDelay\<rparr>"
    unfolding scheduleReconnect_def Let_def c1_def[symmetric] c2_def[symmetric] delay_def[symmetric] ..
  ultimately show ?thesis using t3
    by (auto simp: ws_inv_def delays_ok_def timers_ok_def maxReconnectDelay_def)
qed

lemma ws_inv_frame:
  assumes "ws_inv c" "timers c' = timers c" "next_id c \<le> next_id c'" "out c' = out c"
    "reconnectDelay c' = reconnectDelay c" "\<And>k. timer_slot k c' = timer_slot k c"
  shows "ws_inv c'"
  using assms by (auto simp: ws_inv_def delays_ok_def timers_ok_def)

lemma ws_inv_upd [simp]:
  "ws_inv (c\<lparr>pending := p\<rparr>) = ws_inv c"
  "ws_inv (c\<lparr>ready := r\<rparr>) = ws_inv c"
  "ws_inv (c\<lparr>socket := s\<rparr>) = ws_inv c"
  "ws_inv (c\<lparr>lastPing := t\<rparr>) = ws_inv c"
  "ws_inv (c\<lparr>lastPong := t\<rparr>) = ws_inv c"
  by (simp_all add: ws_inv_def delays_ok_def timers_ok_def)

lemma drop_socket_ok [step_inv]: "ws_inv c \<Longrightarrow> ws_inv (drop_socket c)"
  by (simp add: drop_socket_def split: option.splits)

lemma connect_ok [step_inv]: "ws_inv c \<Longrightarrow> 0 \<le> rnd \<Longrightarrow> ws_inv (ws_connect ok rnd c)"
proof -
  assume "ws_inv c" "0 \<le> rnd"
  then have c1: "ws_inv (setStatus Connecting (drop_socket c))" by (simp add: setStatus_ok drop_socket_ok)
  have "ws_inv c' \<Longrightarrow> ws_inv (c'\<lparr>next_id := Suc (next_id c')\<rparr>)" for c'
    by (rule ws_inv_frame) simp_all
  from this[of "(setStatus Connecting (drop_socket c))\<lparr>socket := a, ready := b\<rparr>" for a b] c1
  show ?thesis
    using scheduleReconnect_ok \<open>0 \<le> rnd\<close> by (simp add: ws_connect_def Let_def)
qed

lemma expire_ok [step_inv]: "ws_inv c \<Longrightarrow> ws_inv (expire_session c)"
  by (simp add: expire_session_def emit_out_ok setStatus_ok)

lemma on_open_ok [step_inv]: "ws_inv c \<Longrightarrow> ws_inv (on_open c)"
proof -
  assume "ws_inv c"
  then have "ws_inv (c\<lparr>reconnectDelay := 1000\<rparr>)"
    by (auto simp: ws_inv_def delays_ok_def timers_ok_def maxReconnectDelay_def)
  then show ?thesis by (simp add: on_open_def startHeartbeat_ok setStatus_ok)
qed

lemma on_close_ok [step_inv]: "ws_inv c \<Longrightarrow> ws_inv (on_close code c)"
  by (simp add: on_close_def Let_def stopHeartbeat_ok expire_ok)

lemma check_done_ok [step_inv]:
  assumes "ws_inv c" "0 \<le> rnd"
  shows "ws_inv (check_done i r rnd c)"
  using assms by (simp add: check_done_def Let_def expire_ok scheduleReconnect_ok)

lemma clear_watchdog_ok: "ws_inv c \<Longrightarrow> ws_inv ((clear_timer (heartbeatTimeoutTimer c) c)\<lparr>heartbeatTimeoutTimer := None\<rparr>)"
  by (erule clear_slot_ok[of _ _ WatchdogTimer]) (simp_all add: clear_timer_def timer_slot_def split: timer_kind.splits)

lemma on_message_ok [step_inv]:
  assumes "ws_inv c"
  shows "ws_inv (on_message data now c)"
proof -
  have "ws_inv ((clear_timer (heartbeatTimeoutTimer c) (c\<lparr>lastPong := now\<rparr>))\<lparr>heartbeatTimeoutTimer := None\<rparr>)"
    using clear_watchdog_ok[of "c\<lparr>lastPong := now\<rparr>"] assms by simp
  with assms show ?thesis
    by (auto simp: on_message_def emit_out_ok Let_def split_beta split: option.splits)
qed

lemma send_ok [step_inv]: "ws_inv c \<Longrightarrow> ws_inv (fst (ws_send m c))"
  by (simp add: ws_send_def emit_out_ok split: option.splits)

lemma close_ok [step_inv]: "ws_inv c \<Longrightarrow> ws_inv (ws_close c)"
  by (simp add: ws_close_def Let_def setStatus_ok drop_socket_ok clear_timer_ok stopHeartbeat_ok)

lemma heartbeat_ok [step_inv]:
  assumes "ws_inv c"
  shows "ws_inv (heartbeat now send_ok c)"
proof -
  let ?c2 = "emit_out (SentPing (the (socket c)) now) (c\<lparr>lastPing := now\<rparr>)"
  have c2: "ws_inv ?c2" using assms by (simp add: emit_out_ok)
  have none: "(i, WatchdogTimer) \<notin> set (timers (clear_timer (heartbeatTimeoutTimer ?c2) ?c2))" for i
    using c2 cleared_kind[of ?c2 i WatchdogTimer] by (simp add: ws_inv_def timer_slot_def)
  have "ws_inv ((start_timer WatchdogTimer (clear_timer (heartbeatTimeoutTimer ?c2) ?c2))
      \<lparr>heartbeatTimeoutTimer := Some (next_id (clear_timer (heartbeatTimeoutTimer ?c2) ?c2))\<rparr>)"
    by (rule start_ok[OF clear_timer_ok[OF c2] none]) (simp_all add: start_timer_def other_slots)
  with assms show ?thesis by (simp add: heartbeat_def Let_def)
qed

lemma watchdog_ok [step_inv]: "ws_inv c \<Longrightarrow> ws_inv (watchdog c)"
  by (simp add: watchdog_def split: option.splits)

text \<open>\<open>Math.random()\<close> is never negative.\<close>

fun random_ok :: "ws_event \<Rightarrow> bool" where
  "random_ok (Connect _ rnd) \<longleftrightarrow> 0 \<le> rnd \<and> rnd < 1"
| "random_ok (CheckDone _ _ rnd) \<longleftrightarrow> 0 \<le> rnd \<and> rnd < 1"
| "random_ok (Fire _ _ rnd _ _) \<longleftrightarrow> 0 \<le> rnd \<and> rnd < 1"
| "random_ok _ \<longleftrightarrow> True"

lemma fire_ok [step_inv]: "ws_inv c \<Longrightarrow> 0 \<le> rnd \<Longrightarrow> ws_inv (fire_timer t ok rnd now send_ok c)"
  by (auto simp: fire_timer_def connect_ok heartbeat_ok watchdog_ok clear_timer_ok
      split: option.splits timer_kind.splits)

lemma ws_step_ok: "ws_inv c \<Longrightarrow> random_ok e \<Longrightarrow> ws_inv (ws_step e c)"
  by (cases e)
    (auto simp: connect_ok close_ok send_ok on_open_ok on_close_ok on_message_ok check_done_ok fire_ok Let_def)

lemma ws_inv_new: "ws_inv new_client"
  by (simp add: ws_inv_def timers_ok_def delays_ok_def new_client_def maxReconnectDelay_def)

interpretation ws: initial_invariant ws_step random_ok ws_inv new_client
  by unfold_locales (simp_all add: ws_step_ok ws_inv_new)

subsection \<open>Closing\<close>

text \<open>After \<open>close()\<close>: no socket, no live timer; outputs can only report the lost session.\<close>

definition shut :: "ws_client \<Rightarrow> bool" where
  "shut c \<longleftrightarrow> socket c = None \<and> timers c = []"

fun no_connect :: "ws_event \<Rightarrow> bool" where
  "no_connect (Connect _ _) = False"
| "no_connect _ = True"

definition quiet_out :: "ws_out set" where
  "quiet_out = {StatusChange Disconnected, AuthExpired}"

lemma close_shut:
  assumes "ws_inv c"
  shows "shut (ws_close c)"
proof -
  let ?c1 = "stopHeartbeat c"
  let ?c2 = "clear_timer (reconnectTimer ?c1) ?c1"
  have i1: "ws_inv ?c1" using assms by (rule stopHeartbeat_ok)
  then have i2: "timers_ok ?c2" by (simp add: ws_inv_def clear_timers_ok)
  have "heartbeatInterval ?c2 = None" "heartbeatTimeoutTimer ?c2 = None"
    by (simp_all add: clear_timer_def stopHeartbeat_def Let_def)
  then have "(i, HeartbeatTimer) \<notin> set (timers ?c2)" "(i, WatchdogTimer) \<notin> set (timers ?c2)" for i
    using i2 by (fastforce simp: timers_ok_def timer_slot_def)+
  moreover have "(i, ReconnectTimer) \<notin> set (timers ?c2)" for i
    using i1 cleared_kind[of ?c1 i ReconnectTimer] by (simp add: ws_inv_def timer_slot_def)
  ultimately have "timers ?c2 = []"
    by (metis (full_types) list.set_intros(1) neq_Nil_conv surj_pair timer_kind.exhaust)
  then show ?thesis
    by (simp add: shut_def ws_close_def Let_def setStatus_def emit_out_def drop_socket_def split: option.splits)
qed

lemma shut_step:
  assumes "shut c" "no_connect e"
  shows "shut (ws_step e c) \<and> (\<exists>o'. out (ws_step e c) = out c @ o' \<and> set o' \<subseteq> quiet_out)"
  using assms
  by (cases e)
    (auto simp: shut_def ws_close_def stopHeartbeat_def clear_timer_def drop_socket_def setStatus_def
      emit_out_def quiet_out_def ws_send_def check_done_def expire_session_def fire_timer_def Let_def)

lemma shut_run:
  "shut c \<Longrightarrow> list_all no_connect es \<Longrightarrow>
     shut (fold ws_step es c) \<and> (\<exists>o'. out (fold ws_step es c) = out c @ o' \<and> set o' \<subseteq> quiet_out)"
proof (induction es arbitrary: c)
  case (Cons e es)
  then obtain o1 where o1: "shut (ws_step e c)" "out (ws_step e c) = out c @ o1" "set o1 \<subseteq> quiet_out"
    using shut_step[of c e] by auto
  with Cons obtain o2 where "shut (fold ws_step es (ws_step e c))"
    "out (fold ws_step es (ws_step e c)) = out (ws_step e c) @ o2" "set o2 \<subseteq> quiet_out"
    by fastforce
  with o1 show ?case by (intro conjI exI[of _ "o1 @ o2"]) auto
qed simp

subsection \<open>Properties\<close>

text \<open>
  In every reachable state the client has at most one live reconnect timer, one heartbeat
  and one watchdog, and every reconnect it ever scheduled was due after at least one and at most
  thirty seconds, whatever the sockets, the session check and the application do.
\<close>
theorem ws_timers_and_delays:
  assumes "list_all random_ok es"
  shows "distinct (map snd (timers (fold ws_step es new_client))) \<and>
    list_all (\<lambda>e. case e of ReconnectIn d \<Rightarrow> 1000 \<le> d \<and> d \<le> 30000 | _ \<Rightarrow> True)
      (out (fold ws_step es new_client))"
proof -
  have inv: "ws_inv (fold ws_step es new_client)" using assms by (rule ws.always)
  then have "inj_on snd (set (timers (fold ws_step es new_client)))"
    unfolding inj_on_def ws_inv_def timers_ok_def by (metis (mono_tags, lifting) case_prodD option.inject prod.collapse)
  moreover have "distinct (timers (fold ws_step es new_client))"
    using inv by (simp add: ws_inv_def timers_ok_def distinct_map)
  ultimately show ?thesis
    using inv by (auto simp: distinct_map ws_inv_def delays_ok_def maxReconnectDelay_def list_all_iff split: ws_out.splits)
qed

theorem ws_timers_and_delays_witness:
  "distinct (map snd (timers (fold ws_step [Connect False (1/2), Fire 0 True 0 0 True, SockOpen 1, Fire 2 True 0 5 True] new_client)))"
  by (rule ws_timers_and_delays[THEN conjunct1]) simp

text \<open>
  C4: closing is final: after \<open>close()\<close>, and until the application connects again, no event of
  old sockets, timers or pending session checks reopens the connection, schedules a
  reconnect, sends or delivers anything.
\<close>
theorem ws_close_final:
  assumes "list_all random_ok es" and "list_all no_connect es'"
  defines "c \<equiv> ws_close (fold ws_step es new_client)"
  shows "socket (fold ws_step es' c) = None \<and> timers (fold ws_step es' c) = [] \<and>
    (\<exists>o'. out (fold ws_step es' c) = out c @ o' \<and> set o' \<subseteq> {StatusChange Disconnected, AuthExpired})"
  using shut_run[OF close_shut[OF ws.always[OF assms(1)]] assms(2)]
  by (simp add: c_def shut_def quiet_out_def)

theorem ws_close_final_witness:
  "socket (fold ws_step [CheckDone 0 CheckFailed 0, Fire 1 True 0 0 True]
     (ws_close (fold ws_step [Connect True 0, SockOpen 0, SockClose 0 1006] new_client))) = None"
  by (rule ws_close_final[THEN conjunct1]) simp_all

text \<open>
  C23: a lost connection is retried: when the current socket closes for any reason but a
  rejected session, and the session check does not report the session lost, the client ends up
  reconnecting, with a live timer that will call \<open>connect\<close>.
\<close>
theorem ws_lost_connection_retried:
  fixes c :: ws_client and rnd :: rat
  assumes "socket c = Some s" and "code \<notin> auth_codes" and "\<not> session_lost r"
  defines "c' \<equiv> ws_step (CheckDone (length (pending c)) r rnd) (ws_step (SockClose s code) c)"
  shows "ws_status c' = Reconnecting \<and> (\<exists>t. reconnectTimer c' = Some t \<and> (t, ReconnectTimer) \<in> set (timers c'))"
proof -
  define c1 where "c1 = stopHeartbeat (c\<lparr>ready := (ready c)(s := RsClosed)\<rparr>)"
  have c1: "socket c1 = Some s" "pending c1 = pending c"
    using assms(1) by (simp_all add: c1_def stopHeartbeat_def clear_timer_def Let_def)
  have "ws_step (SockClose s code) c = c1\<lparr>pending := pending c @ [Some s]\<rparr>"
    using assms(1,2) c1 by (simp add: on_close_def c1_def Let_def)
  then have "c' = scheduleReconnect rnd (c1\<lparr>pending := pending c\<rparr>)"
    using assms(3) c1 by (simp add: c'_def check_done_def Let_def)
  then show ?thesis
    by (simp add: scheduleReconnect_def start_timer_def setStatus_def emit_out_def clear_timer_def Let_def)
qed

theorem ws_lost_connection_retried_witness:
  "ws_status (ws_step (CheckDone 0 CheckFailed 0) (ws_step (SockClose 0 1006) (ws_step (Connect True 0) new_client))) = Reconnecting"
proof -
  have s: "socket (ws_step (Connect True 0) new_client) = Some 0" "pending (ws_step (Connect True 0) new_client) = []"
    by (simp_all add: ws_connect_def drop_socket_def setStatus_def emit_out_def new_client_def Let_def)
  show ?thesis
    using ws_lost_connection_retried[OF s(1), of 1006 CheckFailed 0] s(2)
    by (simp add: auth_codes_def session_lost_def)
qed

text \<open>
  The back-off doubles from one second: after \<open>n\<close> reconnects without a successful opening the
  next base delay is \<open>min (1000 * 2^n) 30000\<close> milliseconds, and an opening resets it.
\<close>
theorem ws_backoff_doubles:
  "reconnectDelay (fold scheduleReconnect rnds (on_open c)) = min (1000 * 2 ^ length rnds) 30000"
proof -
  have step: "reconnectDelay (scheduleReconnect r c) = min (reconnectDelay c * 2) 30000" for r c
    by (simp add: scheduleReconnect_def start_timer_def setStatus_def emit_out_def clear_timer_def
        maxReconnectDelay_def Let_def)
  have "reconnectDelay (on_open c) = 1000"
    by (simp add: on_open_def startHeartbeat_def stopHeartbeat_def start_timer_def clear_timer_def
        setStatus_def emit_out_def Let_def)
  moreover have "reconnectDelay (fold scheduleReconnect rnds c) = min (reconnectDelay c * 2 ^ length rnds) 30000"
    if "reconnectDelay c \<le> 30000" for c
    using that
  proof (induction rnds arbitrary: c)
    case (Cons r rnds)
    have "min (min (d * 2) k * p) k = min (d * 2 * p) k" if "1 \<le> p" for d k p :: nat
    proof (cases "d * 2 \<le> k")
      case False
      then have "k \<le> d * 2 * p" "k \<le> k * p"
        using that mult_le_mono[of k "d * 2" 1 p] mult_le_mono[of k k 1 p] by simp_all
      then have "min (k * p) k = k" "min (d * 2 * p) k = k" by (simp_all only: min_absorb2)
      with False show ?thesis by (simp only: min_absorb2 nat_le_linear not_le less_imp_le)
    qed (simp add: min_def)
    from this[of "2 ^ length rnds"] Cons show ?case by (simp add: step mult.assoc)
  qed simp
  ultimately show ?thesis by simp
qed

end
