(* ===== verification/MessageCache.thy ===== *)
theory MessageCache
  imports Numbers "HOL-Library.Multiset" "HOL-Library.List_Lexorder" "HOL-Library.Product_Lexorder"
begin

section \<open>The message cache (core/storage.js)\<close>

text \<open>
  The part of \<open>MeshCoreStorage\<close> that works on the browser's database: the identity of a message,
  the merge that keeps a confirmed delivery, the writes of accepted, saved and updated messages,
  the conversation previews, the paged read of a feed and the deletions. A message is the list
  of its properties; the object store maps a station and a message identity to a message. An
  IndexedDB transaction is atomic, so an operation is a function of the whole store; its index
  \<open>by_feed_seq\<close> is the sorted list of the entries it holds.
\<close>

type_synonym props = "(jstr \<times> jsval) list"
type_synonym cache_key = "jstr \<times> jstr"
type_synonym cache = "(cache_key \<times> props) list"

definition fld :: "props \<Rightarrow> string \<Rightarrow> jsval" where
  "fld m k = getp (Obj m) (js k)"

definition with_fld :: "string \<Rightarrow> jsval \<Rightarrow> props \<Rightarrow> props" where
  "with_fld k v m = set_prop (js k) v m"

definition messageIdentity :: "props \<Rightarrow> jstr" where
  "messageIdentity m = to_string (js_or (fld m ''msg_id'') (js_or (fld m ''server_id'') (js_or (fld m ''id'') (Str []))))"

definition is_delivered :: "props \<Rightarrow> bool" where
  "is_delivered m \<longleftrightarrow> fld m ''status'' = Str (js ''delivered'')"

definition mergeMessage :: "props \<Rightarrow> props \<Rightarrow> props" where
  "mergeMessage previous incoming =
     (let merged = spread previous incoming
      in if is_delivered previous \<or> is_delivered incoming
         then with_fld ''delivered'' (Bool True) (with_fld ''status'' (Str (js ''delivered'')) merged)
         else merged)"

subsection \<open>The object store\<close>

fun assoc_put :: "'k \<Rightarrow> 'v \<Rightarrow> ('k \<times> 'v) list \<Rightarrow> ('k \<times> 'v) list" where
  "assoc_put k v [] = [(k, v)]"
| "assoc_put k v ((k', v') # xs) = (if k = k' then (k, v) # xs else (k', v') # assoc_put k v xs)"

definition assoc_del :: "'k \<Rightarrow> ('k \<times> 'v) list \<Rightarrow> ('k \<times> 'v) list" where
  "assoc_del k xs = filter (\<lambda>e. fst e \<noteq> k) xs"

definition stored :: "cache \<Rightarrow> cache_key \<Rightarrow> props" where
  "stored c k = (case map_of c k of Some m \<Rightarrow> m | None \<Rightarrow> [])"

text \<open>\<open>_accept\<close>: one message of a downloaded page.\<close>

definition accept_message :: "jstr \<Rightarrow> props \<Rightarrow> cache \<Rightarrow> cache" where
  "accept_message station message c =
     (let msgId = messageIdentity message in
      if msgId = [] \<or> \<not> truthy (fld message ''feed_key'') then c
      else assoc_put (station, msgId)
             (with_fld ''id'' (Str msgId) (with_fld ''msg_id'' (Str msgId) (with_fld ''station_id'' (Str station)
               (mergeMessage (stored c (station, msgId)) message)))) c)"

definition accept_messages :: "jstr \<Rightarrow> props list \<Rightarrow> cache \<Rightarrow> cache" where
  "accept_messages station ms c = fold (accept_message station) ms c"

text \<open>\<open>saveMessage\<close>, once its guards have let it pass.\<close>

definition save_message :: "jstr \<Rightarrow> jstr \<Rightarrow> props \<Rightarrow> cache \<Rightarrow> cache" where
  "save_message station feedKey message c =
     (let msgId = messageIdentity message
      in assoc_put (station, msgId)
           (with_fld ''id'' (Str msgId) (with_fld ''msg_id'' (Str msgId) (with_fld ''feed_key'' (Str feedKey)
             (with_fld ''station_id'' (Str station) (mergeMessage (stored c (station, msgId)) message))))) c)"

text \<open>\<open>_updateMessages\<close>: a cursor over the entries of one station.\<close>

definition update_messages :: "jstr \<Rightarrow> (props \<Rightarrow> bool) \<Rightarrow> (props \<Rightarrow> props) \<Rightarrow> cache \<Rightarrow> cache" where
  "update_messages station matches update c =
     map (\<lambda>(k, m). if fst k = station \<and> matches m then (k, update m) else (k, m)) c"

definition ack_text :: "jsval \<Rightarrow> jstr" where
  "ack_text v =
     (let s = toLowerCase (to_string (js_or v (Str []))) in if startsWith s (js ''0x'') then drop 2 s else s)"

definition all_zero :: "jstr \<Rightarrow> bool" where
  "all_zero s \<longleftrightarrow> s \<noteq> [] \<and> list_all (\<lambda>c. c = 0x30) s"

definition updateMessageExpectedAck :: "jstr \<Rightarrow> jsval \<Rightarrow> jsval \<Rightarrow> cache \<Rightarrow> cache" where
  "updateMessageExpectedAck station msgId expectedAck c =
     update_messages station (\<lambda>m. fld m ''msg_id'' = msgId)
       (\<lambda>m. with_fld ''expected_ack'' (Str (trim (ack_text expectedAck))) m) c"

definition updateMessageDelivery :: "jstr \<Rightarrow> jsval \<Rightarrow> jsval \<Rightarrow> jsval \<Rightarrow> cache \<Rightarrow> cache" where
  "updateMessageDelivery station msgId ackCode tripTime c =
     (let ack = trim (ack_text ackCode) in
      update_messages station
        (\<lambda>m. truthy msgId \<and> fld m ''msg_id'' = msgId \<or>
             ack \<noteq> [] \<and> \<not> all_zero ack \<and> ack_text (fld m ''expected_ack'') = ack)
        (\<lambda>m. with_fld ''trip_time_ms'' (js_or tripTime (js_or (fld m ''trip_time_ms'') (Num (Fin 0))))
               (with_fld ''status'' (Str (js ''delivered'')) (with_fld ''delivered'' (Bool True) m))) c)"

definition updateMessageStatus :: "jstr \<Rightarrow> jsval \<Rightarrow> jsval \<Rightarrow> cache \<Rightarrow> cache" where
  "updateMessageStatus station msgId status c =
     update_messages station (\<lambda>m. fld m ''msg_id'' = msgId)
       (\<lambda>m. mergeMessage m [(js ''status'', status), (js ''delivered'', Bool (status = Str (js ''delivered'')))]) c"

definition clear_cache :: "jstr \<Rightarrow> jsval option \<Rightarrow> cache \<Rightarrow> cache" where
  "clear_cache station feedKey c =
     filter (\<lambda>(k, m). \<not> (fst k = station \<and> (case feedKey of None \<Rightarrow> True | Some f \<Rightarrow> fld m ''feed_key'' = f))) c"

subsection \<open>Reading a feed\<close>

definition seq_num :: "props \<Rightarrow> rat option" where
  "seq_num m = (case fld m ''seq'' of Num (Fin q) \<Rightarrow> Some q | _ \<Rightarrow> None)"

definition MAX_SAFE_INTEGER :: rat where
  "MAX_SAFE_INTEGER = 9007199254740991"

text \<open>The key range \<open>[station, feed, 0] .. [station, feed, before]\<close>, open above when \<open>before\<close> is given.\<close>

definition in_range :: "jstr \<Rightarrow> jsval \<Rightarrow> rat option \<Rightarrow> cache_key \<times> props \<Rightarrow> bool" where
  "in_range station feedKey before e \<longleftrightarrow>
     fst (fst e) = station \<and> fld (snd e) ''feed_key'' = feedKey \<and>
     (case seq_num (snd e) of
        None \<Rightarrow> False
      | Some q \<Rightarrow> 0 \<le> q \<and> (case before of Some b \<Rightarrow> q < b | None \<Rightarrow> q \<le> MAX_SAFE_INTEGER))"

definition seq_of :: "props \<Rightarrow> rat" where
  "seq_of m = (case seq_num m of Some q \<Rightarrow> q | None \<Rightarrow> 0)"

text \<open>A cursor from the top takes at most \<open>limit\<close> entries; the page is then reversed.\<close>

definition cached_feed :: "jstr \<Rightarrow> jsval \<Rightarrow> nat \<Rightarrow> rat option \<Rightarrow> cache \<Rightarrow> props list" where
  "cached_feed station feedKey maxn before c =
     rev (take maxn (rev (map snd
       (sort_key (\<lambda>e. (seq_of (snd e), snd (fst e))) (filter (in_range station feedKey before) c)))))"

subsection \<open>Conversation previews\<close>

definition num_or_zero :: "jsval \<Rightarrow> jnum" where
  "num_or_zero v = to_number (js_or v (Num (Fin 0)))"

definition preview :: "props \<Rightarrow> props" where
  "preview m = [(js ''feed_key'', fld m ''feed_key''), (js ''last_seq'', fld m ''seq''),
     (js ''last_message'', Obj m), (js ''timestamp'', fld m ''timestamp'')]"

definition downloaded_previews :: "props list \<Rightarrow> props list" where
  "downloaded_previews ms =
     map preview (filter (\<lambda>m. is_integer (fld m ''seq'') \<and> 0 < seq_of m) ms)"

definition add_thread :: "props \<Rightarrow> (jsval \<times> props) list \<Rightarrow> (jsval \<times> props) list" where
  "add_thread thread convs =
     (case map_of convs (fld thread ''feed_key'') of
        None \<Rightarrow> assoc_put (fld thread ''feed_key'') thread convs
      | Some previous \<Rightarrow>
          if jle (num_or_zero (fld previous ''last_seq'')) (num_or_zero (fld thread ''last_seq''))
          then assoc_put (fld thread ''feed_key'') thread convs else convs)"

definition last_seq_rat :: "props \<Rightarrow> rat" where
  "last_seq_rat t = (case num_or_zero (fld t ''last_seq'') of Fin q \<Rightarrow> q | _ \<Rightarrow> 0)"

definition merge_conversations :: "props list \<Rightarrow> props list \<Rightarrow> props list \<Rightarrow> props list" where
  "merge_conversations old conversations messages =
     (let m0 = fold (\<lambda>t. assoc_put (fld t ''feed_key'') t) old [];
          m1 = fold add_thread (conversations @ downloaded_previews messages) m0
      in sort_key (\<lambda>t. - last_seq_rat t) (map snd m1))"

subsection \<open>Lemmas\<close>

lemma distinct_assoc_del: "distinct (map fst xs) \<Longrightarrow> distinct (map fst (assoc_del k xs))"
  by (simp add: assoc_del_def distinct_map_filter)

lemma map_of_assoc_del: "map_of (assoc_del k xs) k' = (if k' = k then None else map_of xs k')"
  by (induction xs) (auto simp: assoc_del_def)

lemma set_assoc_del: "set (assoc_del k xs) \<subseteq> set xs" "k \<notin> fst ` set (assoc_del k xs)"
  "distinct (map fst xs) \<Longrightarrow> distinct (map fst (assoc_del k xs))"
  by (auto simp: assoc_del_def distinct_map_filter)

lemma map_of_assoc_put [simp]: "map_of (assoc_put k v xs) = (map_of xs)(k \<mapsto> v)"
  by (induction xs) auto

lemma fld_with_fld: "fld (with_fld k v m) k' = (if js k = js k' then v else fld m k')"
  by (simp add: fld_def with_fld_def getp_def map_of_set_prop)

lemma merge_delivered:
  "is_delivered previous \<or> is_delivered incoming \<Longrightarrow> is_delivered (mergeMessage previous incoming)"
  by (simp add: mergeMessage_def is_delivered_def fld_with_fld)

lemma with_fld_delivered: "js k \<noteq> js ''status'' \<Longrightarrow> is_delivered (with_fld k v m) = is_delivered m"
  by (simp add: is_delivered_def fld_with_fld del: js_simps)

lemma map_of_update: "map_of (update_messages st p u c) k =
    map_option (\<lambda>m. if fst k = st \<and> p m then u m else m) (map_of c k)"
  by (induction c) (auto simp: update_messages_def)

text \<open>A stored message is delivered.\<close>

definition delivered_at :: "cache_key \<Rightarrow> cache \<Rightarrow> bool" where
  "delivered_at k c \<longleftrightarrow> (\<exists>m. map_of c k = Some m \<and> is_delivered m)"

lemma accept_message_delivered [step_inv]:
  "delivered_at k c \<Longrightarrow> delivered_at k (accept_message st m c)"
  by (auto simp: delivered_at_def accept_message_def Let_def stored_def merge_delivered with_fld_delivered)

lemma save_message_delivered [step_inv]:
  "delivered_at k c \<Longrightarrow> delivered_at k (save_message st f m c)"
  by (auto simp: delivered_at_def save_message_def Let_def stored_def merge_delivered with_fld_delivered)

lemma accept_messages_delivered [step_inv]:
  "delivered_at k c \<Longrightarrow> delivered_at k (accept_messages st ms c)"
  unfolding accept_messages_def by (induction ms arbitrary: c) (simp_all add: accept_message_delivered)

lemma update_delivered:
  assumes "delivered_at k c" "\<And>m. is_delivered m \<Longrightarrow> is_delivered (u m)"
  shows "delivered_at k (update_messages st p u c)"
  using assms by (auto simp: delivered_at_def map_of_update)

lemma update_ops_delivered [step_inv]:
  "delivered_at k c \<Longrightarrow> delivered_at k (updateMessageExpectedAck st i a c)"
  "delivered_at k c \<Longrightarrow> delivered_at k (updateMessageDelivery st i a t c)"
  "delivered_at k c \<Longrightarrow> delivered_at k (updateMessageStatus st i s c)"
  unfolding updateMessageExpectedAck_def updateMessageDelivery_def updateMessageStatus_def Let_def
  by (erule update_delivered; simp add: with_fld_delivered merge_delivered; simp add: is_delivered_def fld_with_fld)+

subsection \<open>The contract of a cache operation\<close>

text \<open>Every stored message carries the station and the identity it is stored under.\<close>

definition cache_ok :: "cache \<Rightarrow> bool" where
  "cache_ok c \<longleftrightarrow> distinct (map fst c) \<and>
     (\<forall>k m. map_of c k = Some m \<longrightarrow> fld m ''station_id'' = Str (fst k) \<and> fld m ''msg_id'' = Str (snd k))"

text \<open>
  What the client relies on when it changes the cache: a confirmed delivery stays, the entries
  of other stations stay, and the store stays consistent.
\<close>

locale cache_operation =
  fixes station :: jstr and run :: "cache \<Rightarrow> cache"
  assumes keeps_delivered: "delivered_at k c \<Longrightarrow> delivered_at k (run c)"
    and other_stations: "fst k \<noteq> station \<Longrightarrow> map_of (run c) k = map_of c k"
    and keeps_ok: "cache_ok c \<Longrightarrow> cache_ok (run c)"
begin

lemma repeat_keeps_delivered: "delivered_at k c \<Longrightarrow> delivered_at k ((run ^^ n) c)"
  by (induction n) (auto simp: keeps_delivered)

lemma repeat_other_stations: "fst k \<noteq> station \<Longrightarrow> map_of ((run ^^ n) c) k = map_of c k"
  by (induction n) (auto simp: other_stations)

end

lemma keys_assoc_put: "fst ` set (assoc_put k v xs) = insert k (fst ` set xs)"
  by (induction k v xs rule: assoc_put.induct) (auto simp: insert_commute)

lemma distinct_assoc_put: "distinct (map fst xs) \<Longrightarrow> distinct (map fst (assoc_put k v xs))"
  by (induction k v xs rule: assoc_put.induct) (auto simp: keys_assoc_put)

lemma fld_neq:
  "js ''station_id'' \<noteq> js ''msg_id''" "js ''id'' \<noteq> js ''msg_id''" "js ''id'' \<noteq> js ''station_id''"
  "js ''msg_id'' \<noteq> js ''station_id''" "js ''feed_key'' \<noteq> js ''msg_id''" "js ''feed_key'' \<noteq> js ''station_id''"
  "js ''expected_ack'' \<noteq> js ''msg_id''" "js ''expected_ack'' \<noteq> js ''station_id''"
  "js ''trip_time_ms'' \<noteq> js ''msg_id''" "js ''trip_time_ms'' \<noteq> js ''station_id''"
  "js ''status'' \<noteq> js ''msg_id''" "js ''status'' \<noteq> js ''station_id''"
  "js ''delivered'' \<noteq> js ''msg_id''" "js ''delivered'' \<noteq> js ''station_id''"
  by simp_all

lemma cache_ok_put:
  assumes "cache_ok c" "fld m ''station_id'' = Str (fst k)" "fld m ''msg_id'' = Str (snd k)"
  shows "cache_ok (assoc_put k m c)"
  using assms by (auto simp: cache_ok_def distinct_assoc_put)

lemma cache_ok_update:
  assumes "cache_ok c" "\<And>m. fld (u m) ''station_id'' = fld m ''station_id''" "\<And>m. fld (u m) ''msg_id'' = fld m ''msg_id''"
  shows "cache_ok (update_messages st p u c)"
proof -
  have "map fst (update_messages st p u c) = map fst c"
    by (auto simp: update_messages_def)
  moreover have "fld m' ''station_id'' = Str (fst k) \<and> fld m' ''msg_id'' = Str (snd k)"
    if u: "map_of (update_messages st p u c) k = Some m'" for k m'
  proof -
    from u obtain m where m: "map_of c k = Some m" "m' = (if fst k = st \<and> p m then u m else m)"
      unfolding map_of_update by blast
    have "fld m ''station_id'' = Str (fst k) \<and> fld m ''msg_id'' = Str (snd k)"
      using assms(1) m(1) unfolding cache_ok_def by blast
    with m(2) assms(2,3) show ?thesis by simp
  qed
  ultimately show ?thesis using assms(1) unfolding cache_ok_def by simp
qed

lemma update_other: "fst k \<noteq> st \<Longrightarrow> map_of (update_messages st p u c) k = map_of c k"
  by (cases "map_of c k") (simp_all add: map_of_update)

lemma save_message_other: "fst k \<noteq> st \<Longrightarrow> map_of (save_message st f m c) k = map_of c k"
  by (auto simp: save_message_def Let_def)

lemma save_message_ok: "cache_ok c \<Longrightarrow> cache_ok (save_message st f m c)"
  unfolding save_message_def Let_def
  by (auto intro!: cache_ok_put simp: fld_with_fld fld_neq simp del: js_simps)

lemma accept_message_ok: "cache_ok c \<Longrightarrow> cache_ok (accept_message st m c)"
  unfolding accept_message_def Let_def
  by (auto intro!: cache_ok_put simp: fld_with_fld fld_neq simp del: js_simps)

lemma accept_messages_ok: "cache_ok c \<Longrightarrow> cache_ok (accept_messages st ms c)"
  unfolding accept_messages_def by (induction ms arbitrary: c) (simp_all add: accept_message_ok)

lemma accept_message_other: "fst k \<noteq> st \<Longrightarrow> map_of (accept_message st m c) k = map_of c k"
  by (auto simp: accept_message_def Let_def)

lemma accept_messages_other: "fst k \<noteq> st \<Longrightarrow> map_of (accept_messages st ms c) k = map_of c k"
  unfolding accept_messages_def by (induction ms arbitrary: c) (simp_all add: accept_message_other)

lemma status_merge_fld:
  assumes "js k \<noteq> js ''status''" "js k \<noteq> js ''delivered''"
  shows "fld (mergeMessage m [(js ''status'', a), (js ''delivered'', b)]) k = fld m k"
  using assms
  by (simp add: mergeMessage_def fld_with_fld Let_def del: js_simps)
    (simp add: fld_def getp_def spread_def map_of_set_prop del: js_simps)

interpretation accept_op: cache_operation st "accept_messages st ms" for st ms
  by unfold_locales (simp_all add: accept_messages_delivered accept_messages_other accept_messages_ok)

interpretation save_op: cache_operation st "save_message st f m" for st f m
  by unfold_locales (simp_all add: save_message_delivered save_message_other save_message_ok)

lemma update_ops_other:
  "fst k \<noteq> st \<Longrightarrow> map_of (updateMessageExpectedAck st i a c) k = map_of c k"
  "fst k \<noteq> st \<Longrightarrow> map_of (updateMessageDelivery st i a t c) k = map_of c k"
  "fst k \<noteq> st \<Longrightarrow> map_of (updateMessageStatus st i s c) k = map_of c k"
  by (simp_all add: updateMessageExpectedAck_def updateMessageDelivery_def updateMessageStatus_def
      update_other Let_def)

lemma expected_ack_ok: "cache_ok c \<Longrightarrow> cache_ok (updateMessageExpectedAck st i a c)"
  unfolding updateMessageExpectedAck_def
  by (erule cache_ok_update) (simp_all add: fld_with_fld fld_neq del: js_simps)

lemma delivery_ok: "cache_ok c \<Longrightarrow> cache_ok (updateMessageDelivery st i a t c)"
  unfolding updateMessageDelivery_def Let_def
  by (erule cache_ok_update) (simp_all add: fld_with_fld fld_neq del: js_simps)

lemma status_ok: "cache_ok c \<Longrightarrow> cache_ok (updateMessageStatus st i s c)"
  unfolding updateMessageStatus_def
  by (erule cache_ok_update; rule status_merge_fld) simp_all

interpretation expected_ack_op: cache_operation st "updateMessageExpectedAck st i a" for st i a
  by unfold_locales (simp_all add: update_ops_delivered update_ops_other expected_ack_ok)

interpretation delivery_op: cache_operation st "updateMessageDelivery st i a t" for st i a t
  by unfold_locales (simp_all add: update_ops_delivered update_ops_other delivery_ok)

interpretation status_op: cache_operation st "updateMessageStatus st i s" for st i s
  by unfold_locales (simp_all add: update_ops_delivered update_ops_other status_ok)

datatype cache_op =
    Accept jstr "props list"
  | Save jstr jstr props
  | ExpectedAck jstr jsval jsval
  | Delivery jstr jsval jsval jsval
  | Status jstr jsval jsval

fun run_op :: "cache_op \<Rightarrow> cache \<Rightarrow> cache" where
  "run_op (Accept st ms) = accept_messages st ms"
| "run_op (Save st f m) = save_message st f m"
| "run_op (ExpectedAck st i a) = updateMessageExpectedAck st i a"
| "run_op (Delivery st i a t) = updateMessageDelivery st i a t"
| "run_op (Status st i s) = updateMessageStatus st i s"

lemma run_op_delivered: "delivered_at k c \<Longrightarrow> delivered_at k (run_op op c)"
  by (cases op) (simp_all add: accept_op.keeps_delivered save_op.keeps_delivered
      expected_ack_op.keeps_delivered delivery_op.keeps_delivered status_op.keeps_delivered)

lemma run_op_ok: "cache_ok c \<Longrightarrow> cache_ok (run_op op c)"
  by (cases op) (simp_all add: accept_op.keeps_ok save_op.keeps_ok expected_ack_op.keeps_ok
      delivery_op.keeps_ok status_op.keeps_ok)

subsection \<open>Pages and previews\<close>

lemma sorted_fst_key: "sorted (map (\<lambda>x. (f x, g x)) xs) \<Longrightarrow> sorted (map f xs)"
  by (induction xs) auto

definition feed_entries :: "jstr \<Rightarrow> jsval \<Rightarrow> rat option \<Rightarrow> cache \<Rightarrow> cache" where
  "feed_entries st f before c = sort_key (\<lambda>e. (seq_of (snd e), snd (fst e))) (filter (in_range st f before) c)"

lemma cached_feed_split:
  "map snd (feed_entries st f before c) =
     take (length (feed_entries st f before c) - n) (map snd (feed_entries st f before c)) @ cached_feed st f n before c"
proof -
  have "cached_feed st f n before c =
      drop (length (feed_entries st f before c) - n) (map snd (feed_entries st f before c))"
    by (simp add: cached_feed_def feed_entries_def take_rev)
  then show ?thesis by simp
qed

lemma sorted_pages: "sorted (map seq_of (map snd (sort_key (\<lambda>e. (seq_of (snd e), snd (fst e))) (es :: cache))))"
  using sorted_fst_key[OF sorted_sort_key[of "\<lambda>e. (seq_of (snd e), snd (fst e))" es]]
  by (simp add: comp_def)

lemma jle_refl: "a \<noteq> NaN \<Longrightarrow> jle a a"
  by (simp add: jle_def)

lemma jle_trans: "jle a b \<Longrightarrow> jle b c \<Longrightarrow> jle a c"
  by (cases a; cases b; cases c) (auto simp: jle_def jlt_def)

text \<open>A preview list never forgets a thread and never replaces it by an older one.\<close>

definition newer :: "props \<Rightarrow> props \<Rightarrow> bool" where
  "newer t t' \<longleftrightarrow> t' = t \<or> jle (num_or_zero (fld t ''last_seq'')) (num_or_zero (fld t' ''last_seq''))"

lemma newer_trans: "newer a b \<Longrightarrow> newer b c \<Longrightarrow> newer a c"
  using jle_trans by (auto simp: newer_def)

lemma add_thread_newer:
  assumes "map_of m f = Some t"
  shows "\<exists>t'. map_of (add_thread x m) f = Some t' \<and> newer t t'"
  using assms by (cases "fld x ''feed_key'' = f") (auto simp: add_thread_def newer_def split: option.splits)

lemma add_threads_newer:
  "map_of m f = Some t \<Longrightarrow> \<exists>t'. map_of (fold add_thread xs m) f = Some t' \<and> newer t t'"
proof (induction xs arbitrary: m t)
  case (Cons x xs)
  obtain t1 where "map_of (add_thread x m) f = Some t1" "newer t t1" using add_thread_newer[OF Cons.prems] by blast
  with Cons.IH[of "add_thread x m" t1] show ?case using newer_trans by auto
qed (simp add: newer_def)

subsection \<open>Properties\<close>

text \<open>
  C7: a confirmed delivery is final and the store stays consistent. Once a stored message is delivered, no sequence of late
  history pages, local saves, acknowledgement updates or status results makes it anything else.
\<close>
theorem delivered_is_final:
  assumes "delivered_at k c" and "cache_ok c"
  shows "delivered_at k (fold run_op ops c) \<and> cache_ok (fold run_op ops c)"
  using assms by (induction ops arbitrary: c) (auto simp: run_op_delivered run_op_ok)

theorem delivered_is_final_witness:
  "delivered_at (js ''s'', js ''1'')
     (fold run_op [Status (js ''s'') (Str (js ''1'')) (Str (js ''failed'')),
        Accept (js ''s'') [[(js ''msg_id'', Str (js ''1'')), (js ''feed_key'', Str (js ''ch_0'')), (js ''status'', Str (js ''sent''))]]]
       [((js ''s'', js ''1''), [(js ''station_id'', Str (js ''s'')), (js ''msg_id'', Str (js ''1'')), (js ''status'', Str (js ''delivered''))])])"
  by (rule delivered_is_final[THEN conjunct1])
    (simp_all add: delivered_at_def is_delivered_def cache_ok_def fld_def getp_def)

text \<open>
  Stations are isolated: an operation for one station leaves every message of every other
  station as it was, and a clearance removes nothing of them either.
\<close>
theorem stations_isolated:
  assumes "fst k \<noteq> st" and "distinct (map fst c)"
  shows "map_of (accept_messages st ms c) k = map_of c k \<and> map_of (save_message st f m c) k = map_of c k \<and>
     map_of (updateMessageExpectedAck st i a c) k = map_of c k \<and>
     map_of (updateMessageDelivery st i a t c) k = map_of c k \<and>
     map_of (updateMessageStatus st i s c) k = map_of c k \<and>
     map_of (clear_cache st feed c) k = map_of c k"
proof -
  have "map_of (filter P c) k = map_of c k" if "\<And>m. P (k, m)" for P
    using that by (induction c) auto
  then have "map_of (clear_cache st feed c) k = map_of c k"
    unfolding clear_cache_def using assms(1) by simp
  then show ?thesis
    using assms(1) accept_op.other_stations save_op.other_stations expected_ack_op.other_stations
      delivery_op.other_stations status_op.other_stations by auto
qed

theorem stations_isolated_witness:
  "map_of (clear_cache (js ''a'') None [((js ''b'', js ''1''), [])]) (js ''b'', js ''1'') = Some []"
proof -
  have "fst (js ''b'', js ''1'') \<noteq> js ''a''" "distinct (map fst [((js ''b'', js ''1''), [] :: props)])" by simp_all
  from stations_isolated[OF this] show ?thesis by simp
qed

text \<open>
  A cached page is exactly the newest messages of the feed below the given sequence number,
  oldest first: the matching messages of the station, ordered by sequence number, are the older
  ones followed by the page, and the page has as many as the limit allows.
\<close>
theorem cached_feed_newest:
  "\<exists>older. mset (older @ cached_feed st f n before c) = mset (map snd (filter (in_range st f before) c)) \<and>
     sorted (map seq_of (older @ cached_feed st f n before c)) \<and>
     length (cached_feed st f n before c) = min n (length (filter (in_range st f before) c))"
proof -
  let ?es = "feed_entries st f before c"
  have m: "mset (map snd ?es) = mset (map snd (filter (in_range st f before) c))"
    by (simp add: feed_entries_def)
  have s: "sorted (map seq_of (map snd ?es))"
    unfolding feed_entries_def by (rule sorted_pages)
  have "length (cached_feed st f n before c) = min n (length (filter (in_range st f before) c))"
    by (simp add: cached_feed_def)
  with m s show ?thesis by (subst (asm) (1 2) cached_feed_split[where n = n]) blast
qed

text \<open>
  A downloaded page never takes a conversation away from the list of previews, and never
  replaces a preview by one with a smaller last sequence number.
\<close>
theorem conversations_never_regress:
  assumes "t \<in> set old" and "distinct (map (\<lambda>t. fld t ''feed_key'') old)"
  shows "\<exists>t' \<in> set (merge_conversations old conversations messages). newer t t'"
proof -
  let ?m0 = "fold (\<lambda>t. assoc_put (fld t ''feed_key'') t) old []"
  have "map_of (fold (\<lambda>t. assoc_put (fld t ''feed_key'') t) ts m) (fld t ''feed_key'') = Some t"
    if "t \<in> set ts \<or> map_of m (fld t ''feed_key'') = Some t \<and> fld t ''feed_key'' \<notin> (\<lambda>t. fld t ''feed_key'') ` set ts"
      "distinct (map (\<lambda>t. fld t ''feed_key'') ts)" for ts m
    using that
  proof (induction ts arbitrary: m)
    case (Cons x ts)
    then show ?case by (auto intro!: Cons.IH)
  qed simp
  from this[of old "[]"] assms have "map_of ?m0 (fld t ''feed_key'') = Some t" by simp
  from add_threads_newer[OF this, of "conversations @ downloaded_previews messages"] obtain t' where
    "map_of (fold add_thread (conversations @ downloaded_previews messages) ?m0) (fld t ''feed_key'') = Some t'" "newer t t'"
    by blast
  then have "t' \<in> set (merge_conversations old conversations messages)"
    by (auto simp: merge_conversations_def Let_def image_iff dest!: map_of_SomeD intro!: bexI)
  with \<open>newer t t'\<close> show ?thesis by blast
qed

theorem conversations_never_regress_witness:
  "\<exists>t' \<in> set (merge_conversations [[(js ''feed_key'', Str (js ''ch_0'')), (js ''last_seq'', Num (Fin 7))]]
      [[(js ''feed_key'', Str (js ''ch_0'')), (js ''last_seq'', Num (Fin 3))]] []).
     newer [(js ''feed_key'', Str (js ''ch_0'')), (js ''last_seq'', Num (Fin 7))] t'"
  by (rule conversations_never_regress) simp_all

end
