(* ===== verification/HistoryAccess.thy ===== *)
theory HistoryAccess
  imports MessageCache Machine
begin

section \<open>History requests and credential changes (core/storage.js)\<close>

text \<open>
  The asynchronous half of \<open>MeshCoreStorage\<close>: \<open>getHistoryPage\<close> and \<open>getDmConversations\<close> with
  \<open>_request\<close> and \<open>_accept\<close>, cut at their \<open>await\<close>s into tasks that may be resumed in any order,
  and what happens in between: credential changes, denials by the server, local saves, updates
  and deletions. A task keeps the generation numbers its function captured. A write transaction
  is applied when it commits and is gone when it was aborted.
\<close>

record page_data =
  pd_station :: jstr
  pd_messages :: "props list"
  pd_conversations :: "props list"

record hist =
  h_db :: bool
  h_cache :: cache
  h_convs :: "jstr \<Rightarrow> props list"
  h_last_station :: "jstr option"
  h_station :: "jstr option"
  h_validated :: bool
  h_auth :: nat
  h_access :: nat
  h_blocked :: bool

datatype hist_error = StaleAuth | AuthRequired | Offline | HttpError nat | BadBody | NoStation | StationChanged

datatype query = Page jsval nat "rat option" | Threads

datatype answer = Online page_data | Cached "jstr option" "props list"

text \<open>
  The suspension points. Each keeps \<open>authGeneration\<close> and \<open>accessGeneration\<close> as captured on
  entry; those inside \<open>_request\<close> also keep the ones it captured itself.
\<close>

datatype task =
    AwaitReady query nat nat
  | AwaitFetch query nat nat nat nat
  | AwaitJson query nat nat nat nat nat bool
  | AwaitAccept query nat nat page_data
  | AwaitTx query nat nat page_data bool
  | AwaitCache query nat nat "jstr option" "props list"
  | Done answer
  | Failed hist_error

datatype resume =
    Ready
  | FetchFails
  | FetchAnswers nat bool
  | Body "jsval option"
  | TxCommits
  | TxFails
  | CacheRead

subsection \<open>Guards\<close>

definition assertAuth :: "nat \<Rightarrow> hist \<Rightarrow> hist_error option" where
  "assertAuth g h = (if g \<noteq> h_auth h then Some StaleAuth else None)"

definition assertCacheAccess :: "nat \<Rightarrow> hist \<Rightarrow> hist_error option" where
  "assertCacheAccess g h = (if g \<noteq> h_auth h then Some StaleAuth else if h_blocked h then Some AuthRequired else None)"

definition assertAccess :: "nat \<Rightarrow> hist \<Rightarrow> hist_error option" where
  "assertAccess g h = (if g \<noteq> h_access h then Some AuthRequired else None)"

fun checked :: "hist_error option list \<Rightarrow> hist \<times> task \<Rightarrow> hist \<Rightarrow> hist \<times> task" where
  "checked [] ok h = ok"
| "checked (None # cs) ok h = checked cs ok h"
| "checked (Some e # cs) ok h = (h, Failed e)"

text \<open>The listener of \<open>meshcore:credentials_changed\<close>, and \<open>_denyAccess\<close>; both abort open acceptances.\<close>

definition credentials_changed :: "hist \<Rightarrow> hist" where
  "credentials_changed h =
     h\<lparr>h_auth := h_auth h + 1, h_access := h_access h + 1, h_validated := False, h_blocked := True\<rparr>"

definition denyAccess :: "hist \<Rightarrow> hist" where
  "denyAccess h = h\<lparr>h_access := h_access h + 1, h_validated := False, h_blocked := True\<rparr>"

definition abort_tx :: "task \<Rightarrow> task" where
  "abort_tx t = (case t of AwaitTx q a c d _ \<Rightarrow> AwaitTx q a c d True | _ \<Rightarrow> t)"

subsection \<open>_request\<close>

definition obj_list :: "jsval \<Rightarrow> props list" where
  "obj_list v = (case v of Arr xs \<Rightarrow> concat (map (\<lambda>x. case x of Obj ps \<Rightarrow> [ps] | _ \<Rightarrow> []) xs) | _ \<Rightarrow> [])"

definition page_data_of :: "jsval \<Rightarrow> page_data option" where
  "page_data_of data =
     (case getp data (js ''station_id'') of
        Str st \<Rightarrow> if st = [] then None
                  else Some \<lparr>pd_station = st, pd_messages = obj_list (getp data (js ''messages'')),
                             pd_conversations = obj_list (getp data (js ''conversations''))\<rparr>
      | _ \<Rightarrow> None)"

text \<open>The part of \<open>_request\<close> after the body has been read (or could not be parsed).\<close>

definition request_result :: "nat \<Rightarrow> nat \<Rightarrow> nat \<Rightarrow> bool \<Rightarrow> jsval option \<Rightarrow> hist \<Rightarrow> hist_error + page_data" where
  "request_result ra rc status ok body h =
     (if body = None \<and> ok then Inl BadBody
      else
        let parsed = (case body of Some v \<Rightarrow> v | None \<Rightarrow> Obj []);
            result = (if is_object parsed then parsed else Obj [])
        in if ra \<noteq> h_auth h then Inl StaleAuth
           else if \<not> ok \<or> getp result (js ''status'') \<noteq> Str (js ''ok'') then Inl (HttpError status)
           else if rc \<noteq> h_access h then Inl AuthRequired
           else (case page_data_of (getp result (js ''data'')) of Some d \<Rightarrow> Inr d | None \<Rightarrow> Inl NoStation))"

subsection \<open>_accept\<close>

definition commit_page :: "page_data \<Rightarrow> hist \<Rightarrow> hist" where
  "commit_page d h =
     h\<lparr>h_cache := accept_messages (pd_station d) (pd_messages d) (h_cache h),
       h_last_station := Some (pd_station d),
       h_convs := (h_convs h)(pd_station d :=
         merge_conversations (h_convs h (pd_station d)) (pd_conversations d) (pd_messages d))\<rparr>"

definition finish_accept :: "nat \<Rightarrow> nat \<Rightarrow> page_data \<Rightarrow> hist \<Rightarrow> hist \<times> task" where
  "finish_accept a c d h =
     checked [assertAuth a h, assertAccess c h]
       (h\<lparr>h_station := Some (pd_station d), h_validated := True, h_blocked := False\<rparr>, Done (Online d)) h"

text \<open>The offline branch: serve what the cache holds for the current station.\<close>

definition offline_read :: "query \<Rightarrow> nat \<Rightarrow> nat \<Rightarrow> hist \<Rightarrow> hist \<times> task" where
  "offline_read q a c h =
     checked [assertAccess c h, assertCacheAccess a h]
       (h, (case (q, h_station h) of
              (Page f n b, Some st) \<Rightarrow> AwaitCache q a c (Some st) (if h_db h then cached_feed st f n b (h_cache h) else [])
            | (Page f n b, None) \<Rightarrow> AwaitCache q a c None []
            | (Threads, Some st) \<Rightarrow> if h_db h then AwaitCache q a c (Some st) (h_convs h st) else Done (Cached (Some st) [])
            | (Threads, None) \<Rightarrow> Done (Cached None []))) h"

text \<open>One resumption: the new state, the task's next suspension, and whether it aborts acceptances.\<close>

fun task_step :: "resume \<Rightarrow> task \<Rightarrow> hist \<Rightarrow> (hist \<times> task) \<times> bool" where
  "task_step Ready (AwaitReady q a c) h =
     (checked [assertAuth a h, assertAccess c h] (h, AwaitFetch q a c (h_auth h) (h_access h)) h, False)"
| "task_step FetchFails (AwaitFetch q a c ra rc) h =
     ((case assertAuth ra h of Some e \<Rightarrow> (h, Failed e) | None \<Rightarrow> offline_read q a c h), False)"
| "task_step (FetchAnswers status ok) (AwaitFetch q a c ra rc) h =
     (case assertAuth ra h of
        Some e \<Rightarrow> ((h, Failed e), False)
      | None \<Rightarrow> (let denied = (status = 401 \<or> status = 403)
                 in ((if denied then denyAccess h else h, AwaitJson q a c ra rc status ok), denied)))"
| "task_step (Body body) (AwaitJson q a c ra rc status ok) h =
     ((case request_result ra rc status ok body h of
         Inl e \<Rightarrow> (h, Failed e) | Inr d \<Rightarrow> (h, AwaitAccept q a c d)), False)"
| "task_step Ready (AwaitAccept q a c d) h =
     (checked [assertAuth a h, assertAccess c h]
        (if h_db h then (h, AwaitTx q a c d False) else finish_accept a c d h) h, False)"
| "task_step TxCommits (AwaitTx q a c d False) h = (finish_accept a c d (commit_page d h), False)"
| "task_step TxFails (AwaitTx q a c d x) h =
     (checked [assertAuth a h, assertAccess c h] (finish_accept a c d (h\<lparr>h_db := False\<rparr>)) h, False)"
| "task_step CacheRead (AwaitCache q a c st ms) h =
     (checked [assertAccess c h, assertCacheAccess a h]
        (h, if st \<noteq> h_station h then Failed StationChanged else Done (Cached st ms)) h, False)"
| "task_step r t h = ((h, t), False)"

subsection \<open>The system\<close>

datatype hist_event =
    StartQuery query
  | Resume nat resume
  | CredentialsChanged
  | SaveMessage jstr props
  | UpdateAck jsval jsval
  | UpdateDelivery jsval jsval jsval
  | UpdateStatus jsval jsval
  | ClearFeed "jsval option"

type_synonym hist_sys = "hist \<times> task list"

definition on_station :: "(jstr \<Rightarrow> cache \<Rightarrow> cache) \<Rightarrow> hist \<Rightarrow> hist" where
  "on_station f h = (case h_station h of Some st \<Rightarrow> if h_db h then h\<lparr>h_cache := f st (h_cache h)\<rparr> else h | None \<Rightarrow> h)"

definition saveMessage :: "jstr \<Rightarrow> props \<Rightarrow> hist \<Rightarrow> hist" where
  "saveMessage feedKey m h =
     (case h_station h of
        Some st \<Rightarrow>
          if h_db h \<and> h_validated h \<and> messageIdentity m \<noteq> []
          then h\<lparr>h_cache := save_message st feedKey m (h_cache h),
                 h_convs := (h_convs h)(st := merge_conversations (h_convs h st) []
                   [with_fld ''feed_key'' (Str feedKey) m])\<rparr>
          else h
      | None \<Rightarrow> h)"

fun sys_step :: "hist_event \<Rightarrow> hist_sys \<Rightarrow> hist_sys" where
  "sys_step (StartQuery q) (h, ts) = (h, ts @ [AwaitReady q (h_auth h) (h_access h)])"
| "sys_step (Resume i r) (h, ts) =
     (if length ts \<le> i then (h, ts)
      else
        let ((h', t'), aborts) = task_step r (ts ! i) h; ts' = ts[i := t']
        in (h', if aborts then map abort_tx ts' else ts'))"
| "sys_step CredentialsChanged (h, ts) = (credentials_changed h, map abort_tx ts)"
| "sys_step (SaveMessage f m) (h, ts) = (saveMessage f m h, ts)"
| "sys_step (UpdateAck i a) (h, ts) = (on_station (\<lambda>st. updateMessageExpectedAck st i a) h, ts)"
| "sys_step (UpdateDelivery i a t) (h, ts) = (on_station (\<lambda>st. updateMessageDelivery st i a t) h, ts)"
| "sys_step (UpdateStatus i s) (h, ts) = (on_station (\<lambda>st. updateMessageStatus st i s) h, ts)"
| "sys_step (ClearFeed f) (h, ts) = (on_station (\<lambda>st. clear_cache st f) h, ts)"

definition new_hist :: "cache \<Rightarrow> jstr option \<Rightarrow> (jstr \<Rightarrow> props list) \<Rightarrow> hist" where
  "new_hist c st convs = \<lparr>h_db = True, h_cache = c, h_convs = convs, h_last_station = st, h_station = st,
     h_validated = False, h_auth = 0, h_access = 0, h_blocked = False\<rparr>"

subsection \<open>Invariants\<close>

text \<open>The generations a task captured, while it can still act.\<close>

fun task_gens :: "task \<Rightarrow> (nat \<times> nat) option" where
  "task_gens (AwaitReady q a c) = Some (a, c)"
| "task_gens (AwaitFetch q a c ra rc) = Some (a, c)"
| "task_gens (AwaitJson q a c ra rc s ok) = Some (a, c)"
| "task_gens (AwaitAccept q a c d) = Some (a, c)"
| "task_gens (AwaitTx q a c d x) = Some (a, c)"
| "task_gens (AwaitCache q a c st ms) = Some (a, c)"
| "task_gens (Done r) = None"
| "task_gens (Failed e) = None"

text \<open>\<open>_request\<close> starts right after the caller's checks, so it captures the same numbers.\<close>

fun request_gens :: "task \<Rightarrow> bool" where
  "request_gens (AwaitFetch q a c ra rc) \<longleftrightarrow> ra = a \<and> rc = c"
| "request_gens (AwaitJson q a c ra rc s ok) \<longleftrightarrow> ra = a \<and> rc = c"
| "request_gens _ \<longleftrightarrow> True"

fun open_tx :: "task \<Rightarrow> bool" where
  "open_tx (AwaitTx q a c d x) = (\<not> x)"
| "open_tx _ = False"

text \<open>Captured generations are in the past; an acceptance still open has the current ones.\<close>

definition task_ok :: "hist \<Rightarrow> task \<Rightarrow> bool" where
  "task_ok h t \<longleftrightarrow> request_gens t \<and>
     (case task_gens t of
        None \<Rightarrow> True
      | Some (a, c) \<Rightarrow> a \<le> h_auth h \<and> c \<le> h_access h \<and> (open_tx t \<longrightarrow> a = h_auth h \<and> c = h_access h))"

definition sys_ok :: "hist_sys \<Rightarrow> bool" where
  "sys_ok s \<longleftrightarrow> list_all (task_ok (fst s)) (snd s)"

lemma checked_cases: "checked cs ok h = ok \<or> (\<exists>e. checked cs ok h = (h, Failed e))"
  by (induction cs ok h rule: checked.induct) auto

lemma checked_ok: "checked [x, y] ok h = (if x = None \<and> y = None then ok else (h, Failed (case x of Some e \<Rightarrow> e | None \<Rightarrow> the y)))"
  by (cases x; cases y) simp_all

lemmas hist_checks = assertAuth_def assertAccess_def assertCacheAccess_def checked_ok

text \<open>A resumption never touches the authentication generation; only a denial moves the access one.\<close>

lemma finish_accept_frame:
  "h_auth (fst (finish_accept a c d h)) = h_auth h" "h_access (fst (finish_accept a c d h)) = h_access h"
  "h_cache (fst (finish_accept a c d h)) = h_cache h"
  by (simp_all add: finish_accept_def hist_checks)

lemma finish_accept_gens: "task_gens (snd (finish_accept a c d h)) = None" "request_gens (snd (finish_accept a c d h))"
  by (simp_all add: finish_accept_def hist_checks)

lemma offline_read_frame: "fst (offline_read q a c h) = h"
  by (cases "(q, h_station h)" rule: prod.exhaust)
    (auto simp: offline_read_def hist_checks split: query.splits option.splits)

lemma offline_read_task:
  "task_gens (snd (offline_read q a c h)) \<in> {None, Some (a, c)}" "request_gens (snd (offline_read q a c h))"
  "\<not> open_tx (snd (offline_read q a c h))"
  by (auto simp: offline_read_def hist_checks split: query.splits option.splits)

lemma task_step_gens:
  assumes "task_step r t h = ((h', t'), ab)"
  shows "h_auth h' = h_auth h \<and> h_access h' = (if ab then h_access h + 1 else h_access h)"
  using assms
  by (cases "(r, t, h)" rule: task_step.cases)
    (auto simp: hist_checks offline_read_frame finish_accept_frame commit_page_def denyAccess_def Let_def
      split: option.splits if_splits sum.splits
      dest!: arg_cong[where f = fst] arg_cong[where f = "\<lambda>x. fst (fst x)"])

lemma abort_tx_simps [simp]:
  "task_gens (abort_tx t) = task_gens t" "request_gens (abort_tx t) = request_gens t" "\<not> open_tx (abort_tx t)"
  by (cases t; simp add: abort_tx_def)+

lemma task_ok_later:
  assumes "task_ok h t" "h_auth h \<le> h_auth h'" "h_access h \<le> h_access h'"
    and "open_tx t' \<longrightarrow> h_auth h' = h_auth h \<and> h_access h' = h_access h \<and> open_tx t"
    and "task_gens t' = task_gens t" "request_gens t' = request_gens t"
  shows "task_ok h' t'"
  using assms by (auto simp: task_ok_def split: option.splits)

lemma offline_read_eq:
  "offline_read q a c h = (h', t') \<Longrightarrow>
     h' = h \<and> (task_gens t' = None \<or> task_gens t' = Some (a, c)) \<and> request_gens t' \<and> \<not> open_tx t'"
  using offline_read_task[of q a c h] offline_read_frame[of q a c h] by auto

lemma finish_accept_eq:
  "finish_accept a c d h = (h', t') \<Longrightarrow> task_gens t' = None \<and> request_gens t' \<and> \<not> open_tx t'"
  by (auto simp: finish_accept_def hist_checks split: if_splits)

lemma task_step_task:
  assumes "task_ok h t" "task_step r t h = ((h', t'), ab)"
  shows "request_gens t' \<and> (task_gens t' = None \<or> task_gens t' = task_gens t) \<and>
     (open_tx t' \<longrightarrow> \<not> ab \<and> task_gens t = Some (h_auth h, h_access h))"
  using assms
  by (cases "(r, t, h)" rule: task_step.cases)
    (auto simp: hist_checks task_ok_def Let_def split: option.splits if_splits sum.splits
      dest!: offline_read_eq finish_accept_eq)

lemma task_step_ok:
  assumes "task_ok h t" "task_step r t h = ((h', t'), ab)"
  shows "task_ok h' (if ab then abort_tx t' else t')"
  using assms(1) task_step_task[OF assms] task_step_gens[OF assms(2)]
  by (auto simp: task_ok_def split: option.splits)

lemma sys_ok_nth: "sys_ok (h, ts) \<Longrightarrow> i < length ts \<Longrightarrow> task_ok h (ts ! i)"
  by (simp add: sys_ok_def list_all_length)

lemma abort_tx_idem [simp]: "abort_tx (abort_tx t) = abort_tx t"
  by (cases t) (simp_all add: abort_tx_def)

lemma sys_ok_resume:
  assumes "sys_ok (h, ts)"
  shows "sys_ok (sys_step (Resume i r) (h, ts))"
proof (cases "i < length ts")
  case True
  obtain h' t' ab where st: "task_step r (ts ! i) h = ((h', t'), ab)" by (metis surj_pair)
  note gens = task_step_gens[OF st]
  have ti: "task_ok h' (if ab then abort_tx t' else t')"
    using task_step_ok[OF sys_ok_nth[OF assms True] st] .
  have others: "task_ok h' (if ab then abort_tx t else t)" if "t \<in> set ts" for t
  proof -
    have "task_ok h t" using that assms by (simp add: sys_ok_def list_all_iff)
    then show ?thesis by (rule task_ok_later) (use gens in \<open>simp_all split: if_splits\<close>)
  qed
  from True st have "sys_step (Resume i r) (h, ts) = (h', if ab then map abort_tx (ts[i := t']) else ts[i := t'])"
    by simp
  moreover have "t = t' \<or> t \<in> set ts" if "t \<in> set (ts[i := t'])" for t
    using set_update_subset_insert[of ts i t'] that by auto
  ultimately show ?thesis using ti others by (cases ab) (auto simp: sys_ok_def list_all_iff)
qed (use assms in simp)

lemma hist_same_gens:
  assumes "h_auth h' = h_auth h" "h_access h' = h_access h"
  shows "sys_ok (h', ts) = sys_ok (h, ts)"
proof -
  have "task_ok h' = task_ok h" by (rule ext) (simp add: task_ok_def assms split: option.split)
  then show ?thesis by (simp add: sys_ok_def)
qed

lemma on_station_gens [simp]:
  "h_auth (on_station f h) = h_auth h" "h_access (on_station f h) = h_access h"
  "h_validated (on_station f h) = h_validated h" "h_blocked (on_station f h) = h_blocked h"
  by (simp_all add: on_station_def split: option.splits)

lemma saveMessage_gens [simp]:
  "h_auth (saveMessage f m h) = h_auth h" "h_access (saveMessage f m h) = h_access h"
  by (simp_all add: saveMessage_def split: option.splits)

lemma sys_ok_changed: "sys_ok (h, ts) \<Longrightarrow> sys_ok (credentials_changed h, map abort_tx ts)"
  unfolding sys_ok_def list_all_iff fst_conv snd_conv set_map ball_simps
proof
  fix t assume "\<forall>t \<in> set ts. task_ok h t" "t \<in> set ts"
  then have "task_ok h t" by blast
  then show "task_ok (credentials_changed h) (abort_tx t)"
    by (rule task_ok_later) (simp_all add: credentials_changed_def)
qed

lemma sys_ok_start: "sys_ok (h, ts) \<Longrightarrow> sys_ok (h, ts @ [AwaitReady q (h_auth h) (h_access h)])"
  by (simp add: sys_ok_def task_ok_def)

lemma sys_ok_step: "sys_ok (h, ts) \<Longrightarrow> sys_ok (sys_step e (h, ts))"
proof (cases e)
  case (Resume i r)
  assume "sys_ok (h, ts)"
  then show ?thesis unfolding Resume by (rule sys_ok_resume)
qed (simp_all add: sys_ok_changed sys_ok_start hist_same_gens[of "on_station _ _"] hist_same_gens[of "saveMessage _ _ _"])

lemma sys_ok_new: "sys_ok (new_hist c st convs, [])"
  by (simp add: sys_ok_def)

interpretation history: initial_invariant sys_step "\<lambda>_. True" sys_ok "(new_hist c st convs, [])" for c st convs
  by unfold_locales (auto simp: sys_ok_step sys_ok_new)

subsection \<open>After a credential change\<close>

text \<open>A task of an earlier session: its captured generation is behind.\<close>

definition outdated :: "hist \<Rightarrow> task \<Rightarrow> bool" where
  "outdated h t \<longleftrightarrow> request_gens t \<and> \<not> open_tx t \<and>
     (case task_gens t of None \<Rightarrow> True | Some (a, c) \<Rightarrow> a < h_auth h)"

lemma outdated_cong: "h_auth h' = h_auth h \<Longrightarrow> outdated h' = outdated h"
  by (rule ext) (simp add: outdated_def split: option.split)

lemma outdated_step:
  assumes "outdated h t" "task_step r t h = ((h', t'), ab)"
  shows "\<not> ab \<and> (h' = h \<or> h' = h\<lparr>h_db := False\<rparr>) \<and> outdated h t' \<and> (\<forall>x. t' = Done x \<longrightarrow> t = Done x)"
  using assms
  by (cases "(r, t, h)" rule: task_step.cases)
    (auto simp: outdated_def hist_checks request_result_def Let_def offline_read_def
      split: option.splits if_splits sum.splits)

text \<open>The state after a change: locked, not validated, nothing new in the cache, every task outdated.\<close>

definition locked :: "cache_key set \<Rightarrow> task list \<Rightarrow> hist_sys \<Rightarrow> bool" where
  "locked keys ts0 s \<longleftrightarrow>
     h_blocked (fst s) \<and> \<not> h_validated (fst s) \<and> fst ` set (h_cache (fst s)) \<subseteq> keys \<and>
     length (snd s) = length ts0 \<and> list_all (outdated (fst s)) (snd s) \<and>
     (\<forall>i < length ts0. \<forall>x. snd s ! i = Done x \<longrightarrow> ts0 ! i = Done x)"

fun no_start :: "hist_event \<Rightarrow> bool" where
  "no_start (StartQuery q) = False"
| "no_start _ = True"

lemma update_keys: "fst ` set (update_messages st p u c) = fst ` set c"
  by (force simp: update_messages_def image_iff)

lemma update_ops_keys:
  "fst ` set (updateMessageExpectedAck st i a c) = fst ` set c"
  "fst ` set (updateMessageDelivery st i a t c) = fst ` set c"
  "fst ` set (updateMessageStatus st i s c) = fst ` set c"
  by (simp_all add: updateMessageExpectedAck_def updateMessageDelivery_def updateMessageStatus_def update_keys Let_def)

lemma clear_keys: "fst ` set (clear_cache st f c) \<subseteq> fst ` set c"
  by (auto simp: clear_cache_def)

lemma locked_on_station:
  assumes "locked keys ts0 (h, ts)" "\<And>st c. fst ` set (f st c) \<subseteq> fst ` set c"
  shows "locked keys ts0 (on_station f h, ts)"
proof -
  have "fst ` set (h_cache (on_station f h)) \<subseteq> fst ` set (h_cache h)"
    using assms(2) by (auto simp: on_station_def split: option.splits)
  moreover have "outdated (on_station f h) = outdated h" by (rule outdated_cong) simp
  ultimately show ?thesis using assms(1) unfolding locked_def by auto
qed

lemma locked_resume:
  assumes "locked keys ts0 (h, ts)"
  shows "locked keys ts0 (sys_step (Resume i r) (h, ts))"
proof (cases "i < length ts")
  case True
  obtain h' t' ab where st: "task_step r (ts ! i) h = ((h', t'), ab)" by (metis surj_pair)
  have "outdated h (ts ! i)" using assms True by (simp add: locked_def list_all_length)
  note o = outdated_step[OF this st]
  have h': "h_blocked h' = h_blocked h" "h_validated h' = h_validated h" "h_cache h' = h_cache h"
    "outdated h' = outdated h"
    using o outdated_cong[of h' h] by auto
  from True st o have "sys_step (Resume i r) (h, ts) = (h', ts[i := t'])" by simp
  with assms True o h' show ?thesis
    by (auto simp: locked_def list_all_length nth_list_update)
qed (use assms in simp)

lemma locked_changed:
  assumes "sys_ok (h, ts)" "length ts0 = length ts" "\<forall>i < length ts. \<forall>x. ts ! i = Done x \<longrightarrow> ts0 ! i = Done x"
    "fst ` set (h_cache h) \<subseteq> keys"
  shows "locked keys ts0 (sys_step CredentialsChanged (h, ts))"
proof -
  have "outdated (credentials_changed h) (abort_tx t)" if "task_ok h t" for t
    using that by (auto simp: outdated_def task_ok_def credentials_changed_def split: option.splits)
  moreover have "abort_tx t = Done x \<Longrightarrow> t = Done x" for t x
    by (cases t) (simp_all add: abort_tx_def)
  ultimately show ?thesis
    using assms by (auto simp: locked_def sys_ok_def list_all_length credentials_changed_def)
qed

lemma locked_step:
  assumes "locked keys ts0 (h, ts)" "sys_ok (h, ts)" "no_start e"
  shows "locked keys ts0 (sys_step e (h, ts))"
proof (cases e)
  case (Resume i r)
  then show ?thesis using assms(1) by (simp only: locked_resume)
next
  case CredentialsChanged
  have "length ts0 = length ts" "\<forall>i < length ts. \<forall>x. ts ! i = Done x \<longrightarrow> ts0 ! i = Done x"
    "fst ` set (h_cache h) \<subseteq> keys"
    using assms(1) by (simp_all add: locked_def)
  with assms(2) CredentialsChanged show ?thesis by (simp only: locked_changed)
next
  case (SaveMessage f m)
  have "saveMessage f m h = h"
    using assms(1) by (simp add: locked_def saveMessage_def split: option.splits)
  with assms(1) SaveMessage show ?thesis by simp
qed (use assms(1,3) in \<open>simp_all add: locked_on_station update_ops_keys clear_keys\<close>)

interpretation locked: invariant sys_step no_start "\<lambda>s. locked keys ts0 s \<and> sys_ok s" for keys ts0
  by unfold_locales (auto simp: sys_ok_step intro: locked_step)

subsection \<open>Properties\<close>


text \<open>A page in flight, and what would be the answer to it.\<close>

definition sample_body :: jsval where
  "sample_body = Obj [(js ''status'', Str (js ''ok'')), (js ''data'', Obj [(js ''station_id'', Str (js ''s''))])]"


text \<open>
  Answers are current. When a request ends with an answer, the generations it captured when
  it began are those of that moment: no credential change and no denial came in between. An
  online answer leaves the station it names validated; a cached answer is given only while the
  cache is open and the station is the one it was read for.
\<close>
theorem answers_are_current:
  assumes "i < length ts" and "snd (sys_step (Resume i r) (h, ts)) ! i = Done x" and "ts ! i \<noteq> Done x"
    and "sys_ok (h, ts)"
  shows "task_gens (ts ! i) = Some (h_auth h, h_access h) \<and> h_auth (fst (sys_step (Resume i r) (h, ts))) = h_auth h \<and>
    h_access (fst (sys_step (Resume i r) (h, ts))) = h_access h \<and>
    (case x of Online d \<Rightarrow> h_station (fst (sys_step (Resume i r) (h, ts))) = Some (pd_station d) \<and>
                          h_validated (fst (sys_step (Resume i r) (h, ts)))
     | Cached st ms \<Rightarrow> st = h_station h \<and> \<not> h_blocked h)"
proof -
  obtain h' t' ab where st: "task_step r (ts ! i) h = ((h', t'), ab)" by (metis surj_pair)
  have step: "sys_step (Resume i r) (h, ts) = (h', if ab then map abort_tx (ts[i := t']) else ts[i := t'])"
    using assms(1) st by simp
  have "abort_tx t = Done x \<Longrightarrow> t = Done x" for t by (cases t) (simp_all add: abort_tx_def)
  then have t': "t' = Done x" using assms(1,2) step by (auto split: if_splits)
  have g: "request_gens (ts ! i)" using sys_ok_nth[OF assms(4,1)] by (simp add: task_ok_def)
  have "task_gens (ts ! i) = Some (h_auth h, h_access h) \<and> \<not> ab \<and> h_auth h' = h_auth h \<and> h_access h' = h_access h \<and>
    (case x of Online d \<Rightarrow> h_station h' = Some (pd_station d) \<and> h_validated h' | Cached st ms \<Rightarrow> st = h_station h \<and> \<not> h_blocked h)"
    using st assms(3) g unfolding t'
    by (cases "(r, ts ! i, h)" rule: task_step.cases)
      (auto simp: hist_checks finish_accept_def commit_page_def offline_read_def Let_def
        split: option.splits if_splits sum.splits query.splits)
  then show ?thesis unfolding step fst_conv by blast
qed

theorem answers_are_current_witness:
  "task_gens (AwaitAccept Threads 0 0 \<lparr>pd_station = js ''s'', pd_messages = [], pd_conversations = []\<rparr>) = Some (0, 0) \<and>
   h_validated (fst (sys_step (Resume 0 Ready) ((new_hist [] None (\<lambda>_. []))\<lparr>h_db := False\<rparr>,
     [AwaitAccept Threads 0 0 \<lparr>pd_station = js ''s'', pd_messages = [], pd_conversations = []\<rparr>])))"
proof -
  let ?h = "(new_hist [] None (\<lambda>_. []))\<lparr>h_db := False\<rparr>"
  let ?d = "\<lparr>pd_station = js ''s'', pd_messages = [], pd_conversations = []\<rparr>"
  have "0 < length [AwaitAccept Threads 0 0 ?d]"
    "snd (sys_step (Resume 0 Ready) (?h, [AwaitAccept Threads 0 0 ?d])) ! 0 = Done (Online ?d)"
    "[AwaitAccept Threads 0 0 ?d] ! 0 \<noteq> Done (Online ?d)" "sys_ok (?h, [AwaitAccept Threads 0 0 ?d])"
    by (simp_all add: new_hist_def finish_accept_def hist_checks sys_ok_def task_ok_def)
  from answers_are_current[OF this] show ?thesis by (simp add: new_hist_def)
qed

end
