(* ===== verification/DialogStack.thy ===== *)
theory DialogStack
  imports Machine
begin

section \<open>The dialog stack (core/dialog_controller.js)\<close>

text \<open>
  \<open>DialogController\<close>: the phase of every registered dialog, the stack of open ones, and what the
  controller does to their elements (hidden, inert, stacking order) and to the page. A dialog
  has Bootstrap's adapter or not; the adapter's transitions end with the events \<open>shown\<close> and
  \<open>hidden\<close>, which the environment delivers. Promises returned by \<open>close\<close> are counted. Focus
  handling is not modelled.
\<close>

datatype phase = Closed | Opening | Opened | Closing

record dialog =
  d_adapter :: bool
  d_phase :: phase
  d_closeRequested :: bool
  d_waiters :: nat
  d_hidden :: bool
  d_inert :: bool
  d_zIndex :: nat
  d_originalZ :: nat
  d_dismiss :: bool

record dialogs =
  entries :: "nat \<Rightarrow> dialog"
  stack :: "nat list"
  modalOpen :: bool
  resolved :: nat

definition new_dialog :: "bool \<Rightarrow> nat \<Rightarrow> dialog" where
  "new_dialog adapter z = \<lparr>d_adapter = adapter, d_phase = Closed, d_closeRequested = False, d_waiters = 0,
     d_hidden = True, d_inert = False, d_zIndex = z, d_originalZ = z, d_dismiss = False\<rparr>"

definition new_dialogs :: "(nat \<Rightarrow> bool) \<Rightarrow> (nat \<Rightarrow> nat) \<Rightarrow> dialogs" where
  "new_dialogs adapter z = \<lparr>entries = (\<lambda>m. new_dialog (adapter m) (z m)), stack = [], modalOpen = False, resolved = 0\<rparr>"

definition upd :: "nat \<Rightarrow> (dialog \<Rightarrow> dialog) \<Rightarrow> dialogs \<Rightarrow> dialogs" where
  "upd m f s = s\<lparr>entries := (entries s)(m := f (entries s m))\<rparr>"

definition phase_of :: "nat \<Rightarrow> dialogs \<Rightarrow> phase" where
  "phase_of m s = d_phase (entries s m)"

definition isTop :: "nat \<Rightarrow> dialogs \<Rightarrow> bool" where
  "isTop m s \<longleftrightarrow> stack s \<noteq> [] \<and> last (stack s) = m"

text \<open>\<open>_syncStack\<close>: only the last dialog is not inert; each lies above the one below it.\<close>

fun sync_loop :: "nat \<Rightarrow> nat list \<Rightarrow> (nat \<Rightarrow> dialog) \<Rightarrow> nat \<Rightarrow> dialog" where
  "sync_loop i [] e = e"
| "sync_loop i (m # ms) e =
     sync_loop (Suc i) ms (e(m := (e m)\<lparr>d_inert := (ms \<noteq> []), d_zIndex := 1055 + i * 20\<rparr>))"

definition syncStack :: "dialogs \<Rightarrow> dialogs" where
  "syncStack s = s\<lparr>entries := sync_loop 0 (stack s) (entries s), modalOpen := (stack s \<noteq> [])\<rparr>"

definition finishClose :: "nat \<Rightarrow> dialogs \<Rightarrow> dialogs" where
  "finishClose m s =
     (if phase_of m s = Closed then s
      else
        let s1 = upd m (\<lambda>d. d\<lparr>d_phase := Closed, d_inert := True, d_hidden := True, d_zIndex := d_originalZ d\<rparr>) s;
            s2 = syncStack (s1\<lparr>stack := filter (\<lambda>x. x \<noteq> m) (stack s1)\<rparr>)
        in upd m (\<lambda>d. d\<lparr>d_waiters := 0\<rparr>) (s2\<lparr>resolved := resolved s2 + d_waiters (entries s2 m)\<rparr>))"

definition beginClose :: "nat \<Rightarrow> dialogs \<Rightarrow> dialogs" where
  "beginClose m s =
     (let s1 = upd m (\<lambda>d. d\<lparr>d_phase := Closing\<rparr>) s
      in if d_adapter (entries s1 m) then upd m (\<lambda>d. d\<lparr>d_hidden := False\<rparr>) s1 else finishClose m s1)"

definition open_dialog :: "nat \<Rightarrow> bool \<Rightarrow> dialogs \<Rightarrow> dialogs" where
  "open_dialog m dismiss s =
     (let s0 = upd m (\<lambda>d. d\<lparr>d_dismiss := dismiss\<rparr>) s in
      if phase_of m s0 \<noteq> Closed then s0
      else
        let s1 = upd m (\<lambda>d. d\<lparr>d_originalZ := d_zIndex d, d_closeRequested := False, d_phase := Opening,
                              d_inert := False, d_hidden := False\<rparr>) s0;
            s2 = syncStack (s1\<lparr>stack := stack s1 @ [m]\<rparr>)
        in if d_adapter (entries s2 m) then s2 else upd m (\<lambda>d. d\<lparr>d_phase := Opened\<rparr>) s2)"

definition close_dialog :: "nat \<Rightarrow> dialogs \<Rightarrow> dialogs" where
  "close_dialog m s =
     (if phase_of m s = Closed then s\<lparr>resolved := resolved s + 1\<rparr>
      else
        let s1 = upd m (\<lambda>d. d\<lparr>d_waiters := d_waiters d + 1, d_closeRequested := True\<rparr>) s
        in if d_adapter (entries s1 m) \<and> phase_of m s1 = Opening then upd m (\<lambda>d. d\<lparr>d_hidden := False\<rparr>) s1
           else if phase_of m s1 \<noteq> Closing then beginClose m s1
           else s1)"

text \<open>Bootstrap's events. \<open>shown\<close> ends an opening transition, \<open>hidden\<close> a closing one.\<close>

definition on_shown :: "nat \<Rightarrow> dialogs \<Rightarrow> dialogs" where
  "on_shown m s =
     (let s1 = syncStack (upd m (\<lambda>d. d\<lparr>d_phase := Opened\<rparr>) s)
      in if d_closeRequested (entries s1 m) then beginClose m s1 else s1)"

text \<open>The second component says that the default action was prevented.\<close>

definition on_hide :: "nat \<Rightarrow> dialogs \<Rightarrow> dialogs \<times> bool" where
  "on_hide m s =
     (if \<not> isTop m s \<and> phase_of m s \<noteq> Closing then (s, True)
      else (upd m (\<lambda>d. d\<lparr>d_phase := Closing, d_hidden := False\<rparr>) s, False))"

text \<open>Escape on the page; a custom \<open>dismiss\<close> and a close button are the application's.\<close>

definition on_escape :: "bool \<Rightarrow> dialogs \<Rightarrow> dialogs" where
  "on_escape has_button s =
     (if stack s = [] then s
      else
        let m = last (stack s) in
        if phase_of m s = Closing \<or> d_dismiss (entries s m) \<or> has_button then s
        else close_dialog m s)"

datatype dialog_event =
    Open nat bool
  | CloseCall nat
  | Shown nat
  | HideRequest nat
  | HiddenEvent nat
  | Escape bool

text \<open>
  Bootstrap reports \<open>shown\<close> only for a dialog that is opening and \<open>hidden\<close> only for one that is
  closing, and only for dialogs it manages; \<open>hide\<close> comes from a dialog that is shown.
\<close>

fun dialog_step :: "dialog_event \<Rightarrow> dialogs \<Rightarrow> dialogs" where
  "dialog_step (Open m dismiss) s = open_dialog m dismiss s"
| "dialog_step (CloseCall m) s = close_dialog m s"
| "dialog_step (Shown m) s = (if d_adapter (entries s m) \<and> phase_of m s = Opening then on_shown m s else s)"
| "dialog_step (HideRequest m) s = (if d_adapter (entries s m) \<and> phase_of m s \<in> {Opened, Closing} then fst (on_hide m s) else s)"
| "dialog_step (HiddenEvent m) s = (if d_adapter (entries s m) \<and> phase_of m s = Closing then finishClose m s else s)"
| "dialog_step (Escape b) s = on_escape b s"

subsection \<open>The invariant\<close>

definition synced :: "dialogs \<Rightarrow> bool" where
  "synced s \<longleftrightarrow>
     modalOpen s = (stack s \<noteq> []) \<and>
     (\<forall>i < length (stack s). d_inert (entries s (stack s ! i)) = (Suc i < length (stack s)) \<and>
        d_zIndex (entries s (stack s ! i)) = 1055 + i * 20)"

definition dialogs_ok :: "dialogs \<Rightarrow> bool" where
  "dialogs_ok s \<longleftrightarrow> distinct (stack s) \<and> synced s \<and>
     (\<forall>m. (m \<in> set (stack s) \<longleftrightarrow> phase_of m s \<noteq> Closed) \<and> (phase_of m s = Closed \<longrightarrow> d_waiters (entries s m) = 0))"

lemma sync_loop_other: "m \<notin> set ms \<Longrightarrow> sync_loop i ms e m = e m"
  by (induction i ms e rule: sync_loop.induct) auto

lemma sync_loop_nth:
  "distinct ms \<Longrightarrow> k < length ms \<Longrightarrow>
     sync_loop i ms e (ms ! k) = (e (ms ! k))\<lparr>d_inert := (Suc k < length ms), d_zIndex := 1055 + (i + k) * 20\<rparr>"
proof (induction i ms e arbitrary: k rule: sync_loop.induct)
  case (2 i m ms e)
  show ?case
  proof (cases k)
    case 0
    with 2 show ?thesis by (simp add: sync_loop_other)
  next
    case (Suc j)
    with 2 have m: "m \<noteq> ms ! j" and j: "j < length ms" "distinct ms" by auto
    show ?thesis
      unfolding Suc sync_loop.simps nth_Cons_Suc "2.IH"[OF j(2,1)] using m by simp
  qed
qed simp

lemma syncStack_phase [simp]: "distinct (stack s) \<Longrightarrow> phase_of m (syncStack s) = phase_of m s"
  by (cases "m \<in> set (stack s)")
    (auto simp: phase_of_def syncStack_def sync_loop_other in_set_conv_nth sync_loop_nth)

lemma syncStack_waiters [simp]: "distinct (stack s) \<Longrightarrow> d_waiters (entries (syncStack s) m) = d_waiters (entries s m)"
  by (cases "m \<in> set (stack s)")
    (auto simp: syncStack_def sync_loop_other in_set_conv_nth sync_loop_nth)

lemma syncStack_stack [simp]: "stack (syncStack s) = stack s" "resolved (syncStack s) = resolved s"
  by (simp_all add: syncStack_def)

lemma synced_sync: "distinct (stack s) \<Longrightarrow> synced (syncStack s)"
  by (auto simp: synced_def syncStack_def sync_loop_nth)

text \<open>Changes to a dialog that leave what \<open>_syncStack\<close> wrote.\<close>

lemma synced_upd:
  assumes "synced s" "\<And>d. d_inert (f d) = d_inert d" "\<And>d. d_zIndex (f d) = d_zIndex d"
  shows "synced (upd m f s)"
  using assms by (auto simp: synced_def upd_def)

lemma upd_simps [simp]:
  "stack (upd m f s) = stack s" "resolved (upd m f s) = resolved s"
  "phase_of k (upd m f s) = (if k = m then d_phase (f (entries s m)) else phase_of k s)"
  "entries (upd m f s) k = (if k = m then f (entries s m) else entries s k)"
  by (simp_all add: upd_def phase_of_def)

lemma ok_parts:
  assumes "dialogs_ok s"
  shows "distinct (stack s)" "synced s" "m \<in> set (stack s) \<longleftrightarrow> phase_of m s \<noteq> Closed"
    "phase_of m s = Closed \<Longrightarrow> d_waiters (entries s m) = 0"
  using assms by (auto simp: dialogs_ok_def)

text \<open>Moving an open dialog between its open phases.\<close>

lemma ok_upd:
  assumes "dialogs_ok s" "\<And>d. d_inert (f d) = d_inert d" "\<And>d. d_zIndex (f d) = d_zIndex d"
    and "d_phase (f (entries s m)) = Closed \<longleftrightarrow> phase_of m s = Closed"
    and "phase_of m s = Closed \<Longrightarrow> d_waiters (f (entries s m)) = 0"
  shows "dialogs_ok (upd m f s)"
  using assms synced_upd[of s f m] by (auto simp: dialogs_ok_def)

lemma ok_finishClose [step_inv]:
  assumes "dialogs_ok s"
  shows "dialogs_ok (finishClose m s)"
proof (cases "phase_of m s = Closed")
  case False
  define s1 where "s1 = upd m (\<lambda>d. d\<lparr>d_phase := Closed, d_inert := True, d_hidden := True, d_zIndex := d_originalZ d\<rparr>) s"
  define s0 where "s0 = s1\<lparr>stack := filter (\<lambda>x. x \<noteq> m) (stack s1)\<rparr>"
  have d: "distinct (stack s0)" using ok_parts(1)[OF assms] by (simp add: s0_def s1_def)
  have ph: "phase_of k (syncStack s0) = (if k = m then Closed else phase_of k s)" for k
    using syncStack_phase[OF d, of k] by (simp add: s0_def s1_def phase_of_def upd_def)
  have wt: "d_waiters (entries (syncStack s0) k) = d_waiters (entries s k)" for k
    using syncStack_waiters[OF d, of k] by (simp add: s0_def s1_def upd_def)
  let ?s2 = "syncStack s0"
  have fc: "finishClose m s = upd m (\<lambda>d. d\<lparr>d_waiters := 0\<rparr>) (?s2\<lparr>resolved := resolved ?s2 + d_waiters (entries ?s2 m)\<rparr>)"
    using False by (simp only: finishClose_def s0_def s1_def Let_def if_False)
  have "synced (finishClose m s)"
    unfolding fc by (rule synced_upd) (use synced_sync[OF d] in \<open>simp_all add: synced_def\<close>)
  moreover have st: "stack (finishClose m s) = filter (\<lambda>x. x \<noteq> m) (stack s)" unfolding fc by (simp add: s0_def s1_def)
  moreover have "phase_of k (finishClose m s) = (if k = m then Closed else phase_of k s)" for k
    unfolding fc using ph[of k] ph[of m] by (simp add: phase_of_def)
  moreover have "d_waiters (entries (finishClose m s) k) = (if k = m then 0 else d_waiters (entries s k))" for k
    unfolding fc using wt[of k] by simp
  ultimately show ?thesis
    using ok_parts[OF assms] by (auto simp: dialogs_ok_def)
qed (use assms in \<open>simp add: finishClose_def\<close>)

lemma ok_beginClose [step_inv]:
  assumes "dialogs_ok s" "phase_of m s \<noteq> Closed"
  shows "dialogs_ok (beginClose m s)"
proof -
  have 1: "dialogs_ok (upd m (\<lambda>d. d\<lparr>d_phase := Closing\<rparr>) s)" using assms by (intro ok_upd) simp_all
  then have "dialogs_ok (upd m (\<lambda>d. d\<lparr>d_hidden := False\<rparr>) (upd m (\<lambda>d. d\<lparr>d_phase := Closing\<rparr>) s))"
    by (rule ok_upd) (use assms in \<open>simp_all add: phase_of_def upd_def\<close>)
  with 1 show ?thesis by (simp add: beginClose_def Let_def ok_finishClose)
qed

lemma ok_open [step_inv]:
  assumes "dialogs_ok s"
  shows "dialogs_ok (open_dialog m dismiss s)"
proof -
  define s0 where "s0 = upd m (\<lambda>d. d\<lparr>d_dismiss := dismiss\<rparr>) s"
  have s0: "dialogs_ok s0" unfolding s0_def using assms ok_parts(4)[OF assms]
    by (intro ok_upd) (simp_all add: phase_of_def)
  show ?thesis
  proof (cases "phase_of m s0 = Closed")
    case True
    define s1 where "s1 = upd m (\<lambda>d. d\<lparr>d_originalZ := d_zIndex d, d_closeRequested := False, d_phase := Opening,
        d_inert := False, d_hidden := False\<rparr>) s0"
    define s2 where "s2 = syncStack (s1\<lparr>stack := stack s1 @ [m]\<rparr>)"
    have d: "distinct (stack (s1\<lparr>stack := stack s1 @ [m]\<rparr>))"
      using ok_parts[OF s0] True by (simp add: s1_def)
    have ph: "phase_of k s2 = (if k = m then Opening else phase_of k s0)" for k
      using syncStack_phase[OF d, of k] by (simp add: s2_def s1_def phase_of_def upd_def)
    have wt: "d_waiters (entries s2 k) = d_waiters (entries s0 k)" for k
      using syncStack_waiters[OF d, of k] by (simp add: s2_def s1_def upd_def)
    have "synced s2" unfolding s2_def using d by (rule synced_sync)
    moreover have "stack s2 = stack s0 @ [m]" by (simp add: s2_def s1_def)
    ultimately have s2: "dialogs_ok s2"
      using ok_parts[OF s0] d ph wt True by (auto simp: dialogs_ok_def s1_def)
    then have "dialogs_ok (upd m (\<lambda>d. d\<lparr>d_phase := Opened\<rparr>) s2)"
      by (rule ok_upd) (use ph[of m] in simp_all)
    with s2 True show ?thesis
      unfolding open_dialog_def s0_def[symmetric] Let_def s1_def[symmetric] s2_def[symmetric] by simp
  next
    case False
    with s0 show ?thesis unfolding open_dialog_def s0_def[symmetric] Let_def by simp
  qed
qed

lemma ok_close [step_inv]:
  assumes "dialogs_ok s"
  shows "dialogs_ok (close_dialog m s)"
proof (cases "phase_of m s = Closed")
  case True
  have "dialogs_ok (s\<lparr>resolved := n\<rparr>)" for n using assms by (simp add: dialogs_ok_def synced_def phase_of_def)
  with True show ?thesis by (simp add: close_dialog_def)
next
  case False
  let ?s1 = "upd m (\<lambda>d. d\<lparr>d_waiters := d_waiters d + 1, d_closeRequested := True\<rparr>) s"
  have 1: "dialogs_ok ?s1" by (rule ok_upd[OF assms]) (use False in \<open>simp_all add: phase_of_def\<close>)
  moreover have p: "phase_of m ?s1 \<noteq> Closed" using False by (simp add: phase_of_def)
  moreover have "dialogs_ok (upd m (\<lambda>d. d\<lparr>d_hidden := False\<rparr>) ?s1)"
    by (rule ok_upd[OF 1]) (use p in \<open>simp_all add: phase_of_def upd_def\<close>)
  ultimately show ?thesis using False ok_beginClose[OF 1 p] by (simp add: close_dialog_def Let_def)
qed

lemma ok_shown [step_inv]:
  assumes "dialogs_ok s" "phase_of m s \<noteq> Closed"
  shows "dialogs_ok (on_shown m s)"
proof -
  define s0 where "s0 = upd m (\<lambda>d. d\<lparr>d_phase := Opened\<rparr>) s"
  have s0: "dialogs_ok s0" unfolding s0_def by (rule ok_upd[OF assms(1)]) (use assms(2) in simp_all)
  have d: "distinct (stack s0)" using ok_parts(1)[OF s0] .
  have s1: "dialogs_ok (syncStack s0)"
    using ok_parts[OF s0] synced_sync[OF d] d by (auto simp: dialogs_ok_def)
  moreover have "phase_of m (syncStack s0) \<noteq> Closed" using d by (simp add: s0_def)
  ultimately show ?thesis
    unfolding on_shown_def s0_def[symmetric] Let_def by (simp add: ok_beginClose)
qed

lemma ok_hide [step_inv]:
  assumes "dialogs_ok s" "phase_of m s \<noteq> Closed"
  shows "dialogs_ok (fst (on_hide m s))"
proof -
  have "dialogs_ok (upd m (\<lambda>d. d\<lparr>d_phase := Closing, d_hidden := False\<rparr>) s)"
    by (rule ok_upd[OF assms(1)]) (use assms(2) in simp_all)
  with assms(1) show ?thesis by (simp add: on_hide_def)
qed

lemma dialog_step_ok: "dialogs_ok s \<Longrightarrow> dialogs_ok (dialog_step e s)"
  by (cases e) (auto simp: step_inv on_escape_def Let_def)

lemma dialogs_ok_new: "dialogs_ok (new_dialogs adapter z)"
  by (simp add: dialogs_ok_def new_dialogs_def synced_def phase_of_def new_dialog_def)

interpretation dialogs: initial_invariant dialog_step "\<lambda>_. True" dialogs_ok "new_dialogs adapter z" for adapter z
  by unfold_locales (simp_all add: dialog_step_ok dialogs_ok_new)

text \<open>
  C24: in every reachable state the dialogs on the stack are exactly those not closed, each once;
  only the topmost can be interacted with, every other is inert and lies below the ones opened
  after it; the page is marked as having a dialog exactly when the stack is not empty; and no
  closed dialog leaves a caller of \<open>close\<close> waiting.
\<close>
theorem dialog_stack_consistent:
  fixes es :: "dialog_event list" and adapter :: "nat \<Rightarrow> bool" and z :: "nat \<Rightarrow> nat"
  defines "s \<equiv> fold dialog_step es (new_dialogs adapter z)"
  shows "distinct (stack s) \<and> (\<forall>m. (m \<in> set (stack s)) = (phase_of m s \<noteq> Closed)) \<and>
    modalOpen s = (stack s \<noteq> []) \<and>
    map (\<lambda>m. d_inert (entries s m)) (stack s) = map (\<lambda>i. Suc i < length (stack s)) [0..<length (stack s)] \<and>
    map (\<lambda>m. d_zIndex (entries s m)) (stack s) = map (\<lambda>i. 1055 + i * 20) [0..<length (stack s)] \<and>
    (\<forall>m. (if phase_of m s = Closed then d_waiters (entries s m) else 0) = 0)"
proof -
  have "dialogs_ok s" unfolding s_def by (rule dialogs.always) (simp add: list_all_iff)
  note parts = ok_parts[OF this]
  have sync: "modalOpen s = (stack s \<noteq> [])" "\<forall>i < length (stack s). d_inert (entries s (stack s ! i)) = (Suc i < length (stack s))"
    "\<forall>i < length (stack s). d_zIndex (entries s (stack s ! i)) = 1055 + i * 20"
    using parts(2) unfolding synced_def by blast+
  have "map (\<lambda>m. d_inert (entries s m)) (stack s) = map (\<lambda>i. Suc i < length (stack s)) [0..<length (stack s)]"
    by (rule nth_equalityI) (use sync(2) in simp_all)
  moreover have "map (\<lambda>m. d_zIndex (entries s m)) (stack s) = map (\<lambda>i. 1055 + i * 20) [0..<length (stack s)]"
    by (rule nth_equalityI) (use sync(3) in simp_all)
  ultimately show ?thesis using parts(1,3,4) sync(1) by presburger
qed

end
