(* ===== verification/FormWidgets.thy ===== *)
theory FormWidgets
  imports Numbers
begin

section \<open>Tabs, form feedback and the theme preference (core/tabs.js, form_feedback.js, theme.js)\<close>

text \<open>
  Three small pieces of the interface that keep state of their own. Tabs are numbered in
  document order; a form field is named by the key it has in the form's table; what a page
  element shows is a record of the attributes the code sets.
\<close>

subsection \<open>Manual-activation tabs\<close>

record tab =
  tab_disabled :: bool
  tab_hidden :: bool
  aria_selected :: bool
  tab_focusable :: bool
  panel_hidden :: bool

text \<open>\<open>sync(selected)\<close>; a tab that is not one of the list is ignored.\<close>

definition tabs_sync :: "nat \<Rightarrow> tab list \<Rightarrow> tab list" where
  "tabs_sync sel ts =
     (if length ts \<le> sel then ts
      else map (\<lambda>i. (ts ! i)\<lparr>aria_selected := (i = sel), tab_focusable := (i = sel), panel_hidden := (i \<noteq> sel)\<rparr>) [0..<length ts])"

text \<open>\<open>initManualTabs\<close>: the tab marked active, or the first; null without tabs.\<close>

definition tabs_init :: "(tab \<times> bool) list \<Rightarrow> tab list option" where
  "tabs_init ts =
     (if ts = [] then None
      else Some (tabs_sync (case filter (\<lambda>i. snd (ts ! i)) [0..<length ts] of i # _ \<Rightarrow> i | [] \<Rightarrow> 0) (map fst ts)))"

text \<open>The second component is the tab for which \<open>onActivate\<close> runs.\<close>

definition tabs_click :: "nat \<Rightarrow> tab list \<Rightarrow> tab list \<times> nat option" where
  "tabs_click i ts =
     (if length ts \<le> i \<or> tab_disabled (ts ! i) then (ts, None) else (tabs_sync i ts, Some i))"

datatype tab_key = KeyHome | KeyEnd | KeyPrevious | KeyNext | KeyOther

definition available_tabs :: "tab list \<Rightarrow> nat list" where
  "available_tabs ts = filter (\<lambda>i. \<not> tab_disabled (ts ! i) \<and> \<not> tab_hidden (ts ! i)) [0..<length ts]"

definition index_of :: "nat \<Rightarrow> nat list \<Rightarrow> int" where
  "index_of x xs = (if x \<in> set xs then int (length (takeWhile (\<lambda>y. y \<noteq> x) xs)) else -1)"

text \<open>The remainder \<open>%\<close> of JavaScript has the sign of the dividend.\<close>

definition js_rem :: "int \<Rightarrow> int \<Rightarrow> int" where
  "js_rem a b = (if a < 0 then - ((- a) mod b) else a mod b)"

definition nth_opt :: "'a list \<Rightarrow> int \<Rightarrow> 'a option" where
  "nth_opt xs i = (if 0 \<le> i \<and> nat i < length xs then Some (xs ! nat i) else None)"

definition tab_destination :: "tab_key \<Rightarrow> nat \<Rightarrow> tab list \<Rightarrow> nat option" where
  "tab_destination k cur ts =
     (let av = available_tabs ts; n = int (length av); i = index_of cur av
      in case k of
           KeyHome \<Rightarrow> nth_opt av 0
         | KeyEnd \<Rightarrow> nth_opt av (n - 1)
         | KeyPrevious \<Rightarrow> if av = [] then None else nth_opt av (js_rem (i - 1 + n) n)
         | KeyNext \<Rightarrow> if av = [] then None else nth_opt av (js_rem (i + 1) n)
         | KeyOther \<Rightarrow> None)"

text \<open>\<open>keydown\<close>: the tabs and the tab that receives the focus.\<close>

definition tabs_keydown :: "tab_key \<Rightarrow> bool \<Rightarrow> nat \<Rightarrow> tab list \<Rightarrow> tab list \<times> nat option" where
  "tabs_keydown k modifiers cur ts =
     (if length ts \<le> cur \<or> modifiers then (ts, None)
      else case tab_destination k cur ts of
        None \<Rightarrow> (ts, None)
      | Some d \<Rightarrow> (map (\<lambda>i. (ts ! i)\<lparr>tab_focusable := (i = d)\<rparr>) [0..<length ts], Some d))"

datatype tab_event = Click nat | Key tab_key bool nat | Sync nat

fun tabs_step :: "tab_event \<Rightarrow> tab list \<Rightarrow> tab list" where
  "tabs_step (Click i) ts = fst (tabs_click i ts)"
| "tabs_step (Key k m cur) ts = fst (tabs_keydown k m cur ts)"
| "tabs_step (Sync i) ts = tabs_sync i ts"

text \<open>One tab is selected, its panel is the one shown; one tab is in the tab order.\<close>

definition one_selected :: "tab list \<Rightarrow> bool" where
  "one_selected ts \<longleftrightarrow>
     (\<exists>s < length ts. \<forall>i < length ts. aria_selected (ts ! i) = (i = s) \<and> panel_hidden (ts ! i) = (i \<noteq> s))"

definition one_focusable :: "tab list \<Rightarrow> bool" where
  "one_focusable ts \<longleftrightarrow> (\<exists>f < length ts. \<forall>i < length ts. tab_focusable (ts ! i) = (i = f))"

definition tabs_ok :: "tab list \<Rightarrow> bool" where
  "tabs_ok ts \<longleftrightarrow> one_selected ts \<and> one_focusable ts"

lemma tabs_sync_ok: "sel < length ts \<Longrightarrow> tabs_ok (tabs_sync sel ts)"
  by (auto simp: tabs_ok_def one_selected_def one_focusable_def tabs_sync_def)

lemma tabs_sync_keeps: "tabs_ok ts \<Longrightarrow> tabs_ok (tabs_sync sel ts)"
  using tabs_sync_ok[of sel ts] by (cases "sel < length ts") (simp_all add: tabs_sync_def)

lemma nth_opt_in: "nth_opt xs i = Some x \<Longrightarrow> x \<in> set xs"
  by (auto simp: nth_opt_def split: if_splits)

lemma destination_available: "tab_destination k cur ts = Some d \<Longrightarrow> d \<in> set (available_tabs ts)"
  by (auto simp: tab_destination_def Let_def split: tab_key.splits if_splits dest: nth_opt_in)

lemma tabs_keydown_ok: "tabs_ok ts \<Longrightarrow> tabs_ok (fst (tabs_keydown k m cur ts))"
proof (cases "tab_destination k cur ts")
  case (Some d)
  then have "d < length ts" using destination_available by (fastforce simp: available_tabs_def)
  then show "tabs_ok ts \<Longrightarrow> ?thesis"
    using Some by (auto simp: tabs_keydown_def tabs_ok_def one_selected_def one_focusable_def)
qed (simp add: tabs_keydown_def)

lemma tabs_step_ok: "tabs_ok ts \<Longrightarrow> tabs_ok (tabs_step e ts)"
  by (cases e) (simp_all add: tabs_click_def tabs_sync_keeps tabs_keydown_ok)

text \<open>
  From the first synchronisation on, whatever is clicked, typed or selected by the program,
  exactly one tab is selected and only its panel is shown, and exactly one tab is reachable
  with the Tab key; the arrow keys never move to a disabled or hidden tab.
\<close>
theorem tabs_stay_consistent:
  assumes "tabs_init ts = Some t0"
  shows "tabs_ok (fold tabs_step es t0) \<and>
    pred_option (\<lambda>d. \<not> tab_disabled (fold tabs_step es t0 ! d) \<and> \<not> tab_hidden (fold tabs_step es t0 ! d))
      (snd (tabs_keydown k m cur (fold tabs_step es t0)))"
proof -
  have "(case filter (\<lambda>i. snd (ts ! i)) [0..<length ts] of i # _ \<Rightarrow> i | [] \<Rightarrow> 0) < length ts" if "ts \<noteq> []"
  proof (cases "filter (\<lambda>i. snd (ts ! i)) [0..<length ts]")
    case (Cons i rest)
    then have "i \<in> set [0..<length ts]" by (rule filter_ConsD[THEN conjunct1])
    with Cons show ?thesis by simp
  qed (use that in simp)
  then have t0: "tabs_ok t0" using assms by (auto simp: tabs_init_def tabs_sync_ok split: if_splits)
  have run: "tabs_ok (fold tabs_step es t0)" using t0 by (induction es arbitrary: t0) (simp_all add: tabs_step_ok)
  have "d \<in> set (available_tabs ts) \<Longrightarrow> \<not> tab_disabled (ts ! d) \<and> \<not> tab_hidden (ts ! d)" for d ts
    by (simp add: available_tabs_def)
  with run show ?thesis
    using destination_available[of k cur "fold tabs_step es t0"]
    by (auto simp: tabs_keydown_def split: option.splits)
qed

theorem tabs_stay_consistent_witness:
  "tabs_ok (fold tabs_step [Key KeyPrevious False 0, Click 1]
     (the (tabs_init [(\<lparr>tab_disabled = False, tab_hidden = False, aria_selected = False, tab_focusable = False, panel_hidden = True\<rparr>, False),
                      (\<lparr>tab_disabled = False, tab_hidden = False, aria_selected = False, tab_focusable = False, panel_hidden = True\<rparr>, True)])))"
  by (rule tabs_stay_consistent[THEN conjunct1,
      of "[(\<lparr>tab_disabled = False, tab_hidden = False, aria_selected = False, tab_focusable = False, panel_hidden = True\<rparr>, False),
           (\<lparr>tab_disabled = False, tab_hidden = False, aria_selected = False, tab_focusable = False, panel_hidden = True\<rparr>, True)]"])
    (simp add: tabs_init_def)

subsection \<open>Feedback on forms\<close>

datatype notice = NoNote | Translated jstr | Literal jstr

text \<open>
  A registered field: the message under it and \<open>aria-invalid\<close>. \<open>ff_fields\<close> is the form's table of
  names; \<open>ff_order\<close> the registered fields; \<open>ff_buttons\<close> whether each submit button is disabled;
  \<open>ff_saved\<close> the states remembered by \<open>setBusy\<close>.
\<close>

record feedback =
  ff_fields :: "(jstr \<times> nat option) list"
  ff_order :: "nat list"
  ff_error :: "nat \<Rightarrow> notice"
  ff_invalid :: "nat \<Rightarrow> bool"
  ff_summary :: notice
  ff_busy :: bool
  ff_buttons :: "bool list"
  ff_saved :: "(nat \<times> bool) list"

definition clearField :: "nat \<Rightarrow> feedback \<Rightarrow> feedback" where
  "clearField f s =
     (if f \<notin> set (ff_order s) then s
      else s\<lparr>ff_error := (ff_error s)(f := NoNote), ff_invalid := (ff_invalid s)(f := False)\<rparr>)"

definition clear_feedback :: "feedback \<Rightarrow> feedback" where
  "clear_feedback s = (fold clearField (ff_order s) s)\<lparr>ff_summary := NoNote\<rparr>"

definition fieldError :: "nat \<Rightarrow> notice \<Rightarrow> feedback \<Rightarrow> feedback" where
  "fieldError f n s =
     (if f \<notin> set (ff_order s) then s
      else s\<lparr>ff_error := (ff_error s)(f := n), ff_invalid := (ff_invalid s)(f := True)\<rparr>)"

text \<open>\<open>focusInvalid\<close>: the first registered field that is invalid.\<close>

definition focusInvalid :: "feedback \<Rightarrow> nat option" where
  "focusInvalid s = (case filter (ff_invalid s) (ff_order s) of f # _ \<Rightarrow> Some f | [] \<Rightarrow> None)"

text \<open>What the browser says of a field: not checked, valid, missing, or invalid otherwise.\<close>

datatype validity = NotChecked | Valid | ValueMissing | BadValue

definition validation_key :: "validity \<Rightarrow> jstr \<Rightarrow> jstr" where
  "validation_key v custom =
     (case v of ValueMissing \<Rightarrow> js ''forms.required'' | BadValue \<Rightarrow> js ''forms.invalid_value'' | _ \<Rightarrow> custom)"

definition validate_field :: "(nat \<Rightarrow> validity) \<Rightarrow> (jstr \<Rightarrow> jstr) \<Rightarrow> jstr \<times> nat option \<Rightarrow> feedback \<Rightarrow> feedback" where
  "validate_field check custom nf s =
     (case snd nf of
        None \<Rightarrow> s
      | Some f \<Rightarrow>
          if check f = NotChecked then s
          else (let k = validation_key (check f) (custom (fst nf)) in if k \<noteq> [] then fieldError f (Translated k) s else s))"

definition validate_form :: "(nat \<Rightarrow> validity) \<Rightarrow> (jstr \<Rightarrow> jstr) \<Rightarrow> feedback \<Rightarrow> feedback \<times> bool" where
  "validate_form check custom s =
     (let s1 = fold (validate_field check custom) (ff_fields s) (clear_feedback s)
      in (s1, focusInvalid s1 = None))"

definition networkError :: "feedback \<Rightarrow> feedback" where
  "networkError s = s\<lparr>ff_summary := Translated (js ''forms.network_error'')\<rparr>"

definition set_busy :: "bool \<Rightarrow> feedback \<Rightarrow> feedback" where
  "set_busy busy s =
     (if busy
      then s\<lparr>ff_busy := True, ff_saved := map (\<lambda>i. (i, ff_buttons s ! i)) [0..<length (ff_buttons s)],
             ff_buttons := map (\<lambda>_. True) (ff_buttons s)\<rparr>
      else s\<lparr>ff_busy := False, ff_saved := [],
             ff_buttons := map (\<lambda>i. case map_of (ff_saved s) i of Some d \<Rightarrow> d | None \<Rightarrow> ff_buttons s ! i) [0..<length (ff_buttons s)]\<rparr>)"

text \<open>\<open>serverError\<close>: a list of issues with locations, or one message with an error code.\<close>

definition issue_message :: "(jstr \<Rightarrow> jstr) \<Rightarrow> jsval \<Rightarrow> jstr" where
  "issue_message t issue = (case getp issue (js ''msg'') of Str m \<Rightarrow> m | _ \<Rightarrow> t (js ''forms.invalid_value''))"

definition issue_field :: "jsval \<Rightarrow> feedback \<Rightarrow> nat option" where
  "issue_field issue s =
     (case getp issue (js ''loc'') of
        Arr ls \<Rightarrow>
          (case filter (\<lambda>l. l \<noteq> Str (js ''body'')) ls of
             [l] \<Rightarrow> (case map_of (ff_fields s) (to_string l) of Some f \<Rightarrow> f | None \<Rightarrow> None)
           | _ \<Rightarrow> None)
      | _ \<Rightarrow> None)"

definition apply_issue :: "(jstr \<Rightarrow> jstr) \<Rightarrow> jsval \<Rightarrow> feedback \<Rightarrow> feedback" where
  "apply_issue t issue s =
     (case issue_field issue s of Some f \<Rightarrow> fieldError f (Literal (issue_message t issue)) s | None \<Rightarrow> s)"

definition first_text :: "jsval list \<Rightarrow> jstr option" where
  "first_text vs =
     (case filter (\<lambda>v. case v of Str s \<Rightarrow> trim s \<noteq> [] | _ \<Rightarrow> False) vs of Str s # _ \<Rightarrow> Some s | _ \<Rightarrow> None)"

definition server_error :: "(jstr \<Rightarrow> jstr) \<Rightarrow> (jstr \<times> jstr) list \<Rightarrow> jsval \<Rightarrow> feedback \<Rightarrow> feedback" where
  "server_error t errorFields data s =
     (let detail = getp data (js ''detail'');
          (s1, messages) =
            (case detail of
               Arr issues \<Rightarrow> (fold (apply_issue t) issues s, map (issue_message t) issues)
             | _ \<Rightarrow>
                 (let message = first_text [detail, getp data (js ''message'')];
                      field = (case map_of errorFields (to_string (getp data (js ''error''))) of
                                 Some n \<Rightarrow> (case map_of (ff_fields s) n of Some f \<Rightarrow> f | None \<Rightarrow> None)
                               | None \<Rightarrow> None)
                  in (case field of
                        Some f \<Rightarrow> fieldError f (Literal (case message of Some m \<Rightarrow> m | None \<Rightarrow> t (js ''forms.invalid_value''))) s
                      | None \<Rightarrow> s,
                      case message of Some m \<Rightarrow> [m] | None \<Rightarrow> [])))
      in s1\<lparr>ff_summary := (if messages \<noteq> [] then Literal (join [0x20] (rev (remdups (rev messages))))
                           else Translated (js ''forms.request_failed''))\<rparr>)"

lemma clearField_frame [simp]:
  "ff_order (clearField f s) = ff_order s" "ff_fields (clearField f s) = ff_fields s"
  "ff_invalid (clearField f s) g = (if g = f \<and> f \<in> set (ff_order s) then False else ff_invalid s g)"
  by (simp_all add: clearField_def)

lemma clear_fold:
  "ff_order (fold clearField fs s) = ff_order s \<and> ff_fields (fold clearField fs s) = ff_fields s \<and>
   (ff_invalid (fold clearField fs s) g = (if g \<in> set fs \<and> g \<in> set (ff_order s) then False else ff_invalid s g))"
  by (induction fs arbitrary: s) auto

lemma validate_frame [simp]: "ff_order (validate_field c k nf s) = ff_order s"
  by (simp add: validate_field_def fieldError_def Let_def split: option.splits)

definition rejected :: "(nat \<Rightarrow> validity) \<Rightarrow> (jstr \<Rightarrow> jstr) \<Rightarrow> jstr \<times> nat option \<Rightarrow> nat \<Rightarrow> bool" where
  "rejected check custom nf f \<longleftrightarrow>
     snd nf = Some f \<and> check f \<noteq> NotChecked \<and> validation_key (check f) (custom (fst nf)) \<noteq> []"

lemma validate_invalid:
  "ff_invalid (validate_field c k nf s) f = (ff_invalid s f \<or> f \<in> set (ff_order s) \<and> rejected c k nf f)"
  by (auto simp: validate_field_def fieldError_def rejected_def Let_def split: option.splits)

lemma validate_fold:
  "ff_order (fold (validate_field c k) nfs s) = ff_order s \<and>
   (ff_invalid (fold (validate_field c k) nfs s) f = (ff_invalid s f \<or> f \<in> set (ff_order s) \<and> (\<exists>nf \<in> set nfs. rejected c k nf f)))"
  by (induction nfs arbitrary: s) (auto simp: validate_invalid)

text \<open>
  A form passes validation exactly when no registered field that the browser checks is
  invalid or has an error of its own; whatever was marked before the check is forgotten.
\<close>
theorem validate_form_exact:
  "snd (validate_form check custom s) =
     (\<not> (\<exists>f \<in> set (ff_order s). \<exists>nf \<in> set (ff_fields s). rejected check custom nf f))"
proof -
  let ?s0 = "clear_feedback s"
  let ?s1 = "fold (validate_field check custom) (ff_fields s) ?s0"
  have s0: "ff_order ?s0 = ff_order s" "ff_invalid ?s0 f = (if f \<in> set (ff_order s) then False else ff_invalid s f)" for f
    using clear_fold[of "ff_order s" s f] by (simp_all add: clear_feedback_def)
  have "focusInvalid ?s1 = None \<longleftrightarrow> (\<forall>f \<in> set (ff_order ?s1). \<not> ff_invalid ?s1 f)"
    by (auto simp: focusInvalid_def filter_empty_conv split: list.splits dest: filter_ConsD)
  then show ?thesis
    using validate_fold[of check custom "ff_fields s" ?s0] s0 by (simp add: validate_form_def Let_def)
qed

text \<open>
  A request leaves the submit buttons as it found them: whatever their states were, ending
  the busy state restores each; nested use is not safe, since starting twice forgets them and
  leaves every button disabled.
\<close>
theorem set_busy_restores:
  "ff_buttons (set_busy False (set_busy True s)) = ff_buttons s \<and>
   ff_busy (set_busy False (set_busy True s)) = False \<and>
   ff_buttons (set_busy False (set_busy True (set_busy True s))) = map (\<lambda>_. True) (ff_buttons s)"
proof -
  have restore: "map (\<lambda>i. case map_of (map (\<lambda>i. (i, xs ! i)) [0..<length xs]) i of Some d \<Rightarrow> d | None \<Rightarrow> q i) [0..<length xs] = xs"
    for xs :: "bool list" and q
    by (rule nth_equalityI) (simp_all add: map_of_upt)
  show ?thesis
    unfolding set_busy_def if_True if_False feedback.simps feedback.update_convs length_map
    using restore[where xs = "ff_buttons s"] restore[where xs = "map (\<lambda>_. True) (ff_buttons s)"] by simp
qed

end
