(* ===== verification/Utf.thy ===== *)
theory Utf
  imports JsString
begin

section \<open>Code points: UTF-16 strings and their UTF-8 encoding\<close>

text \<open>
  \<open>for (const c of s)\<close>, \<open>[...s]\<close> and \<open>TextEncoder\<close> read a string by code points: a high
  surrogate followed by a low one is a single character, any other unit stands alone.
  A character is kept here as the one- or two-unit string that JavaScript yields for it.
  \<open>TextEncoder\<close> replaces a lone surrogate by U+FFFD, \<open>encodeURIComponent\<close> throws on it.
\<close>

definition is_high :: "jchar \<Rightarrow> bool" where
  "is_high u \<longleftrightarrow> 0xD800 \<le> u \<and> u \<le> 0xDBFF"

definition is_low :: "jchar \<Rightarrow> bool" where
  "is_low u \<longleftrightarrow> 0xDC00 \<le> u \<and> u \<le> 0xDFFF"

lemma low_not_high: "is_low u \<Longrightarrow> \<not> is_high u"
  by (auto simp: is_low_def is_high_def word_le_nat_alt)

fun js_chars :: "jstr \<Rightarrow> jstr list" where
  "js_chars [] = []"
| "js_chars [u] = [[u]]"
| "js_chars (u # v # s) =
     (if is_high u \<and> is_low v then [u, v] # js_chars s else [u] # js_chars (v # s))"

lemma concat_js_chars [simp]: "concat (js_chars s) = s"
  by (induction s rule: js_chars.induct) auto

lemma js_chars_eq_Nil [simp]:
  "js_chars s = [] \<longleftrightarrow> s = []"
  "[] = js_chars s \<longleftrightarrow> s = []"
  by (cases s rule: js_chars.cases; auto)+

lemma js_chars_nonempty: "c \<in> set (js_chars s) \<Longrightarrow> c \<noteq> []"
  by (induction s rule: js_chars.induct) (auto split: if_splits)

lemma js_chars_cases:
  "c \<in> set (js_chars s) \<Longrightarrow> (\<exists>u. c = [u]) \<or> (\<exists>u v. c = [u, v] \<and> is_high u \<and> is_low v)"
  by (induction s rule: js_chars.induct) (auto split: if_splits)

text \<open>
  Re-reading a segment of a character sequence gives that segment back: no new surrogate
  pair appears when a string is cut between characters.
\<close>

lemma js_chars_append:
  "js_chars s = xs @ ys \<Longrightarrow> js_chars (concat xs) = xs \<and> js_chars (concat ys) = ys"
proof (induction s arbitrary: xs rule: js_chars.induct)
  case 1
  then show ?case by simp
next
  case (2 u)
  then show ?case by (cases xs) auto
next
  case (3 u v s)
  show ?case
  proof (cases "is_high u \<and> is_low v")
    case True
    show ?thesis
    proof (cases xs)
      case Nil
      with "3.prems" show ?thesis by (metis append_Nil concat.simps(1) concat_js_chars js_chars.simps(1))
    next
      case (Cons x xs')
      with True "3.prems" have "x = [u, v]" "js_chars s = xs' @ ys" by auto
      with "3.IH"(1)[OF True] Cons True show ?thesis by auto
    qed
  next
    case False
    show ?thesis
    proof (cases xs)
      case Nil
      with "3.prems" show ?thesis by (metis append_Nil concat.simps(1) concat_js_chars js_chars.simps(1))
    next
      case (Cons x xs')
      with False "3.prems" have x: "x = [u]" "js_chars (v # s) = xs' @ ys" by auto
      with "3.IH"(2)[OF False] have ih: "js_chars (concat xs') = xs'" "js_chars (concat ys) = ys" by auto
      have "js_chars (u # concat xs') = [u] # xs'"
      proof (cases xs')
        case Nil
        then show ?thesis by simp
      next
        case (Cons w ws)
        with x have "concat xs' = v # tl (concat xs')"
          by (cases s) (auto split: if_splits)
        with ih(1) False show ?thesis by (metis js_chars.simps(3))
      qed
      with ih x Cons show ?thesis by simp
    qed
  qed
qed

lemma js_chars_segment:
  assumes "js_chars s = xs @ ys @ zs"
  shows "js_chars (concat ys) = ys"
  using js_chars_append[OF assms] js_chars_append[of "concat (ys @ zs)" ys zs] by simp

subsection \<open>UTF-8\<close>

definition code_point :: "jstr \<Rightarrow> nat" where
  "code_point c =
     (case c of
        [u] \<Rightarrow> unat u
      | [u, v] \<Rightarrow> 0x10000 + (unat u - 0xD800) * 0x400 + (unat v - 0xDC00)
      | _ \<Rightarrow> 0)"

definition lone_surrogate :: "jstr \<Rightarrow> bool" where
  "lone_surrogate c \<longleftrightarrow> (case c of [u] \<Rightarrow> is_high u \<or> is_low u | _ \<Rightarrow> False)"

definition well_formed :: "jstr \<Rightarrow> bool" where
  "well_formed s \<longleftrightarrow> list_all (\<lambda>c. \<not> lone_surrogate c) (js_chars s)"

definition utf8_bytes :: "nat \<Rightarrow> 8 word list" where
  "utf8_bytes p =
     (if p < 0x80 then [of_nat p]
      else if p < 0x800 then [of_nat (0xC0 + p div 0x40), of_nat (0x80 + p mod 0x40)]
      else if p < 0x10000 then
        [of_nat (0xE0 + p div 0x1000), of_nat (0x80 + p div 0x40 mod 0x40), of_nat (0x80 + p mod 0x40)]
      else
        [of_nat (0xF0 + p div 0x40000), of_nat (0x80 + p div 0x1000 mod 0x40),
         of_nat (0x80 + p div 0x40 mod 0x40), of_nat (0x80 + p mod 0x40)])"

definition encode_char :: "jstr \<Rightarrow> 8 word list" where
  "encode_char c = utf8_bytes (if lone_surrogate c then 0xFFFD else code_point c)"

text \<open>\<open>new TextEncoder().encode(s)\<close>\<close>

definition text_encode :: "jstr \<Rightarrow> 8 word list" where
  "text_encode s = concat (map encode_char (js_chars s))"

definition char_width :: "jstr \<Rightarrow> nat" where
  "char_width c = length (encode_char c)"

lemma char_width_bounds: "1 \<le> char_width c \<and> char_width c \<le> 4"
  by (simp add: char_width_def encode_char_def utf8_bytes_def)

lemma length_text_encode: "length (text_encode s) = sum_list (map char_width (js_chars s))"
  by (simp add: text_encode_def length_concat char_width_def[abs_def] comp_def)

lemma text_encode_single:
  "c \<in> set (js_chars s) \<Longrightarrow> length (text_encode c) = char_width c"
  by (drule js_chars_cases) (auto simp: length_text_encode)

lemma text_encode_segment:
  "js_chars s = xs @ ys @ zs \<Longrightarrow> length (text_encode (concat ys)) = sum_list (map char_width ys)"
  by (simp add: length_text_encode js_chars_segment)

end
