(* ===== verification/UriCodec.thy ===== *)
theory UriCodec
  imports Utf JsValue
begin

section \<open>Percent-encoding and query strings\<close>

text \<open>
  The two standard-library codecs the share links rest on: \<open>encodeURIComponent\<close>, which
  throws a \<open>URIError\<close> on a lone surrogate, and the parser behind \<open>URLSearchParams\<close> (split
  at \<open>&\<close> and the first \<open>=\<close>, \<open>+\<close> to space, percent-decoding, lossy UTF-8 decoding as the WHATWG
  Encoding standard prescribes). The section ends in their round trip.
\<close>

subsection \<open>UTF-8 decoding\<close>

definition units_of :: "nat \<Rightarrow> jstr" where
  "units_of p =
     (if p < 0x10000 then [of_nat p]
      else [of_nat (0xD800 + (p - 0x10000) div 0x400), of_nat (0xDC00 + (p - 0x10000) mod 0x400)])"

definition cont :: "8 word \<Rightarrow> nat \<Rightarrow> nat \<Rightarrow> bool" where
  "cont b lo hi \<longleftrightarrow> lo \<le> unat b \<and> unat b \<le> hi"

function (sequential) utf8_decode :: "8 word list \<Rightarrow> jstr" where
  "utf8_decode [] = []"
| "utf8_decode (b # bs) =
     (let n = unat b in
      if n < 0x80 then of_nat n # utf8_decode bs
      else if 0xC2 \<le> n \<and> n \<le> 0xDF then
        (case bs of
           c # cs \<Rightarrow> if cont c 0x80 0xBF then units_of ((n - 0xC0) * 0x40 + (unat c - 0x80)) @ utf8_decode cs
                    else 0xFFFD # utf8_decode bs
         | [] \<Rightarrow> [0xFFFD])
      else if 0xE0 \<le> n \<and> n \<le> 0xEF then
        (case bs of
           c # cs \<Rightarrow>
             if cont c (if n = 0xE0 then 0xA0 else 0x80) (if n = 0xED then 0x9F else 0xBF) then
               (case cs of
                  d # ds \<Rightarrow> if cont d 0x80 0xBF
                            then units_of ((n - 0xE0) * 0x1000 + (unat c - 0x80) * 0x40 + (unat d - 0x80)) @ utf8_decode ds
                            else 0xFFFD # utf8_decode cs
                | [] \<Rightarrow> [0xFFFD])
             else 0xFFFD # utf8_decode bs
         | [] \<Rightarrow> [0xFFFD])
      else if 0xF0 \<le> n \<and> n \<le> 0xF4 then
        (case bs of
           c # cs \<Rightarrow>
             if cont c (if n = 0xF0 then 0x90 else 0x80) (if n = 0xF4 then 0x8F else 0xBF) then
               (case cs of
                  d # ds \<Rightarrow>
                    if cont d 0x80 0xBF then
                      (case ds of
                         e # es \<Rightarrow>
                           if cont e 0x80 0xBF
                           then units_of ((n - 0xF0) * 0x40000 + (unat c - 0x80) * 0x1000 +
                                          (unat d - 0x80) * 0x40 + (unat e - 0x80)) @ utf8_decode es
                           else 0xFFFD # utf8_decode ds
                       | [] \<Rightarrow> [0xFFFD])
                    else 0xFFFD # utf8_decode cs
                | [] \<Rightarrow> [0xFFFD])
             else 0xFFFD # utf8_decode bs
         | [] \<Rightarrow> [0xFFFD])
      else 0xFFFD # utf8_decode bs)"
  by pat_completeness auto
termination by (relation "measure length") auto

declare utf8_decode.simps(2) [simp del]

lemma unat_byte_less: "unat (b :: 8 word) < 256"
  by (rule order_less_le_trans[OF unsigned_less]) simp

lemma unat_ucast_byte: "unat (ucast (b :: 8 word) :: jchar) = unat b"
  using unat_byte_less[of b] by (simp add: unsigned_ucast_eq take_bit_nat_eq_self_iff)

lemma unat_byte: "n < 0x100 \<Longrightarrow> unat (of_nat n :: 8 word) = n"
  by (simp add: unsigned_of_nat take_bit_nat_eq_self)

lemma unat_unit: "n < 0x10000 \<Longrightarrow> unat (of_nat n :: jchar) = n"
  by (simp add: unsigned_of_nat take_bit_nat_eq_self)

lemma unit_of_unat: "of_nat (unat u) = (u :: jchar)"
  by simp

definition scalar_value :: "nat \<Rightarrow> bool" where
  "scalar_value p \<longleftrightarrow> p < 0xD800 \<or> 0xE000 \<le> p \<and> p < 0x110000"

lemma utf8_decode_1: "p < 0x80 \<Longrightarrow> utf8_decode (utf8_bytes p @ r) = units_of p @ utf8_decode r"
  by (simp add: utf8_bytes_def units_of_def utf8_decode.simps(2) unat_byte)

lemma decode_two:
  assumes "unat b0 = 0xC0 + a" "2 \<le> a" "a < 0x20" "unat b1 = 0x80 + c" "c < 0x40"
  shows "utf8_decode (b0 # b1 # r) = units_of (a * 0x40 + c) @ utf8_decode r"
  using assms by (simp add: utf8_decode.simps(2) cont_def)

lemma decode_three:
  assumes "unat b0 = 0xE0 + a" "a < 0x10" "unat b1 = 0x80 + b" "b < 0x40"
    and "a = 0 \<longrightarrow> 0x20 \<le> b" "a = 0xD \<longrightarrow> b < 0x20" "unat b2 = 0x80 + c" "c < 0x40"
  shows "utf8_decode (b0 # b1 # b2 # r) = units_of (a * 0x1000 + b * 0x40 + c) @ utf8_decode r"
proof -
  have "cont b1 (if 0xE0 + a = 0xE0 then 0xA0 else 0x80) (if 0xE0 + a = 0xED then 0x9F else 0xBF)"
    using assms by (auto simp: cont_def)
  with assms show ?thesis by (simp add: utf8_decode.simps(2) cont_def[of b2])
qed

lemma decode_four:
  assumes "unat b0 = 0xF0 + a" "a < 5" "unat b1 = 0x80 + b" "b < 0x40"
    and "a = 0 \<longrightarrow> 0x10 \<le> b" "a = 4 \<longrightarrow> b < 0x10"
    and "unat b2 = 0x80 + c" "c < 0x40" "unat b3 = 0x80 + d" "d < 0x40"
  shows "utf8_decode (b0 # b1 # b2 # b3 # r) =
    units_of (a * 0x40000 + b * 0x1000 + c * 0x40 + d) @ utf8_decode r"
proof -
  have "cont b1 (if 0xF0 + a = 0xF0 then 0x90 else 0x80) (if 0xF0 + a = 0xF4 then 0x8F else 0xBF)"
    using assms by (auto simp: cont_def)
  with assms show ?thesis by (simp add: utf8_decode.simps(2) cont_def[of b2] cont_def[of b3])
qed

lemma digits64:
  fixes p :: nat
  shows "p = p div 0x40 * 0x40 + p mod 0x40"
    and "p = p div 0x1000 * 0x1000 + p div 0x40 mod 0x40 * 0x40 + p mod 0x40"
    and "p = p div 0x40000 * 0x40000 + p div 0x1000 mod 0x40 * 0x1000 + p div 0x40 mod 0x40 * 0x40 + p mod 0x40"
proof -
  have q: "q = q div 0x40 * 0x40 + q mod 0x40" for q :: nat by simp
  have d2: "p div 0x1000 = p div 0x40 div 0x40" by (simp flip: div_mult2_eq)
  have d3: "p div 0x40000 = p div 0x1000 div 0x40" by (simp flip: div_mult2_eq)
  show 1: "p = p div 0x40 * 0x40 + p mod 0x40" by (rule q)
  show 2: "p = p div 0x1000 * 0x1000 + p div 0x40 mod 0x40 * 0x40 + p mod 0x40"
    using 1 q[of "p div 0x40"] d2 by linarith
  show "p = p div 0x40000 * 0x40000 + p div 0x1000 mod 0x40 * 0x1000 + p div 0x40 mod 0x40 * 0x40 + p mod 0x40"
    using 2 q[of "p div 0x1000"] d3 by linarith
qed

lemma utf8_decode_2:
  assumes "0x80 \<le> p" "p < 0x800"
  shows "utf8_decode (utf8_bytes p @ r) = units_of p @ utf8_decode r"
proof -
  define a c where "a = p div 0x40" and "c = p mod 0x40"
  have p: "p = a * 0x40 + c" using digits64(1)[of p] by (simp only: a_def c_def)
  have c: "c < 0x40" by (simp add: c_def)
  with p assms have a: "2 \<le> a" "a < 0x20" by linarith+
  have bytes: "utf8_bytes p = [of_nat (0xC0 + a), of_nat (0x80 + c)]"
    using assms by (simp add: utf8_bytes_def a_def c_def del: of_nat_add)
  have "utf8_decode (of_nat (0xC0 + a) # of_nat (0x80 + c) # r) = units_of (a * 0x40 + c) @ utf8_decode r"
    by (rule decode_two) (use a c in \<open>simp_all add: unat_byte del: of_nat_add\<close>)
  then show ?thesis unfolding bytes by (simp only: p[symmetric] append.simps)
qed

lemma utf8_decode_3:
  assumes "0x800 \<le> p" "p < 0x10000" "\<not> (0xD800 \<le> p \<and> p < 0xE000)"
  shows "utf8_decode (utf8_bytes p @ r) = units_of p @ utf8_decode r"
proof -
  define a b c where "a = p div 0x1000" and "b = p div 0x40 mod 0x40" and "c = p mod 0x40"
  note abc = a_def[symmetric] b_def[symmetric] c_def[symmetric]
  have p: "p = a * 0x1000 + b * 0x40 + c" using digits64(2)[of p] by (simp only: abc)
  have bc: "b < 0x40" "c < 0x40" by (simp_all add: b_def c_def)
  with p assms have a: "a < 0x10" and lo: "a = 0 \<longrightarrow> 0x20 \<le> b" and hi: "a = 0xD \<longrightarrow> b < 0x20"
    by linarith+
  have bytes: "utf8_bytes p = [of_nat (0xE0 + a), of_nat (0x80 + b), of_nat (0x80 + c)]"
    using assms by (simp add: utf8_bytes_def abc del: of_nat_add)
  have "utf8_decode (of_nat (0xE0 + a) # of_nat (0x80 + b) # of_nat (0x80 + c) # r) =
      units_of (a * 0x1000 + b * 0x40 + c) @ utf8_decode r"
    by (rule decode_three) (use a bc lo hi in \<open>simp_all add: unat_byte del: of_nat_add\<close>)
  then show ?thesis unfolding bytes by (simp only: p[symmetric] append.simps)
qed

lemma utf8_decode_4:
  assumes "0x10000 \<le> p" "p < 0x110000"
  shows "utf8_decode (utf8_bytes p @ r) = units_of p @ utf8_decode r"
proof -
  define a b c d where "a = p div 0x40000" and "b = p div 0x1000 mod 0x40"
    and "c = p div 0x40 mod 0x40" and "d = p mod 0x40"
  note abcd = a_def[symmetric] b_def[symmetric] c_def[symmetric] d_def[symmetric]
  have p: "p = a * 0x40000 + b * 0x1000 + c * 0x40 + d" using digits64(3)[of p] by (simp only: abcd)
  have bcd: "b < 0x40" "c < 0x40" "d < 0x40" by (simp_all add: b_def c_def d_def)
  with p assms have a: "a < 5" and lo: "a = 0 \<longrightarrow> 0x10 \<le> b" and hi: "a = 4 \<longrightarrow> b < 0x10"
    by linarith+
  have bytes: "utf8_bytes p = [of_nat (0xF0 + a), of_nat (0x80 + b), of_nat (0x80 + c), of_nat (0x80 + d)]"
    using assms by (simp add: utf8_bytes_def abcd del: of_nat_add)
  have "utf8_decode (of_nat (0xF0 + a) # of_nat (0x80 + b) # of_nat (0x80 + c) # of_nat (0x80 + d) # r) =
      units_of (a * 0x40000 + b * 0x1000 + c * 0x40 + d) @ utf8_decode r"
    by (rule decode_four) (use a bcd lo hi in \<open>simp_all add: unat_byte del: of_nat_add\<close>)
  then show ?thesis unfolding bytes by (simp only: p[symmetric] append.simps)
qed

lemma utf8_decode_scalar:
  "scalar_value p \<Longrightarrow> utf8_decode (utf8_bytes p @ r) = units_of p @ utf8_decode r"
  using utf8_decode_1 utf8_decode_2 utf8_decode_3 utf8_decode_4
  by (cases "p < 0x80"; cases "p < 0x800"; cases "p < 0x10000") (auto simp: scalar_value_def)

lemma char_scalar:
  assumes "c \<in> set (js_chars s)" "\<not> lone_surrogate c"
  shows "scalar_value (code_point c) \<and> units_of (code_point c) = c"
  using js_chars_cases[OF assms(1)]
proof
  assume "\<exists>u. c = [u]"
  then obtain u where u: "c = [u]" by auto
  have "unat u < 0x10000" using unsigned_less[of u] by simp
  with u assms(2) show ?thesis
    by (auto simp: scalar_value_def units_of_def code_point_def lone_surrogate_def is_high_def
        is_low_def word_le_nat_alt)
next
  assume "\<exists>u v. c = [u, v] \<and> is_high u \<and> is_low v"
  then obtain u v where c: "c = [u, v]" and "is_high u" "is_low v" by auto
  then obtain i j where ij: "unat u = 0xD800 + i" "i < 0x400" "unat v = 0xDC00 + j" "j < 0x400"
    by (auto simp: is_high_def is_low_def word_le_nat_alt le_iff_add)
  then have "code_point c = 0x10000 + i * 0x400 + j" by (simp add: c code_point_def)
  with ij show ?thesis
    by (simp add: scalar_value_def units_of_def c flip: ij(1,3))
qed

lemma utf8_decode_encode:
  assumes "well_formed s"
  shows "utf8_decode (text_encode s) = s"
proof -
  have "utf8_decode (concat (map encode_char cs)) = concat cs"
    if "\<forall>c \<in> set cs. c \<in> set (js_chars s) \<and> \<not> lone_surrogate c" for cs
    using that
  proof (induction cs)
    case (Cons c cs)
    with char_scalar[of c s] show ?case
      by (simp add: encode_char_def utf8_decode_scalar)
  qed simp
  from this[of "js_chars s"] assms show ?thesis
    by (simp add: text_encode_def well_formed_def list_all_iff)
qed

end
