(* ===== verification/QueryString.thy ===== *)
theory QueryString
  imports UriCodec
begin

section \<open>encodeURIComponent and URLSearchParams\<close>

text \<open>
  The two library functions the share links are built with and read by. Parsing follows the
  \<open>application/x-www-form-urlencoded\<close> rules: split at \<open>&\<close>, drop empty pieces, split each at
  its first \<open>=\<close>, turn \<open>+\<close> into a space, undo the percent escapes on the UTF-8 bytes and decode
  them. The section's main fact is that a component survives the trip.
\<close>

definition uri_unreserved :: "jchar \<Rightarrow> bool" where
  "uri_unreserved c \<longleftrightarrow>
     0x61 \<le> c \<and> c \<le> 0x7A \<or> 0x41 \<le> c \<and> c \<le> 0x5A \<or> is_digit c \<or>
     c \<in> {0x2D, 0x5F, 0x2E, 0x21, 0x7E, 0x2A, 0x27, 0x28, 0x29}"

definition hex_upper :: "nat \<Rightarrow> jchar" where
  "hex_upper d = of_nat (if d < 10 then 48 + d else 55 + d)"

definition pct_byte :: "8 word \<Rightarrow> jstr" where
  "pct_byte b = [0x25, hex_upper (unat b div 16), hex_upper (unat b mod 16)]"

definition uri_char :: "jstr \<Rightarrow> jstr" where
  "uri_char c =
     (case c of
        [u] \<Rightarrow> if uri_unreserved u then [u] else concat (map pct_byte (encode_char c))
      | _ \<Rightarrow> concat (map pct_byte (encode_char c)))"

definition uri_component :: "jstr \<Rightarrow> jstr" where
  "uri_component s = concat (map uri_char (js_chars s))"

definition encodeURIComponent :: "jstr \<Rightarrow> jstr js_result" where
  "encodeURIComponent s = (if well_formed s then Inr (uri_component s) else Inl URIError)"

text \<open>Percent-decoding of bytes: an escape that is not two hexadecimal digits stays as it is.\<close>

definition byte_hex :: "8 word \<Rightarrow> bool" where
  "byte_hex b \<longleftrightarrow> is_hex (ucast b)"

fun pct_decode :: "8 word list \<Rightarrow> 8 word list" where
  "pct_decode (p # a # b # bs) =
     (if p = 0x25 \<and> byte_hex a \<and> byte_hex b
      then of_nat (16 * hex_val (ucast a) + hex_val (ucast b)) # pct_decode bs
      else p # pct_decode (a # b # bs))"
| "pct_decode bs = bs"

definition form_decode :: "jstr \<Rightarrow> jstr" where
  "form_decode s = utf8_decode (pct_decode (text_encode (map (\<lambda>c. if c = 0x2B then 0x20 else c) s)))"

definition query_pair :: "jstr \<Rightarrow> jstr \<times> jstr" where
  "query_pair s =
     (form_decode (takeWhile (\<lambda>c. c \<noteq> 0x3D) s), form_decode (tl (dropWhile (\<lambda>c. c \<noteq> 0x3D) s)))"

text \<open>\<open>new URLSearchParams(s)\<close> and its \<open>get\<close>, where null is \<open>None\<close>.\<close>

definition search_params :: "jstr \<Rightarrow> (jstr \<times> jstr) list" where
  "search_params s =
     (let q = (if s \<noteq> [] \<and> hd s = 0x3F then tl s else s)
      in map query_pair (filter (\<lambda>p. p \<noteq> []) (split_on 0x26 q)))"

definition params_get :: "(jstr \<times> jstr) list \<Rightarrow> jstr \<Rightarrow> jstr option" where
  "params_get ps k = map_of ps k"

subsection \<open>The escaped form is plain ASCII\<close>

definition ascii :: "jchar \<Rightarrow> bool" where
  "ascii c \<longleftrightarrow> c < 0x80"

lemma ascii_not_surrogate: "ascii c \<Longrightarrow> \<not> is_high c \<and> \<not> is_low c"
  by (auto simp: ascii_def is_high_def is_low_def word_le_nat_alt word_less_nat_alt)

lemma js_chars_ascii: "\<forall>c \<in> set s. ascii c \<Longrightarrow> js_chars s = map (\<lambda>c. [c]) s"
  by (induction s rule: js_chars.induct) (auto simp: ascii_not_surrogate)

lemma encode_char_ascii: "ascii c \<Longrightarrow> encode_char [c] = [ucast c]"
  by (auto simp: encode_char_def lone_surrogate_def ascii_not_surrogate code_point_def utf8_bytes_def
      ascii_def word_less_nat_alt)

lemma text_encode_ascii: "\<forall>c \<in> set s. ascii c \<Longrightarrow> text_encode s = map ucast s"
  by (induction s) (auto simp: text_encode_def js_chars_ascii encode_char_ascii)

lemma below_16: "(d::nat) < 16 \<longleftrightarrow> d \<in> set [0..<16]"
  by simp

lemma hex_upper_ascii:
  assumes "d < 16"
  shows "ascii (hex_upper d)" and "hex_upper d \<notin> {0x26, 0x3D, 0x2B, 0x25}"
proof -
  have "list_all (\<lambda>d. ascii (hex_upper d) \<and> hex_upper d \<notin> {0x26, 0x3D, 0x2B, 0x25}) [0..<16]"
    by (simp add: upt_rec hex_upper_def ascii_def)
  then show "ascii (hex_upper d)" "hex_upper d \<notin> {0x26, 0x3D, 0x2B, 0x25}"
    using assms by (simp_all add: list_all_iff)
qed

lemma hex_upper_val:
  assumes "d < 16"
  shows "byte_hex (ucast (hex_upper d))" and "hex_val (ucast (ucast (hex_upper d) :: 8 word)) = d"
proof -
  have "list_all (\<lambda>d. byte_hex (ucast (hex_upper d)) \<and> hex_val (ucast (ucast (hex_upper d) :: 8 word)) = d) [0..<16]"
    by (simp add: upt_rec hex_upper_def byte_hex_def is_hex_def is_digit_def hex_val_def)
  then show "byte_hex (ucast (hex_upper d))" "hex_val (ucast (ucast (hex_upper d) :: 8 word)) = d"
    using assms by (simp_all add: list_all_iff)
qed

lemmas hex_upper_props = hex_upper_ascii hex_upper_val

lemma nibbles: "unat (b :: 8 word) div 16 < 16 \<and> unat b mod 16 < 16"
  using unsigned_less[of b] by (simp add: div_less_iff_less_mult)

lemma uri_unreserved_ascii: "uri_unreserved c \<Longrightarrow> ascii c \<and> c \<notin> {0x26, 0x3D, 0x2B, 0x25, 0x3F}"
  by (auto simp: uri_unreserved_def ascii_def is_digit_def word_le_nat_alt word_less_nat_alt)

lemma pct_byte_units: "c \<in> set (pct_byte b) \<Longrightarrow> ascii c \<and> c \<notin> {0x26, 0x3D, 0x2B}"
  using nibbles[of b] hex_upper_ascii[of "unat b div 16"] hex_upper_ascii[of "unat b mod 16"]
  by (auto simp: pct_byte_def ascii_def)

lemma uri_char_units: "c \<in> set (uri_char x) \<Longrightarrow> ascii c \<and> c \<notin> {0x26, 0x3D, 0x2B}"
  using uri_unreserved_ascii pct_byte_units
  by (auto simp: uri_char_def split: list.splits if_splits)

lemma uri_component_units: "c \<in> set (uri_component s) \<Longrightarrow> ascii c \<and> c \<notin> {0x26, 0x3D, 0x2B}"
  using uri_char_units by (auto simp: uri_component_def)

subsection \<open>Decoding undoes escaping\<close>

lemma pct_decode_other: "b \<noteq> 0x25 \<Longrightarrow> pct_decode (b # r) = b # pct_decode r"
  by (cases r rule: pct_decode.cases) auto

lemma pct_decode_byte: "pct_decode (map ucast (pct_byte b) @ r) = b # pct_decode r"
proof -
  have "16 * (unat b div 16) + unat b mod 16 = unat b" by simp
  with nibbles[of b] hex_upper_val[of "unat b div 16"] hex_upper_val[of "unat b mod 16"]
  show ?thesis by (simp add: pct_byte_def del: of_nat_add of_nat_mult)
qed

lemma pct_decode_bytes:
  "pct_decode (concat (map (map ucast \<circ> pct_byte) bs) @ r) = bs @ pct_decode r"
  by (induction bs) (auto simp: pct_decode_byte)

lemma map_ucast_concat: "map ucast (concat (map f xs)) = concat (map (map ucast \<circ> f) xs)"
  by (simp add: map_concat)

lemma uri_char_decode:
  "pct_decode (map ucast (uri_char c) @ r) = encode_char c @ pct_decode r"
proof (cases "\<exists>u. c = [u] \<and> uri_unreserved u")
  case True
  then obtain u where u: "c = [u]" "uri_unreserved u" by auto
  then have "ascii u" "u \<noteq> 0x25" using uri_unreserved_ascii by auto
  then have "(ucast u :: 8 word) \<noteq> 0x25"
    using unat_byte[of "unat u"] by (auto simp: ascii_def word_unat_eq_iff word_less_nat_alt)
  with u \<open>ascii u\<close> show ?thesis by (simp add: uri_char_def encode_char_ascii pct_decode_other)
next
  case False
  then have "uri_char c = concat (map pct_byte (encode_char c))"
    by (auto simp: uri_char_def split: list.splits)
  then show ?thesis by (simp add: map_concat pct_decode_bytes)
qed

lemma uri_component_decode: "pct_decode (map ucast (uri_component s)) = text_encode s"
proof -
  have "pct_decode (map ucast (concat (map uri_char cs))) = concat (map encode_char cs)" for cs
    by (induction cs) (auto simp: uri_char_decode)
  then show ?thesis by (simp add: uri_component_def text_encode_def)
qed

lemma form_decode_component:
  assumes "well_formed s"
  shows "form_decode (uri_component s) = s"
proof -
  have "map (\<lambda>c. if c = 0x2B then 0x20 else c) (uri_component s) = uri_component s"
    by (rule map_idI) (auto dest: uri_component_units)
  then show ?thesis
    using uri_component_units[of _ s] assms
    by (simp add: form_decode_def text_encode_ascii uri_component_decode utf8_decode_encode)
qed

lemma ascii_well_formed: "\<forall>c \<in> set s. ascii c \<Longrightarrow> well_formed s"
  by (auto simp: well_formed_def js_chars_ascii list_all_iff lone_surrogate_def ascii_not_surrogate)

lemma uri_component_unreserved:
  assumes "\<forall>c \<in> set s. uri_unreserved c"
  shows "uri_component s = s"
proof -
  have "concat (map (\<lambda>c. uri_char [c]) s) = s"
    using assms by (induction s) (auto simp: uri_char_def)
  moreover have "js_chars s = map (\<lambda>c. [c]) s"
    using assms uri_unreserved_ascii by (simp add: js_chars_ascii)
  ultimately show ?thesis by (simp add: uri_component_def comp_def)
qed

lemma form_decode_unreserved: "\<forall>c \<in> set s. uri_unreserved c \<Longrightarrow> form_decode s = s"
  using form_decode_component[of s] ascii_well_formed[of s] uri_unreserved_ascii
  by (simp add: uri_component_unreserved)

text \<open>A piece \<open>key=component\<close> of a query reads back as that key and the original text.\<close>

lemma query_pair_component:
  assumes "\<forall>c \<in> set k. uri_unreserved c" "well_formed s"
  shows "query_pair (k @ 0x3D # uri_component s) = (k, s)"
proof -
  have "0x3D \<notin> set k" using assms(1) uri_unreserved_ascii by auto
  then have "takeWhile (\<lambda>c. c \<noteq> 0x3D) (k @ 0x3D # uri_component s) = k"
    "dropWhile (\<lambda>c. c \<noteq> 0x3D) (k @ 0x3D # uri_component s) = 0x3D # uri_component s"
    by (auto simp: takeWhile_append dropWhile_append)
  with assms show ?thesis
    by (simp add: query_pair_def form_decode_unreserved form_decode_component)
qed

lemma piece_no_amp: "\<forall>c \<in> set k. uri_unreserved c \<Longrightarrow> 0x26 \<notin> set (k @ 0x3D # uri_component s)"
  using uri_unreserved_ascii uri_component_units by auto

text \<open>A query of such pieces joined by \<open>&\<close>.\<close>

definition query_of :: "(jstr \<times> jstr) list \<Rightarrow> jstr" where
  "query_of kvs = join [0x26] (map (\<lambda>(k, s). k @ 0x3D # uri_component s) kvs)"

lemma join_hd: "ws \<noteq> [] \<Longrightarrow> hd ws \<noteq> [] \<Longrightarrow> join sep ws \<noteq> [] \<and> hd (join sep ws) = hd (hd ws)"
  by (cases "(sep, ws)" rule: join.cases) auto

lemma search_params_query:
  assumes "kvs \<noteq> []" and "\<forall>(k, s) \<in> set kvs. k \<noteq> [] \<and> (\<forall>c \<in> set k. uri_unreserved c) \<and> well_formed s"
  shows "search_params (query_of kvs) = kvs"
proof -
  let ?ps = "map (\<lambda>(k, s). k @ 0x3D # uri_component s) kvs"
  have no: "\<forall>w \<in> set ?ps. 0x26 \<notin> set w" using assms(2) piece_no_amp by fastforce
  obtain k s r where kvs: "kvs = (k, s) # r" using assms(1) by (cases kvs) auto
  with assms(2) have k: "k \<noteq> []" "uri_unreserved (hd k)" by auto
  then have "hd k \<noteq> 0x3F" using uri_unreserved_ascii by auto
  then have "hd (query_of kvs) \<noteq> 0x3F"
    using join_hd[of ?ps "[0x26]"] k kvs by (simp add: query_of_def)
  moreover have "split_on 0x26 (query_of kvs) = ?ps"
    unfolding query_of_def using no assms(1) by (intro split_join) auto
  moreover have "map query_pair ?ps = kvs"
    using assms(2) by (auto simp: query_pair_component intro!: map_idI)
  ultimately show ?thesis
    by (simp add: search_params_def comp_def split_beta filter_eq_self)
qed

end
