(* ===== verification/MeshUri.thy ===== *)
theory MeshUri
  imports QueryString
begin

section \<open>Share links and contact tags (core/utils.js)\<close>

text \<open>
  The \<open>meshcore://\<close> links for contacts and channels, the \<open>\<lbrace>pubkey:type:name\<rbrace>\<close> tag that a
  contact is shared with inside a message (angle brackets in the code), and the parser for
  both. The objects the parser returns are the three constructors of \<open>mesh_card\<close>; fields the
  code stores twice (\<open>type\<close>/\<open>kind\<close>, \<open>public_key\<close>/\<open>pubkey\<close>, \<open>secret\<close>/\<open>psk\<close>,
  \<open>scope\<close>/\<open>region_scope\<close>) are kept once.
\<close>

definition MESHCORE_PUBLIC_CHANNEL_SECRET :: jstr where
  "MESHCORE_PUBLIC_CHANNEL_SECRET = js ''8b3387e9c5cdea6ac9e5edbaa115cd72''"

definition bullet :: jchar where
  "bullet = 0x2022"

definition getNumericContactType :: "jsval \<Rightarrow> nat" where
  "getNumericContactType role =
     (let r = toUpperCase (trim (to_string (js_or role (Str (js ''CLIENT'')))))
      in if r = js ''REPEATER'' \<or> r = js ''ROUTER'' then 2
         else if r = js ''ROOM'' then 3
         else if r = js ''SENSOR'' then 4
         else 1)"

definition getRoleFromNumericType :: "jsval \<Rightarrow> jstr" where
  "getRoleFromNumericType typeNum =
     (let n = parse_int (to_string typeNum)
      in if n = Fin 2 then js ''REPEATER'' else if n = Fin 3 then js ''ROOM''
         else if n = Fin 4 then js ''SENSOR'' else js ''CLIENT'')"

definition buildMeshCoreContactUri :: "jsval \<Rightarrow> jsval \<Rightarrow> jsval \<Rightarrow> jstr js_result" where
  "buildMeshCoreContactUri name publicKey role =
     (let cleanName = trim (to_string (js_or name (Str (js ''Contact''))));
          cleanPk = toLowerCase (trim (to_string (js_or publicKey (Str []))));
          typeNum = getNumericContactType role
      in bindE (encodeURIComponent cleanName) (\<lambda>n.
         bindE (encodeURIComponent cleanPk) (\<lambda>p.
           Inr (js ''meshcore://contact/add?name='' @ n @ js ''&public_key='' @ p @
                js ''&type='' @ nat_str typeNum))))"

text \<open>The secret that goes into a channel link.\<close>

definition channel_secret :: "jstr \<Rightarrow> jsval \<Rightarrow> jsval \<Rightarrow> jstr" where
  "channel_secret cleanName secret index =
     (let rawSec = trim (to_string (js_or secret (Str [])));
          isMasked = (rawSec = [] \<or> str_includes rawSec [bullet]);
          isPublic = (toLowerCase cleanName = js ''public'' \<or> index = Num (Fin 0))
      in if \<not> isMasked then toLowerCase rawSec
         else if isPublic then MESHCORE_PUBLIC_CHANNEL_SECRET
         else [])"

definition buildMeshCoreChannelUri :: "jsval \<Rightarrow> jsval \<Rightarrow> jsval \<Rightarrow> jsval \<Rightarrow> jstr js_result" where
  "buildMeshCoreChannelUri name secret index scope =
     (let cleanName = trim (to_string (js_or name (Str (js ''Public''))));
          cleanSec = channel_secret cleanName secret index;
          cleanScope = trim (to_string (js_or scope (Str [])))
      in bindE (encodeURIComponent cleanName) (\<lambda>n.
         bindE (if cleanSec \<noteq> [] then bindE (encodeURIComponent cleanSec) (\<lambda>c. Inr (js ''&secret='' @ c))
                else Inr []) (\<lambda>sec.
         bindE (if cleanScope \<noteq> [] then bindE (encodeURIComponent cleanScope) (\<lambda>c. Inr (js ''&scope='' @ c))
                else Inr []) (\<lambda>sc.
           Inr (js ''meshcore://channel/add?name='' @ n @ sec @
                (if \<not> is_nullish index \<and> to_number index \<noteq> NaN
                 then js ''&index='' @ num_str (to_number index) else []) @ sc)))))"

definition formatMeshCoreContactMessage :: "jsval \<Rightarrow> jsval \<Rightarrow> jsval \<Rightarrow> jstr" where
  "formatMeshCoreContactMessage name publicKey role =
     (let cleanName = trim (filter (\<lambda>c. c \<noteq> 0x3C \<and> c \<noteq> 0x3E) (to_string (js_or name (Str (js ''Contact'')))));
          cleanPk = toLowerCase (trim (to_string (js_or publicKey (Str []))));
          typeNum = getNumericContactType role
      in [0x3C] @ cleanPk @ [0x3A] @ nat_str typeNum @ [0x3A] @ cleanName @ [0x3E])"

subsection \<open>Parsing\<close>

datatype mesh_card =
    ContactCard (card_name: jstr) (card_key: jstr) (card_role: jstr) (card_contact_type: jnum)
  | ChannelCard (card_name: jstr) (card_secret: jstr) (card_index: "jnum option") (card_scope: "jstr option")
  | BinaryCard (card_hex: jstr)

text \<open>The pattern \<open>^<([0-9a-fA-F]{64}):([0-9]+):([^>]+)>$\<close>.\<close>

definition tag_match :: "jstr \<Rightarrow> (jstr \<times> jstr \<times> jstr) option" where
  "tag_match s =
     (if \<not> startsWith s [0x3C] then None
      else
        let k = take 64 (tl s); r1 = drop 65 s in
        if length k \<noteq> 64 \<or> \<not> list_all is_hex k \<or> \<not> startsWith r1 [0x3A] then None
        else
          let t = takeWhile is_digit (tl r1); r2 = dropWhile is_digit (tl r1) in
          if t = [] \<or> \<not> startsWith r2 [0x3A] then None
          else
            let n = takeWhile (\<lambda>c. c \<noteq> 0x3E) (tl r2); r3 = dropWhile (\<lambda>c. c \<noteq> 0x3E) (tl r2) in
            if n = [] \<or> r3 \<noteq> [0x3E] then None else Some (k, t, n))"

definition first_of :: "(jstr \<times> jstr) list \<Rightarrow> jstr list \<Rightarrow> jstr \<Rightarrow> jstr" where
  "first_of params keys dflt =
     (case filter (\<lambda>v. v \<noteq> []) (map (\<lambda>k. case params_get params k of Some v \<Rightarrow> v | None \<Rightarrow> []) keys) of
        v # _ \<Rightarrow> v | [] \<Rightarrow> dflt)"

definition channel_card :: "(jstr \<times> jstr) list \<Rightarrow> mesh_card" where
  "channel_card params =
     (let scope = first_of params [js ''scope'', js ''region_scope''] []
      in ChannelCard
           (first_of params [js ''name''] (js ''Canal Importado''))
           (first_of params [js ''secret'', js ''psk''] [])
           (case params_get params (js ''index'') of Some i \<Rightarrow> Some (parse_int i) | None \<Rightarrow> None)
           (if scope = [] then None else Some scope))"

definition contact_card :: "(jstr \<times> jstr) list \<Rightarrow> mesh_card" where
  "contact_card params =
     (let role = (case params_get params (js ''type'') of
                    Some t \<Rightarrow> if t \<noteq> [] then getRoleFromNumericType (Str t)
                              else first_of params [js ''role''] (js ''CLIENT'')
                  | None \<Rightarrow> first_of params [js ''role''] (js ''CLIENT''))
      in ContactCard
           (first_of params [js ''name'', js ''alias''] (js ''Contacto Importado''))
           (toLowerCase (trim (first_of params [js ''public_key'', js ''pubkey'', js ''key''] [])))
           role
           (Fin (of_nat (getNumericContactType (Str role)))))"

definition strip_slashes :: "jstr \<Rightarrow> jstr" where
  "strip_slashes s = dropWhile (\<lambda>c. c = 0x2F) s"

definition parse_link :: "jstr \<Rightarrow> mesh_card option" where
  "parse_link str =
     (let rest = drop (length ''meshcore://'') str;
          pathPart = strip_slashes (toLowerCase (takeWhile (\<lambda>c. c \<noteq> 0x3F) rest));
          qs = tl (dropWhile (\<lambda>c. c \<noteq> 0x3F) str);
          params = search_params qs;
          hexPart = strip_slashes rest
      in if pathPart = js ''channel'' \<or> startsWith pathPart (js ''channel/'') then Some (channel_card params)
         else if pathPart = js ''contact'' \<or> startsWith pathPart (js ''contact/'') \<or>
                 pathPart = js ''node'' \<or> startsWith pathPart (js ''node/'') then Some (contact_card params)
         else if 64 \<le> length hexPart \<and> list_all is_hex hexPart then Some (BinaryCard hexPart)
         else None)"

definition parseMeshCoreUri :: "jsval \<Rightarrow> mesh_card option" where
  "parseMeshCoreUri rawUri =
     (case rawUri of
        Str raw \<Rightarrow>
          if raw = [] then None
          else
            let str = trim raw in
            case tag_match str of
              Some (k, t, n) \<Rightarrow>
                Some (ContactCard (trim n) (toLowerCase k) (getRoleFromNumericType (Num (parse_int t))) (parse_int t))
            | None \<Rightarrow> if startsWith str (js ''meshcore://'') then parse_link str else None
      | _ \<Rightarrow> None)"

subsection \<open>Lemmas on the pieces\<close>

lemma digit_unreserved: "is_digit c \<Longrightarrow> uri_unreserved c"
  by (simp add: uri_unreserved_def)

lemma hex_unreserved: "is_hex c \<Longrightarrow> uri_unreserved c"
  by (auto simp: is_hex_def uri_unreserved_def word_le_nat_alt)

lemma hex_not_space: "is_hex c \<Longrightarrow> \<not> is_space c"
  by (auto simp: is_hex_def is_digit_def is_space_def word_le_nat_alt word_unat_eq_iff)

lemma hex_lower: "is_hex c \<Longrightarrow> is_hex (lower_unit c)"
  by (auto simp: is_hex_def is_digit_def word_le_nat_alt unat_lower_unit Let_def)

lemma trim_hex: "list_all is_hex s \<Longrightarrow> trim s = s"
  by (rule trim_id) (auto simp: list_all_iff hex_not_space)

lemma list_all_hex_lower: "list_all is_hex s \<Longrightarrow> list_all is_hex (toLowerCase s)"
  by (simp add: list_all_iff toLowerCase_def hex_lower)

lemma getNumericContactType_range: "getNumericContactType role \<in> {1, 2, 3, 4}"
  by (simp add: getNumericContactType_def Let_def)

lemma parse_int_nat_str [simp]: "parse_int (nat_str n) = Fin (of_nat n)"
proof -
  obtain c r where cr: "nat_str n = c # r" by (cases "nat_str n") auto
  have c: "is_digit c" using nat_str_digits[of n] cr by simp
  then have "c \<noteq> 0x2D" "c \<noteq> 0x2B" "\<not> is_space c"
    by (auto simp: is_digit_def is_space_def word_le_nat_alt word_unat_eq_iff)
  moreover from this have "trim_start (nat_str n) = nat_str n" by (simp add: trim_start_def cr)
  moreover have "takeWhile is_digit (c # r) = c # r" "digits_val (c # r) = n"
    using takeWhile_digits[of n] digits_val_nat_str[of n] unfolding cr by simp_all
  ultimately show ?thesis unfolding parse_int_def using cr by (simp add: Let_def)
qed

lemma num_str_nat [simp]: "num_str (Fin (of_nat n)) = nat_str n"
  using rat_str_int[of "int n"] by (simp add: num_str_def int_str_def)

text \<open>The role that a type number stands for; the parser recovers it from the number or its digits.\<close>

definition role_of_type :: "nat \<Rightarrow> jstr" where
  "role_of_type n =
     (if n = 2 then js ''REPEATER'' else if n = 3 then js ''ROOM'' else if n = 4 then js ''SENSOR''
      else js ''CLIENT'')"

lemma rat_of_nat_eq_numeral: "(rat_of_nat n = numeral k) = (n = numeral k)"
  by (metis of_nat_eq_iff of_nat_numeral)

lemma role_from_digits: "getRoleFromNumericType (Str (nat_str n)) = role_of_type n"
  by (simp add: getRoleFromNumericType_def role_of_type_def rat_of_nat_eq_numeral)

lemma role_from_number: "getRoleFromNumericType (Num (Fin (of_nat n))) = role_of_type n"
  by (simp add: getRoleFromNumericType_def role_of_type_def rat_of_nat_eq_numeral)

lemma role_types:
  "getNumericContactType (Str (js ''CLIENT'')) = 1"
  "getNumericContactType (Str (js ''REPEATER'')) = 2"
  "getNumericContactType (Str (js ''ROOM'')) = 3"
  "getNumericContactType (Str (js ''SENSOR'')) = 4"
  by (simp_all add: getNumericContactType_def js_or_def trim_visible upper_unit_def Let_def)

lemma type_of_role: "getNumericContactType (Str (role_of_type (getNumericContactType r))) = getNumericContactType r"
  using getNumericContactType_range[of r]
  by (auto simp: role_of_type_def role_types[simplified])

subsection \<open>Round trips of tags and links\<close>

text \<open>The key, role and name a sender puts into a link, after the clean-up both builders apply.\<close>

definition clean_key :: "jsval \<Rightarrow> jstr" where
  "clean_key publicKey = toLowerCase (trim (to_string (js_or publicKey (Str []))))"

definition clean_text :: "jsval \<Rightarrow> jstr \<Rightarrow> jstr" where
  "clean_text v dflt = trim (to_string (js_or v (Str dflt)))"

lemma tag_match_tag:
  assumes "list_all is_hex k" "length k = 64" "n \<noteq> []" "0x3E \<notin> set n"
  shows "tag_match ([0x3C] @ k @ [0x3A] @ nat_str t @ [0x3A] @ n @ [0x3E]) = Some (k, nat_str t, n)"
proof -
  have n: "takeWhile (\<lambda>c. c \<noteq> 0x3E) (n @ [0x3E]) = n" "dropWhile (\<lambda>c. c \<noteq> 0x3E) (n @ [0x3E]) = [0x3E]"
    using assms(4) by (auto simp: takeWhile_append dropWhile_append)
  have t: "takeWhile is_digit (nat_str t @ 0x3A # r) = nat_str t" "dropWhile is_digit (nat_str t @ 0x3A # r) = 0x3A # r" for r
    using nat_str_digits[of t] by (auto simp: takeWhile_append dropWhile_append is_digit_def)
  show ?thesis using assms by (simp add: tag_match_def Let_def n t)
qed

lemma trim_angle: "trim (0x3C # s @ [0x3E]) = 0x3C # s @ [0x3E]"
  by (rule trim_id) (simp add: visible_not_space)

lemma uri_component_digits [simp]: "uri_component (nat_str n) = nat_str n"
  using nat_str_digits[of n] digit_unreserved by (intro uri_component_unreserved) auto

lemma digits_well_formed [simp]: "well_formed (nat_str n)"
  using nat_str_digits[of n] digit_unreserved uri_unreserved_ascii by (intro ascii_well_formed) blast

definition contact_query :: "jstr \<Rightarrow> jstr \<Rightarrow> nat \<Rightarrow> (jstr \<times> jstr) list" where
  "contact_query n k t = [(js ''name'', n), (js ''public_key'', k), (js ''type'', nat_str t)]"

definition channel_query :: "jstr \<Rightarrow> jstr \<Rightarrow> nat option \<Rightarrow> jstr \<Rightarrow> (jstr \<times> jstr) list" where
  "channel_query n sec idx sc =
     [(js ''name'', n)] @ (if sec \<noteq> [] then [(js ''secret'', sec)] else []) @
     (case idx of Some i \<Rightarrow> [(js ''index'', nat_str i)] | None \<Rightarrow> []) @
     (if sc \<noteq> [] then [(js ''scope'', sc)] else [])"

lemma keys_unreserved:
  "list_all (\<lambda>k. k \<noteq> [] \<and> list_all uri_unreserved k)
     [js ''name'', js ''public_key'', js ''type'', js ''secret'', js ''index'', js ''scope'']"
  by (simp add: uri_unreserved_def is_digit_def)

lemma search_params_contact:
  assumes "well_formed n" "well_formed k"
  shows "search_params (query_of (contact_query n k t)) = contact_query n k t"
  using assms keys_unreserved
  by (intro search_params_query) (auto simp: contact_query_def list_all_iff)

lemma search_params_channel:
  assumes "well_formed n" "well_formed sec" "well_formed sc"
  shows "search_params (query_of (channel_query n sec idx sc)) = channel_query n sec idx sc"
  using assms keys_unreserved
  by (intro search_params_query) (auto simp: channel_query_def list_all_iff split: option.splits if_splits)

lemma no_question_mark: "0x3F \<notin> set (js ''contact/add'')" "0x3F \<notin> set (js ''channel/add'')"
  by simp_all

lemma parse_contact_link:
  "parse_link (js ''meshcore://contact/add?'' @ q) = Some (contact_card (search_params q))"
  by (simp add: parse_link_def strip_slashes_def lower_unit_def)

lemma parse_channel_link:
  "parse_link (js ''meshcore://channel/add?'' @ q) = Some (channel_card (search_params q))"
  by (simp add: parse_link_def strip_slashes_def lower_unit_def)

lemma query_units:
  assumes "\<forall>(k, s) \<in> set kvs. \<forall>c \<in> set k. uri_unreserved c" "c \<in> set (query_of kvs)"
  shows "0x21 \<le> c \<and> c \<le> 0x7E"
proof -
  have unres: "0x21 \<le> c \<and> c \<le> 0x7E" if "uri_unreserved c" for c
    using that by (auto simp: uri_unreserved_def is_digit_def word_le_nat_alt)
  have "list_all (\<lambda>d. 0x21 \<le> hex_upper d \<and> hex_upper d \<le> 0x7E) [0..<16]"
    by (simp add: upt_rec hex_upper_def)
  then have hx: "0x21 \<le> hex_upper d \<and> hex_upper d \<le> 0x7E" if "d < 16" for d
    using that by (simp add: list_all_iff)
  have "c \<in> set (uri_char x) \<Longrightarrow> 0x21 \<le> c \<and> c \<le> 0x7E" for c x
    using unres hx nibbles by (auto simp: uri_char_def pct_byte_def split: list.splits if_splits)
  then have comp: "c \<in> set (uri_component s) \<Longrightarrow> 0x21 \<le> c \<and> c \<le> 0x7E" for c s
    by (auto simp: uri_component_def)
  have "c \<in> set (join [0x26] ws) \<Longrightarrow> c = 0x26 \<or> (\<exists>w \<in> set ws. c \<in> set w)" for c ws
    by (induction "[0x26::jchar]" ws rule: join.induct) auto
  with assms(2) have "c = 0x26 \<or> (\<exists>(k, s) \<in> set kvs. c \<in> set k \<or> c = 0x3D \<or> c \<in> set (uri_component s))"
    unfolding query_of_def by fastforce
  with assms(1) unres comp show ?thesis by fastforce
qed

lemma trim_link:
  assumes "\<forall>(k, s) \<in> set kvs. \<forall>c \<in> set k. uri_unreserved c" "\<forall>c \<in> set p. 0x21 \<le> c \<and> c \<le> 0x7E"
  shows "trim (p @ query_of kvs) = p @ query_of kvs"
  using assms query_units by (intro trim_visible) fastforce

lemma link_not_tag: "tag_match (js ''meshcore://'' @ s) = None"
  by (simp add: tag_match_def)

lemma parse_link_string:
  assumes "trim u = u" "u = js ''meshcore://'' @ s"
  shows "parseMeshCoreUri (Str u) = parse_link u"
  using assms link_not_tag[of s] by (simp add: parseMeshCoreUri_def)

lemma well_formed_component: "well_formed s \<Longrightarrow> encodeURIComponent s = Inr (uri_component s)"
  by (simp add: encodeURIComponent_def)

lemma contact_link_form:
  assumes "well_formed (clean_text name (js ''Contact''))" "well_formed (clean_key publicKey)"
  shows "buildMeshCoreContactUri name publicKey role =
    Inr (js ''meshcore://contact/add?'' @
         query_of (contact_query (clean_text name (js ''Contact'')) (clean_key publicKey)
           (getNumericContactType role)))"
  using assms
  by (simp add: buildMeshCoreContactUri_def query_of_def contact_query_def well_formed_component
      clean_text_def clean_key_def)

lemma contact_card_query:
  assumes "n \<noteq> []"
  shows "contact_card (contact_query n k t) =
    ContactCard n (toLowerCase (trim k)) (role_of_type t)
      (Fin (of_nat (getNumericContactType (Str (role_of_type t)))))"
  using assms
  by (simp add: contact_card_def contact_query_def first_of_def params_get_def role_from_digits Let_def)

lemma channel_link_form:
  assumes "well_formed n" "well_formed sec" "well_formed sc"
    and n: "n = clean_text name (js ''Public'')" and sc: "sc = clean_text scope []"
    and i: "i = (case idx of Some k \<Rightarrow> Num (Fin (of_nat k)) | None \<Rightarrow> Null)"
    and sec: "sec = channel_secret n secret i"
  shows "buildMeshCoreChannelUri name secret i scope =
    Inr (js ''meshcore://channel/add?'' @ query_of (channel_query n sec idx sc))"
proof -
  have enc: "encodeURIComponent n = Inr (uri_component n)" "encodeURIComponent sec = Inr (uri_component sec)"
    "encodeURIComponent sc = Inr (uri_component sc)"
    using assms(1-3) by (simp_all add: well_formed_component)
  show ?thesis
    unfolding buildMeshCoreChannelUri_def Let_def clean_text_def[symmetric] n[symmetric] sc[symmetric]
      sec[symmetric] enc bindE_simps
    by (cases idx)
      (simp_all add: query_of_def channel_query_def i is_nullish_def to_number_def)
qed

lemma channel_card_query:
  assumes "n \<noteq> []"
  shows "channel_card (channel_query n sec idx sc) =
    ChannelCard n sec (map_option (\<lambda>k. Fin (of_nat k)) idx) (if sc = [] then None else Some sc)"
  using assms
  by (cases idx) (simp_all add: channel_card_def channel_query_def first_of_def params_get_def)

subsection \<open>Properties\<close>

text \<open>
  A contact tag typed into a chat is recognised by the receiver with the key, the role
  class and the name (without angle brackets) that the sender's card holds.
\<close>
theorem contact_tag_roundtrip:
  fixes name publicKey role
  defines "n \<equiv> trim (filter (\<lambda>c. c \<noteq> 0x3C \<and> c \<noteq> 0x3E) (to_string (js_or name (Str (js ''Contact'')))))"
  assumes "list_all is_hex (clean_key publicKey)" and "length (clean_key publicKey) = 64" and "n \<noteq> []"
  shows "parseMeshCoreUri (Str (formatMeshCoreContactMessage name publicKey role)) =
     Some (ContactCard n (clean_key publicKey) (role_of_type (getNumericContactType role))
             (Fin (of_nat (getNumericContactType role))))"
proof -
  let ?t = "getNumericContactType role" and ?k = "clean_key publicKey"
  let ?m = "[0x3C] @ ?k @ [0x3A] @ nat_str ?t @ [0x3A] @ n @ [0x3E]"
  have m: "formatMeshCoreContactMessage name publicKey role = ?m"
    by (simp add: formatMeshCoreContactMessage_def n_def clean_key_def)
  have "0x3E \<notin> set n" using set_trim[of "filter _ _"] by (auto simp: n_def)
  then have "tag_match ?m = Some (?k, nat_str ?t, n)" using assms by (intro tag_match_tag)
  moreover have "trim ?m = ?m" using trim_angle[of "?k @ [0x3A] @ nat_str ?t @ [0x3A] @ n"] by simp
  moreover have "toLowerCase ?k = ?k" by (simp add: clean_key_def)
  moreover have "trim n = n" by (simp add: n_def)
  ultimately show ?thesis unfolding m
    by (simp add: parseMeshCoreUri_def role_from_number)
qed

theorem contact_tag_roundtrip_witness:
  "parseMeshCoreUri (Str (formatMeshCoreContactMessage (Str (js ''Al'')) (Str (replicate 64 0x61)) (Str (js ''ROOM'')))) =
     Some (ContactCard (js ''Al'') (replicate 64 0x61) (js ''ROOM'') (Fin 3))"
proof -
  have rep: "trim (replicate 64 (0x61::jchar)) = replicate 64 0x61"
    by (rule trim_visible) simp
  have k: "clean_key (Str (replicate 64 0x61)) = replicate 64 0x61"
    by (simp add: clean_key_def js_or_def rep toLowerCase_def lower_unit_def)
  have n: "trim (filter (\<lambda>c. c \<noteq> 0x3C \<and> c \<noteq> 0x3E) (to_string (js_or (Str (js ''Al'')) (Str (js ''Contact''))))) = js ''Al''"
    by (simp add: js_or_def trim_visible)
  have t: "getNumericContactType (Str (js ''ROOM'')) = 3" by (rule role_types)
  show ?thesis
    using contact_tag_roundtrip[of "Str (replicate 64 0x61)" "Str (js ''Al'')" "Str (js ''ROOM'')"]
    unfolding k n t
    by (simp add: role_of_type_def list_all_iff is_hex_def is_digit_def)
qed

text \<open>
  A contact link read back gives the name, the key and the role class it was built from,
  whatever reserved characters, spaces or non-ASCII characters the name contains.
\<close>
theorem contact_link_roundtrip:
  assumes "well_formed (clean_text name (js ''Contact''))" and "well_formed (clean_key publicKey)"
    and "clean_text name (js ''Contact'') \<noteq> []"
  shows "\<exists>u. buildMeshCoreContactUri name publicKey role = Inr u \<and>
     parseMeshCoreUri (Str u) =
       Some (ContactCard (clean_text name (js ''Contact'')) (clean_key publicKey)
         (role_of_type (getNumericContactType role)) (Fin (of_nat (getNumericContactType role))))"
proof -
  let ?n = "clean_text name (js ''Contact'')" and ?k = "clean_key publicKey" and ?t = "getNumericContactType role"
  let ?q = "query_of (contact_query ?n ?k ?t)"
  have "trim (js ''meshcore://contact/add?'' @ ?q) = js ''meshcore://contact/add?'' @ ?q"
    using keys_unreserved by (intro trim_link) (auto simp: contact_query_def list_all_iff)
  then have "parseMeshCoreUri (Str (js ''meshcore://contact/add?'' @ ?q)) =
      parse_link (js ''meshcore://contact/add?'' @ ?q)"
    by (rule parse_link_string[of _ "js ''contact/add?'' @ ?q"]) simp
  also have "\<dots> = Some (contact_card (contact_query ?n ?k ?t))"
    using assms by (simp only: parse_contact_link search_params_contact)
  also note contact_card_query[OF assms(3)]
  also have "toLowerCase (trim ?k) = ?k" by (simp add: clean_key_def trim_toLowerCase)
  also note type_of_role
  finally show ?thesis using contact_link_form[OF assms(1,2)] by blast
qed

theorem contact_link_roundtrip_witness:
  "\<exists>u. buildMeshCoreContactUri (Str (js ''A&B'')) (Str (js ''ab'')) (Str (js ''SENSOR'')) = Inr u \<and>
     parseMeshCoreUri (Str u) = Some (ContactCard (js ''A&B'') (js ''ab'') (js ''SENSOR'') (Fin 4))"
proof -
  have n: "clean_text (Str (js ''A&B'')) (js ''Contact'') = js ''A&B''"
    by (simp add: clean_text_def js_or_def trim_visible)
  have k: "clean_key (Str (js ''ab'')) = js ''ab''"
    by (simp add: clean_key_def js_or_def trim_visible lower_unit_def)
  have t: "getNumericContactType (Str (js ''SENSOR'')) = 4" by (rule role_types)
  have "well_formed (js ''A&B'')" "well_formed (js ''ab'')"
    by (simp_all add: ascii_well_formed ascii_def)
  then show ?thesis
    using contact_link_roundtrip[of "Str (js ''A&B'')" "Str (js ''ab'')" "Str (js ''SENSOR'')"]
    unfolding n k t by (simp add: role_of_type_def)
qed

text \<open>
  C22: a channel link read back gives the channel's name, the secret that was put into it, its
  index when it was given, and its region scope.
\<close>
theorem channel_link_roundtrip:
  fixes name secret scope idx
  defines "n \<equiv> clean_text name (js ''Public'')"
    and "i \<equiv> (case idx of Some k \<Rightarrow> Num (Fin (of_nat k)) | None \<Rightarrow> Null)"
  assumes "n \<noteq> []" and "well_formed n" and "well_formed (channel_secret n secret i)"
    and "well_formed (clean_text scope [])"
  shows "\<exists>u. buildMeshCoreChannelUri name secret i scope = Inr u \<and>
     parseMeshCoreUri (Str u) =
       Some (ChannelCard n (channel_secret n secret i) (map_option (\<lambda>k. Fin (of_nat k)) idx)
         (if clean_text scope [] = [] then None else Some (clean_text scope [])))"
proof -
  let ?q = "query_of (channel_query n (channel_secret n secret i) idx (clean_text scope []))"
  have "trim (js ''meshcore://channel/add?'' @ ?q) = js ''meshcore://channel/add?'' @ ?q"
    using keys_unreserved
    by (intro trim_link) (auto simp: channel_query_def list_all_iff split: option.splits if_splits)
  then have "parseMeshCoreUri (Str (js ''meshcore://channel/add?'' @ ?q)) =
      parse_link (js ''meshcore://channel/add?'' @ ?q)"
    by (rule parse_link_string[of _ "js ''channel/add?'' @ ?q"]) simp
  also have "\<dots> = Some (channel_card (channel_query n (channel_secret n secret i) idx (clean_text scope [])))"
    using assms by (simp only: parse_channel_link search_params_channel)
  also note channel_card_query[OF assms(3)]
  finally show ?thesis
    using channel_link_form[OF assms(4-6) n_def[THEN meta_eq_to_obj_eq] refl i_def[THEN meta_eq_to_obj_eq] refl]
    by blast
qed

theorem channel_link_roundtrip_witness:
  "\<exists>u. buildMeshCoreChannelUri (Str (js ''Ops'')) (Str (js ''ab'')) (Num (Fin (of_nat 3))) Null = Inr u \<and>
     parseMeshCoreUri (Str u) = Some (ChannelCard (js ''Ops'') (js ''ab'') (Some (Fin 3)) None)"
proof -
  have n: "clean_text (Str (js ''Ops'')) (js ''Public'') = js ''Ops''"
    by (simp add: clean_text_def js_or_def trim_visible)
  have sc: "clean_text Null [] = []" by (simp add: clean_text_def js_or_def)
  have sec: "channel_secret (js ''Ops'') (Str (js ''ab'')) (Num (Fin (of_nat 3))) = js ''ab''"
    by (simp add: channel_secret_def js_or_def trim_visible bullet_def lower_unit_def Let_def)
  have "well_formed (js ''Ops'')" "well_formed (js ''ab'')" "well_formed ([] :: jstr)"
    by (simp_all add: ascii_well_formed ascii_def)
  then show ?thesis
    using channel_link_roundtrip[of "Str (js ''Ops'')" "Str (js ''ab'')" "Some 3" Null]
    unfolding option.case n sc sec by simp
qed

text \<open>
  A masked secret never leaves in a link: once the secret shown contains a bullet, the link
  is the one built with no secret at all, so nothing of the masked text can be read from it.
\<close>
theorem masked_secret_not_shared:
  assumes "bullet \<in> set (trim (to_string secret))" and "truthy secret"
  shows "buildMeshCoreChannelUri name secret index scope = buildMeshCoreChannelUri name (Str []) index scope"
proof -
  have "str_includes s [c]" if "c \<in> set s" for s :: jstr and c
    using that by (auto simp: str_includes_def sublist_def dest: split_list)
  with assms have "channel_secret n secret index = channel_secret n (Str []) index" for n
    by (simp add: channel_secret_def js_or_def Let_def)
  then show ?thesis by (simp only: buildMeshCoreChannelUri_def)
qed

theorem masked_secret_not_shared_witness:
  "buildMeshCoreChannelUri (Str (js ''Ops'')) (Str (js ''8b'' @ [bullet])) Null Null =
   buildMeshCoreChannelUri (Str (js ''Ops'')) (Str []) Null Null"
  by (rule masked_secret_not_shared) (simp_all add: trim_id bullet_def is_space_def)

end
