(* ===== verification/MessageText.thy ===== *)
theory MessageText
  imports JsValue
begin

section \<open>Message texts: escaping, senders and classification (core/utils.js)\<close>

text \<open>
  \<open>escapeHtml\<close>, the sender heuristics of \<open>extractSenderAndText\<close>, and the predicates that
  decide whether a received frame is chat or console noise. Regular expressions are written
  out as the deterministic scans they denote: in each of them the character that ends a run
  is outside the run's class, so no backtracking can change the match.
\<close>

subsection \<open>Constants\<close>

definition NON_CHAT_EVENT_TYPES :: "jstr list" where
  "NON_CHAT_EVENT_TYPES = map js
     [''repeater_response'', ''repeater_telemetry'', ''advert'', ''node_advert'',
      ''node_discovered'', ''contact_discovered'', ''contact_updated'', ''contacts_updated'',
      ''channels_updated'', ''message_delivered'', ''trace_data'', ''system_log'',
      ''metrics_update'', ''rf_log'', ''telemetry'', ''stats_radio'', ''stats_core'', ''ack'', ''trace'']"

definition KNOWN_CLI_SYSTEM_PREFIXES :: "jstr list" where
  "KNOWN_CLI_SYSTEM_PREFIXES = map js
     [''unknown command'', ''error: unknown command'', ''error unknown command'', ''invalid command'',
      ''cmd '', ''login '', ''auth '', ''stats-'', ''stats_'', ''logging off'', ''log erased'',
      ''welcome admin'', ''access denied'', ''bad pin'', ''wrong password'', ''incorrect password'',
      ''permission denied'', ''not logged in'']"

definition anonimo_accented :: jstr where
  "anonimo_accented = js ''an'' @ [0xF3] @ js ''nimo''"

definition UNKNOWN_NAMES :: "jstr list" where
  "UNKNOWN_NAMES = [js ''unknown'', anonimo_accented, js ''anonimo'', js ''anonymous'']"

definition RESERVED_LABELS :: "jstr list" where
  "RESERVED_LABELS = map js
     [''http'', ''https'', ''ftp'', ''ws'', ''wss'', ''json'', ''data'', ''cmd'', ''r'', ''ack'', ''req'',
      ''res'', ''echo'', ''status'', ''meshcore'', ''loc'']"

subsection \<open>escapeHtml\<close>

definition replace_all :: "jchar \<Rightarrow> jstr \<Rightarrow> jstr \<Rightarrow> jstr" where
  "replace_all c rep s = concat (map (\<lambda>u. if u = c then rep else [u]) s)"

definition escape_text :: "jstr \<Rightarrow> jstr" where
  "escape_text s =
     replace_all 0x27 (js ''&#039;'')
       (replace_all 0x22 (js ''&quot;'')
         (replace_all 0x3E (js ''&gt;'')
           (replace_all 0x3C (js ''&lt;'')
             (replace_all 0x26 (js ''&amp;'') s))))"

definition escapeHtml :: "jsval \<Rightarrow> jstr" where
  "escapeHtml str = (if is_nullish str then [] else escape_text (to_string str))"

subsection \<open>extractSenderAndText\<close>

text \<open>How a regular expression with flag \<open>i\<close> compares two units.\<close>

definition regex_canon :: "jchar \<Rightarrow> jchar" where
  "regex_canon c =
     (case upper_unit c of [u] \<Rightarrow> (if 0x80 \<le> c \<and> u < 0x80 then c else u) | _ \<Rightarrow> c)"

definition match_ci :: "jstr \<Rightarrow> jstr \<Rightarrow> jstr option" where
  "match_ci p s =
     (if map regex_canon (take (length p) s) = map regex_canon p then Some (drop (length p) s) else None)"

definition after_colon :: "jstr \<Rightarrow> jstr option" where
  "after_colon s =
     (case s of c # t \<Rightarrow> if c = 0x3A then Some (dropWhile is_space t) else None | [] \<Rightarrow> None)"

text \<open>The pattern \<open>^(?:[N]|<N>|N)\s*:\s*([\s\S]*)$\<close> for a literal name \<open>N\<close>.\<close>

definition name_prefix_match :: "jstr \<Rightarrow> jstr \<Rightarrow> jstr option" where
  "name_prefix_match n s =
     (let try = (\<lambda>p. case match_ci p s of
                       None \<Rightarrow> None
                     | Some r \<Rightarrow> after_colon (dropWhile is_space r))
      in case try ([0x5B] @ n @ [0x5D]) of
           Some r \<Rightarrow> Some r
         | None \<Rightarrow> (case try ([0x3C] @ n @ [0x3E]) of Some r \<Rightarrow> Some r | None \<Rightarrow> try n))"

definition name_char :: "jchar \<Rightarrow> bool" where
  "name_char c \<longleftrightarrow>
     0x61 \<le> c \<and> c \<le> 0x7A \<or> 0x41 \<le> c \<and> c \<le> 0x5A \<or> is_digit c \<or> c = 0x5F \<or> c = 0x2D \<or> c = 0x2E"

text \<open>One alternative of the general pattern: an opening unit, 2 to 32 name units, a closing unit.\<close>

definition label_alt :: "jstr \<Rightarrow> jstr \<Rightarrow> jstr \<Rightarrow> (jstr \<times> jstr) option" where
  "label_alt opn cls s =
     (if \<not> startsWith s opn then None
      else let t = drop (length opn) s; n = takeWhile name_char t; r = dropWhile name_char t
           in if length n < 2 \<or> 32 < length n \<or> \<not> startsWith r cls then None
              else (case after_colon (drop (length cls) r) of None \<Rightarrow> None | Some g \<Rightarrow> Some (n, g)))"

definition label_match :: "jstr \<Rightarrow> (jstr \<times> jstr) option" where
  "label_match s =
     (case label_alt [0x5B] [0x5D] s of
        Some m \<Rightarrow> Some m
      | None \<Rightarrow> (case label_alt [0x3C] [0x3E] s of Some m \<Rightarrow> Some m | None \<Rightarrow> label_alt [] [] s))"

record sender_text =
  senderName :: jsval
  cleanText :: jsval

definition known_name :: "jsval \<Rightarrow> bool js_result" where
  "known_name v =
     (if truthy v then bindE (as_string v) (\<lambda>s. Inr (toLowerCase s \<notin> set UNKNOWN_NAMES)) else Inr False)"

definition fallback_sender :: "jsval \<Rightarrow> jstr \<Rightarrow> jstr \<Rightarrow> sender_text js_result" where
  "fallback_sender current anonymous trimmed =
     bindE (known_name current) (\<lambda>known.
       Inr \<lparr>senderName = (if known then current else Str anonymous), cleanText = Str trimmed\<rparr>)"

definition is_unknown_sender :: "jsval \<Rightarrow> bool js_result" where
  "is_unknown_sender current =
     (if \<not> truthy current then Inr True
      else bindE (as_string current) (\<lambda>s.
        Inr (toLowerCase s \<in> set UNKNOWN_NAMES \<or> startsWith s (js ''Node_unknow'') \<or> 12 \<le> length s)))"

definition general_sender :: "jsval \<Rightarrow> jstr \<Rightarrow> jstr \<Rightarrow> sender_text js_result" where
  "general_sender current anonymous trimmed =
     (case label_match trimmed of
        None \<Rightarrow> fallback_sender current anonymous trimmed
      | Some (n, g) \<Rightarrow>
          let candidateName = trim n; actualText = trim g in
          if \<not> startsWith actualText (js ''//'') \<and> toLowerCase candidateName \<notin> set RESERVED_LABELS
          then bindE (is_unknown_sender current) (\<lambda>isUnknown.
                 Inr \<lparr>senderName = (if isUnknown then Str candidateName else current),
                      cleanText = Str (if actualText \<noteq> [] then actualText else trimmed)\<rparr>)
          else fallback_sender current anonymous trimmed)"

definition own_name_match :: "jsval \<Rightarrow> jstr \<Rightarrow> jstr option" where
  "own_name_match current trimmed =
     (case current of
        Str s \<Rightarrow>
          (let sName = trim s in
           if s \<noteq> [] \<and> sName \<noteq> [] \<and> toLowerCase sName \<notin> set UNKNOWN_NAMES
           then (case name_prefix_match sName trimmed of
                   None \<Rightarrow> None
                 | Some g \<Rightarrow> (let actual = trim g in if startsWith actual (js ''//'') then None else Some actual))
           else None)
      | _ \<Rightarrow> None)"

definition extractSenderAndText :: "jstr \<Rightarrow> jsval \<Rightarrow> jsval \<Rightarrow> sender_text js_result" where
  "extractSenderAndText anonymous txt current =
     (case txt of
        Str s \<Rightarrow>
          if s = [] then Inr \<lparr>senderName = js_or current (Str anonymous), cleanText = Str []\<rparr>
          else (let trimmed = trim s in
                case own_name_match current trimmed of
                  Some actual \<Rightarrow> Inr \<lparr>senderName = current,
                                     cleanText = Str (if actual \<noteq> [] then actual else trimmed)\<rparr>
                | None \<Rightarrow> general_sender current anonymous trimmed)
      | _ \<Rightarrow> Inr \<lparr>senderName = js_or current (Str anonymous), cleanText = js_or txt (Str [])\<rparr>)"

subsection \<open>Classification\<close>

definition isCommandOrSystemText :: "jsval \<Rightarrow> jsval \<Rightarrow> bool" where
  "isCommandOrSystemText txt txtType =
     (if txtType = Num (Fin 1) \<or> txtType = Num (Fin 2) then True
      else case txt of
        Str s \<Rightarrow>
          (let clean = trim s in
           if s = [] \<or> clean = [] then True
           else let l = toLowerCase clean;
                    cleanLower =
                      (if startsWith l (js ''->'') \<or> startsWith l (js ''- >'') \<or> startsWith l (js ''>'')
                       then trim (dropWhile (\<lambda>c. c = 0x2D \<or> c = 0x20 \<or> c = 0x3E) l)
                       else l)
                in list_ex (startsWith cleanLower) KNOWN_CLI_SYSTEM_PREFIXES)
      | _ \<Rightarrow> True)"

definition isCommonChatMessage :: "jsval \<Rightarrow> bool" where
  "isCommonChatMessage payload =
     (if \<not> is_object payload then False
      else
        let evType = to_string (js_or (js_or (getp payload (js ''event_type'')) (getp payload (js ''type'')))
                                 (Str [])) in
        if evType \<in> set NON_CHAT_EVENT_TYPES then False
        else
          let isChatType = (evType = js ''public'' \<or> evType = js ''channel'' \<or> evType = js ''direct'' \<or>
                            getp payload (js ''type'') = Str (js ''CHANNEL_MSG'') \<or>
                            getp payload (js ''type'') = Str (js ''DIRECT_MSG'')) in
          if \<not> isChatType then False
          else if to_number (nullish (nullish (getp payload (js ''txt_type'')) (getp payload (js ''text_type'')))
                    (Num (Fin 0))) = Fin 1 then False
          else trim (to_string (js_or (js_or (getp payload (js ''text'')) (getp payload (js ''message'')))
                       (Str []))) \<noteq> [])"

subsection \<open>Transmit power limits\<close>

record power_limits =
  pl_min :: rat
  pl_max :: rat
  pl_confirmed :: bool

definition num_rat :: "jsval \<Rightarrow> rat" where
  "num_rat v = (case v of Num (Fin q) \<Rightarrow> q | _ \<Rightarrow> 0)"

definition getHardwarePowerLimits :: "jsval \<Rightarrow> power_limits" where
  "getHardwarePowerLimits node =
     (let known = (getp node (js ''tx_power_limits_source'') \<noteq> Str (js ''unknown''));
          mn = getp node (js ''min_tx_power''); mx = getp node (js ''max_tx_power'')
      in \<lparr>pl_min = (if known \<and> is_integer mn then num_rat mn else -128),
          pl_max = (if known \<and> is_integer mx then num_rat mx else 127),
          pl_confirmed = (known \<and> is_integer mx)\<rparr>)"

subsection \<open>Escaping is a single pass and can be undone\<close>

definition escape_unit :: "jchar \<Rightarrow> jstr" where
  "escape_unit u =
     (if u = 0x26 then js ''&amp;'' else if u = 0x3C then js ''&lt;'' else if u = 0x3E then js ''&gt;''
      else if u = 0x22 then js ''&quot;'' else if u = 0x27 then js ''&#039;'' else [u])"

lemma replace_all_append: "replace_all c r (s @ t) = replace_all c r s @ replace_all c r t"
  by (simp add: replace_all_def)

lemma escape_text_unit: "escape_text [u] = escape_unit u"
  by (simp add: escape_text_def replace_all_def escape_unit_def)

lemma escape_text_append: "escape_text (s @ t) = escape_text s @ escape_text t"
  by (simp add: escape_text_def replace_all_append)

lemma escape_text_map: "escape_text s = concat (map escape_unit s)"
proof (induction s)
  case (Cons u s)
  then show ?case using escape_text_append[of "[u]" s] by (simp add: escape_text_unit)
qed (simp add: escape_text_def replace_all_def)

text \<open>The five entities the function writes, read back.\<close>

function unescape :: "jstr \<Rightarrow> jstr" where
  "unescape s =
     (if s = [] then []
      else if startsWith s (js ''&amp;'') then 0x26 # unescape (drop 5 s)
      else if startsWith s (js ''&lt;'') then 0x3C # unescape (drop 4 s)
      else if startsWith s (js ''&gt;'') then 0x3E # unescape (drop 4 s)
      else if startsWith s (js ''&quot;'') then 0x22 # unescape (drop 6 s)
      else if startsWith s (js ''&#039;'') then 0x27 # unescape (drop 6 s)
      else hd s # unescape (tl s))"
  by pat_completeness auto
termination by (relation "measure length") auto

declare unescape.simps [simp del]

lemma unescape_escape_unit: "unescape (escape_unit u @ s) = u # unescape s"
  by (subst unescape.simps) (auto simp: escape_unit_def)

lemma unescape_escape_text: "unescape (escape_text s) = s"
proof (induction s)
  case Nil
  show ?case by (simp add: escape_text_map unescape.simps)
next
  case (Cons u s)
  then show ?case by (simp add: escape_text_map unescape_escape_unit)
qed

lemma escape_unit_safe: "c \<in> set (escape_unit u) \<Longrightarrow> c \<notin> {0x3C, 0x3E, 0x22, 0x27}"
  by (auto simp: escape_unit_def split: if_splits)

subsection \<open>What the sender heuristics return\<close>

lemma known_name_cases:
  "known_name v = Inr True \<Longrightarrow> \<exists>s. v = Str s \<and> s \<noteq> [] \<and> toLowerCase s \<notin> set UNKNOWN_NAMES"
  by (cases v) (auto simp: known_name_def as_string_def split: if_splits)

lemma fallback_sender_string [simp]:
  "fallback_sender (Str s) a t =
     Inr \<lparr>senderName = (if s \<noteq> [] \<and> toLowerCase s \<notin> set UNKNOWN_NAMES then Str s else Str a),
          cleanText = Str t\<rparr>"
  by (simp add: fallback_sender_def known_name_def)

lemma is_unknown_sender_string [simp]:
  "is_unknown_sender (Str s) =
     Inr (s = [] \<or> toLowerCase s \<in> set UNKNOWN_NAMES \<or> startsWith s (js ''Node_unknow'') \<or> 12 \<le> length s)"
  by (simp add: is_unknown_sender_def)

lemma after_colon_suffix: "after_colon s = Some g \<Longrightarrow> suffix g s"
  by (cases s) (auto simp: after_colon_def suffix_dropWhile intro: suffix_ConsI split: if_splits)

lemma suffix_drop_trans: "suffix g (drop n s) \<Longrightarrow> suffix g s"
  using suffix_drop suffix_order.trans by blast

lemma name_prefix_match_suffix: "name_prefix_match n s = Some g \<Longrightarrow> suffix g s"
  unfolding name_prefix_match_def match_ci_def Let_def
  by (auto split: option.splits if_splits dest!: after_colon_suffix
      intro: suffix_drop_trans suffix_order.trans[OF _ suffix_dropWhile])

lemma label_alt_suffix: "label_alt opn cls s = Some (n, g) \<Longrightarrow> suffix g s"
  unfolding label_alt_def Let_def
  by (auto split: option.splits if_splits dest!: after_colon_suffix
      intro: suffix_drop_trans[of g "length cls"] suffix_order.trans[OF _ suffix_dropWhile] suffix_drop_trans)

lemma label_match_suffix: "label_match s = Some (n, g) \<Longrightarrow> suffix g s"
  by (auto simp: label_match_def split: option.splits dest: label_alt_suffix)

lemma trim_sublist: "sublist (trim s) s"
proof -
  let ?r = "dropWhile is_space (rev (dropWhile is_space s))"
  have "suffix ?r (rev (dropWhile is_space s))" by (rule suffix_dropWhile)
  then have "prefix (trim s) (dropWhile is_space s)"
    by (simp add: trim_def suffix_to_prefix)
  then show ?thesis
    using suffix_dropWhile[of is_space s] prefix_imp_sublist suffix_imp_sublist sublist_order.order_trans by blast
qed

lemma part_of_trimmed:
  assumes "suffix g (trim s)"
  shows "sublist (if trim g \<noteq> [] then trim g else trim s) s"
  using trim_sublist[of g] trim_sublist[of s] suffix_imp_sublist[OF assms] sublist_order.order_trans by auto

lemma general_sender_text:
  assumes "general_sender current a (trim s) = Inr r"
  shows "\<exists>t. cleanText r = Str t \<and> sublist t s \<and> (t = [] \<longrightarrow> trim s = [])"
proof -
  have fb: "cleanText r' = Str (trim s)" if "fallback_sender current a (trim s) = Inr r'" for r'
    using that by (auto simp: fallback_sender_def bindE_eq_Inr)
  show ?thesis
  proof (cases "label_match (trim s)")
    case None
    with assms fb trim_sublist show ?thesis by (auto simp: general_sender_def)
  next
    case (Some ng)
    obtain n g where ng: "ng = (n, g)" by (cases ng)
    have "suffix g (trim s)" using Some ng label_match_suffix by simp
    from part_of_trimmed[OF this] assms Some ng fb trim_sublist[of s] show ?thesis
      by (auto simp: general_sender_def Let_def bindE_eq_Inr split: if_splits)
  qed
qed

lemma own_name_match_part:
  "own_name_match current (trim s) = Some actual \<Longrightarrow> sublist (if actual \<noteq> [] then actual else trim s) s"
  using trim_sublist[of s]
  by (auto simp: own_name_match_def Let_def split: jsval.splits option.splits if_splits
      dest!: name_prefix_match_suffix part_of_trimmed)

lemma general_sender_trusted:
  assumes "s \<noteq> []" "toLowerCase s \<notin> set UNKNOWN_NAMES"
    and "\<not> startsWith s (js ''Node_unknow'')" "length s < 12"
  shows "\<exists>r. general_sender (Str s) a t = Inr r \<and> senderName r = Str s"
  using assms by (auto simp: general_sender_def Let_def split: option.splits)

subsection \<open>Properties\<close>

text \<open>
  C21: escaped text contains no character that could open a tag or end a quoted attribute,
  and it determines the text it came from: reading the five entities back gives \<open>String(str)\<close>.
\<close>
theorem escapeHtml_safe_invertible:
  "set (escapeHtml v) \<inter> {0x3C, 0x3E, 0x22, 0x27} = {} \<and>
   unescape (escapeHtml v) = (if is_nullish v then [] else to_string v)"
  using escape_unit_safe
  by (auto simp: escapeHtml_def escape_text_map unescape_escape_text[unfolded escape_text_map] unescape.simps[of "[]"])

text \<open>
  A node that the station knows by a short, proper name keeps its messages: whatever the
  message says, it cannot be attributed to another name. (Names of 12 characters and more,
  placeholders and unknown names may be replaced by a \<open>Name:\<close> label in the text.)
\<close>
theorem extractSender_keeps_known_sender:
  assumes "s \<noteq> []" and "toLowerCase s \<notin> set UNKNOWN_NAMES"
    and "\<not> startsWith s (js ''Node_unknow'')" and "length s < 12"
  shows "\<exists>r. extractSenderAndText a txt (Str s) = Inr r \<and> senderName r = Str s"
  using assms general_sender_trusted[OF assms]
  by (auto simp: extractSenderAndText_def js_or_def Let_def split: jsval.splits option.splits)

theorem extractSender_keeps_known_sender_witness:
  "\<exists>r. extractSenderAndText (js ''Anon'') (Str (js ''Eve: send money'')) (Str (js ''Alice'')) = Inr r \<and>
     senderName r = Str (js ''Alice'')"
  by (rule extractSender_keeps_known_sender)
    (simp_all add: UNKNOWN_NAMES_def anonimo_accented_def lower_unit_def)

text \<open>
  The text shown for a string message is a contiguous part of it, and is blank only if
  the message is.
\<close>
theorem extractSender_text_part:
  assumes "extractSenderAndText a (Str s) current = Inr r"
  shows "\<exists>t. cleanText r = Str t \<and> sublist t s \<and> (t = [] \<longrightarrow> trim s = [])"
proof (cases "s = []")
  case True
  with assms show ?thesis by (auto simp: extractSenderAndText_def)
next
  case False
  show ?thesis
  proof (cases "own_name_match current (trim s)")
    case None
    with False assms general_sender_text[of current a s r] show ?thesis
      by (simp add: extractSenderAndText_def)
  next
    case (Some actual)
    with False assms own_name_match_part[OF Some] show ?thesis
      by (auto simp: extractSenderAndText_def)
  qed
qed

theorem extractSender_text_part_witness:
  "\<exists>r t. extractSenderAndText (js ''Anon'') (Str (js ''Bob: hi'')) Undefined = Inr r \<and>
     cleanText r = Str t \<and> sublist t (js ''Bob: hi'')"
proof -
  have "\<exists>r. extractSenderAndText (js ''Anon'') (Str (js ''Bob: hi'')) Undefined = Inr r"
    by (auto simp: extractSenderAndText_def own_name_match_def general_sender_def fallback_sender_def
        known_name_def is_unknown_sender_def Let_def split: option.splits)
  then show ?thesis using extractSender_text_part by blast
qed

end
