(* ===== verification/Greedy.thy ===== *)
theory Greedy
  imports Prelude
begin

section \<open>Greedy grouping of weighted items\<close>

text \<open>
  The loop shape of \<open>splitUtf8Message\<close>: items are appended to the current group until the
  next one would pass the limit, which starts a new group. The locale states what the loop
  needs of a weight (a bound that fits a group) and proves what the grouping guarantees: nothing
  is lost or reordered, no group is empty or too heavy, and no other way of cutting the
  sequence into admissible groups uses fewer of them.
\<close>

fun group_loop :: "('a \<Rightarrow> nat) \<Rightarrow> nat \<Rightarrow> 'a list \<Rightarrow> 'a list \<Rightarrow> nat \<Rightarrow> 'a list list \<Rightarrow> 'a list list" where
  "group_loop w m [] cur n acc = (if cur \<noteq> [] then acc @ [cur] else acc)"
| "group_loop w m (x # xs) cur n acc =
     (if n + w x > m then group_loop w m xs [x] (w x) (if cur \<noteq> [] then acc @ [cur] else acc)
      else group_loop w m xs (cur @ [x]) (n + w x) acc)"

text \<open>Two neighbouring groups could not have shared the first item of the second.\<close>

definition tight :: "('a \<Rightarrow> nat) \<Rightarrow> nat \<Rightarrow> 'a list \<Rightarrow> 'a list \<Rightarrow> bool" where
  "tight w m g h \<longleftrightarrow> m < sum_list (map w g) + w (hd h)"

lemma group_loop_concat:
  "concat (group_loop w m xs cur n acc) = concat acc @ cur @ xs"
  by (induction w m xs cur n acc rule: group_loop.induct) auto

lemma group_loop_nonempty:
  "[] \<notin> set acc \<Longrightarrow> [] \<notin> set (group_loop w m xs cur n acc)"
  by (induction w m xs cur n acc rule: group_loop.induct) auto

lemma group_loop_tight:
  "n = sum_list (map w cur) \<Longrightarrow> adjacent (tight w m) acc \<Longrightarrow>
   (cur = [] \<Longrightarrow> acc = []) \<Longrightarrow> (acc \<noteq> [] \<Longrightarrow> cur \<noteq> [] \<Longrightarrow> tight w m (last acc) cur) \<Longrightarrow>
   adjacent (tight w m) (group_loop w m xs cur n acc)"
proof (induction w m xs cur n acc rule: group_loop.induct)
  case (1 w m cur n acc)
  then show ?case by (auto simp: adjacent_snoc)
next
  case (2 w m x xs cur n acc)
  show ?case
  proof (cases "n + w x > m")
    case True
    show ?thesis
    proof (cases "cur = []")
      case True
      with "2.IH"(1)[OF \<open>n + w x > m\<close>] "2.prems" \<open>n + w x > m\<close> show ?thesis by simp
    next
      case False
      with "2.prems" have "adjacent (tight w m) (acc @ [cur])" by (auto simp: adjacent_snoc)
      moreover from "2.prems"(1) True have "tight w m cur [x]" by (simp add: tight_def)
      ultimately show ?thesis using "2.IH"(1)[OF True] False True by simp
    qed
  next
    case False
    have "tight w m (last acc) (cur @ [x])" if "acc \<noteq> []"
      using that "2.prems" by (cases cur) (auto simp: tight_def)
    with "2.IH"(2)[OF False] False "2.prems" show ?thesis by simp
  qed
qed

text \<open>A tight grouping needs no more groups than any admissible cut of the same sequence.\<close>

lemma tight_minimal:
  assumes "concat hs = r @ concat gs" and "\<forall>h \<in> set hs. sum_list (map w h) \<le> m"
    and "adjacent (tight w m) gs" and "[] \<notin> set gs"
  shows "length gs \<le> length hs"
  using assms
proof (induction hs arbitrary: r gs)
  case Nil
  then show ?case by (cases gs) auto
next
  case (Cons h hs)
  from Cons.prems(1) have eq: "h @ concat hs = r @ concat gs" by simp
  show ?case
  proof (cases "length h \<le> length r")
    case True
    with eq have "concat hs = drop (length h) r @ concat gs" by (rule append_eq_shorter)
    with Cons.IH[of "drop (length h) r" gs] Cons.prems have "length gs \<le> length hs" by simp
    then show ?thesis by simp
  next
    case False
    then have "length r < length h" by simp
    with eq obtain y where y: "h = r @ y" "y \<noteq> []" "y @ concat hs = concat gs"
      by (rule append_eq_longer)
    then obtain g gs' where gs: "gs = g # gs'" by (cases gs) auto
    have "length y \<le> length g"
    proof (rule ccontr)
      assume long: "\<not> length y \<le> length g"
      then have "length g < length y" by simp
      moreover from y(3) gs have "y @ concat hs = g @ concat gs'" by simp
      ultimately obtain z where z: "y = g @ z" "z \<noteq> []" "z @ concat hs = concat gs'"
        using append_eq_longer by metis
      then obtain g2 gs2 where g2: "gs' = g2 # gs2" by (cases gs') auto
      with Cons.prems(4) gs have "g2 \<noteq> []" by auto
      with z g2 have "hd z = hd g2" by (cases z; cases g2) auto
      with z(2) have "w (hd g2) \<le> sum_list (map w z)" by (cases z) auto
      moreover from Cons.prems(3) gs g2 have "m < sum_list (map w g) + w (hd g2)"
        by (simp add: tight_def)
      moreover from Cons.prems(2) y z have "sum_list (map w g) + sum_list (map w z) \<le> m" by simp
      ultimately show False by simp
    qed
    moreover from y(3) gs have "y @ concat hs = g @ concat gs'" by simp
    ultimately have "concat hs = drop (length y) g @ concat gs'"
      by (intro append_eq_shorter)
    moreover from Cons.prems(3) gs have "adjacent (tight w m) gs'" by (cases gs') auto
    ultimately have "length gs' \<le> length hs" using Cons.prems(2,4) gs by (intro Cons.IH) auto
    with gs show ?thesis by simp
  qed
qed

locale greedy_groups =
  fixes w :: "'a \<Rightarrow> nat" and wmax :: nat
  assumes w_max: "w x \<le> wmax"
begin

lemma loop_bounded:
  assumes "wmax \<le> m"
  shows "sum_list (map w cur) \<le> m \<Longrightarrow> \<forall>g \<in> set acc. sum_list (map w g) \<le> m \<Longrightarrow>
    \<forall>g \<in> set (group_loop w m xs cur (sum_list (map w cur)) acc). sum_list (map w g) \<le> m"
proof (induction xs arbitrary: cur acc)
  case Nil
  then show ?case by simp
next
  case (Cons x xs)
  show ?case
  proof (cases "sum_list (map w cur) + w x > m")
    case True
    let ?acc = "if cur \<noteq> [] then acc @ [cur] else acc"
    have "sum_list (map w [x]) \<le> m" using w_max[of x] assms by simp
    moreover have "\<forall>g \<in> set ?acc. sum_list (map w g) \<le> m" using Cons.prems by auto
    ultimately have "\<forall>g \<in> set (group_loop w m xs [x] (sum_list (map w [x])) ?acc). sum_list (map w g) \<le> m"
      by (rule Cons.IH)
    with True show ?thesis by (simp del: group_loop.simps(1))
  next
    case False
    then have "sum_list (map w (cur @ [x])) \<le> m" by simp
    from Cons.IH[OF this Cons.prems(2)] False show ?thesis by simp
  qed
qed

lemma groups_concat: "concat (group_loop w m xs [] 0 []) = xs"
  by (simp add: group_loop_concat)

lemma groups_bounded:
  "wmax \<le> m \<Longrightarrow> g \<in> set (group_loop w m xs [] 0 []) \<Longrightarrow> sum_list (map w g) \<le> m"
  using loop_bounded[of m "[]" "[]" xs] by simp

lemma groups_minimal:
  assumes "concat hs = xs" and "\<forall>h \<in> set hs. sum_list (map w h) \<le> m"
  shows "length (group_loop w m xs [] 0 []) \<le> length hs"
proof (rule tight_minimal[where r = "[]" and w = w and m = m])
  show "concat hs = [] @ concat (group_loop w m xs [] 0 [])"
    using assms(1) by (simp add: group_loop_concat)
  show "adjacent (tight w m) (group_loop w m xs [] 0 [])"
    by (rule group_loop_tight) auto
  show "[] \<notin> set (group_loop w m xs [] 0 [])" by (rule group_loop_nonempty) simp
qed (use assms in auto)

lemma groups_count_bounds:
  assumes "wmax \<le> m"
  shows "sum_list (map w xs) \<le> m * length (group_loop w m xs [] 0 [])"
proof -
  let ?gs = "group_loop w m xs [] 0 []"
  have "sum_list (map w (concat gs)) \<le> m * length gs"
    if "\<forall>g \<in> set gs. sum_list (map w g) \<le> m" for gs
    using that
  proof (induction gs)
    case (Cons g gs)
    then have "sum_list (map w g) \<le> m" "sum_list (map w (concat gs)) \<le> m * length gs" by simp_all
    then show ?case by simp
  qed simp
  moreover have "\<forall>g \<in> set ?gs. sum_list (map w g) \<le> m"
    using assms by (blast intro: groups_bounded)
  ultimately have "sum_list (map w (concat ?gs)) \<le> m * length ?gs" .
  then show ?thesis by (simp only: groups_concat)
qed

end

end
