(* ===== verification/LoraText.thy ===== *)
theory LoraText
  imports Utf Greedy Numbers
begin

section \<open>Text budgets of LoRa frames (core/utils.js)\<close>

text \<open>
  The byte budget of a chat message, its fragmentation into frames and the estimate of a
  frame's time on air. JavaScript numbers are exact integers and rationals here: the
  values involved are far below \<open>2^53\<close>, and the airtime formula is stated over the rationals
  before its final rounding. An argument \<open>0\<close> of the airtime function stands for every value
  that \<open>Number(x) || default\<close> replaces.
\<close>

definition MAX_LORA_TEXT_BYTES :: nat where
  "MAX_LORA_TEXT_BYTES = 160"

text \<open>The \<open>TextEncoder\<close> branch, the one every browser takes.\<close>

definition getUtf8ByteLength :: "jstr \<Rightarrow> nat" where
  "getUtf8ByteLength s = (if s = [] then 0 else length (text_encode s))"

text \<open>The loop for hosts without \<open>TextEncoder\<close>; a high surrogate skips the unit after it.\<close>

fun utf8_length_loop :: "jstr \<Rightarrow> nat \<Rightarrow> nat" where
  "utf8_length_loop [] len = len"
| "utf8_length_loop (c # s) len =
     (if c \<le> 0x7F then utf8_length_loop s (len + 1)
      else if c \<le> 0x7FF then utf8_length_loop s (len + 2)
      else if 0xD800 \<le> c \<and> c \<le> 0xDBFF then utf8_length_loop (tl s) (len + 4)
      else utf8_length_loop s (len + 3))"

definition getUtf8ByteLength_fallback :: "jstr \<Rightarrow> nat" where
  "getUtf8ByteLength_fallback s = (if s = [] then 0 else utf8_length_loop s 0)"

definition getMaxLoraTextBudget :: "jstr \<Rightarrow> nat" where
  "getMaxLoraTextBudget senderName =
     (let clean = trim senderName;
          prefixBytes = (if clean \<noteq> [] then getUtf8ByteLength clean + 2 else 0)
      in nat (max 32 (int MAX_LORA_TEXT_BYTES - int prefixBytes)))"

fun split_loop :: "nat \<Rightarrow> jstr list \<Rightarrow> jstr \<Rightarrow> nat \<Rightarrow> jstr list \<Rightarrow> jstr list" where
  "split_loop maxBytes [] currentChunk currentBytes chunks =
     (if currentChunk \<noteq> [] then chunks @ [currentChunk] else chunks)"
| "split_loop maxBytes (char # chars) currentChunk currentBytes chunks =
     (let charBytes = getUtf8ByteLength char in
      if currentBytes + charBytes > maxBytes
      then split_loop maxBytes chars char charBytes
             (if currentChunk \<noteq> [] then chunks @ [currentChunk] else chunks)
      else split_loop maxBytes chars (currentChunk @ char) (currentBytes + charBytes) chunks)"

definition splitUtf8Message :: "jstr \<Rightarrow> nat \<Rightarrow> jstr list" where
  "splitUtf8Message s maxBytes =
     (if s = [] then []
      else if getUtf8ByteLength s \<le> maxBytes then [s]
      else split_loop maxBytes (js_chars s) [] 0 [])"

definition estimateLoraAirtimeMs :: "nat \<Rightarrow> nat \<Rightarrow> rat \<Rightarrow> nat \<Rightarrow> rat \<Rightarrow> int" where
  "estimateLoraAirtimeMs payloadBytes sf bwKhz cr preamble =
     (let bwHz = (if bwKhz = 0 then 250 else bwKhz) * 1000;
          spreadFactor = (if sf = 0 then 11 else sf);
          codingRate = (if cr = 0 then 5 else cr);
          tSymMs = 2 ^ spreadFactor / bwHz * 1000;
          tPreambleMs = (preamble + 425 / 100) * tSymMs;
          ih = 0;
          de = (if spreadFactor \<ge> 11 \<and> bwHz \<le> 125000 then 1 else 0);
          crcVal = 1;
          term1 = 8 * int payloadBytes - 4 * int spreadFactor + 28 + 16 * crcVal - 20 * ih;
          term2 = 4 * (int spreadFactor - 2 * de);
          payloadSymbolsNum = \<lceil>rat_of_int term1 / rat_of_int (max 1 term2)\<rceil> * int codingRate;
          symbolCount = 8 + max 0 payloadSymbolsNum;
          tPayloadMs = rat_of_int symbolCount * tSymMs
      in max 1 (js_round (tPreambleMs + tPayloadMs)))"

subsection \<open>Byte lengths\<close>

interpretation utf8: greedy_groups char_width 4
  by unfold_locales (use char_width_bounds in auto)

lemma getUtf8ByteLength_sum: "getUtf8ByteLength s = sum_list (map char_width (js_chars s))"
  by (simp add: getUtf8ByteLength_def length_text_encode)

lemma getUtf8ByteLength_char: "c \<in> set (js_chars s) \<Longrightarrow> getUtf8ByteLength c = char_width c"
  using js_chars_nonempty[of c s] by (simp add: getUtf8ByteLength_def text_encode_single)

lemma getUtf8ByteLength_sep:
  assumes "\<not> is_low u"
  shows "getUtf8ByteLength (s @ u # t) = getUtf8ByteLength s + getUtf8ByteLength (u # t)"
proof -
  from assms have "js_chars (s @ u # t) = js_chars s @ js_chars (u # t)"
    by (induction s rule: js_chars.induct) auto
  then show ?thesis by (simp add: getUtf8ByteLength_sum)
qed

lemma char_width_unit:
  "char_width [c] = (if c \<le> 0x7F then 1 else if c \<le> 0x7FF then 2 else 3)"
proof -
  have "unat c < 0x10000" using unsigned_less[of c] by simp
  then show ?thesis
    by (auto simp: char_width_def encode_char_def utf8_bytes_def lone_surrogate_def code_point_def
        word_le_nat_alt is_high_def is_low_def)
qed

lemma char_width_pair: "char_width [u, v] = 4"
  by (simp add: char_width_def encode_char_def utf8_bytes_def lone_surrogate_def code_point_def)

lemma utf8_length_loop_acc: "utf8_length_loop s (n + k) = utf8_length_loop s n + k"
  by (induction s n rule: utf8_length_loop.induct) (simp_all add: algebra_simps)

lemma fallback_well_formed:
  "list_all (\<lambda>c. \<not> lone_surrogate c) (js_chars s) \<Longrightarrow>
   utf8_length_loop s 0 = sum_list (map char_width (js_chars s))"
proof (induction s rule: js_chars.induct)
  case (2 u)
  then show ?case by (auto simp: char_width_unit lone_surrogate_def is_high_def)
next
  case (3 u v s)
  show ?case
  proof (cases "is_high u \<and> is_low v")
    case True
    then have big: "\<not> u \<le> 0x7F" "\<not> u \<le> 0x7FF" "0xD800 \<le> u \<and> u \<le> 0xDBFF"
      by (auto simp: is_high_def word_le_nat_alt)
    from True "3.prems" have "list_all (\<lambda>c. \<not> lone_surrogate c) (js_chars s)" by simp
    then have "utf8_length_loop s 0 = sum_list (map char_width (js_chars s))"
      by (rule "3.IH"(1)[OF True])
    with big True utf8_length_loop_acc[of s 0 4] show ?thesis by (simp add: char_width_pair)
  next
    case False
    with "3.prems" have "\<not> (0xD800 \<le> u \<and> u \<le> 0xDBFF)"
      and "list_all (\<lambda>c. \<not> lone_surrogate c) (js_chars (v # s))"
      by (auto simp: lone_surrogate_def is_high_def)
    note low = this(1) and ih = "3.IH"(2)[OF False this(2)]
    have "utf8_length_loop (u # v # s) 0 = utf8_length_loop (v # s) (0 + char_width [u])"
      using low by (auto simp: char_width_unit numeral_2_eq_2 utf8_length_loop.simps(2)[of u "v # s"]
          simp del: utf8_length_loop.simps(2))
    with ih False show ?thesis
      by (simp only: utf8_length_loop_acc js_chars.simps if_False list.map sum_list.Cons)
  qed
qed auto

subsection \<open>Fragmentation\<close>

lemma split_loop_groups:
  assumes "\<forall>c \<in> set chars. c \<noteq> [] \<and> getUtf8ByteLength c = char_width c" and "[] \<notin> set cur"
  shows "split_loop m chars (concat cur) n (map concat acc) =
    map concat (group_loop char_width m chars cur n acc)"
  using assms
proof (induction chars arbitrary: cur n acc)
  case Nil
  then show ?case using concat_eq_Nil_iff_all[of cur] by auto
next
  case (Cons c chars)
  show ?case
  proof (cases "n + char_width c > m")
    case True
    with Cons.prems Cons.IH[of "[c]" "char_width c" "if cur \<noteq> [] then acc @ [cur] else acc"]
    show ?thesis using concat_eq_Nil_iff_all[of cur] by (auto simp: Let_def)
  next
    case False
    with Cons.prems Cons.IH[of "cur @ [c]" "n + char_width c" acc] show ?thesis
      by (auto simp: Let_def)
  qed
qed

definition split_groups :: "jstr \<Rightarrow> nat \<Rightarrow> jstr list list" where
  "split_groups s m =
     (if s = [] then [] else if getUtf8ByteLength s \<le> m then [js_chars s]
      else group_loop char_width m (js_chars s) [] 0 [])"

lemma splitUtf8Message_groups: "splitUtf8Message s m = map concat (split_groups s m)"
  using split_loop_groups[of "js_chars s" "[]" m 0 "[]"]
  by (auto simp: splitUtf8Message_def split_groups_def getUtf8ByteLength_char dest: js_chars_nonempty)

lemma split_groups_concat: "concat (split_groups s m) = js_chars s"
  by (simp add: split_groups_def group_loop_concat)

lemma split_groups_segment:
  assumes "g \<in> set (split_groups s m)"
  shows "js_chars (concat g) = g"
proof -
  from assms obtain gs hs where "split_groups s m = gs @ g # hs" by (meson split_list)
  then have "js_chars s = concat gs @ g @ concat hs"
    using split_groups_concat[of s m] by simp
  then show ?thesis by (rule js_chars_segment)
qed

lemma split_chars: "concat (map js_chars (splitUtf8Message s m)) = js_chars s"
proof -
  have "map js_chars (splitUtf8Message s m) = split_groups s m"
    unfolding splitUtf8Message_groups by (simp add: map_idI split_groups_segment)
  then show ?thesis by (simp add: split_groups_concat)
qed

lemma split_chunk_bytes:
  assumes "4 \<le> m" and "c \<in> set (splitUtf8Message s m)"
  shows "getUtf8ByteLength c \<le> m"
proof -
  from assms(2) obtain g where g: "g \<in> set (split_groups s m)" "c = concat g"
    by (auto simp: splitUtf8Message_groups)
  have "sum_list (map char_width g) \<le> m"
    using g(1) assms(1)
    by (auto simp: split_groups_def getUtf8ByteLength_sum utf8.groups_bounded split: if_splits)
  with g split_groups_segment show ?thesis by (simp add: getUtf8ByteLength_sum)
qed

lemma split_fewest:
  assumes "concat (map js_chars ps) = js_chars s" and "\<forall>p \<in> set ps. getUtf8ByteLength p \<le> m"
  shows "length (splitUtf8Message s m) \<le> length ps"
proof (cases "getUtf8ByteLength s \<le> m")
  case True
  with assms(1) show ?thesis by (cases ps) (auto simp: splitUtf8Message_def)
next
  case False
  have "length (group_loop char_width m (js_chars s) [] 0 []) \<le> length (map js_chars ps)"
    by (rule utf8.groups_minimal) (use assms in \<open>auto simp: getUtf8ByteLength_sum\<close>)
  with False show ?thesis by (auto simp: splitUtf8Message_groups split_groups_def)
qed

lemma split_no_empty: "[] \<notin> set (splitUtf8Message s m)"
proof
  assume "[] \<in> set (splitUtf8Message s m)"
  then obtain g where g: "g \<in> set (split_groups s m)" "concat g = []"
    by (auto simp: splitUtf8Message_groups)
  then have "g = []" using split_groups_segment[OF g(1)] by (metis js_chars.simps(1))
  with g(1) show False using group_loop_nonempty[of "[]" char_width m "js_chars s" "[]" 0]
    by (auto simp: split_groups_def split: if_splits)
qed

subsection \<open>Properties\<close>

text \<open>
  Fragmenting a message loses, adds and reorders nothing: the fragments put end to end
  are the message, no fragment is empty, and reading the fragments character by character
  gives the characters of the message, so no surrogate pair is cut.
\<close>
theorem splitUtf8Message_lossless:
  "concat (splitUtf8Message s m) = s \<and> [] \<notin> set (splitUtf8Message s m) \<and>
   concat (map js_chars (splitUtf8Message s m)) = js_chars s"
proof -
  have "concat (splitUtf8Message s m) = concat (concat (split_groups s m))"
    by (simp add: splitUtf8Message_groups concat_map_concat)
  then show ?thesis by (simp add: split_groups_concat split_no_empty split_chars)
qed





text \<open>
  On strings without lone surrogates the counting loop for hosts without \<open>TextEncoder\<close>
  agrees with the encoder.
\<close>
theorem getUtf8ByteLength_fallback_agrees:
  "well_formed s \<Longrightarrow> getUtf8ByteLength_fallback s = getUtf8ByteLength s"
  by (simp add: getUtf8ByteLength_fallback_def getUtf8ByteLength_sum well_formed_def fallback_well_formed)

theorem getUtf8ByteLength_fallback_agrees_witness:
  "getUtf8ByteLength_fallback [0x6F, 0xD83D, 0xDE00] = getUtf8ByteLength [0x6F, 0xD83D, 0xDE00]"
  by (rule getUtf8ByteLength_fallback_agrees)
    (simp add: well_formed_def is_high_def is_low_def lone_surrogate_def)

text \<open>
  The airtime estimate is at least a millisecond and never falls when the payload grows,
  for every spreading factor, coding rate and non-negative bandwidth and preamble.
\<close>
theorem estimateLoraAirtimeMs_mono:
  assumes "p \<le> q" and "0 \<le> bw"
  shows "1 \<le> estimateLoraAirtimeMs p sf bw cr pre \<and>
    estimateLoraAirtimeMs p sf bw cr pre \<le> estimateLoraAirtimeMs q sf bw cr pre"
proof -
  define t where "t = 2 ^ (if sf = 0 then 11 else sf) / ((if bw = 0 then 250 else bw) * 1000) * (1000 :: rat)"
  have t: "0 \<le> t" using assms(2) by (simp add: t_def)
  have mono: "js_round (a + rat_of_int (8 + m) * t) \<le> js_round (a + rat_of_int (8 + n) * t)"
    if "m \<le> n" for a m n
    using that t by (intro js_round_mono add_left_mono mult_right_mono) auto
  show ?thesis
    unfolding estimateLoraAirtimeMs_def Let_def t_def[symmetric]
    by (intro conjI max.cobounded1 max.mono order_refl mono mult_right_mono ceiling_mono divide_right_mono)
      (use assms(1) in auto)
qed

theorem estimateLoraAirtimeMs_mono_witness:
  "1 \<le> estimateLoraAirtimeMs 20 11 250 5 8 \<and>
   estimateLoraAirtimeMs 20 11 250 5 8 \<le> estimateLoraAirtimeMs 160 11 250 5 8 \<and>
   estimateLoraAirtimeMs 20 11 250 5 8 = 330"
proof -
  have "estimateLoraAirtimeMs 20 11 250 5 8 = 330"
    by code_simp
  with estimateLoraAirtimeMs_mono[of 20 160 250 11 5 8] show ?thesis by simp
qed

end
