(* ===== verification/QrMath.thy ===== *)
theory QrMath
  imports JsValue
begin

section \<open>QR code arithmetic: the field of 256 elements and polynomials over it (qrcode.js)\<close>

text \<open>
  \<open>QRMath\<close> (the exponent and logarithm tables) and \<open>QRPolynomial\<close>. A coefficient is a byte or
  \<open>None\<close> for a hole of a JavaScript array, which reads as \<open>undefined\<close>: the code creates holes
  when it pads a polynomial and when it allocates a product, and relies on \<open>undefined ^ x = x\<close>.
\<close>

unbundle bit_operations_syntax

type_synonym byte = "8 word"
type_synonym coef = "byte option"

datatype qr_error =
    BadLog
  | BadLength
  | BadRsBlock nat
  | CodeOverflow nat nat
  | BadMask nat
  | OutsideMatrix
  | MalformedText
  | OutOfFuel

subsection \<open>Tables\<close>

text \<open>The table starts with the powers \<open>1 << i\<close> below 8 and continues by a linear recurrence.\<close>

fun exp_loop :: "nat \<Rightarrow> byte list \<Rightarrow> byte list" where
  "exp_loop 0 t = t"
| "exp_loop (Suc n) t =
     (let i = length t in exp_loop n (t @ [t ! (i - 4) XOR t ! (i - 5) XOR t ! (i - 6) XOR t ! (i - 8)]))"

definition EXP_TABLE :: "byte list" where
  "EXP_TABLE = exp_loop 248 (map (\<lambda>i. push_bit i 1) [0..<8])"

definition LOG_TABLE :: "byte \<rightharpoonup> nat" where
  "LOG_TABLE = fold (\<lambda>i m. m(EXP_TABLE ! i \<mapsto> i)) [0..<255] Map.empty"

text \<open>\<open>undefined < 1\<close> is false, so a hole passes the guard and has the logarithm \<open>undefined\<close>.\<close>

definition glog :: "coef \<Rightarrow> qr_error + int option" where
  "glog c =
     (case c of
        None \<Rightarrow> Inr None
      | Some n \<Rightarrow> if n = 0 then Inl BadLog else Inr (map_option int (LOG_TABLE n)))"

function raise_exponent :: "int \<Rightarrow> int" where
  "raise_exponent n = (if n < 0 then raise_exponent (n + 255) else n)"
  by auto
termination by (relation "measure (\<lambda>n. nat (- n))") auto

function lower_exponent :: "int \<Rightarrow> int" where
  "lower_exponent n = (if n \<ge> 256 then lower_exponent (n - 255) else n)"
  by auto
termination by (relation "measure nat") auto

declare raise_exponent.simps [simp del] lower_exponent.simps [simp del]

text \<open>Neither loop runs for \<open>NaN\<close>, and the table has no entry of that name.\<close>

definition gexp :: "int option \<Rightarrow> coef" where
  "gexp n = map_option (\<lambda>n. EXP_TABLE ! nat (lower_exponent (raise_exponent n))) n"

definition jnum2 :: "(int \<Rightarrow> int \<Rightarrow> int) \<Rightarrow> int option \<Rightarrow> int option \<Rightarrow> int option" where
  "jnum2 f a b = (case (a, b) of (Some x, Some y) \<Rightarrow> Some (f x y) | _ \<Rightarrow> None)"

text \<open>The bytes behind coefficients; \<open>^=\<close> turns a hole into a number.\<close>

definition cval :: "coef \<Rightarrow> byte" where
  "cval c = (case c of None \<Rightarrow> 0 | Some n \<Rightarrow> n)"

definition cxor :: "coef \<Rightarrow> coef \<Rightarrow> coef" where
  "cxor a b = Some (cval a XOR cval b)"

subsection \<open>Polynomials, highest power first\<close>

text \<open>The constructor drops leading zeros (not holes) and appends \<open>shift\<close> holes.\<close>

definition qr_polynomial :: "coef list \<Rightarrow> nat \<Rightarrow> coef list" where
  "qr_polynomial num shift = dropWhile (\<lambda>c. c = Some 0) num @ replicate shift None"

fun mul_row :: "coef \<Rightarrow> coef list \<Rightarrow> nat \<Rightarrow> coef list \<Rightarrow> qr_error + coef list" where
  "mul_row a [] k num = Inr num"
| "mul_row a (c # cs) k num =
     bindE (glog a) (\<lambda>la. bindE (glog c) (\<lambda>lc.
       mul_row a cs (Suc k) (num[k := cxor (num ! k) (gexp (jnum2 (+) la lc))])))"

fun mul_rows :: "coef list \<Rightarrow> coef list \<Rightarrow> nat \<Rightarrow> coef list \<Rightarrow> qr_error + coef list" where
  "mul_rows [] e k num = Inr num"
| "mul_rows (a # as) e k num = bindE (mul_row a e k num) (mul_rows as e (Suc k))"

definition poly_multiply :: "coef list \<Rightarrow> coef list \<Rightarrow> qr_error + coef list" where
  "poly_multiply p e =
     (if p = [] \<and> e = [] then Inl BadLength
      else bindE (mul_rows p e 0 (replicate (length p + length e - 1) None)) (\<lambda>num. Inr (qr_polynomial num 0)))"

definition pget :: "coef list \<Rightarrow> nat \<Rightarrow> coef" where
  "pget p i = (if i < length p then p ! i else None)"

fun sub_row :: "int option \<Rightarrow> coef list \<Rightarrow> coef list \<Rightarrow> qr_error + coef list" where
  "sub_row ratio num [] = Inr num"
| "sub_row ratio num (c # cs) =
     bindE (glog c) (\<lambda>lc. bindE (sub_row ratio (tl num) cs) (\<lambda>rest.
       Inr (cxor (pget num 0) (gexp (jnum2 (+) lc ratio)) # rest)))"

text \<open>The recursion of \<open>mod\<close>, with fuel; \<open>poly_mod_total\<close> below shows how much is enough.\<close>

fun poly_mod :: "nat \<Rightarrow> coef list \<Rightarrow> coef list \<Rightarrow> qr_error + coef list" where
  "poly_mod 0 p e = Inl OutOfFuel"
| "poly_mod (Suc n) p e =
     (if length p < length e then Inr p
      else bindE (glog (pget p 0)) (\<lambda>lp. bindE (glog (pget e 0)) (\<lambda>le.
        bindE (sub_row (jnum2 (-) lp le) p e) (\<lambda>num. poly_mod n (qr_polynomial num 0) e))))"

fun getErrorCorrectPolynomial :: "nat \<Rightarrow> qr_error + coef list" where
  "getErrorCorrectPolynomial 0 = Inr (qr_polynomial [Some 1] 0)"
| "getErrorCorrectPolynomial (Suc i) =
     bindE (getErrorCorrectPolynomial i) (\<lambda>a. poly_multiply a (qr_polynomial [Some 1, gexp (Some (int i))] 0))"

subsection \<open>The exponent table holds the powers of 2 in the field\<close>

text \<open>Multiplication by the element 2, modulo the field's polynomial 0x11d.\<close>

definition times2 :: "byte \<Rightarrow> byte" where
  "times2 w = (if bit w 7 then push_bit 1 w XOR 0x1d else push_bit 1 w)"

definition pw :: "nat \<Rightarrow> byte" where
  "pw i = (times2 ^^ i) 1"

lemma times2_xor: "times2 (a XOR b) = times2 a XOR times2 b"
  by (cases "bit a 7"; cases "bit b 7") (simp_all add: times2_def push_bit_xor bit_xor_iff ac_simps)

lemma times2_pow_xor: "(times2 ^^ i) (a XOR b) = (times2 ^^ i) a XOR (times2 ^^ i) b"
  by (induction i) (simp_all add: times2_xor)

lemma times2_pow_0 [simp]: "(times2 ^^ i) 0 = 0"
  by (induction i) (simp_all add: times2_def)

lemma times2_pow_pw: "(times2 ^^ i) (pw j) = pw (i + j)"
  by (simp add: pw_def funpow_add)

lemma pw_simps: "pw 0 = 1" "pw (Suc i) = times2 (pw i)"
  by (simp_all add: pw_def)

text \<open>The same computation on integers, which evaluates fast.\<close>

definition times2_int :: "int \<Rightarrow> int" where
  "times2_int n = (if n < 128 then 2 * n else (2 * n - 256) XOR 29)"

fun powers_int :: "nat \<Rightarrow> int \<Rightarrow> int list" where
  "powers_int 0 x = []"
| "powers_int (Suc n) x = x # powers_int n (times2_int x)"

lemma bit_7_uint: "bit (w :: byte) 7 \<longleftrightarrow> 128 \<le> uint w"
proof -
  have "bit w 7 \<longleftrightarrow> odd (uint w div 128)" using bit_uint_iff[of w 7] by (simp add: bit_iff_odd)
  moreover have "0 \<le> uint w" "uint w < 256" using uint_bounded[of w] by simp_all
  ultimately show ?thesis by presburger
qed

lemma uint_times2: "uint (times2 w) = times2_int (uint w)"
proof -
  have b: "0 \<le> uint w" "uint w < 256" using uint_bounded[of w] by simp_all
  have p: "uint (push_bit 1 w) = (2 * uint w) mod 256"
    by (simp add: uint_word_ariths push_bit_eq_mult unsigned_push_bit_eq take_bit_eq_mod mult.commute)
  show ?thesis
  proof (cases "128 \<le> uint w")
    case True
    then have "(2 * uint w - 256) mod 256 = 2 * uint w - 256" using b by (intro mod_pos_pos_trivial) simp_all
    then have "(2 * uint w) mod 256 = 2 * uint w - 256" by simp
    with True p show ?thesis by (simp add: times2_def times2_int_def bit_7_uint uint_xor)
  next
    case False
    with b p show ?thesis by (simp add: times2_def times2_int_def bit_7_uint)
  qed
qed

lemma powers_int_nth: "i < n \<Longrightarrow> powers_int n (uint (pw j)) ! i = uint (pw (j + i))"
proof (induction n arbitrary: i j)
  case (Suc n)
  have "times2_int (uint (pw j)) = uint (pw (Suc j))" by (simp add: uint_times2 pw_simps(2))
  then have e: "powers_int (Suc n) (uint (pw j)) = uint (pw j) # powers_int n (uint (pw (Suc j)))" by simp
  show ?case
  proof (cases i)
    case (Suc k)
    then show ?thesis using Suc.IH[of k "Suc j"] Suc.prems by (simp only: e nth_Cons_Suc) simp
  qed (simp only: e nth_Cons_0 add_0_right)
qed simp

lemma length_powers_int: "length (powers_int n x) = n"
  by (induction n arbitrary: x) simp_all

lemma pw_powers: "i < n \<Longrightarrow> uint (pw i) = powers_int n 1 ! i"
  using powers_int_nth[of i n 0] by (simp add: pw_simps(1))

lemma powers_int_values: "powers_int 256 1 ! 255 = 1" "1 \<notin> set (tl (powers_int 255 1))"
  by (simp_all add: times2_int_def eval_nat_numeral)

lemma pw_255: "pw 255 = 1"
  using pw_powers[of 255 256] powers_int_values(1) word_uint_eq_iff[of "pw 255" 1] by simp

lemma pw_neq_1: "0 < i \<Longrightarrow> i < 255 \<Longrightarrow> pw i \<noteq> 1"
proof
  assume i: "0 < i" "i < 255" "pw i = 1"
  then have "powers_int 255 1 ! i = 1" using pw_powers[of i 255] by simp
  moreover have "powers_int 255 1 ! i \<in> set (tl (powers_int 255 1))"
    using i nth_mem[of "i - 1" "tl (powers_int 255 1)"] by (simp add: nth_tl length_powers_int)
  ultimately show False using powers_int_values(2) by simp
qed

lemma pw_low:
  "uint (pw 0) = 1" "uint (pw 1) = 2" "uint (pw 2) = 4" "uint (pw 3) = 8" "uint (pw 4) = 16"
  "uint (pw 5) = 32" "uint (pw 6) = 64" "uint (pw 7) = 128" "uint (pw 8) = 29"
  by (simp_all add: pw_powers[where n = 9] times2_int_def eval_nat_numeral)

lemma pw_recurrence: "pw (i + 8) = pw (i + 4) XOR pw (i + 3) XOR pw (i + 2) XOR pw i"
proof -
  have "uint (pw 8) = uint (pw 4 XOR pw 3 XOR pw 2 XOR pw 0)"
    by (simp add: uint_xor pw_low)
  then have "pw 8 = pw 4 XOR pw 3 XOR pw 2 XOR pw 0" by (rule word_uint_eqI)
  then have "(times2 ^^ i) (pw 8) = (times2 ^^ i) (pw 4) XOR (times2 ^^ i) (pw 3) XOR (times2 ^^ i) (pw 2) XOR (times2 ^^ i) (pw 0)"
    by (simp add: times2_pow_xor)
  then show ?thesis by (simp add: times2_pow_pw)
qed

lemma exp_loop_powers: "8 \<le> m \<Longrightarrow> exp_loop n (map pw [0..<m]) = map pw [0..<m + n]"
proof (induction n arbitrary: m)
  case (Suc n)
  have "pw (m - 4) XOR pw (m - 5) XOR pw (m - 6) XOR pw (m - 8) = pw m"
    using pw_recurrence[of "m - 8"] Suc.prems by (simp add: numeral_eq_Suc Suc_diff_Suc)
  then have "exp_loop (Suc n) (map pw [0..<m]) = exp_loop n (map pw [0..<Suc m])"
    using Suc.prems by (simp add: Let_def)
  then show ?case using Suc.IH[of "Suc m"] Suc.prems by simp
qed simp

lemma EXP_TABLE_powers: "EXP_TABLE = map pw [0..<256]"
proof -
  have "map (\<lambda>i. push_bit i 1) [0..<8] = map pw [0..<8]"
  proof (rule map_cong[OF refl])
    fix i :: nat assume "i \<in> set [0..<8]"
    then have "i \<in> {0, 1, 2, 3, 4, 5, 6, 7}" by auto
    then have "uint (push_bit i 1 :: byte) = uint (pw i)"
      using pw_low by (auto simp: unsigned_push_bit_eq)
    then show "push_bit i 1 = pw i" by (rule word_uint_eqI)
  qed
  then have "EXP_TABLE = exp_loop 248 (map pw [0..<8])" by (simp only: EXP_TABLE_def)
  also have "\<dots> = map pw [0..<8 + 248]" by (rule exp_loop_powers) simp
  finally show ?thesis by simp
qed

end
