(* ===== verification/QrField.thy ===== *)
theory QrField
  imports QrMath
begin

section \<open>The field behind the tables, and Reed-Solomon codewords\<close>

text \<open>
  The bytes with XOR and the multiplication that the code computes with its logarithm tables
  form a field. It is made an instance of the library's class, so that sums, powers and
  evaluation of polynomials are the library's.
\<close>

subsection \<open>Logarithms\<close>

lemma times2_inj: "times2 a = times2 b \<Longrightarrow> a = b"
proof -
  assume eq: "times2 a = times2 b"
  have b0: "bit (times2 w) 0 \<longleftrightarrow> bit w 7" for w
    by (auto simp: times2_def bit_xor_iff bit_push_bit_iff bit_0 even_xor_iff)
  have bits: "bit (times2 w) (Suc n) \<longleftrightarrow> (bit w n \<noteq> (bit w 7 \<and> bit (0x1d :: byte) (Suc n)))" if "n < 7" for w n
    using that by (auto simp: times2_def bit_xor_iff bit_push_bit_iff simp del: push_bit_Suc)
  have "bit a n = bit b n" if "n < 8" for n
  proof (cases "n < 7")
    case True
    with bits[of n a] bits[of n b] b0[of a] b0[of b] eq show ?thesis by auto
  next
    case False
    with that have "n = 7" by simp
    with b0[of a] b0[of b] eq show ?thesis by simp
  qed
  then show "a = b" by (intro bit_word_eqI) simp
qed

lemma times2_pow_inj: "(times2 ^^ i) a = (times2 ^^ i) b \<Longrightarrow> a = b"
  by (induction i) (auto dest: times2_inj)

lemma pw_inj: "i < 255 \<Longrightarrow> j < 255 \<Longrightarrow> pw i = pw j \<Longrightarrow> i = j"
proof -
  have *: "i = j" if "i \<le> j" "j < 255" "pw i = pw j" for i j
  proof (rule ccontr)
    assume "i \<noteq> j"
    have "(times2 ^^ i) (pw (j - i)) = (times2 ^^ i) (pw 0)" using that by (simp add: times2_pow_pw)
    then have "pw (j - i) = 1" by (auto dest: times2_pow_inj simp: pw_simps)
    moreover have "0 < j - i" "j - i < 255" using that \<open>i \<noteq> j\<close> by arith+
    ultimately show False using pw_neq_1 by blast
  qed
  assume "i < 255" "j < 255" "pw i = pw j"
  then show ?thesis using *[of i j] *[of j i] by (cases "i \<le> j") simp_all
qed

lemma pw_nonzero: "pw i \<noteq> 0"
proof
  assume "pw i = 0"
  then have "(times2 ^^ i) 1 = (times2 ^^ i) 0" by (simp add: pw_def)
  from times2_pow_inj[OF this] show False by simp
qed

lemma pw_period: "pw (i + 255) = pw i"
  using times2_pow_pw[of i 255] by (simp only: pw_255) (simp add: pw_def)

lemma pw_mod: "pw (i mod 255) = pw i"
proof -
  have "pw (r + 255 * k) = pw r" for r k
  proof (induction k)
    case (Suc k)
    have "r + 255 * Suc k = (r + 255 * k) + 255" by simp
    with Suc show ?case by (simp only: pw_period)
  qed simp
  from this[of "i mod 255" "i div 255"] show ?thesis by simp
qed

lemma pw_image: "pw ` {0..<255} = - {0}"
proof (rule card_subset_eq)
  have "card (pw ` {0..<255}) = 255" by (subst card_image) (auto simp: inj_on_def dest: pw_inj)
  then show "card (pw ` {0..<255}) = card (- {0 :: byte})"
    by (simp add: Compl_eq_Diff_UNIV card_Diff_subset card_word)
qed (auto simp: pw_nonzero)

lemma log_fold:
  "(\<And>j k. j < n \<Longrightarrow> k < n \<Longrightarrow> f j = f k \<Longrightarrow> j = k) \<Longrightarrow> i < n \<Longrightarrow>
   fold (\<lambda>i m. m(f i \<mapsto> i)) [0..<n] m0 (f i) = Some i"
proof (induction n)
  case (Suc n)
  show ?case
  proof (cases "i = n")
    case False
    with Suc.prems(2) have "i < n" by simp
    moreover have "f i \<noteq> f n" using Suc.prems(1)[of i n] \<open>i < n\<close> by auto
    moreover have "fold (\<lambda>i m. m(f i \<mapsto> i)) [0..<n] m0 (f i) = Some i"
      by (rule Suc.IH[OF Suc.prems(1) \<open>i < n\<close>]) simp_all
    moreover have "fold (\<lambda>i m. m(f i \<mapsto> i)) [0..<Suc n] m0 = (fold (\<lambda>i m. m(f i \<mapsto> i)) [0..<n] m0)(f n \<mapsto> n)" by simp
    ultimately show ?thesis by (simp only: fun_upd_other not_False_eq_True)
  qed simp
qed simp

lemma LOG_TABLE_pw: "i < 255 \<Longrightarrow> LOG_TABLE (pw i) = Some i"
proof -
  assume i: "i < 255"
  have "EXP_TABLE ! j = pw j" if "j \<in> set [0..<255]" for j
  proof -
    from that have "j < 256" unfolding set_upt by simp
    then show ?thesis unfolding EXP_TABLE_powers by (simp only: nth_map_upt) simp
  qed
  then have "LOG_TABLE = fold (\<lambda>i m. m(pw i \<mapsto> i)) [0..<255] Map.empty"
    unfolding LOG_TABLE_def by (intro fold_cong refl) simp
  then show ?thesis using log_fold[of 255 pw i Map.empty, OF pw_inj i] by (simp only:)
qed

subsection \<open>The field\<close>

datatype gf = GF (gf_byte: byte)

definition gf_log :: "gf \<Rightarrow> nat" where
  "gf_log a = the (LOG_TABLE (gf_byte a))"

definition gf_pow :: "nat \<Rightarrow> gf" where
  "gf_pow n = GF (pw n)"

lemma gf_cases:
  obtains "a = GF 0" | i where "i < 255" "a = gf_pow i"
proof (cases "gf_byte a = 0")
  case False
  then have "gf_byte a \<in> pw ` {0..<255}" by (simp only: pw_image) simp
  then show ?thesis using that by (cases a) (auto simp: gf_pow_def)
qed (use that in \<open>cases a; simp\<close>)

lemma gf_log_pow [simp]: "gf_log (gf_pow i) = i mod 255"
  using LOG_TABLE_pw[of "i mod 255"] by (simp add: gf_log_def gf_pow_def pw_mod)

lemma gf_pow_mod [simp]: "gf_pow (i mod 255) = gf_pow i"
  by (simp add: gf_pow_def pw_mod)

lemma gf_pow_nonzero [simp]: "gf_pow i \<noteq> GF 0"
  by (simp add: gf_pow_def pw_nonzero)

instantiation gf :: field
begin

definition zero_gf where "0 = GF 0"
definition one_gf where "1 = gf_pow 0"
definition plus_gf where "a + b = GF (gf_byte a XOR gf_byte b)"
definition minus_gf where "a - b = GF (gf_byte a XOR gf_byte b)"
definition uminus_gf where "- a = (a :: gf)"
definition times_gf where "a * b = (if a = GF 0 \<or> b = GF 0 then GF 0 else gf_pow (gf_log a + gf_log b))"
definition inverse_gf where "inverse a = (if a = GF 0 then GF 0 else gf_pow (255 - gf_log a))"
definition divide_gf where "a div b = a * inverse (b :: gf)"

lemma gf_pow_times: "gf_pow i * a = GF ((times2 ^^ i) (gf_byte a))"
proof (cases a rule: gf_cases)
  case (2 j)
  have "pw (i mod 255 + j) = pw (i + j)" by (metis mod_add_left_eq pw_mod)
  moreover have "gf_pow i * a = GF (pw (i mod 255 + j))" using 2 by (simp add: times_gf_def) (simp add: gf_pow_def)
  ultimately show ?thesis using 2 by (simp add: gf_pow_def times2_pow_pw)
qed (simp add: times_gf_def)

lemma gf_pow_add: "gf_pow i * gf_pow j = gf_pow (i + j)"
  by (simp add: gf_pow_times) (simp add: gf_pow_def times2_pow_pw)

instance
proof
  fix a b c :: gf
  show comm: "x * y = y * x" for x y :: gf by (simp add: times_gf_def add.commute)
  have zero: "GF 0 * x = GF 0" "x * GF 0 = GF 0" for x by (simp_all add: times_gf_def)
  show "a * b * c = a * (b * c)"
    by (cases a rule: gf_cases; cases b rule: gf_cases; cases c rule: gf_cases)
      (simp_all add: zero gf_pow_add add.assoc)
  show "(a + b) * c = a * c + b * c"
  proof (cases c rule: gf_cases)
    case 1
    then show ?thesis by (simp add: zero plus_gf_def)
  next
    case (2 i)
    then show ?thesis
      unfolding comm[of a c] comm[of b c] comm[of "a + b" c] by (simp add: gf_pow_times plus_gf_def times2_pow_xor)
  qed
  show "1 * a = a" by (cases a rule: gf_cases) (simp_all add: one_gf_def zero gf_pow_add)
  show "a \<noteq> 0 \<Longrightarrow> inverse a * a = 1"
  proof (cases a rule: gf_cases)
    case (2 i)
    have "gf_pow 255 = gf_pow 0" by (metis gf_pow_mod mod_self)
    with 2 show ?thesis by (simp add: inverse_gf_def gf_pow_add one_gf_def)
  qed (simp add: zero_gf_def)
qed (simp_all add: plus_gf_def minus_gf_def uminus_gf_def zero_gf_def one_gf_def divide_gf_def inverse_gf_def
      gf_pow_nonzero[symmetric] xor.assoc xor.commute xor.left_commute)

end

subsection \<open>What the code computes, in the field\<close>

definition gval :: "coef \<Rightarrow> gf" where
  "gval c = GF (cval c)"

definition ev :: "coef list \<Rightarrow> gf \<Rightarrow> gf" where
  "ev p x = foldl (\<lambda>a c. a * x + gval c) 0 p"

definition nonzero :: "coef list \<Rightarrow> bool" where
  "nonzero p = list_all (\<lambda>c. gval c \<noteq> 0) p"

lemma gf_char2 [simp, gf_simps]: "a + a = (0 :: gf)"
  by (simp add: plus_gf_def zero_gf_def)

lemma gf_cancel [gf_simps]: "a + (a + b) = (b :: gf)"
  by (simp add: add.assoc[symmetric])

lemma gf_pow_power: "gf_pow n = gf_pow 1 ^ n"
proof (induction n)
  case (Suc n)
  have "gf_pow (Suc n) = gf_pow 1 * gf_pow n" by (simp only: gf_pow_add) simp
  with Suc show ?case by simp
qed (simp add: one_gf_def)

lemma gval_cxor [simp]: "gval (cxor a b) = gval a + gval b"
  by (simp add: gval_def cxor_def plus_gf_def cval_def)

lemma gval_None [simp]: "gval None = 0"
  by (simp add: gval_def cval_def zero_gf_def)

lemma gval_zero: "gval c = 0 \<longleftrightarrow> c = None \<or> c = Some 0"
  by (cases c) (simp_all add: gval_def cval_def zero_gf_def)

lemma ev_simps [simp]: "ev [] x = 0" "ev (p @ [c]) x = ev p x * x + gval c"
  by (simp_all add: ev_def)

lemma ev_append: "ev (p @ q) x = ev p x * x ^ length q + ev q x"
proof (induction q rule: rev_induct)
  case (snoc c q)
  have "ev (p @ q @ [c]) x = ev (p @ q) x * x + gval c" using ev_simps(2)[of "p @ q"] by simp
  with snoc show ?case by (simp add: algebra_simps)
qed simp

lemma ev_Cons: "ev (c # p) x = gval c * x ^ length p + ev p x"
  using ev_append[of "[c]" p x] ev_simps(2)[of "[]" c x] by simp

lemma ev_replicate [simp]: "ev (replicate n None) x = 0"
  by (induction n) (simp_all add: ev_Cons)

lemma ev_strip: "ev (dropWhile (\<lambda>c. c = Some 0) p) x = ev p x"
  by (induction p) (simp_all add: ev_Cons gval_def cval_def zero_gf_def[symmetric])

lemma ev_polynomial: "ev (qr_polynomial num shift) x = ev num x * x ^ shift"
  by (simp add: qr_polynomial_def ev_append ev_strip)

lemma raise_mod: "0 \<le> raise_exponent n \<and> raise_exponent n mod 255 = n mod 255 \<and> (0 \<le> n \<longrightarrow> raise_exponent n = n)"
  by (induction n rule: raise_exponent.induct) (subst raise_exponent.simps, auto, (subst raise_exponent.simps, simp)+)

lemma lower_mod: "0 \<le> n \<Longrightarrow> 0 \<le> lower_exponent n \<and> lower_exponent n < 256 \<and> lower_exponent n mod 255 = n mod 255"
proof (induction n rule: lower_exponent.induct)
  case (1 n)
  show ?case
  proof (cases "256 \<le> n")
    case True
    with 1 have "lower_exponent n = lower_exponent (n - 255)" by (subst lower_exponent.simps) simp
    moreover have "(n - 255) mod 255 = n mod 255" by simp
    ultimately show ?thesis using 1 True by simp
  qed (use 1 in \<open>subst (1 2 3) lower_exponent.simps; simp\<close>)
qed

definition gf_powi :: "int \<Rightarrow> gf" where
  "gf_powi n = gf_pow (nat (n mod 255))"

lemma gval_gexp: "gval (gexp (Some n)) = gf_powi n"
proof -
  let ?k = "lower_exponent (raise_exponent n)"
  have k: "0 \<le> ?k" "?k < 256" "?k mod 255 = n mod 255" using lower_mod raise_mod by (blast, blast, metis)
  have "EXP_TABLE ! nat ?k = pw (nat ?k)"
    unfolding EXP_TABLE_powers using k by (subst nth_map_upt) auto
  also have "\<dots> = pw (nat ?k mod 255)" by (simp only: pw_mod)
  also have "nat ?k mod 255 = nat (n mod 255)" using k by (simp add: nat_mod_distrib flip: k(3))
  finally show ?thesis by (simp add: gexp_def gval_def cval_def gf_powi_def gf_pow_def)
qed

lemma gf_powi_add: "gf_powi (m + n) = gf_powi m * gf_powi n"
proof -
  have "nat ((m + n) mod 255) = (nat (m mod 255) + nat (n mod 255)) mod 255"
  proof -
    have "(m + n) mod 255 = (m mod 255 + n mod 255) mod 255" by (simp add: mod_add_eq)
    then show ?thesis by (simp only:) (simp add: nat_mod_distrib nat_add_distrib)
  qed
  then show ?thesis by (simp add: gf_powi_def gf_pow_add)
qed

lemma gf_powi_nat: "gf_powi (int i) = gf_pow i"
  by (simp add: gf_powi_def nat_mod_distrib)

lemma gf_powi_minus: "gf_powi (m - n) = gf_powi m / gf_powi n"
proof -
  have "gf_powi (m - n) * gf_powi n = gf_powi m" using gf_powi_add[of "m - n" n] by simp
  moreover have "gf_powi n \<noteq> 0" by (simp add: gf_powi_def zero_gf_def)
  ultimately show ?thesis by (simp add: field_simps)
qed

lemma glog_ok: "gval c \<noteq> 0 \<Longrightarrow> \<exists>l. glog c = Inr (Some l) \<and> gf_powi l = gval c"
proof -
  assume nz: "gval c \<noteq> 0"
  then obtain n where c: "c = Some n" "n \<noteq> 0" by (cases c) (auto simp: gval_zero)
  then obtain i where i: "i < 255" "gval c = gf_pow i" using nz by (cases "gval c" rule: gf_cases) (auto simp: zero_gf_def)
  then have "n = pw i" using c by (simp add: gval_def cval_def gf_pow_def)
  with c i show ?thesis by (auto simp: glog_def LOG_TABLE_pw gf_powi_nat)
qed

subsection \<open>Remainders\<close>

definition gscale :: "int option \<Rightarrow> gf" where
  "gscale r = (case r of None \<Rightarrow> 0 | Some n \<Rightarrow> gf_powi n)"

lemma gexp_scale: "gval (gexp (jnum2 (+) (Some l) r)) = gf_powi l * gscale r"
proof (cases r)
  case None
  then show ?thesis by (simp add: jnum2_def gscale_def gexp_def)
next
  case (Some n)
  then show ?thesis by (simp add: jnum2_def gscale_def gval_gexp gf_powi_add)
qed

lemma cxor_Some: "\<exists>n. cxor a b = Some n"
  by (simp add: cxor_def)

lemma sub_row_ok:
  "nonzero e \<Longrightarrow> length e \<le> length p \<Longrightarrow>
   \<exists>num. sub_row r p e = Inr num \<and> length num = length p \<and>
     (\<forall>x. ev num x = ev p x + gscale r * ev e x * x ^ (length p - length e)) \<and>
     (e \<noteq> [] \<longrightarrow> (\<exists>n. hd num = Some n) \<and> gval (hd num) = gval (hd p) + gscale r * gval (hd e))"
proof (induction e arbitrary: p)
  case (Cons c cs)
  then obtain a as where p: "p = a # as" by (cases p) auto
  from Cons.prems have nz: "gval c \<noteq> 0" "nonzero cs" by (simp_all add: nonzero_def)
  from glog_ok[OF nz(1)] obtain l where l: "glog c = Inr (Some l)" "gf_powi l = gval c" by blast
  from Cons.IH[OF nz(2), of as] Cons.prems(2) p obtain num where
    num: "sub_row r as cs = Inr num" "length num = length as"
      "\<And>x. ev num x = ev as x + gscale r * ev cs x * x ^ (length as - length cs)" by auto
  let ?h = "cxor a (gexp (jnum2 (+) (Some l) r))"
  have "ev (?h # num) x = ev p x + gscale r * ev (c # cs) x * x ^ (length p - length (c # cs))" for x
  proof -
    have "x ^ length as = x ^ length cs * x ^ (length as - length cs)"
      using Cons.prems(2) p by (simp flip: power_add)
    then show ?thesis using num l p by (simp add: ev_Cons gexp_scale algebra_simps)
  qed
  moreover have "sub_row r p (c # cs) = Inr (?h # num)" using l num p by (simp add: pget_def)
  ultimately show ?case using num l p by (auto simp: gexp_scale mult.commute cxor_Some)
qed simp

definition stripped :: "coef list \<Rightarrow> bool" where
  "stripped p \<longleftrightarrow> p = [] \<or> hd p \<noteq> Some 0"

lemma stripped_polynomial: "stripped (qr_polynomial num 0)"
  using hd_dropWhile[of "\<lambda>c. c = Some 0" num]
  by (cases "dropWhile (\<lambda>c. c = Some 0) num = []") (simp_all add: stripped_def qr_polynomial_def)

lemma glog_lead:
  "stripped p \<Longrightarrow> p \<noteq> [] \<Longrightarrow> \<exists>l. glog (hd p) = Inr l \<and> gval (hd p) = gscale l"
  using glog_ok[of "hd p"] by (cases "hd p") (auto simp: stripped_def glog_def gscale_def gval_zero)

lemma poly_mod_total:
  assumes e: "nonzero e" "e \<noteq> []"
  shows "stripped p \<Longrightarrow> 0 < n \<Longrightarrow> length p + 1 < n + length e \<Longrightarrow>
    \<exists>r. poly_mod n p e = Inr r \<and> length r < length e \<and> (\<forall>x. ev e x = 0 \<longrightarrow> ev r x = ev p x)"
proof (induction n arbitrary: p)
  case (Suc n)
  show ?case
  proof (cases "length p < length e")
    case False
    then have p: "p \<noteq> []" using e(2) by (cases p) auto
    have head: "pget q 0 = hd q" if "q \<noteq> []" for q using that by (simp add: pget_def hd_conv_nth)
    obtain lp where lp: "glog (hd p) = Inr lp" "gval (hd p) = gscale lp" using glog_lead Suc.prems(1) p by blast
    have "gval (hd e) \<noteq> 0" using e by (cases e) (simp_all add: nonzero_def)
    from glog_ok[OF this] obtain le where le: "glog (hd e) = Inr (Some le)" "gf_powi le = gval (hd e)" by blast
    let ?r = "jnum2 (-) lp (Some le)"
    from sub_row_ok[OF e(1), of p ?r] False obtain num where
      num: "sub_row ?r p e = Inr num" "length num = length p"
        "\<And>x. ev num x = ev p x + gscale ?r * ev e x * x ^ (length p - length e)"
        "\<exists>n. hd num = Some n" "gval (hd num) = gval (hd p) + gscale ?r * gval (hd e)"
      using e(2) by auto
    have "gscale ?r * gval (hd e) = gscale lp"
      using \<open>gval (hd e) \<noteq> 0\<close> le by (cases lp) (simp_all add: jnum2_def gscale_def gf_powi_minus)
    then have "gval (hd num) = 0" using num(5) lp(2) by simp
    then have "hd num = Some 0" using num(4) by (auto simp: gval_zero)
    then obtain rest where rest: "num = Some 0 # rest" using num(2) p by (cases num) auto
    let ?q = "qr_polynomial num 0"
    have len: "length ?q < length p"
      using rest num(2) length_dropWhile_le[of "\<lambda>c. c = Some 0" rest] by (simp add: qr_polynomial_def)
    have n0: "0 < n" using Suc.prems(3) False e(2) by (cases n) auto
    from len n0 Suc.prems(3) e(2) have "length ?q + 1 < n + length e" by simp
    from Suc.IH[OF stripped_polynomial n0 this] obtain r where
      r: "poly_mod n ?q e = Inr r" "length r < length e" "\<And>x. ev e x = 0 \<Longrightarrow> ev r x = ev ?q x" by blast
    have "ev r x = ev p x" if "ev e x = 0" for x using r(3)[OF that] num(3)[of x] that by (simp add: ev_polynomial)
    then show ?thesis using False r lp le num(1) head p e(2) by simp
  qed simp
qed simp

subsection \<open>Generator polynomials\<close>

text \<open>
  The coefficients of \<open>(x + 1) (x + a) \<dots> (x + a^(n-1))\<close>. Each is nonzero while \<open>n < 255\<close>, by the
  ratio of neighbours; so \<open>multiply\<close> never takes the logarithm of zero.
\<close>

fun gen_coef :: "nat \<Rightarrow> nat \<Rightarrow> gf" where
  "gen_coef 0 k = (if k = 0 then 1 else 0)"
| "gen_coef (Suc n) k = gen_coef n k + (if k = 0 then 0 else gf_pow n * gen_coef n (k - 1))"

lemma gen_coef_ends [simp]: "gen_coef n 0 = 1" "n < k \<Longrightarrow> gen_coef n k = 0"
  by (induction n arbitrary: k) simp_all

lemma gen_coef_ratio: "(1 + gf_pow (Suc k)) * gen_coef n (Suc k) = (gf_pow k + gf_pow n) * gen_coef n k"
proof (induction n arbitrary: k)
  case 0
  show ?case by (simp add: one_gf_def[symmetric])
next
  case (Suc n)
  let ?a = gf_pow and ?c = "gen_coef n"
  have pows: "?a (Suc k) * ?a n = ?a (Suc n) * ?a k" for k by (simp add: gf_pow_add add.commute)
  have lhs: "(1 + ?a (Suc k)) * gen_coef (Suc n) (Suc k) = (?a k + ?a (Suc n) * ?a k) * ?c k"
  proof -
    have "(1 + ?a (Suc k)) * gen_coef (Suc n) (Suc k) =
        (1 + ?a (Suc k)) * ?c (Suc k) + (?a n + ?a (Suc k) * ?a n) * ?c k"
      by (simp add: distrib_left distrib_right mult.assoc)
    also have "\<dots> = ((?a k + ?a n) + (?a n + ?a (Suc k) * ?a n)) * ?c k"
      by (subst Suc.IH) (simp only: distrib_right)
    also have "(?a k + ?a n) + (?a n + ?a (Suc k) * ?a n) = ?a k + ?a (Suc n) * ?a k"
      by (simp only: add.assoc gf_cancel pows)
    finally show ?thesis .
  qed
  show ?case
  proof (cases k)
    case 0
    have "(?a 0 + ?a (Suc n)) * gen_coef (Suc n) 0 = (?a 0 + ?a (Suc n) * ?a 0) * ?c 0"
      by (simp add: gf_pow_add)
    then show ?thesis using lhs 0 by simp
  next
    case (Suc j)
    have r: "(?a (Suc j) + ?a (Suc n)) * (?a n * ?c j) = ?a (Suc n) * ((1 + ?a (Suc j)) * ?c (Suc j))"
    proof -
      have "(?a (Suc j) + ?a (Suc n)) * ?a n = ?a (Suc n) * (?a j + ?a n)"
        using pows[of j] by (simp add: distrib_left distrib_right gf_pow_add add.commute)
      then show ?thesis by (simp only: Suc.IH mult.assoc[symmetric])
    qed
    have "(?a k + ?a (Suc n)) * gen_coef (Suc n) k =
        (?a k + ?a (Suc n)) * ?c k + ?a (Suc n) * ((1 + ?a k) * ?c k)"
      using Suc r by (simp add: distrib_left)
    also have "\<dots> = ((?a k + ?a (Suc n)) + (?a (Suc n) + ?a (Suc n) * ?a k)) * ?c k"
      by (simp add: distrib_left distrib_right mult.assoc)
    also have "(?a k + ?a (Suc n)) + (?a (Suc n) + ?a (Suc n) * ?a k) = ?a k + ?a (Suc n) * ?a k"
      by (simp only: add.assoc gf_cancel)
    finally show ?thesis using lhs by simp
  qed
qed

lemma gen_coef_nonzero: "n < 255 \<Longrightarrow> k \<le> n \<Longrightarrow> gen_coef n k \<noteq> 0"
proof (induction k)
  case (Suc k)
  have "gf_pow k + gf_pow n \<noteq> 0"
  proof
    assume "gf_pow k + gf_pow n = 0"
    then have "gf_pow k = gf_pow n" by (metis add.right_neutral gf_cancel add.commute)
    then have "pw k = pw n" by (simp add: gf_pow_def)
    with pw_inj[of k n] Suc.prems show False by simp
  qed
  moreover have "gen_coef n k \<noteq> 0" using Suc by simp
  ultimately have "(1 + gf_pow (Suc k)) * gen_coef n (Suc k) \<noteq> 0" unfolding gen_coef_ratio by simp
  then show ?case by auto
qed simp

text \<open>Its values, hence its roots.\<close>

definition gen_value :: "nat \<Rightarrow> gf \<Rightarrow> gf" where
  "gen_value n x = (\<Sum>k\<le>n. gen_coef n k * x ^ (n - k))"

lemma gen_value_Suc: "gen_value (Suc n) x = (x + gf_pow n) * gen_value n x"
proof -
  have "gen_value (Suc n) x = (\<Sum>k\<le>Suc n. gen_coef n k * x ^ (Suc n - k)) +
      (\<Sum>k\<le>Suc n. (if k = 0 then 0 else gf_pow n * gen_coef n (k - 1)) * x ^ (Suc n - k))"
    by (simp add: gen_value_def distrib_right sum.distrib)
  also have "(\<Sum>k\<le>Suc n. gen_coef n k * x ^ (Suc n - k)) = x * gen_value n x"
    by (simp add: gen_value_def sum_distrib_left Suc_diff_le mult.left_commute)
  also have "(\<Sum>k\<le>Suc n. (if k = 0 then 0 else gf_pow n * gen_coef n (k - 1)) * x ^ (Suc n - k)) = gf_pow n * gen_value n x"
    by (subst sum.atMost_Suc_shift) (simp add: gen_value_def sum_distrib_left mult.assoc)
  finally show ?thesis by (simp add: distrib_right)
qed

lemma gen_value_root: "i < n \<Longrightarrow> gen_value n (gf_pow i) = 0"
  by (induction n) (auto simp: gen_value_Suc less_Suc_eq)

lemma ev_sum: "ev p x = (\<Sum>k<length p. gval (p ! k) * x ^ (length p - 1 - k))"
proof (induction p)
  case (Cons c p)
  have "(\<Sum>k<Suc (length p). gval ((c # p) ! k) * x ^ (length p - k)) =
      gval c * x ^ length p + (\<Sum>k<length p. gval (p ! k) * x ^ (length p - Suc k))"
    by (subst sum.lessThan_Suc_shift) simp
  with Cons show ?case by (simp add: ev_Cons)
qed simp

text \<open>One step of the code: multiplication by \<open>x + a\<close>.\<close>

definition coef_at :: "coef list \<Rightarrow> nat \<Rightarrow> gf" where
  "coef_at p i = (if i < length p then gval (p ! i) else 0)"

lemma mul_row_ok:
  "gval a \<noteq> 0 \<Longrightarrow> nonzero e \<Longrightarrow> k + length e \<le> length num \<Longrightarrow>
   \<exists>num'. mul_row a e k num = Inr num' \<and> length num' = length num \<and>
     (\<forall>i < length num. gval (num' ! i) =
        gval (num ! i) + (if k \<le> i \<and> i < k + length e then gval a * gval (e ! (i - k)) else 0))"
proof (induction e arbitrary: k num)
  case (Cons c cs)
  then have nz: "gval c \<noteq> 0" "nonzero cs" by (simp_all add: nonzero_def)
  obtain la where la: "glog a = Inr (Some la)" "gf_powi la = gval a" using glog_ok Cons.prems(1) by blast
  obtain lc where lc: "glog c = Inr (Some lc)" "gf_powi lc = gval c" using glog_ok nz(1) by blast
  let ?num = "num[k := cxor (num ! k) (gexp (jnum2 (+) (Some la) (Some lc)))]"
  from Cons.IH[OF Cons.prems(1) nz(2), of "Suc k" ?num] Cons.prems(3) obtain num' where
    num': "mul_row a cs (Suc k) ?num = Inr num'" "length num' = length num"
      "\<And>i. i < length num \<Longrightarrow> gval (num' ! i) =
        gval (?num ! i) + (if Suc k \<le> i \<and> i < Suc k + length cs then gval a * gval (cs ! (i - Suc k)) else 0)"
    by auto
  have "gval (num' ! i) = gval (num ! i) + (if k \<le> i \<and> i < k + length (c # cs) then gval a * gval ((c # cs) ! (i - k)) else 0)"
    if "i < length num" for i
  proof (cases "i = k")
    case True
    then show ?thesis using num'(3)[OF that] that by (simp add: gexp_scale gscale_def la lc)
  next
    case False
    then have "i - k = Suc (i - Suc k)" if "k \<le> i" using that by simp
    with False show ?thesis using num'(3)[OF that] by (cases "k \<le> i") auto
  qed
  then show ?case using num' la lc by auto
qed auto

lemma mul_rows_ok:
  assumes b: "gval b \<noteq> 0"
  shows "nonzero p \<Longrightarrow> k + length p < length num \<Longrightarrow>
   \<exists>num'. mul_rows p [Some 1, b] k num = Inr num' \<and> length num' = length num \<and>
     (\<forall>i < length num. gval (num' ! i) =
        gval (num ! i) + ((if k \<le> i then coef_at p (i - k) else 0) + (if k < i then gval b * coef_at p (i - k - 1) else 0)))"
proof (induction p arbitrary: k num)
  case Nil
  then show ?case by (simp add: coef_at_def)
next
  case (Cons a as)
  have one: "gval (Some 1) = 1" by (simp add: gval_def cval_def one_gf_def gf_pow_def pw_simps)
  from Cons.prems have nz: "gval a \<noteq> 0" "nonzero as" "nonzero [Some 1, b]" using b one by (simp_all add: nonzero_def)
  from mul_row_ok[OF nz(1,3), of k num] Cons.prems(2) obtain n1 where
    n1: "mul_row a [Some 1, b] k num = Inr n1" "length n1 = length num"
      "\<And>i. i < length num \<Longrightarrow> gval (n1 ! i) =
        gval (num ! i) + (if k \<le> i \<and> i < k + 2 then gval a * gval ([Some 1, b] ! (i - k)) else 0)" by auto
  from Cons.IH[OF nz(2), of "Suc k" n1] n1(2) Cons.prems(2) obtain n2 where
    n2: "mul_rows as [Some 1, b] (Suc k) n1 = Inr n2" "length n2 = length num"
      "\<And>i. i < length num \<Longrightarrow> gval (n2 ! i) =
        gval (n1 ! i) + ((if Suc k \<le> i then coef_at as (i - Suc k) else 0) + (if Suc k < i then gval b * coef_at as (i - Suc k - 1) else 0))"
    by auto
  have "gval (n2 ! i) = gval (num ! i) + ((if k \<le> i then coef_at (a # as) (i - k) else 0) + (if k < i then gval b * coef_at (a # as) (i - k - 1) else 0))"
    if i: "i < length num" for i
  proof -
    consider "i < k" | "i = k" | "i = Suc k" | j where "i = Suc (Suc (k + j))"
      by (metis add_Suc_right less_imp_Suc_add linorder_neqE_nat not_less_eq add.commute)
    then show ?thesis
      using n1(3)[OF i] n2(3)[OF i] one by cases (simp_all add: coef_at_def nth_Cons' mult.commute add.assoc add.commute)
  qed
  then show ?case using n1(1) n2 by auto
qed

lemma gval_pow_gexp: "gval (gexp (Some (int i))) = gf_pow i"
  by (simp add: gval_gexp gf_powi_nat)

lemma getErrorCorrectPolynomial_ok:
  "n < 255 \<Longrightarrow> \<exists>g. getErrorCorrectPolynomial n = Inr g \<and> length g = n + 1 \<and> (\<forall>k \<le> n. gval (g ! k) = gen_coef n k)"
proof (induction n)
  case 0
  show ?case by (simp add: qr_polynomial_def gval_def cval_def one_gf_def gf_pow_def pw_simps)
next
  case (Suc n)
  then obtain g where g: "getErrorCorrectPolynomial n = Inr g" "length g = n + 1" "\<And>k. k \<le> n \<Longrightarrow> gval (g ! k) = gen_coef n k" by auto
  let ?b = "gexp (Some (int n))" and ?num = "replicate (n + 2) (None :: coef)"
  have nz: "nonzero g"
    using g gen_coef_nonzero[of n] Suc.prems by (auto simp: nonzero_def list_all_length)
  have b: "gval ?b \<noteq> 0" by (simp only: gval_pow_gexp) (simp add: zero_gf_def)
  have e: "qr_polynomial [Some 1, ?b] 0 = [Some 1, ?b]" by (simp add: qr_polynomial_def)
  from mul_rows_ok[OF b nz, of 0 ?num] g(2) obtain num where
    num: "mul_rows g [Some 1, ?b] 0 ?num = Inr num" "length num = n + 2"
      "\<And>i. i < n + 2 \<Longrightarrow> gval (num ! i) = coef_at g i + (if 0 < i then gf_pow n * coef_at g (i - 1) else 0)"
    by (auto simp: gval_pow_gexp simp del: replicate_Suc)
  have vals: "gval (num ! i) = gen_coef (Suc n) i" if "i \<le> Suc n" for i
    using num(3)[of i] that g by (auto simp: coef_at_def)
  have "gval (num ! 0) \<noteq> 0" using vals[of 0] by simp
  then have "num ! 0 \<noteq> Some 0" by (auto simp: gval_zero)
  then have "qr_polynomial num 0 = num" using num(2) by (cases num) (simp_all add: qr_polynomial_def)
  moreover have "poly_multiply g [Some 1, ?b] = Inr (qr_polynomial num 0)"
    using num(1) g(2) by (simp add: poly_multiply_def del: replicate_Suc)
  ultimately show ?case using num vals g(1) by (simp only: getErrorCorrectPolynomial.simps e bindE_simps) simp
qed

end
