(* ===== verification/QrData.thy ===== *)
theory QrData
  imports QrField QueryString
begin

section \<open>QR code data: bit buffer, blocks and codewords (qrcode.js)\<close>

text \<open>
  The text of a code as bytes, the bit buffer, the table of Reed-Solomon blocks and the two
  functions that turn a text into the sequence of codewords drawn into the symbol.
\<close>

subsection \<open>Text\<close>

text \<open>The global function \<open>unescape\<close>; an escape that is malformed stays as it is.\<close>

definition hex2 :: "jchar \<Rightarrow> jchar \<Rightarrow> nat" where
  "hex2 a b = 16 * hex_val a + hex_val b"

fun js_unescape :: "jstr \<Rightarrow> jstr" where
  "js_unescape [] = []"
| "js_unescape (c # r) =
     (if c \<noteq> 0x25 then c # js_unescape r
      else case r of
        a # b # r' \<Rightarrow>
          if is_hex a \<and> is_hex b then of_nat (hex2 a b) # js_unescape r'
          else (case r' of
            d # e # f # r'' \<Rightarrow>
              if a = 0x75 \<and> is_hex b \<and> is_hex d \<and> is_hex e \<and> is_hex f
              then of_nat (256 * hex2 b d + hex2 e f) # js_unescape r''
              else c # js_unescape r
          | _ \<Rightarrow> c # js_unescape r)
      | _ \<Rightarrow> c # js_unescape r)"

text \<open>\<open>unescape(encodeURIComponent(data))\<close>, the form in which \<open>QR8bitByte\<close> counts and writes its text.\<close>

definition byte_string :: "jstr \<Rightarrow> qr_error + jstr" where
  "byte_string s = (case encodeURIComponent s of Inl _ \<Rightarrow> Inl MalformedText | Inr e \<Rightarrow> Inr (js_unescape e))"

subsection \<open>Bit buffer\<close>

record bit_buffer =
  bb_bytes :: "byte list"
  bb_length :: nat

definition empty_buffer :: bit_buffer where
  "empty_buffer = \<lparr>bb_bytes = [], bb_length = 0\<rparr>"

definition putBit :: "bool \<Rightarrow> bit_buffer \<Rightarrow> bit_buffer" where
  "putBit b s =
     (let i = bb_length s div 8;
          bytes = (if length (bb_bytes s) \<le> i then bb_bytes s @ [0] else bb_bytes s);
          bytes' = (if b then bytes[i := bytes ! i OR drop_bit (bb_length s mod 8) 0x80] else bytes)
      in \<lparr>bb_bytes = bytes', bb_length = bb_length s + 1\<rparr>)"

definition put :: "nat \<Rightarrow> nat \<Rightarrow> bit_buffer \<Rightarrow> bit_buffer" where
  "put num len s = fold (\<lambda>i. putBit (bit num (len - i - 1))) [0..<len] s"

definition getBit :: "bit_buffer \<Rightarrow> nat \<Rightarrow> bool" where
  "getBit s index = bit (bb_bytes s ! (index div 8)) (7 - index mod 8)"

text \<open>\<open>QR8bitByte.write\<close>\<close>

definition write_bytes :: "jstr \<Rightarrow> bit_buffer \<Rightarrow> bit_buffer" where
  "write_bytes bs s = fold (\<lambda>c. put (unat c) 8) bs s"

definition getLengthInBits :: "nat \<Rightarrow> nat" where
  "getLengthInBits type = (if 1 \<le> type \<and> type < 10 then 8 else if type < 27 then 16 else 16)"

text \<open>The loop over \<open>dataList\<close> that both \<open>make\<close> and \<open>createData\<close> run.\<close>

definition put_data :: "nat \<Rightarrow> jstr \<Rightarrow> bit_buffer \<Rightarrow> qr_error + bit_buffer" where
  "put_data type text s =
     bindE (byte_string text) (\<lambda>bs. Inr (write_bytes bs (put (length bs) (getLengthInBits type) (put 4 4 s))))"

fun put_list :: "nat \<Rightarrow> jstr list \<Rightarrow> bit_buffer \<Rightarrow> qr_error + bit_buffer" where
  "put_list type [] s = Inr s"
| "put_list type (t # ts) s = bindE (put_data type t s) (put_list type ts)"

subsection \<open>Blocks\<close>

record rs_block =
  totalCount :: nat
  dataCount :: nat

definition RS_BLOCK_TABLE :: "nat list list" where
  "RS_BLOCK_TABLE =
    [[1, 26, 19], [1, 26, 16], [1, 26, 13], [1, 26, 9],
     [1, 44, 34], [1, 44, 28], [1, 44, 22], [1, 44, 16],
     [1, 70, 55], [1, 70, 44], [2, 35, 17], [2, 35, 13],
     [1, 100, 80], [2, 50, 32], [2, 50, 24], [4, 25, 9],
     [1, 134, 108], [2, 67, 43], [2, 33, 15, 2, 34, 16], [2, 33, 11, 2, 34, 12],
     [2, 86, 68], [4, 43, 27], [4, 43, 19], [4, 43, 15],
     [2, 98, 78], [4, 49, 31], [2, 32, 14, 4, 33, 15], [4, 39, 13, 1, 40, 14],
     [2, 121, 97], [2, 60, 38, 2, 61, 39], [4, 40, 18, 2, 41, 19], [4, 40, 14, 2, 41, 15],
     [2, 146, 116], [3, 58, 36, 2, 59, 37], [4, 36, 16, 4, 37, 17], [4, 36, 12, 4, 37, 13],
     [2, 86, 68, 2, 87, 69], [4, 69, 43, 1, 70, 44], [6, 43, 19, 2, 44, 20], [6, 43, 15, 2, 44, 16]]"

text \<open>Levels have the numbers of the standard: L is 1, M is 0, Q is 3, H is 2.\<close>

definition getRsBlockTable :: "nat \<Rightarrow> nat \<Rightarrow> nat list option" where
  "getRsBlockTable type level =
     (let row = (\<lambda>k. let i = (type - 1) * 4 + k in if 0 < type \<and> i < length RS_BLOCK_TABLE then Some (RS_BLOCK_TABLE ! i) else None)
      in if level = 1 then row 0 else if level = 0 then row 1 else if level = 3 then row 2
         else if level = 2 then row 3 else None)"

fun expand_row :: "nat list \<Rightarrow> rs_block list" where
  "expand_row (c # t # d # r) = replicate c \<lparr>totalCount = t, dataCount = d\<rparr> @ expand_row r"
| "expand_row _ = []"

definition getRSBlocks :: "nat \<Rightarrow> nat \<Rightarrow> qr_error + rs_block list" where
  "getRSBlocks type level =
     (case getRsBlockTable type level of None \<Rightarrow> Inl (BadRsBlock type) | Some r \<Rightarrow> Inr (expand_row r))"

definition totalDataCount :: "rs_block list \<Rightarrow> nat" where
  "totalDataCount bs = sum_list (map dataCount bs)"

subsection \<open>Padding\<close>

function pad_byte :: "bit_buffer \<Rightarrow> bit_buffer" where
  "pad_byte s = (if bb_length s mod 8 \<noteq> 0 then pad_byte (putBit False s) else s)"
  by auto
termination
  by (relation "measure (\<lambda>s. (8 - bb_length s mod 8) mod 8)") (auto simp: putBit_def Let_def mod_Suc)

lemma put_length: "bb_length (put n l s) = bb_length s + l"
proof -
  have "bb_length (fold (\<lambda>i. putBit (f i)) ks s) = bb_length s + length ks" for f :: "nat \<Rightarrow> bool" and ks
    by (induction ks arbitrary: s) (simp_all add: putBit_def Let_def)
  then show ?thesis by (simp add: put_def)
qed

function pad_words :: "nat \<Rightarrow> bit_buffer \<Rightarrow> bit_buffer" where
  "pad_words cap s =
     (if bb_length s \<ge> cap * 8 then s
      else let s1 = put 0xec 8 s in
        if bb_length s1 \<ge> cap * 8 then s1 else pad_words cap (put 0x11 8 s1))"
  by auto
termination by (relation "measure (\<lambda>(cap, s). cap * 8 - bb_length s)") (auto simp: put_length)

declare pad_byte.simps [simp del] pad_words.simps [simp del]

definition pad_buffer :: "nat \<Rightarrow> bit_buffer \<Rightarrow> bit_buffer" where
  "pad_buffer cap s = pad_words cap (pad_byte (if bb_length s + 4 \<le> cap * 8 then put 0 4 s else s))"

subsection \<open>Codewords\<close>

text \<open>The data bytes of the block that starts at \<open>offset\<close>; \<open>0xff & undefined\<close> is zero.\<close>

definition block_data :: "bit_buffer \<Rightarrow> nat \<Rightarrow> rs_block \<Rightarrow> coef list" where
  "block_data s offset b =
     map (\<lambda>i. Some (if i + offset < length (bb_bytes s) then bb_bytes s ! (i + offset) else 0)) [0..<dataCount b]"

definition block_check :: "coef list \<Rightarrow> nat \<Rightarrow> qr_error + coef list" where
  "block_check dc ecCount =
     bindE (getErrorCorrectPolynomial ecCount) (\<lambda>rsPoly.
       let rawPoly = qr_polynomial dc (length rsPoly - 1) in
       bindE (poly_mod (length rawPoly + 1) rawPoly rsPoly) (\<lambda>modPoly.
         Inr (map (\<lambda>i. let modIndex = int i + int (length modPoly) - int (length rsPoly - 1)
                        in if modIndex \<ge> 0 then pget modPoly (nat modIndex) else Some 0)
               [0..<length rsPoly - 1])))"

fun make_blocks :: "bit_buffer \<Rightarrow> nat \<Rightarrow> rs_block list \<Rightarrow> qr_error + (coef list \<times> coef list) list" where
  "make_blocks s offset [] = Inr []"
| "make_blocks s offset (b # bs) =
     (let dc = block_data s offset b in
      bindE (block_check dc (totalCount b - dataCount b)) (\<lambda>ec.
        bindE (make_blocks s (offset + dataCount b) bs) (\<lambda>rest. Inr ((dc, ec) # rest))))"

definition interleave :: "'a list list \<Rightarrow> 'a list" where
  "interleave ds =
     concat (map (\<lambda>i. concat (map (\<lambda>d. if i < length d then [d ! i] else []) ds)) [0..<fold max (map length ds) 0])"

definition createBytes :: "bit_buffer \<Rightarrow> rs_block list \<Rightarrow> qr_error + coef list" where
  "createBytes s bs =
     bindE (make_blocks s 0 bs) (\<lambda>blocks.
       let out = interleave (map fst blocks) @ interleave (map snd blocks)
       in Inr (out @ replicate (sum_list (map totalCount bs) - length out) None))"

definition createData :: "nat \<Rightarrow> nat \<Rightarrow> jstr list \<Rightarrow> qr_error + coef list" where
  "createData type level texts =
     bindE (getRSBlocks type level) (\<lambda>bs.
     bindE (put_list type texts empty_buffer) (\<lambda>s.
       let cap = totalDataCount bs in
       if bb_length s > cap * 8 then Inl (CodeOverflow (bb_length s) (cap * 8))
       else createBytes (pad_buffer cap s) bs))"

subsection \<open>The buffer is its sequence of bits\<close>

definition bits :: "bit_buffer \<Rightarrow> bool list" where
  "bits s = map (getBit s) [0..<bb_length s]"

definition buffer_ok :: "bit_buffer \<Rightarrow> bool" where
  "buffer_ok s \<longleftrightarrow> length (bb_bytes s) = (bb_length s + 7) div 8 \<and>
     (\<forall>i. bb_length s \<le> i \<and> i < 8 * length (bb_bytes s) \<longrightarrow> \<not> getBit s i)"

lemma buffer_ok_empty [simp]: "buffer_ok empty_buffer" "bits empty_buffer = []" "bb_length empty_buffer = 0"
  by (simp_all add: buffer_ok_def empty_buffer_def bits_def)

lemma length_bits [simp]: "length (bits s) = bb_length s"
  by (simp add: bits_def)

lemma top_bit: "m < 8 \<Longrightarrow> j < 8 \<Longrightarrow> bit (drop_bit m (0x80 :: byte)) (7 - j) \<longleftrightarrow> j = m"
proof -
  have *: "bit (0x80 :: byte) n \<longleftrightarrow> n = 7" for n
    using bit_push_bit_iff[of 7 "1 :: byte" n] by (auto simp: bit_1_iff)
  assume "m < 8" "j < 8"
  then show ?thesis unfolding bit_drop_bit_eq comp_def * by arith
qed

lemma putBit_getBit:
  assumes ok: "buffer_ok s" and i: "i < 8 * length (bb_bytes (putBit b s))"
  shows "getBit (putBit b s) i \<longleftrightarrow> (if i = bb_length s then b else i < bb_length s \<and> getBit s i)"
proof -
  let ?k = "bb_length s div 8" and ?m = "bb_length s mod 8"
  let ?bytes = "if length (bb_bytes s) \<le> ?k then bb_bytes s @ [0] else bb_bytes s"
  have len: "length (bb_bytes s) = (bb_length s + 7) div 8" using ok by (simp add: buffer_ok_def)
  then have k: "?k < length ?bytes" by auto
  have i8: "i < 8 * length ?bytes" using i by (simp add: putBit_def Let_def split: if_splits)
  have old: "bit (?bytes ! (i div 8)) (7 - i mod 8) \<longleftrightarrow> i < bb_length s \<and> getBit s i"
  proof (cases "i < 8 * length (bb_bytes s)")
    case True
    then have "i div 8 < length (bb_bytes s)" by auto
    then have "bit (?bytes ! (i div 8)) (7 - i mod 8) \<longleftrightarrow> getBit s i" by (simp add: getBit_def nth_append)
    moreover have "getBit s i \<Longrightarrow> i < bb_length s" using ok True by (metis buffer_ok_def not_le)
    ultimately show ?thesis by blast
  next
    case False
    with i8 have "length (bb_bytes s) \<le> ?k" "i div 8 = length (bb_bytes s)" by (auto split: if_splits)
    with False show ?thesis using len by (auto simp: nth_append)
  qed
  have eq: "i = bb_length s \<longleftrightarrow> i div 8 = ?k \<and> i mod 8 = ?m" by (metis div_mult_mod_eq)
  have "getBit (putBit b s) i \<longleftrightarrow> bit (?bytes ! (i div 8)) (7 - i mod 8) \<or> b \<and> i = bb_length s"
  proof (cases "b \<and> i div 8 = ?k")
    case True
    then show ?thesis
      using k top_bit[of ?m "i mod 8"] by (simp add: getBit_def putBit_def Let_def bit_or_iff eq)
  next
    case False
    then show ?thesis by (auto simp: getBit_def putBit_def Let_def eq)
  qed
  with old show ?thesis by auto
qed

lemma putBit_ok:
  assumes ok: "buffer_ok s"
  shows "buffer_ok (putBit b s)" "bits (putBit b s) = bits s @ [b]" "bb_length (putBit b s) = Suc (bb_length s)"
proof -
  show len: "bb_length (putBit b s) = Suc (bb_length s)" by (simp add: putBit_def Let_def)
  have bytes: "length (bb_bytes (putBit b s)) = (bb_length s + 8) div 8"
    using ok by (auto simp: putBit_def Let_def buffer_ok_def)
  with putBit_getBit[OF ok] show "buffer_ok (putBit b s)" by (auto simp: buffer_ok_def len)
  have "getBit (putBit b s) i = (bits s @ [b]) ! i" if "i < Suc (bb_length s)" for i
  proof -
    have "i < 8 * length (bb_bytes (putBit b s))" using that bytes by presburger
    then show ?thesis using putBit_getBit[OF ok, of i b] that by (auto simp: nth_append bits_def less_Suc_eq)
  qed
  then have "bits (putBit b s) = map ((!) (bits s @ [b])) [0..<length (bits s @ [b])]"
    unfolding bits_def[of "putBit b s"] len by (intro map_cong) (auto simp: less_Suc_eq)
  then show "bits (putBit b s) = bits s @ [b]" by (simp only: map_nth)
qed

definition nat_bits :: "nat \<Rightarrow> nat \<Rightarrow> bool list" where
  "nat_bits l n = map (\<lambda>i. bit n (l - i - 1)) [0..<l]"

lemma put_ok:
  assumes "buffer_ok s"
  shows "buffer_ok (put n l s)" "bits (put n l s) = bits s @ nat_bits l n"
proof -
  have "buffer_ok (fold (\<lambda>i. putBit (f i)) ks s) \<and> bits (fold (\<lambda>i. putBit (f i)) ks s) = bits s @ map f ks"
    for f :: "nat \<Rightarrow> bool" and ks using assms by (induction ks arbitrary: s) (simp_all add: putBit_ok)
  then show "buffer_ok (put n l s)" "bits (put n l s) = bits s @ nat_bits l n" by (simp_all add: put_def nat_bits_def)
qed

lemma write_bytes_ok:
  "buffer_ok s \<Longrightarrow> buffer_ok (write_bytes bs s) \<and> bits (write_bytes bs s) = bits s @ concat (map (\<lambda>c. nat_bits 8 (unat c)) bs)"
  by (induction bs arbitrary: s) (simp_all add: write_bytes_def put_ok)

text \<open>Reading a number back from its bits.\<close>

definition bits_nat :: "bool list \<Rightarrow> nat" where
  "bits_nat bs = foldl (\<lambda>a b. 2 * a + of_bool b) 0 bs"

lemma bits_nat_bits: "n < 2 ^ l \<Longrightarrow> bits_nat (nat_bits l n) = n"
proof (induction l arbitrary: n)
  case (Suc l)
  have split: "nat_bits (Suc l) n = nat_bits l (n div 2) @ [odd n]"
  proof -
    have "map (\<lambda>i. bit n (Suc l - i - 1)) [0..<l] = map (\<lambda>i. bit (n div 2) (l - i - 1)) [0..<l]"
    proof (rule map_cong[OF refl])
      fix i assume "i \<in> set [0..<l]"
      then have "Suc l - i - 1 = Suc (l - i - 1)" by auto
      then show "bit n (Suc l - i - 1) = bit (n div 2) (l - i - 1)" by (simp only: bit_Suc)
    qed
    then show ?thesis by (simp add: nat_bits_def bit_0)
  qed
  have "n div 2 < 2 ^ l" using Suc.prems by auto
  with Suc.IH[of "n div 2"] show ?case by (simp add: split bits_nat_def)
qed (simp add: bits_nat_def nat_bits_def)

lemma length_nat_bits [simp]: "length (nat_bits l n) = l"
  by (simp add: nat_bits_def)

subsection \<open>What \<open>createData\<close> writes\<close>

definition message_bits :: "nat \<Rightarrow> jstr \<Rightarrow> bool list" where
  "message_bits type bs = nat_bits 4 4 @ nat_bits (getLengthInBits type) (length bs) @ concat (map (\<lambda>c. nat_bits 8 (unat c)) bs)"

lemma length_message_bits:
  "length (message_bits type bs) = 4 + getLengthInBits type + 8 * length bs"
  by (induction bs) (simp_all add: message_bits_def)

lemma put_data_ok:
  "buffer_ok s \<Longrightarrow> put_data type text s = Inr s' \<Longrightarrow>
   buffer_ok s' \<and> (\<exists>bs. byte_string text = Inr bs \<and> bits s' = bits s @ message_bits type bs)"
  by (auto simp: put_data_def bindE_eq_Inr message_bits_def put_ok write_bytes_ok)

lemma pad_byte_ok: "buffer_ok s \<Longrightarrow> buffer_ok (pad_byte s) \<and> (\<exists>z. bits (pad_byte s) = bits s @ z) \<and>
    bb_length (pad_byte s) = 8 * ((bb_length s + 7) div 8)"
proof (induction s rule: pad_byte.induct)
  case (1 s)
  show ?case
  proof (cases "bb_length s mod 8 = 0")
    case True
    then show ?thesis using 1 by (subst (1 2 3) pad_byte.simps) auto
  next
    case False
    then have step: "pad_byte s = pad_byte (putBit False s)" by (subst pad_byte.simps) simp
    have "8 * ((Suc (bb_length s) + 7) div 8) = 8 * ((bb_length s + 7) div 8)" using False by presburger
    with 1(1)[OF False putBit_ok(1)[OF 1(2)]] show ?thesis by (auto simp: step putBit_ok[OF 1(2)])
  qed
qed

lemma pad_words_ok:
  "buffer_ok s \<Longrightarrow> bb_length s mod 8 = 0 \<Longrightarrow> bb_length s \<le> cap * 8 \<Longrightarrow>
   buffer_ok (pad_words cap s) \<and> (\<exists>z. bits (pad_words cap s) = bits s @ z) \<and> bb_length (pad_words cap s) = cap * 8"
proof (induction cap s rule: pad_words.induct)
  case (1 cap s)
  show ?case
  proof (cases "cap * 8 \<le> bb_length s")
    case True
    then show ?thesis using 1(2-4) by (subst (1 2 3) pad_words.simps) auto
  next
    case False
    let ?s1 = "put 0xec 8 s" and ?s2 = "put 0x11 8 (put 0xec 8 s)"
    have l1: "bb_length ?s1 = bb_length s + 8" "bb_length ?s2 = bb_length s + 16" by (simp_all add: put_length)
    have ok1: "buffer_ok ?s1" "buffer_ok ?s2" using 1(2) by (simp_all add: put_ok)
    have room: "bb_length s + 8 \<le> cap * 8" using False 1(3) by presburger
    show ?thesis
    proof (cases "cap * 8 \<le> bb_length ?s1")
      case True
      then have "pad_words cap s = ?s1" using False by (subst pad_words.simps) (simp add: Let_def)
      then show ?thesis using True room l1 ok1 1(2) by (auto simp: put_ok)
    next
      case more: False
      then have step: "pad_words cap s = pad_words cap ?s2" using False by (subst pad_words.simps) (simp add: Let_def)
      have "bb_length ?s2 mod 8 = 0" "bb_length ?s2 \<le> cap * 8" using more l1 1(3) by presburger+
      from 1(1)[OF False refl more ok1(2) this] show ?thesis using 1(2) by (auto simp: step put_ok)
    qed
  qed
qed

lemma pad_buffer_ok:
  assumes "buffer_ok s" "bb_length s \<le> cap * 8"
  shows "buffer_ok (pad_buffer cap s) \<and> (\<exists>z. bits (pad_buffer cap s) = bits s @ z) \<and> bb_length (pad_buffer cap s) = cap * 8"
proof -
  let ?s1 = "if bb_length s + 4 \<le> cap * 8 then put 0 4 s else s"
  have 1: "buffer_ok ?s1" "\<exists>z. bits ?s1 = bits s @ z" "bb_length ?s1 \<le> cap * 8"
    using assms by (auto simp: put_ok put_length)
  have le: "8 * ((n + 7) div 8) \<le> cap * 8" if "n \<le> cap * 8" for n using that by presburger
  have 2: "bb_length (pad_byte ?s1) mod 8 = 0" "bb_length (pad_byte ?s1) \<le> cap * 8"
    using pad_byte_ok[OF 1(1)] le[OF 1(3)] by simp_all
  from pad_words_ok[OF conjunct1[OF pad_byte_ok[OF 1(1)]] 2] pad_byte_ok[OF 1(1)] 1(2)
  show ?thesis unfolding pad_buffer_def by (metis append.assoc)
qed

subsection \<open>Interleaving can be undone\<close>

definition cells :: "nat list \<Rightarrow> (nat \<times> nat) list list" where
  "cells ls = map (\<lambda>r. map (\<lambda>i. (r, i)) [0..<ls ! r]) [0..<length ls]"

definition deinterleave :: "nat list \<Rightarrow> 'a list \<Rightarrow> 'a list list" where
  "deinterleave ls cw =
     map (map (\<lambda>p. cw ! length (takeWhile (\<lambda>q. q \<noteq> p) (interleave (cells ls))))) (cells ls)"

lemma interleave_map:
  "interleave (map (map f) ds) = map f (interleave ds)"
proof -
  have "map length (map (map f) ds) = map length ds" by simp
  then show ?thesis by (simp add: interleave_def map_concat comp_def if_distrib[of "map f"] cong: if_cong)
qed

lemma cells_map: "ds = map (map (\<lambda>(r, i). ds ! r ! i)) (cells (map length ds))"
proof (rule nth_equalityI)
  fix r assume "r < length ds"
  then show "ds ! r = map (map (\<lambda>(r, i). ds ! r ! i)) (cells (map length ds)) ! r"
    by (simp add: cells_def map_nth comp_def)
qed (simp add: cells_def)

lemma fold_max: "x \<in> set xs \<Longrightarrow> x \<le> fold max xs (m :: nat)"
proof -
  have "m \<le> fold max xs m \<and> (\<forall>x \<in> set xs. x \<le> fold max xs m)" for m :: nat
    by (induction xs arbitrary: m) (auto intro: max.coboundedI1 max.coboundedI2 dest: max.boundedE)
  then show "x \<in> set xs \<Longrightarrow> ?thesis" by blast
qed

lemma set_interleave: "d \<in> set ds \<Longrightarrow> x \<in> set d \<Longrightarrow> x \<in> set (interleave ds)"
proof -
  assume d: "d \<in> set ds" "x \<in> set d"
  then obtain i where i: "i < length d" "x = d ! i" by (auto simp: in_set_conv_nth)
  with d have "i < fold max (map length ds) 0" using fold_max[of "length d" "map length ds" 0] by auto
  with d i show ?thesis by (fastforce simp: interleave_def)
qed

lemma nth_takeWhile_neq: "p \<in> set ps \<Longrightarrow> length (takeWhile (\<lambda>q. q \<noteq> p) ps) < length ps \<and> ps ! length (takeWhile (\<lambda>q. q \<noteq> p) ps) = p"
  by (induction ps) auto

lemma deinterleave_interleave:
  "deinterleave (map length ds) (interleave ds @ rest) = ds"
proof -
  let ?cs = "cells (map length ds)" and ?f = "\<lambda>(r, i). ds ! r ! i"
  have il: "interleave ds = map ?f (interleave ?cs)"
    by (subst (1) cells_map) (simp only: interleave_map)
  have "(interleave ds @ rest) ! length (takeWhile (\<lambda>q. q \<noteq> p) (interleave ?cs)) = ?f p" if "c \<in> set ?cs" "p \<in> set c" for c p
    using nth_takeWhile_neq[OF set_interleave[OF that]] by (simp add: il nth_append)
  then have "deinterleave (map length ds) (interleave ds @ rest) = map (map ?f) ?cs"
    by (simp add: deinterleave_def)
  then show ?thesis using cells_map[of ds] by simp
qed

end
