(* ===== verification/QrCodewords.thy ===== *)
theory QrCodewords
  imports QrData
begin

section \<open>The codewords of a QR code\<close>

text \<open>
  What \<open>createData\<close> promises: every block of the result is a Reed-Solomon codeword, and a scanner
  that undoes the interleaving and reads the mode, the length and the bytes finds the text.
\<close>

subsection \<open>Check bytes\<close>

lemma poly_mod_fuel:
  assumes "nonzero e" "e \<noteq> []"
  obtains r where "poly_mod (length (qr_polynomial dc k) + 1) (qr_polynomial dc k) e = Inr r" "length r < length e"
    "\<And>x. ev e x = 0 \<Longrightarrow> ev r x = ev dc x * x ^ k"
proof -
  have str: "stripped (qr_polynomial dc k)"
  proof (cases "dropWhile (\<lambda>c. c = Some 0) dc")
    case Nil
    then show ?thesis unfolding stripped_def qr_polynomial_def Nil by (cases k) simp_all
  next
    case (Cons a as)
    then show ?thesis using hd_dropWhile[of "\<lambda>c. c = Some 0" dc] by (simp add: stripped_def qr_polynomial_def)
  qed
  have "length (qr_polynomial dc k) + 1 < length (qr_polynomial dc k) + 1 + length e" using assms(2) by simp
  from poly_mod_total[OF assms str _ this] that show thesis by (auto simp: ev_polynomial)
qed

lemma block_check_ok:
  assumes n: "n < 255"
  shows "\<exists>ec. block_check dc n = Inr ec \<and> length ec = n \<and> (\<forall>i < n. ev (dc @ ec) (gf_pow i) = 0)"
proof -
  obtain g where g: "getErrorCorrectPolynomial n = Inr g" "length g = n + 1" "\<And>k. k \<le> n \<Longrightarrow> gval (g ! k) = gen_coef n k"
    using getErrorCorrectPolynomial_ok[OF n] by blast
  have nz: "nonzero g" using g gen_coef_nonzero[OF n] by (simp add: nonzero_def list_all_length)
  have "g \<noteq> []" using g(2) by auto
  from poly_mod_fuel[OF nz this, of dc n] obtain r where
    r: "poly_mod (length (qr_polynomial dc n) + 1) (qr_polynomial dc n) g = Inr r" "length r < length g"
      "\<And>x. ev g x = 0 \<Longrightarrow> ev r x = ev dc x * x ^ n" by blast
  let ?ec = "replicate (n - length r) (Some 0) @ r"
  have "map (\<lambda>i. let modIndex = int i + int (length r) - int n
                 in if modIndex \<ge> 0 then pget r (nat modIndex) else Some 0) [0..<n] = ?ec"
    (is "?m = _")
  proof (rule nth_equalityI)
    fix i assume "i < length ?m"
    then have i: "i < n" by simp
    have le: "length r \<le> n" using r(2) g(2) by simp
    show "?m ! i = ?ec ! i"
    proof (cases "n \<le> i + length r")
      case True
      then obtain j where j: "i = n - length r + j" using le by (metis le_add_diff_inverse le_diff_conv)
      with i le have "j < length r" "int i + int (length r) - int n = int j" by simp_all
      moreover have "?ec ! i = r ! j" using nth_append_length_plus[of "replicate (n - length r) (Some 0)" r j] j by simp
      ultimately show ?thesis using i by (simp add: pget_def Let_def)
    next
      case False
      then have "i < n - length r" by simp
      with False i show ?thesis by (simp add: nth_append Let_def)
    qed
  qed (use r(2) g(2) in simp)
  note m = this[unfolded Let_def]
  have lg: "length g - 1 = n" using g(2) by simp
  have bc: "block_check dc n = Inr ?ec"
    by (simp only: block_check_def g(1) bindE_simps lg r(1) m Let_def)
  have len: "length ?ec = n" using r(2) g(2) by simp
  have "ev (replicate k (Some 0) @ q) x = ev q x" for k q x
    by (induction k) (simp_all add: ev_Cons gval_zero)
  then have zec: "ev ?ec x = ev r x" for x .
  have roots: "ev g (gf_pow i) = 0" if "i < n" for i
  proof -
    have "ev g x = gen_value n x" for x
      using g(2,3) by (simp add: ev_sum gen_value_def lessThan_Suc_atMost)
    then show ?thesis using gen_value_root[OF that] by simp
  qed
  have "ev (dc @ ?ec) (gf_pow i) = 0" if "i < n" for i
    unfolding ev_append[of dc] len zec r(3)[OF roots[OF that]] by (rule gf_char2)
  with bc len show ?thesis by blast
qed

definition rs_codeword :: "nat \<Rightarrow> coef list \<Rightarrow> bool" where
  "rs_codeword n cw \<longleftrightarrow> (\<forall>i < n. ev cw (gf_pow i) = 0)"

lemma make_blocks_ok:
  "\<forall>b \<in> set bs. totalCount b < dataCount b + 255 \<Longrightarrow>
   \<exists>out. make_blocks s offset bs = Inr out \<and> map (\<lambda>p. length (fst p)) out = map dataCount bs \<and>
     map (\<lambda>p. length (snd p)) out = map (\<lambda>b. totalCount b - dataCount b) bs \<and>
     list_all (\<lambda>(dc, ec). rs_codeword (length ec) (dc @ ec)) out \<and>
     concat (map fst out) = map (\<lambda>i. Some (if i < length (bb_bytes s) then bb_bytes s ! i else 0)) [offset..<offset + totalDataCount bs]"
proof (induction bs arbitrary: offset)
  case Nil
  then show ?case by (simp add: totalDataCount_def)
next
  case (Cons b bs)
  let ?dc = "block_data s offset b"
  obtain ec where ec: "block_check ?dc (totalCount b - dataCount b) = Inr ec" "length ec = totalCount b - dataCount b"
      "\<And>i. i < totalCount b - dataCount b \<Longrightarrow> ev (?dc @ ec) (gf_pow i) = 0"
  proof -
    have "totalCount b - dataCount b < 255" using Cons.prems by auto
    then show ?thesis using block_check_ok[of "totalCount b - dataCount b" ?dc] that by blast
  qed
  from Cons.IH[of "offset + dataCount b"] Cons.prems obtain out where
    out: "make_blocks s (offset + dataCount b) bs = Inr out" "map (\<lambda>p. length (fst p)) out = map dataCount bs"
      "map (\<lambda>p. length (snd p)) out = map (\<lambda>b. totalCount b - dataCount b) bs"
      "list_all (\<lambda>(dc, ec). rs_codeword (length ec) (dc @ ec)) out"
      "concat (map fst out) = map (\<lambda>i. Some (if i < length (bb_bytes s) then bb_bytes s ! i else 0))
         [offset + dataCount b..<offset + dataCount b + totalDataCount bs]" by fastforce
  let ?v = "\<lambda>i. Some (if i < length (bb_bytes s) then bb_bytes s ! i else 0)"
  have dc: "?dc = map ?v [offset..<offset + dataCount b]"
    by (rule nth_equalityI) (simp_all add: block_data_def add.commute)
  have "[offset..<offset + totalDataCount (b # bs)] =
      [offset..<offset + dataCount b] @ [offset + dataCount b..<offset + dataCount b + totalDataCount bs]"
    using upt_add_eq_append[of offset "offset + dataCount b" "totalDataCount bs"] by (simp add: totalDataCount_def add.assoc)
  moreover have "make_blocks s offset (b # bs) = Inr ((?dc, ec) # out)" using ec(1) out(1) by (simp add: Let_def)
  moreover have "length ?dc = dataCount b" by (simp add: block_data_def)
  ultimately show ?case using ec(2,3) out dc by (simp add: rs_codeword_def)
qed

subsection \<open>The block table\<close>

definition block_row_ok :: "nat list \<Rightarrow> bool" where
  "block_row_ok r \<longleftrightarrow> list_all (\<lambda>b. 0 < dataCount b \<and> dataCount b < totalCount b \<and> totalCount b < dataCount b + 255) (expand_row r) \<and>
     totalDataCount (expand_row r) < 300"

lemma RS_rows_ok: "list_all block_row_ok RS_BLOCK_TABLE"
  by (simp add: RS_BLOCK_TABLE_def block_row_ok_def totalDataCount_def numeral_eq_Suc)

lemma RS_rows_small: "list_all (\<lambda>r. totalDataCount (expand_row r) < 256) (take 36 RS_BLOCK_TABLE)"
  by (simp add: RS_BLOCK_TABLE_def totalDataCount_def numeral_eq_Suc)

lemma getRSBlocks_cases:
  assumes "getRSBlocks type level = Inr bs"
  obtains r k where "r = RS_BLOCK_TABLE ! ((type - 1) * 4 + k)" "k < 4" "0 < type" "(type - 1) * 4 + k < length RS_BLOCK_TABLE" "bs = expand_row r"
  using assms that[OF refl, of 0] that[OF refl, of 1] that[OF refl, of 2] that[OF refl, of 3]
  by (auto simp: getRSBlocks_def getRsBlockTable_def Let_def split: if_splits)

lemma getRSBlocks_ok:
  assumes "getRSBlocks type level = Inr bs"
  shows "\<forall>b \<in> set bs. dataCount b < totalCount b \<and> totalCount b < dataCount b + 255"
    "totalDataCount bs < 2 ^ getLengthInBits type"
proof -
  obtain r k where r: "r = RS_BLOCK_TABLE ! ((type - 1) * 4 + k)" "k < 4" "0 < type"
      "(type - 1) * 4 + k < length RS_BLOCK_TABLE" "bs = expand_row r" using getRSBlocks_cases[OF assms] .
  then have "block_row_ok r" using RS_rows_ok by (simp add: list_all_length)
  then show "\<forall>b \<in> set bs. dataCount b < totalCount b \<and> totalCount b < dataCount b + 255" "totalDataCount bs < 2 ^ getLengthInBits type"
  proof (auto simp: block_row_ok_def list_all_iff r(5))
    assume small: "totalDataCount (expand_row r) < 300"
    show "totalDataCount (expand_row r) < 2 ^ getLengthInBits type"
    proof (cases "type < 10")
      case True
      then have i: "(type - 1) * 4 + k < 36" using r(2) by simp
      then have "(take 36 RS_BLOCK_TABLE) ! ((type - 1) * 4 + k) = r" using r(1) by simp
      with RS_rows_small i r(4) have "totalDataCount (expand_row r) < 256" by (auto simp: list_all_length)
      with True r(3) show ?thesis by (simp add: getLengthInBits_def)
    qed (use small in \<open>simp add: getLengthInBits_def\<close>)
  qed
qed

subsection \<open>Reading the codewords\<close>

text \<open>What a scanner does with error-free codewords: undo the interleaving, then read the bits.\<close>

definition data_of :: "rs_block list \<Rightarrow> 'a list \<Rightarrow> 'a list list" where
  "data_of bs cw = deinterleave (map dataCount bs) cw"

definition checks_of :: "rs_block list \<Rightarrow> 'a list \<Rightarrow> 'a list list" where
  "checks_of bs cw = deinterleave (map (\<lambda>b. totalCount b - dataCount b) bs) (drop (totalDataCount bs) cw)"

definition byte_bits :: "byte list \<Rightarrow> bool list" where
  "byte_bits ws = concat (map (\<lambda>b. nat_bits 8 (unat b)) ws)"

fun read_bytes :: "nat \<Rightarrow> bool list \<Rightarrow> nat list" where
  "read_bytes 0 s = []"
| "read_bytes (Suc n) s = bits_nat (take 8 s) # read_bytes n (drop 8 s)"

definition scan_text :: "nat \<Rightarrow> nat \<Rightarrow> coef list \<Rightarrow> nat list option" where
  "scan_text type level cw =
     (case getRSBlocks type level of
        Inl _ \<Rightarrow> None
      | Inr bs \<Rightarrow>
          let s = byte_bits (map cval (concat (data_of bs cw)));
              l = getLengthInBits type
          in if bits_nat (take 4 s) = 4 then Some (read_bytes (bits_nat (take l (drop 4 s))) (drop (4 + l) s)) else None)"

lemma buffer_byte_bits:
  assumes "buffer_ok s" "bb_length s = 8 * n"
  shows "byte_bits (bb_bytes s) = bits s"
proof -
  have len: "length (bb_bytes s) = n" using assms by (simp add: buffer_ok_def)
  have "byte_bits ws = map (\<lambda>i. bit (ws ! (i div 8)) (7 - i mod 8)) [0..<8 * length ws]" for ws :: "byte list"
  proof (induction ws rule: rev_induct)
    case (snoc w ws)
    let ?n = "length ws"
    have up: "[0..<8 * length (ws @ [w])] = [0..<8 * ?n] @ map (\<lambda>j. 8 * ?n + j) [0..<8]"
      using upt_add_eq_append[of 0 "8 * ?n" 8] map_add_upt[of "8 * ?n" 8] by (simp add: add.commute)
    have old: "map (\<lambda>i. bit ((ws @ [w]) ! (i div 8)) (7 - i mod 8)) [0..<8 * ?n] = byte_bits ws"
      unfolding snoc.IH by (rule map_cong[OF refl]) (auto simp: nth_append)
    have new: "map (\<lambda>j. bit ((ws @ [w]) ! ((8 * ?n + j) div 8)) (7 - (8 * ?n + j) mod 8)) [0..<8] = nat_bits 8 (unat w)"
      unfolding nat_bits_def
    proof (rule map_cong[OF refl])
      fix j :: nat assume "j \<in> set [0..<8]"
      then have j: "j < 8" by auto
      then have "8 - j - 1 = 7 - j" "(8 * ?n + j) div 8 = ?n" "(8 * ?n + j) mod 8 = j" by simp_all
      then show "bit ((ws @ [w]) ! ((8 * ?n + j) div 8)) (7 - (8 * ?n + j) mod 8) = bit (unat w) (8 - j - 1)"
        using j by (simp add: bit_unsigned_iff)
    qed
    show ?case unfolding up map_append old map_map comp_def new by (simp add: byte_bits_def)
  qed (simp add: byte_bits_def)
  from this[of "bb_bytes s"] show ?thesis by (simp add: bits_def getBit_def len assms(2))
qed

lemma read_bytes_bits:
  "\<forall>c \<in> set bs. unat c < 256 \<Longrightarrow>
   read_bytes (length bs) (concat (map (\<lambda>c :: jchar. nat_bits 8 (unat c)) bs) @ z) = map unat bs"
  by (induction bs) (simp_all add: bits_nat_bits)

lemma length_interleave: "length (interleave ds) = sum_list (map length ds)"
proof -
  have below: "sum_list (map (\<lambda>i. if i < k then 1 else 0) [0..<m]) = min k m" for k m :: nat
    by (induction m) (simp_all add: min_def)
  have "length (concat (map (\<lambda>i. concat (map (\<lambda>d. if i < length d then [d ! i] else []) es)) [0..<m])) = sum_list (map length es)"
    if "\<forall>d \<in> set es. length d \<le> m" for es :: "'a list list" and m
    using that
  proof (induction es)
    case (Cons d es)
    let ?c = "\<lambda>i. concat (map (\<lambda>d. if i < length d then [d ! i] else []) es)"
    have "length (concat (map (\<lambda>i. (if i < length d then [d ! i] else []) @ ?c i) [0..<m])) =
        sum_list (map (\<lambda>i. (if i < length d then 1 else 0) + length (?c i)) [0..<m])"
      by (simp add: length_concat comp_def if_distrib[of length] cong: if_cong)
    also have "\<dots> = min (length d) m + length (concat (map ?c [0..<m]))"
      by (simp add: sum_list_addf below length_concat comp_def)
    finally show ?case using Cons by simp
  qed (simp add: length_concat comp_def)
  then show ?thesis unfolding interleave_def using fold_max[of _ "map length ds" 0] by simp
qed

lemma deinterleave_concat:
  assumes "map length ds = ls" "map length es = ms" "sum_list ls = n"
  shows "deinterleave ls (interleave ds @ interleave es @ z) = ds"
    "deinterleave ms (drop n (interleave ds @ interleave es @ z)) = es"
proof -
  have "length (interleave ds) = sum_list (map length ds)" by (rule length_interleave)
  then show "deinterleave ls (interleave ds @ interleave es @ z) = ds"
    "deinterleave ms (drop n (interleave ds @ interleave es @ z)) = es"
    using deinterleave_interleave[of ds] deinterleave_interleave[of es] assms by auto
qed

lemma createBytes_ok:
  assumes bs: "getRSBlocks type level = Inr bs"
    and s: "buffer_ok s" "bb_length s = totalDataCount bs * 8"
    and cw: "createBytes s bs = Inr cw"
  shows "concat (data_of bs cw) = map Some (bb_bytes s)"
    "list_all2 (\<lambda>dc ec. rs_codeword (length ec) (dc @ ec)) (data_of bs cw) (checks_of bs cw)"
proof -
  have "\<forall>b \<in> set bs. totalCount b < dataCount b + 255" using getRSBlocks_ok(1)[OF bs] by blast
  from make_blocks_ok[OF this, of s 0] obtain out where
    out: "make_blocks s 0 bs = Inr out" "map (\<lambda>p. length (fst p)) out = map dataCount bs"
      "map (\<lambda>p. length (snd p)) out = map (\<lambda>b. totalCount b - dataCount b) bs"
      "list_all (\<lambda>(dc, ec). rs_codeword (length ec) (dc @ ec)) out"
      "concat (map fst out) = map (\<lambda>i. Some (if i < length (bb_bytes s) then bb_bytes s ! i else 0)) [0..<totalDataCount bs]"
    by auto
  obtain z where z: "cw = interleave (map fst out) @ interleave (map snd out) @ z"
    using cw out(1) by (auto simp: createBytes_def Let_def)
  have "map length (map fst out) = map dataCount bs" "map length (map snd out) = map (\<lambda>b. totalCount b - dataCount b) bs"
    using out(2,3) by (simp_all add: comp_def)
  from deinterleave_concat[OF this, of "totalDataCount bs" z]
  have d: "data_of bs cw = map fst out" and e: "checks_of bs cw = map snd out"
    by (simp_all add: data_of_def checks_of_def z totalDataCount_def)
  have len: "length (bb_bytes s) = totalDataCount bs" using s by (simp add: buffer_ok_def)
  have "map (\<lambda>i. Some (if i < length (bb_bytes s) then bb_bytes s ! i else 0)) [0..<totalDataCount bs] = map (Some \<circ> (!) (bb_bytes s)) [0..<length (bb_bytes s)]"
    unfolding len by (rule map_cong) simp_all
  also have "\<dots> = map Some (bb_bytes s)" by (simp only: map_map[symmetric] map_nth)
  finally show "concat (data_of bs cw) = map Some (bb_bytes s)" using out(5) d by simp
  show "list_all2 (\<lambda>dc ec. rs_codeword (length ec) (dc @ ec)) (data_of bs cw) (checks_of bs cw)"
    using out(4) by (simp add: d e list_all2_conv_all_nth list_all_length case_prod_beta)
qed

lemma createData_cases:
  assumes "createData type level texts = Inr cw"
  obtains bs s where "getRSBlocks type level = Inr bs" "put_list type texts empty_buffer = Inr s"
    "bb_length s \<le> totalDataCount bs * 8" "createBytes (pad_buffer (totalDataCount bs) s) bs = Inr cw"
  using assms by (auto simp: createData_def bindE_eq_Inr Let_def not_less split: if_splits)

lemma put_list_ok: "put_list type ts s = Inr s' \<Longrightarrow> buffer_ok s \<Longrightarrow> buffer_ok s'"
  by (induction ts arbitrary: s) (auto simp: bindE_eq_Inr dest: put_data_ok)

text \<open>The text of a code as bytes: what \<open>unescape\<close> makes of the percent-encoded text.\<close>

lemma hex_upper_unit: "d < 16 \<Longrightarrow> is_hex (hex_upper d) \<and> hex_val (hex_upper d) = d"
proof -
  have "list_all (\<lambda>d. is_hex (hex_upper d) \<and> hex_val (hex_upper d) = d) [0..<16]"
    by (simp add: upt_rec hex_upper_def is_hex_def is_digit_def hex_val_def)
  then show "d < 16 \<Longrightarrow> ?thesis" by (simp add: list_all_iff)
qed

lemma unescape_byte: "js_unescape (pct_byte b @ r) = ucast b # js_unescape r"
proof -
  have "16 * (unat b div 16) + unat b mod 16 = unat b" by simp
  then have "of_nat (hex2 (hex_upper (unat b div 16)) (hex_upper (unat b mod 16))) = (ucast b :: jchar)"
    using nibbles[of b] hex_upper_unit by (simp add: hex2_def del: of_nat_add of_nat_mult)
  then show ?thesis using nibbles[of b] hex_upper_unit by (simp add: pct_byte_def)
qed

lemma unescape_char: "js_unescape (uri_char c @ r) = map ucast (encode_char c) @ js_unescape r"
proof (cases "\<exists>u. c = [u] \<and> uri_unreserved u")
  case True
  then obtain u where u: "c = [u]" "uri_unreserved u" by auto
  then have a: "ascii u" "u \<noteq> 0x25" using uri_unreserved_ascii by auto
  have "ucast (ucast u :: 8 word) = u"
    using a(1) unat_byte[of "unat u"] unat_ucast_byte[of "ucast u"] by (simp add: ascii_def word_less_nat_alt word_unat_eq_iff)
  with u a show ?thesis by (simp add: uri_char_def encode_char_ascii)
next
  case False
  then have "uri_char c = concat (map pct_byte (encode_char c))" by (auto simp: uri_char_def split: list.splits)
  moreover have "js_unescape (concat (map pct_byte bs) @ r) = map ucast bs @ js_unescape r" for bs
    by (induction bs) (simp_all add: unescape_byte)
  ultimately show ?thesis by simp
qed

lemma byte_string_encode:
  "byte_string s = (if well_formed s then Inr (map ucast (text_encode s)) else Inl MalformedText)"
proof -
  have "js_unescape (concat (map uri_char cs)) = map ucast (concat (map encode_char cs))" for cs
    by (induction cs) (simp_all add: unescape_char)
  then show ?thesis by (simp add: byte_string_def encodeURIComponent_def uri_component_def text_encode_def)
qed

lemma scan_text_ok:
  assumes "createData type level [text] = Inr cw"
  shows "scan_text type level cw = Some (map unat (text_encode text))"
proof -
  from createData_cases[OF assms] obtain bs s where
    1: "getRSBlocks type level = Inr bs" "put_list type [text] empty_buffer = Inr s"
      "bb_length s \<le> totalDataCount bs * 8" "createBytes (pad_buffer (totalDataCount bs) s) bs = Inr cw" .
  let ?p = "pad_buffer (totalDataCount bs) s" and ?l = "getLengthInBits type"
  have wf: "well_formed text" using 1(2) by (auto simp: put_data_def byte_string_encode bindE_eq_Inr split: if_splits)
  let ?bs = "map ucast (text_encode text) :: jstr"
  have s: "buffer_ok s" "bits s = message_bits type ?bs"
    using put_data_ok[of empty_buffer type "text" s] 1(2) wf by (simp_all add: byte_string_encode bindE_eq_Inr)
  obtain z where p: "buffer_ok ?p" "bits ?p = message_bits type ?bs @ z" "bb_length ?p = totalDataCount bs * 8"
    using pad_buffer_ok[OF s(1) 1(3)] s(2) by auto
  have fits: "4 + ?l + 8 * length ?bs \<le> totalDataCount bs * 8"
    using 1(3) arg_cong[OF s(2), of length] by (simp add: length_message_bits)
  have "length ?bs < totalDataCount bs" using fits by (simp add: getLengthInBits_def split: if_splits)
  with getRSBlocks_ok(2)[OF 1(1)] have n: "length ?bs < 2 ^ ?l" by simp
  have "concat (data_of bs cw) = map Some (bb_bytes ?p)" by (rule createBytes_ok(1)[OF 1(1) p(1,3) 1(4)])
  then have "byte_bits (map cval (concat (data_of bs cw))) = byte_bits (bb_bytes ?p)"
    by (simp add: comp_def cval_def)
  also have "\<dots> = message_bits type ?bs @ z" using buffer_byte_bits[OF p(1)] p(2,3) by (simp add: mult.commute)
  finally have "byte_bits (map cval (concat (data_of bs cw))) = message_bits type ?bs @ z" .
  moreover have "read_bytes (length ?bs) (concat (map (\<lambda>c. nat_bits 8 (unat c)) ?bs) @ z) = map unat ?bs"
  proof (rule read_bytes_bits, rule ballI)
    fix c assume "c \<in> set ?bs"
    then show "unat c < 256" using unat_byte_less by (auto simp: unat_ucast_byte)
  qed
  moreover have "map unat ?bs = map unat (text_encode text)" by (simp add: unat_ucast_byte)
  ultimately show ?thesis
    using n 1(1) bits_nat_bits[of 4 4] bits_nat_bits[of "length ?bs" ?l] by (simp add: scan_text_def message_bits_def)
qed

subsection \<open>What holds of every sequence of codewords\<close>

text \<open>
  The codewords of a symbol carry its text: undoing the interleaving and reading mode, length
  and bytes gives the UTF-8 encoding of the text, for every version, level and text that the
  generator accepts.
\<close>
theorem qr_text_recovered:
  "case createData type level [t] of
     Inl _ \<Rightarrow> True
   | Inr cw \<Rightarrow> scan_text type level cw = Some (map unat (text_encode t))"
  using scan_text_ok by (auto split: sum.splits)

text \<open>
  C18: every block of the codewords, data and check bytes together, is a Reed-Solomon codeword: as
  a polynomial over the field of 256 elements it vanishes at the first powers of 2, one for each
  check byte, so a scanner's error correction applies.
\<close>
theorem qr_blocks_are_codewords:
  "case (createData type level texts, getRSBlocks type level) of
     (Inr cw, Inr bs) \<Rightarrow>
       list_all2 (\<lambda>dc ec. rs_codeword (length ec) (dc @ ec)) (data_of bs cw) (checks_of bs cw) \<and>
       map length (data_of bs cw) = map dataCount bs \<and>
       map length (checks_of bs cw) = map (\<lambda>b. totalCount b - dataCount b) bs
   | _ \<Rightarrow> True"
proof (cases "createData type level texts")
  case (Inr cw)
  from createData_cases[OF Inr] obtain bs s where
    1: "getRSBlocks type level = Inr bs" "put_list type texts empty_buffer = Inr s"
      "bb_length s \<le> totalDataCount bs * 8" "createBytes (pad_buffer (totalDataCount bs) s) bs = Inr cw" .
  have "buffer_ok s" using put_list_ok[OF 1(2)] by simp
  note p = pad_buffer_ok[OF this 1(3)]
  from createBytes_ok(2)[OF 1(1) _ _ 1(4)] p
  have "list_all2 (\<lambda>dc ec. rs_codeword (length ec) (dc @ ec)) (data_of bs cw) (checks_of bs cw)" by simp
  moreover have "map length (deinterleave ls xs) = ls" for ls and xs :: "coef list"
    by (rule nth_equalityI) (simp_all add: deinterleave_def cells_def)
  ultimately show ?thesis using Inr 1(1) by (simp add: data_of_def checks_of_def)
qed simp

end
