(* ===== verification/QrSymbol.thy ===== *)
theory QrSymbol
  imports QrCodewords
begin

section \<open>The QR symbol: matrix, function patterns and masks (qrcode.js)\<close>

text \<open>
  \<open>QRCodeModel\<close>: the matrix of modules, where \<open>None\<close> is \<open>null\<close>, the patterns every symbol has,
  the placement of the codewords, the choice of the mask and the choice of the version.
\<close>

type_synonym matrix = "int \<times> int \<Rightarrow> bool option"

lemma bindE_cong [fundef_cong]:
  "m = m' \<Longrightarrow> (\<And>x. m' = Inr x \<Longrightarrow> f x = g x) \<Longrightarrow> bindE m f = bindE m' g"
  by (cases m') simp_all

fun foldE :: "('a \<Rightarrow> 'b \<Rightarrow> 'e + 'b) \<Rightarrow> 'a list \<Rightarrow> 'b \<Rightarrow> 'e + 'b" where
  "foldE f [] s = Inr s"
| "foldE f (x # xs) s = bindE (f x s) (foldE f xs)"

subsection \<open>Version and format information\<close>

fun getBCHDigit :: "nat \<Rightarrow> nat" where
  "getBCHDigit d = (if d = 0 then 0 else Suc (getBCHDigit (d div 2)))"

declare getBCHDigit.simps [simp del]

definition G15 :: nat where
  "G15 = push_bit 10 1 OR push_bit 8 1 OR push_bit 5 1 OR push_bit 4 1 OR push_bit 2 1 OR push_bit 1 1 OR push_bit 0 1"

definition G18 :: nat where
  "G18 = push_bit 12 1 OR push_bit 11 1 OR push_bit 10 1 OR push_bit 9 1 OR push_bit 8 1 OR push_bit 5 1 OR push_bit 2 1 OR push_bit 0 1"

definition G15_MASK :: nat where
  "G15_MASK = push_bit 14 1 OR push_bit 12 1 OR push_bit 10 1 OR push_bit 4 1 OR push_bit 1 1"

lemma digit_bounds: "d < 2 ^ getBCHDigit d \<and> (d \<noteq> 0 \<longrightarrow> 2 ^ (getBCHDigit d - 1) \<le> d)"
proof (induction d rule: getBCHDigit.induct)
  case (1 d)
  show ?case
  proof (cases "d = 0")
    case False
    then have step: "getBCHDigit d = Suc (getBCHDigit (d div 2))" by (subst getBCHDigit.simps) simp
    from 1[OF False] have ih: "d div 2 < 2 ^ getBCHDigit (d div 2)"
      "d div 2 \<noteq> 0 \<longrightarrow> 2 ^ (getBCHDigit (d div 2) - 1) \<le> d div 2" by simp_all
    show ?thesis
    proof (cases "d div 2 = 0")
      case True
      then have "d = 1" using False by simp
      then show ?thesis by (simp add: getBCHDigit.simps)
    next
      case nz: False
      obtain k where k: "getBCHDigit (d div 2) = Suc k" using ih nz by (cases "getBCHDigit (d div 2)") auto
      with ih nz step show ?thesis by simp linarith
    qed
  qed (simp add: getBCHDigit.simps)
qed

lemma digit_xor:
  assumes "getBCHDigit a = Suc k" "getBCHDigit b = Suc k"
  shows "getBCHDigit (a XOR b) < Suc k"
proof -
  have bnd: "2 ^ k \<le> x \<and> x < 2 ^ Suc k" if "getBCHDigit x = Suc k" for x
    using digit_bounds[of x] that by (cases "x = 0") (auto simp: getBCHDigit.simps)
  have top: "bit x k \<and> (\<forall>n > k. \<not> bit x n)" if "getBCHDigit x = Suc k" for x
  proof -
    have "x div 2 ^ k = 1" using bnd[OF that] by (intro div_nat_eqI) simp_all
    moreover have "x div 2 ^ n = 0" if "n > k" for n
      using bnd[OF \<open>getBCHDigit x = Suc k\<close>] power_increasing[of "Suc k" n "2 :: nat"] that by simp
    ultimately show ?thesis by (simp add: bit_iff_odd)
  qed
  have "take_bit k (a XOR b) = a XOR b"
  proof (rule bit_eqI)
    fix n
    show "bit (take_bit k (a XOR b)) n \<longleftrightarrow> bit (a XOR b) n"
      using top[OF assms(1)] top[OF assms(2)] by (cases n k rule: linorder_cases) (auto simp: bit_take_bit_iff bit_xor_iff)
  qed
  then have "a XOR b < 2 ^ k" by (metis take_bit_nat_less_exp)
  show ?thesis
  proof (cases "a XOR b = 0")
    case False
    then have "2 ^ (getBCHDigit (a XOR b) - 1) < (2 :: nat) ^ k"
      using digit_bounds[of "a XOR b"] \<open>a XOR b < 2 ^ k\<close> by linarith
    then have "getBCHDigit (a XOR b) - 1 < k" by (rule power_less_imp_less_exp[rotated]) simp
    then show ?thesis by simp
  qed (simp add: getBCHDigit.simps)
qed

lemma digit_push: "d \<noteq> 0 \<Longrightarrow> getBCHDigit (push_bit k d) = getBCHDigit d + k"
proof (induction k)
  case (Suc k)
  have "push_bit (Suc k) d = 2 * push_bit k d" by (simp add: push_bit_eq_mult)
  moreover have "push_bit k d \<noteq> 0" using Suc.prems by simp
  ultimately show ?case using Suc by (subst getBCHDigit.simps) simp
qed simp

text \<open>The division loop; both generators are positive.\<close>

function bch_loop :: "nat \<Rightarrow> nat \<Rightarrow> nat" where
  "bch_loop g d =
     (if 0 < g \<and> int (getBCHDigit d) - int (getBCHDigit g) \<ge> 0
      then bch_loop g (d XOR push_bit (getBCHDigit d - getBCHDigit g) g) else d)"
  by auto
termination
proof (relation "measure (\<lambda>(g, d). getBCHDigit d)")
  fix g d assume "0 < g \<and> int (getBCHDigit d) - int (getBCHDigit g) \<ge> 0"
  then have g: "g \<noteq> 0" "getBCHDigit g \<le> getBCHDigit d" by auto
  then obtain k where "getBCHDigit d = Suc k" by (metis getBCHDigit.simps le_zero_eq nat.distinct(1) not0_implies_Suc)
  with g digit_xor[of d k "push_bit (getBCHDigit d - getBCHDigit g) g"]
  show "((g, d XOR push_bit (getBCHDigit d - getBCHDigit g) g), g, d) \<in> measure (\<lambda>(g, d). getBCHDigit d)"
    by (simp add: digit_push)
qed simp

declare bch_loop.simps [simp del]

definition getBCHTypeInfo :: "nat \<Rightarrow> nat" where
  "getBCHTypeInfo d = (push_bit 10 d OR bch_loop G15 (push_bit 10 d)) XOR G15_MASK"

definition getBCHTypeNumber :: "nat \<Rightarrow> nat" where
  "getBCHTypeNumber d = push_bit 12 d OR bch_loop G18 (push_bit 12 d)"

subsection \<open>Masks\<close>

definition mask_bit :: "nat \<Rightarrow> int \<Rightarrow> int \<Rightarrow> bool" where
  "mask_bit p i j =
     (if p = 0 then (i + j) mod 2 = 0
      else if p = 1 then i mod 2 = 0
      else if p = 2 then j mod 3 = 0
      else if p = 3 then (i + j) mod 3 = 0
      else if p = 4 then (i div 2 + j div 3) mod 2 = 0
      else if p = 5 then (i * j) mod 2 + (i * j) mod 3 = 0
      else if p = 6 then ((i * j) mod 2 + (i * j) mod 3) mod 2 = 0
      else ((i * j) mod 3 + (i + j) mod 2) mod 2 = 0)"

definition getMask :: "nat \<Rightarrow> int \<Rightarrow> int \<Rightarrow> qr_error + bool" where
  "getMask p i j = (if p \<le> 7 then Inr (mask_bit p i j) else Inl (BadMask p))"

subsection \<open>Function patterns\<close>

definition setupPositionProbePattern :: "int \<Rightarrow> int \<Rightarrow> int \<Rightarrow> matrix \<Rightarrow> matrix" where
  "setupPositionProbePattern n row col m =
     fold (\<lambda>r m. if row + r \<le> -1 \<or> n \<le> row + r then m
        else fold (\<lambda>c m. if col + c \<le> -1 \<or> n \<le> col + c then m
               else m((row + r, col + c) \<mapsto>
                   (0 \<le> r \<and> r \<le> 6 \<and> (c = 0 \<or> c = 6) \<or> 0 \<le> c \<and> c \<le> 6 \<and> (r = 0 \<or> r = 6) \<or>
                    2 \<le> r \<and> r \<le> 4 \<and> 2 \<le> c \<and> c \<le> 4)))
             [-1..7] m)
       [-1..7] m"

definition PATTERN_POSITION_TABLE :: "int list list" where
  "PATTERN_POSITION_TABLE =
    [[], [6, 18], [6, 22], [6, 26], [6, 30], [6, 34], [6, 22, 38], [6, 24, 42], [6, 26, 46], [6, 28, 50],
     [6, 30, 54], [6, 32, 58], [6, 34, 62], [6, 26, 46, 66], [6, 26, 48, 70], [6, 26, 50, 74], [6, 30, 54, 78],
     [6, 30, 56, 82], [6, 30, 58, 86], [6, 34, 62, 90], [6, 28, 50, 72, 94], [6, 26, 50, 74, 98], [6, 30, 54, 78, 102],
     [6, 28, 54, 80, 106], [6, 32, 58, 84, 110], [6, 30, 58, 86, 114], [6, 34, 62, 90, 118], [6, 26, 50, 74, 98, 122],
     [6, 30, 54, 78, 102, 126], [6, 26, 52, 78, 104, 130], [6, 30, 56, 82, 108, 134], [6, 34, 60, 86, 112, 138],
     [6, 30, 58, 86, 114, 142], [6, 34, 62, 90, 118, 146], [6, 30, 54, 78, 102, 126, 150], [6, 24, 50, 76, 102, 128, 154],
     [6, 28, 54, 80, 106, 132, 158], [6, 32, 58, 84, 110, 136, 162], [6, 26, 54, 82, 110, 138, 166], [6, 30, 58, 86, 114, 142, 170]]"

definition getPatternPosition :: "nat \<Rightarrow> int list" where
  "getPatternPosition type =
     (if 0 < type \<and> type - 1 < length PATTERN_POSITION_TABLE then PATTERN_POSITION_TABLE ! (type - 1) else [])"

definition setupPositionAdjustPattern :: "nat \<Rightarrow> matrix \<Rightarrow> matrix" where
  "setupPositionAdjustPattern type m =
     (let pos = getPatternPosition type in
      fold (\<lambda>row. fold (\<lambda>col m.
          if m (row, col) \<noteq> None then m
          else fold (\<lambda>r. fold (\<lambda>c m. m((row + r, col + c) \<mapsto> (\<bar>r\<bar> = 2 \<or> \<bar>c\<bar> = 2 \<or> r = 0 \<and> c = 0))) [-2..2]) [-2..2] m)
        pos) pos m)"

definition setupTimingPattern :: "int \<Rightarrow> matrix \<Rightarrow> matrix" where
  "setupTimingPattern n m =
     (let m1 = fold (\<lambda>r m. if m (r, 6) \<noteq> None then m else m((r, 6) \<mapsto> (r mod 2 = 0))) [8..n - 9] m
      in fold (\<lambda>c m. if m (6, c) \<noteq> None then m else m((6, c) \<mapsto> (c mod 2 = 0))) [8..n - 9] m1)"

definition setupTypeNumber :: "nat \<Rightarrow> int \<Rightarrow> bool \<Rightarrow> matrix \<Rightarrow> matrix" where
  "setupTypeNumber type n test m =
     (let info = getBCHTypeNumber type;
          m1 = fold (\<lambda>i m. m((int i div 3, int i mod 3 + n - 8 - 3) \<mapsto> (\<not> test \<and> bit info i))) [0..<18] m
      in fold (\<lambda>i m. m((int i mod 3 + n - 8 - 3, int i div 3) \<mapsto> (\<not> test \<and> bit info i))) [0..<18] m1)"

definition setupTypeInfo :: "nat \<Rightarrow> int \<Rightarrow> bool \<Rightarrow> nat \<Rightarrow> matrix \<Rightarrow> matrix" where
  "setupTypeInfo level n test pat m =
     (let info = getBCHTypeInfo (push_bit 3 level OR pat);
          m1 = fold (\<lambda>i m. m((if i < 6 then int i else if i < 8 then int i + 1 else n - 15 + int i, 8) \<mapsto> (\<not> test \<and> bit info i))) [0..<15] m;
          m2 = fold (\<lambda>i m. m((8, if i < 8 then n - int i - 1 else if i < 9 then 15 - int i - 1 + 1 else 15 - int i - 1) \<mapsto> (\<not> test \<and> bit info i))) [0..<15] m1
      in m2((n - 8, 8) \<mapsto> \<not> test))"

subsection \<open>Placing the codewords\<close>

type_synonym placing = "matrix \<times> nat \<times> nat"

text \<open>One module: the matrix, the bit index (7 to 0) and the byte index.\<close>

definition place :: "coef list \<Rightarrow> nat \<Rightarrow> int \<times> int \<Rightarrow> placing \<Rightarrow> qr_error + placing" where
  "place data p pos st =
     (case st of (m, bitIndex, byteIndex) \<Rightarrow>
        if m pos \<noteq> None then Inr st
        else bindE (getMask p (fst pos) (snd pos)) (\<lambda>mask.
          let dark = (if byteIndex < length data then bit (cval (data ! byteIndex)) bitIndex else False)
          in Inr (m(pos \<mapsto> (if mask then \<not> dark else dark)),
                  if bitIndex = 0 then 7 else bitIndex - 1, if bitIndex = 0 then byteIndex + 1 else byteIndex)))"

text \<open>
  The \<open>while (true)\<close> loop over one pair of columns; \<open>inc\<close> is -1 when \<open>up\<close>. It returns the row
  and the direction for the next pair.
\<close>

function scan_column :: "coef list \<Rightarrow> nat \<Rightarrow> int \<Rightarrow> bool \<Rightarrow> int \<Rightarrow> int \<Rightarrow> placing \<Rightarrow> qr_error + (placing \<times> int \<times> bool)" where
  "scan_column data p n up row col st =
     bindE (place data p (row, col) st) (\<lambda>st.
     bindE (place data p (row, col - 1) st) (\<lambda>st.
       let inc = (if up then -1 else 1); row' = row + inc
       in if row' < 0 \<or> n \<le> row' then Inr (st, row' - inc, \<not> up)
          else scan_column data p n up row' col st))"
  by auto
termination
  by (relation "measure (\<lambda>(d, p, n, up, row, col, st). nat (if up then row + 1 else n - row))") auto

function scan_columns :: "coef list \<Rightarrow> nat \<Rightarrow> int \<Rightarrow> bool \<Rightarrow> int \<Rightarrow> int \<Rightarrow> placing \<Rightarrow> qr_error + placing" where
  "scan_columns data p n up row col st =
     (if col > 0
      then let col' = (if col = 6 then col - 1 else col)
        in bindE (scan_column data p n up row col' st) (\<lambda>(st, row', up'). scan_columns data p n up' row' (col' - 2) st)
      else Inr st)"
  by auto
termination
  by (relation "measure (\<lambda>(d, p, n, up, row, col, st). nat col)") auto

declare scan_column.simps [simp del] scan_columns.simps [simp del]

definition mapData :: "coef list \<Rightarrow> nat \<Rightarrow> int \<Rightarrow> matrix \<Rightarrow> qr_error + matrix" where
  "mapData data p n m = bindE (scan_columns data p n True (n - 1) (n - 1) (m, 7, 0)) (\<lambda>(m, _, _). Inr m)"

subsection \<open>The model\<close>

record qr_model =
  typeNumber :: nat
  ecLevel :: nat
  dataList :: "jstr list"
  dataCache :: "coef list option"
  moduleCount :: int
  modules :: matrix

definition new_model :: "nat \<Rightarrow> nat \<Rightarrow> qr_model" where
  "new_model type level = \<lparr>typeNumber = type, ecLevel = level, dataList = [], dataCache = None, moduleCount = 0, modules = (\<lambda>_. None)\<rparr>"

definition addData :: "jstr \<Rightarrow> qr_model \<Rightarrow> qr_model" where
  "addData t q = q\<lparr>dataList := dataList q @ [t], dataCache := None\<rparr>"

definition isDark :: "qr_model \<Rightarrow> int \<Rightarrow> int \<Rightarrow> qr_error + bool option" where
  "isDark q row col =
     (if row < 0 \<or> moduleCount q \<le> row \<or> col < 0 \<or> moduleCount q \<le> col then Inl OutsideMatrix else Inr (modules q (row, col)))"

text \<open>Everything \<open>makeImpl\<close> draws before the codewords.\<close>

definition function_patterns :: "nat \<Rightarrow> nat \<Rightarrow> bool \<Rightarrow> nat \<Rightarrow> matrix" where
  "function_patterns type level test pat =
     (let n = int type * 4 + 17;
          m1 = setupPositionProbePattern n 0 (n - 7) (setupPositionProbePattern n (n - 7) 0 (setupPositionProbePattern n 0 0 (\<lambda>_. None)));
          m2 = setupTypeInfo level n test pat (setupTimingPattern n (setupPositionAdjustPattern type m1))
      in if type \<ge> 7 then setupTypeNumber type n test m2 else m2)"

definition makeImpl :: "bool \<Rightarrow> nat \<Rightarrow> qr_model \<Rightarrow> qr_error + qr_model" where
  "makeImpl test pat q =
     (let n = int (typeNumber q) * 4 + 17;
          m = function_patterns (typeNumber q) (ecLevel q) test pat;
          cache = (case dataCache q of None \<Rightarrow> createData (typeNumber q) (ecLevel q) (dataList q) | Some d \<Rightarrow> Inr d)
      in bindE cache (\<lambda>data. bindE (mapData data pat n m) (\<lambda>m'.
           Inr (q\<lparr>moduleCount := n, dataCache := Some data, modules := m'\<rparr>))))"



end
