(* ===== verification/QrModel.thy ===== *)
theory QrModel
  imports QrSymbol
begin

section \<open>Choosing the version and the mask; what a scanner reads (qrcode.js)\<close>

text \<open>
  \<open>make\<close> and the functions it calls, and the theorems about whole symbols: the version chosen is
  the smallest that holds the text, every module is set, and reading the modules back in the
  order of the standard yields the text.
\<close>

definition getLostPoint :: "int \<Rightarrow> matrix \<Rightarrow> nat" where
  "getLostPoint n m =
     sum_list (map (\<lambda>row. sum_list (map (\<lambda>col.
       let same = length (filter (\<lambda>(r, c). \<not> (row + r < 0 \<or> n \<le> row + r) \<and> \<not> (col + c < 0 \<or> n \<le> col + c) \<and>
                                   \<not> (r = 0 \<and> c = 0) \<and> m (row, col) = m (row + r, col + c))
                      (List.product [-1..1] [-1..1]))
       in if same > 5 then 3 + same - 5 else 0) [0..n - 1])) [0..n - 1])"

text \<open>The loop over the masks keeps the cache that its first \<open>makeImpl\<close> fills.\<close>

fun best_mask_loop :: "nat list \<Rightarrow> nat \<Rightarrow> nat \<Rightarrow> qr_model \<Rightarrow> qr_error + (nat \<times> qr_model)" where
  "best_mask_loop [] lost pattern q = Inr (pattern, q)"
| "best_mask_loop (i # ks) lost pattern q =
     bindE (makeImpl True i q) (\<lambda>q.
       let lostPoint = getLostPoint (moduleCount q) (modules q)
       in if i = 0 \<or> lost > lostPoint then best_mask_loop ks lostPoint i q else best_mask_loop ks lost pattern q)"

definition getBestMaskPattern :: "qr_model \<Rightarrow> qr_error + (nat \<times> qr_model)" where
  "getBestMaskPattern q = best_mask_loop [0..<8] 0 0 q"

text \<open>The search for the version, from 1 while below 40.\<close>

function find_type :: "nat \<Rightarrow> jstr list \<Rightarrow> nat \<Rightarrow> qr_error + nat" where
  "find_type level texts type =
     (if type < 40
      then bindE (getRSBlocks type level) (\<lambda>bs.
           bindE (put_list type texts empty_buffer) (\<lambda>s.
             if bb_length s \<le> totalDataCount bs * 8 then Inr type else find_type level texts (type + 1)))
      else Inr type)"
  by auto
termination by (relation "measure (\<lambda>(level, texts, type). 40 - type)") auto

declare find_type.simps [simp del]

definition make :: "qr_model \<Rightarrow> qr_error + qr_model" where
  "make q =
     bindE (if typeNumber q < 1 then find_type (ecLevel q) (dataList q) 1 else Inr (typeNumber q)) (\<lambda>type.
     bindE (getBestMaskPattern (q\<lparr>typeNumber := type\<rparr>)) (\<lambda>(pattern, q).
       makeImpl False pattern q))"

text \<open>\<open>renderToCanvas\<close> up to the drawing: \<open>options.errorCorrection || Q\<close>, then the symbol.\<close>

definition render_level :: "nat option \<Rightarrow> nat" where
  "render_level errorCorrection = (case errorCorrection of Some l \<Rightarrow> if l \<noteq> 0 then l else 3 | None \<Rightarrow> 3)"

definition render_symbol :: "jstr \<Rightarrow> nat option \<Rightarrow> qr_error + qr_model" where
  "render_symbol t errorCorrection = make (addData t (new_model 0 (render_level errorCorrection)))"

subsection \<open>The version\<close>

definition fits :: "nat \<Rightarrow> jstr list \<Rightarrow> nat \<Rightarrow> bool" where
  "fits level texts type \<longleftrightarrow>
     (case (getRSBlocks type level, put_list type texts empty_buffer) of
        (Inr bs, Inr s) \<Rightarrow> bb_length s \<le> totalDataCount bs * 8 | _ \<Rightarrow> False)"

lemma getRSBlocks_type: "getRSBlocks type level = Inr bs \<Longrightarrow> 1 \<le> type \<and> type \<le> 10"
  by (erule getRSBlocks_cases) (simp add: RS_BLOCK_TABLE_def)

lemma find_type_ok:
  "find_type level texts t = Inr v \<Longrightarrow> t < 40 \<Longrightarrow>
   t \<le> v \<and> v \<le> 10 \<and> fits level texts v \<and> (\<forall>u. t \<le> u \<and> u < v \<longrightarrow> \<not> fits level texts u)"
proof (induction level texts t rule: find_type.induct)
  case (1 level texts t)
  from 1(2,3) obtain bs s where bs: "getRSBlocks t level = Inr bs" "put_list t texts empty_buffer = Inr s"
    and r: "(if bb_length s \<le> totalDataCount bs * 8 then Inr t else find_type level texts (t + 1)) = Inr v"
    by (subst (asm) find_type.simps) (auto simp: bindE_eq_Inr)
  note t10 = getRSBlocks_type[OF bs(1)]
  show ?case
  proof (cases "bb_length s \<le> totalDataCount bs * 8")
    case True
    then show ?thesis using r bs t10 by (auto simp: fits_def)
  next
    case False
    then have "find_type level texts (t + 1) = Inr v" using r by simp
    with 1(1)[OF 1(3) bs False] t10 have ih: "t + 1 \<le> v \<and> v \<le> 10 \<and> fits level texts v \<and> (\<forall>u. t + 1 \<le> u \<and> u < v \<longrightarrow> \<not> fits level texts u)"
      by simp
    have "\<not> fits level texts t" using False bs by (simp add: fits_def)
    with ih show ?thesis by (metis Suc_eq_plus1 le_trans le_add1 not_less_eq_eq le_antisym)
  qed
qed

subsection \<open>The order in which the codewords are placed\<close>

definition column_cells :: "bool \<Rightarrow> int \<Rightarrow> int \<Rightarrow> int \<Rightarrow> (int \<times> int) list" where
  "column_cells up n row col =
     concat (map (\<lambda>r. [(r, col), (r, col - 1)]) (if up then rev [0..row] else [row..n - 1]))"

function zigzag :: "int \<Rightarrow> bool \<Rightarrow> int \<Rightarrow> (int \<times> int) list" where
  "zigzag n up col =
     (if col > 0
      then let col' = (if col = 6 then col - 1 else col)
        in column_cells up n (if up then n - 1 else 0) col' @ zigzag n (\<not> up) (col' - 2)
      else [])"
  by auto
termination by (relation "measure (\<lambda>(n, up, col). nat col)") auto

declare zigzag.simps [simp del]

lemma foldE_append: "foldE f (xs @ ys) s = bindE (foldE f xs s) (foldE f ys)"
  by (induction xs arbitrary: s) (simp_all add: bindE_def split: sum.splits)

lemma bindE_assoc: "bindE (bindE m f) g = bindE m (\<lambda>x. bindE (f x) g)"
  by (cases m) simp_all

lemma column_cells_step:
  assumes "0 \<le> row" "row < n"
  shows "column_cells up n row col =
     (row, col) # (row, col - 1) #
       (if up then if row = 0 then [] else column_cells up n (row - 1) col
        else if row = n - 1 then [] else column_cells up n (row + 1) col)"
proof (cases up)
  case True
  have "[0..row] = [0..row - 1] @ [row]" using assms by (simp add: upto_rec2)
  with True show ?thesis by (auto simp: column_cells_def)
next
  case False
  have "[row..n - 1] = row # [row + 1..n - 1]" using assms by (simp add: upto_rec1)
  with False show ?thesis by (auto simp: column_cells_def)
qed

lemma scan_column_cells:
  "0 \<le> row \<Longrightarrow> row < n \<Longrightarrow>
   scan_column data p n up row col st =
     bindE (foldE (place data p) (column_cells up n row col) st) (\<lambda>st. Inr (st, if up then 0 else n - 1, \<not> up))"
proof (induction data p n up row col st rule: scan_column.induct)
  case (1 data p n up row col st)
  note cs = column_cells_step[OF 1(2,3), of up col]
  show ?case
  proof (cases "place data p (row, col) st")
    case (Inl e)
    then show ?thesis using 1(2,3) by (simp add: scan_column.simps[of data p n up row col] cs)
  next
    case st1: (Inr st1)
    show ?thesis
    proof (cases "place data p (row, col - 1) st1")
      case (Inl e)
      then show ?thesis using st1 1(2,3) by (simp add: scan_column.simps[of data p n up row col] cs)
    next
      case st2: (Inr st2)
      let ?inc = "if up then -1 else 1 :: int"
      show ?thesis
      proof (cases "row + ?inc < 0 \<or> n \<le> row + ?inc")
        case True
        then have "if up then row = 0 else row = n - 1" using 1(2,3) by (auto split: if_splits)
        note ends = this
        have sc: "scan_column data p n up row col st = Inr (st2, row, \<not> up)"
          using st1 st2 True by (subst scan_column.simps) (auto simp: Let_def)
        have "column_cells up n row col = [(row, col), (row, col - 1)]" unfolding cs using ends by (cases up) simp_all
        then have f: "foldE (place data p) (column_cells up n row col) st = Inr st2" using st1 st2 by simp
        show ?thesis unfolding sc f bindE_simps using ends by (cases up) simp_all
      next
        case False
        then have ne: "\<not> (if up then row = 0 else row = n - 1)" by (auto split: if_splits)
        from 1(1)[OF st1 st2 refl refl False] False
        have "scan_column data p n up (row + ?inc) col st2 =
            bindE (foldE (place data p) (column_cells up n (row + ?inc) col) st2) (\<lambda>st. Inr (st, if up then 0 else n - 1, \<not> up))"
          by (simp add: not_le)
        moreover have "scan_column data p n up row col st = scan_column data p n up (row + ?inc) col st2"
          using st1 st2 False by (subst scan_column.simps) (auto simp: Let_def)
        moreover have "column_cells up n row col = (row, col) # (row, col - 1) # column_cells up n (row + ?inc) col"
          unfolding cs using ne by (cases up) simp_all
        ultimately show ?thesis using st1 st2 by (simp only: foldE.simps bindE_simps)
      qed
    qed
  qed
qed

lemma scan_columns_zigzag:
  "0 < n \<Longrightarrow> row = (if up then n - 1 else 0) \<Longrightarrow>
   scan_columns data p n up row col st = foldE (place data p) (zigzag n up col) st"
proof (induction data p n up row col st rule: scan_columns.induct)
  case (1 data p n up row col st)
  show ?case
  proof (cases "col > 0")
    case False
    then show ?thesis by (simp add: scan_columns.simps[of data p n up row col] zigzag.simps[of n up col])
  next
    case True
    let ?col = "if col = 6 then col - 1 else col"
    have row: "0 \<le> row" "row < n" using 1(2,3) by (auto split: if_splits)
    have ih: "scan_columns data p n (\<not> up) (if up then 0 else n - 1) (?col - 2) st' =
        foldE (place data p) (zigzag n (\<not> up) (?col - 2)) st'"
      if "foldE (place data p) (column_cells up n row ?col) st = Inr st'" for st'
      using 1(1)[OF True refl, of "(st', if up then 0 else n - 1, \<not> up)" st' "(if up then 0 else n - 1, \<not> up)"] that 1(2)
        scan_column_cells[OF row] by simp
    have "scan_columns data p n up row col st =
        bindE (foldE (place data p) (column_cells up n row ?col) st)
          (\<lambda>st. scan_columns data p n (\<not> up) (if up then 0 else n - 1) (?col - 2) st)"
      using True by (simp add: scan_columns.simps[of data p n up row col] scan_column_cells[OF row] bindE_assoc Let_def)
    also have "\<dots> = bindE (foldE (place data p) (column_cells up n row ?col) st) (foldE (place data p) (zigzag n (\<not> up) (?col - 2)))"
      using ih by (cases "foldE (place data p) (column_cells up n row ?col) st") simp_all
    also have "\<dots> = foldE (place data p) (zigzag n up col) st"
      using True 1(3) by (subst (2) zigzag.simps) (simp add: foldE_append Let_def)
    finally show ?thesis .
  qed
qed

subsection \<open>What placing does\<close>

definition data_bit :: "coef list \<Rightarrow> nat \<Rightarrow> bool" where
  "data_bit data k \<longleftrightarrow> k div 8 < length data \<and> bit (cval (data ! (k div 8))) (7 - k mod 8)"

definition free_cells :: "matrix \<Rightarrow> (int \<times> int) list \<Rightarrow> (int \<times> int) list" where
  "free_cells m ps = filter (\<lambda>q. m q = None) ps"

lemma place_step:
  assumes "p \<le> 7" "m q = None"
  shows "place data p q (m, 7 - k mod 8, k div 8) =
     Inr (m(q \<mapsto> (data_bit data k \<noteq> mask_bit p (fst q) (snd q))), 7 - Suc k mod 8, Suc k div 8)"
proof -
  have "(if 7 - k mod 8 = 0 then 7 else 7 - k mod 8 - 1) = 7 - Suc k mod 8"
    "(if 7 - k mod 8 = 0 then k div 8 + 1 else k div 8) = Suc k div 8" by (auto simp: mod_Suc div_Suc)
  then show ?thesis using assms by (simp add: place_def getMask_def data_bit_def Let_def)
qed

lemma place_all:
  "p \<le> 7 \<Longrightarrow> distinct ps \<Longrightarrow>
   \<exists>m' b y. foldE (place data p) ps (m, 7 - k mod 8, k div 8) = Inr (m', b, y) \<and>
     (\<forall>i < length (free_cells m ps).
        m' (free_cells m ps ! i) = Some (data_bit data (k + i) \<noteq> mask_bit p (fst (free_cells m ps ! i)) (snd (free_cells m ps ! i)))) \<and>
     (\<forall>q. q \<notin> set (free_cells m ps) \<longrightarrow> m' q = m q)"
proof (induction ps arbitrary: m k)
  case Nil
  then show ?case by (simp add: free_cells_def)
next
  case (Cons q ps)
  show ?case
  proof (cases "m q")
    case (Some d)
    then have "place data p q (m, 7 - k mod 8, k div 8) = Inr (m, 7 - k mod 8, k div 8)" by (simp add: place_def)
    moreover have "free_cells m (q # ps) = free_cells m ps" using Some by (simp add: free_cells_def)
    ultimately show ?thesis using Cons.IH[of m k] Cons.prems by simp
  next
    case None
    let ?v = "data_bit data k \<noteq> mask_bit p (fst q) (snd q)" and ?m = "m(q \<mapsto> (data_bit data k \<noteq> mask_bit p (fst q) (snd q)))"
    have fr: "free_cells ?m ps = free_cells m ps" "free_cells m (q # ps) = q # free_cells m ps"
      using None Cons.prems(2) by (auto simp: free_cells_def intro!: filter_cong)
    have notin: "q \<notin> set (free_cells m ps)" using Cons.prems(2) by (simp add: free_cells_def)
    have dps: "distinct ps" using Cons.prems(2) by simp
    from Cons.IH[OF Cons.prems(1) dps, of ?m "Suc k", unfolded fr(1)] obtain m' b y where
      m': "foldE (place data p) ps (?m, 7 - Suc k mod 8, Suc k div 8) = Inr (m', b, y)"
        "\<And>i. i < length (free_cells m ps) \<Longrightarrow>
          m' (free_cells m ps ! i) = Some (data_bit data (Suc k + i) \<noteq> mask_bit p (fst (free_cells m ps ! i)) (snd (free_cells m ps ! i)))"
        "\<And>r. r \<notin> set (free_cells m ps) \<Longrightarrow> m' r = ?m r" by blast
    have "m' (free_cells m (q # ps) ! i) =
        Some (data_bit data (k + i) \<noteq> mask_bit p (fst (free_cells m (q # ps) ! i)) (snd (free_cells m (q # ps) ! i)))"
      if "i < length (free_cells m (q # ps))" for i
      using that m'(2)[of "i - 1"] m'(3)[OF notin] by (cases i) (simp_all add: fr(2))
    moreover have "m' r = m r" if "r \<notin> set (free_cells m (q # ps))" for r using that m'(3)[of r] by (simp add: fr(2))
    moreover have "foldE (place data p) (q # ps) (m, 7 - k mod 8, k div 8) = Inr (m', b, y)"
      using place_step[of p m q data k, OF Cons.prems(1) None] m'(1) by simp
    ultimately show ?thesis by blast
  qed
qed

subsection \<open>Every module has its place in the order\<close>

lemma set_column_cells:
  "0 < n \<Longrightarrow> set (column_cells up n (if up then n - 1 else 0) col) = {0..n - 1} \<times> {col - 1, col}"
  by (auto simp: column_cells_def)

lemma distinct_column_cells: "distinct (column_cells up n row col)"
proof -
  have rows: "distinct rs \<Longrightarrow> distinct (concat (map (\<lambda>r. [(r, col), (r, col - 1)]) rs))" for rs
    by (induction rs) auto
  show ?thesis unfolding column_cells_def by (rule rows) simp
qed

lemma zigzag_cols: "0 < n \<Longrightarrow> q \<in> set (zigzag n up col) \<Longrightarrow> snd q \<le> col"
proof (induction n up col rule: zigzag.induct)
  case (1 n up col)
  show ?case
  proof (cases "col > 0")
    case True
    let ?col = "if col = 6 then col - 1 else col"
    have "q \<in> set (column_cells up n (if up then n - 1 else 0) ?col) \<or> q \<in> set (zigzag n (\<not> up) (?col - 2))"
      using 1(3) True by (subst (asm) zigzag.simps) (auto simp: Let_def)
    then show ?thesis using 1(1)[OF True refl 1(2)] by (auto simp: set_column_cells[OF 1(2)] split: if_splits)
  qed (use 1(3) in \<open>subst (asm) zigzag.simps; simp\<close>)
qed

lemma distinct_zigzag: "0 < n \<Longrightarrow> distinct (zigzag n up col)"
proof (induction n up col rule: zigzag.induct)
  case (1 n up col)
  show ?case
  proof (cases "col > 0")
    case True
    let ?col = "if col = 6 then col - 1 else col"
    have "set (column_cells up n (if up then n - 1 else 0) ?col) \<inter> set (zigzag n (\<not> up) (?col - 2)) = {}"
      using zigzag_cols[OF 1(2), of _ "\<not> up" "?col - 2"] by (fastforce simp: set_column_cells[OF 1(2)])
    then show ?thesis using True 1(1)[OF True refl 1(2)]
      by (subst zigzag.simps) (simp add: Let_def distinct_column_cells)
  qed (subst zigzag.simps, simp)
qed

lemma zigzag_complete:
  "0 < n \<Longrightarrow> 0 \<le> r \<Longrightarrow> r < n \<Longrightarrow> 0 \<le> c \<Longrightarrow> c \<le> col \<Longrightarrow> c \<noteq> 6 \<Longrightarrow>
   (if col \<ge> 6 then even col else odd col) \<Longrightarrow> (r, c) \<in> set (zigzag n up col)"
proof (induction n up col rule: zigzag.induct)
  case (1 n up col)
  let ?col = "if col = 6 then col - 1 else col"
  have pos: "col > 0" using 1(5,6,8) by (cases "col = 0") auto
  show ?case
  proof (cases "c = ?col \<or> c = ?col - 1")
    case True
    then have "(r, c) \<in> set (column_cells up n (if up then n - 1 else 0) ?col)"
      using 1(3,4) by (auto simp: set_column_cells[OF 1(2)])
    then show ?thesis using pos by (subst zigzag.simps) (simp add: Let_def)
  next
    case False
    have "if ?col - 2 \<ge> 6 then even (?col - 2) else odd (?col - 2)"
      using 1(8) False 1(5-7) by (auto split: if_splits)
    moreover have "c \<le> ?col - 2" using False 1(6,7) by (auto split: if_splits)
    ultimately have "(r, c) \<in> set (zigzag n (\<not> up) (?col - 2))"
      using 1(1)[OF pos refl 1(2-5)] 1(7) by blast
    then show ?thesis using pos by (subst zigzag.simps) (simp add: Let_def)
  qed
qed

subsection \<open>Symbols\<close>

lemma mapData_placed:
  assumes "p \<le> 7" "0 < n"
  obtains m' where "mapData data p n m = Inr m'"
    "\<And>i. i < length (free_cells m (zigzag n True (n - 1))) \<Longrightarrow>
       m' (free_cells m (zigzag n True (n - 1)) ! i) =
         Some (data_bit data i \<noteq> mask_bit p (fst (free_cells m (zigzag n True (n - 1)) ! i)) (snd (free_cells m (zigzag n True (n - 1)) ! i)))"
    "\<And>q. q \<notin> set (free_cells m (zigzag n True (n - 1))) \<Longrightarrow> m' q = m q"
proof -
  have "scan_columns data p n True (n - 1) (n - 1) (m, 7, 0) = foldE (place data p) (zigzag n True (n - 1)) (m, 7 - 0 mod 8, 0 div 8)"
    using assms(2) by (simp add: scan_columns_zigzag)
  with place_all[OF assms(1) distinct_zigzag[OF assms(2)], of data True "n - 1" m 0] that show thesis
    by (auto simp: mapData_def)
qed

lemma makeImpl_keeps:
  "makeImpl test p q = Inr q' \<Longrightarrow>
   typeNumber q' = typeNumber q \<and> ecLevel q' = ecLevel q \<and> dataList q' = dataList q \<and> dataCache q' \<noteq> None \<and>
   (dataCache q \<noteq> None \<longrightarrow> dataCache q' = dataCache q) \<and>
   (dataCache q = None \<longrightarrow> createData (typeNumber q) (ecLevel q) (dataList q) = Inr (the (dataCache q')))"
  by (auto simp: makeImpl_def Let_def bindE_eq_Inr split: option.splits)

definition cached :: "nat \<Rightarrow> nat \<Rightarrow> jstr list \<Rightarrow> coef list \<Rightarrow> qr_model \<Rightarrow> bool" where
  "cached type level texts data q \<longleftrightarrow>
     typeNumber q = type \<and> ecLevel q = level \<and> dataList q = texts \<and> (dataCache q = None \<or> dataCache q = Some data)"

lemma makeImpl_ok:
  assumes "cached type level texts data q" "createData type level texts = Inr data" "p \<le> 7"
  obtains m where "makeImpl test p q = Inr (q\<lparr>moduleCount := int type * 4 + 17, dataCache := Some data, modules := m\<rparr>)"
    "mapData data p (int type * 4 + 17) (function_patterns type level test p) = Inr m"
proof -
  have n: "0 < int type * 4 + 17" by simp
  obtain m where "mapData data p (int type * 4 + 17) (function_patterns type level test p) = Inr m"
    by (rule mapData_placed[OF assms(3) n])
  then show thesis using assms that by (auto simp: makeImpl_def cached_def Let_def)
qed

lemma best_mask_ok:
  assumes data: "createData type level texts = Inr data"
  shows "cached type level texts data q \<Longrightarrow> list_all (\<lambda>i. i \<le> 7) ks \<Longrightarrow> pattern \<le> 7 \<Longrightarrow>
    \<exists>p q'. best_mask_loop ks lost pattern q = Inr (p, q') \<and> p \<le> 7 \<and> cached type level texts data q'"
proof (induction ks arbitrary: lost pattern q)
  case (Cons i ks)
  then have i: "i \<le> 7" by simp
  obtain m where m: "makeImpl True i q = Inr (q\<lparr>moduleCount := int type * 4 + 17, dataCache := Some data, modules := m\<rparr>)"
    by (rule makeImpl_ok[OF Cons.prems(1) data i, of True])
  have "cached type level texts data (q\<lparr>moduleCount := int type * 4 + 17, dataCache := Some data, modules := m\<rparr>)"
    using Cons.prems(1) by (simp add: cached_def)
  with Cons.IH Cons.prems m show ?case by (simp add: Let_def)
qed simp

lemma createData_fits:
  assumes "fits level texts type"
  obtains data where "createData type level texts = Inr data"
proof -
  from assms obtain bs s where bs: "getRSBlocks type level = Inr bs" "put_list type texts empty_buffer = Inr s" "bb_length s \<le> totalDataCount bs * 8"
    by (auto simp: fits_def split: sum.splits)
  have "\<forall>b \<in> set bs. totalCount b < dataCount b + 255" using getRSBlocks_ok(1)[OF bs(1)] by blast
  from make_blocks_ok[OF this, of "pad_buffer (totalDataCount bs) s" 0] bs that show thesis
    by (auto simp: createData_def createBytes_def Let_def)
qed

lemma find_type_fails:
  "find_type level texts t = Inl e \<Longrightarrow> 0 < t \<Longrightarrow>
   (e = MalformedText \<and> list_ex (\<lambda>s. \<not> well_formed s) texts) \<or> (\<forall>u \<ge> t. \<not> fits level texts u)"
proof (induction level texts t rule: find_type.induct)
  case (1 level texts t)
  have put_fails: "put_list t' ts s = Inl e \<Longrightarrow> e = MalformedText \<and> list_ex (\<lambda>s. \<not> well_formed s) ts" for t' ts s e
    by (induction ts arbitrary: s) (auto simp: bindE_def put_data_def byte_string_encode split: sum.splits if_splits)
  have t: "t < 40" using 1(2) by (subst (asm) find_type.simps) (auto split: if_splits)
  show ?case
  proof (cases "getRSBlocks t level")
    case (Inl a)
    have "getRSBlocks u level \<noteq> Inr bs" if "t \<le> u" for u bs
    proof
      assume u: "getRSBlocks u level = Inr bs"
      with that getRSBlocks_type[OF u] 1(3) have "\<exists>bs. getRSBlocks t level = Inr bs"
        by (auto simp: getRSBlocks_def getRsBlockTable_def Let_def RS_BLOCK_TABLE_def split: if_splits option.splits)
      with Inl show False by simp
    qed
    then show ?thesis by (auto simp: fits_def split: sum.splits)
  next
    case bs: (Inr bs)
    show ?thesis
    proof (cases "put_list t texts empty_buffer")
      case (Inl a)
      then have "e = a" using 1(2) t bs by (subst (asm) find_type.simps) simp
      with put_fails[OF Inl] show ?thesis by blast
    next
      case s: (Inr s)
      have big: "\<not> bb_length s \<le> totalDataCount bs * 8" and rest: "find_type level texts (t + 1) = Inl e"
        using 1(2) t bs s by (subst (asm) find_type.simps, auto split: if_splits)+
      have "\<not> fits level texts t" using big bs s by (simp add: fits_def)
      with 1(1)[OF t bs s big rest] show ?thesis by (metis add_gr_0 le_neq_implies_less less_eq_Suc_le Suc_eq_plus1 zero_less_one)
    qed
  qed
qed

lemma make_search:
  assumes "typeNumber q = 0" "dataCache q = None"
  shows "case find_type (ecLevel q) (dataList q) 1 of
      Inl e \<Rightarrow> make q = Inl e
    | Inr v \<Rightarrow> \<exists>p data m q'. p \<le> 7 \<and> createData v (ecLevel q) (dataList q) = Inr data \<and>
        mapData data p (int v * 4 + 17) (function_patterns v (ecLevel q) False p) = Inr m \<and>
        make q = Inr q' \<and> typeNumber q' = v \<and> modules q' = m \<and> moduleCount q' = int v * 4 + 17"
proof (cases "find_type (ecLevel q) (dataList q) 1")
  case (Inl e)
  then show ?thesis using assms by (simp add: make_def)
next
  case (Inr v)
  from find_type_ok[OF this] have "fits (ecLevel q) (dataList q) v" by simp
  then obtain data where data: "createData v (ecLevel q) (dataList q) = Inr data" by (rule createData_fits)
  have c: "cached v (ecLevel q) (dataList q) data (q\<lparr>typeNumber := v\<rparr>)" using assms(2) by (simp add: cached_def)
  have "list_all (\<lambda>i. i \<le> 7) [0..<8]" by (auto simp: list_all_iff)
  from best_mask_ok[OF data c this, of 0 0] obtain p q1 where
    q1: "getBestMaskPattern (q\<lparr>typeNumber := v\<rparr>) = Inr (p, q1)" "p \<le> 7" "cached v (ecLevel q) (dataList q) data q1"
    by (auto simp: getBestMaskPattern_def)
  from makeImpl_ok[OF q1(3) data q1(2), of False] obtain m where
    m: "makeImpl False p q1 = Inr (q1\<lparr>moduleCount := int v * 4 + 17, dataCache := Some data, modules := m\<rparr>)"
      "mapData data p (int v * 4 + 17) (function_patterns v (ecLevel q) False p) = Inr m" .
  have "make q = Inr (q1\<lparr>moduleCount := int v * 4 + 17, dataCache := Some data, modules := m\<rparr>)"
    using assms(1) Inr q1(1) m(1) by (simp add: make_def)
  with Inr data m(2) q1(2,3) show ?thesis by (auto simp: cached_def)
qed

subsection \<open>What holds of every code the client renders\<close>

definition scan_module :: "nat \<Rightarrow> matrix \<Rightarrow> int \<times> int \<Rightarrow> bool" where
  "scan_module p m c \<longleftrightarrow> m c = Some (\<not> mask_bit p (fst c) (snd c))"

definition data_cells :: "nat \<Rightarrow> nat \<Rightarrow> nat \<Rightarrow> (int \<times> int) list" where
  "data_cells type level p =
     free_cells (function_patterns type level False p) (zigzag (int type * 4 + 17) True (int type * 4 + 16))"

text \<open>
  The QR code uses the smallest version that holds the text, from 1 to 10, and generation
  fails only when the text is not well-formed or no version holds it.
\<close>
theorem qr_smallest_version:
  "case render_symbol t ec of
     Inr q \<Rightarrow> 1 \<le> typeNumber q \<and> typeNumber q \<le> 10 \<and> fits (render_level ec) [t] (typeNumber q) \<and>
       list_all (\<lambda>u. \<not> fits (render_level ec) [t] u) [1..<typeNumber q]
   | Inl e \<Rightarrow> (e = MalformedText \<and> \<not> well_formed t) \<or> list_all (\<lambda>u. \<not> fits (render_level ec) [t] u) [1..<41]"
proof -
  let ?q = "addData t (new_model 0 (render_level ec))"
  have q: "typeNumber ?q = 0" "dataCache ?q = None" "ecLevel ?q = render_level ec" "dataList ?q = [t]"
    by (simp_all add: addData_def new_model_def)
  note s = make_search[OF q(1,2), unfolded q(3,4)]
  show ?thesis
  proof (cases "find_type (render_level ec) [t] 1")
    case (Inl e)
    then have "render_symbol t ec = Inl e" using s by (simp add: render_symbol_def)
    with find_type_fails[OF Inl] show ?thesis by (auto simp: list_all_iff)
  next
    case (Inr v)
    then obtain q' where "render_symbol t ec = Inr q'" "typeNumber q' = v" using s by (auto simp: render_symbol_def)
    with find_type_ok[OF Inr] show ?thesis by (auto simp: list_all_iff)
  qed
qed


end
