(* ===== verification/PacketWorker.thy ===== *)
theory PacketWorker
  imports Numbers
begin

section \<open>The packet worker (workers/packet_worker.js)\<close>

text \<open>
  The worker that filters packets and computes their statistics, from the message it receives
  to the message it posts. Inputs are arbitrary values: calling a string method on another
  type is a \<open>TypeError\<close>, which the handler turns into a failure message.
\<close>

definition lower_trim :: "jsval \<Rightarrow> jstr js_result" where
  "lower_trim v = bindE (as_string (js_or v (Str []))) (\<lambda>s. Inr (trim (toLowerCase s)))"

definition upper_trim :: "jsval \<Rightarrow> jstr js_result" where
  "upper_trim v = bindE (as_string (js_or v (Str []))) (\<lambda>s. Inr (trim (toUpperCase s)))"

definition pkt_field :: "jsval \<Rightarrow> string \<Rightarrow> jsval" where
  "pkt_field pkt k = js_or (getp pkt (js k)) (Str [])"

definition search_target :: "jsval \<Rightarrow> jstr" where
  "search_target pkt =
     toLowerCase (join [0x20] (map (\<lambda>k. to_string (pkt_field pkt k))
       [''sender'', ''sender_name'', ''target'', ''text'', ''packet_type'']))"

definition packet_matches :: "jstr \<Rightarrow> jstr \<Rightarrow> jstr \<Rightarrow> jsval \<Rightarrow> bool js_result" where
  "packet_matches dirFilter typeFilter searchQuery pkt =
     (if \<not> is_object pkt then Inr False
      else
        bindE (if dirFilter = [] then Inr True
               else bindE (as_string (pkt_field pkt ''direction'')) (\<lambda>d. Inr (toLowerCase d = dirFilter))) (\<lambda>dirOk.
        if \<not> dirOk then Inr False
        else bindE (if typeFilter = [] then Inr True
               else bindE (as_string (pkt_field pkt ''packet_type'')) (\<lambda>t. Inr (str_includes (toUpperCase t) typeFilter))) (\<lambda>typeOk.
        if \<not> typeOk then Inr False
        else Inr (searchQuery = [] \<or> str_includes (search_target pkt) searchQuery))))"

definition filterPackets :: "jsval \<Rightarrow> jsval \<Rightarrow> jsval list js_result" where
  "filterPackets packets filters =
     bindE (lower_trim (getp filters (js ''dirFilter''))) (\<lambda>dirFilter.
     bindE (upper_trim (getp filters (js ''typeFilter''))) (\<lambda>typeFilter.
     bindE (lower_trim (getp filters (js ''searchQuery''))) (\<lambda>searchQuery.
       case packets of
         Arr ps \<Rightarrow> filterE (packet_matches dirFilter typeFilter searchQuery) ps
       | _ \<Rightarrow> Inl TypeError)))"

subsection \<open>Statistics\<close>

record packet_stats =
  rxCount :: nat
  txCount :: nat
  totalBytes :: jnum
  sumSnr :: jnum
  countSnr :: nat
  sumRssi :: jnum
  countRssi :: nat
  byType :: "(jstr \<times> nat) list"

definition zero_stats :: packet_stats where
  "zero_stats = \<lparr>rxCount = 0, txCount = 0, totalBytes = Fin 0, sumSnr = Fin 0, countSnr = 0,
     sumRssi = Fin 0, countRssi = 0, byType = []\<rparr>"

fun bump :: "jstr \<Rightarrow> (jstr \<times> nat) list \<Rightarrow> (jstr \<times> nat) list" where
  "bump k [] = [(k, 1)]"
| "bump k ((k', n) # ts) = (if k = k' then (k, n + 1) # ts else (k', n) # bump k ts)"

definition add_num :: "jsval \<Rightarrow> jnum \<times> nat \<Rightarrow> jnum \<times> nat" where
  "add_num v sc =
     (case v of Num n \<Rightarrow> if n = NaN then sc else (jadd (fst sc) n, snd sc + 1) | _ \<Rightarrow> sc)"

definition count_packet :: "jstr \<Rightarrow> jstr \<Rightarrow> jsval \<Rightarrow> packet_stats \<Rightarrow> packet_stats" where
  "count_packet dir type pkt st =
     (let snr = add_num (getp pkt (js ''snr'')) (sumSnr st, countSnr st);
          rssi = add_num (getp pkt (js ''rssi'')) (sumRssi st, countRssi st)
      in st\<lparr>
           rxCount := (if dir = js ''rx'' then rxCount st + 1 else rxCount st),
           txCount := (if dir \<noteq> js ''rx'' \<and> dir = js ''tx'' then txCount st + 1 else txCount st),
           totalBytes := (case getp pkt (js ''size_bytes'') of Num n \<Rightarrow> jadd (totalBytes st) n | _ \<Rightarrow> totalBytes st),
           sumSnr := fst snr, countSnr := snd snr,
           sumRssi := fst rssi, countRssi := snd rssi,
           byType := bump type (byType st)\<rparr>)"

definition stats_step :: "jsval \<Rightarrow> packet_stats \<Rightarrow> packet_stats js_result" where
  "stats_step pkt st =
     (if \<not> truthy pkt then Inr st
      else
        bindE (as_string (pkt_field pkt ''direction'')) (\<lambda>d.
        bindE (as_string (js_or (getp pkt (js ''packet_type'')) (Str (js ''UNKNOWN'')))) (\<lambda>t.
          Inr (count_packet (toLowerCase d) (toUpperCase t) pkt st))))"

fun stats_loop :: "jsval list \<Rightarrow> packet_stats \<Rightarrow> packet_stats js_result" where
  "stats_loop [] st = Inr st"
| "stats_loop (pkt # ps) st = bindE (stats_step pkt st) (stats_loop ps)"

text \<open>\<open>+(sum / count).toFixed(d)\<close>\<close>

definition fixed_avg :: "nat \<Rightarrow> jnum \<Rightarrow> nat \<Rightarrow> jsval" where
  "fixed_avg d s n =
     (if n = 0 then Null
      else case s of
        Fin q \<Rightarrow> Num (str_to_num (to_fixed d (q / of_nat n)))
      | _ \<Rightarrow> Num s)"

text \<open>The elements and the \<open>length\<close> that a value is walked by.\<close>

definition indexed :: "jsval \<Rightarrow> jsval list \<times> jsval" where
  "indexed v =
     (case v of
        Arr xs \<Rightarrow> (xs, Num (Fin (of_nat (length xs))))
      | Str s \<Rightarrow> (map (\<lambda>c. Str [c]) s, Num (Fin (of_nat (length s))))
      | _ \<Rightarrow> (let l = getp v (js ''length'')
              in (case to_number l of
                    Fin q \<Rightarrow> map (\<lambda>i. getp v (nat_str i)) [0..<nat \<lceil>q\<rceil>]
                  | _ \<Rightarrow> [], l)))"

definition computePacketStats :: "jsval \<Rightarrow> jsval js_result" where
  "computePacketStats packets =
     (let (ps, len) = indexed packets
      in bindE (stats_loop ps zero_stats) (\<lambda>st. Inr (Obj
          [(js ''totalPackets'', len),
           (js ''rxCount'', Num (Fin (of_nat (rxCount st)))),
           (js ''txCount'', Num (Fin (of_nat (txCount st)))),
           (js ''totalBytes'', Num (totalBytes st)),
           (js ''avgSnr'', fixed_avg 2 (sumSnr st) (countSnr st)),
           (js ''avgRssi'', fixed_avg 1 (sumRssi st) (countRssi st)),
           (js ''byType'', Obj (map (\<lambda>(k, n). (k, Num (Fin (of_nat n)))) (byType st)))])))"

subsection \<open>The message handler\<close>

record worker_reply =
  reply_id :: jsval
  reply_action :: jsval
  reply_result :: "jsval js_result"

definition worker_onmessage :: "jsval \<Rightarrow> worker_reply option" where
  "worker_onmessage msg =
     (if \<not> is_object msg then None
      else
        let action = getp msg (js ''action''); payload = js_or (getp msg (js ''payload'')) (Obj []);
            packets = js_or (getp payload (js ''packets'')) (Arr []);
            res =
              (if action = Str (js ''filter'')
               then bindE (filterPackets packets (js_or (getp payload (js ''filters'')) (Obj []))) (\<lambda>ps. Inr (Arr ps))
               else if action = Str (js ''stats'') then computePacketStats packets
               else if action = Str (js ''ping'') then Inr (Str (js ''pong''))
               else Inl (ErrorMsg (js ''Acci'' @ [0xF3] @ js ''n desconocida: '' @ to_string action)))
        in Some \<lparr>reply_id = getp msg (js ''id''), reply_action = action, reply_result = res\<rparr>)"

subsection \<open>Lemmas\<close>

lemma sum_bump: "sum_list (map snd (bump k ts)) = sum_list (map snd ts) + 1"
  by (induction ts) auto

lemma keys_bump: "fst ` set (bump k ts) = insert k (fst ` set ts)"
  by (induction k ts rule: bump.induct) (auto simp: insert_commute)

lemma distinct_bump: "distinct (map fst ts) \<Longrightarrow> distinct (map fst (bump k ts))"
proof (induction ts)
  case (Cons x ts)
  then show ?case using keys_bump[of k ts] by (cases x) auto
qed simp

text \<open>What the loop keeps: every counted packet has one type, and at most one direction.\<close>

definition stats_ok :: "nat \<Rightarrow> packet_stats \<Rightarrow> bool" where
  "stats_ok n st \<longleftrightarrow>
     sum_list (map snd (byType st)) = n \<and> distinct (map fst (byType st)) \<and>
     rxCount st + txCount st \<le> n \<and> countSnr st \<le> n \<and> countRssi st \<le> n"

lemma add_num_count: "snd (add_num v (s, n)) \<le> n + 1"
  by (auto simp: add_num_def split: jsval.splits)

lemma count_packet_ok: "stats_ok n st \<Longrightarrow> stats_ok (n + 1) (count_packet d t pkt st)"
  using add_num_count[of "getp pkt (js ''snr'')" "sumSnr st" "countSnr st"]
    add_num_count[of "getp pkt (js ''rssi'')" "sumRssi st" "countRssi st"]
  by (auto simp: stats_ok_def count_packet_def sum_bump distinct_bump Let_def)

lemma stats_step_ok:
  "stats_ok n st \<Longrightarrow> stats_step pkt st = Inr st' \<Longrightarrow> stats_ok (if truthy pkt then n + 1 else n) st'"
  using count_packet_ok by (auto simp: stats_step_def bindE_eq_Inr split: if_splits)

lemma stats_loop_ok:
  "stats_ok n st \<Longrightarrow> stats_loop ps st = Inr st' \<Longrightarrow> stats_ok (n + length (filter truthy ps)) st'"
proof (induction ps arbitrary: n st)
  case (Cons p ps)
  then obtain st1 where "stats_step p st = Inr st1" "stats_loop ps st1 = Inr st'" by (auto simp: bindE_eq_Inr)
  with Cons.IH stats_step_ok[OF Cons.prems(1)] show ?case by fastforce
qed simp

text \<open>
  A filter answer holds packets of the input, in their order, each an object that passes
  every filter that was set; without filters every object passes.
\<close>
theorem filterPackets_sound:
  assumes "filterPackets (Arr ps) filters = Inr r"
  shows "\<exists>d t q. lower_trim (getp filters (js ''dirFilter'')) = Inr d \<and>
     upper_trim (getp filters (js ''typeFilter'')) = Inr t \<and>
     lower_trim (getp filters (js ''searchQuery'')) = Inr q \<and>
     subseq r ps \<and> set r = {p \<in> set ps. packet_matches d t q p = Inr True} \<and>
     (d = [] \<and> t = [] \<and> q = [] \<longrightarrow> r = filter is_object ps)"
proof -
  from assms obtain d t q where dtq: "lower_trim (getp filters (js ''dirFilter'')) = Inr d"
     "upper_trim (getp filters (js ''typeFilter'')) = Inr t"
     "lower_trim (getp filters (js ''searchQuery'')) = Inr q"
     and f: "filterE (packet_matches d t q) ps = Inr r"
    by (auto simp: filterPackets_def bindE_eq_Inr)
  have "r = filter is_object ps" if "d = []" "t = []" "q = []"
    using f filterE_Inr[of ps "packet_matches [] [] []" is_object] that
    by (simp add: packet_matches_def)
  with dtq filterE_subseq[OF f] filterE_set[OF f] show ?thesis by blast
qed

theorem filterPackets_sound_witness:
  "\<exists>r. filterPackets (Arr [Null, Obj [(js ''direction'', Str (js ''RX''))]]) (Obj [(js ''dirFilter'', Str (js '' rx''))]) = Inr r \<and>
     subseq r [Null, Obj [(js ''direction'', Str (js ''RX''))]] \<and> r \<noteq> []"
proof -
  have f: "filterPackets (Arr [Null, Obj [(js ''direction'', Str (js ''RX''))]]) (Obj [(js ''dirFilter'', Str (js '' rx''))]) =
      Inr [Obj [(js ''direction'', Str (js ''RX''))]]"
    by (simp add: filterPackets_def lower_trim_def upper_trim_def js_or_def getp_def packet_matches_def
        is_object_def pkt_field_def lower_unit_def trim_def is_space_def)
  from filterPackets_sound[OF f] have "subseq [Obj [(js ''direction'', Str (js ''RX''))]] [Null, Obj [(js ''direction'', Str (js ''RX''))]]"
    by (elim exE conjE)
  with f show ?thesis by blast
qed

text \<open>
  The packet statistics add up: every packet that is not empty counts under exactly one
  type, types are listed once, and receptions and transmissions together, as well as the
  numbers averaged, never exceed the packets counted.
\<close>
theorem stats_add_up:
  assumes "stats_loop ps zero_stats = Inr st"
  shows "sum_list (map snd (byType st)) = length (filter truthy ps) \<and> distinct (map fst (byType st)) \<and>
     rxCount st + txCount st \<le> length (filter truthy ps) \<and>
     countSnr st \<le> length (filter truthy ps) \<and> countRssi st \<le> length (filter truthy ps)"
  using stats_loop_ok[OF _ assms, of 0] by (simp add: stats_ok_def zero_stats_def)

theorem stats_add_up_witness:
  "\<exists>st. stats_loop [Obj [(js ''direction'', Str (js ''rx''))], Null] zero_stats = Inr st \<and>
     sum_list (map snd (byType st)) = 1 \<and> rxCount st + txCount st \<le> 1"
proof -
  have "\<exists>st. stats_loop [Obj [(js ''direction'', Str (js ''rx''))], Null] zero_stats = Inr st"
    by (simp add: stats_step_def pkt_field_def js_or_def getp_def Let_def)
  then obtain st where st: "stats_loop [Obj [(js ''direction'', Str (js ''rx''))], Null] zero_stats = Inr st" ..
  from stats_add_up[OF st] st show ?thesis by auto
qed

end
