(* ===== verification/BrowserAuth.thy ===== *)
theory BrowserAuth
  imports Numbers Utf Machine
begin

section \<open>Browser session (core/auth.js, core/utils.js)\<close>

text \<open>
  \<open>BrowserAuthentication\<close>: the session, the CSRF token kept in memory, the login gate, the account
  dialog and the wrapper around \<open>fetch\<close>. A request (\<open>_submit\<close>) is cut at its \<open>await\<close>: one event
  starts it, another brings its answer, and what happens in between is free. The page's forms
  are outside the model; a submission names what the fields held. \<open>outputs\<close> records the events
  the module dispatches.
\<close>

type_synonym headers = "(jstr \<times> jstr) list"

text \<open>\<open>Headers\<close> compares names without case; here they are stored in lower case.\<close>

definition header_delete :: "jstr \<Rightarrow> headers \<Rightarrow> headers" where
  "header_delete k hs = filter (\<lambda>(n, _). n \<noteq> toLowerCase k) hs"

definition header_set :: "jstr \<Rightarrow> jstr \<Rightarrow> headers \<Rightarrow> headers" where
  "header_set k v hs = header_delete k hs @ [(toLowerCase k, v)]"

definition setSessionCsrfToken :: "jsval \<Rightarrow> jstr" where
  "setSessionCsrfToken v = to_string (js_or v (Str []))"

text \<open>\<open>getAuthHeaders\<close> builds a plain object, whose keys keep their case.\<close>

definition getAuthHeaders :: "jstr \<Rightarrow> (jstr \<times> jsval) list \<Rightarrow> (jstr \<times> jsval) list" where
  "getAuthHeaders csrf custom =
     (let h = spread [(js ''Content-Type'', Str (js ''application/json''))] custom
      in if csrf \<noteq> [] then set_prop (js ''X-CSRF-Token'') (Str csrf) h else h)"

subsection \<open>State\<close>

datatype auth_out =
    StartApplication
  | DispatchExpired
  | DispatchCredentialsChanged
  | PostMessage string
  | ReloadPage

datatype request_kind =
    LoginRequest
  | CredentialsRequest bool
  | TokenRequest
  | LogoutRequest

record auth =
  session :: "jsval option"
  csrfToken :: jstr
  started :: bool
  expired :: bool
  requestBusy :: "request_kind option"
  gateVisible :: bool
  appPending :: bool
  dialogOpen :: bool
  tokenShown :: jstr
  outputs :: "auth_out list"

definition new_auth :: auth where
  "new_auth = \<lparr>session = None, csrfToken = [], started = False, expired = False, requestBusy = None,
     gateVisible = False, appPending = True, dialogOpen = False, tokenShown = [], outputs = []\<rparr>"

definition put_out :: "auth_out \<Rightarrow> auth \<Rightarrow> auth" where
  "put_out e a = a\<lparr>outputs := outputs a @ [e]\<rparr>"

definition clearAccountSecrets :: "auth \<Rightarrow> auth" where
  "clearAccountSecrets a = a\<lparr>tokenShown := []\<rparr>"

text \<open>Closing the dialog runs its \<open>close\<close> listener, which clears the secrets.\<close>

definition close_account :: "auth \<Rightarrow> auth" where
  "close_account a = (if dialogOpen a then clearAccountSecrets (a\<lparr>dialogOpen := False\<rparr>) else a)"

definition showLogin :: "auth \<Rightarrow> auth" where
  "showLogin a = (close_account a)\<lparr>appPending := True, gateVisible := True\<rparr>"

definition openAccount :: "auth \<Rightarrow> auth" where
  "openAccount a = (clearAccountSecrets a)\<lparr>dialogOpen := True\<rparr>"

definition must_change :: "jsval \<Rightarrow> bool" where
  "must_change s = truthy (getp s (js ''must_change_credentials''))"

definition acceptSession :: "jsval \<Rightarrow> auth \<Rightarrow> auth" where
  "acceptSession s a =
     (if \<not> truthy (getp s (js ''authenticated'')) then showLogin a
      else
        let a1 = a\<lparr>session := Some s, csrfToken := setSessionCsrfToken (getp s (js ''csrf_token'')), gateVisible := False\<rparr>
        in if must_change s then openAccount a1
           else
             let a2 = (close_account a1)\<lparr>appPending := False\<rparr>
             in if started a2 then a2 else put_out StartApplication (a2\<lparr>started := True\<rparr>))"

text \<open>\<open>_expire\<close>; the listener that runs it again on its own event finds \<open>expired\<close> set.\<close>

definition expire :: "auth \<Rightarrow> auth" where
  "expire a =
     (if expired a then a
      else showLogin (clearAccountSecrets (put_out DispatchCredentialsChanged (put_out DispatchExpired
             (a\<lparr>expired := True, session := None, csrfToken := []\<rparr>)))))"

subsection \<open>Requests\<close>

text \<open>The guards that a submission passes before \<open>_submit\<close> is called.\<close>

definition password_ok :: "jstr \<Rightarrow> jstr \<Rightarrow> bool" where
  "password_ok password confirmation \<longleftrightarrow>
     password = confirmation \<and> 8 \<le> length (js_chars password) \<and> length (js_chars password) \<le> 64"

definition forced :: "auth \<Rightarrow> bool" where
  "forced a = (case session a of Some s \<Rightarrow> must_change s | None \<Rightarrow> False)"

text \<open>A credential change remembers whether it was forced when it was sent.\<close>

definition begin_request :: "request_kind \<Rightarrow> bool \<Rightarrow> auth \<Rightarrow> auth" where
  "begin_request k valid a =
     (if requestBusy a \<noteq> None \<or> \<not> valid then a
      else case k of
        TokenRequest \<Rightarrow> a\<lparr>tokenShown := [], requestBusy := Some TokenRequest\<rparr>
      | CredentialsRequest _ \<Rightarrow> a\<lparr>requestBusy := Some (CredentialsRequest (forced a))\<rparr>
      | _ \<Rightarrow> a\<lparr>requestBusy := Some k\<rparr>)"

datatype server_answer = NetworkDown | Answer nat bool jsval

text \<open>\<open>_submit\<close> after the answer: the data, or null with the session expired or a message shown.\<close>

definition submit_result :: "request_kind \<Rightarrow> server_answer \<Rightarrow> auth \<Rightarrow> auth \<times> jsval option" where
  "submit_result k r a =
     (let done = (\<lambda>a. a\<lparr>requestBusy := None\<rparr>) in
      case r of
        NetworkDown \<Rightarrow> (done a, None)
      | Answer status ok data \<Rightarrow>
          if ok then (done a, Some data)
          else if k \<noteq> LoginRequest \<and>
                  getp data (js ''error'') \<in> {Str (js ''auth_required''), Str (js ''credentials_change_required''), Str (js ''csrf_failed'')}
          then (done (expire a), None)
          else (done a, None))"

definition finish_request :: "server_answer \<Rightarrow> auth \<Rightarrow> auth" where
  "finish_request r a =
     (case requestBusy a of
        None \<Rightarrow> a
      | Some k \<Rightarrow>
          let (a1, data) = submit_result k r a
          in case data of
               None \<Rightarrow> a1
             | Some d \<Rightarrow>
                 if \<not> truthy d then a1
                 else case k of
                   LoginRequest \<Rightarrow> acceptSession d (a1\<lparr>expired := False\<rparr>)
                 | CredentialsRequest was_forced \<Rightarrow>
                     let a2 = put_out DispatchCredentialsChanged (put_out (PostMessage ''credentials-changed'') (clearAccountSecrets a1))
                     in if was_forced then acceptSession d a2 else put_out ReloadPage a2
                 | TokenRequest \<Rightarrow>
                     if truthy (getp d (js ''token'')) then a1\<lparr>tokenShown := to_string (getp d (js ''token''))\<rparr> else a1
                 | LogoutRequest \<Rightarrow> expire (put_out (PostMessage ''logout'') a1))"

text \<open>The answer to the session check of \<open>init\<close>; \<open>None\<close> when the request failed.\<close>

definition init_answer :: "(nat \<times> bool \<times> jsval) option \<Rightarrow> auth \<Rightarrow> auth" where
  "init_answer r a =
     (case r of
        Some (status, ok, body) \<Rightarrow> if status = 401 \<or> \<not> ok then showLogin a else acceptSession body a
      | None \<Rightarrow> showLogin a)"

datatype auth_event =
    InitAnswer "(nat \<times> bool \<times> jsval) option"
  | Submit request_kind bool
  | ServerAnswers server_answer
  | ExpiredEvent
  | ChannelMessage
  | OpenAccount
  | CloseAccount

fun auth_step :: "auth_event \<Rightarrow> auth \<Rightarrow> auth" where
  "auth_step (InitAnswer r) a = init_answer r a"
| "auth_step (Submit k valid) a = begin_request k valid a"
| "auth_step (ServerAnswers r) a = finish_request r a"
| "auth_step ExpiredEvent a = expire a"
| "auth_step ChannelMessage a = expire a"
| "auth_step OpenAccount a = openAccount a"
| "auth_step CloseAccount a = (if requestBusy a = None then close_account a else a)"

subsection \<open>The wrapped fetch\<close>

record fetch_call =
  fc_same_origin :: bool
  fc_path :: jstr
  fc_headers :: headers
  fc_credentials :: jstr

definition protected_call :: "jstr \<Rightarrow> fetch_call \<Rightarrow> fetch_call" where
  "protected_call csrf c =
     (if \<not> fc_same_origin c \<or> \<not> startsWith (fc_path c) (js ''/api/'') then c
      else
        let h = header_delete (js ''X-Api-Key'') (fc_headers c);
            h1 = (if csrf \<noteq> [] then header_set (js ''X-CSRF-Token'') csrf h else h)
        in c\<lparr>fc_headers := h1, fc_credentials := js ''same-origin''\<rparr>)"

definition error_code :: "jsval \<Rightarrow> jsval" where
  "error_code d = js_or (getp d (js ''error'')) (getp d (js ''code''))"

text \<open>Whether an answer to a call of the application ends the session.\<close>

definition answer_expires :: "jstr \<Rightarrow> nat \<Rightarrow> jsval \<Rightarrow> bool" where
  "answer_expires path status body =
     (if startsWith path (js ''/api/auth/'') then False
      else if status = 401 then
        (if startsWith path (js ''/api/repeater/'') \<or> startsWith path (js ''/api/node/'')
         then error_code body \<in> {Str (js ''auth_required''), Str (js ''browser_session_required''), Str (js ''session_revoked'')}
         else True)
      else if status = 403 then error_code body \<in> {Str (js ''credentials_change_required''), Str (js ''csrf_failed'')}
      else False)"

subsection \<open>Invariants\<close>

text \<open>Without a session the application is covered and no CSRF token is kept.\<close>

definition gate_ok :: "auth \<Rightarrow> bool" where
  "gate_ok a \<longleftrightarrow> (session a = None \<longrightarrow> appPending a \<and> csrfToken a = [])"

definition starts :: "auth \<Rightarrow> nat" where
  "starts a = count_list (outputs a) StartApplication"

definition starts_ok :: "auth \<Rightarrow> bool" where
  "starts_ok a \<longleftrightarrow> starts a = (if started a then 1 else 0)"

definition auth_ok :: "auth \<Rightarrow> bool" where
  "auth_ok a \<longleftrightarrow> gate_ok a \<and> starts_ok a"

lemmas auth_defs = auth_ok_def gate_ok_def starts_ok_def starts_def put_out_def clearAccountSecrets_def
  close_account_def showLogin_def openAccount_def

lemma auth_ok_basic [step_inv]:
  "auth_ok a \<Longrightarrow> auth_ok (clearAccountSecrets a)" "auth_ok a \<Longrightarrow> auth_ok (close_account a)"
  "auth_ok a \<Longrightarrow> auth_ok (showLogin a)" "auth_ok a \<Longrightarrow> auth_ok (openAccount a)"
  "auth_ok a \<Longrightarrow> e \<noteq> StartApplication \<Longrightarrow> auth_ok (put_out e a)"
  "auth_ok (a\<lparr>requestBusy := r\<rparr>) = auth_ok a" "auth_ok (a\<lparr>expired := b\<rparr>) = auth_ok a"
  "auth_ok (a\<lparr>tokenShown := t\<rparr>) = auth_ok a"
  by (auto simp: auth_defs)

lemma auth_ok_accept [step_inv]: "auth_ok a \<Longrightarrow> auth_ok (acceptSession s a)"
  by (auto simp: acceptSession_def auth_defs Let_def)

lemma auth_ok_expire [step_inv]: "auth_ok a \<Longrightarrow> auth_ok (expire a)"
  by (auto simp: expire_def auth_defs)

lemma auth_ok_begin [step_inv]: "auth_ok a \<Longrightarrow> auth_ok (begin_request k v a)"
  by (auto simp: begin_request_def auth_defs split: request_kind.splits)

lemma auth_ok_submit: "auth_ok a \<Longrightarrow> auth_ok (fst (submit_result k r a))"
  by (simp add: submit_result_def auth_ok_basic auth_ok_expire Let_def split: server_answer.splits)

lemma auth_ok_finish [step_inv]:
  assumes "auth_ok a"
  shows "auth_ok (finish_request r a)"
proof (cases "requestBusy a")
  case (Some k)
  obtain a1 d where s: "submit_result k r a = (a1, d)" by (cases "submit_result k r a")
  have "auth_ok a1" using auth_ok_submit[OF assms, of k r] s by simp
  with Some s show ?thesis
    by (simp add: finish_request_def auth_ok_basic auth_ok_expire auth_ok_accept Let_def
        split: option.splits request_kind.splits)
qed (use assms in \<open>simp add: finish_request_def\<close>)

lemma auth_ok_step: "auth_ok a \<Longrightarrow> auth_ok (auth_step e a)"
  by (cases e) (simp_all add: step_inv init_answer_def split: option.splits)

lemma auth_ok_new: "auth_ok new_auth"
  by (simp add: auth_defs new_auth_def)

interpretation auth: initial_invariant auth_step "\<lambda>_. True" auth_ok new_auth
  by unfold_locales (simp_all add: auth_ok_step auth_ok_new)

lemma started_basic [simp]:
  "started (clearAccountSecrets a) = started a" "started (close_account a) = started a"
  "started (showLogin a) = started a" "started (openAccount a) = started a"
  "started (put_out e a) = started a" "started (expire a) = started a"
  by (simp_all add: clearAccountSecrets_def close_account_def showLogin_def openAccount_def put_out_def expire_def)

lemma started_submit [simp]: "started (fst (submit_result k r a)) = started a"
  by (simp add: submit_result_def Let_def split: server_answer.splits)

lemma started_accept: "started a \<Longrightarrow> started (acceptSession s a)"
  by (simp add: acceptSession_def Let_def)

lemma started_finish: "started a \<Longrightarrow> started (finish_request r a)"
  using started_submit[of _ r a]
  by (auto simp: finish_request_def Let_def split_beta started_accept split: option.splits request_kind.splits)

lemma started_step: "started a \<Longrightarrow> started (auth_step e a)"
  by (cases e) (simp_all add: started_finish started_accept begin_request_def init_answer_def
      split: option.splits request_kind.splits)

interpretation started: invariant auth_step "\<lambda>_. True" started
  by unfold_locales (simp add: started_step)

subsection \<open>Properties\<close>

text \<open>
  C5: the gate holds: in every reachable state without a session the application is covered by
  the login page and no CSRF token is kept, and the application has been started at most once.
\<close>
theorem auth_gate_holds:
  "(session (fold auth_step es new_auth) = None \<longrightarrow>
      appPending (fold auth_step es new_auth) \<and> csrfToken (fold auth_step es new_auth) = []) \<and>
   starts (fold auth_step es new_auth) \<le> 1"
  using auth.always[of es] by (simp add: list_all_iff auth_ok_def gate_ok_def starts_ok_def)

theorem auth_gate_holds_witness:
  "appPending (fold auth_step [InitAnswer (Some (200, True, Obj [(js ''authenticated'', Bool True)])), ExpiredEvent] new_auth)"
  by (rule auth_gate_holds[THEN conjunct1, rule_format, THEN conjunct1])
    (simp add: init_answer_def acceptSession_def expire_def showLogin_def close_account_def
      clearAccountSecrets_def put_out_def getp_def must_change_def new_auth_def Let_def)

text \<open>
  a revoked session can come back unnoticed: when the session expires while a forced
  credential change is in flight and the server then confirms the change, the page works with
  a session again but stays marked as expired, so the next expiry is ignored.
\<close>
theorem expiry_lost_after_forced_change:
  assumes "requestBusy a = Some (CredentialsRequest True)" and "\<not> expired a"
    and "truthy (getp d (js ''authenticated''))" and "truthy d"
  shows "session (finish_request (Answer 200 True d) (expire a)) = Some d \<and>
    expire (finish_request (Answer 200 True d) (expire a)) = finish_request (Answer 200 True d) (expire a)"
  using assms
  by (auto simp: finish_request_def submit_result_def expire_def showLogin_def close_account_def
      clearAccountSecrets_def put_out_def acceptSession_def openAccount_def Let_def)

theorem expiry_lost_after_forced_change_witness:
  "session (finish_request (Answer 200 True (Obj [(js ''authenticated'', Bool True)]))
     (expire (new_auth\<lparr>requestBusy := Some (CredentialsRequest True)\<rparr>))) = Some (Obj [(js ''authenticated'', Bool True)])"
  by (rule expiry_lost_after_forced_change[THEN conjunct1]) (simp_all add: new_auth_def getp_def)

text \<open>
  The wrapped \<open>fetch\<close> keeps the CSRF token at home and the old key out: a call to another
  origin or outside \<open>/api/\<close> goes out as it was given; a call to the API never carries
  \<open>X-Api-Key\<close>, uses same-origin credentials, and carries exactly the current CSRF token if
  there is one.
\<close>
theorem protected_call_headers:
  "if fc_same_origin c \<and> startsWith (fc_path c) (js ''/api/'')
   then fc_path (protected_call csrf c) = fc_path c \<and> fc_credentials (protected_call csrf c) = js ''same-origin'' \<and>
     toLowerCase (js ''X-Api-Key'') \<notin> fst ` set (fc_headers (protected_call csrf c)) \<and>
     filter (\<lambda>(n, _). n = toLowerCase (js ''X-CSRF-Token'')) (fc_headers (protected_call csrf c)) =
       (if csrf \<noteq> [] then [(toLowerCase (js ''X-CSRF-Token''), csrf)]
        else filter (\<lambda>(n, _). n = toLowerCase (js ''X-CSRF-Token'')) (fc_headers c))
   else protected_call csrf c = c"
proof -
  define key tok where "key = toLowerCase (js ''X-Api-Key'')" and "tok = toLowerCase (js ''X-CSRF-Token'')"
  have "length key = 9" "length tok = 12" unfolding key_def tok_def length_toLowerCase length_js by simp_all
  then have ne: "key \<noteq> tok" by auto
  let ?h = "filter (\<lambda>(n, _). n \<noteq> key) (fc_headers c)"
  have hs: "fc_headers (protected_call csrf c) = (if csrf \<noteq> [] then filter (\<lambda>(n, _). n \<noteq> tok) ?h @ [(tok, csrf)] else ?h)"
    if "fc_same_origin c" "startsWith (fc_path c) (js ''/api/'')"
    using that unfolding protected_call_def header_set_def header_delete_def Let_def key_def tok_def
    by (simp del: toLowerCase_simps js_simps)
  have "filter (\<lambda>(n, _). n = tok) ?h = filter (\<lambda>(n, _). n = tok) (fc_headers c)"
    unfolding filter_filter using ne by (intro filter_cong) auto
  moreover have "filter (\<lambda>(n, _). n = tok) (filter (\<lambda>(n, _). n \<noteq> tok) ?h @ [(tok, csrf)]) = [(tok, csrf)]"
    by (auto simp: filter_empty_conv)
  moreover have "key \<notin> fst ` set (filter (\<lambda>(n, _). n \<noteq> tok) ?h @ [(tok, csrf)])" "key \<notin> fst ` set ?h"
    using ne by auto
  moreover have "fc_path (protected_call csrf c) = fc_path c" by (simp add: protected_call_def Let_def)
  moreover have "fc_credentials (protected_call csrf c) = js ''same-origin''"
    if "fc_same_origin c" "startsWith (fc_path c) (js ''/api/'')"
    using that by (simp add: protected_call_def Let_def)
  moreover have "protected_call csrf c = c" if "\<not> (fc_same_origin c \<and> startsWith (fc_path c) (js ''/api/''))"
    using that unfolding protected_call_def by auto
  ultimately show ?thesis
    unfolding key_def[symmetric] tok_def[symmetric] using hs by (simp del: js_simps)
qed

end
