(* ===== verification/ApiClient.thy ===== *)
theory ApiClient
  imports BrowserAuth QueryString
begin

section \<open>The REST client (core/api_client.js)\<close>

text \<open>
  \<open>ApiClient.request\<close> split at its \<open>fetch\<close>: the call it makes and what it does with the answer.
  An object body is sent as its JSON text, which is kept as the value it serialises. Each
  endpoint is the path and the options it passes to \<open>request\<close>; \<open>encodeURIComponent\<close> may throw.
\<close>

datatype body = NoBody | JsonText jsval | Plain jsval

record call_init =
  ci_method :: jstr
  ci_headers :: "(jstr \<times> jsval) list"
  ci_body :: jsval

record http_call =
  hc_url :: jstr
  hc_method :: jstr
  hc_headers :: "(jstr \<times> jsval) list"
  hc_body :: body
  hc_credentials :: jstr

definition request_call :: "jstr \<Rightarrow> jstr \<Rightarrow> jstr \<Rightarrow> call_init \<Rightarrow> http_call" where
  "request_call baseUrl csrf path init =
     \<lparr>hc_url = baseUrl @ path, hc_method = ci_method init, hc_headers = getAuthHeaders csrf (ci_headers init),
      hc_body = (if is_object (ci_body init) then JsonText (ci_body init)
                 else if ci_body init = Undefined then NoBody else Plain (ci_body init)),
      hc_credentials = js ''same-origin''\<rparr>"

text \<open>The answer: \<open>http_json\<close> is \<open>None\<close> when the body is not JSON.\<close>

record http_response =
  http_status :: nat
  http_statusText :: jstr
  http_contentType :: "jstr option"
  http_json :: "jsval option"
  http_text :: jstr

definition response_ok :: "http_response \<Rightarrow> bool" where
  "response_ok r \<longleftrightarrow> 200 \<le> http_status r \<and> http_status r \<le> 299"

definition response_data :: "http_response \<Rightarrow> jsval" where
  "response_data r =
     (let ct = (case http_contentType r of Some c \<Rightarrow> c | None \<Rightarrow> []) in
      if str_includes ct (js ''application/json'') \<or> str_includes ct (js ''application/problem+json'')
      then (case http_json r of Some v \<Rightarrow> v | None \<Rightarrow> Null)
      else Str (if length (http_text r) > 160 then take 157 (http_text r) @ js ''...'' else http_text r))"

record problem =
  pb_status :: nat
  pb_title :: jsval
  pb_detail :: jsval
  pb_code :: jsval
  pb_extra :: jsval

definition problem_details :: "http_response \<Rightarrow> problem" where
  "problem_details r =
     (let d = response_data r; e = (if is_object d then d else Obj []) in
      \<lparr>pb_status = http_status r,
       pb_title = js_or (js_or (getp e (js ''title'')) (Str (http_statusText r))) (Str (js ''Error'')),
       pb_detail = js_or (js_or (getp e (js ''detail'')) (getp e (js ''message'')))
                     (case d of Str s \<Rightarrow> Str s | _ \<Rightarrow> Str (js ''Request failed'')),
       pb_code = js_or (js_or (getp e (js ''error'')) (getp e (js ''error_code''))) (Str (js ''http_error'')),
       pb_extra = e\<rparr>)"

text \<open>The message of the thrown \<open>ProblemDetailsError\<close>.\<close>

definition problem_message :: "problem \<Rightarrow> jsval" where
  "problem_message p =
     js_or (js_or (pb_detail p) (pb_title p)) (Str (js ''HTTP error '' @ nat_str (pb_status p)))"

definition request_answer :: "http_response \<Rightarrow> problem + jsval" where
  "request_answer r =
     (if http_status r = 204 then Inr (Obj [])
      else if \<not> response_ok r then Inl (problem_details r)
      else Inr (response_data r))"

subsection \<open>Endpoints\<close>

definition GET :: call_init where "GET = \<lparr>ci_method = js ''GET'', ci_headers = [], ci_body = Undefined\<rparr>"
definition POST :: "jsval \<Rightarrow> call_init" where "POST b = \<lparr>ci_method = js ''POST'', ci_headers = [], ci_body = b\<rparr>"
definition DELETE :: "jsval \<Rightarrow> call_init" where "DELETE b = \<lparr>ci_method = js ''DELETE'', ci_headers = [], ci_body = b\<rparr>"

type_synonym endpoint = "(jstr \<times> call_init) js_result"

text \<open>\<open>encodeURIComponent(v)\<close> of any value, put after a prefix.\<close>

definition with_component :: "string \<Rightarrow> jsval \<Rightarrow> call_init \<Rightarrow> endpoint" where
  "with_component base v init = bindE (encodeURIComponent (to_string v)) (\<lambda>e. Inr (js base @ e, init))"

definition getChannels :: endpoint where "getChannels = Inr (js ''/api/channels'', GET)"
definition updateChannel :: "jsval \<Rightarrow> endpoint" where "updateChannel d = Inr (js ''/api/channels'', POST d)"
definition deleteChannel :: "jsval \<Rightarrow> endpoint" where
  "deleteChannel index = Inr (js ''/api/channels'', DELETE (Obj [(js ''index'', index)]))"
definition exportChannels :: "jsval \<Rightarrow> endpoint" where
  "exportChannels index =
     (if \<not> is_nullish index then with_component ''/api/channels/export?index='' index GET
      else Inr (js ''/api/channels/export'', GET))"
definition payload_body :: "jsval \<Rightarrow> jsval" where
  "payload_body p = (case p of Str _ \<Rightarrow> Obj [(js ''payload'', p)] | _ \<Rightarrow> p)"
definition importChannels :: "jsval \<Rightarrow> endpoint" where
  "importChannels p = Inr (js ''/api/channels/import'', POST (payload_body p))"
definition getContacts :: endpoint where "getContacts = Inr (js ''/api/contacts'', GET)"
definition createOrUpdateContact :: "jsval \<Rightarrow> endpoint" where "createOrUpdateContact d = Inr (js ''/api/contacts'', POST d)"
definition deleteContact :: "jsval \<Rightarrow> endpoint" where
  "deleteContact pubkey = with_component ''/api/contacts/'' pubkey (DELETE Undefined)"
definition syncContacts :: endpoint where "syncContacts = Inr (js ''/api/contacts/sync'', POST Undefined)"
definition shareContact :: "jsval \<Rightarrow> endpoint" where
  "shareContact pubkey = Inr (js ''/api/contacts/share'', POST (Obj [(js ''public_key'', pubkey)]))"
definition exportContact :: "jsval \<Rightarrow> endpoint" where
  "exportContact pubkey = with_component ''/api/contacts/export?public_key='' pubkey GET"
definition importContacts :: "jsval \<Rightarrow> endpoint" where
  "importContacts p = Inr (js ''/api/contacts/import'', POST (payload_body p))"
definition sendTx :: "jsval \<Rightarrow> endpoint" where "sendTx d = Inr (js ''/api/tx'', POST d)"

text \<open>\<open>URLSearchParams\<close> serialised: a space becomes \<open>+\<close>, other reserved bytes are escaped.\<close>

definition form_kept :: "8 word \<Rightarrow> bool" where
  "form_kept b \<longleftrightarrow>
     0x61 \<le> b \<and> b \<le> 0x7A \<or> 0x41 \<le> b \<and> b \<le> 0x5A \<or> 0x30 \<le> b \<and> b \<le> 0x39 \<or> b \<in> {0x2A, 0x2D, 0x2E, 0x5F}"

definition form_byte :: "8 word \<Rightarrow> jstr" where
  "form_byte b = (if b = 0x20 then [0x2B] else if form_kept b then [ucast b] else pct_byte b)"

definition form_encode :: "jstr \<Rightarrow> jstr" where
  "form_encode s = concat (map form_byte (text_encode s))"

definition params_toString :: "(jstr \<times> jstr) list \<Rightarrow> jstr" where
  "params_toString kvs = join [0x26] (map (\<lambda>(k, v). form_encode k @ 0x3D # form_encode v) kvs)"

definition history_params :: "jsval \<Rightarrow> jsval \<Rightarrow> jsval \<Rightarrow> jsval \<Rightarrow> (jstr \<times> jstr) list" where
  "history_params channel target limit before =
     (if channel \<noteq> Null then [(js ''channel'', to_string channel)] else []) @
     (if truthy target then [(js ''target'', to_string target)] else []) @
     (if truthy limit then [(js ''limit'', to_string limit)] else []) @
     (if truthy before then [(js ''before'', to_string before)] else [])"

definition param_default :: "jsval \<Rightarrow> jsval \<Rightarrow> jsval" where
  "param_default v d = (if v = Undefined then d else v)"

definition getHistory :: "jsval \<Rightarrow> jsval \<Rightarrow> jsval \<Rightarrow> jsval \<Rightarrow> endpoint" where
  "getHistory channel target limit before =
     (let qs = params_toString (history_params (param_default channel Null) (param_default target Null)
                 (param_default limit (Num (Fin 50))) (param_default before Null))
      in Inr (js ''/api/messages/history'' @ (if qs \<noteq> [] then js ''?'' @ qs else []), GET))"

definition getConversations :: endpoint where "getConversations = Inr (js ''/api/messages/conversations'', GET)"
definition clearHistory :: "jsval \<Rightarrow> endpoint" where
  "clearHistory feedKey =
     with_component ''/api/messages/history?feed_key='' feedKey (DELETE (Obj [(js ''feed_key'', feedKey)]))"
definition getConfig :: endpoint where "getConfig = Inr (js ''/api/config'', GET)"
definition saveConfig :: "jsval \<Rightarrow> endpoint" where "saveConfig p = Inr (js ''/api/config'', POST p)"
definition getStatus :: endpoint where "getStatus = Inr (js ''/api/status'', GET)"
definition executeAdminCommand :: "jsval \<Rightarrow> endpoint" where "executeAdminCommand d = Inr (js ''/api/admin'', POST d)"
definition getServicesStatus :: endpoint where "getServicesStatus = Inr (js ''/api/services/config'', GET)"
definition saveServicesConfig :: "jsval \<Rightarrow> endpoint" where "saveServicesConfig p = Inr (js ''/api/services/config'', POST p)"

subsection \<open>Paths and queries reach the server as they were meant\<close>

text \<open>Characters that separate the parts of a URL.\<close>

definition plain :: "jchar \<Rightarrow> bool" where
  "plain c \<longleftrightarrow> c \<notin> {0x2F, 0x3F, 0x23, 0x26, 0x3D, 0x2B}"

lemma hex_upper_plain: "d < 16 \<Longrightarrow> plain (hex_upper d)"
proof -
  have "list_all (\<lambda>d. plain (hex_upper d)) [0..<16]"
    by (simp add: upt_rec hex_upper_def plain_def)
  then show "d < 16 \<Longrightarrow> ?thesis" by (simp add: list_all_iff)
qed

lemma pct_byte_plain: "c \<in> set (pct_byte b) \<Longrightarrow> plain c"
  using nibbles[of b] hex_upper_plain by (auto simp: pct_byte_def) (simp add: plain_def)

lemma unreserved_plain: "uri_unreserved c \<Longrightarrow> plain c"
  by (auto simp: plain_def uri_unreserved_def is_digit_def word_le_nat_alt)

lemma uri_char_plain: "c \<in> set (uri_char x) \<Longrightarrow> plain c"
  using unreserved_plain pct_byte_plain by (auto simp: uri_char_def split: list.splits if_splits)

lemma component_plain: "c \<in> set (uri_component s) \<Longrightarrow> plain c"
  using uri_char_plain by (auto simp: uri_component_def)

lemma ucast_byte_back: "ucast (ucast b :: jchar) = (b :: 8 word)"
  by (rule bit_word_eqI) (auto simp: bit_unsigned_iff dest: bit_imp_le_length)

lemma form_byte_decode:
  "pct_decode (map ucast (map (\<lambda>c. if c = 0x2B then 0x20 else c) (form_byte b)) @ r) = b # pct_decode r"
proof (cases "b = 0x20 \<or> form_kept b")
  case True
  then have "ucast b \<noteq> (0x2B :: jchar) \<and> b \<noteq> 0x25"
    by (auto simp: form_kept_def word_le_nat_alt word_unat_eq_iff unat_ucast_byte)
  then show ?thesis using True by (auto simp: form_byte_def pct_decode_other ucast_byte_back)
next
  case False
  then have "map (\<lambda>c. if c = 0x2B then 0x20 else c) (form_byte b) = pct_byte b"
    using pct_byte_units[of _ b] by (auto simp: form_byte_def intro!: map_idI)
  then show ?thesis by (simp add: pct_decode_byte)
qed

lemma form_byte_units: "c \<in> set (form_byte b) \<Longrightarrow> ascii c \<and> c \<notin> {0x26, 0x3D}"
proof -
  assume c: "c \<in> set (form_byte b)"
  show ?thesis
  proof (cases "b = 0x20 \<or> form_kept b")
    case True
    then show ?thesis using c
      by (auto simp: form_byte_def ascii_def form_kept_def word_le_nat_alt word_less_nat_alt word_unat_eq_iff unat_ucast_byte)
  next
    case False
    then show ?thesis using c pct_byte_units[of c b] by (simp add: form_byte_def)
  qed
qed

lemma form_encode_units: "c \<in> set (form_encode s) \<Longrightarrow> ascii c \<and> c \<notin> {0x26, 0x3D}"
  using form_byte_units by (auto simp: form_encode_def)

lemma form_decode_encode: "well_formed s \<Longrightarrow> form_decode (form_encode s) = s"
proof -
  assume wf: "well_formed s"
  let ?f = "\<lambda>c :: jchar. if c = 0x2B then 0x20 else c"
  have "\<forall>c \<in> set (map ?f (form_encode s)). ascii c" using form_encode_units[of _ s] by (auto simp: ascii_def)
  then have "text_encode (map ?f (form_encode s)) = map ucast (map ?f (form_encode s))" by (rule text_encode_ascii)
  moreover have "pct_decode (map ucast (map ?f (concat (map form_byte bs))) @ []) = bs" for bs
  proof (induction bs)
    case (Cons b bs)
    then show ?case using form_byte_decode[of b "map ucast (map ?f (concat (map form_byte bs)))"] by simp
  qed simp
  ultimately show ?thesis using wf by (simp add: form_decode_def form_encode_def utf8_decode_encode)
qed

lemma form_pair: "well_formed k \<Longrightarrow> well_formed v \<Longrightarrow> query_pair (form_encode k @ 0x3D # form_encode v) = (k, v)"
proof -
  assume wf: "well_formed k" "well_formed v"
  have "0x3D \<notin> set (form_encode k)" using form_encode_units by blast
  then have "takeWhile (\<lambda>c. c \<noteq> 0x3D) (form_encode k @ 0x3D # form_encode v) = form_encode k"
    "dropWhile (\<lambda>c. c \<noteq> 0x3D) (form_encode k @ 0x3D # form_encode v) = 0x3D # form_encode v"
    by (auto simp: takeWhile_append dropWhile_append)
  with wf show ?thesis by (simp add: query_pair_def form_decode_encode)
qed

lemma search_params_toString:
  assumes "kvs \<noteq> []" "\<forall>(k, v) \<in> set kvs. well_formed k \<and> well_formed v"
  shows "search_params (0x3F # params_toString kvs) = kvs"
proof -
  let ?ps = "map (\<lambda>(k, v). form_encode k @ 0x3D # form_encode v) kvs"
  have "\<forall>w \<in> set ?ps. 0x26 \<notin> set w" using form_encode_units by fastforce
  then have "split_on 0x26 (params_toString kvs) = ?ps"
    unfolding params_toString_def using assms(1) by (intro split_join) auto
  moreover have "map query_pair ?ps = kvs" using assms(2) by (auto simp: form_pair intro!: map_idI)
  ultimately show ?thesis by (simp add: search_params_def comp_def split_beta filter_eq_self)
qed


text \<open>
  The filters of a history request survive the query string: parsing the query of the address
  gives back channel, target, limit and position, each present exactly when the code sends it.
\<close>
theorem history_query_roundtrip:
  assumes "well_formed (to_string channel)" "well_formed (to_string target)" "well_formed (to_string limit)" "well_formed (to_string before)"
  shows "case getHistory channel target limit before of
      Inl _ \<Rightarrow> False
    | Inr (path, init) \<Rightarrow>
        search_params (drop (length (js ''/api/messages/history'')) path) =
          history_params (param_default channel Null) (param_default target Null) (param_default limit (Num (Fin 50))) (param_default before Null)"
proof -
  let ?kvs = "history_params (param_default channel Null) (param_default target Null) (param_default limit (Num (Fin 50))) (param_default before Null)"
  have wf: "\<forall>(k, v) \<in> set ?kvs. well_formed k \<and> well_formed v"
  proof -
    have keys: "well_formed (js ''channel'')" "well_formed (js ''target'')" "well_formed (js ''limit'')" "well_formed (js ''before'')"
      by (rule ascii_well_formed, simp add: ascii_def)+
    have "well_formed (to_string (param_default v d))" if "well_formed (to_string v)" "well_formed (to_string d)" for v d
      using that by (simp add: param_default_def)
    moreover have "well_formed (to_string Null)" "well_formed (to_string (Num (Fin 50)))"
      by (rule ascii_well_formed, simp add: ascii_def num_str_def rat_str_def nat_str_def nat_digits.simps digit_unit_def)+
    ultimately show ?thesis using assms keys by (auto simp: history_params_def simp del: js_simps)
  qed
  show ?thesis
  proof (cases "?kvs = []")
    case True
    then show ?thesis by (simp add: getHistory_def Let_def params_toString_def search_params_def)
  next
    case False
    note sp = search_params_toString[OF False wf]
    then have "params_toString ?kvs \<noteq> []" using False by (auto simp: search_params_def)
    then show ?thesis using sp by (simp add: getHistory_def Let_def)
  qed
qed

theorem history_query_roundtrip_witness:
  "case getHistory (Num (Fin 0)) (Str (js ''a b'')) Undefined Null of
      Inl _ \<Rightarrow> False
    | Inr (path, init) \<Rightarrow>
        search_params (drop (length (js ''/api/messages/history'')) path) =
          history_params (param_default (Num (Fin 0)) Null) (param_default (Str (js ''a b'')) Null)
            (param_default Undefined (Num (Fin 50))) (param_default Null Null)"
  by (rule history_query_roundtrip; rule ascii_well_formed)
    (simp_all add: ascii_def num_str_def rat_str_def nat_str_def nat_digits.simps digit_unit_def)

text \<open>
  An answer outside the success range always becomes an error with its status and texts that
  are never empty, a 204 becomes an empty object, any other success the body, where a body that
  is not JSON is cut to 160 characters.
\<close>
theorem request_answer_exact:
  "case request_answer r of
     Inr v \<Rightarrow> response_ok r \<and> v = (if http_status r = 204 then Obj [] else response_data r)
   | Inl p \<Rightarrow> \<not> response_ok r \<and> pb_status p = http_status r \<and> truthy (pb_title p) \<and> truthy (pb_code p) \<and> truthy (problem_message p)"
  by (simp add: request_answer_def problem_details_def problem_message_def response_ok_def js_or_def Let_def split: jsval.split)

lemma text_body_bounded:
  "case response_data r of Str s \<Rightarrow> http_json r = Some (Str s) \<or> length s \<le> 160 | _ \<Rightarrow> True"
  by (auto simp: response_data_def Let_def split: option.splits jsval.splits)

end
