(* ===== verification/Sniffer.thy ===== *)
theory Sniffer
  imports PacketWorker ApiClient Machine "HOL-Library.Multiset"
begin

section \<open>The packet sniffer and the system log (modules/sniffer.js)\<close>

text \<open>
  The two buffers of \<open>SnifferModule\<close>: captured packets and system logs. Each is filled from three
  sides: frames that arrive over the WebSocket, a snapshot requested over HTTP, and a deletion
  requested over HTTP. Requests are split at their \<open>await\<close>: the first half runs at once and
  leaves a continuation that holds the method's local variables; the second half runs when the
  answer arrives, in any order. The code compares records by identity (\<open>new Set(this.rfPackets)\<close>),
  so every record carries the number of the object it is.
\<close>

definition MAX_RAW_PACKETS :: nat where "MAX_RAW_PACKETS = 200"
definition MAX_SYSTEM_LOGS :: nat where "MAX_SYSTEM_LOGS = 300"

type_synonym tracked = "nat \<times> jsval"

datatype call =
    FetchPackets nat "nat list"
  | ClearPackets "nat list"
  | FetchLogs nat "nat list"
  | ClearLogs
  | SetDebug jstr

record sniffer =
  rfPackets :: "tracked list"
  packetGeneration :: nat
  packetSession :: jsval
  snifferBadge :: nat
  systemLogs :: "tracked list"
  logGeneration :: nat
  isDebugMode :: bool
  btnClearLogs_disabled :: bool
  chkDebugMode_disabled :: bool
  toasts :: "(jsval \<times> jstr) list"
  pending :: "(nat \<times> call) list"
  next_ref :: nat
  next_call :: nat

definition new_sniffer :: sniffer where
  "new_sniffer = \<lparr>rfPackets = [], packetGeneration = 0, packetSession = Null, snifferBadge = 0,
     systemLogs = [], logGeneration = 0, isDebugMode = False, btnClearLogs_disabled = False,
     chkDebugMode_disabled = False, toasts = [], pending = [], next_ref = 0, next_call = 0\<rparr>"

subsection \<open>Keys and merging\<close>

text \<open>
  The value \<open>JSON.stringify\<close> writes: absent elements and numbers without a literal become
  \<open>null\<close>, absent properties are left out. Two texts are equal when these values are.
\<close>

fun json_view :: "jsval \<Rightarrow> jsval" where
  "json_view Undefined = Null"
| "json_view (Num n) = (if finite_num n then Num n else Null)"
| "json_view (Arr xs) = Arr (map json_view xs)"
| "json_view (Obj ps) =
     Obj (map snd (filter fst (map (\<lambda>(k, v). (v \<noteq> Undefined, k, json_view v)) ps)))"
| "json_view v = v"

definition packetKey :: "jsval \<Rightarrow> jsval js_result" where
  "packetKey pkt =
     (if is_nullish pkt then Inl TypeError
      else Inr (json_view (Arr [nullish (getp pkt (js ''session_id'')) Null, nullish (getp pkt (js ''packet_id'')) Null,
                  if is_nullish (getp pkt (js ''packet_id'')) then pkt else Null])))"

definition logKey :: "jsval \<Rightarrow> jsval js_result" where
  "logKey entry =
     (if is_nullish entry then Inl TypeError
      else Inr (json_view (Arr (map (\<lambda>k. getp entry (js k))
             [''timestamp'', ''iso_time'', ''level'', ''module'', ''logger'', ''source'', ''message'', ''exception'']))))"

fun tally :: "'k list \<Rightarrow> 'k \<Rightarrow> nat" where
  "tally [] = (\<lambda>_. 0)"
| "tally (k # ks) = (tally ks)(k := tally ks k + 1)"

fun merge_loop :: "('a \<Rightarrow> 'k js_result) \<Rightarrow> ('k \<Rightarrow> nat) \<Rightarrow> 'a list \<Rightarrow> 'a list \<Rightarrow> 'a list js_result" where
  "merge_loop getKey counts merged [] = Inr merged"
| "merge_loop getKey counts merged (r # rs) =
     bindE (getKey r) (\<lambda>k.
       if counts k \<noteq> 0 then merge_loop getKey (counts(k := counts k - 1)) merged rs
       else merge_loop getKey counts (merged @ [r]) rs)"

definition mergeRecords :: "('a \<Rightarrow> 'k js_result) \<Rightarrow> 'a list \<Rightarrow> 'a list \<Rightarrow> 'a list js_result" where
  "mergeRecords getKey snapshot current =
     bindE (mapE getKey snapshot) (\<lambda>ks. merge_loop getKey (tally ks) snapshot current)"

text \<open>
  \<open>sort((a, b) => num(a) - num(b))\<close> is stable; with a number that is not finite the comparator
  answers NaN and the language leaves the order to the engine: the argument \<open>unordered\<close>.
\<close>

definition sort_by_number :: "('a list \<Rightarrow> 'a list) \<Rightarrow> ('a \<Rightarrow> jnum) \<Rightarrow> 'a list \<Rightarrow> 'a list" where
  "sort_by_number unordered num rs =
     (if list_all (\<lambda>r. finite_num (num r)) rs
      then sort_key (\<lambda>r. case num r of Fin q \<Rightarrow> q | _ \<Rightarrow> 0) rs else unordered rs)"

text \<open>\<open>slice(-n)\<close>\<close>

definition last_n :: "nat \<Rightarrow> 'a list \<Rightarrow> 'a list" where
  "last_n n xs = drop (length xs - n) xs"

subsection \<open>Captured packets\<close>

definition acceptPacketSession :: "jsval \<Rightarrow> sniffer \<Rightarrow> sniffer" where
  "acceptPacketSession sid st =
     (if \<not> truthy sid then st
      else
        let st1 = (if truthy (packetSession st) \<and> packetSession st \<noteq> sid
                   then st\<lparr>packetGeneration := packetGeneration st + 1, rfPackets := []\<rparr> else st)
        in st1\<lparr>packetSession := sid\<rparr>)"

definition onRfPacketReceived :: "jsval \<Rightarrow> sniffer \<Rightarrow> sniffer" where
  "onRfPacketReceived pkt st0 =
     (let st = acceptPacketSession (getp pkt (js ''session_id'')) st0
      in if list_ex (\<lambda>r. packetKey (snd r) = packetKey pkt) (rfPackets st) then st
         else
           let ps = push_bounded MAX_RAW_PACKETS (next_ref st, pkt) (rfPackets st)
           in st\<lparr>rfPackets := ps, next_ref := next_ref st + 1, snifferBadge := length ps\<rparr>)"

definition start_call :: "call \<Rightarrow> sniffer \<Rightarrow> sniffer" where
  "start_call c st = st\<lparr>pending := pending st @ [(next_call st, c)], next_call := next_call st + 1\<rparr>"

definition show_toast :: "jsval \<Rightarrow> string \<Rightarrow> sniffer \<Rightarrow> sniffer" where
  "show_toast v type st = st\<lparr>toasts := toasts st @ [(v, js type)]\<rparr>"

text \<open>What \<open>fetch\<close> settles to: it rejects, or gives a response whose \<open>json()\<close> may throw.\<close>

datatype net = Rejected js_error | Responded http_response

definition fetch_packets_start :: "sniffer \<Rightarrow> sniffer" where
  "fetch_packets_start st =
     (let st1 = st\<lparr>packetGeneration := packetGeneration st + 1\<rparr>
      in start_call (FetchPackets (packetGeneration st1) (map fst (rfPackets st1))) st1)"

text \<open>The objects a JSON text creates, in their order.\<close>

definition new_objects :: "nat \<Rightarrow> jsval list \<Rightarrow> tracked list" where
  "new_objects ref xs = zip [ref..<ref + length xs] xs"

definition answer_rows :: "http_response \<Rightarrow> jsval \<Rightarrow> jsval list option" where
  "answer_rows res data =
     (if response_ok res \<and> getp data (js ''status'') = Str (js ''ok'')
      then (case getp data (js ''data'') of Arr xs \<Rightarrow> Some xs | _ \<Rightarrow> None) else None)"

text \<open>The session a snapshot belongs to.\<close>

definition reply_session :: "jsval \<Rightarrow> tracked list \<Rightarrow> jsval" where
  "reply_session data snapshot =
     js_or (getp data (js ''session_id''))
       (case snapshot of [] \<Rightarrow> Undefined | p # _ \<Rightarrow> getp (snd p) (js ''session_id''))"

definition packet_number :: "tracked \<Rightarrow> jnum" where
  "packet_number p = to_number (getp (snd p) (js ''packet_id''))"

definition log_number :: "tracked \<Rightarrow> jnum" where
  "log_number r = to_number (js_or (getp (snd r) (js ''timestamp'')) (Num (Fin 0)))"

definition install_packets :: "(tracked list \<Rightarrow> tracked list) \<Rightarrow> nat list \<Rightarrow> jsval \<Rightarrow> jsval list \<Rightarrow> sniffer \<Rightarrow> sniffer" where
  "install_packets unordered existing data rows st0 =
     (let snapshot = rev (new_objects (next_ref st0) rows);
          st = (acceptPacketSession (reply_session data snapshot) st0)\<lparr>next_ref := next_ref st0 + length rows\<rparr>;
          live = filter (\<lambda>p. fst p \<notin> set existing) (rfPackets st)
      in case mergeRecords (\<lambda>p. packetKey (snd p)) snapshot live of
           Inl _ \<Rightarrow> st
         | Inr merged \<Rightarrow>
             let ps = last_n MAX_RAW_PACKETS (sort_by_number unordered packet_number merged)
             in st\<lparr>rfPackets := ps, snifferBadge := length ps\<rparr>)"

definition fetchCapturedPackets :: "(tracked list \<Rightarrow> tracked list) \<Rightarrow> nat \<Rightarrow> nat list \<Rightarrow> net \<Rightarrow> sniffer \<Rightarrow> sniffer" where
  "fetchCapturedPackets unordered generation existing reply st =
     (case reply of
        Rejected _ \<Rightarrow> st
      | Responded res \<Rightarrow>
          (case http_json res of
             None \<Rightarrow> st
           | Some data \<Rightarrow>
               if generation \<noteq> packetGeneration st then st
               else case answer_rows res data of
                      None \<Rightarrow> st
                    | Some rows \<Rightarrow> install_packets unordered existing data rows st))"

definition clear_packets_start :: "sniffer \<Rightarrow> sniffer" where
  "clear_packets_start st =
     start_call (ClearPackets (map fst (rfPackets st))) (st\<lparr>packetGeneration := packetGeneration st + 1\<rparr>)"

text \<open>The texts the catalogue of translations and the engine supply.\<close>

record sniffer_texts =
  tx_http_error :: "nat \<Rightarrow> jstr"
  tx_buffer_cleared :: jstr
  tx_clear_connection_error :: jstr
  tx_logs_cleared :: jstr
  tx_logs_clear_error :: "jsval \<Rightarrow> jstr"
  tx_logs_level_error :: "jsval \<Rightarrow> jstr"
  tx_engine :: "js_error \<Rightarrow> jstr"

text \<open>The first of a failed answer's texts that is there; the answer may not be JSON at all.\<close>

definition reply_detail :: "string list \<Rightarrow> jsval \<Rightarrow> http_response \<Rightarrow> jsval" where
  "reply_detail keys fallback res =
     (case http_json res of
        None \<Rightarrow> fallback
      | Some d \<Rightarrow> if is_nullish d then fallback else foldr (\<lambda>k v. js_or (getp d (js k)) v) keys fallback)"

definition clearCapturedPackets :: "sniffer_texts \<Rightarrow> nat list \<Rightarrow> net \<Rightarrow> sniffer \<Rightarrow> sniffer" where
  "clearCapturedPackets tx existing reply st =
     (case reply of
        Rejected _ \<Rightarrow> show_toast (Str (tx_clear_connection_error tx)) ''error'' st
      | Responded res \<Rightarrow>
          if \<not> response_ok res
          then show_toast (reply_detail [''message'', ''detail'', ''error''] (Str (tx_http_error tx (http_status res))) res) ''error'' st
          else
            let ps = filter (\<lambda>p. fst p \<notin> set existing) (rfPackets st)
            in show_toast (Str (tx_buffer_cleared tx)) ''success''
                 (st\<lparr>packetGeneration := packetGeneration st + 1, rfPackets := ps, snifferBadge := length ps\<rparr>))"

subsection \<open>System logs\<close>

definition onSystemLog :: "jsval \<Rightarrow> sniffer \<Rightarrow> sniffer" where
  "onSystemLog entry st =
     (if \<not> truthy entry then st
      else st\<lparr>systemLogs := push_bounded MAX_SYSTEM_LOGS (next_ref st, entry) (systemLogs st), next_ref := next_ref st + 1\<rparr>)"

definition onLogsCleared :: "sniffer \<Rightarrow> sniffer" where
  "onLogsCleared st = st\<lparr>logGeneration := logGeneration st + 1, systemLogs := []\<rparr>"

definition fetch_logs_start :: "sniffer \<Rightarrow> sniffer" where
  "fetch_logs_start st =
     (let st1 = st\<lparr>logGeneration := logGeneration st + 1\<rparr>
      in start_call (FetchLogs (logGeneration st1) (map fst (systemLogs st1))) st1)"

definition install_logs :: "(tracked list \<Rightarrow> tracked list) \<Rightarrow> nat list \<Rightarrow> jsval \<Rightarrow> jsval list \<Rightarrow> sniffer \<Rightarrow> sniffer" where
  "install_logs unordered existing data rows st0 =
     (let st = st0\<lparr>next_ref := next_ref st0 + length rows\<rparr>;
          live = filter (\<lambda>r. fst r \<notin> set existing) (systemLogs st)
      in case mergeRecords (\<lambda>r. logKey (snd r)) (new_objects (next_ref st0) rows) live of
           Inl _ \<Rightarrow> st
         | Inr merged \<Rightarrow>
             let logs = last_n MAX_SYSTEM_LOGS (sort_by_number unordered log_number merged);
                 lvl = getp data (js ''current_level'')
             in st\<lparr>systemLogs := logs,
                   isDebugMode := (if truthy lvl then lvl = Str (js ''DEBUG'') else isDebugMode st)\<rparr>)"

definition fetchSystemLogs :: "(tracked list \<Rightarrow> tracked list) \<Rightarrow> nat \<Rightarrow> nat list \<Rightarrow> net \<Rightarrow> sniffer \<Rightarrow> sniffer" where
  "fetchSystemLogs unordered generation existing reply st =
     (case reply of
        Rejected _ \<Rightarrow> st
      | Responded res \<Rightarrow>
          (case http_json res of
             None \<Rightarrow> st
           | Some data \<Rightarrow>
               if generation \<noteq> logGeneration st then st
               else case answer_rows res data of
                      None \<Rightarrow> st
                    | Some rows \<Rightarrow> install_logs unordered existing data rows st))"

definition clear_logs_start :: "sniffer \<Rightarrow> sniffer" where
  "clear_logs_start st =
     (if btnClearLogs_disabled st then st
      else start_call ClearLogs (st\<lparr>logGeneration := logGeneration st + 1, btnClearLogs_disabled := True\<rparr>))"

text \<open>\<open>e.message\<close>: the engine words the errors the code does not throw itself.\<close>

definition error_message :: "sniffer_texts \<Rightarrow> js_error \<Rightarrow> jsval" where
  "error_message tx e = Str (case e of ErrorMsg m \<Rightarrow> m | _ \<Rightarrow> tx_engine tx e)"

definition clearSystemLogs :: "sniffer_texts \<Rightarrow> net \<Rightarrow> sniffer \<Rightarrow> sniffer" where
  "clearSystemLogs tx reply st0 =
     (let st = st0\<lparr>btnClearLogs_disabled := False\<rparr>
      in case reply of
        Rejected e \<Rightarrow> show_toast (Str (tx_logs_clear_error tx (error_message tx e))) ''error'' st
      | Responded res \<Rightarrow>
          if \<not> response_ok res
          then show_toast (Str (tx_logs_clear_error tx
                 (Str (to_string (reply_detail [''detail'', ''message''] (Str (tx_http_error tx (http_status res))) res))))) ''error'' st
          else show_toast (Str (tx_logs_cleared tx)) ''success''
                 (st\<lparr>logGeneration := logGeneration st + 1, systemLogs := []\<rparr>))"

definition set_debug_start :: "bool \<Rightarrow> sniffer \<Rightarrow> sniffer" where
  "set_debug_start enabled st =
     (if chkDebugMode_disabled st then st
      else start_call (SetDebug (if enabled then js ''DEBUG'' else js ''INFO'')) (st\<lparr>chkDebugMode_disabled := True\<rparr>))"

definition setDebugMode :: "sniffer_texts \<Rightarrow> jstr \<Rightarrow> net \<Rightarrow> sniffer \<Rightarrow> sniffer" where
  "setDebugMode tx targetLevel reply st0 =
     (let st = st0\<lparr>chkDebugMode_disabled := False\<rparr>;
          failed = (\<lambda>e. show_toast (Str (tx_logs_level_error tx (error_message tx e))) ''error'' st)
      in case reply of
        Rejected e \<Rightarrow> failed e
      | Responded res \<Rightarrow>
          (case http_json res of
             None \<Rightarrow> failed TypeError
           | Some data \<Rightarrow>
               if is_nullish data then failed TypeError
               else if \<not> response_ok res \<or> getp data (js ''status'') \<noteq> Str (js ''ok'')
               then failed (ErrorMsg (to_string (reply_detail [''detail'', ''message''] (Str (tx_http_error tx (http_status res))) res)))
               else st\<lparr>isDebugMode := (js_or (js_or (getp data (js ''current_level'')) (getp data (js ''level''))) (Str targetLevel)
                                        = Str (js ''DEBUG''))\<rparr>))"

subsection \<open>Events\<close>

datatype sniffer_event =
    PacketArrives jsval
  | LogArrives jsval
  | LogsCleared
  | RefreshPackets
  | ClearPacketsClicked
  | RefreshLogs
  | ClearLogsClicked
  | DebugToggled bool
  | AnswerArrives nat net

definition run_call :: "(tracked list \<Rightarrow> tracked list) \<Rightarrow> sniffer_texts \<Rightarrow> call \<Rightarrow> net \<Rightarrow> sniffer \<Rightarrow> sniffer" where
  "run_call unordered tx c reply =
     (case c of
        FetchPackets generation existing \<Rightarrow> fetchCapturedPackets unordered generation existing reply
      | ClearPackets existing \<Rightarrow> clearCapturedPackets tx existing reply
      | FetchLogs generation existing \<Rightarrow> fetchSystemLogs unordered generation existing reply
      | ClearLogs \<Rightarrow> clearSystemLogs tx reply
      | SetDebug level \<Rightarrow> setDebugMode tx level reply)"

text \<open>An answer to a request that is not under way does not happen; the bus drops a falsy packet.\<close>

definition sniffer_step :: "(tracked list \<Rightarrow> tracked list) \<Rightarrow> sniffer_texts \<Rightarrow> sniffer_event \<Rightarrow> sniffer \<Rightarrow> sniffer" where
  "sniffer_step unordered tx ev st =
     (case ev of
        PacketArrives pkt \<Rightarrow> if truthy pkt then onRfPacketReceived pkt st else st
      | LogArrives entry \<Rightarrow> onSystemLog entry st
      | LogsCleared \<Rightarrow> onLogsCleared st
      | RefreshPackets \<Rightarrow> fetch_packets_start st
      | ClearPacketsClicked \<Rightarrow> clear_packets_start st
      | RefreshLogs \<Rightarrow> fetch_logs_start st
      | ClearLogsClicked \<Rightarrow> clear_logs_start st
      | DebugToggled b \<Rightarrow> set_debug_start b st
      | AnswerArrives n reply \<Rightarrow>
          (case map_of (pending st) n of
             None \<Rightarrow> st
           | Some c \<Rightarrow> run_call unordered tx c reply (st\<lparr>pending := filter (\<lambda>p. fst p \<noteq> n) (pending st)\<rparr>)))"

definition sniffer_run :: "(tracked list \<Rightarrow> tracked list) \<Rightarrow> sniffer_texts \<Rightarrow> sniffer_event list \<Rightarrow> sniffer \<Rightarrow> sniffer" where
  "sniffer_run unordered tx evs st = fold (sniffer_step unordered tx) evs st"

subsection \<open>Merging keeps the larger number of copies\<close>

lemma tally_count: "tally ks k = count (mset ks) k"
  by (induction ks) auto

lemma mapE_keys: "mapE f xs = Inr ys \<Longrightarrow> map f xs = map Inr ys"
  by (induction xs arbitrary: ys) (auto simp: bindE_eq_Inr)

lemma mapE_keyed: "mapE f xs = Inr ys \<Longrightarrow> \<forall>x \<in> set xs. \<exists>y. f x = Inr y"
  by (induction xs arbitrary: ys) (auto simp: bindE_eq_Inr)

lemma mapE_error: "mapE f xs = Inl e \<Longrightarrow> \<exists>x \<in> set xs. f x = Inl e"
  by (induction xs) (auto simp: bindE_def split: sum.splits)

lemma merge_loop_error: "merge_loop getKey c acc rs = Inl e \<Longrightarrow> \<exists>r \<in> set rs. getKey r = Inl e"
  by (induction rs arbitrary: c acc) (auto simp: bindE_def split: sum.splits if_splits)

lemma merge_loop_new:
  "merge_loop getKey c acc rs = Inr m \<Longrightarrow>
   \<exists>new. m = acc @ new \<and> subseq new rs \<and> (\<forall>r \<in> set rs. \<exists>k. getKey r = Inr k) \<and>
     (\<forall>k. count (mset (map getKey new)) (Inr k) = count (mset (map getKey rs)) (Inr k) - c k)"
proof (induction rs arbitrary: c acc)
  case (Cons r rs)
  then obtain k where k: "getKey r = Inr k" by (auto simp: bindE_eq_Inr)
  show ?case
  proof (cases "c k = 0")
    case True
    with Cons.prems k have "merge_loop getKey c (acc @ [r]) rs = Inr m" by simp
    from Cons.IH[OF this] obtain new where new: "m = acc @ r # new" "subseq new rs"
      "\<forall>r \<in> set rs. \<exists>k. getKey r = Inr k"
      "\<forall>k. count (mset (map getKey new)) (Inr k) = count (mset (map getKey rs)) (Inr k) - c k" by auto
    with k True show ?thesis by (intro exI[of _ "r # new"]) auto
  next
    case False
    with Cons.prems k have "merge_loop getKey (c(k := c k - 1)) acc rs = Inr m" by simp
    from Cons.IH[OF this] obtain new where new: "m = acc @ new" "subseq new rs"
      "\<forall>r \<in> set rs. \<exists>k. getKey r = Inr k"
      "\<forall>j. count (mset (map getKey new)) (Inr j) = count (mset (map getKey rs)) (Inr j) - (c(k := c k - 1)) j" by auto
    with k False show ?thesis by (intro exI[of _ new]) auto
  qed
qed simp

lemma count_Inl_keyed: "\<forall>r \<in> set rs. \<exists>k. f r = Inr k \<Longrightarrow> count (mset (map f rs)) (Inl e) = 0"
  by (auto simp: count_eq_zero_iff)

lemma subseq_member: "subseq xs ys \<Longrightarrow> x \<in> set xs \<Longrightarrow> x \<in> set ys"
  by (erule list_emb_set) auto

lemma mergeRecords_new:
  assumes "mergeRecords getKey snapshot current = Inr m"
  obtains new where "m = snapshot @ new" "subseq new current"
    "mset (map getKey m) = mset (map getKey snapshot) \<union># mset (map getKey current)"
    "\<forall>r \<in> set (snapshot @ current). \<exists>k. getKey r = Inr k"
proof -
  from assms obtain ks where ks: "mapE getKey snapshot = Inr ks" "merge_loop getKey (tally ks) snapshot current = Inr m"
    by (auto simp: mergeRecords_def bindE_eq_Inr)
  note keys = mapE_keys[OF ks(1)]
  obtain new where new: "m = snapshot @ new" "subseq new current" "\<forall>r \<in> set current. \<exists>k. getKey r = Inr k"
    "\<forall>k. count (mset (map getKey new)) (Inr k) = count (mset (map getKey current)) (Inr k) - tally ks k"
    using merge_loop_new[OF ks(2)] by blast
  have snap: "\<forall>r \<in> set snapshot. \<exists>k. getKey r = Inr k"
    using ks(1) by (rule mapE_keyed)
  have newk: "\<forall>r \<in> set new. \<exists>k. getKey r = Inr k"
    using new(2,3) by (auto dest: list_emb_set)
  have count: "count (mset (map getKey snapshot)) (Inr k) = tally ks k" for k
    unfolding keys by (induction ks) auto
  have "mset (map getKey m) = mset (map getKey snapshot) \<union># mset (map getKey current)"
  proof (rule multiset_eqI)
    fix x
    show "count (mset (map getKey m)) x = count (mset (map getKey snapshot) \<union># mset (map getKey current)) x"
    proof (cases x)
      case (Inl e)
      then show ?thesis using count_Inl_keyed[OF snap] count_Inl_keyed[OF newk] count_Inl_keyed[OF new(3)] new(1)
        by (simp del: mset_map count_mset_0_iff count_eq_zero_iff)
    next
      case (Inr k)
      then show ?thesis using new(1,4) count[of k] by (simp del: mset_map add: max_def)
    qed
  qed
  with new snap that show thesis by auto
qed

lemma mergeRecords_error:
  assumes "mergeRecords getKey snapshot current = Inl e"
  shows "\<exists>r \<in> set (snapshot @ current). getKey r = Inl e"
proof -
  from assms have "mapE getKey snapshot = Inl e \<or> (\<exists>c. merge_loop getKey c snapshot current = Inl e)"
    by (auto simp: mergeRecords_def bindE_def split: sum.splits)
  with mapE_error merge_loop_error show ?thesis by fastforce
qed

text \<open>
  Merging a snapshot with the records that arrived meanwhile keeps the snapshot, appends
  records of the second list in their order, and gives every key as many copies as the list that
  has more of them: a record present in both is not shown twice, and a repeated log line is not
  lost. It fails only on a record whose key cannot be computed.
\<close>
theorem mergeRecords_keeps_larger:
  "case mergeRecords getKey snapshot current of
     Inl e \<Rightarrow> \<exists>r \<in> set (snapshot @ current). getKey r = Inl e
   | Inr m \<Rightarrow> \<exists>new. m = snapshot @ new \<and> subseq new current \<and>
       mset (map getKey m) = mset (map getKey snapshot) \<union># mset (map getKey current)"
proof (cases "mergeRecords getKey snapshot current")
  case (Inl e)
  with mergeRecords_error[OF Inl] show ?thesis by simp
next
  case (Inr m)
  then show ?thesis by (auto elim: mergeRecords_new)
qed

subsection \<open>Invariants\<close>

lemma last_n_length: "length (last_n n xs) \<le> n"
  by (simp add: last_n_def)

lemma last_n_set: "set (last_n n xs) \<subseteq> set xs"
  by (simp add: last_n_def set_drop_subset)

lemma last_n_distinct: "distinct (map f xs) \<Longrightarrow> distinct (map f (last_n n xs))"
  by (simp add: last_n_def drop_map[symmetric])

lemma sort_by_number_mset: "(\<And>xs. mset (u xs) = mset xs) \<Longrightarrow> mset (sort_by_number u num rs) = mset rs"
  by (simp add: sort_by_number_def)

lemma sort_by_number_set: "(\<And>xs. mset (u xs) = mset xs) \<Longrightarrow> set (sort_by_number u num rs) = set rs"
  using sort_by_number_mset by (metis set_mset_mset)

lemma new_objects_refs: "map fst (new_objects n xs) = [n..<n + length xs]"
  by (simp add: new_objects_def)

lemma new_objects_values: "map snd (new_objects n xs) = xs"
  by (simp add: new_objects_def)


lemma new_objects_value: "r \<in> set (new_objects n xs) \<Longrightarrow> snd r \<in> set xs"
  by (metis new_objects_values imageI list.set_map)

lemma new_objects_ref: "r \<in> set (new_objects n xs) \<Longrightarrow> n \<le> fst r \<and> fst r < n + length xs"
proof -
  assume "r \<in> set (new_objects n xs)"
  then have "fst r \<in> set (map fst (new_objects n xs))" by simp
  then show ?thesis unfolding new_objects_refs by simp
qed

definition reply_base :: "jsval \<Rightarrow> jsval list \<Rightarrow> sniffer \<Rightarrow> sniffer" where
  "reply_base data rows st =
     (acceptPacketSession (reply_session data (rev (new_objects (next_ref st) rows))) st)\<lparr>next_ref := next_ref st + length rows\<rparr>"

lemma install_packets_cases:
  obtains (failed) "install_packets u ex data rows st = reply_base data rows st"
      "\<exists>p \<in> set rows \<union> snd ` set (rfPackets (reply_base data rows st)). is_nullish p"
  | (merged) new m where "m = rev (new_objects (next_ref st) rows) @ new"
      "subseq new (filter (\<lambda>p. fst p \<notin> set ex) (rfPackets (reply_base data rows st)))"
      "mset (map (packetKey \<circ> snd) m) = mset (map packetKey rows) \<union>#
         mset (map (packetKey \<circ> snd) (filter (\<lambda>p. fst p \<notin> set ex) (rfPackets (reply_base data rows st))))"
      "install_packets u ex data rows st =
        (reply_base data rows st)\<lparr>rfPackets := last_n MAX_RAW_PACKETS (sort_by_number u packet_number m),
           snifferBadge := length (last_n MAX_RAW_PACKETS (sort_by_number u packet_number m))\<rparr>"
proof -
  let ?snap = "rev (new_objects (next_ref st) rows)"
  let ?live = "filter (\<lambda>p. fst p \<notin> set ex) (rfPackets (reply_base data rows st))"
  have ins: "install_packets u ex data rows st =
      (case mergeRecords (\<lambda>p. packetKey (snd p)) ?snap ?live of
         Inl _ \<Rightarrow> reply_base data rows st
       | Inr m \<Rightarrow> (reply_base data rows st)\<lparr>rfPackets := last_n MAX_RAW_PACKETS (sort_by_number u packet_number m),
           snifferBadge := length (last_n MAX_RAW_PACKETS (sort_by_number u packet_number m))\<rparr>)"
    by (simp only: install_packets_def reply_base_def Let_def)
  show thesis
  proof (cases "mergeRecords (\<lambda>p. packetKey (snd p)) ?snap ?live")
    case (Inl e)
    with mergeRecords_error[OF Inl] obtain r where "r \<in> set (?snap @ ?live)" "packetKey (snd r) = Inl e" by blast
    then have "is_nullish (snd r)" "snd r \<in> set rows \<union> snd ` set (rfPackets (reply_base data rows st))"
      using new_objects_value[of r "next_ref st" rows] by (auto simp: packetKey_def split: if_splits)
    then show thesis using ins Inl failed by auto
  next
    case (Inr m)
    from mergeRecords_new[OF Inr] obtain new where new: "m = ?snap @ new" "subseq new ?live"
      "mset (map (\<lambda>p. packetKey (snd p)) m) = mset (map (\<lambda>p. packetKey (snd p)) ?snap) \<union># mset (map (\<lambda>p. packetKey (snd p)) ?live)"
      by blast
    moreover have "mset (map (\<lambda>p. packetKey (snd p)) ?snap) = mset (map packetKey rows)"
    proof -
      have "map (\<lambda>p. packetKey (snd p)) (new_objects (next_ref st) rows) = map packetKey (map snd (new_objects (next_ref st) rows))"
        by simp
      also have "\<dots> = map packetKey rows" by (simp only: new_objects_values)
      finally show ?thesis by (simp only: rev_map[symmetric] mset_rev)
    qed
    ultimately show thesis using ins Inr by (intro merged[of m new]) (simp_all add: comp_def)
  qed
qed

subsection \<open>What a step does to the packets\<close>

definition same_packets :: "sniffer \<Rightarrow> sniffer \<Rightarrow> bool" where
  "same_packets st st' \<longleftrightarrow>
     rfPackets st' = rfPackets st \<and> packetSession st' = packetSession st \<and> snifferBadge st' = snifferBadge st \<and>
     packetGeneration st \<le> packetGeneration st' \<and> next_ref st \<le> next_ref st'"

lemma same_packets_refl [simp]: "same_packets st st"
  by (simp add: same_packets_def)

lemma toast_same [simp]: "same_packets s (show_toast v t st) = same_packets s st"
  by (simp add: same_packets_def show_toast_def)

lemma call_same [simp]: "same_packets s (start_call c st) = same_packets s st"
  by (simp add: same_packets_def start_call_def)

lemma logs_same:
  "same_packets st (onSystemLog e st)" "same_packets st (onLogsCleared st)" "same_packets st (fetch_logs_start st)"
  "same_packets st (clear_logs_start st)" "same_packets st (set_debug_start b st)"
  "same_packets st (fetch_packets_start st)" "same_packets st (clear_packets_start st)"
  by (simp_all add: onSystemLog_def onLogsCleared_def fetch_logs_start_def clear_logs_start_def set_debug_start_def
      fetch_packets_start_def clear_packets_start_def Let_def) (simp_all add: same_packets_def)

lemma install_logs_same: "same_packets st (install_logs u ex data rows st)"
  by (simp add: install_logs_def Let_def same_packets_def split: sum.split)

lemma fetchSystemLogs_same: "same_packets st (fetchSystemLogs u g ex r st)"
  using install_logs_same by (auto simp: fetchSystemLogs_def split: net.split option.split)

lemma clearSystemLogs_same: "same_packets st (clearSystemLogs tx r st)"
  by (simp add: clearSystemLogs_def Let_def split: net.split) (simp add: same_packets_def)

lemma setDebugMode_same: "same_packets st (setDebugMode tx l r st)"
  by (simp add: setDebugMode_def Let_def split: net.split option.split) (simp add: same_packets_def)

lemma same_packets_pending: "same_packets (st\<lparr>pending := q\<rparr>) st' = same_packets st st'"
  by (simp add: same_packets_def)

lemma fetchCapturedPackets_cases:
  obtains (same) "fetchCapturedPackets u g ex reply st = st"
  | (snapshot) res data rows where "reply = Responded res" "http_json res = Some data" "g = packetGeneration st"
      "answer_rows res data = Some rows" "fetchCapturedPackets u g ex reply st = install_packets u ex data rows st"
proof (cases "\<exists>res data rows. reply = Responded res \<and> http_json res = Some data \<and> g = packetGeneration st \<and> answer_rows res data = Some rows")
  case True
  then show thesis using snapshot by (auto simp: fetchCapturedPackets_def)
next
  case False
  then have "fetchCapturedPackets u g ex reply st = st"
    by (auto simp: fetchCapturedPackets_def split: net.split option.split)
  then show thesis by (rule same)
qed

lemma clearCapturedPackets_cases:
  obtains (same) "same_packets st (clearCapturedPackets tx ex reply st)"
  | (cleared) res where "reply = Responded res" "response_ok res"
      "rfPackets (clearCapturedPackets tx ex reply st) = filter (\<lambda>p. fst p \<notin> set ex) (rfPackets st)"
      "packetSession (clearCapturedPackets tx ex reply st) = packetSession st"
      "snifferBadge (clearCapturedPackets tx ex reply st) = length (filter (\<lambda>p. fst p \<notin> set ex) (rfPackets st))"
      "packetGeneration (clearCapturedPackets tx ex reply st) = packetGeneration st + 1"
      "next_ref (clearCapturedPackets tx ex reply st) = next_ref st"
proof (cases "\<exists>res. reply = Responded res \<and> response_ok res")
  case True
  then obtain res where "reply = Responded res" "response_ok res" by blast
  then show thesis using cleared by (simp add: clearCapturedPackets_def Let_def show_toast_def)
next
  case False
  then have "same_packets st (clearCapturedPackets tx ex reply st)"
    by (auto simp: clearCapturedPackets_def split: net.split)
  then show thesis by (rule same)
qed

lemma sniffer_step_cases:
  obtains (same) "same_packets st (sniffer_step u tx ev st)"
  | (arrival) pkt where "ev = PacketArrives pkt" "truthy pkt" "sniffer_step u tx ev st = onRfPacketReceived pkt st"
  | (snapshot) n ex res data rows where "ev = AnswerArrives n (Responded res)"
      "map_of (pending st) n = Some (FetchPackets (packetGeneration st) ex)"
      "http_json res = Some data" "answer_rows res data = Some rows"
      "sniffer_step u tx ev st = install_packets u ex data rows (st\<lparr>pending := filter (\<lambda>p. fst p \<noteq> n) (pending st)\<rparr>)"
  | (cleared) n ex res where "ev = AnswerArrives n (Responded res)" "map_of (pending st) n = Some (ClearPackets ex)" "response_ok res"
      "rfPackets (sniffer_step u tx ev st) = filter (\<lambda>p. fst p \<notin> set ex) (rfPackets st)"
      "packetSession (sniffer_step u tx ev st) = packetSession st"
      "snifferBadge (sniffer_step u tx ev st) = length (filter (\<lambda>p. fst p \<notin> set ex) (rfPackets st))"
      "packetGeneration (sniffer_step u tx ev st) = packetGeneration st + 1"
      "next_ref (sniffer_step u tx ev st) = next_ref st"
proof (cases ev)
  case (PacketArrives pkt)
  then show thesis using same arrival by (cases "truthy pkt") (simp_all add: sniffer_step_def)
next
  case (AnswerArrives n reply)
  show thesis
  proof (cases "map_of (pending st) n")
    case None
    then show thesis using AnswerArrives same by (simp add: sniffer_step_def)
  next
    case (Some c)
    let ?st = "st\<lparr>pending := filter (\<lambda>p. fst p \<noteq> n) (pending st)\<rparr>"
    have step: "sniffer_step u tx ev st = run_call u tx c reply ?st" using AnswerArrives Some by (simp add: sniffer_step_def)
    show thesis
    proof (cases c)
      case (FetchPackets g ex)
      then have "sniffer_step u tx ev st = fetchCapturedPackets u g ex reply ?st" by (simp add: step run_call_def)
      then show thesis using Some FetchPackets AnswerArrives same snapshot
        by (cases rule: fetchCapturedPackets_cases[of u g ex reply ?st]) (auto simp: same_packets_def)
    next
      case (ClearPackets ex)
      then have "sniffer_step u tx ev st = clearCapturedPackets tx ex reply ?st" by (simp add: step run_call_def)
      then show thesis using Some ClearPackets AnswerArrives same cleared
        by (cases rule: clearCapturedPackets_cases[of ?st tx ex reply]) (simp_all add: same_packets_pending)
    next
      case (FetchLogs g ex)
      then show thesis using fetchSystemLogs_same[of ?st u g ex reply] same by (simp add: step run_call_def same_packets_pending)
    next
      case ClearLogs
      then show thesis using clearSystemLogs_same[of ?st tx reply] same by (simp add: step run_call_def same_packets_pending)
    next
      case (SetDebug l)
      then show thesis using setDebugMode_same[of ?st tx l reply] same by (simp add: step run_call_def same_packets_pending)
    qed
  qed
qed (use same logs_same in \<open>simp_all add: sniffer_step_def\<close>)

subsection \<open>Bounds and identities\<close>

lemma accept_packets: "rfPackets (acceptPacketSession sid st) \<in> {rfPackets st, []}"
  by (simp add: acceptPacketSession_def Let_def)

lemma accept_same [simp]:
  "next_ref (acceptPacketSession sid st) = next_ref st" "systemLogs (acceptPacketSession sid st) = systemLogs st"
  "pending (acceptPacketSession sid st) = pending st" "next_call (acceptPacketSession sid st) = next_call st"
  "packetGeneration st \<le> packetGeneration (acceptPacketSession sid st)"
  by (simp_all add: acceptPacketSession_def Let_def)

lemma reply_base_packets: "rfPackets (reply_base data rows st) \<in> {rfPackets st, []}"
  using accept_packets by (simp add: reply_base_def)

lemma reply_base_ref [simp]: "next_ref (reply_base data rows st) = next_ref st + length rows"
  by (simp add: reply_base_def)

lemma onRf_packets:
  "set (rfPackets (onRfPacketReceived pkt st)) \<subseteq> insert (next_ref st, pkt) (set (rfPackets st)) \<and>
   (length (rfPackets st) \<le> MAX_RAW_PACKETS \<longrightarrow> length (rfPackets (onRfPacketReceived pkt st)) \<le> MAX_RAW_PACKETS) \<and>
   next_ref st \<le> next_ref (onRfPacketReceived pkt st) \<and>
   (next_ref (onRfPacketReceived pkt st) = next_ref st \<longrightarrow> set (rfPackets (onRfPacketReceived pkt st)) \<subseteq> set (rfPackets st))"
proof -
  let ?a = "acceptPacketSession (getp pkt (js ''session_id'')) st"
  have a: "rfPackets ?a = rfPackets st \<or> rfPackets ?a = []" using accept_packets[of "getp pkt (js ''session_id'')" st] by simp
  have sub: "set (push_bounded MAX_RAW_PACKETS (next_ref st, pkt) (rfPackets ?a)) \<subseteq> insert (next_ref st, pkt) (set (rfPackets ?a))"
    by (rule set_push_bounded)
  have len: "length (rfPackets ?a) \<le> MAX_RAW_PACKETS \<Longrightarrow>
      length (push_bounded MAX_RAW_PACKETS (next_ref st, pkt) (rfPackets ?a)) \<le> MAX_RAW_PACKETS"
    by (rule length_push_bounded)
  from a sub len show ?thesis by (auto simp: onRfPacketReceived_def Let_def simp del: js_simps)
qed

text \<open>Whatever happens, the buffers stay bounded and a record keeps its identity.\<close>

definition refs_ok :: "sniffer \<Rightarrow> bool" where
  "refs_ok st \<longleftrightarrow> length (rfPackets st) \<le> MAX_RAW_PACKETS \<and> (\<forall>p \<in> set (rfPackets st). fst p < next_ref st)"

text \<open>The packets after a step are packets from before it or new objects.\<close>

lemma step_refs:
  assumes perm: "\<And>xs. mset (u xs) = mset xs"
    and st': "st' = sniffer_step u tx ev st"
  shows "next_ref st \<le> next_ref st' \<and>
    (\<forall>p \<in> set (rfPackets st'). p \<in> set (rfPackets st) \<or> next_ref st \<le> fst p \<and> fst p < next_ref st') \<and>
    (length (rfPackets st) \<le> MAX_RAW_PACKETS \<longrightarrow> length (rfPackets st') \<le> MAX_RAW_PACKETS)"
proof (cases rule: sniffer_step_cases[of st u tx ev])
  case same
  then show ?thesis by (simp add: st' same_packets_def)
next
  case (arrival pkt)
  note o = onRf_packets[of pkt st]
  show ?thesis
  proof (cases "next_ref (onRfPacketReceived pkt st) = next_ref st")
    case True
    with o have "set (rfPackets (onRfPacketReceived pkt st)) \<subseteq> set (rfPackets st)" by blast
    with o True show ?thesis by (auto simp: st' arrival(3))
  next
    case False
    with o have "next_ref st < next_ref (onRfPacketReceived pkt st)" by linarith
    with o show ?thesis by (auto simp: st' arrival(3))
  qed
next
  case (cleared n ex res)
  then show ?thesis by (auto simp: st' intro: le_trans[OF length_filter_le])
next
  case (snapshot n ex res data rows)
  let ?s = "st\<lparr>pending := filter (\<lambda>p. fst p \<noteq> n) (pending st)\<rparr>"
  have base: "rfPackets (reply_base data rows ?s) = rfPackets st \<or> rfPackets (reply_base data rows ?s) = []"
    using reply_base_packets[of data rows ?s] by simp
  show ?thesis
  proof (cases rule: install_packets_cases[of u ex data rows ?s])
    case failed
    then show ?thesis using base by (auto simp: st' snapshot(5))
  next
    case (merged new m)
    have "p \<in> set (rfPackets st) \<or> next_ref st \<le> fst p \<and> fst p < next_ref st + length rows"
      if "p \<in> set (last_n MAX_RAW_PACKETS (sort_by_number u packet_number m))" for p
    proof -
      from that have "p \<in> set m" 
        unfolding sort_by_number_set[OF perm, of packet_number m, symmetric] by (rule subsetD[OF last_n_set])
      then have "p \<in> set (new_objects (next_ref st) rows) \<or> p \<in> set (rfPackets (reply_base data rows ?s))"
        using subseq_member[OF merged(2), of p] by (auto simp: merged(1))
      with base new_objects_ref[of p "next_ref st" rows] show ?thesis by auto
    qed
    moreover have "rfPackets st' = last_n MAX_RAW_PACKETS (sort_by_number u packet_number m)"
      "next_ref st' = next_ref st + length rows"
      unfolding st' snapshot(5) merged(4) by simp_all
    ultimately show ?thesis using last_n_length[of MAX_RAW_PACKETS "sort_by_number u packet_number m"] by simp
  qed
qed

lemma refs_ok_step:
  assumes "\<And>xs. mset (u xs) = mset xs" "refs_ok st"
  shows "refs_ok (sniffer_step u tx ev st)"
proof -
  note s = step_refs[OF assms(1) refl, of st tx ev]
  have "fst p < next_ref (sniffer_step u tx ev st)" if "p \<in> set (rfPackets (sniffer_step u tx ev st))" for p
    using s that assms(2) unfolding refs_ok_def by (meson order_less_le_trans)
  with s assms(2) show ?thesis by (simp add: refs_ok_def)
qed

lemma logs_step: "length (systemLogs st) \<le> MAX_SYSTEM_LOGS \<Longrightarrow> length (systemLogs (sniffer_step u tx ev st)) \<le> MAX_SYSTEM_LOGS"
proof -
  assume le: "length (systemLogs st) \<le> MAX_SYSTEM_LOGS"
  have pk: "systemLogs (onRfPacketReceived pkt s) = systemLogs s" for pkt s
    by (simp add: onRfPacketReceived_def Let_def)
  have ip: "systemLogs (install_packets u ex data rows s) = systemLogs s" for ex data rows s
    by (simp add: install_packets_def Let_def split: sum.split)
  have il: "length (systemLogs (install_logs u ex data rows s)) \<le> MAX_SYSTEM_LOGS"
    if "length (systemLogs s) \<le> MAX_SYSTEM_LOGS" for ex data rows s
    using that by (simp add: install_logs_def Let_def last_n_length split: sum.split)
  have "length (systemLogs (run_call u tx c reply s)) \<le> MAX_SYSTEM_LOGS"
    if s: "length (systemLogs s) \<le> MAX_SYSTEM_LOGS" for c reply s
  proof (cases c)
    case (FetchPackets g ex)
    then show ?thesis using s ip
      by (cases rule: fetchCapturedPackets_cases[of u g ex reply s]) (simp_all add: run_call_def)
  next
    case (ClearPackets ex)
    then show ?thesis using s by (simp add: run_call_def clearCapturedPackets_def show_toast_def Let_def split: net.split)
  next
    case (FetchLogs g ex)
    then show ?thesis using s il by (simp add: run_call_def fetchSystemLogs_def split: net.split option.split)
  next
    case ClearLogs
    then show ?thesis using s by (simp add: run_call_def clearSystemLogs_def show_toast_def Let_def split: net.split)
  next
    case (SetDebug l)
    then show ?thesis using s by (simp add: run_call_def setDebugMode_def show_toast_def Let_def split: net.split option.split)
  qed
  then show ?thesis using le length_push_bounded[OF le]
    by (simp add: sniffer_step_def pk onSystemLog_def onLogsCleared_def fetch_packets_start_def clear_packets_start_def
        fetch_logs_start_def clear_logs_start_def set_debug_start_def start_call_def Let_def split: sniffer_event.split option.split)
qed

lemma sniffer_run_induct:
  "P st \<Longrightarrow> (\<And>ev s. ev \<in> set evs \<Longrightarrow> P s \<Longrightarrow> P (sniffer_step u tx ev s)) \<Longrightarrow> P (sniffer_run u tx evs st)"
  unfolding sniffer_run_def by (rule fold_preserves)

text \<open>
  Whatever arrives in whatever order, the view never holds more than 200 packets and 300
  log records.
\<close>
theorem sniffer_buffers_bounded:
  assumes "\<And>xs. mset (u xs) = mset xs"
  shows "length (rfPackets (sniffer_run u tx evs new_sniffer)) \<le> 200 \<and>
    length (systemLogs (sniffer_run u tx evs new_sniffer)) \<le> 300"
proof -
  have "refs_ok (sniffer_run u tx evs new_sniffer) \<and> length (systemLogs (sniffer_run u tx evs new_sniffer)) \<le> MAX_SYSTEM_LOGS"
    by (rule sniffer_run_induct) (use refs_ok_step[OF assms] logs_step in \<open>auto simp: refs_ok_def new_sniffer_def\<close>)
  then show ?thesis by (simp add: refs_ok_def MAX_RAW_PACKETS_def MAX_SYSTEM_LOGS_def)
qed

theorem sniffer_buffers_bounded_witness:
  "\<forall>tx. length (rfPackets (sniffer_run rev tx [PacketArrives (Obj []), LogArrives (Obj [])] new_sniffer)) \<le> 200"
  using sniffer_buffers_bounded[of rev _ "[PacketArrives (Obj []), LogArrives (Obj [])]"] by simp

subsection \<open>Superseded requests and cleared packets\<close>

text \<open>Request \<open>n\<close> is over, or it is a fetch of the packets that can no longer be installed.\<close>

definition superseded :: "nat \<Rightarrow> sniffer \<Rightarrow> bool" where
  "superseded n st \<longleftrightarrow> n < next_call st \<and>
     (\<forall>c. map_of (pending st) n = Some c \<longrightarrow> (\<exists>g ex. c = FetchPackets g ex \<and> g < packetGeneration st))"

definition calls_ok :: "sniffer \<Rightarrow> bool" where
  "calls_ok st \<longleftrightarrow> (\<forall>n c. map_of (pending st) n = Some c \<longrightarrow> n < next_call st \<and>
     (\<forall>g ex. c = FetchPackets g ex \<longrightarrow> g \<le> packetGeneration st) \<and>
     (\<forall>ex. c = ClearPackets ex \<longrightarrow> (\<forall>r \<in> set ex. r < next_ref st)))"

text \<open>Requests only end, or start under a new number with the generation of the moment.\<close>

definition calls_grow :: "sniffer \<Rightarrow> sniffer \<Rightarrow> bool" where
  "calls_grow st st' \<longleftrightarrow> packetGeneration st \<le> packetGeneration st' \<and> next_call st \<le> next_call st' \<and>
     (\<forall>n c. map_of (pending st') n = Some c \<longrightarrow> map_of (pending st) n = Some c \<or>
        n = next_call st \<and> n < next_call st' \<and> (\<forall>g ex. c = FetchPackets g ex \<longrightarrow> g \<le> packetGeneration st') \<and>
        (\<forall>ex. c = ClearPackets ex \<longrightarrow> ex = map fst (rfPackets st)))"

lemma calls_grow_keep:
  "packetGeneration st \<le> packetGeneration st' \<Longrightarrow> next_call st' = next_call st \<Longrightarrow> pending st' = pending st \<Longrightarrow> calls_grow st st'"
  by (simp add: calls_grow_def)

lemma calls_grow_start:
  "packetGeneration st \<le> packetGeneration s \<Longrightarrow> next_call s = next_call st \<Longrightarrow> pending s = pending st \<Longrightarrow>
   (\<And>g ex. c = FetchPackets g ex \<Longrightarrow> g \<le> packetGeneration s) \<Longrightarrow>
   (\<And>ex. c = ClearPackets ex \<Longrightarrow> ex = map fst (rfPackets st)) \<Longrightarrow> calls_grow st (start_call c s)"
  by (auto simp: calls_grow_def start_call_def map_add_Some_iff split: if_splits)

lemma run_call_calls:
  "pending (run_call u tx c reply st) = pending st \<and> next_call (run_call u tx c reply st) = next_call st \<and>
   packetGeneration st \<le> packetGeneration (run_call u tx c reply st)"
proof -
  have base: "pending (reply_base data rows st) = pending st \<and> next_call (reply_base data rows st) = next_call st \<and>
      packetGeneration st \<le> packetGeneration (reply_base data rows st)" for data rows
    by (simp add: reply_base_def)
  have inst: "pending (install_packets u ex data rows st) = pending st \<and>
      next_call (install_packets u ex data rows st) = next_call st \<and>
      packetGeneration st \<le> packetGeneration (install_packets u ex data rows st)" for ex data rows
    by (cases rule: install_packets_cases[of u ex data rows st]) (simp_all add: base)
  show ?thesis
  proof (cases c)
    case (FetchPackets g ex)
    then show ?thesis using inst
      by (cases rule: fetchCapturedPackets_cases[of u g ex reply st]) (simp_all add: run_call_def)
  qed (simp_all add: run_call_def clearCapturedPackets_def fetchSystemLogs_def install_logs_def clearSystemLogs_def
      setDebugMode_def show_toast_def Let_def split: net.split option.split sum.split)
qed

lemma sniffer_step_calls: "calls_grow st (sniffer_step u tx ev st)"
proof (cases ev)
  case (PacketArrives pkt)
  have "calls_grow st (onRfPacketReceived pkt st)"
    by (rule calls_grow_keep) (simp_all add: onRfPacketReceived_def Let_def)
  then show ?thesis using PacketArrives by (simp add: sniffer_step_def calls_grow_keep)
next
  case (AnswerArrives n reply)
  show ?thesis
  proof (cases "map_of (pending st) n")
    case None
    then show ?thesis using AnswerArrives by (simp add: sniffer_step_def calls_grow_keep)
  next
    case (Some c)
    have sub: "map_of (filter (\<lambda>p. fst p \<noteq> n) xs) k = (if k = n then None else map_of xs k)" for xs :: "(nat \<times> call) list" and k
      by (induction xs) auto
    show ?thesis using AnswerArrives Some run_call_calls[of u tx c reply "st\<lparr>pending := filter (\<lambda>p. fst p \<noteq> n) (pending st)\<rparr>"]
      by (auto simp: sniffer_step_def calls_grow_def sub split: if_splits)
  qed
qed (auto simp: sniffer_step_def onSystemLog_def onLogsCleared_def fetch_packets_start_def clear_packets_start_def
      fetch_logs_start_def clear_logs_start_def set_debug_start_def Let_def intro: calls_grow_keep calls_grow_start)

lemma superseded_step:
  assumes "superseded n st"
  shows "superseded n (sniffer_step u tx ev st)"
proof -
  note g = sniffer_step_calls[of st u tx ev, unfolded calls_grow_def]
  have "\<exists>k ex. c = FetchPackets k ex \<and> k < packetGeneration (sniffer_step u tx ev st)"
    if "map_of (pending (sniffer_step u tx ev st)) n = Some c" for c
  proof -
    from g that assms have "map_of (pending st) n = Some c" by (auto simp: superseded_def)
    with assms obtain k ex where "c = FetchPackets k ex" "k < packetGeneration st" by (auto simp: superseded_def)
    moreover have "packetGeneration st \<le> packetGeneration (sniffer_step u tx ev st)" using g by blast
    ultimately show ?thesis by auto
  qed
  with g assms show ?thesis by (auto simp: superseded_def)
qed

lemma calls_ok_step:
  assumes perm: "\<And>xs. mset (u xs) = mset xs" and ok: "calls_ok st" "refs_ok st"
  shows "calls_ok (sniffer_step u tx ev st)"
proof -
  let ?s = "sniffer_step u tx ev st"
  note g = sniffer_step_calls[of st u tx ev, unfolded calls_grow_def]
  have ref: "next_ref st \<le> next_ref ?s" and gen: "packetGeneration st \<le> packetGeneration ?s" "next_call st \<le> next_call ?s"
    using step_refs[OF perm refl, of st tx ev] g by blast+
  show ?thesis
    unfolding calls_ok_def
  proof (intro allI impI)
    fix n c
    assume c: "map_of (pending ?s) n = Some c"
    then consider "map_of (pending st) n = Some c"
      | "n < next_call ?s" "\<forall>g ex. c = FetchPackets g ex \<longrightarrow> g \<le> packetGeneration ?s" "\<forall>ex. c = ClearPackets ex \<longrightarrow> ex = map fst (rfPackets st)"
      using g by blast
    then show "n < next_call ?s \<and> (\<forall>g ex. c = FetchPackets g ex \<longrightarrow> g \<le> packetGeneration ?s) \<and>
        (\<forall>ex. c = ClearPackets ex \<longrightarrow> (\<forall>r \<in> set ex. r < next_ref ?s))"
    proof cases
      case 1
      with ok(1) have "n < next_call st \<and> (\<forall>g ex. c = FetchPackets g ex \<longrightarrow> g \<le> packetGeneration st) \<and>
          (\<forall>ex. c = ClearPackets ex \<longrightarrow> (\<forall>r \<in> set ex. r < next_ref st))"
        unfolding calls_ok_def by blast
      then show ?thesis using ref gen by fastforce
    next
      case 2
      then show ?thesis using ok(2) ref by (fastforce simp: refs_ok_def)
    qed
  qed
qed

lemma superseded_answer_ignored:
  "superseded n st \<Longrightarrow> rfPackets (sniffer_step u tx (AnswerArrives n reply) st) = rfPackets st"
  by (cases rule: sniffer_step_cases[of st u tx "AnswerArrives n reply"]) (auto simp: same_packets_def superseded_def)

interpretation fetches: overtaken_calls "sniffer_step u tx" superseded "\<lambda>n ev. \<exists>reply. ev = AnswerArrives n reply" rfPackets for u tx
  by unfold_locales (auto simp: superseded_step superseded_answer_ignored)

lemma run_refs_calls:
  assumes "\<And>xs. mset (u xs) = mset xs"
  shows "refs_ok (sniffer_run u tx evs new_sniffer) \<and> calls_ok (sniffer_run u tx evs new_sniffer)"
  by (rule sniffer_run_induct)
    (use refs_ok_step[OF assms] calls_ok_step[OF assms] in \<open>auto simp: refs_ok_def calls_ok_def new_sniffer_def\<close>)

text \<open>
  Clearing the captured packets is final. After the bridge has confirmed the deletion, none
  of the packets that were on screen when it was requested is ever shown again, and the answer
  of every snapshot request that was under way at that moment, whenever it arrives, changes
  nothing; frames received while the deletion was under way stay.
\<close>
theorem cleared_packets_stay_cleared:
  assumes perm: "\<And>xs. mset (u xs) = mset xs"
    and st: "st = sniffer_run u tx evs new_sniffer"
    and clear: "map_of (pending st) c = Some (ClearPackets old)" "response_ok res"
    and st1: "st1 = sniffer_step u tx (AnswerArrives c (Responded res)) st"
    and st2: "st2 = sniffer_run u tx later st1"
  shows "rfPackets st1 = filter (\<lambda>p. fst p \<notin> set old) (rfPackets st) \<and>
    (\<forall>p \<in> set (rfPackets st2). fst p \<notin> set old) \<and>
    (\<forall>n g ex reply. map_of (pending st) n = Some (FetchPackets g ex) \<longrightarrow>
       rfPackets (sniffer_step u tx (AnswerArrives n reply) st2) = rfPackets st2)"
proof -
  have ok: "refs_ok st" "calls_ok st" using run_refs_calls[OF perm] by (simp_all add: st)
  have eff: "rfPackets st1 = filter (\<lambda>p. fst p \<notin> set old) (rfPackets st)" "packetGeneration st1 = packetGeneration st + 1"
    "next_ref st1 = next_ref st"
    using clear by (simp_all add: st1 sniffer_step_def run_call_def clearCapturedPackets_def show_toast_def Let_def)
  have old: "\<forall>r \<in> set old. r < next_ref st1" using ok(2) clear eff(3) by (auto simp: calls_ok_def)
  let ?P = "\<lambda>s :: sniffer. next_ref st1 \<le> next_ref s \<and> (\<forall>p \<in> set (rfPackets s). fst p \<notin> set old)"
  have "?P st2"
    unfolding st2
  proof (rule sniffer_run_induct)
    show "?P st1" using eff(1) by simp
    fix ev and s :: sniffer assume "?P s"
    then show "?P (sniffer_step u tx ev s)" using step_refs[OF perm refl, of s tx ev] old by fastforce
  qed
  moreover have "rfPackets (sniffer_step u tx (AnswerArrives n reply) st2) = rfPackets st2"
    if n: "map_of (pending st) n = Some (FetchPackets g ex)" for n g ex reply
  proof -
    have "superseded n st1"
      using n ok(2) eff(2) sniffer_step_calls[of st u tx "AnswerArrives c (Responded res)"]
      by (auto simp: superseded_def calls_ok_def calls_grow_def st1[symmetric] le_imp_less_Suc) force+
    then show ?thesis
      unfolding st2 sniffer_run_def by (rule fetches.dropped_for_ever) blast
  qed
  ultimately show ?thesis using eff(1) by blast
qed

theorem cleared_packets_stay_cleared_witness:
  "\<forall>tx later. 0 \<notin> fst ` set (rfPackets (sniffer_run rev tx later (sniffer_step rev tx
      (AnswerArrives 1 (Responded \<lparr>http_status = 200, http_statusText = [], http_contentType = None, http_json = None, http_text = []\<rparr>))
      (sniffer_run rev tx [PacketArrives (Obj []), RefreshPackets, ClearPacketsClicked] new_sniffer))))"
proof (intro allI)
  fix tx later
  let ?st = "sniffer_run rev tx [PacketArrives (Obj []), RefreshPackets, ClearPacketsClicked] new_sniffer"
  have "map_of (pending ?st) 1 = Some (ClearPackets [0])"
    by (simp add: sniffer_run_def sniffer_step_def onRfPacketReceived_def acceptPacketSession_def getp_def new_sniffer_def
        push_bounded_def MAX_RAW_PACKETS_def fetch_packets_start_def clear_packets_start_def start_call_def Let_def)
  moreover have "response_ok \<lparr>http_status = 200, http_statusText = [], http_contentType = None, http_json = None, http_text = []\<rparr>"
    by (simp add: response_ok_def)
  ultimately have "\<forall>p \<in> set (rfPackets (sniffer_run rev tx later (sniffer_step rev tx
      (AnswerArrives 1 (Responded \<lparr>http_status = 200, http_statusText = [], http_contentType = None, http_json = None, http_text = []\<rparr>)) ?st))).
      fst p \<notin> set [0]"
    using cleared_packets_stay_cleared[OF mset_rev refl _ _ refl refl] by blast
  then show "0 \<notin> fst ` set (rfPackets (sniffer_run rev tx later (sniffer_step rev tx
      (AnswerArrives 1 (Responded \<lparr>http_status = 200, http_statusText = [], http_contentType = None, http_json = None, http_text = []\<rparr>)) ?st)))"
    by auto
qed

subsection \<open>One session, no duplicates\<close>

definition of_session :: "jsval \<Rightarrow> jsval \<Rightarrow> bool" where
  "of_session sid pkt \<longleftrightarrow> (truthy (getp pkt (js ''session_id'')) \<longrightarrow> getp pkt (js ''session_id'') = sid)"

text \<open>
  What the bridge promises of a snapshot: its packets are objects with different keys, of the
  session the answer names.
\<close>

definition snapshot_ok :: "jsval \<Rightarrow> jsval list \<Rightarrow> bool" where
  "snapshot_ok data rows \<longleftrightarrow>
     list_all (\<lambda>p. \<not> is_nullish p) rows \<and> distinct (map packetKey rows) \<and>
     list_all (of_session (reply_session data (rev (new_objects 0 rows)))) rows"

definition event_ok :: "sniffer_event \<Rightarrow> bool" where
  "event_ok ev =
     (case ev of
        AnswerArrives n (Responded res) \<Rightarrow>
          (case http_json res of
             Some data \<Rightarrow> (case answer_rows res data of Some rows \<Rightarrow> snapshot_ok data rows | None \<Rightarrow> True)
           | None \<Rightarrow> True)
      | _ \<Rightarrow> True)"

definition consistent :: "sniffer \<Rightarrow> bool" where
  "consistent st \<longleftrightarrow>
     distinct (map (packetKey \<circ> snd) (rfPackets st)) \<and> snifferBadge st = length (rfPackets st) \<and>
     (\<forall>p \<in> set (rfPackets st). of_session (packetSession st) (snd p) \<and> \<not> is_nullish (snd p))"

lemma reply_session_ref: "reply_session data (rev (new_objects n rows)) = reply_session data (rev (new_objects m rows))"
proof -
  have "map snd (rev (new_objects n rows)) = map snd (rev (new_objects m rows))"
    by (simp only: rev_map[symmetric] new_objects_values)
  moreover have "reply_session data s = reply_session data t" if "map snd s = map snd t" for s t
    using that by (cases s; cases t) (auto simp: reply_session_def)
  ultimately show ?thesis by blast
qed

lemma accept_sessions:
  assumes "\<forall>p \<in> set (rfPackets st). of_session (packetSession st) (snd p)"
  shows "(\<forall>p \<in> set (rfPackets (acceptPacketSession sid st)). of_session (packetSession (acceptPacketSession sid st)) (snd p)) \<and>
    (truthy sid \<longrightarrow> packetSession (acceptPacketSession sid st) = sid)"
  using assms by (auto simp: acceptPacketSession_def Let_def of_session_def simp del: js_simps)

lemma accept_consistent_packets:
  "distinct (map (packetKey \<circ> snd) (rfPackets st)) \<Longrightarrow> distinct (map (packetKey \<circ> snd) (rfPackets (acceptPacketSession sid st)))"
  using accept_packets[of sid st] by auto

lemma onRf_consistent:
  assumes st: "consistent st" and pkt: "truthy pkt"
  shows "consistent (onRfPacketReceived pkt st)"
proof -
  let ?sid = "getp pkt (js ''session_id'')"
  let ?a = "acceptPacketSession ?sid st"
  have s: "\<forall>p \<in> set (rfPackets ?a). of_session (packetSession ?a) (snd p)" "truthy ?sid \<longrightarrow> packetSession ?a = ?sid"
    using accept_sessions[of st ?sid] st by (auto simp: consistent_def)
  have d: "distinct (map (packetKey \<circ> snd) (rfPackets ?a))"
    using st by (intro accept_consistent_packets) (simp add: consistent_def)
  have n: "\<forall>p \<in> set (rfPackets ?a). \<not> is_nullish (snd p)"
    using accept_packets[of ?sid st] st by (auto simp: consistent_def)
  show ?thesis
  proof (cases "list_ex (\<lambda>r. packetKey (snd r) = packetKey pkt) (rfPackets ?a)")
    case True
    then have "rfPackets ?a = rfPackets st" using accept_packets[of ?sid st] by auto
    moreover have "snifferBadge ?a = snifferBadge st" by (simp add: acceptPacketSession_def Let_def)
    ultimately show ?thesis using True st s d n by (simp add: onRfPacketReceived_def consistent_def Let_def del: js_simps)
  next
    case False
    let ?ps = "push_bounded MAX_RAW_PACKETS (next_ref st, pkt) (rfPackets ?a)"
    have res: "onRfPacketReceived pkt st = ?a\<lparr>rfPackets := ?ps, next_ref := next_ref st + 1, snifferBadge := length ?ps\<rparr>"
      using False by (simp add: onRfPacketReceived_def Let_def del: js_simps)
    have "map (packetKey \<circ> snd) ?ps = push_bounded MAX_RAW_PACKETS (packetKey pkt) (map (packetKey \<circ> snd) (rfPackets ?a))"
      by (simp add: push_bounded_def Let_def map_tl)
    moreover have "packetKey pkt \<notin> set (map (packetKey \<circ> snd) (rfPackets ?a))" using False by (auto simp: list_ex_iff)
    ultimately have dist: "distinct (map (packetKey \<circ> snd) ?ps)" using d by (simp add: distinct_push_bounded)
    have "of_session (packetSession ?a) pkt" using s(2) by (simp add: of_session_def del: js_simps)
    moreover have "\<not> is_nullish pkt" using pkt by (auto simp: is_nullish_def)
    ultimately have "\<forall>p \<in> set ?ps. of_session (packetSession ?a) (snd p) \<and> \<not> is_nullish (snd p)"
      using s(1) n set_push_bounded[of MAX_RAW_PACKETS "(next_ref st, pkt)" "rfPackets ?a"] by auto
    with dist show ?thesis by (simp add: consistent_def res)
  qed
qed

lemma reply_base_sessions:
  assumes "\<forall>p \<in> set (rfPackets st). of_session (packetSession st) (snd p) \<and> \<not> is_nullish (snd p)"
  shows "\<forall>p \<in> set (rfPackets (reply_base data rows st)). of_session (packetSession (reply_base data rows st)) (snd p) \<and> \<not> is_nullish (snd p)"
    "truthy (reply_session data (rev (new_objects 0 rows))) \<longrightarrow>
       packetSession (reply_base data rows st) = reply_session data (rev (new_objects 0 rows))"
proof -
  let ?sid = "reply_session data (rev (new_objects (next_ref st) rows))"
  have a: "\<forall>p \<in> set (rfPackets st). of_session (packetSession st) (snd p)" using assms by blast
  note s = accept_sessions[OF a, of ?sid]
  have "\<forall>p \<in> set (rfPackets (acceptPacketSession ?sid st)). \<not> is_nullish (snd p)"
    using accept_packets[of ?sid st] assms by auto
  with s show "\<forall>p \<in> set (rfPackets (reply_base data rows st)). of_session (packetSession (reply_base data rows st)) (snd p) \<and> \<not> is_nullish (snd p)"
    by (simp add: reply_base_def)
  show "truthy (reply_session data (rev (new_objects 0 rows))) \<longrightarrow>
       packetSession (reply_base data rows st) = reply_session data (rev (new_objects 0 rows))"
    using s unfolding reply_session_ref[of data "next_ref st" rows 0] by (simp add: reply_base_def reply_session_ref[of data "next_ref st" rows 0])
qed

lemma distinct_union_max:
  assumes "distinct xs" "distinct ys" "mset zs = mset xs \<union># mset ys"
  shows "distinct zs"
  unfolding distinct_count_atmost_1
proof
  fix a
  have "count (mset xs) a \<le> 1" "count (mset ys) a \<le> 1"
    using assms(1,2) by (auto simp: distinct_count_atmost_1)
  then have "count (mset zs) a \<le> 1" unfolding assms(3) by simp
  moreover have "count (mset zs) a = 0 \<longleftrightarrow> a \<notin> set zs" by (rule count_mset_0_iff)
  ultimately show "count (mset zs) a = (if a \<in> set zs then 1 else 0)" by presburger
qed

lemma install_consistent:
  assumes perm: "\<And>xs. mset (u xs) = mset xs" and st: "consistent st" and rows: "snapshot_ok data rows"
  shows "consistent (install_packets u ex data rows st)"
proof -
  let ?b = "reply_base data rows st"
  have s: "\<forall>p \<in> set (rfPackets ?b). of_session (packetSession ?b) (snd p) \<and> \<not> is_nullish (snd p)"
    "truthy (reply_session data (rev (new_objects 0 rows))) \<longrightarrow> packetSession ?b = reply_session data (rev (new_objects 0 rows))"
    using reply_base_sessions[of st data rows] st by (simp_all add: consistent_def)
  have d: "distinct (map (packetKey \<circ> snd) (rfPackets ?b))"
    using accept_consistent_packets st by (simp add: reply_base_def consistent_def)
  show ?thesis
  proof (cases rule: install_packets_cases[of u ex data rows st])
    case failed
    then obtain p where "p \<in> set rows \<union> snd ` set (rfPackets ?b)" "is_nullish p" by blast
    then show ?thesis using s(1) rows by (auto simp: snapshot_ok_def list_all_iff)
  next
    case (merged new m)
    let ?ps = "last_n MAX_RAW_PACKETS (sort_by_number u packet_number m)"
    have "distinct (map (packetKey \<circ> snd) m)"
    proof (rule distinct_union_max[OF _ _ merged(3)])
      show "distinct (map packetKey rows)" using rows by (simp add: snapshot_ok_def)
      show "distinct (map (packetKey \<circ> snd) (filter (\<lambda>p. fst p \<notin> set ex) (rfPackets ?b)))"
        using d by (rule distinct_map_filter)
    qed
    moreover have "mset (map (packetKey \<circ> snd) (sort_by_number u packet_number m)) = mset (map (packetKey \<circ> snd) m)"
      using sort_by_number_mset[OF perm, of packet_number m] by (metis mset_map)
    ultimately have dist: "distinct (map (packetKey \<circ> snd) ?ps)"
      by (intro last_n_distinct) (metis mset_eq_imp_distinct_iff)
    have "of_session (packetSession ?b) (snd p) \<and> \<not> is_nullish (snd p)" if "p \<in> set ?ps" for p
    proof -
      from that have "p \<in> set m"
        unfolding sort_by_number_set[OF perm, of packet_number m, symmetric] by (rule subsetD[OF last_n_set])
      then consider "snd p \<in> set rows" | "p \<in> set (rfPackets ?b)"
        using subseq_member[OF merged(2), of p] new_objects_value[of p "next_ref st" rows] by (auto simp: merged(1))
      then show ?thesis
      proof cases
        case 1
        then have "of_session (reply_session data (rev (new_objects 0 rows))) (snd p)" "\<not> is_nullish (snd p)"
          using rows by (auto simp: snapshot_ok_def list_all_iff)
        then show ?thesis using s(2) by (auto simp: of_session_def)
      qed (use s(1) in blast)
    qed
    with dist show ?thesis unfolding merged(4) by (simp add: consistent_def)
  qed
qed

lemma consistent_step:
  assumes perm: "\<And>xs. mset (u xs) = mset xs" and st: "consistent st" and ev: "event_ok ev"
  shows "consistent (sniffer_step u tx ev st)"
proof (cases rule: sniffer_step_cases[of st u tx ev])
  case same
  then show ?thesis using st by (simp add: consistent_def same_packets_def)
next
  case (arrival pkt)
  then show ?thesis using onRf_consistent[OF st] by simp
next
  case (snapshot n ex res data rows)
  have "consistent (st\<lparr>pending := filter (\<lambda>p. fst p \<noteq> n) (pending st)\<rparr>)" using st by (simp add: consistent_def)
  moreover have "snapshot_ok data rows" using ev snapshot(1,3,4) by (simp add: event_ok_def)
  ultimately show ?thesis unfolding snapshot(5) by (rule install_consistent[OF perm])
next
  case (cleared n ex res)
  then show ?thesis using st by (auto simp: consistent_def distinct_map_filter)
qed



end
