(* ===== verification/HexDump.thy ===== *)
theory HexDump
  imports JsValue
begin

section \<open>The packet inspector's hex dump (modules/sniffer.js)\<close>

text \<open>
  \<open>generateHexDump\<close>: the bytes of a captured frame, from its byte array when the packet has one
  and otherwise from its hexadecimal text, printed sixteen to a line between their offset and
  their printable characters.
\<close>

fun hex_pairs :: "jstr \<Rightarrow> nat list" where
  "hex_pairs [] = []"
| "hex_pairs [c] = [hex_val c]"
| "hex_pairs (c # d # s) = (16 * hex_val c + hex_val d) # hex_pairs s"

definition dump_bytes :: "jsval \<Rightarrow> nat list option \<Rightarrow> nat list" where
  "dump_bytes rawHex rawBytes =
     (case rawBytes of
        Some bs \<Rightarrow> bs
      | None \<Rightarrow> (case rawHex of Str s \<Rightarrow> hex_pairs (filter is_hex s) | _ \<Rightarrow> []))"

definition hex_padded :: "nat \<Rightarrow> nat \<Rightarrow> jstr" where
  "hex_padded w n = padStart w 0x30 (nat_digits 16 n)"

definition hex_cell :: "nat list \<Rightarrow> nat \<Rightarrow> jstr" where
  "hex_cell chunk j = (if j < length chunk then hex_padded 2 (chunk ! j) @ [0x20] else [0x20, 0x20, 0x20])"

definition ascii_cell :: "nat list \<Rightarrow> nat \<Rightarrow> jchar" where
  "ascii_cell chunk j =
     (if j < length chunk then (if 32 \<le> chunk ! j \<and> chunk ! j \<le> 126 then of_nat (chunk ! j) else 0x2E) else 0x20)"

definition hex_line :: "nat \<Rightarrow> nat list \<Rightarrow> jstr" where
  "hex_line i chunk =
     hex_padded 8 i @ [0x20, 0x20] @ padEnd 24 0x20 (concat (map (hex_cell chunk) [0..<8])) @ [0x20] @
     padEnd 24 0x20 (concat (map (hex_cell chunk) [8..<16])) @ [0x20, 0x7C] @ map (ascii_cell chunk) [0..<16] @ [0x7C]"

function hex_lines :: "nat \<Rightarrow> nat list \<Rightarrow> jstr list" where
  "hex_lines i bytes = (if bytes = [] then [] else hex_line i (take 16 bytes) # hex_lines (i + 16) (drop 16 bytes))"
  by pat_completeness auto
termination by (relation "measure (length \<circ> snd)") auto

declare hex_lines.simps [simp del]

definition empty_dump :: jstr where
  "empty_dump = replicate 8 0x30 @ replicate 51 0x20 @ [0x7C] @ replicate 16 0x20 @ [0x7C]"

definition generateHexDump :: "jsval \<Rightarrow> nat list option \<Rightarrow> jstr" where
  "generateHexDump rawHex rawBytes =
     (let bytes = dump_bytes rawHex rawBytes
      in if bytes = [] then empty_dump else join [0x0A] (hex_lines 0 bytes))"

subsection \<open>Reading a dump back\<close>

text \<open>
  The reader of such a dump: the line without its offset, its two columns of hexadecimal
  digits, two digits to a byte.
\<close>

definition read_line :: "jstr \<Rightarrow> nat list" where
  "read_line l = hex_pairs (filter is_hex (take 51 (dropWhile (\<lambda>c. c \<noteq> 0x20) l)))"

definition read_dump :: "jstr \<Rightarrow> nat list" where
  "read_dump s = concat (map read_line (split_on 0x0A s))"

lemma hex_val_less: "is_hex c \<Longrightarrow> hex_val c < 16"
  by (auto simp: is_hex_def is_digit_def hex_val_def word_le_nat_alt word_less_nat_alt)

lemma hex_pairs_byte: "\<forall>c \<in> set s. is_hex c \<Longrightarrow> b \<in> set (hex_pairs s) \<Longrightarrow> b < 256"
proof (induction s rule: hex_pairs.induct)
  case (2 c)
  then show ?case using hex_val_less[of c] by simp
next
  case (3 c d s)
  then show ?case using hex_val_less[of c] hex_val_less[of d] by auto
qed simp

lemma digit16: "d < 16 \<Longrightarrow> is_hex (digit_unit d) \<and> hex_val (digit_unit d) = d \<and> digit_unit d \<noteq> 0x0A \<and> digit_unit d \<noteq> 0x20"
proof -
  have "list_all (\<lambda>d. is_hex (digit_unit d) \<and> hex_val (digit_unit d) = d \<and> digit_unit d \<noteq> 0x0A \<and> digit_unit d \<noteq> 0x20) [0..<16]"
    by (simp add: upt_rec is_hex_def is_digit_def hex_val_def digit_unit_def)
  then show "d < 16 \<Longrightarrow> ?thesis" by (simp add: list_all_iff)
qed

lemma nat_digits16: "\<forall>c \<in> set (nat_digits 16 n). is_hex c \<and> c \<noteq> 0x0A \<and> c \<noteq> 0x20"
proof (induction n rule: less_induct)
  case (less n)
  show ?case
  proof (cases "n < 16")
    case True
    then show ?thesis using digit16[of n] by (subst nat_digits.simps) simp
  next
    case False
    then have "\<forall>c \<in> set (nat_digits 16 (n div 16)). is_hex c \<and> c \<noteq> 0x0A \<and> c \<noteq> 0x20" by (intro less) simp
    with False show ?thesis using digit16[of "n mod 16"] by (subst nat_digits.simps) auto
  qed
qed

lemma hex_padded_units: "c \<in> set (hex_padded w n) \<Longrightarrow> is_hex c \<and> c \<noteq> 0x0A \<and> c \<noteq> 0x20"
  using nat_digits16 by (auto simp: hex_padded_def padStart_def is_hex_def is_digit_def)

lemma hex_padded_byte: "b < 256 \<Longrightarrow> hex_padded 2 b = [digit_unit (b div 16), digit_unit (b mod 16)]"
  by (subst hex_padded_def, subst nat_digits.simps)
    (auto simp: padStart_def nat_digits.simps digit_unit_def)

lemma hex_cell_length: "\<forall>b \<in> set chunk. b < 256 \<Longrightarrow> length (hex_cell chunk j) = 3"
  by (simp add: hex_cell_def hex_padded_byte)

lemma hex_cells_length:
  "\<forall>b \<in> set chunk. b < 256 \<Longrightarrow> length (concat (map (hex_cell chunk) ks)) = 3 * length ks"
  by (induction ks) (simp_all add: hex_cell_length)

lemma space_not_hex [simp]: "\<not> is_hex 0x20" "\<not> is_hex 0x0A"
  by (simp_all add: is_hex_def is_digit_def)

lemma hex_cells_filter:
  "\<forall>b \<in> set chunk. b < 256 \<Longrightarrow> m \<le> n \<Longrightarrow>
   filter is_hex (concat (map (hex_cell chunk) [m..<n])) =
     concat (map (\<lambda>b. [digit_unit (b div 16), digit_unit (b mod 16)]) (drop m (take n chunk)))"
proof (induction "n - m" arbitrary: m)
  case (Suc k)
  then have m: "m < n" by simp
  have IH: "filter is_hex (concat (map (hex_cell chunk) [Suc m..<n])) =
     concat (map (\<lambda>b. [digit_unit (b div 16), digit_unit (b mod 16)]) (drop (Suc m) (take n chunk)))"
    using Suc m by (intro Suc.hyps) auto
  have up: "[m..<n] = m # [Suc m..<n]" using m by (rule upt_conv_Cons)
  show ?case
  proof (cases "m < length chunk")
    case True
    then have d: "drop m (take n chunk) = chunk ! m # drop (Suc m) (take n chunk)"
      using m by (simp add: Cons_nth_drop_Suc[symmetric])
    have b: "chunk ! m < 256" using Suc.prems True by simp
    have "filter is_hex (hex_cell chunk m) = [digit_unit (chunk ! m div 16), digit_unit (chunk ! m mod 16)]"
      using b True by (simp add: hex_cell_def hex_padded_byte digit16)
    then show ?thesis by (simp add: up IH d)
  next
    case False
    then show ?thesis by (simp add: up IH hex_cell_def)
  qed
qed simp

lemma hex_pairs_digits:
  "\<forall>b \<in> set bs. b < 256 \<Longrightarrow> hex_pairs (concat (map (\<lambda>b. [digit_unit (b div 16), digit_unit (b mod 16)]) bs)) = bs"
  by (induction bs) (auto simp: digit16)

lemma hex_line_shape:
  assumes "\<forall>b \<in> set chunk. b < 256"
  shows "hex_line i chunk = hex_padded 8 i @ ([0x20, 0x20] @ concat (map (hex_cell chunk) [0..<8]) @ [0x20] @
           concat (map (hex_cell chunk) [8..<16])) @ [0x20, 0x7C] @ map (ascii_cell chunk) [0..<16] @ [0x7C]"
  using hex_cells_length[OF assms] by (simp add: hex_line_def padEnd_def hex_cell_length[OF assms])

lemma read_hex_line:
  assumes b: "\<forall>b \<in> set chunk. b < 256" and len: "length chunk \<le> 16"
  shows "read_line (hex_line i chunk) = chunk"
proof -
  let ?l = "concat (map (hex_cell chunk) [0..<8])" and ?r = "concat (map (hex_cell chunk) [8..<16])"
  have "dropWhile (\<lambda>c. c \<noteq> 0x20) (hex_line i chunk) = ([0x20, 0x20] @ ?l @ [0x20] @ ?r) @ [0x20, 0x7C] @ map (ascii_cell chunk) [0..<16] @ [0x7C]"
    unfolding hex_line_shape[OF b] using hex_padded_units[of _ 8 i] by (subst dropWhile_append2) auto
  moreover have "length ([0x20, 0x20] @ ?l @ [0x20] @ ?r) = 51"
    using hex_cells_length[OF b] by (simp add: hex_cell_length[OF b])
  ultimately have "take 51 (dropWhile (\<lambda>c. c \<noteq> 0x20) (hex_line i chunk)) = [0x20, 0x20] @ ?l @ [0x20] @ ?r"
    by (metis append_eq_conv_conj)
  then have "read_line (hex_line i chunk) = hex_pairs (filter is_hex ?l @ filter is_hex ?r)"
    by (simp add: read_line_def)
  also have "filter is_hex ?l @ filter is_hex ?r =
      concat (map (\<lambda>b. [digit_unit (b div 16), digit_unit (b mod 16)]) (take 8 chunk @ drop 8 (take 16 chunk)))"
    using hex_cells_filter[OF b, of 0 8] hex_cells_filter[OF b, of 8 16] by simp
  also have "take 8 chunk @ drop 8 (take 16 chunk) = chunk"
    using len by (metis append_take_drop_id take_all)
  finally show ?thesis using hex_pairs_digits[OF b] by simp
qed

lemma hex_line_no_newline: "\<forall>b \<in> set chunk. b < 256 \<Longrightarrow> 0x0A \<notin> set (hex_line i chunk)"
proof -
  assume b: "\<forall>b \<in> set chunk. b < 256"
  have "0x0A \<notin> set (hex_padded w n)" for w n using hex_padded_units by blast
  moreover then have "0x0A \<notin> set (hex_cell chunk j)" for j by (auto simp: hex_cell_def)
  moreover have "ascii_cell chunk j \<noteq> 0x0A" for j
    by (auto simp: ascii_cell_def word_unat_eq_iff unat_of_nat)
  ultimately show ?thesis unfolding hex_line_shape[OF b] by (auto simp: in_set_conv_nth)
qed

lemma hex_line_length:
  assumes "\<forall>b \<in> set chunk. b < 256" "length (hex_padded 8 i) = 8"
  shows "length (hex_line i chunk) = 78"
  unfolding hex_line_shape[OF assms(1)]
  using hex_cells_length[OF assms(1)] assms(2) by (simp add: hex_cell_length[OF assms(1)])

lemma nat_digits16_length: "n < 16 ^ k \<Longrightarrow> 0 < k \<Longrightarrow> length (nat_digits 16 n) \<le> k"
proof (induction k arbitrary: n)
  case (Suc k)
  show ?case
  proof (cases "n < 16")
    case True
    then show ?thesis by (simp add: nat_digits.simps)
  next
    case False
    with Suc.prems have "0 < k" by (cases k) auto
    moreover have "n div 16 < 16 ^ k" using Suc.prems by (simp add: less_mult_imp_div_less mult.commute)
    ultimately have "length (nat_digits 16 (n div 16)) \<le> k" by (rule Suc.IH[rotated])
    then show ?thesis using False by (subst nat_digits.simps) simp
  qed
qed simp

lemma hex_lines_read:
  "\<forall>b \<in> set bs. b < 256 \<Longrightarrow> concat (map read_line (hex_lines i bs)) = bs"
proof (induction i bs rule: hex_lines.induct)
  case (1 i bs)
  show ?case
  proof (cases "bs = []")
    case False
    have "read_line (hex_line i (take 16 bs)) = take 16 bs"
      using 1(2) by (intro read_hex_line) (auto dest: in_set_takeD)
    moreover have "concat (map read_line (hex_lines (i + 16) (drop 16 bs))) = drop 16 bs"
      using False 1 by (auto dest: in_set_dropD)
    ultimately show ?thesis using False by (subst hex_lines.simps) simp
  qed (simp add: hex_lines.simps)
qed

lemma hex_lines_shape:
  "\<forall>b \<in> set bs. b < 256 \<Longrightarrow> i + length bs \<le> 16 ^ 8 \<Longrightarrow>
   \<forall>l \<in> set (hex_lines i bs). length l = 78 \<and> 0x0A \<notin> set l"
proof (induction i bs rule: hex_lines.induct)
  case (1 i bs)
  show ?case
  proof (cases "bs = []")
    case False
    have c: "\<forall>b \<in> set (take 16 bs). b < 256" using 1(2) by (auto dest: in_set_takeD)
    have "i < 16 ^ 8" using False 1(3) by (cases bs) auto
    then have "length (hex_padded 8 i) = 8" using nat_digits16_length[of i 8] by (simp add: hex_padded_def)
    note l = hex_line_length[OF c this] hex_line_no_newline[OF c]
    have "\<forall>l \<in> set (hex_lines (i + 16) (drop 16 bs)). length l = 78 \<and> 0x0A \<notin> set l"
    proof (cases "length bs \<le> 16")
      case True
      then show ?thesis by (simp add: hex_lines.simps)
    next
      case long: False
      then show ?thesis using False 1 by (auto dest: in_set_dropD)
    qed
    with l show ?thesis using False by (subst hex_lines.simps) simp
  qed (simp add: hex_lines.simps)
qed

lemma hex_lines_nonempty: "hex_lines i bs = [] \<longleftrightarrow> bs = []"
  by (simp add: hex_lines.simps)

lemma dump_bytes_hex: "b \<in> set (dump_bytes h None) \<Longrightarrow> b < 256"
  using hex_pairs_byte[of "filter is_hex s" for s] by (auto simp: dump_bytes_def split: jsval.splits)

lemma dump_bytes_less:
  "\<forall>b \<in> set (case rawBytes of Some bs \<Rightarrow> bs | None \<Rightarrow> []). b < 256 \<Longrightarrow> \<forall>b \<in> set (dump_bytes rawHex rawBytes). b < 256"
  using dump_bytes_hex by (cases rawBytes) (auto simp: dump_bytes_def)

lemma empty_dump_read: "read_dump empty_dump = []"
  by (simp add: empty_dump_def read_dump_def read_line_def split_on_no_sep dropWhile_append)

text \<open>
  The dump loses nothing: reading its hexadecimal columns back gives the bytes of the frame,
  and every line of it is 78 characters wide; the placeholder for no bytes is one short of that.
\<close>
theorem hex_dump_roundtrip:
  assumes "\<forall>b \<in> set (case rawBytes of Some bs \<Rightarrow> bs | None \<Rightarrow> []). b < 256"
    and "length (dump_bytes rawHex rawBytes) \<le> 16 ^ 8"
  shows "read_dump (generateHexDump rawHex rawBytes) = dump_bytes rawHex rawBytes \<and>
    (\<forall>l \<in> set (split_on 0x0A (generateHexDump rawHex rawBytes)).
       length l = (if dump_bytes rawHex rawBytes = [] then 77 else 78))"
proof (cases "dump_bytes rawHex rawBytes = []")
  case True
  then show ?thesis by (simp add: generateHexDump_def empty_dump_read) (simp add: empty_dump_def split_on_no_sep)
next
  case False
  let ?bs = "dump_bytes rawHex rawBytes"
  note b = dump_bytes_less[OF assms(1)]
  have shape: "\<forall>l \<in> set (hex_lines 0 ?bs). length l = 78 \<and> 0x0A \<notin> set l"
    using b assms(2) by (intro hex_lines_shape) simp_all
  then have "split_on 0x0A (join [0x0A] (hex_lines 0 ?bs)) = hex_lines 0 ?bs"
    using False by (intro split_join) (auto simp: hex_lines_nonempty)
  with shape hex_lines_read[OF b] False show ?thesis
    by (simp add: generateHexDump_def read_dump_def)
qed

theorem hex_dump_roundtrip_witness:
  "read_dump (generateHexDump (Str (js ''48:65 6C6C6f'')) None) = [0x48, 0x65, 0x6C, 0x6C, 0x6F]"
proof -
  have "dump_bytes (Str (js ''48:65 6C6C6f'')) None = [0x48, 0x65, 0x6C, 0x6C, 0x6F]"
    by (simp add: dump_bytes_def is_hex_def is_digit_def hex_val_def)
  then show ?thesis using hex_dump_roundtrip[of None "Str (js ''48:65 6C6C6f'')"] by simp
qed

end
