(* ===== verification/SnifferView.thy ===== *)
theory SnifferView
  imports Sniffer MessageText HexDump
begin

section \<open>What the sniffer shows (modules/sniffer.js)\<close>

text \<open>
  The filters of the packet table and of the log, and the HTML their rows are made of. A row is
  written as a template of literal pieces and values put through \<open>escapeHtml\<close>; the clock of
  a record without an ISO time and the translated labels are arguments.
\<close>

subsection \<open>Filtering packets without the worker\<close>

record packet_filters =
  dirFilter :: jstr
  typeFilter :: jstr
  searchQuery :: jstr

definition read_filters :: "jsval \<Rightarrow> jsval \<Rightarrow> jsval \<Rightarrow> packet_filters js_result" where
  "read_filters dir type search =
     bindE (lower_trim dir) (\<lambda>d. bindE (upper_trim type) (\<lambda>t. bindE (lower_trim search) (\<lambda>q.
       Inr \<lparr>dirFilter = d, typeFilter = t, searchQuery = q\<rparr>)))"

definition filters_message :: "packet_filters \<Rightarrow> jsval" where
  "filters_message f =
     Obj [(js ''dirFilter'', Str (dirFilter f)), (js ''typeFilter'', Str (typeFilter f)), (js ''searchQuery'', Str (searchQuery f))]"

definition fallback_matches :: "packet_filters \<Rightarrow> jsval \<Rightarrow> bool js_result" where
  "fallback_matches f pkt =
     (if is_nullish pkt \<and> (dirFilter f \<noteq> [] \<or> typeFilter f \<noteq> [] \<or> searchQuery f \<noteq> []) then Inl TypeError
      else
        bindE (if dirFilter f = [] then Inr True
               else bindE (as_string (pkt_field pkt ''direction'')) (\<lambda>d. Inr (toLowerCase d = dirFilter f))) (\<lambda>dirOk.
        if \<not> dirOk then Inr False
        else bindE (if typeFilter f = [] then Inr True
               else bindE (as_string (pkt_field pkt ''packet_type'')) (\<lambda>t. Inr (str_includes (toUpperCase t) (typeFilter f)))) (\<lambda>typeOk.
        if \<not> typeOk then Inr False
        else Inr (searchQuery f = [] \<or> str_includes (search_target pkt) (searchQuery f)))))"

datatype packet_view = PostedToWorker nat jsval | ShowRows "jsval list js_result"

definition renderFilteredPackets :: "bool \<Rightarrow> nat \<Rightarrow> packet_filters \<Rightarrow> jsval list \<Rightarrow> packet_view" where
  "renderFilteredPackets has_worker reqId f packets =
     (if has_worker
      then PostedToWorker reqId (Obj [(js ''id'', Num (Fin (of_nat reqId))), (js ''action'', Str (js ''filter'')),
             (js ''payload'', Obj [(js ''packets'', Arr packets), (js ''filters'', filters_message f)])])
      else ShowRows (filterE (fallback_matches f) packets))"

text \<open>\<open>worker.onmessage\<close>: only the answer to the latest request is shown.\<close>

definition worker_reply_rows :: "nat \<Rightarrow> worker_reply \<Rightarrow> jsval list option" where
  "worker_reply_rows pendingId r =
     (if reply_action r = Str (js ''filter'') \<and> reply_id r = Num (Fin (of_nat pendingId))
      then (case reply_result r of Inr (Arr rows) \<Rightarrow> Some rows | _ \<Rightarrow> None) else None)"

subsection \<open>Rows of the packet table\<close>

datatype piece = Lit string | Raw jstr | Esc jsval

fun piece_html :: "piece \<Rightarrow> jstr" where
  "piece_html (Lit s) = js s"
| "piece_html (Raw s) = s"
| "piece_html (Esc v) = escapeHtml v"

definition html :: "piece list \<Rightarrow> jstr" where
  "html ps = concat (map piece_html ps)"

definition is_rx :: "jsval \<Rightarrow> bool js_result" where
  "is_rx pkt = bindE (as_string (pkt_field pkt ''direction'')) (\<lambda>d. Inr (toLowerCase d = js ''rx''))"

definition packet_type :: "jsval \<Rightarrow> jstr js_result" where
  "packet_type pkt =
     bindE (as_string (js_or (getp pkt (js ''packet_type'')) (Str (js ''PACKET'')))) (\<lambda>t. Inr (toUpperCase t))"

definition type_badge :: "jstr \<Rightarrow> string" where
  "type_badge t =
     (if str_includes t (js ''CHAT'') then ''badge-type-chat''
      else if str_includes t (js ''ADVERT'') then ''badge-type-advert''
      else if str_includes t (js ''TELEM'') then ''badge-type-telemetry''
      else if str_includes t (js ''ADMIN'') then ''badge-type-admin''
      else if str_includes t (js ''ACK'') then ''badge-type-ack''
      else ''badge-secondary'')"

text \<open>\<open>parts[1]?.split(".")[0] || whole\<close>\<close>

definition clock_part :: "jstr list \<Rightarrow> jsval \<Rightarrow> jsval" where
  "clock_part parts whole =
     (case parts of _ # p # _ \<Rightarrow> js_or (Str (hd (split_on 0x2E p))) whole | _ \<Rightarrow> whole)"

definition packet_time :: "(jsval \<Rightarrow> jstr) \<Rightarrow> jsval \<Rightarrow> jsval js_result" where
  "packet_time local_time pkt =
     (let iso = getp pkt (js ''iso_time'')
      in if truthy iso then bindE (as_string iso) (\<lambda>s. Inr (clock_part (split_on 0x54 s) iso))
         else Inr (Str (local_time (getp pkt (js ''timestamp'')))))"

definition short_key :: "jsval \<Rightarrow> jstr js_result" where
  "short_key v = (if truthy v then bindE (as_string v) (\<lambda>s. Inr (js ''['' @ take 8 s @ js '']'')) else Inr (js ''--''))"

definition sender_display :: "jsval \<Rightarrow> jsval js_result" where
  "sender_display pkt =
     (if truthy (getp pkt (js ''sender_name'')) then Inr (getp pkt (js ''sender_name''))
      else bindE (short_key (getp pkt (js ''sender''))) (\<lambda>s. Inr (Str s)))"

definition target_display :: "jsval \<Rightarrow> jstr js_result" where
  "target_display pkt =
     (if getp pkt (js ''target'') = Str (js ''broadcast'') then Inr (js ''Broadcast'') else short_key (getp pkt (js ''target'')))"

definition rf_metrics :: "jsval \<Rightarrow> jstr" where
  "rf_metrics pkt =
     (let snr = getp pkt (js ''snr''); rssi = getp pkt (js ''rssi'')
      in if is_nullish snr \<and> is_nullish rssi then js ''--''
         else (if is_nullish snr then js ''--'' else to_string snr @ js '' dB'') @ js '' / '' @
              (if is_nullish rssi then js ''--'' else to_string rssi @ js '' dBm''))"

definition summary_text :: "(jsval \<Rightarrow> jstr) \<Rightarrow> jsval \<Rightarrow> jsval" where
  "summary_text stringify pkt =
     (if truthy (getp pkt (js ''text'')) then getp pkt (js ''text'')
      else Str (if truthy (getp pkt (js ''payload_dict'')) then take 50 (stringify (getp pkt (js ''payload_dict''))) else js ''--''))"

definition dir_badge :: "bool \<Rightarrow> string" where
  "dir_badge isRx = (if isRx then ''badge-dir-rx'' else ''badge-dir-tx'')"

definition dir_label :: "bool \<Rightarrow> string" where
  "dir_label isRx = (if isRx then ''RX'' else ''TX'')"

definition row_pieces :: "bool \<Rightarrow> jstr \<Rightarrow> jsval \<Rightarrow> jsval \<Rightarrow> jstr \<Rightarrow> jsval \<Rightarrow> jstr \<Rightarrow> jsval \<Rightarrow> piece list" where
  "row_pieces isRx pType timeStr sender target summary inspect pkt =
     (let id0 = js_or (getp pkt (js ''packet_id'')) (Num (Fin 0)); chan = getp pkt (js ''channel_idx'') in
        [Lit ''<td class=\"font-mono text-muted text-xs\">#'', Esc (Str (to_string id0)), Lit ''</td>'',
         Lit ''<td class=\"font-mono text-xs\">'', Esc timeStr, Lit ''</td>'',
         Lit ''<td><span class=\"'', Lit (dir_badge isRx), Lit ''\">'',
         Lit (dir_label isRx), Lit ''</span></td>'',
         Lit ''<td><span class=\"badge-pill '', Lit (type_badge pType), Lit '' text-xs\">'', Esc (Str pType), Lit ''</span></td>'',
         Lit ''<td class=\"font-mono text-xs\">#'', Esc (Str (to_string (if is_nullish chan then Num (Fin 0) else chan))), Lit ''</td>'',
         Lit ''<td class=\"font-mono text-xs\" title=\"'', Esc (pkt_field pkt ''sender''), Lit ''\">'', Esc sender, Lit ''</td>'',
         Lit ''<td class=\"font-mono text-xs\" title=\"'', Esc (pkt_field pkt ''target''), Lit ''\">'', Esc (Str target), Lit ''</td>'',
         Lit ''<td class=\"font-mono text-xs\">'', Esc (Str (rf_metrics pkt)), Lit ''</td>'',
         Lit ''<td class=\"font-mono text-xs\">'', Esc (Str (to_string (js_or (getp pkt (js ''size_bytes'')) (Num (Fin 0))))), Lit '' B</td>'',
         Lit ''<td class=\"text-xs truncate\" title=\"'', Esc (pkt_field pkt ''text''), Lit ''\">'', Esc summary, Lit ''</td>'',
         Lit ''<td class=\"text-center\"><button type=\"button\" class=\"btn-icon btn-xs\" title=\"'', Esc (Str inspect),
         Lit ''\" aria-label=\"'', Esc (Str (inspect @ js '' #'' @ to_string id0)),
         Lit ''\" aria-haspopup=\"dialog\" aria-controls=\"packetInspectorModal\" data-pkt-id=\"'',
         Esc (Str (to_string (getp pkt (js ''packet_id'')))),
         Lit ''\"><i class=\"bi bi-search button-icon\" aria-hidden=\"true\"></i></button></td>''])"

definition packet_row :: "(jsval \<Rightarrow> jstr) \<Rightarrow> (jsval \<Rightarrow> jstr) \<Rightarrow> jstr \<Rightarrow> jsval \<Rightarrow> piece list js_result" where
  "packet_row local_time stringify inspect pkt =
     bindE (is_rx pkt) (\<lambda>isRx.
     bindE (packet_type pkt) (\<lambda>pType.
     bindE (packet_time local_time pkt) (\<lambda>timeStr.
     bindE (sender_display pkt) (\<lambda>sender.
     bindE (target_display pkt) (\<lambda>target.
       Inr (row_pieces isRx pType timeStr sender target (summary_text stringify pkt) inspect pkt))))))"

text \<open>The rows of the table: the newest of the last 200 first; one bad packet fails the whole rendering.\<close>

definition renderPacketRows :: "(jsval \<Rightarrow> jstr) \<Rightarrow> (jsval \<Rightarrow> jstr) \<Rightarrow> jstr \<Rightarrow> jsval list \<Rightarrow> jstr list js_result" where
  "renderPacketRows local_time stringify inspect filtered =
     bindE (mapE (packet_row local_time stringify inspect) (rev (last_n 200 filtered))) (\<lambda>rows. Inr (map html rows))"

subsection \<open>The log\<close>

definition log_message :: "jsval \<Rightarrow> jstr" where
  "log_message entry = to_string (js_or (getp entry (js ''message'')) (Str []))"

definition log_level :: "jsval \<Rightarrow> jstr" where
  "log_level entry = toUpperCase (to_string (js_or (getp entry (js ''level'')) (Str (js ''INFO''))))"

definition local_station :: jstr where
  "local_station = js ''[ESTACI'' @ [0xD3] @ js ''N LOCAL]''"

definition has_any :: "jstr \<Rightarrow> jstr list \<Rightarrow> bool" where
  "has_any msg ws = list_ex (str_includes msg) ws"

definition rf_marks :: "jstr list" where
  "rf_marks = [js ''[RX-'', js ''[TX-'', js ''[NODO-DESCUBIERTO]'', local_station]"

definition net_marks :: "jstr list" where
  "net_marks = map js [''[HTTP-CLIENT]'', ''[REST-API]'', ''[TCP-COMPANION]'', ''[WEBSOCKET]'']"

definition security_marks :: "jstr list" where
  "security_marks = map js [''[TRAFICO-SOSPECHOSO]'', ''[SEGURIDAD]'', ''403 Forbidden'', ''Unauthorized'']"

definition matchesLogFilter :: "jstr \<Rightarrow> jstr \<Rightarrow> jsval \<Rightarrow> bool" where
  "matchesLogFilter levelFilter searchText entry =
     (if \<not> truthy entry then False
      else
        let msg = log_message entry; level = log_level entry; query = trim (toLowerCase searchText);
            shown =
              (if levelFilter = js ''ALL'' then True
               else if levelFilter = js ''RF'' then has_any msg (rf_marks @ [js ''Advertisement recibido''])
               else if levelFilter = js ''SECURITY'' then has_any msg security_marks
               else if levelFilter = js ''NET'' then has_any msg net_marks
               else if levelFilter = js ''ERROR'' then level \<in> {js ''ERROR'', js ''CRITICAL''}
               else if levelFilter = js ''WARNING'' then level \<in> {js ''WARNING'', js ''WARN''}
               else if levelFilter = js ''INFO'' then level = js ''INFO''
               else if levelFilter = js ''DEBUG'' then level = js ''DEBUG''
               else True)
        in shown \<and>
           (query = [] \<or>
            str_includes (toLowerCase (join [0x20] (msg # map (\<lambda>k. to_string (pkt_field entry k)) [''module'', ''logger'', ''source'', ''exception''])))
              query))"

definition log_row_class :: "jsval \<Rightarrow> string" where
  "log_row_class entry =
     (let msg = log_message entry
      in if str_includes msg (js ''[TRAFICO-SOSPECHOSO]'') then ''log-row-suspicious''
         else if has_any msg net_marks then ''log-row-network''
         else if has_any msg rf_marks then ''log-row-rf'' else '''')"

text \<open>\<open>split(/[T ]/)\<close>\<close>

definition split_time :: "jstr \<Rightarrow> jstr list" where
  "split_time s = split_on 0x54 (map (\<lambda>c. if c = 0x20 then 0x54 else c) s)"

definition log_time :: "(jsval \<Rightarrow> jstr) \<Rightarrow> jsval \<Rightarrow> jsval" where
  "log_time local_time entry =
     (let iso = getp entry (js ''iso_time'')
      in if truthy iso then clock_part (split_time (to_string iso)) iso else Str (local_time (getp entry (js ''timestamp''))))"

definition log_source :: "jsval \<Rightarrow> jsval" where
  "log_source entry =
     js_or (js_or (js_or (getp entry (js ''module'')) (getp entry (js ''logger''))) (getp entry (js ''source''))) (Str (js ''core''))"

definition log_row :: "(jsval \<Rightarrow> jstr) \<Rightarrow> jsval \<Rightarrow> piece list" where
  "log_row local_time entry =
     (let level = log_level entry; lvlLower = (if level = js ''WARN'' then js ''warning'' else toLowerCase level) in
      [Lit ''<span class=\"log-time\">'', Esc (log_time local_time entry), Lit ''</span>'',
       Lit ''<span class=\"log-badge badge-lvl-'', Esc (Str lvlLower), Lit ''\">'', Esc (Str level), Lit ''</span>'',
       Lit ''<span class=\"log-mod font-mono\" title=\"'', Esc (log_source entry), Lit ''\">'', Esc (log_source entry), Lit ''</span>'',
       Lit ''<span class=\"log-msg\">'', Esc (getp entry (js ''message'')), Lit ''</span>''] @
      (if truthy (getp entry (js ''exception''))
       then [Lit ''<pre class=\"log-trace\">'', Esc (getp entry (js ''exception'')), Lit ''</pre>''] else []))"

definition renderFilteredLogs :: "(jsval \<Rightarrow> jstr) \<Rightarrow> jstr \<Rightarrow> jstr \<Rightarrow> jsval list \<Rightarrow> jstr list" where
  "renderFilteredLogs local_time levelFilter searchText logs =
     map (\<lambda>e. html (log_row local_time e)) (last_n MAX_SYSTEM_LOGS (filter (matchesLogFilter levelFilter searchText) logs))"

text \<open>\<open>appendLogEntryToDom\<close>: the list of rows on screen after a new record.\<close>

definition appendLogEntryToDom :: "(jsval \<Rightarrow> jstr) \<Rightarrow> jstr \<Rightarrow> jstr \<Rightarrow> jsval \<Rightarrow> jstr list \<Rightarrow> jstr list" where
  "appendLogEntryToDom local_time levelFilter searchText entry rows =
     (if matchesLogFilter levelFilter searchText entry
      then last_n MAX_SYSTEM_LOGS (rows @ [html (log_row local_time entry)]) else rows)"

subsection \<open>The fallback shows what the worker would\<close>

lemma lower_unit_space: "is_space (lower_unit c) = is_space c"
  by (auto simp: is_space_def word_le_nat_alt word_unat_eq_iff unat_lower_unit Let_def)

lemma trim_lower: "trim (toLowerCase s) = toLowerCase (trim s)"
  by (simp add: trim_def toLowerCase_def dropWhile_map rev_map comp_def lower_unit_space)

lemma upper_unit_fixed: "d \<in> set (upper_unit c) \<Longrightarrow> upper_unit d = [d]"
  by (auto simp: upper_unit_def word_le_nat_alt word_unat_eq_iff unat_sub split: if_splits)

lemma toUpperCase_fixed: "\<forall>c \<in> set s. upper_unit c = [c] \<Longrightarrow> toUpperCase s = s"
  by (induction s) simp_all

lemma lower_trim_again: "lower_trim v = Inr s \<Longrightarrow> lower_trim (Str s) = Inr s"
  by (auto simp: lower_trim_def bindE_eq_Inr js_or_def trim_lower)

lemma upper_trim_again: "upper_trim v = Inr s \<Longrightarrow> upper_trim (Str s) = Inr s"
proof -
  assume "upper_trim v = Inr s"
  then obtain t where s: "s = trim (toUpperCase t)" by (auto simp: upper_trim_def bindE_eq_Inr)
  have "\<forall>c \<in> set (toUpperCase t). upper_unit c = [c]"
    using upper_unit_fixed by (auto simp: toUpperCase_def)
  then have "toUpperCase s = s" using set_trim s by (intro toUpperCase_fixed) blast
  then show ?thesis by (simp add: upper_trim_def js_or_def s)
qed

lemma filterE_cong: "(\<And>x. x \<in> set xs \<Longrightarrow> p x = q x) \<Longrightarrow> filterE p xs = filterE q xs"
  by (induction xs) auto

lemma filters_message_props:
  "getp (filters_message f) (js ''dirFilter'') = Str (dirFilter f)"
  "getp (filters_message f) (js ''typeFilter'') = Str (typeFilter f)"
  "getp (filters_message f) (js ''searchQuery'') = Str (searchQuery f)"
  by (simp_all add: filters_message_def getp_def)

lemma fallback_is_worker:
  assumes "read_filters dir type search = Inr f" "\<forall>p \<in> set ps. is_object p"
  shows "filterPackets (Arr ps) (filters_message f) = filterE (fallback_matches f) ps"
proof -
  from assms(1) have again: "lower_trim (Str (dirFilter f)) = Inr (dirFilter f)"
    "upper_trim (Str (typeFilter f)) = Inr (typeFilter f)" "lower_trim (Str (searchQuery f)) = Inr (searchQuery f)"
    by (auto simp: read_filters_def bindE_eq_Inr dest: lower_trim_again upper_trim_again)
  have "packet_matches (dirFilter f) (typeFilter f) (searchQuery f) p = fallback_matches f p" if "p \<in> set ps" for p
    using that assms(2) by (auto simp: packet_matches_def fallback_matches_def is_object_def is_nullish_def)
  then show ?thesis
    by (simp add: filterPackets_def filters_message_props again del: js_simps cong: filterE_cong)
qed



subsection \<open>Received text cannot add markup\<close>

definition markup :: "jchar \<Rightarrow> bool" where
  "markup c \<longleftrightarrow> c \<in> {0x3C, 0x3E, 0x22, 0x27}"

lemma escaped_no_markup: "filter markup (escapeHtml v) = []"
  using escape_unit_safe by (auto simp: escapeHtml_def escape_text_map filter_empty_conv markup_def)

lemma markup_pieces:
  "filter markup (html []) = []"
  "filter markup (html (Lit s # ps)) = filter markup (js s) @ filter markup (html ps)"
  "filter markup (html (Esc v # ps)) = filter markup (html ps)"
  by (simp_all add: html_def escaped_no_markup)

lemma type_badge_no_markup: "filter markup (js (type_badge t)) = []"
  by (simp add: type_badge_def markup_def)

lemma direction_no_markup: "filter markup (js (dir_badge b)) = []" "filter markup (js (dir_label b)) = []"
  by (cases b; simp add: dir_badge_def dir_label_def markup_def)+

lemma row_markup:
  "filter markup (html (row_pieces b t tm s tg sm i p)) = filter markup (html (row_pieces b' t' tm' s' tg' sm' i' p'))"
  by (simp only: row_pieces_def Let_def markup_pieces type_badge_no_markup direction_no_markup append_Nil)

lemma packet_row_pieces:
  "packet_row lt sf i p = Inr r \<Longrightarrow> \<exists>b t tm s tg sm. r = row_pieces b t tm s tg sm i p"
  unfolding packet_row_def bindE_eq_Inr by blast

lemma log_row_markup:
  "truthy (getp e (js ''exception'')) = truthy (getp e' (js ''exception'')) \<Longrightarrow>
   filter markup (html (log_row lt e)) = filter markup (html (log_row lt' e'))"
  by (cases "truthy (getp e' (js ''exception''))")
    (simp_all only: log_row_def Let_def append_Cons append_Nil markup_pieces if_True if_False simp_thms)

text \<open>
  Nothing a radio frame carries can change the structure of its row: the characters that open
  and close tags and attributes are the same in the row of every packet, whatever its fields hold,
  and in the row of every log record, apart from the block for an exception when it has one.
\<close>
theorem rows_same_markup:
  assumes "packet_row lt sf i p = Inr r" "packet_row lt' sf' i' q = Inr r'"
    and "truthy (getp e (js ''exception'')) = truthy (getp e' (js ''exception''))"
  shows "filter markup (html r) = filter markup (html r') \<and>
    filter markup (html (log_row lt e)) = filter markup (html (log_row lt' e'))"
proof -
  obtain b t tm s tg sm where r: "r = row_pieces b t tm s tg sm i p" using packet_row_pieces[OF assms(1)] by blast
  obtain b' t' tm' s' tg' sm' where r': "r' = row_pieces b' t' tm' s' tg' sm' i' q" using packet_row_pieces[OF assms(2)] by blast
  show ?thesis unfolding r r' using row_markup log_row_markup[OF assms(3)] by blast
qed

theorem rows_same_markup_witness:
  "\<exists>r r'. packet_row (\<lambda>_. []) (\<lambda>_. []) [] (Obj []) = Inr r \<and>
     packet_row (\<lambda>_. []) (\<lambda>_. []) [] (Obj [(js ''text'', Str (js ''<script>''))]) = Inr r' \<and>
     filter markup (html r) = filter markup (html r')"
proof -
  have "\<exists>r. packet_row (\<lambda>_. []) (\<lambda>_. []) [] (Obj []) = Inr r"
    by (simp add: packet_row_def is_rx_def packet_type_def packet_time_def sender_display_def short_key_def target_display_def
        pkt_field_def getp_def js_or_def Let_def)
  moreover have "\<exists>r. packet_row (\<lambda>_. []) (\<lambda>_. []) [] (Obj [(js ''text'', Str (js ''<script>''))]) = Inr r"
    by (simp add: packet_row_def is_rx_def packet_type_def packet_time_def sender_display_def short_key_def target_display_def
        pkt_field_def getp_def js_or_def Let_def)
  ultimately show ?thesis using rows_same_markup[OF _ _ refl] by blast
qed

subsection \<open>The log on screen\<close>

lemma last_n_map: "last_n n (map f xs) = map f (last_n n xs)"
  by (simp add: last_n_def drop_map)

lemma last_n_all: "length xs \<le> n \<Longrightarrow> last_n n xs = xs"
  by (simp add: last_n_def)

lemma last_n_suffix: "suffix ys xs \<Longrightarrow> length ys \<le> n \<Longrightarrow> suffix ys (last_n n xs)"
  by (auto simp: suffix_def last_n_def)

lemma suffix_filter_eq: "suffix xs ys \<Longrightarrow> suffix (filter P xs) (filter P ys)"
  by (auto simp: suffix_def)

text \<open>
  Appending one row for a new record is as good as rendering the log again: the rows of a
  full rendering end the list on screen, and are all of it as long as the buffer has not yet
  dropped a record.
\<close>
theorem log_append_matches_render:
  assumes "length logs \<le> MAX_SYSTEM_LOGS"
  shows "suffix (renderFilteredLogs lt lvl q (push_bounded MAX_SYSTEM_LOGS e logs))
           (appendLogEntryToDom lt lvl q e (renderFilteredLogs lt lvl q logs)) \<and>
    (length logs < MAX_SYSTEM_LOGS \<longrightarrow>
       renderFilteredLogs lt lvl q (push_bounded MAX_SYSTEM_LOGS e logs) =
       appendLogEntryToDom lt lvl q e (renderFilteredLogs lt lvl q logs))"
proof -
  let ?m = "matchesLogFilter lvl q" and ?h = "\<lambda>e. html (log_row lt e)" and ?new = "push_bounded MAX_SYSTEM_LOGS e logs"
  have render: "renderFilteredLogs lt lvl q xs = map ?h (filter ?m xs)" if "length xs \<le> MAX_SYSTEM_LOGS" for xs
  proof -
    have "length (filter ?m xs) \<le> MAX_SYSTEM_LOGS" using that length_filter_le order_trans by blast
    then show ?thesis by (simp add: renderFilteredLogs_def last_n_all)
  qed
  have len: "length ?new \<le> MAX_SYSTEM_LOGS" using assms by (rule length_push_bounded)
  have append: "appendLogEntryToDom lt lvl q e (renderFilteredLogs lt lvl q logs) =
      map ?h (if ?m e then last_n MAX_SYSTEM_LOGS (filter ?m (logs @ [e])) else filter ?m logs)"
    unfolding appendLogEntryToDom_def render[OF assms] by (simp add: last_n_map[symmetric])
  have "suffix ?new (logs @ [e])" unfolding push_bounded_suffix[OF assms] by (rule suffix_drop)
  then have suf: "suffix (filter ?m ?new) (filter ?m (logs @ [e]))" by (rule suffix_filter_eq)
  have flen: "length (filter ?m ?new) \<le> MAX_SYSTEM_LOGS" using len length_filter_le order_trans by blast
  have "suffix (filter ?m ?new) (if ?m e then last_n MAX_SYSTEM_LOGS (filter ?m (logs @ [e])) else filter ?m logs)"
    using suf last_n_suffix[OF suf flen] by (cases "?m e") simp_all
  moreover have "filter ?m ?new = (if ?m e then last_n MAX_SYSTEM_LOGS (filter ?m (logs @ [e])) else filter ?m logs)"
    if short: "length logs < MAX_SYSTEM_LOGS"
  proof -
    have "?new = logs @ [e]" using short by (simp add: push_bounded_def)
    then show ?thesis using flen by (auto simp: last_n_all)
  qed
  ultimately show ?thesis unfolding append render[OF len] by (auto intro: map_mono_suffix)
qed

theorem log_append_matches_render_witness:
  "renderFilteredLogs (\<lambda>_. []) (js ''ALL'') [] (push_bounded MAX_SYSTEM_LOGS (Obj []) [Obj []]) =
   appendLogEntryToDom (\<lambda>_. []) (js ''ALL'') [] (Obj []) (renderFilteredLogs (\<lambda>_. []) (js ''ALL'') [] [Obj []])"
  using log_append_matches_render[of "[Obj []]" "\<lambda>_. []" "js ''ALL''" "[]" "Obj []"] by (simp add: MAX_SYSTEM_LOGS_def)

end
