(* ===== verification/NodeDirectory.thy ===== *)
theory NodeDirectory
  imports Sniffer
begin

section \<open>Known nodes (modules/nodes.js)\<close>

text \<open>
  The identity of a node: which keys are valid, how a full or abbreviated public key is resolved
  against the known nodes, and the paged download of the directory. The map of known nodes is the
  list of its entries in insertion order.
\<close>

type_synonym nodes = "(jstr \<times> jsval) list"

definition isValidNodeKey :: "jsval \<Rightarrow> bool" where
  "isValidNodeKey key =
     (case key of
        Str s \<Rightarrow>
          (let clean = toLowerCase (trim s)
           in s \<noteq> [] \<and> (clean = js ''local'' \<or> clean = js ''000000000000'' \<or> 8 \<le> length clean \<and> list_all is_hex clean))
      | _ \<Rightarrow> False)"

definition node_pk :: "jstr \<times> jsval \<Rightarrow> jstr" where
  "node_pk e = toLowerCase (to_string (js_or (getp (snd e) (js ''public_key'')) (Str (fst e))))"

fun add_match :: "jstr list \<Rightarrow> jstr \<Rightarrow> jstr list" where
  "add_match ms k = (if k \<in> set ms then ms else ms @ [k])"

definition prefix_match :: "jstr \<Rightarrow> jstr \<Rightarrow> bool" where
  "prefix_match clean pk \<longleftrightarrow> 8 \<le> length pk \<and> 8 \<le> length clean \<and> (startsWith pk clean \<or> startsWith clean pk)"

definition resolveCanonicalPubkey :: "nodes \<Rightarrow> jsval \<Rightarrow> jstr" where
  "resolveCanonicalPubkey known pubkey =
     (if \<not> truthy pubkey then []
      else
        let clean = toLowerCase (trim (to_string pubkey))
        in if clean = js ''local'' then js ''local''
           else if list_ex (\<lambda>e. node_pk e = clean) known then clean
           else case foldl add_match [] (filter (prefix_match clean) (map node_pk known)) of
                  [m] \<Rightarrow> m
                | _ \<Rightarrow> clean)"

subsection \<open>The paged download\<close>

record nodes_fetch =
  allNodes :: "jsval list"
  fetch_offset :: nat
  totalCount :: jnum

definition nodes_fetch_start :: nodes_fetch where
  "nodes_fetch_start = \<lparr>allNodes = [], fetch_offset = 0, totalCount = PosInf\<rparr>"

datatype fetch_outcome = RequestPage nodes_fetch | Rendered "jsval list" | GivenUp

text \<open>
  What the loop does with the answer for one page; \<open>current\<close> tells whether no later refresh has
  been started meanwhile.
\<close>

definition fetch_page :: "bool \<Rightarrow> net \<Rightarrow> nodes_fetch \<Rightarrow> fetch_outcome" where
  "fetch_page current reply st =
     (case reply of
        Rejected _ \<Rightarrow> GivenUp
      | Responded res \<Rightarrow>
          (case http_json res of
             None \<Rightarrow> GivenUp
           | Some data \<Rightarrow>
               (case answer_rows res data of
                  None \<Rightarrow> GivenUp
                | Some rows \<Rightarrow>
                    let nodes = allNodes st @ rows;
                        total_count = (case getp data (js ''total_count'') of Num n \<Rightarrow> n | _ \<Rightarrow> Fin (of_nat (length rows)))
                    in if jle total_count (Fin (of_nat (length nodes)))
                       then (if current then Rendered nodes else GivenUp)
                       else if rows = [] then GivenUp
                       else RequestPage \<lparr>allNodes = nodes, fetch_offset = fetch_offset st + length rows, totalCount = total_count\<rparr>)))"

fun fetchNodes :: "(bool \<times> net) list \<Rightarrow> nodes_fetch \<Rightarrow> fetch_outcome" where
  "fetchNodes [] st = RequestPage st"
| "fetchNodes ((current, reply) # answers) st =
     (case fetch_page current reply st of
        RequestPage st' \<Rightarrow> fetchNodes answers st'
      | done \<Rightarrow> done)"

subsection \<open>Resolving keys\<close>

lemma foldl_add_match_set: "set (foldl add_match ms ks) = set ms \<union> set ks"
  by (induction ks arbitrary: ms) auto

lemma foldl_add_match_distinct: "distinct ms \<Longrightarrow> distinct (foldl add_match ms ks)"
  by (induction ks arbitrary: ms) auto

lemma unique_match: "foldl add_match [] ks = [m] \<longleftrightarrow> set ks = {m}"
proof
  assume "foldl add_match [] ks = [m]"
  then show "set ks = {m}" using foldl_add_match_set[of "[]" ks] by simp
next
  assume "set ks = {m}"
  then have "set (foldl add_match [] ks) = {m}" "distinct (foldl add_match [] ks)"
    by (simp_all add: foldl_add_match_set foldl_add_match_distinct)
  moreover from this have "length (foldl add_match [] ks) = 1" by (metis card.empty card_insert_disjoint distinct_card empty_iff finite.emptyI One_nat_def)
  ultimately show "foldl add_match [] ks = [m]" by (cases "foldl add_match [] ks") auto
qed

text \<open>
  Resolving a key never guesses: an exactly known key stands for itself, an abbreviation or
  extension of exactly one known key resolves to that key, and every other key, one that fits
  several nodes included, is only trimmed and put in lower case.
\<close>
theorem resolveCanonicalPubkey_exact:
  assumes "truthy pk" "clean = toLowerCase (trim (to_string pk))" "clean \<noteq> js ''local''"
  shows "resolveCanonicalPubkey known pk =
    (if clean \<in> node_pk ` set known then clean
     else if \<exists>k. {m \<in> node_pk ` set known. prefix_match clean m} = {k}
     then the_elem {m \<in> node_pk ` set known. prefix_match clean m} else clean)"
proof -
  let ?ks = "filter (prefix_match clean) (map node_pk known)"
  have ks: "set ?ks = {m \<in> node_pk ` set known. prefix_match clean m}" by auto
  show ?thesis
  proof (cases "\<exists>k. set ?ks = {k}")
    case True
    then obtain k where k: "set ?ks = {k}" ..
    then have "foldl add_match [] ?ks = [k]" by (simp only: unique_match)
    with assms k ks show ?thesis by (auto simp: resolveCanonicalPubkey_def Let_def list_ex_iff image_iff)
  next
    case False
    then have "\<nexists>k. foldl add_match [] ?ks = [k]" by (simp only: unique_match) blast
    then have "(case foldl add_match [] ?ks of [m] \<Rightarrow> m | _ \<Rightarrow> clean) = clean"
      by (auto split: list.split)
    with assms False ks show ?thesis by (auto simp: resolveCanonicalPubkey_def Let_def list_ex_iff image_iff)
  qed
qed

lemma two_not_one: "a \<noteq> b \<Longrightarrow> \<not> (\<exists>k. {a, b} = {k})"
  by (auto simp: doubleton_eq_iff)

theorem resolveCanonicalPubkey_exact_witness:
  "resolveCanonicalPubkey [(js ''aabbccdd00'', Obj []), (js ''aabbccdd11'', Obj [])] (Str (js '' AABBCCDD '')) = js ''aabbccdd''"
proof -
  let ?k = "[(js ''aabbccdd00'', Obj []), (js ''aabbccdd11'', Obj [])]"
  have pk: "node_pk ` set ?k = {js ''aabbccdd00'', js ''aabbccdd11''}"
    by (simp add: node_pk_def getp_def js_or_def lower_unit_def)
  have pm: "{m \<in> {js ''aabbccdd00'', js ''aabbccdd11''}. prefix_match (js ''aabbccdd'') m} = {js ''aabbccdd00'', js ''aabbccdd11''}"
    by (auto simp: prefix_match_def)
  have cl: "js ''aabbccdd'' = toLowerCase (trim (to_string (Str (js '' AABBCCDD ''))))"
    by (simp add: trim_def is_space_def lower_unit_def)
  have "js ''aabbccdd00'' \<noteq> js ''aabbccdd11''" "js ''aabbccdd'' \<notin> {js ''aabbccdd00'', js ''aabbccdd11''}"
    "js ''aabbccdd'' \<noteq> js ''local''" by simp_all
  note ne = two_not_one[OF this(1)] this(2) this(3)
  have "truthy (Str (js '' AABBCCDD ''))" by simp
  from resolveCanonicalPubkey_exact[OF this cl ne(3), of ?k]
  show ?thesis by (simp only: pk pm ne if_False)
qed

subsection \<open>The download ends\<close>

definition announces_at_most :: "nat \<Rightarrow> net \<Rightarrow> bool" where
  "announces_at_most maxn reply =
     (case reply of
        Responded res \<Rightarrow>
          (case http_json res of
             Some data \<Rightarrow> (case getp data (js ''total_count'') of Num n \<Rightarrow> jle n (Fin (of_nat maxn)) | _ \<Rightarrow> True)
           | None \<Rightarrow> True)
      | Rejected _ \<Rightarrow> True)"

definition fetch_ok :: "nodes_fetch \<Rightarrow> bool" where
  "fetch_ok st \<longleftrightarrow> fetch_offset st = length (allNodes st)"

lemma fetch_page_more:
  assumes "fetch_page c reply st = RequestPage st'" "announces_at_most maxn reply" "fetch_ok st"
  shows "fetch_ok st' \<and> length (allNodes st) < length (allNodes st') \<and> length (allNodes st') \<le> maxn \<and>
    prefix (allNodes st) (allNodes st')"
proof -
  from assms(1) obtain res data rows where r: "reply = Responded res" "http_json res = Some data" "answer_rows res data = Some rows"
    by (auto simp: fetch_page_def split: net.splits option.splits)
  let ?t = "case getp data (js ''total_count'') of Num n \<Rightarrow> n | _ \<Rightarrow> Fin (of_nat (length rows))"
  have ne: "\<not> jle ?t (Fin (of_nat (length (allNodes st @ rows))))" and rows: "rows \<noteq> []"
    and st': "st' = \<lparr>allNodes = allNodes st @ rows, fetch_offset = fetch_offset st + length rows, totalCount = ?t\<rparr>"
    using assms(1) r by (auto simp: fetch_page_def Let_def simp del: js_simps split: if_splits)
  from ne obtain n where n: "getp data (js ''total_count'') = Num n"
    by (auto simp: jle_def simp del: js_simps split: jsval.splits)
  then have "jle n (Fin (of_nat maxn))" "\<not> jle n (Fin (of_nat (length (allNodes st @ rows))))"
    using assms(2) ne r by (simp_all add: announces_at_most_def del: js_simps)
  then have "length (allNodes st @ rows) < maxn \<or> n = NaN" by (cases n) (auto simp: jle_def)
  with \<open>jle n (Fin (of_nat maxn))\<close> have "length (allNodes st @ rows) < maxn" by (auto simp: jle_def)
  then show ?thesis using rows assms(3) by (simp add: st' fetch_ok_def)
qed

lemma fetchNodes_more:
  "fetchNodes answers st = RequestPage st' \<Longrightarrow> \<forall>a \<in> set answers. announces_at_most maxn (snd a) \<Longrightarrow> fetch_ok st \<Longrightarrow>
   fetch_ok st' \<and> length (allNodes st) + length answers \<le> length (allNodes st') \<and>
   (answers \<noteq> [] \<longrightarrow> length (allNodes st') \<le> maxn)"
proof (induction answers st rule: fetchNodes.induct)
  case (2 c reply answers st)
  then obtain st1 where st1: "fetch_page c reply st = RequestPage st1" "fetchNodes answers st1 = RequestPage st'"
    by (auto split: fetch_outcome.splits)
  have f: "fetch_ok st1 \<and> length (allNodes st) < length (allNodes st1) \<and> length (allNodes st1) \<le> maxn"
    using fetch_page_more[OF st1(1), of maxn] 2(3,4) by auto
  then have "fetch_ok st' \<and> length (allNodes st1) + length answers \<le> length (allNodes st') \<and>
      (answers \<noteq> [] \<longrightarrow> length (allNodes st') \<le> maxn)"
    using 2(1)[OF st1] 2(3) by auto
  then show ?case using f st1(2) by (cases answers) auto
qed simp

text \<open>
  Downloading the directory ends: when the bridge never announces more than a bounded number
  of nodes, that many answers and one more are enough, whatever the pages hold; and every further
  request asks for the position right after the nodes received so far.
\<close>
theorem fetchNodes_terminates:
  assumes "\<forall>a \<in> set answers. announces_at_most maxn (snd a)"
  shows "case fetchNodes answers nodes_fetch_start of
     RequestPage st \<Rightarrow> length answers \<le> maxn \<and> fetch_offset st = length (allNodes st)
   | _ \<Rightarrow> True"
proof (cases "fetchNodes answers nodes_fetch_start")
  case (RequestPage st)
  from fetchNodes_more[OF this assms] show ?thesis
    using RequestPage by (cases answers) (auto simp: fetch_ok_def nodes_fetch_start_def)
qed simp_all

theorem fetchNodes_terminates_witness:
  "case fetchNodes [(True, Rejected TypeError), (True, Rejected TypeError)] nodes_fetch_start of
     RequestPage st \<Rightarrow> length [(True, Rejected TypeError), (True, Rejected TypeError)] \<le> (1::nat) \<and> fetch_offset st = length (allNodes st)
   | _ \<Rightarrow> True"
  by (rule fetchNodes_terminates) (simp add: announces_at_most_def)

end
