(* ===== verification/ChatOutbox.thy ===== *)
theory ChatOutbox
  imports NodeDirectory LoraText MessageCache
begin

section \<open>Sending messages and their acknowledgements (modules/chat.js)\<close>

text \<open>
  \<open>ChatModule.sendMessage\<close> fragments a text and transmits the fragments one after the other;
  \<open>_sendSingleMessageChunk\<close> shows a fragment, stores it, posts it and records what the bridge
  answers, and \<open>handleDeliveryAck\<close>, \<open>handleMessageStatus\<close> and the acknowledgement timers
  change the same messages meanwhile. Messages are mutable objects that feeds and the running
  method share, so they live in a heap and a feed is a list of references. The asynchronous methods
  are cut at each \<open>await\<close>; the part still to run is the \<open>job\<close>. Calls of the storage and requests
  to the bridge are logged in order.
\<close>

definition MAX_FEED_MESSAGES :: nat where "MAX_FEED_MESSAGES = 100"

datatype phase = Saving | Transmitting | StatusSaving jsval | AckSaving | FailureSaving jsval | Pacing

record job =
  chunks :: "jstr list"
  chunk_no :: nat
  canonicalTarget :: "jstr option"
  channelIdx :: jnum
  dmName :: "jstr option"
  job_msg :: nat
  job_phase :: phase

datatype storage_call =
    SaveMessage jstr props
  | UpdateStatus jsval jsval
  | UpdateExpectedAck jsval jsval
  | UpdateDelivery jsval jsval jsval

record tx_request =
  tx_to :: jstr
  tx_channel :: jnum
  tx_text :: jstr
  tx_id :: jstr

record chat =
  objects :: "nat \<Rightarrow> props"
  next_obj :: nat
  channelFeeds :: "(jstr \<times> nat list) list"
  activeChannelIdx :: jnum
  activeDmTarget :: "jstr option"
  activeDmName :: "jstr option"
  chatInputText :: jstr
  replyingTo :: "(jstr \<times> jstr) option"
  drafts :: "(jstr \<times> jstr) list"
  sending :: bool
  job :: "job option"
  pendingOutgoingAcks :: "(jstr \<times> jsval) list"
  ackTimeoutTimers :: "(jstr \<times> jsval) list"
  storage_log :: "storage_call list"
  tx_log :: "tx_request list"
  chat_toasts :: "(string \<times> jsval) list"

text \<open>
  What the methods read of their surroundings: the nodes, the key of the local station and its
  configuration, the station the storage belongs to, names in the user's language, the wording of
  engine errors, and the identity and the time stamp that the n-th message gets.
\<close>

record chat_env =
  knownNodes :: nodes
  localNodePubkey :: jstr
  localConfig :: jsval
  stationId :: jsval
  localName :: jstr
  engineMessage :: "js_error \<Rightarrow> jstr"
  newId :: "nat \<Rightarrow> jstr"
  newTimestamp :: "nat \<Rightarrow> jstr"

definition new_chat :: chat where
  "new_chat = \<lparr>objects = (\<lambda>_. []), next_obj = 0, channelFeeds = [], activeChannelIdx = Fin 0, activeDmTarget = None,
     activeDmName = None, chatInputText = [], replyingTo = None, drafts = [], sending = False, job = None,
     pendingOutgoingAcks = [], ackTimeoutTimers = [], storage_log = [], tx_log = [], chat_toasts = []\<rparr>"

definition log_call :: "storage_call \<Rightarrow> chat \<Rightarrow> chat" where
  "log_call c st = st\<lparr>storage_log := storage_log st @ [c]\<rparr>"

definition toast :: "string \<Rightarrow> jsval \<Rightarrow> chat \<Rightarrow> chat" where
  "toast key arg st = st\<lparr>chat_toasts := chat_toasts st @ [(key, arg)]\<rparr>"

definition set_object :: "nat \<Rightarrow> props \<Rightarrow> chat \<Rightarrow> chat" where
  "set_object r m st = st\<lparr>objects := (objects st)(r := m)\<rparr>"

subsection \<open>Conversations and recipients\<close>

definition feed_of :: "jstr option \<Rightarrow> jnum \<Rightarrow> jstr" where
  "feed_of target channel =
     (case target of Some t \<Rightarrow> if t \<noteq> [] then js ''dm_'' @ t else js ''ch_'' @ num_str channel
      | None \<Rightarrow> js ''ch_'' @ num_str channel)"

definition visibleFeed :: "chat \<Rightarrow> jstr" where
  "visibleFeed st = feed_of (activeDmTarget st) (activeChannelIdx st)"

definition isLocalTarget :: "chat_env \<Rightarrow> jstr \<Rightarrow> bool" where
  "isLocalTarget env pubkey =
     (let wanted = toLowerCase (trim pubkey); localPk = trim (toLowerCase (localNodePubkey env)) in
      pubkey = [] \<or> wanted = js ''local'' \<or> wanted = js ''000000000000'' \<or>
      localPk \<noteq> [] \<and>
        (wanted = localPk \<or> 8 \<le> length localPk \<and> startsWith wanted (take 8 localPk) \<or>
         8 \<le> length wanted \<and> startsWith localPk (take 8 wanted)) \<or>
      (case map_of (knownNodes env) wanted of
         Some node \<Rightarrow> truthy node \<and>
           (truthy (getp node (js ''is_local'')) \<or> toUpperCase (to_string (getp node (js ''role''))) = js ''LOCAL'')
       | None \<Rightarrow> False))"

fun findNode :: "jstr \<Rightarrow> jsval list \<Rightarrow> jsval js_result" where
  "findNode wanted [] = Inr Undefined"
| "findNode wanted (n # ns) =
     (let pk = getp n (js ''public_key''); kp = getp n (js ''key_prefix'') in
      bindE (if truthy pk then bindE (as_string pk) (\<lambda>s. Inr (toLowerCase s = wanted)) else Inr False) (\<lambda>same.
      bindE (if same then Inr True
             else if truthy kp then bindE (as_string kp) (\<lambda>s. Inr (startsWith wanted (toLowerCase s))) else Inr False) (\<lambda>found.
        if found then Inr n else findNode wanted ns)))"

definition isRepeater :: "jsval \<Rightarrow> bool" where
  "isRepeater node \<longleftrightarrow>
     toUpperCase (to_string (js_or (getp node (js ''role'')) (Str []))) \<in> {js ''REPEATER'', js ''ROUTER''}"

definition getMaxTextBytes :: "chat_env \<Rightarrow> chat \<Rightarrow> nat" where
  "getMaxTextBytes env st =
     (let cfg = js_or (localConfig env) (Obj []) in
      if activeDmTarget st \<notin> {None, Some []} then MAX_LORA_TEXT_BYTES
      else getMaxLoraTextBudget (trim (to_string (js_or (js_or (js_or
             (getp cfg (js ''name'')) (getp cfg (js ''node_name''))) (getp cfg (js ''device_name''))) (Str [])))))"

subsection \<open>One fragment\<close>

definition outgoing_message :: "chat_env \<Rightarrow> nat \<Rightarrow> jstr \<Rightarrow> job \<Rightarrow> props" where
  "outgoing_message env n rawText j =
     [(js ''id'', Str (newId env n)), (js ''msg_id'', Str (newId env n)), (js ''sender'', Str (js ''local'')),
      (js ''sender_name'', Str (localName env)), (js ''text'', Str rawText), (js ''is_outgoing'', Bool True),
      (js ''channel_idx'', Num (channelIdx j)),
      (js ''dm_target'', (case canonicalTarget j of Some t \<Rightarrow> Str t | None \<Rightarrow> Null)),
      (js ''dm_target_name'', (case dmName j of
          Some n \<Rightarrow> if n \<noteq> [] then Str n else (case canonicalTarget j of Some t \<Rightarrow> Str t | None \<Rightarrow> Null)
        | None \<Rightarrow> (case canonicalTarget j of Some t \<Rightarrow> Str t | None \<Rightarrow> Null))),
      (js ''timestamp'', Str (newTimestamp env n)), (js ''delivered'', Bool False), (js ''status'', Str (js ''queued''))]"

definition push_feed :: "jstr \<Rightarrow> nat \<Rightarrow> chat \<Rightarrow> chat" where
  "push_feed key r st =
     (let feed = (case map_of (channelFeeds st) key of Some f \<Rightarrow> f | None \<Rightarrow> [])
      in st\<lparr>channelFeeds := assoc_put key (push_bounded MAX_FEED_MESSAGES r feed) (channelFeeds st)\<rparr>)"

definition finish_sending :: "chat \<Rightarrow> chat" where
  "finish_sending st = st\<lparr>sending := False, job := None\<rparr>"

text \<open>A fragment was refused: what was not sent returns to the composer if it is still the same place.\<close>

definition refuse_chunk :: "job \<Rightarrow> chat \<Rightarrow> chat" where
  "refuse_chunk j st =
     finish_sending
       (if feed_of (canonicalTarget j) (channelIdx j) = visibleFeed st \<and> trim (chatInputText st) = []
        then st\<lparr>chatInputText := concat (drop (chunk_no j) (chunks j))\<rparr> else st)"

definition place_message :: "chat_env \<Rightarrow> job \<Rightarrow> chat \<Rightarrow> chat" where
  "place_message env j st =
     (let r = next_obj st; m = outgoing_message env r (chunks j ! chunk_no j) j; key = feed_of (canonicalTarget j) (channelIdx j)
      in log_call (SaveMessage key m)
           (push_feed key r (st\<lparr>objects := (objects st)(r := m), next_obj := r + 1,
                               job := Some (j\<lparr>job_msg := r, job_phase := Saving\<rparr>)\<rparr>)))"

definition start_chunk :: "chat_env \<Rightarrow> job \<Rightarrow> chat \<Rightarrow> chat" where
  "start_chunk env j st =
     (case canonicalTarget j of
        None \<Rightarrow> place_message env j st
      | Some t \<Rightarrow>
          if t = [] then place_message env j st
          else if isLocalTarget env t then refuse_chunk j (toast ''chat.no_local_message'' Undefined st)
          else (case findNode (trim (toLowerCase t)) (map snd (knownNodes env)) of
                  Inl _ \<Rightarrow> finish_sending st
                | Inr node \<Rightarrow>
                    if isRepeater node then refuse_chunk j (toast ''toast.repeater_chat_err'' Undefined st)
                    else place_message env j st))"

text \<open>A fragment is done: a pause before the next one, or the end.\<close>

definition accept_chunk :: "job \<Rightarrow> chat \<Rightarrow> chat" where
  "accept_chunk j st =
     (if chunk_no j + 1 < length (chunks j) then st\<lparr>job := Some (j\<lparr>job_phase := Pacing\<rparr>)\<rparr> else finish_sending st)"

definition recipient :: "jstr option \<Rightarrow> jstr" where
  "recipient target = (case target of Some t \<Rightarrow> if t = [] then js ''broadcast'' else t | None \<Rightarrow> js ''broadcast'')"

definition post_chunk :: "job \<Rightarrow> chat \<Rightarrow> chat" where
  "post_chunk j st =
     st\<lparr>tx_log := tx_log st @ [\<lparr>tx_to = recipient (canonicalTarget j),
           tx_channel = channelIdx j, tx_text = chunks j ! chunk_no j,
           tx_id = to_string (fld (objects st (job_msg j)) ''id'')\<rparr>],
        job := Some (j\<lparr>job_phase := Transmitting\<rparr>)\<rparr>"

definition accepted_answer :: "net \<Rightarrow> jsval option" where
  "accepted_answer reply =
     (case reply of
        Rejected _ \<Rightarrow> None
      | Responded res \<Rightarrow>
          (case http_json res of
             None \<Rightarrow> None
           | Some d \<Rightarrow> if response_ok res \<and> truthy d \<and> getp d (js ''status'') = Str (js ''ok'') then Some d else None))"

definition tx_error :: "chat_env \<Rightarrow> net \<Rightarrow> jsval" where
  "tx_error env reply =
     Str (case reply of
        Rejected e \<Rightarrow> (case e of ErrorMsg m \<Rightarrow> m | _ \<Rightarrow> engineMessage env e)
      | Responded res \<Rightarrow>
          (case http_json res of
             None \<Rightarrow> engineMessage env TypeError
           | Some d \<Rightarrow> to_string (foldr (\<lambda>k v. js_or (getp d (js k)) v) [''detail'', ''message'', ''error'']
                          (Str (js ''HTTP '' @ nat_str (http_status res))))))"

definition counted_delivered :: "props \<Rightarrow> bool" where
  "counted_delivered m \<longleftrightarrow> truthy (fld m ''delivered'') \<or> is_delivered m"

definition tx_answered :: "chat_env \<Rightarrow> net \<Rightarrow> job \<Rightarrow> chat \<Rightarrow> chat" where
  "tx_answered env reply j st =
     (let r = job_msg j; m = objects st r in
      case accepted_answer reply of
        Some d \<Rightarrow>
          let m' = (if counted_delivered m then m else with_fld ''status'' (Str (js ''sent'')) m)
          in log_call (UpdateStatus (fld m' ''id'') (fld m' ''status''))
               ((set_object r m' st)\<lparr>job := Some (j\<lparr>job_phase := StatusSaving d\<rparr>)\<rparr>)
      | None \<Rightarrow>
          if counted_delivered m then accept_chunk j st
          else log_call (UpdateStatus (fld m ''id'') (Str (js ''failed'')))
                 ((set_object r (with_fld ''status'' (Str (js ''failed'')) m) st)
                    \<lparr>job := Some (j\<lparr>job_phase := FailureSaving (tx_error env reply)\<rparr>)\<rparr>))"

subsection \<open>Acknowledgements\<close>

definition register_ack :: "jstr \<Rightarrow> jsval \<Rightarrow> chat \<Rightarrow> chat" where
  "register_ack code msgId st =
     st\<lparr>pendingOutgoingAcks := assoc_put code msgId (pendingOutgoingAcks st),
        ackTimeoutTimers := assoc_put code msgId (ackTimeoutTimers st)\<rparr>"

definition ack_timeout :: "jstr \<Rightarrow> chat \<Rightarrow> chat" where
  "ack_timeout code st =
     (if code \<in> fst ` set (ackTimeoutTimers st)
      then st\<lparr>ackTimeoutTimers := assoc_del code (ackTimeoutTimers st),
             pendingOutgoingAcks := assoc_del code (pendingOutgoingAcks st)\<rparr> else st)"

definition clearAllAckTimeouts :: "chat \<Rightarrow> chat" where
  "clearAllAckTimeouts st = st\<lparr>ackTimeoutTimers := []\<rparr>"

definition nested :: "jsval \<Rightarrow> string \<Rightarrow> jsval" where
  "nested d k = js_or (getp (getp d (js ''data'')) (js k)) (getp d (js k))"

text \<open>What follows the stored status: the code under which the delivery will be reported.\<close>

definition track_delivery :: "jsval \<Rightarrow> job \<Rightarrow> chat \<Rightarrow> chat" where
  "track_delivery d j st =
     (let tracking = nested d ''delivery_tracking''; can = (\<not> truthy tracking \<or> tracking = Str (js ''registered''));
          st1 = (if can then st else toast ''chat.delivery_tracking_unavailable'' Undefined st);
          raw = nested d ''expected_ack''; code = trim (ack_text raw); r = job_msg j
      in if truthy raw \<and> can \<and> code \<noteq> []
         then
           let m = with_fld ''expected_ack'' (Str code) (objects st1 r); st2 = set_object r m st1;
               st3 = (if truthy (fld m ''delivered'') then st2 else register_ack code (fld m ''id'') st2)
           in log_call (UpdateExpectedAck (fld m ''id'') (Str code)) (st3\<lparr>job := Some (j\<lparr>job_phase := AckSaving\<rparr>)\<rparr>)
         else accept_chunk j st1)"

text \<open>References of the messages in the feeds.\<close>

definition feed_refs :: "chat \<Rightarrow> nat set" where
  "feed_refs st = set (concat (map snd (channelFeeds st)))"

definition update_feeds :: "(props \<Rightarrow> bool) \<Rightarrow> (props \<Rightarrow> props) \<Rightarrow> chat \<Rightarrow> chat" where
  "update_feeds matches upd st =
     st\<lparr>objects := (\<lambda>r. if r \<in> feed_refs st \<and> matches (objects st r) then upd (objects st r) else objects st r)\<rparr>"

definition strip0x :: "jstr \<Rightarrow> jstr" where
  "strip0x s = (if startsWith s (js ''0x'') then drop 2 s else s)"

definition has_id :: "jsval \<Rightarrow> props \<Rightarrow> bool" where
  "has_id msgId m \<longleftrightarrow> fld m ''id'' = msgId \<or> fld m ''msg_id'' = msgId"

definition delivery_update :: "jsval \<Rightarrow> props \<Rightarrow> props" where
  "delivery_update tripTime m =
     with_fld ''trip_time_ms'' (js_or tripTime (Num (Fin 0)))
       (with_fld ''status'' (Str (js ''delivered'')) (with_fld ''delivered'' (Bool True) m))"

definition handleDeliveryAck :: "chat_env \<Rightarrow> jsval \<Rightarrow> chat \<Rightarrow> chat" where
  "handleDeliveryAck env payload st =
     (let ackClean = strip0x (trim (toLowerCase (to_string (js_or (js_or (getp payload (js ''ack_code'')) (getp payload (js ''code''))) (Str [])))))
      in if \<not> is_object payload \<or>
            truthy (getp payload (js ''station_id'')) \<and> getp payload (js ''station_id'') \<noteq> stationId env \<or>
            ackClean = [] \<or> all_zero ackClean then st
         else
           let given = getp payload (js ''msg_id'');
               msgId = (if truthy given then given else
                          (case map_of (pendingOutgoingAcks st) ackClean of Some i \<Rightarrow> i | None \<Rightarrow> Undefined));
               tripTime = js_or (js_or (getp payload (js ''trip_time_ms'')) (getp payload (js ''trip_time''))) (getp payload (js ''rtt_ms''));
               st1 = st\<lparr>ackTimeoutTimers := assoc_del ackClean (ackTimeoutTimers st),
                        pendingOutgoingAcks := assoc_del ackClean (pendingOutgoingAcks st)\<rparr>
           in log_call (UpdateDelivery msgId (Str ackClean) tripTime)
                (update_feeds (\<lambda>m. truthy msgId \<and> has_id msgId m \<or> trim (ack_text (fld m ''expected_ack'')) = ackClean)
                   (delivery_update tripTime) st1))"

definition status_update :: "jsval \<Rightarrow> jstr \<Rightarrow> props \<Rightarrow> props" where
  "status_update payload status m =
     (let m1 = with_fld ''status'' (Str status) m in
      if status = js ''delivered'' then with_fld ''delivered'' (Bool True) m1
      else if status = js ''retrying''
      then with_fld ''next_attempt_s'' (js_or (getp payload (js ''next_attempt_s'')) (Num (Fin 0)))
             (with_fld ''max_attempts'' (js_or (getp payload (js ''max_attempts'')) (Num (Fin 2)))
               (with_fld ''attempt'' (js_or (getp payload (js ''attempt'')) (Num (Fin 1))) m1))
      else m1)"

definition handleMessageStatus :: "jsval \<Rightarrow> chat \<Rightarrow> chat" where
  "handleMessageStatus payload st =
     (if \<not> truthy (getp payload (js ''msg_id'')) then st
      else
        let msgId = Str (to_string (getp payload (js ''msg_id'')));
            status = toLowerCase (to_string (js_or (getp payload (js ''status'')) (Str [])))
        in log_call (UpdateStatus msgId (Str status))
             (update_feeds (has_id msgId) (status_update payload status) st))"

subsection \<open>The composer\<close>

text \<open>The quotation of the message replied to; a line feed is the unit 0A.\<close>

definition quoted :: "(jstr \<times> jstr) option \<Rightarrow> jstr \<Rightarrow> jstr" where
  "quoted reply t =
     (case reply of
        Some (sender, snippet) \<Rightarrow>
          if snippet \<noteq> [] then js ''> ['' @ sender @ js '']: '' @ snippet @ [0x0A, 0x0A] @ t else t
      | None \<Rightarrow> t)"

text \<open>Where the fragments will go, whatever is chosen later.\<close>

definition destination :: "chat_env \<Rightarrow> chat \<Rightarrow> jstr option" where
  "destination env st =
     (case activeDmTarget st of
        None \<Rightarrow> None
      | Some t \<Rightarrow> if t = [] then None else Some (resolveCanonicalPubkey (knownNodes env) (Str t)))"

definition sendMessage :: "chat_env \<Rightarrow> chat \<Rightarrow> chat" where
  "sendMessage env st =
     (if sending st \<or> trim (chatInputText st) = [] then st
      else
        let quotes = (case replyingTo st of Some (_, snippet) \<Rightarrow> snippet \<noteq> [] | None \<Rightarrow> False);
            rawInput = quoted (replyingTo st) (trim (chatInputText st));
            j = \<lparr>chunks = splitUtf8Message rawInput (getMaxTextBytes env st), chunk_no = 0, canonicalTarget = destination env st,
                 channelIdx = activeChannelIdx st, dmName = activeDmName st, job_msg = 0, job_phase = Saving\<rparr>
        in start_chunk env j
             (st\<lparr>replyingTo := (if quotes then None else replyingTo st), sending := True, chatInputText := [],
                 drafts := assoc_del (js ''meshcore_draft_'' @ visibleFeed st) (drafts st)\<rparr>))"

subsection \<open>Choosing a conversation\<close>

definition switchChannel :: "jsval \<Rightarrow> chat \<Rightarrow> chat" where
  "switchChannel idx st =
     st\<lparr>activeChannelIdx := (if truthy (Num (to_number idx)) then to_number idx else Fin 0),
        activeDmTarget := None, activeDmName := None\<rparr>"

definition openDmConversation :: "chat_env \<Rightarrow> jsval \<Rightarrow> jstr \<Rightarrow> chat \<Rightarrow> chat" where
  "openDmConversation env pubkey name st =
     (let canonicalPk = resolveCanonicalPubkey (knownNodes env) pubkey in
      if \<not> truthy pubkey then st
      else if isLocalTarget env canonicalPk then toast ''toast.dm_local_err'' Undefined st
      else (case findNode (trim (toLowerCase canonicalPk)) (map snd (knownNodes env)) of
              Inl _ \<Rightarrow> st
            | Inr node \<Rightarrow>
                if isRepeater node then toast ''toast.repeater_chat_err'' Undefined st
                else
                  let short = take 8 canonicalPk; shown = (if name \<noteq> [] then name else short);
                      own = (str_includes shown (localName env) \<or> str_includes shown (js ''Local Station''))
                  in st\<lparr>activeDmTarget := Some canonicalPk,
                        activeDmName := Some (if own then to_string (js_or (getp node (js ''name'')) (Str short)) else shown)\<rparr>))"

text \<open>A bubble of an outgoing message that still waits for its code registers it (again).\<close>

definition paint_bubble :: "nat \<Rightarrow> chat \<Rightarrow> chat" where
  "paint_bubble r st =
     (let m = objects st r; code = trim (ack_text (fld m ''expected_ack'')) in
      if truthy (fld m ''expected_ack'') \<and> code \<noteq> [] \<and> truthy (fld m ''is_outgoing'') \<and> \<not> truthy (fld m ''delivered'')
      then register_ack code (js_or (fld m ''id'') (fld m ''msg_id'')) st else st)"

subsection \<open>Events\<close>

datatype chat_event =
    Submit
  | Continue
  | TxAnswer net
  | AckFrame jsval
  | StatusFrame jsval
  | AckTimer jstr
  | BubblePainted nat
  | ChannelChosen jsval
  | ConversationOpened jsval jstr
  | Typed jstr
  | ReplyChosen jstr jstr
  | HistoryCleared

text \<open>
  \<open>Continue\<close> ends whatever the job waits for, except the answer of the bridge; an answer arrives
  only while the job waits for one.
\<close>

definition continue_job :: "chat_env \<Rightarrow> job \<Rightarrow> chat \<Rightarrow> chat" where
  "continue_job env j st =
     (case job_phase j of
        Saving \<Rightarrow> post_chunk j st
      | Transmitting \<Rightarrow> st
      | StatusSaving d \<Rightarrow> track_delivery d j st
      | AckSaving \<Rightarrow> accept_chunk j st
      | FailureSaving e \<Rightarrow> refuse_chunk j (toast ''chat.send_failed'' e st)
      | Pacing \<Rightarrow> start_chunk env (j\<lparr>chunk_no := chunk_no j + 1\<rparr>) st)"

definition chat_step :: "chat_env \<Rightarrow> chat_event \<Rightarrow> chat \<Rightarrow> chat" where
  "chat_step env ev st =
     (case ev of
        Submit \<Rightarrow> sendMessage env st
      | Continue \<Rightarrow> (case job st of Some j \<Rightarrow> continue_job env j st | None \<Rightarrow> st)
      | TxAnswer reply \<Rightarrow>
          (case job st of Some j \<Rightarrow> if job_phase j = Transmitting then tx_answered env reply j st else st | None \<Rightarrow> st)
      | AckFrame payload \<Rightarrow> handleDeliveryAck env payload st
      | StatusFrame payload \<Rightarrow> handleMessageStatus payload st
      | AckTimer code \<Rightarrow> ack_timeout code st
      | BubblePainted r \<Rightarrow> paint_bubble r st
      | ChannelChosen idx \<Rightarrow> switchChannel idx st
      | ConversationOpened pk name \<Rightarrow> openDmConversation env pk name st
      | Typed t \<Rightarrow> st\<lparr>chatInputText := t\<rparr>
      | ReplyChosen sender snippet \<Rightarrow> st\<lparr>replyingTo := Some (sender, snippet)\<rparr>
      | HistoryCleared \<Rightarrow> (clearAllAckTimeouts st)\<lparr>channelFeeds := [], pendingOutgoingAcks := []\<rparr>)"

definition chat_run :: "chat_env \<Rightarrow> chat_event list \<Rightarrow> chat \<Rightarrow> chat" where
  "chat_run env evs st = fold (chat_step env) evs st"

subsection \<open>Frames\<close>

lemma split_concat: "concat (splitUtf8Message s m) = s"
proof -
  have "concat (concat (map js_chars (splitUtf8Message s m))) = s" by (simp add: split_chars)
  then show ?thesis by (simp add: concat_map_concat[symmetric] comp_def)
qed

lemma log_call_frame [simp]:
  "objects (log_call c st) = objects st" "next_obj (log_call c st) = next_obj st" "job (log_call c st) = job st"
  "sending (log_call c st) = sending st" "tx_log (log_call c st) = tx_log st" "channelFeeds (log_call c st) = channelFeeds st"
  "chatInputText (log_call c st) = chatInputText st" "pendingOutgoingAcks (log_call c st) = pendingOutgoingAcks st"
  "ackTimeoutTimers (log_call c st) = ackTimeoutTimers st" "visibleFeed (log_call c st) = visibleFeed st"
  by (simp_all add: log_call_def visibleFeed_def)

lemma toast_frame [simp]:
  "objects (toast k a st) = objects st" "next_obj (toast k a st) = next_obj st" "job (toast k a st) = job st"
  "sending (toast k a st) = sending st" "tx_log (toast k a st) = tx_log st" "channelFeeds (toast k a st) = channelFeeds st"
  "chatInputText (toast k a st) = chatInputText st" "pendingOutgoingAcks (toast k a st) = pendingOutgoingAcks st"
  "ackTimeoutTimers (toast k a st) = ackTimeoutTimers st" "visibleFeed (toast k a st) = visibleFeed st"
  by (simp_all add: toast_def visibleFeed_def)

lemma set_object_frame [simp]:
  "objects (set_object r m st) = (objects st)(r := m)" "next_obj (set_object r m st) = next_obj st" "job (set_object r m st) = job st"
  "sending (set_object r m st) = sending st" "tx_log (set_object r m st) = tx_log st"
  "channelFeeds (set_object r m st) = channelFeeds st" "chatInputText (set_object r m st) = chatInputText st"
  "pendingOutgoingAcks (set_object r m st) = pendingOutgoingAcks st" "ackTimeoutTimers (set_object r m st) = ackTimeoutTimers st"
  by (simp_all add: set_object_def)

lemma push_feed_frame [simp]:
  "objects (push_feed k r st) = objects st" "next_obj (push_feed k r st) = next_obj st" "job (push_feed k r st) = job st"
  "sending (push_feed k r st) = sending st" "tx_log (push_feed k r st) = tx_log st"
  "chatInputText (push_feed k r st) = chatInputText st"
  "pendingOutgoingAcks (push_feed k r st) = pendingOutgoingAcks st" "ackTimeoutTimers (push_feed k r st) = ackTimeoutTimers st"
  by (simp_all add: push_feed_def Let_def)

lemma register_ack_frame [simp]:
  "objects (register_ack c i st) = objects st" "next_obj (register_ack c i st) = next_obj st" "job (register_ack c i st) = job st"
  "sending (register_ack c i st) = sending st" "tx_log (register_ack c i st) = tx_log st"
  "channelFeeds (register_ack c i st) = channelFeeds st" "chatInputText (register_ack c i st) = chatInputText st"
  by (simp_all add: register_ack_def)

lemma finish_sending_frame [simp]:
  "objects (finish_sending st) = objects st" "next_obj (finish_sending st) = next_obj st" "job (finish_sending st) = None"
  "\<not> sending (finish_sending st)" "tx_log (finish_sending st) = tx_log st" "channelFeeds (finish_sending st) = channelFeeds st"
  "chatInputText (finish_sending st) = chatInputText st" "pendingOutgoingAcks (finish_sending st) = pendingOutgoingAcks st"
  "ackTimeoutTimers (finish_sending st) = ackTimeoutTimers st"
  by (simp_all add: finish_sending_def)

lemma refuse_chunk_frame [simp]:
  "objects (refuse_chunk j st) = objects st" "next_obj (refuse_chunk j st) = next_obj st" "job (refuse_chunk j st) = None"
  "\<not> sending (refuse_chunk j st)" "tx_log (refuse_chunk j st) = tx_log st" "channelFeeds (refuse_chunk j st) = channelFeeds st"
  "pendingOutgoingAcks (refuse_chunk j st) = pendingOutgoingAcks st" "ackTimeoutTimers (refuse_chunk j st) = ackTimeoutTimers st"
  by (simp_all add: refuse_chunk_def)

text \<open>Events of the surroundings leave the running job, its requests and the identities alone.\<close>

definition outside :: "chat_event \<Rightarrow> bool" where
  "outside ev \<longleftrightarrow> ev \<noteq> Submit \<and> ev \<noteq> Continue \<and> (\<forall>r. ev \<noteq> TxAnswer r)"

definition same_job :: "chat \<Rightarrow> chat \<Rightarrow> bool" where
  "same_job st st' \<longleftrightarrow> job st' = job st \<and> sending st' = sending st \<and> tx_log st' = tx_log st \<and> next_obj st' = next_obj st \<and>
     (\<forall>r. fld (objects st' r) ''id'' = fld (objects st r) ''id'')"

lemma update_feeds_same:
  "(\<And>m. fld (u m) ''id'' = fld m ''id'') \<Longrightarrow> same_job st (update_feeds p u st)"
  by (simp add: same_job_def update_feeds_def)

lemma update_ids:
  "fld (status_update p s m) ''id'' = fld m ''id''" "fld (delivery_update t m) ''id'' = fld m ''id''"
  by (simp_all add: status_update_def delivery_update_def fld_with_fld Let_def)

lemma log_call_same: "same_job st (log_call c s) = same_job st s"
  by (simp add: same_job_def)

lemma same_job_trans: "same_job a b \<Longrightarrow> same_job b c \<Longrightarrow> same_job a c"
  by (simp add: same_job_def)

lemma handleDeliveryAck_same: "same_job st (handleDeliveryAck env p st)"
proof -
  have "same_job st (st\<lparr>ackTimeoutTimers := a, pendingOutgoingAcks := b\<rparr>)" for a b by (simp add: same_job_def)
  then have "same_job st (update_feeds q (delivery_update t) (st\<lparr>ackTimeoutTimers := a, pendingOutgoingAcks := b\<rparr>))" for a b q t
    using update_feeds_same[of "delivery_update t"] update_ids(2) same_job_trans by blast
  moreover have "same_job st st" by (simp add: same_job_def)
  ultimately show ?thesis unfolding handleDeliveryAck_def Let_def by (simp add: log_call_same del: js_simps)
qed

lemma handleMessageStatus_same: "same_job st (handleMessageStatus p st)"
proof -
  have "same_job st st" by (simp add: same_job_def)
  then show ?thesis unfolding handleMessageStatus_def Let_def
    by (simp add: log_call_same update_feeds_same update_ids del: js_simps)
qed

lemma outside_same: "outside ev \<Longrightarrow> same_job st (chat_step env ev st)"
proof (cases ev)
  case (AckFrame p)
  then show ?thesis by (simp add: chat_step_def handleDeliveryAck_same)
next
  case (StatusFrame p)
  then show ?thesis by (simp add: chat_step_def handleMessageStatus_same)
qed (auto simp: outside_def chat_step_def same_job_def ack_timeout_def paint_bubble_def switchChannel_def openDmConversation_def
      clearAllAckTimeouts_def toast_def Let_def split: sum.split)

subsection \<open>The fragments of a message\<close>

definition fragment :: "chat_env \<Rightarrow> jstr option \<Rightarrow> jnum \<Rightarrow> jstr list \<Rightarrow> nat \<Rightarrow> nat \<Rightarrow> tx_request" where
  "fragment env dest ch cs r0 k =
     \<lparr>tx_to = recipient dest, tx_channel = ch, tx_text = cs ! k, tx_id = newId env (r0 + k)\<rparr>"

text \<open>What holds of the job: how many of its fragments were posted, and which is under way.\<close>

definition job_at :: "chat_env \<Rightarrow> jstr option \<Rightarrow> jnum \<Rightarrow> jstr list \<Rightarrow> nat \<Rightarrow> chat \<Rightarrow> job \<Rightarrow> bool" where
  "job_at env dest ch cs r0 st j \<longleftrightarrow>
     sending st \<and> chunks j = cs \<and> canonicalTarget j = dest \<and> channelIdx j = ch \<and> chunk_no j < length cs \<and>
     next_obj st = r0 + chunk_no j + 1 \<and> job_msg j = r0 + chunk_no j \<and>
     fld (objects st (job_msg j)) ''id'' = Str (newId env (job_msg j)) \<and>
     (job_phase j = Pacing \<longrightarrow> chunk_no j + 1 < length cs)"

definition posted :: "job option \<Rightarrow> nat \<Rightarrow> bool" where
  "posted jo n \<longleftrightarrow> (case jo of Some j \<Rightarrow> n = chunk_no j + (if job_phase j = Saving then 0 else 1) | None \<Rightarrow> True)"

definition job_inv :: "chat_env \<Rightarrow> tx_request list \<Rightarrow> jstr option \<Rightarrow> jnum \<Rightarrow> jstr list \<Rightarrow> nat \<Rightarrow> chat \<Rightarrow> bool" where
  "job_inv env base dest ch cs r0 st \<longleftrightarrow>
     (\<exists>n \<le> length cs. tx_log st = base @ map (fragment env dest ch cs r0) [0..<n] \<and> posted (job st) n) \<and>
     (case job st of Some j \<Rightarrow> job_at env dest ch cs r0 st j | None \<Rightarrow> \<not> sending st)"

lemma place_message_inv:
  assumes "chunk_no j < length cs" "chunks j = cs" "canonicalTarget j = dest" "channelIdx j = ch" "sending st"
    "next_obj st = r0 + chunk_no j" "tx_log st = base @ map (fragment env dest ch cs r0) [0..<chunk_no j]"
  shows "job_inv env base dest ch cs r0 (place_message env j st)"
  using assms unfolding job_inv_def place_message_def Let_def
  by (simp add: job_at_def posted_def outgoing_message_def fld_def getp_def)

lemma start_chunk_inv:
  assumes "chunk_no j < length cs" "chunks j = cs" "canonicalTarget j = dest" "channelIdx j = ch" "sending st"
    "next_obj st = r0 + chunk_no j" "tx_log st = base @ map (fragment env dest ch cs r0) [0..<chunk_no j]"
  shows "job_inv env base dest ch cs r0 (start_chunk env j st)"
proof -
  have stop: "job_inv env base dest ch cs r0 (finish_sending st)" "job_inv env base dest ch cs r0 (refuse_chunk j (toast k a st))" for k a
    using assms by (auto simp: job_inv_def posted_def intro!: exI[of _ "chunk_no j"])
  show ?thesis
    using place_message_inv[OF assms] stop unfolding start_chunk_def by (auto split: option.split sum.split)
qed

lemma accept_chunk_inv:
  assumes "job_inv env base dest ch cs r0 st" "job st = Some j" "job_phase j \<noteq> Saving"
    "tx_log st' = tx_log st" "next_obj st' = next_obj st" "sending st' = sending st"
    "fld (objects st' (job_msg j)) ''id'' = fld (objects st (job_msg j)) ''id''"
  shows "job_inv env base dest ch cs r0 (accept_chunk j st')"
  using assms by (auto simp: job_inv_def posted_def accept_chunk_def job_at_def)

lemma next_phase_inv:
  assumes "job_inv env base dest ch cs r0 st" "job st = Some j" "job_phase j \<noteq> Saving" "p \<noteq> Saving" "p \<noteq> Pacing"
    "tx_log st' = tx_log st" "next_obj st' = next_obj st" "sending st' = sending st"
    "fld (objects st' (job_msg j)) ''id'' = fld (objects st (job_msg j)) ''id''"
    "job st' = Some (j\<lparr>job_phase := p\<rparr>)"
  shows "job_inv env base dest ch cs r0 st'"
  using assms by (auto simp: job_inv_def posted_def job_at_def)

lemma tx_answered_inv:
  assumes "job_inv env base dest ch cs r0 st" "job st = Some j" "job_phase j = Transmitting"
  shows "job_inv env base dest ch cs r0 (tx_answered env reply j st)"
proof (cases "accepted_answer reply")
  case None
  then show ?thesis
    using assms unfolding tx_answered_def Let_def
    by (auto intro!: accept_chunk_inv[OF assms(1,2)] next_phase_inv[OF assms(1,2), of "FailureSaving (tx_error env reply)"] simp: fld_with_fld)
next
  case (Some d)
  then show ?thesis
    using assms unfolding tx_answered_def Let_def
    by (auto intro!: next_phase_inv[OF assms(1,2), of "StatusSaving d"] simp: fld_with_fld)
qed

lemma track_delivery_inv:
  assumes "job_inv env base dest ch cs r0 st" "job st = Some j" "job_phase j = StatusSaving d"
  shows "job_inv env base dest ch cs r0 (track_delivery d j st)"
  using assms unfolding track_delivery_def Let_def
  by (auto intro!: accept_chunk_inv[OF assms(1,2)] next_phase_inv[OF assms(1,2), of AckSaving] simp: fld_with_fld)

lemma post_chunk_inv:
  assumes inv: "job_inv env base dest ch cs r0 st" and j: "job st = Some j" "job_phase j = Saving"
  shows "job_inv env base dest ch cs r0 (post_chunk j st)"
proof -
  from inv j obtain n where n: "tx_log st = base @ map (fragment env dest ch cs r0) [0..<n]" "n = chunk_no j"
    and a: "job_at env dest ch cs r0 st j" by (auto simp: job_inv_def posted_def)
  then show ?thesis
    by (auto simp: job_inv_def posted_def job_at_def post_chunk_def fragment_def intro!: exI[of _ "Suc n"])
qed

lemma continue_job_inv:
  assumes inv: "job_inv env base dest ch cs r0 st" and j: "job st = Some j"
  shows "job_inv env base dest ch cs r0 (continue_job env j st)"
proof (cases "job_phase j")
  case Saving
  then show ?thesis using post_chunk_inv[OF inv j] by (simp add: continue_job_def)
next
  case Transmitting
  then show ?thesis using inv by (simp add: continue_job_def)
next
  case (StatusSaving d)
  then show ?thesis using track_delivery_inv[OF inv j] by (simp add: continue_job_def)
next
  case AckSaving
  then show ?thesis using accept_chunk_inv[OF inv j, of st] by (simp add: continue_job_def)
next
  case (FailureSaving e)
  then show ?thesis using inv by (auto simp: continue_job_def job_inv_def posted_def)
next
  case Pacing
  from inv j have at: "job_at env dest ch cs r0 st j" by (simp add: job_inv_def)
  have "tx_log st = base @ map (fragment env dest ch cs r0) [0..<Suc (chunk_no j)]"
    using inv j Pacing by (auto simp: job_inv_def posted_def)
  with at Pacing have "job_inv env base dest ch cs r0 (start_chunk env (j\<lparr>chunk_no := chunk_no j + 1\<rparr>) st)"
    by (intro start_chunk_inv) (auto simp: job_at_def)
  then show ?thesis using Pacing by (simp add: continue_job_def)
qed

lemma same_job_inv: "same_job st st' \<Longrightarrow> job_inv env base dest ch cs r0 st \<Longrightarrow> job_inv env base dest ch cs r0 st'"
  by (auto simp: same_job_def job_inv_def job_at_def split: option.splits)

lemma chat_step_inv:
  assumes "job_inv env base dest ch cs r0 st" "ev \<noteq> Submit"
  shows "job_inv env base dest ch cs r0 (chat_step env ev st)"
proof (cases "outside ev")
  case True
  then show ?thesis using outside_same same_job_inv assms(1) by blast
next
  case False
  with assms(2) consider "ev = Continue" | reply where "ev = TxAnswer reply" by (auto simp: outside_def)
  then show ?thesis
    by cases (use assms(1) continue_job_inv tx_answered_inv in \<open>auto simp: chat_step_def split: option.split\<close>)
qed

lemma chat_run_inv:
  "job_inv env base dest ch cs r0 st \<Longrightarrow> Submit \<notin> set evs \<Longrightarrow> job_inv env base dest ch cs r0 (chat_run env evs st)"
  by (induction evs arbitrary: st) (auto simp: chat_run_def chat_step_inv)

definition busy_ok :: "chat \<Rightarrow> bool" where
  "busy_ok st \<longleftrightarrow> (sending st \<longleftrightarrow> job st \<noteq> None)"

lemma busy_step: "busy_ok st \<Longrightarrow> busy_ok (chat_step env ev st)"
proof (cases "outside ev")
  case True
  then show "busy_ok st \<Longrightarrow> ?thesis" using outside_same[OF True, of st env] by (simp add: same_job_def busy_ok_def)
next
  case False
  assume ok: "busy_ok st"
  have start: "sending s \<Longrightarrow> busy_ok (start_chunk env j s)" for j s
    by (auto simp: start_chunk_def busy_ok_def place_message_def Let_def split: option.split sum.split)
  have accept: "sending s \<Longrightarrow> busy_ok (accept_chunk j s)" for j s
    by (simp add: accept_chunk_def busy_ok_def)
  have sub: "busy_ok (sendMessage env st)" using ok start by (simp add: sendMessage_def Let_def)
  have cont: "busy_ok (continue_job env j st)" if "job st = Some j" for j
    using that ok start accept
    by (auto simp: continue_job_def post_chunk_def track_delivery_def busy_ok_def Let_def split: phase.split)
  have ans: "busy_ok (tx_answered env r j st)" if "job st = Some j" for r j
    using that ok accept by (auto simp: tx_answered_def Let_def busy_ok_def split: option.split)
  from False consider "ev = Submit" | "ev = Continue" | r where "ev = TxAnswer r" by (auto simp: outside_def)
  then show ?thesis by cases (use ok sub cont ans in \<open>auto simp: chat_step_def split: option.split\<close>)
qed

lemma chat_run_preserves: "(\<And>ev s. ev \<in> set evs \<Longrightarrow> P s \<Longrightarrow> P (chat_step env ev s)) \<Longrightarrow> P st \<Longrightarrow> P (chat_run env evs st)"
  unfolding chat_run_def by (rule fold_preserves)

lemma submit_inv:
  assumes "\<not> sending st" "trim (chatInputText st) \<noteq> []"
    "cs = splitUtf8Message (quoted (replyingTo st) (trim (chatInputText st))) (getMaxTextBytes env st)"
  shows "job_inv env (tx_log st) (destination env st) (activeChannelIdx st) cs (next_obj st) (sendMessage env st)"
proof -
  have "quoted (replyingTo st) (trim (chatInputText st)) \<noteq> []" using assms(2) by (auto simp: quoted_def split: option.split)
  then have "cs \<noteq> []" using split_concat[of "quoted (replyingTo st) (trim (chatInputText st))" "getMaxTextBytes env st"] assms(3) by auto
  then show ?thesis
    using assms(1,2) unfolding sendMessage_def Let_def assms(3) by (auto intro!: start_chunk_inv)
qed

text \<open>
  C2: a message reaches one conversation, in order and without repetition. Whatever happens while
  it is being sent -- another conversation is opened, acknowledgements and status frames arrive,
  the history is cleared -- the requests made since it was submitted are its first fragments, in
  order, each once, under the identity of its own bubble, all addressed to the conversation in
  which it was submitted; and the fragments put together are the text, with its quotation.
\<close>
theorem fragments_reach_one_conversation:
  assumes "\<not> sending st" "trim (chatInputText st) \<noteq> []" "Submit \<notin> set evs"
    and "txt = quoted (replyingTo st) (trim (chatInputText st))"
    and "cs = splitUtf8Message txt (getMaxTextBytes env st)"
  shows "concat cs = txt \<and>
    (\<exists>n \<le> length cs. tx_log (chat_run env (Submit # evs) st) =
       tx_log st @ map (\<lambda>k. \<lparr>tx_to = recipient (destination env st), tx_channel = activeChannelIdx st,
                             tx_text = cs ! k, tx_id = newId env (next_obj st + k)\<rparr>) [0..<n])"
proof -
  have "job_inv env (tx_log st) (destination env st) (activeChannelIdx st) cs (next_obj st) (chat_run env evs (sendMessage env st))"
    using submit_inv assms by (intro chat_run_inv) auto
  then have "job_inv env (tx_log st) (destination env st) (activeChannelIdx st) cs (next_obj st) (chat_run env (Submit # evs) st)"
    by (simp add: chat_run_def chat_step_def)
  then show ?thesis using assms(5) by (auto simp: job_inv_def fragment_def[abs_def] split_concat)
qed

theorem fragments_reach_one_conversation_witness:
  "\<forall>env. \<exists>n \<le> length (splitUtf8Message (js ''hi'') (getMaxTextBytes env (new_chat\<lparr>chatInputText := js ''hi''\<rparr>))).
     tx_log (chat_run env [Submit, ConversationOpened (Str (js ''aabbccddee'')) [], Continue] (new_chat\<lparr>chatInputText := js ''hi''\<rparr>)) =
     map (\<lambda>k. \<lparr>tx_to = js ''broadcast'', tx_channel = Fin 0,
               tx_text = splitUtf8Message (js ''hi'') (getMaxTextBytes env (new_chat\<lparr>chatInputText := js ''hi''\<rparr>)) ! k,
               tx_id = newId env k\<rparr>) [0..<n]"
proof
  fix env
  let ?st = "new_chat\<lparr>chatInputText := js ''hi''\<rparr>"
  have t: "trim (js ''hi'') = js ''hi''" by (rule trim_visible) simp
  have ne: "js ''hi'' \<noteq> []" by simp
  from fragments_reach_one_conversation[of ?st "[ConversationOpened (Str (js ''aabbccddee'')) [], Continue]" "js ''hi''" _ env]
  show "\<exists>n \<le> length (splitUtf8Message (js ''hi'') (getMaxTextBytes env ?st)).
     tx_log (chat_run env [Submit, ConversationOpened (Str (js ''aabbccddee'')) [], Continue] ?st) =
     map (\<lambda>k. \<lparr>tx_to = js ''broadcast'', tx_channel = Fin 0, tx_text = splitUtf8Message (js ''hi'') (getMaxTextBytes env ?st) ! k,
               tx_id = newId env k\<rparr>) [0..<n]"
    using t ne by (simp add: new_chat_def quoted_def destination_def recipient_def del: js_simps)
qed

text \<open>
  A fragment that the bridge refuses loses nothing: when its failure has been stored and the
  user is still in that conversation with an empty composer, the composer gets back exactly the
  part of the text that was not accepted, from the refused fragment on.
\<close>
theorem refused_text_returns:
  assumes "\<not> sending st" "trim (chatInputText st) \<noteq> []" "Submit \<notin> set evs"
    and "txt = quoted (replyingTo st) (trim (chatInputText st))"
    and "st' = chat_run env (Submit # evs) st" "job st' = Some j" "job_phase j = FailureSaving e"
    and "feed_of (destination env st) (activeChannelIdx st) = visibleFeed st'" "trim (chatInputText st') = []"
  shows "concat (map tx_text (butlast (drop (length (tx_log st)) (tx_log st')))) @ chatInputText (chat_step env Continue st') = txt \<and>
    \<not> sending (chat_step env Continue st')"
proof -
  let ?cs = "splitUtf8Message txt (getMaxTextBytes env st)"
  have "job_inv env (tx_log st) (destination env st) (activeChannelIdx st) ?cs (next_obj st) (chat_run env evs (sendMessage env st))"
    using submit_inv assms(1-4) by (intro chat_run_inv) auto
  then have inv: "job_inv env (tx_log st) (destination env st) (activeChannelIdx st) ?cs (next_obj st) st'"
    by (simp add: assms(5) chat_run_def chat_step_def)
  then have at: "chunks j = ?cs" "canonicalTarget j = destination env st" "channelIdx j = activeChannelIdx st" "chunk_no j < length ?cs"
    and log: "tx_log st' = tx_log st @ map (fragment env (destination env st) (activeChannelIdx st) ?cs (next_obj st)) [0..<Suc (chunk_no j)]"
    using assms(6,7) by (auto simp: job_inv_def job_at_def posted_def)
  have "map tx_text (butlast (drop (length (tx_log st)) (tx_log st'))) = map ((!) ?cs) [0..<chunk_no j]"
    by (simp add: log fragment_def comp_def)
  also have "\<dots> = take (chunk_no j) ?cs" using at(4) by (simp add: map_nth take_map[symmetric] list_eq_iff_nth_eq)
  finally have sent: "concat (map tx_text (butlast (drop (length (tx_log st)) (tx_log st')))) = concat (take (chunk_no j) ?cs)" by simp
  have "chatInputText (chat_step env Continue st') = concat (drop (chunk_no j) ?cs)"
    using assms(6-9) at by (simp add: chat_step_def continue_job_def refuse_chunk_def)
  moreover have "concat (take (chunk_no j) ?cs) @ concat (drop (chunk_no j) ?cs) = txt"
    by (simp flip: concat_append add: split_concat)
  ultimately show ?thesis using sent assms(6,7) by (simp add: chat_step_def continue_job_def)
qed

definition sample_env :: chat_env where
  "sample_env = \<lparr>knownNodes = [], localNodePubkey = [], localConfig = Obj [], stationId = Null, localName = [],
     engineMessage = (\<lambda>_. []), newId = (\<lambda>n. js ''msg_'' @ nat_str n), newTimestamp = (\<lambda>_. [])\<rparr>"

theorem refused_text_returns_witness:
  "chatInputText (chat_step sample_env Continue
     (chat_run sample_env [Submit, Continue, TxAnswer (Rejected TypeError)] (new_chat\<lparr>chatInputText := js ''hi''\<rparr>))) = js ''hi''"
proof -
  let ?st = "new_chat\<lparr>chatInputText := js ''hi''\<rparr>"
  let ?st' = "chat_run sample_env [Submit, Continue, TxAnswer (Rejected TypeError)] ?st"
  have t: "trim (js ''hi'') = js ''hi''" by (rule trim_visible) simp
  have ne: "js ''hi'' \<noteq> []" by simp
  have "getUtf8ByteLength (js ''hi'') \<le> getMaxTextBytes sample_env ?st"
    by (simp add: getUtf8ByteLength_sum is_high_def char_width_unit getMaxTextBytes_def sample_env_def js_or_def getp_def
        new_chat_def getMaxLoraTextBudget_def MAX_LORA_TEXT_BYTES_def)
  then have cs: "splitUtf8Message (js ''hi'') (getMaxTextBytes sample_env ?st) = [js ''hi'']"
    using ne by (simp add: splitUtf8Message_def del: js_simps)
  have "\<exists>j e. job ?st' = Some j \<and> job_phase j = FailureSaving e"
    using t ne cs by (simp add: chat_run_def chat_step_def sendMessage_def new_chat_def Let_def quoted_def start_chunk_def destination_def
        place_message_def continue_job_def post_chunk_def tx_answered_def accepted_answer_def outgoing_message_def
        counted_delivered_def is_delivered_def fld_def getp_def log_call_def push_feed_def set_object_def)
  then obtain j e where j: "job ?st' = Some j" "job_phase j = FailureSaving e" by blast
  have idle: "\<not> sending ?st" "trim (chatInputText ?st) \<noteq> []" using t ne by (simp_all add: new_chat_def)
  have q: "js ''hi'' = quoted (replyingTo ?st) (trim (chatInputText ?st))" using t by (simp add: quoted_def new_chat_def)
  have v: "feed_of (destination sample_env ?st) (activeChannelIdx ?st) = visibleFeed ?st'" "trim (chatInputText ?st') = []"
    using t ne cs by (simp_all add: chat_run_def chat_step_def sendMessage_def new_chat_def Let_def quoted_def start_chunk_def destination_def
        place_message_def continue_job_def post_chunk_def tx_answered_def accepted_answer_def outgoing_message_def visibleFeed_def
        counted_delivered_def is_delivered_def fld_def getp_def log_call_def push_feed_def set_object_def)
  have log: "length (tx_log ?st') \<le> 1" "tx_log ?st = []"
    using t ne cs by (simp_all add: chat_run_def chat_step_def sendMessage_def new_chat_def Let_def quoted_def start_chunk_def destination_def
        place_message_def continue_job_def post_chunk_def tx_answered_def accepted_answer_def outgoing_message_def
        counted_delivered_def is_delivered_def fld_def getp_def log_call_def push_feed_def set_object_def)
  from refused_text_returns[OF idle _ q refl j v] log show ?thesis by (cases "tx_log ?st'") auto
qed

subsection \<open>Sending ends\<close>

definition phase_rank :: "phase \<Rightarrow> nat" where
  "phase_rank p = (case p of Saving \<Rightarrow> 5 | Transmitting \<Rightarrow> 4 | StatusSaving _ \<Rightarrow> 3 | AckSaving \<Rightarrow> 2 | FailureSaving _ \<Rightarrow> 2 | Pacing \<Rightarrow> 1)"

definition job_measure :: "chat \<Rightarrow> nat" where
  "job_measure st =
     (case job st of
        Some j \<Rightarrow> 6 * (length (chunks j) - (chunk_no j + 1)) + phase_rank (job_phase j)
      | None \<Rightarrow> 0)"

text \<open>The event that the job waits for.\<close>

definition awaited :: "chat \<Rightarrow> chat_event \<Rightarrow> bool" where
  "awaited st ev =
     (case job st of
        Some j \<Rightarrow> if job_phase j = Transmitting then (case ev of TxAnswer _ \<Rightarrow> True | _ \<Rightarrow> False) else ev = Continue
      | None \<Rightarrow> False)"

fun progress :: "chat_env \<Rightarrow> chat_event list \<Rightarrow> chat \<Rightarrow> nat" where
  "progress env [] st = 0"
| "progress env (ev # evs) st = (if awaited st ev then 1 else 0) + progress env evs (chat_step env ev st)"

lemma measure_frames [simp]:
  "job_measure (finish_sending st) = 0" "job_measure (refuse_chunk j st) = 0"
  by (simp_all add: job_measure_def)

lemma measure_place: "job_measure (place_message env j st) = 6 * (length (chunks j) - (chunk_no j + 1)) + 5"
  by (simp add: place_message_def job_measure_def phase_rank_def Let_def)

lemma measure_start: "job_measure (start_chunk env j st) \<le> 6 * (length (chunks j) - (chunk_no j + 1)) + 5"
  by (auto simp: start_chunk_def measure_place split: option.split sum.split)

lemma measure_accept: "job_measure (accept_chunk j st) \<le> 6 * (length (chunks j) - (chunk_no j + 1)) + 1"
  by (simp add: accept_chunk_def finish_sending_def) (simp add: job_measure_def phase_rank_def)

definition pacing_ok :: "chat \<Rightarrow> bool" where
  "pacing_ok st \<longleftrightarrow> (\<forall>j. job st = Some j \<longrightarrow> job_phase j = Pacing \<longrightarrow> chunk_no j + 1 < length (chunks j))"

lemma measure_answer: "job st = Some j \<Longrightarrow> job_phase j = Transmitting \<Longrightarrow> job_measure (tx_answered env r j st) < job_measure st"
proof -
  assume j: "job st = Some j" "job_phase j = Transmitting"
  have "job_measure (tx_answered env r j st) \<le> 6 * (length (chunks j) - (chunk_no j + 1)) + 3"
    using measure_accept[of j st] unfolding tx_answered_def Let_def
    by (auto simp: job_measure_def phase_rank_def split: option.split)
  then show ?thesis using j by (simp add: job_measure_def phase_rank_def)
qed

lemma measure_continue:
  assumes j: "job st = Some j" "job_phase j \<noteq> Transmitting" and "pacing_ok st"
  shows "job_measure (continue_job env j st) < job_measure st"
proof (cases "job_phase j")
  case Saving
  then show ?thesis using j by (simp add: continue_job_def post_chunk_def job_measure_def phase_rank_def)
next
  case (StatusSaving d)
  have "job_measure (track_delivery d j st) \<le> 6 * (length (chunks j) - (chunk_no j + 1)) + 2"
    using measure_accept[of j st] measure_accept[of j "toast k a st" for k a] unfolding track_delivery_def Let_def
    by (auto simp: job_measure_def phase_rank_def intro: le_SucI)
  then show ?thesis using j StatusSaving by (simp add: continue_job_def job_measure_def phase_rank_def)
next
  case AckSaving
  then show ?thesis using j measure_accept[of j st] by (simp add: continue_job_def job_measure_def phase_rank_def)
next
  case (FailureSaving e)
  then show ?thesis using j by (simp add: continue_job_def) (simp add: job_measure_def phase_rank_def)
next
  case Pacing
  then have "chunk_no j + 1 < length (chunks j)" using assms by (simp add: pacing_ok_def)
  then show ?thesis
    using Pacing j measure_start[of env "j\<lparr>chunk_no := chunk_no j + 1\<rparr>" st]
    by (simp add: continue_job_def job_measure_def phase_rank_def)
qed (use j in simp)

lemma pacing_step: "pacing_ok st \<Longrightarrow> pacing_ok (chat_step env ev st)"
proof -
  assume ok: "pacing_ok st"
  have place: "pacing_ok (place_message env j s)" for j s by (simp add: pacing_ok_def place_message_def Let_def)
  have none: "job s = None \<Longrightarrow> pacing_ok s" for s by (simp add: pacing_ok_def)
  have start: "pacing_ok (start_chunk env j s)" for j s
    by (auto simp: start_chunk_def place none split: option.split sum.split)
  have accept: "pacing_ok (accept_chunk j s)" for j s by (simp add: pacing_ok_def accept_chunk_def)
  have other: "job s = Some i \<Longrightarrow> job_phase i \<noteq> Pacing \<Longrightarrow> pacing_ok s" for i s by (auto simp: pacing_ok_def)
  have answer: "pacing_ok (tx_answered env r j st)" for r j
    unfolding tx_answered_def Let_def using accept by (auto intro!: other split: option.split)
  have continue: "job st = Some j \<Longrightarrow> pacing_ok (continue_job env j st)" for j
    using ok start accept none unfolding continue_job_def track_delivery_def post_chunk_def Let_def
    by (auto intro!: other split: phase.split)
  have submit: "pacing_ok (sendMessage env st)" using ok start by (simp add: sendMessage_def Let_def)
  show ?thesis
  proof (cases "outside ev")
    case True
    then show ?thesis using outside_same[OF True, of st env] ok by (simp add: pacing_ok_def same_job_def)
  next
    case False
    then consider "ev = Submit" | "ev = Continue" | r where "ev = TxAnswer r" by (auto simp: outside_def)
    then show ?thesis by cases (use ok answer continue submit in \<open>auto simp: chat_step_def split: option.split\<close>)
  qed
qed

lemma measure_step:
  assumes "ev \<noteq> Submit" "pacing_ok st"
  shows "job_measure (chat_step env ev st) + (if awaited st ev then 1 else 0) \<le> job_measure st"
proof (cases "outside ev")
  case True
  then have "job (chat_step env ev st) = job st" using outside_same by (auto simp: same_job_def)
  moreover have "\<not> awaited st ev" using True by (auto simp: awaited_def outside_def split: option.split chat_event.split)
  ultimately show ?thesis by (simp add: job_measure_def)
next
  case False
  with assms(1) consider "ev = Continue" | r where "ev = TxAnswer r" by (auto simp: outside_def)
  then show ?thesis
  proof cases
    case 1
    then show ?thesis using measure_continue[of st _ env] assms(2)
      by (cases "job st") (auto simp: chat_step_def awaited_def Suc_le_eq continue_job_def)
  next
    case 2
    then show ?thesis using measure_answer[of st _ env r]
      by (cases "job st") (auto simp: chat_step_def awaited_def Suc_le_eq)
  qed
qed

lemma measure_run:
  "Submit \<notin> set evs \<Longrightarrow> pacing_ok st \<Longrightarrow> job_measure (chat_run env evs st) + progress env evs st \<le> job_measure st"
proof (induction evs arbitrary: st)
  case (Cons ev evs)
  have "job_measure (chat_step env ev st) + (if awaited st ev then 1 else 0) \<le> job_measure st"
    using Cons.prems by (intro measure_step) auto
  moreover have "job_measure (chat_run env evs (chat_step env ev st)) + progress env evs (chat_step env ev st) \<le> job_measure (chat_step env ev st)"
    using Cons.prems by (intro Cons.IH pacing_step) auto
  ultimately show ?case by (simp add: chat_run_def)
qed (simp add: chat_run_def)

lemma measure_zero: "job_measure st = 0 \<Longrightarrow> job st = None"
  by (auto simp: job_measure_def phase_rank_def split: option.splits phase.splits)

definition nonempty_job :: "chat \<Rightarrow> bool" where
  "nonempty_job st \<longleftrightarrow> (\<forall>j. job st = Some j \<longrightarrow> chunks j \<noteq> [])"

lemma nonempty_step: "nonempty_job st \<Longrightarrow> nonempty_job (chat_step env ev st)"
proof -
  assume ok: "nonempty_job st"
  have keep: "(\<And>i. job s = Some i \<Longrightarrow> chunks i = chunks j) \<Longrightarrow> chunks j \<noteq> [] \<Longrightarrow> nonempty_job s" for s j
    by (simp add: nonempty_job_def)
  have place: "job (place_message env j s) = Some i \<Longrightarrow> chunks i = chunks j" for j s i by (auto simp: place_message_def Let_def)
  have start: "job (start_chunk env j s) = Some i \<Longrightarrow> chunks i = chunks j" for j s i
    by (auto simp: start_chunk_def dest: place split: option.splits sum.splits if_splits)
  have accept: "job (accept_chunk j s) = Some i \<Longrightarrow> chunks i = chunks j" for j s i by (auto simp: accept_chunk_def split: if_splits)
  have answer: "job (tx_answered env r j st) = Some i \<Longrightarrow> chunks i = chunks j" for r j i
    by (auto simp: tx_answered_def Let_def dest: accept split: option.splits if_splits)
  have continue: "job st = Some j \<Longrightarrow> job (continue_job env j st) = Some i \<Longrightarrow> chunks i = chunks j" for j i
    by (auto simp: continue_job_def track_delivery_def post_chunk_def Let_def dest: accept dest!: start split: phase.splits if_splits)
  have submit: "nonempty_job (sendMessage env st)"
  proof (cases "sending st \<or> trim (chatInputText st) = []")
    case False
    let ?raw = "quoted (replyingTo st) (trim (chatInputText st))"
    have "?raw \<noteq> []" using False by (auto simp: quoted_def split: option.split)
    then have "splitUtf8Message ?raw m \<noteq> []" "[] \<noteq> splitUtf8Message ?raw m" for m using split_concat[of ?raw m] by auto
    then show ?thesis using False by (auto simp: nonempty_job_def sendMessage_def Let_def dest!: start)
  qed (use ok in \<open>simp add: sendMessage_def\<close>)
  show ?thesis
  proof (cases "outside ev")
    case True
    then show ?thesis using outside_same[OF True, of st env] ok by (simp add: nonempty_job_def same_job_def)
  next
    case False
    then consider "ev = Submit" | "ev = Continue" | r where "ev = TxAnswer r" by (auto simp: outside_def)
    then show ?thesis
    proof cases
      case 1
      then show ?thesis using submit by (simp add: chat_step_def)
    next
      case 2
      have "nonempty_job (continue_job env j st)" if "job st = Some j" for j
      proof (rule keep)
        show "chunks i = chunks j" if "job (continue_job env j st) = Some i" for i using \<open>job st = Some j\<close> that by (rule continue)
        show "chunks j \<noteq> []" using ok \<open>job st = Some j\<close> by (simp add: nonempty_job_def)
      qed
      then show ?thesis using 2 ok by (simp add: chat_step_def split: option.split)
    next
      case 3
      have "nonempty_job (tx_answered env r j st)" if "job st = Some j" for j
      proof (rule keep)
        show "chunks i = chunks j" if "job (tx_answered env r j st) = Some i" for i using that by (rule answer)
        show "chunks j \<noteq> []" using ok \<open>job st = Some j\<close> by (simp add: nonempty_job_def)
      qed
      then show ?thesis using 3 ok by (simp add: chat_step_def split: option.split)
    qed
  qed
qed

lemma run_job_ok:
  "busy_ok (chat_run env evs new_chat) \<and> pacing_ok (chat_run env evs new_chat) \<and> nonempty_job (chat_run env evs new_chat)"
proof (intro conjI)
  show "busy_ok (chat_run env evs new_chat)" by (rule chat_run_preserves) (simp_all add: busy_step, simp add: busy_ok_def new_chat_def)
  show "pacing_ok (chat_run env evs new_chat)" by (rule chat_run_preserves) (simp_all add: pacing_step, simp add: pacing_ok_def new_chat_def)
  show "nonempty_job (chat_run env evs new_chat)"
    by (rule chat_run_preserves) (simp_all add: nonempty_step, simp add: nonempty_job_def new_chat_def)
qed

text \<open>
  C12: sending a message always ends. However events interleave, fewer than six events per fragment
  are ones that the sending waits for -- answers of the bridge and of the storage, pauses -- and
  while it goes on it does wait for one; so once these have come the composer is free again,
  whether the bridge accepted or refused.
\<close>
theorem sending_ends:
  assumes "st = chat_run env before new_chat" "job st = Some j" "Submit \<notin> set evs"
  shows "progress env evs st < 6 * length (chunks j) \<and>
    (sending (chat_run env evs st) \<longleftrightarrow> (\<exists>ev. awaited (chat_run env evs st) ev))"
proof
  note wf = run_job_ok[of env before, folded assms(1)]
  have "phase_rank (job_phase j) \<le> 5" by (simp add: phase_rank_def split: phase.split)
  moreover have "0 < length (chunks j)" using wf assms(2) by (auto simp: nonempty_job_def)
  moreover have "length (chunks j) - (chunk_no j + 1) \<le> length (chunks j) - 1" by simp
  ultimately have "6 * (length (chunks j) - (chunk_no j + 1)) + phase_rank (job_phase j) < 6 * length (chunks j)" by linarith
  then have "job_measure st < 6 * length (chunks j)" using assms(2) by (simp add: job_measure_def)
  with measure_run[OF assms(3), of st env] wf show "progress env evs st < 6 * length (chunks j)" by linarith
  have "busy_ok (chat_run env evs st)" using wf by (auto intro: chat_run_preserves busy_step)
  moreover have "awaited s (if job_phase i = Transmitting then TxAnswer undefined else Continue)" if "job s = Some i" for s i
    using that by (simp add: awaited_def)
  moreover have "job s = None \<Longrightarrow> \<not> awaited s ev" for s ev by (simp add: awaited_def)
  ultimately show "sending (chat_run env evs st) \<longleftrightarrow> (\<exists>ev. awaited (chat_run env evs st) ev)"
    unfolding busy_ok_def by (metis option.exhaust)
qed

theorem sending_ends_witness:
  "\<exists>j. job (chat_run sample_env [Typed (js ''hi''), Submit] new_chat) = Some j \<and>
     progress sample_env [Continue, TxAnswer (Rejected TypeError), Continue] (chat_run sample_env [Typed (js ''hi''), Submit] new_chat)
       < 6 * length (chunks j)"
proof -
  have t: "trim (js ''hi'') = js ''hi''" by (rule trim_visible) simp
  have ne: "js ''hi'' \<noteq> []" by simp
  have "\<exists>j. job (chat_run sample_env [Typed (js ''hi''), Submit] new_chat) = Some j"
    using t ne by (simp add: chat_run_def chat_step_def sendMessage_def new_chat_def Let_def start_chunk_def destination_def place_message_def)
  then obtain j where "job (chat_run sample_env [Typed (js ''hi''), Submit] new_chat) = Some j" ..
  with sending_ends[OF refl this, of "[Continue, TxAnswer (Rejected TypeError), Continue]"] show ?thesis by auto
qed

end
