(* ===== verification/ChatDelivery.thy ===== *)
theory ChatDelivery
  imports ChatOutbox
begin

section \<open>What becomes of a sent message (modules/chat.js with core/storage.js)\<close>

text \<open>
  The pending acknowledgements of \<open>ChatOutbox\<close>, the fate of a confirmed delivery, and the calls it
  makes of the cache, executed on the model of the cache.
\<close>

definition apply_call :: "jstr \<Rightarrow> storage_call \<Rightarrow> cache \<Rightarrow> cache" where
  "apply_call station call c =
     (case call of
        SaveMessage feedKey m \<Rightarrow> save_message station feedKey m c
      | UpdateStatus i s \<Rightarrow> updateMessageStatus station i s c
      | UpdateExpectedAck i a \<Rightarrow> updateMessageExpectedAck station i a c
      | UpdateDelivery i a t \<Rightarrow> updateMessageDelivery station i a t c)"

definition cache_after :: "jstr \<Rightarrow> storage_call list \<Rightarrow> cache \<Rightarrow> cache" where
  "cache_after station calls c = fold (apply_call station) calls c"

lemma apply_call_delivered: "delivered_at k c \<Longrightarrow> delivered_at k (apply_call station call c)"
  by (cases call) (simp_all add: apply_call_def save_message_delivered update_ops_delivered)

lemma cache_after_delivered: "delivered_at k c \<Longrightarrow> delivered_at k (cache_after station calls c)"
  unfolding cache_after_def by (induction calls arbitrary: c) (simp_all add: apply_call_delivered)

subsection \<open>What the other events leave alone\<close>

lemma event_frames:
  "pendingOutgoingAcks (handleMessageStatus p st) = pendingOutgoingAcks st" "ackTimeoutTimers (handleMessageStatus p st) = ackTimeoutTimers st"
  "channelFeeds (handleMessageStatus p st) = channelFeeds st" "next_obj (handleMessageStatus p st) = next_obj st"
  "channelFeeds (handleDeliveryAck env p st) = channelFeeds st" "next_obj (handleDeliveryAck env p st) = next_obj st"
  by (simp_all add: handleMessageStatus_def handleDeliveryAck_def update_feeds_def Let_def del: js_simps)

lemma choice_frames:
  "pendingOutgoingAcks (openDmConversation env pk n st) = pendingOutgoingAcks st" "ackTimeoutTimers (openDmConversation env pk n st) = ackTimeoutTimers st"
  "channelFeeds (openDmConversation env pk n st) = channelFeeds st" "next_obj (openDmConversation env pk n st) = next_obj st"
  "objects (openDmConversation env pk n st) = objects st"
  "pendingOutgoingAcks (switchChannel i st) = pendingOutgoingAcks st" "ackTimeoutTimers (switchChannel i st) = ackTimeoutTimers st"
  "channelFeeds (switchChannel i st) = channelFeeds st" "next_obj (switchChannel i st) = next_obj st" "objects (switchChannel i st) = objects st"
  by (simp_all add: openDmConversation_def switchChannel_def Let_def del: js_simps split: sum.split)

lemma paint_frames:
  "channelFeeds (paint_bubble r st) = channelFeeds st" "next_obj (paint_bubble r st) = next_obj st" "objects (paint_bubble r st) = objects st"
  "channelFeeds (ack_timeout c st) = channelFeeds st" "next_obj (ack_timeout c st) = next_obj st" "objects (ack_timeout c st) = objects st"
  by (simp_all add: paint_bubble_def ack_timeout_def Let_def)

lemma sending_frames:
  "channelFeeds (accept_chunk j st) = channelFeeds st" "next_obj (accept_chunk j st) = next_obj st" "objects (accept_chunk j st) = objects st"
  "channelFeeds (post_chunk j st) = channelFeeds st" "next_obj (post_chunk j st) = next_obj st" "objects (post_chunk j st) = objects st"
  "pendingOutgoingAcks (post_chunk j st) = pendingOutgoingAcks st" "ackTimeoutTimers (post_chunk j st) = ackTimeoutTimers st"
  by (simp_all add: accept_chunk_def post_chunk_def)

lemma answer_frames:
  "channelFeeds (tx_answered env r j st) = channelFeeds st" "next_obj (tx_answered env r j st) = next_obj st"
  "channelFeeds (track_delivery d j st) = channelFeeds st" "next_obj (track_delivery d j st) = next_obj st"
  by (simp_all add: tx_answered_def track_delivery_def sending_frames Let_def split: option.split)

subsection \<open>Pending acknowledgements\<close>

definition acks_ok :: "chat \<Rightarrow> bool" where
  "acks_ok st \<longleftrightarrow> ackTimeoutTimers st = pendingOutgoingAcks st \<and> distinct (map fst (pendingOutgoingAcks st))"

lemma acks_ops:
  "acks_ok st \<Longrightarrow> acks_ok (register_ack code i st)" "acks_ok st \<Longrightarrow> acks_ok (ack_timeout code st)"
  "acks_ok st \<Longrightarrow> acks_ok (handleDeliveryAck env p st)"
  by (auto simp: acks_ok_def register_ack_def ack_timeout_def handleDeliveryAck_def update_feeds_def distinct_assoc_put
      distinct_assoc_del Let_def simp del: js_simps)

lemma same_acks: "pendingOutgoingAcks s = pendingOutgoingAcks st \<Longrightarrow> ackTimeoutTimers s = ackTimeoutTimers st \<Longrightarrow> acks_ok st \<Longrightarrow> acks_ok s"
  by (simp add: acks_ok_def)

lemma acks_keep:
  "pendingOutgoingAcks (place_message env j st) = pendingOutgoingAcks st" "ackTimeoutTimers (place_message env j st) = ackTimeoutTimers st"
  "pendingOutgoingAcks (start_chunk env j st) = pendingOutgoingAcks st" "ackTimeoutTimers (start_chunk env j st) = ackTimeoutTimers st"
  "pendingOutgoingAcks (accept_chunk j st) = pendingOutgoingAcks st" "ackTimeoutTimers (accept_chunk j st) = ackTimeoutTimers st"
  by (simp_all add: place_message_def start_chunk_def accept_chunk_def Let_def split: option.split sum.split)

lemma acks_answer: "acks_ok st \<Longrightarrow> acks_ok (tx_answered env r j st)"
  by (rule same_acks) (simp_all add: tx_answered_def Let_def acks_keep split: option.split)

lemma acks_track: "acks_ok st \<Longrightarrow> acks_ok (track_delivery d j st)"
proof -
  assume ok: "acks_ok st"
  have simple: "acks_ok s" if "pendingOutgoingAcks s = pendingOutgoingAcks st" "ackTimeoutTimers s = ackTimeoutTimers st" for s
    using same_acks that ok by blast
  have upd: "acks_ok (s\<lparr>job := x\<rparr>) = acks_ok s" "acks_ok (log_call c s) = acks_ok s" for s x c by (simp_all add: acks_ok_def)
  show ?thesis
    unfolding track_delivery_def Let_def by (auto simp: upd intro!: acks_ops(1)) (auto intro!: simple simp: acks_keep)
qed

lemma acks_continue:
  assumes ok: "acks_ok st"
  shows "acks_ok (continue_job env j st)"
proof (cases "job_phase j")
  case Saving
  show ?thesis by (rule same_acks[OF _ _ ok]) (simp_all add: Saving continue_job_def sending_frames)
next
  case (StatusSaving d)
  then show ?thesis using ok by (simp add: continue_job_def acks_track)
next
  case (FailureSaving e)
  show ?thesis by (rule same_acks[OF _ _ ok]) (simp_all add: FailureSaving continue_job_def)
qed (use ok in \<open>simp_all add: continue_job_def acks_ok_def acks_keep\<close>)

lemma acks_step: "acks_ok st \<Longrightarrow> acks_ok (chat_step env ev st)"
proof (cases ev)
  case Submit
  assume "acks_ok st"
  moreover have "pendingOutgoingAcks (sendMessage env st) = pendingOutgoingAcks st" "ackTimeoutTimers (sendMessage env st) = ackTimeoutTimers st"
    by (simp_all add: sendMessage_def Let_def acks_keep)
  ultimately show ?thesis using Submit same_acks by (simp add: chat_step_def)
next
  case (BubblePainted r)
  assume "acks_ok st"
  then show ?thesis using BubblePainted by (simp add: chat_step_def paint_bubble_def Let_def acks_ops)
qed (simp_all add: chat_step_def acks_ops acks_answer acks_continue event_frames choice_frames clearAllAckTimeouts_def
      split: option.split, simp_all add: acks_ok_def event_frames choice_frames)

text \<open>
  No acknowledgement is awaited for ever: in every reachable state each awaited code has a
  timer running for the same message, each code at most once, and when the timer fires or the
  acknowledgement of the code arrives the code is awaited no longer.
\<close>
theorem awaited_acks_expire:
  assumes "st = chat_run env evs new_chat"
  shows "map_of (ackTimeoutTimers st) = map_of (pendingOutgoingAcks st) \<and> distinct (map fst (pendingOutgoingAcks st)) \<and>
    map_of (pendingOutgoingAcks (chat_step env (AckTimer code) st)) code = None \<and>
    (code \<noteq> [] \<longrightarrow> \<not> all_zero code \<longrightarrow> code = strip0x (trim (toLowerCase code)) \<longrightarrow>
       map_of (pendingOutgoingAcks (chat_step env (AckFrame (Obj [(js ''ack_code'', Str code)])) st)) code = None)"
proof -
  have ok: "acks_ok st"
    unfolding assms by (rule chat_run_preserves) (simp_all add: acks_step, simp add: acks_ok_def new_chat_def)
  have p: "getp (Obj [(js ''ack_code'', Str code)]) (js ''ack_code'') = Str code"
    "getp (Obj [(js ''ack_code'', Str code)]) (js ''station_id'') = Undefined" by (simp_all add: getp_def)
  have "map_of (pendingOutgoingAcks (chat_step env (AckTimer code) st)) code = None"
    using ok by (cases "code \<in> fst ` set (ackTimeoutTimers st)")
      (simp_all add: chat_step_def ack_timeout_def map_of_assoc_del acks_ok_def, simp add: map_of_eq_None_iff)
  moreover have "map_of (pendingOutgoingAcks (chat_step env (AckFrame (Obj [(js ''ack_code'', Str code)])) st)) code = None"
    if "code \<noteq> []" "\<not> all_zero code" "code = strip0x (trim (toLowerCase code))"
    using that by (simp add: chat_step_def handleDeliveryAck_def p js_or_def is_object_def update_feeds_def map_of_assoc_del Let_def del: js_simps)
  ultimately show ?thesis using ok by (simp add: acks_ok_def)
qed

theorem awaited_acks_expire_witness:
  "map_of (pendingOutgoingAcks (chat_step sample_env (AckTimer (js ''ab'')) (chat_run sample_env [Typed (js ''hi''), Submit] new_chat))) (js ''ab'') = None"
  using awaited_acks_expire[OF refl, of sample_env "[Typed (js ''hi''), Submit]" "js ''ab''"] by blast

subsection \<open>Confirmed deliveries\<close>

lemma counted_expected_ack: "counted_delivered (with_fld ''expected_ack'' v m) = counted_delivered m"
  by (simp add: counted_delivered_def is_delivered_def fld_with_fld)

lemma delivery_update_counted: "counted_delivered (delivery_update t m)"
  by (simp add: counted_delivered_def delivery_update_def fld_with_fld)


text \<open>Message \<open>r\<close> exists and counts as delivered.\<close>

definition delivered_obj :: "nat \<Rightarrow> chat \<Rightarrow> bool" where
  "delivered_obj r st \<longleftrightarrow> r < next_obj st \<and> counted_delivered (objects st r)"

lemma delivered_same: "objects s = objects st \<Longrightarrow> next_obj s = next_obj st \<Longrightarrow> delivered_obj r st \<Longrightarrow> delivered_obj r s"
  by (simp add: delivered_obj_def)

lemma delivered_start: "delivered_obj r st \<Longrightarrow> delivered_obj r (start_chunk env j st)"
  by (auto simp: start_chunk_def place_message_def delivered_obj_def Let_def split: option.split sum.split)

lemma delivered_answer: "delivered_obj r st \<Longrightarrow> delivered_obj r (tx_answered env reply j st)"
  by (auto simp: tx_answered_def accept_chunk_def delivered_obj_def Let_def split: option.split)

lemma delivered_track: "delivered_obj r st \<Longrightarrow> delivered_obj r (track_delivery d j st)"
  by (auto simp: track_delivery_def accept_chunk_def delivered_obj_def counted_expected_ack Let_def)

lemma delivered_ack: "delivered_obj r st \<Longrightarrow> delivered_obj r (handleDeliveryAck env p st)"
  by (simp add: handleDeliveryAck_def update_feeds_def delivered_obj_def delivery_update_counted Let_def del: js_simps)

lemma delivered_step:
  assumes "delivered_obj r st" "\<forall>p. ev \<noteq> StatusFrame p"
  shows "delivered_obj r (chat_step env ev st)"
proof (cases ev)
  case Submit
  have "delivered_obj r (st\<lparr>replyingTo := a, sending := True, chatInputText := [], drafts := b\<rparr>)" for a b
    using assms(1) by (simp add: delivered_obj_def)
  then show ?thesis using Submit assms(1) by (simp add: chat_step_def sendMessage_def Let_def delivered_start)
next
  case Continue
  show ?thesis
  proof (cases "job st")
    case (Some j)
    then show ?thesis using Continue assms(1) delivered_start delivered_track
      by (cases "job_phase j") (auto intro: delivered_same simp: chat_step_def continue_job_def post_chunk_def accept_chunk_def)
  qed (use Continue assms(1) in \<open>simp add: chat_step_def\<close>)
next
  case (TxAnswer reply)
  then show ?thesis using assms(1) delivered_answer by (auto simp: chat_step_def split: option.split)
next
  case (AckFrame p)
  then show ?thesis using assms(1) by (simp add: chat_step_def delivered_ack)
qed (use assms in \<open>auto intro: delivered_same simp: chat_step_def ack_timeout_def paint_bubble_def switchChannel_def openDmConversation_def
      clearAllAckTimeouts_def toast_def Let_def split: sum.split\<close>)

text \<open>
  C13: an acknowledgement that overtakes the answer of the bridge is not lost: once a message counts
  as delivered, no answer, refusal, pause, timer or later acknowledgement makes it undelivered, and
  in the cache that the storage calls lead to a delivered message stays so as well.
\<close>
theorem delivered_survives_sending:
  assumes "delivered_obj r st" "\<forall>p. StatusFrame p \<notin> set evs"
  shows "delivered_obj r (chat_run env evs st) \<and>
    (\<forall>k c. delivered_at k c \<longrightarrow>
       delivered_at k (cache_after station (drop (length (storage_log st)) (storage_log (chat_run env evs st))) c))"
proof
  show "delivered_obj r (chat_run env evs st)"
  proof (rule chat_run_preserves)
    fix ev s
    assume "ev \<in> set evs" "delivered_obj r s"
    with assms(2) show "delivered_obj r (chat_step env ev s)" by (intro delivered_step) auto
  qed (rule assms(1))
qed (simp add: cache_after_delivered)

theorem delivered_survives_sending_witness:
  "delivered_obj 0 (chat_run sample_env [TxAnswer (Rejected TypeError), Continue]
     (new_chat\<lparr>objects := (\<lambda>_. [(js ''delivered'', Bool True)]), next_obj := 1\<rparr>))"
proof -
  have "delivered_obj 0 (new_chat\<lparr>objects := (\<lambda>_. [(js ''delivered'', Bool True)]), next_obj := 1\<rparr>)"
    by (simp add: delivered_obj_def counted_delivered_def fld_def getp_def)
  from delivered_survives_sending[OF this, of "[TxAnswer (Rejected TypeError), Continue]" sample_env] show ?thesis by simp
qed



subsection \<open>Well-formed states\<close>

definition feed_or_empty :: "jstr \<Rightarrow> (jstr \<times> nat list) list \<Rightarrow> nat list" where
  "feed_or_empty key feeds = (case map_of feeds key of Some f \<Rightarrow> f | None \<Rightarrow> [])"

text \<open>The three ways in which a step treats the feeds: not at all, a new message, or all are dropped.\<close>

definition feeds_change :: "chat \<Rightarrow> chat \<Rightarrow> bool" where
  "feeds_change st st' \<longleftrightarrow>
     (channelFeeds st' = channelFeeds st \<or> channelFeeds st' = []) \<and> next_obj st' = next_obj st \<or>
     (\<exists>key j. channelFeeds st' = assoc_put key (push_bounded MAX_FEED_MESSAGES (next_obj st) (feed_or_empty key (channelFeeds st))) (channelFeeds st) \<and>
        next_obj st' = next_obj st + 1 \<and> job st' = Some j \<and> job_msg j = next_obj st \<and> key = feed_of (canonicalTarget j) (channelIdx j))"

lemma feeds_same: "channelFeeds s = channelFeeds st \<Longrightarrow> next_obj s = next_obj st \<Longrightarrow> feeds_change st s"
  by (simp add: feeds_change_def)

lemma feeds_place: "feeds_change st (place_message env j st)"
  unfolding feeds_change_def
  by (rule disjI2) (simp add: place_message_def push_feed_def feed_or_empty_def Let_def)

lemma feeds_start: "feeds_change st (start_chunk env j st)"
  by (auto intro: feeds_same feeds_place simp: start_chunk_def split: option.split sum.split)

lemma feeds_of_same: "channelFeeds s = channelFeeds st \<Longrightarrow> next_obj s = next_obj st \<Longrightarrow> feeds_change s w \<Longrightarrow> feeds_change st w"
  by (simp add: feeds_change_def)

lemma feeds_continue: "feeds_change st (continue_job env j st)"
proof (cases "job_phase j")
  case Pacing
  then show ?thesis by (simp add: continue_job_def feeds_start)
qed (simp_all add: continue_job_def feeds_same sending_frames answer_frames)

lemma feeds_step: "feeds_change st (chat_step env ev st)"
proof (cases ev)
  case Submit
  have "feeds_change st (start_chunk env j (st\<lparr>replyingTo := a, sending := True, chatInputText := [], drafts := b\<rparr>))" for a b j
    by (rule feeds_of_same[OF _ _ feeds_start]) simp_all
  then show ?thesis using Submit by (simp add: chat_step_def sendMessage_def Let_def feeds_same)
next
  case HistoryCleared
  then show ?thesis by (simp add: chat_step_def feeds_change_def clearAllAckTimeouts_def)
qed (simp_all add: chat_step_def feeds_continue feeds_same answer_frames event_frames choice_frames paint_frames split: option.split)

text \<open>Feeds have different keys; each holds existing messages, each once; and no feed is too long.\<close>

definition feeds_wf :: "(jstr \<times> nat list) list \<Rightarrow> nat \<Rightarrow> bool" where
  "feeds_wf feeds n \<longleftrightarrow> distinct (map fst feeds) \<and> (\<forall>k f. (k, f) \<in> set feeds \<longrightarrow> distinct f \<and> (\<forall>r \<in> set f. r < n))"

definition feeds_short :: "(jstr \<times> nat list) list \<Rightarrow> bool" where
  "feeds_short feeds \<longleftrightarrow> (\<forall>k f. (k, f) \<in> set feeds \<longrightarrow> length f \<le> MAX_FEED_MESSAGES)"

definition feeds_ok :: "chat \<Rightarrow> bool" where
  "feeds_ok st \<longleftrightarrow> feeds_wf (channelFeeds st) (next_obj st) \<and> feeds_short (channelFeeds st)"

lemma set_assoc_put: "(k', v') \<in> set (assoc_put k v xs) \<Longrightarrow> (k', v') = (k, v) \<or> (k', v') \<in> set xs"
  by (induction xs) (auto split: if_splits)

lemma feeds_wf_put: "feeds_wf feeds n \<Longrightarrow> n \<le> m \<Longrightarrow> distinct f \<Longrightarrow> \<forall>r \<in> set f. r < m \<Longrightarrow> feeds_wf (assoc_put k f feeds) m"
  unfolding feeds_wf_def by (auto simp: distinct_assoc_put dest!: set_assoc_put) (meson less_le_trans)

lemma feeds_wf_feed: "feeds_wf feeds n \<Longrightarrow> distinct (feed_or_empty k feeds) \<and> (\<forall>r \<in> set (feed_or_empty k feeds). r < n)"
  by (auto simp: feeds_wf_def feed_or_empty_def dest: map_of_SomeD split: option.split)

lemma feeds_wf_push:
  assumes "feeds_wf feeds n"
  shows "feeds_wf (assoc_put k (push_bounded cap n (feed_or_empty k feeds)) feeds) (n + 1)"
proof (rule feeds_wf_put[OF assms])
  note f = feeds_wf_feed[OF assms, of k]
  show "distinct (push_bounded cap n (feed_or_empty k feeds))" using f by (intro distinct_push_bounded) auto
  show "\<forall>r \<in> set (push_bounded cap n (feed_or_empty k feeds)). r < n + 1"
    using f set_push_bounded[of cap n "feed_or_empty k feeds"] by fastforce
qed simp

lemma feeds_wf_change: "feeds_change st st' \<Longrightarrow> feeds_wf (channelFeeds st) (next_obj st) \<Longrightarrow> feeds_wf (channelFeeds st') (next_obj st')"
  using feeds_wf_push by (auto simp: feeds_change_def) (auto simp: feeds_wf_def)

lemma feeds_short_put: "feeds_short feeds \<Longrightarrow> length f \<le> MAX_FEED_MESSAGES \<Longrightarrow> feeds_short (assoc_put k f feeds)"
  by (auto simp: feeds_short_def dest!: set_assoc_put)

lemma feeds_short_feed: "feeds_short feeds \<Longrightarrow> length (feed_or_empty k feeds) \<le> MAX_FEED_MESSAGES"
  by (auto simp: feeds_short_def feed_or_empty_def dest: map_of_SomeD split: option.split)

lemma feeds_short_change: "feeds_change st st' \<Longrightarrow> feeds_short (channelFeeds st) \<Longrightarrow> feeds_short (channelFeeds st')"
  by (auto simp: feeds_change_def feeds_short_put length_push_bounded feeds_short_feed) (simp add: feeds_short_def)

interpretation outbox: initial_invariant "chat_step env" "\<lambda>_. True" "\<lambda>st. feeds_ok st \<and> busy_ok st \<and> nonempty_job st \<and> acks_ok st" new_chat for env
proof unfold_locales
  fix st :: chat and ev
  assume "feeds_ok st \<and> busy_ok st \<and> nonempty_job st \<and> acks_ok st"
  then show "feeds_ok (chat_step env ev st) \<and> busy_ok (chat_step env ev st) \<and> nonempty_job (chat_step env ev st) \<and> acks_ok (chat_step env ev st)"
    using feeds_wf_change[OF feeds_step] feeds_short_change[OF feeds_step] by (simp add: feeds_ok_def busy_step nonempty_step acks_step)
qed (simp add: feeds_ok_def feeds_wf_def feeds_short_def busy_ok_def nonempty_job_def acks_ok_def new_chat_def)

text \<open>
  Every reachable state of the chat is well formed: feeds have different keys, hold at most
  100 messages, each once and each an object that exists; the composer is locked exactly while a
  job runs, a job has fragments, and the timers of awaited codes are those of the codes.
\<close>
theorem chat_state_well_formed:
  assumes "st = chat_run env evs new_chat"
  shows "feeds_ok st \<and> busy_ok st \<and> nonempty_job st \<and> acks_ok st"
  unfolding assms chat_run_def by (rule outbox.always) (simp add: list_all_iff)

theorem chat_state_well_formed_witness:
  "feeds_ok (chat_run sample_env [Typed (js ''hi''), Submit, Continue] new_chat)"
  using chat_state_well_formed[OF refl, of sample_env "[Typed (js ''hi''), Submit, Continue]"] by blast

end
