(* ===== verification/ArraySort.thy ===== *)
theory ArraySort
  imports Prelude "HOL-Library.Multiset"
begin

section \<open>Array.prototype.sort\<close>

text \<open>
  The engine's sort is stable and is given a comparator; \<open>after x y\<close> says that the comparator is
  positive on \<open>x\<close> and \<open>y\<close>. It is modelled as insertion from the left. For a comparator that comes from a
  key this is the library's \<open>sort_key\<close>; for one that is not transitive the language leaves the order open.
\<close>

fun insert_sorted :: "('a \<Rightarrow> 'a \<Rightarrow> bool) \<Rightarrow> 'a \<Rightarrow> 'a list \<Rightarrow> 'a list" where
  "insert_sorted after x [] = [x]"
| "insert_sorted after x (y # ys) = (if after y x then x # y # ys else y # insert_sorted after x ys)"

definition js_sort :: "('a \<Rightarrow> 'a \<Rightarrow> bool) \<Rightarrow> 'a list \<Rightarrow> 'a list" where
  "js_sort after xs = fold (insert_sorted after) xs []"

lemma mset_insert_sorted: "mset (insert_sorted a x xs) = add_mset x (mset xs)"
  by (induction xs) auto

lemma mset_js_sort: "mset (js_sort a xs) = mset xs"
proof -
  have "mset (fold (insert_sorted a) xs ys) = mset ys + mset xs" for ys
    by (induction xs arbitrary: ys) (simp_all add: mset_insert_sorted)
  then show ?thesis by (simp add: js_sort_def)
qed

lemma set_js_sort [simp]: "set (js_sort a xs) = set xs"
  by (metis mset_js_sort mset_eq_setD)

lemma insert_sorted_adjacent:
  assumes "\<And>x y. after x y \<Longrightarrow> \<not> after y x"
  shows "adjacent (\<lambda>x y. \<not> after x y) xs \<Longrightarrow> adjacent (\<lambda>x y. \<not> after x y) (insert_sorted after x xs)"
proof (induction xs rule: induct_list012)
  case (3 y z zs)
  then show ?case using assms by auto
qed (use assms in auto)

lemma js_sort_adjacent:
  assumes "\<And>x y. after x y \<Longrightarrow> \<not> after y x"
  shows "adjacent (\<lambda>x y. \<not> after x y) (js_sort after xs)"
proof -
  have "adjacent (\<lambda>x y. \<not> after x y) ys \<Longrightarrow> adjacent (\<lambda>x y. \<not> after x y) (fold (insert_sorted after) xs ys)" for ys
    by (induction xs arbitrary: ys) (simp_all add: insert_sorted_adjacent[OF assms])
  then show ?thesis by (simp add: js_sort_def)
qed

subsection \<open>Comparators that come from a key\<close>

lemma set_insert_sorted [simp]: "set (insert_sorted a x xs) = insert x (set xs)"
  by (induction xs) auto

lemma insert_sorted_cong:
  "(\<And>y. y \<in> set ys \<Longrightarrow> after y x \<longleftrightarrow> before y x) \<Longrightarrow> insert_sorted after x ys = insert_sorted before x ys"
  by (induction ys) auto

lemma js_sort_cong:
  assumes "\<And>x y. x \<in> set xs \<Longrightarrow> y \<in> set xs \<Longrightarrow> after x y \<longleftrightarrow> before x y"
  shows "js_sort after xs = js_sort before xs"
proof -
  have "fold (insert_sorted after) zs ys = fold (insert_sorted before) zs ys"
    if "set zs \<subseteq> set xs" "set ys \<subseteq> set xs" for zs ys
    using that
  proof (induction zs arbitrary: ys)
    case (Cons z zs)
    have i: "insert_sorted after z ys = insert_sorted before z ys"
      using Cons.prems assms by (intro insert_sorted_cong) auto
    have "set (insert_sorted before z ys) \<subseteq> set xs" using Cons.prems by simp
    with Cons.IH Cons.prems i show ?case by simp
  qed simp
  then show ?thesis by (simp add: js_sort_def)
qed

lemma filter_insert_sorted:
  fixes f :: "'a \<Rightarrow> 'k::linorder"
  shows "sorted (map f ys) \<Longrightarrow>
    filter (\<lambda>z. f z = k) (insert_sorted (\<lambda>x y. f y < f x) x ys) = filter (\<lambda>z. f z = k) ys @ (if f x = k then [x] else [])"
proof (induction ys)
  case (Cons y ys)
  have "filter (\<lambda>z. f z = k) (y # ys) = []" if "f x < f y" "f x = k"
    using that Cons.prems by (fastforce simp: filter_empty_conv)
  with Cons show ?case by auto
qed simp

lemma sorted_insert_sorted:
  fixes f :: "'a \<Rightarrow> 'k::linorder"
  shows "sorted (map f ys) \<Longrightarrow> sorted (map f (insert_sorted (\<lambda>x y. f y < f x) x ys))"
proof (induction ys)
  case (Cons y ys)
  then show ?case by auto
qed simp

lemma js_sort_by_key:
  fixes f :: "'a \<Rightarrow> 'k::linorder"
  shows "js_sort (\<lambda>x y. f y < f x) xs = sort_key f xs"
proof -
  have run: "sorted (map f ys) \<Longrightarrow> sorted (map f (fold (insert_sorted (\<lambda>x y. f y < f x)) xs ys)) \<and>
     filter (\<lambda>z. f z = k) (fold (insert_sorted (\<lambda>x y. f y < f x)) xs ys) = filter (\<lambda>z. f z = k) ys @ filter (\<lambda>z. f z = k) xs" for ys k
    by (induction xs arbitrary: ys) (simp_all add: sorted_insert_sorted filter_insert_sorted)
  have "sorted (map f (js_sort (\<lambda>x y. f y < f x) xs))" using run[of "[]"] by (simp add: js_sort_def)
  moreover have "filter (\<lambda>z. f z = f k) (js_sort (\<lambda>x y. f y < f x) xs) = filter (\<lambda>z. f z = f k) xs" for k
    using run[of "[]" "f k"] by (simp add: js_sort_def)
  ultimately show ?thesis
    by (intro properties_for_sort_key[symmetric]) (simp_all add: mset_js_sort eq_commute)
qed

end
