(* ===== verification/ChatView.thy ===== *)
theory ChatView
  imports ChatDelivery MessageText ArraySort
begin

section \<open>Conversations on screen (modules/chat.js)\<close>

text \<open>
  The reading side of \<open>ChatModule\<close> around the outbox of \<open>ChatOutbox\<close>: incoming messages, the
  downloads of history with the generations that guard them, what is painted, unread counts, the
  list of direct conversations, drafts, and the deletions. The state holds the outbox's state as
  \<open>base\<close>; messages are cells of its heap, so a running transmission and the feeds share them. An
  asynchronous method is cut at each \<open>await\<close>; what is still to run is a numbered task with the
  values it captured. Scroll positions, focus and the chime are left out.
\<close>

datatype hstate = Loading | Ready | OfflineCache | AuthNeeded | LoadFailed

record render_ctx =
  rc_render :: nat
  rc_feed :: jstr
  rc_feed_gen :: nat
  rc_auth :: nat
  rc_before :: jsval
  rc_initial :: bool

datatype view_task =
    RenderTimer
  | CachedRead render_ctx bool
  | PageRead render_ctx
  | ThreadsRead nat nat
  | ClearStorage nat jstr
  | ClearRequest nat jstr

record chat_view =
  base :: chat
  historyPages :: "(jstr \<times> jsval) list"
  historyStates :: "(jstr \<times> hstate) list"
  renderGeneration :: nat
  feedGenerations :: "(jstr \<times> nat) list"
  historyAccessDenied :: bool
  unreadCounts :: "(jstr \<times> nat) list"
  conversationsWithMessages :: "jstr list"
  closedDmThreads :: "jstr list"
  dmListUi :: "(jstr \<times> jstr) list"
  visibleFeedKey :: "jstr option"
  bubbles :: "nat list"
  olderButton :: "jsval option"
  chatTabActive :: bool
  draftTimer :: bool
  storageStation :: jsval
  storageAuth :: nat
  storageBlocked :: bool
  view_tasks :: "(nat \<times> view_task) list"
  next_task :: nat

text \<open>
  The surroundings of \<open>ChatOutbox\<close>, and: the anonymous sender's name, the local name \<open>I18n\<close> gives,
  \<open>Date.parse\<close>, the ISO text of an instant, the present as text and the identity made up when the
  n-th message is created.
\<close>

record view_env = chat_env +
  anonymousName :: jstr
  localLabel :: jstr
  parseDate :: "jstr \<Rightarrow> jnum"
  isoText :: "jnum \<Rightarrow> jstr"
  nowText :: "nat \<Rightarrow> jstr"
  freshId :: "nat \<Rightarrow> jstr"

definition outbox_env :: "view_env \<Rightarrow> chat_view \<Rightarrow> chat_env" where
  "outbox_env env v = chat_env.truncate (env\<lparr>stationId := storageStation v\<rparr>)"

definition local_target :: "view_env \<Rightarrow> jstr \<Rightarrow> bool" where
  "local_target env = isLocalTarget (chat_env.truncate env)"

definition canonical :: "view_env \<Rightarrow> jsval \<Rightarrow> jstr" where
  "canonical env = resolveCanonicalPubkey (knownNodes env)"

definition currentFeed :: "chat_view \<Rightarrow> jstr" where
  "currentFeed v = visibleFeed (base v)"

definition feed_at :: "jstr \<Rightarrow> chat_view \<Rightarrow> nat list" where
  "feed_at key v = (case map_of (channelFeeds (base v)) key of Some f \<Rightarrow> f | None \<Rightarrow> [])"

definition count_at :: "jstr \<Rightarrow> (jstr \<times> nat) list \<Rightarrow> nat" where
  "count_at key xs = (case map_of xs key of Some n \<Rightarrow> n | None \<Rightarrow> 0)"

definition set_base :: "chat \<Rightarrow> chat_view \<Rightarrow> chat_view" where
  "set_base b v = v\<lparr>base := b\<rparr>"

definition start_task :: "view_task \<Rightarrow> chat_view \<Rightarrow> chat_view" where
  "start_task t v = v\<lparr>view_tasks := view_tasks v @ [(next_task v, t)], next_task := next_task v + 1\<rparr>"

definition add_once :: "'a \<Rightarrow> 'a list \<Rightarrow> 'a list" where
  "add_once x xs = (if x \<in> set xs then xs else xs @ [x])"

subsection \<open>Painting\<close>

definition set_state :: "jstr \<Rightarrow> hstate \<Rightarrow> chat_view \<Rightarrow> chat_view" where
  "set_state feed s v = v\<lparr>historyStates := assoc_put feed s (historyStates v)\<rparr>"

definition page_of :: "jstr \<Rightarrow> chat_view \<Rightarrow> jsval" where
  "page_of feed v = (case map_of (historyPages v) feed of Some p \<Rightarrow> p | None \<Rightarrow> Undefined)"

definition shown_state :: "jstr \<Rightarrow> chat_view \<Rightarrow> hstate" where
  "shown_state feed v =
     (case map_of (historyStates v) feed of
        Some s \<Rightarrow> s
      | None \<Rightarrow> if historyAccessDenied v then AuthNeeded
                else if truthy (getp (page_of feed v) (js ''offline'')) then OfflineCache else Ready)"

definition draft_key :: "jstr \<Rightarrow> jstr" where
  "draft_key feed = js ''meshcore_draft_'' @ feed"

text \<open>
  \<open>_paintConversation\<close>: the bubbles of a feed replace those on screen, each registering the code
  it waits for; a change of conversation, or an empty composer, brings back the saved draft. The
  button for older messages carries the cursor it was painted with, and is disabled while loading.
\<close>

definition paint :: "jstr \<Rightarrow> chat_view \<Rightarrow> chat_view" where
  "paint feed v =
     (let refs = feed_at feed v; page = page_of feed v; state = shown_state feed v;
          b = fold paint_bubble refs (base v);
          older = (if truthy (getp page (js ''has_more'')) \<and> truthy (getp page (js ''next_before'')) \<and>
                     state \<noteq> AuthNeeded \<and> state \<noteq> Loading
                   then Some (getp page (js ''next_before'')) else None);
          draft = (case map_of (drafts b) (draft_key feed) of Some t \<Rightarrow> t | None \<Rightarrow> []);
          b' = (if visibleFeedKey v \<noteq> Some feed \<or> chatInputText b = [] then b\<lparr>chatInputText := draft\<rparr> else b)
      in v\<lparr>base := b', bubbles := refs, olderButton := older, visibleFeedKey := Some feed\<rparr>)"

text \<open>\<open>appendChatMessage\<close>: one more bubble, the oldest beyond 100 leaving the screen.\<close>

definition append_bubble :: "nat \<Rightarrow> chat_view \<Rightarrow> chat_view" where
  "append_bubble r v =
     (if historyAccessDenied v then v
      else let bs = bubbles v @ [r]
           in v\<lparr>base := paint_bubble r (base v), bubbles := drop (length bs - MAX_FEED_MESSAGES) bs\<rparr>)"

definition bubble_id :: "props \<Rightarrow> jstr" where
  "bubble_id m = to_string (js_or (fld m ''id'') (js_or (fld m ''msg_id'') (Str [])))"

fun replace_bubble :: "(nat \<Rightarrow> props) \<Rightarrow> jstr \<Rightarrow> nat \<Rightarrow> nat list \<Rightarrow> nat list" where
  "replace_bubble h i r [] = []"
| "replace_bubble h i r (x # xs) = (if bubble_id (h x) = i then r # xs else x # replace_bubble h i r xs)"

subsection \<open>Downloading history\<close>

definition is_current :: "render_ctx \<Rightarrow> chat_view \<Rightarrow> bool" where
  "is_current ctx v \<longleftrightarrow>
     rc_render ctx = renderGeneration v \<and> rc_feed_gen ctx = count_at (rc_feed ctx) (feedGenerations v) \<and>
     rc_auth ctx = storageAuth v \<and> rc_feed ctx = currentFeed v"

definition request_page :: "render_ctx \<Rightarrow> chat_view \<Rightarrow> chat_view" where
  "request_page ctx v =
     start_task (PageRead ctx)
       (if feed_at (rc_feed ctx) v = [] then paint (rc_feed ctx) (set_state (rc_feed ctx) Loading v) else v)"

definition render_start :: "jsval \<Rightarrow> bool \<Rightarrow> chat_view \<Rightarrow> chat_view" where
  "render_start before initial v =
     (let feed = currentFeed v;
          v1 = v\<lparr>renderGeneration := renderGeneration v + 1, unreadCounts := assoc_del feed (unreadCounts v)\<rparr>;
          ctx = \<lparr>rc_render = renderGeneration v1, rc_feed = feed, rc_feed_gen = count_at feed (feedGenerations v1),
                 rc_auth = storageAuth v1, rc_before = before, rc_initial = initial\<rparr>
      in if is_nullish before \<and> feed_at feed v1 = [] then start_task (CachedRead ctx (storageBlocked v1)) v1
         else request_page ctx v1)"

text \<open>One downloaded message is merged with the one of the same identity into a new object.\<close>

definition displayed :: "view_env \<Rightarrow> props \<Rightarrow> props js_result" where
  "displayed env m =
     (if truthy (fld m ''is_outgoing'') then Inr m
      else bindE (extractSenderAndText (anonymousName env) (fld m ''text'') (fld m ''sender_name''))
             (\<lambda>s. Inr (with_fld ''text'' (cleanText s) m)))"

definition new_object :: "props \<Rightarrow> chat \<Rightarrow> chat" where
  "new_object m b = b\<lparr>objects := (objects b)(next_obj b := m), next_obj := next_obj b + 1\<rparr>"

definition merge_one :: "view_env \<Rightarrow> jsval \<Rightarrow> chat \<times> (jstr \<times> nat) list \<Rightarrow> (chat \<times> (jstr \<times> nat) list) js_result" where
  "merge_one env msg acc =
     (if is_nullish msg then Inl TypeError
      else if isCommandOrSystemText (getp msg (js ''text'')) (getp msg (js ''txt_type'')) then Inr acc
      else case msg of
        Obj m \<Rightarrow>
          bindE (displayed env m) (\<lambda>display.
            let (b, byId) = acc; i = messageIdentity m;
                previous = (case map_of byId i of Some r \<Rightarrow> objects b r | None \<Rightarrow> [])
            in if i = [] then Inr acc
               else Inr (new_object (with_fld ''id'' (Str i) (mergeMessage previous display)) b, assoc_put i (next_obj b) byId))
      | _ \<Rightarrow> Inr acc)"

fun merge_all :: "view_env \<Rightarrow> jsval list \<Rightarrow> chat \<times> (jstr \<times> nat) list \<Rightarrow> (chat \<times> (jstr \<times> nat) list) js_result" where
  "merge_all env [] acc = Inr acc"
| "merge_all env (m # ms) acc = bindE (merge_one env m acc) (merge_all env ms)"

text \<open>The rows of a page: an absent list is empty, and what cannot be iterated is an error.\<close>

definition history_rows :: "jsval \<Rightarrow> jsval list js_result" where
  "history_rows v = (case v of Arr xs \<Rightarrow> Inr xs | Str _ \<Rightarrow> Inr [] | _ \<Rightarrow> if truthy v then Inl TypeError else Inr [])"

text \<open>\<open>Date.parse(a.timestamp) - Date.parse(b.timestamp) || (a.seq || 0) - (b.seq || 0)\<close> is positive.\<close>

definition comes_after :: "view_env \<Rightarrow> props \<Rightarrow> props \<Rightarrow> bool" where
  "comes_after env a b =
     (let d = jsub (parseDate env (to_string (fld a ''timestamp''))) (parseDate env (to_string (fld b ''timestamp'')))
      in jlt (Fin 0) (if truthy (Num d) then d else jsub (num_or_zero (fld a ''seq'')) (num_or_zero (fld b ''seq''))))"

definition in_order :: "view_env \<Rightarrow> chat \<times> (jstr \<times> nat) list \<Rightarrow> nat list" where
  "in_order env acc = js_sort (\<lambda>r s. comes_after env (objects (fst acc) r) (objects (fst acc) s)) (map snd (snd acc))"

definition newest :: "'a list \<Rightarrow> 'a list" where
  "newest xs = drop (length xs - MAX_FEED_MESSAGES) xs"

definition set_feed :: "jstr \<Rightarrow> nat list \<Rightarrow> chat \<Rightarrow> chat" where
  "set_feed key f b = b\<lparr>channelFeeds := assoc_put key f (channelFeeds b)\<rparr>"

definition by_identity :: "chat \<Rightarrow> nat list \<Rightarrow> (jstr \<times> nat) list" where
  "by_identity b refs = fold (\<lambda>r. assoc_put (messageIdentity (objects b r)) r) refs []"

definition cached_arrives :: "view_env \<Rightarrow> render_ctx \<Rightarrow> bool \<Rightarrow> jsval list \<Rightarrow> chat_view \<Rightarrow> chat_view" where
  "cached_arrives env ctx blocked rows v =
     (let feed = rc_feed ctx; ms = (if blocked then [] else rows);
          v1 = (if is_current ctx v \<and> ms \<noteq> [] \<and> feed_at feed v = []
                then (case merge_all env ms (base v, []) of
                        Inl _ \<Rightarrow> v
                      | Inr acc \<Rightarrow>
                          if in_order env acc = [] then v
                          else paint feed (set_state feed Ready (set_base (set_feed feed (newest (in_order env acc)) (fst acc)) v)))
                else v)
      in request_page ctx v1)"


subsection \<open>Loss of access\<close>

definition drop_history :: "chat \<Rightarrow> chat" where
  "drop_history b = (clearAllAckTimeouts b)\<lparr>channelFeeds := [], pendingOutgoingAcks := []\<rparr>"

definition clearProtectedHistory :: "chat_view \<Rightarrow> chat_view" where
  "clearProtectedHistory v =
     v\<lparr>base := drop_history (base v), renderGeneration := renderGeneration v + 1, historyAccessDenied := True,
       historyPages := [], historyStates := [], conversationsWithMessages := [], unreadCounts := [],
       visibleFeedKey := None, dmListUi := [], bubbles := [], olderButton := None\<rparr>"

definition deny_in :: "jstr \<Rightarrow> chat_view \<Rightarrow> chat_view" where
  "deny_in feed v = paint feed (set_state feed AuthNeeded (clearProtectedHistory v))"

datatype page_reply = HistoryPage jsval | PageRefused | PageFailed

text \<open>What \<open>loadInitialHistory\<close> does once its rendering is over.\<close>

definition load_threads :: "bool \<Rightarrow> chat_view \<Rightarrow> chat_view" where
  "load_threads initial v =
     (if initial \<and> \<not> historyAccessDenied v then start_task (ThreadsRead (renderGeneration v) (storageAuth v)) v else v)"

definition install_page :: "view_env \<Rightarrow> render_ctx \<Rightarrow> jsval \<Rightarrow> chat_view \<Rightarrow> chat_view js_result" where
  "install_page env ctx page v =
     (let feed = rc_feed ctx in
      bindE (history_rows (getp page (js ''messages''))) (\<lambda>ms.
      bindE (merge_all env ms (base v, by_identity (base v) (feed_at feed v))) (\<lambda>acc.
        let merged = in_order env acc; kept = (if is_nullish (rc_before ctx) then newest merged else merged)
        in Inr (set_state feed (if truthy (getp page (js ''offline'')) then OfflineCache else Ready)
             ((set_base (set_feed feed kept (fst acc)) v)
                \<lparr>historyPages := assoc_put feed page (historyPages v), historyAccessDenied := False\<rparr>)))))"

text \<open>The storage opens its cache when it accepts a page from the server, and closes it on a refusal.\<close>

definition page_arrives :: "view_env \<Rightarrow> render_ctx \<Rightarrow> page_reply \<Rightarrow> chat_view \<Rightarrow> chat_view" where
  "page_arrives env ctx reply v =
     (case reply of
        HistoryPage page \<Rightarrow>
          let v0 = (if truthy (getp page (js ''offline'')) then v else v\<lparr>storageBlocked := False\<rparr>) in
          if \<not> is_current ctx v0 \<or> getp page (js ''station_id'') \<noteq> storageStation v0 then v0
          else (case install_page env ctx page v0 of
                  Inl _ \<Rightarrow> paint (rc_feed ctx) (set_state (rc_feed ctx) LoadFailed v0)
                | Inr v1 \<Rightarrow> paint (rc_feed ctx) v1)
      | PageRefused \<Rightarrow>
          let v0 = v\<lparr>storageBlocked := True\<rparr> in if is_current ctx v0 then deny_in (rc_feed ctx) v0 else v0
      | PageFailed \<Rightarrow> if is_current ctx v then paint (rc_feed ctx) (set_state (rc_feed ctx) LoadFailed v) else v)"

subsection \<open>The list of direct conversations\<close>

definition isGenericOrHexNodeName :: "view_env \<Rightarrow> jsval \<Rightarrow> jstr \<Rightarrow> bool" where
  "isGenericOrHexNodeName env name pubkey =
     (case name of
        Str s \<Rightarrow>
          (let clean = trim s; lower = toLowerCase clean; pk = trim (toLowerCase pubkey) in
           s = [] \<or> clean = [] \<or> lower \<in> set UNKNOWN_NAMES \<or>
           pubkey \<noteq> [] \<and> (lower = pk \<or> lower = take 8 pk) \<or>
           startsWith clean (js ''Nodo ['') \<or> startsWith clean (js ''Node ['') \<or> startsWith lower (js ''node_unknow'') \<or>
           str_includes lower (js ''local station'') \<or> str_includes clean (localLabel env))
      | _ \<Rightarrow> True)"

definition node_at :: "view_env \<Rightarrow> jstr \<Rightarrow> jsval" where
  "node_at env pk = (case map_of (knownNodes env) (toLowerCase pk) of Some n \<Rightarrow> n | None \<Rightarrow> Undefined)"

definition addDmContact :: "view_env \<Rightarrow> jsval \<Rightarrow> jsval \<Rightarrow> chat_view \<Rightarrow> chat_view" where
  "addDmContact env pubkey name v =
     (let pk = canonical env pubkey; node = node_at env pk in
      if \<not> truthy pubkey \<or> local_target env pk \<or> isRepeater node then v
      else
        let isHexOrFallback = isGenericOrHexNodeName env name pk;
            nodeName = getp node (js ''name''); nodeAlias = getp node (js ''alias''); named = (truthy nodeName \<or> truthy nodeAlias);
            clean = (if isHexOrFallback \<and> named then js_or nodeAlias nodeName
                     else js_or name (js_or nodeAlias (js_or nodeName (Str (take 8 pk)))))
        in if pk \<in> fst ` set (dmListUi v) \<and> \<not> (truthy clean \<and> (\<not> isHexOrFallback \<or> named)) then v
           else v\<lparr>dmListUi := assoc_put pk (to_string clean) (dmListUi v)\<rparr>)"

definition add_thread_item :: "view_env \<Rightarrow> jsval \<Rightarrow> chat_view \<Rightarrow> chat_view" where
  "add_thread_item env t v =
     (let pk = canonical env (getp t (js ''pubkey'')) in
      if \<not> truthy t \<or> \<not> truthy (getp t (js ''pubkey'')) \<or> pk = [] \<or> local_target env pk \<or> isRepeater (node_at env pk) then v
      else
        let v1 = v\<lparr>conversationsWithMessages := add_once pk (conversationsWithMessages v)\<rparr> in
        if pk \<in> set (closedDmThreads v1) then v1
        else addDmContact env (Str pk) (js_or (getp t (js ''name'')) (Str (take 8 pk))) v1)"

datatype threads_reply = Threads "jsval list" | ThreadsRefused | ThreadsFailed

definition threads_arrive :: "view_env \<Rightarrow> nat \<Rightarrow> nat \<Rightarrow> threads_reply \<Rightarrow> chat_view \<Rightarrow> chat_view" where
  "threads_arrive env gen auth reply v =
     (if gen \<noteq> renderGeneration v \<or> auth \<noteq> storageAuth v then v
      else case reply of
        Threads ts \<Rightarrow> fold (add_thread_item env) ts v
      | ThreadsRefused \<Rightarrow> deny_in (currentFeed v) (v\<lparr>storageBlocked := True\<rparr>)
      | ThreadsFailed \<Rightarrow> v)"

definition choose_channel :: "jsval \<Rightarrow> chat_view \<Rightarrow> chat_view" where
  "choose_channel idx v = start_task RenderTimer (set_base (switchChannel idx (base v)) v)"

definition reopen :: "jstr \<Rightarrow> chat_view \<Rightarrow> chat_view" where
  "reopen pk v = v\<lparr>closedDmThreads := filter (\<lambda>k. k \<noteq> pk) (closedDmThreads v)\<rparr>"

definition may_open :: "view_env \<Rightarrow> chat_view \<Rightarrow> jstr \<Rightarrow> bool" where
  "may_open env v pk \<longleftrightarrow> \<not> local_target env pk \<and>
     (case findNode (trim (toLowerCase pk)) (map snd (knownNodes env)) of Inl _ \<Rightarrow> False | Inr node \<Rightarrow> \<not> isRepeater node)"

definition open_conversation :: "view_env \<Rightarrow> jsval \<Rightarrow> jstr \<Rightarrow> chat_view \<Rightarrow> chat_view" where
  "open_conversation env pubkey name v =
     (let pk = canonical env pubkey; v1 = set_base (openDmConversation (outbox_env env v) pubkey name (base v)) v in
      if truthy pubkey \<and> may_open env v pk
      then start_task RenderTimer
             (addDmContact env (Str pk) (case activeDmName (base v1) of Some n \<Rightarrow> Str n | None \<Rightarrow> Null) (reopen pk v1))
      else v1)"

definition close_conversation :: "view_env \<Rightarrow> jsval \<Rightarrow> chat_view \<Rightarrow> chat_view" where
  "close_conversation env pubkey v =
     (let pk = canonical env pubkey in
      if \<not> truthy pubkey \<or> pk = [] then v
      else
        let v1 = v\<lparr>closedDmThreads := add_once pk (closedDmThreads v), dmListUi := assoc_del pk (dmListUi v)\<rparr>;
            v2 = (if activeDmTarget (base v) = Some pk then choose_channel (Num (Fin 0)) v1 else v1)
        in set_base (toast ''chat.chat_closed'' Undefined (base v2)) v2)"

subsection \<open>Incoming messages\<close>

definition valid_instant :: "jnum \<Rightarrow> bool" where
  "valid_instant n = (case n of Fin q \<Rightarrow> \<bar>q\<bar> \<le> 8640000000000000 | _ \<Rightarrow> False)"

text \<open>The instant of a message; \<open>toISOString\<close> throws when a number is no instant.\<close>

definition message_time :: "view_env \<Rightarrow> nat \<Rightarrow> jsval \<Rightarrow> jstr js_result" where
  "message_time env n v =
     (case v of
        Num t \<Rightarrow>
          if \<not> truthy v then Inr (nowText env n)
          else let ms = (if jlt t (Fin 100000000000) then num_map (\<lambda>q. q * 1000) t else t)
               in if valid_instant ms then Inr (isoText env ms) else Inl RangeError
      | Str s \<Rightarrow> Inr (if s = [] \<or> parseDate env s = NaN then nowText env n else isoText env (parseDate env s))
      | _ \<Rightarrow> Inr (nowText env n))"

record incoming =
  in_feed :: jstr
  in_direct :: bool
  in_peer :: jstr
  in_outgoing :: bool
  in_contact :: jsval
  in_message :: props

definition first_of :: "jsval \<Rightarrow> string list \<Rightarrow> jsval \<Rightarrow> jsval" where
  "first_of payload ks d = foldr (\<lambda>k v. js_or (getp payload (js k)) v) ks d"

definition is_direct_payload :: "jsval \<Rightarrow> bool" where
  "is_direct_payload p \<longleftrightarrow>
     truthy (getp p (js ''is_direct'')) \<or> truthy (getp p (js ''dm_target'')) \<or> getp p (js ''type'') = Str (js ''direct'') \<or>
     getp p (js ''type'') = Str (js ''DIRECT_MSG'') \<or> getp p (js ''event_type'') = Str (js ''direct'')"

text \<open>The message that a frame becomes, the \<open>n\<close>-th one created.\<close>

definition read_incoming :: "view_env \<Rightarrow> nat \<Rightarrow> jsval \<Rightarrow> incoming js_result" where
  "read_incoming env n p =
     (let rawText = first_of p [''text'', ''message''] (Str []); outgoing = truthy (getp p (js ''is_outgoing''));
          sender = canonical env (first_of p [''from'', ''sender'', ''public_key''] (Str (js ''unknown'')));
          peer = (if outgoing then canonical env (first_of p [''dm_target'', ''target''] (Str [])) else sender);
          isDm = is_direct_payload p;
          channel = nullish (getp p (js ''channel_idx'')) (nullish (getp p (js ''channel'')) (Num (Fin 0)));
          given = getp p (js ''feed_key'');
          feedKey = (if truthy given then to_string given else if isDm then js ''dm_'' @ peer else js ''ch_'' @ to_string channel);
          ident = js_or (getp p (js ''msg_id'')) (getp p (js ''server_id''))
      in bindE (if outgoing then Inr \<lparr>senderName = getp p (js ''sender_name''), cleanText = rawText\<rparr>
                else extractSenderAndText (anonymousName env) rawText (first_of p [''sender_name''] (getp p (js ''name''))))
           (\<lambda>s. bindE (message_time env n (getp p (js ''timestamp''))) (\<lambda>ts.
             Inr \<lparr>in_feed = feedKey, in_direct = isDm, in_peer = peer, in_outgoing = outgoing,
                  in_contact = (if outgoing then getp p (js ''dm_target_name'') else senderName s),
                  in_message = fold (\<lambda>(k, x). with_fld k x)
                    [(''id'', js_or ident (Str (freshId env n))), (''msg_id'', ident), (''server_id'', getp p (js ''server_id'')),
                     (''seq'', getp p (js ''seq'')), (''sender'', Str sender), (''sender_name'', senderName s),
                     (''text'', cleanText s), (''is_outgoing'', Bool outgoing),
                     (''channel_idx'', nullish (getp p (js ''channel_idx'')) (Num (Fin 0))),
                     (''dm_target'', if isDm then Str peer else Null), (''timestamp'', Str ts),
                     (''delivered'', nullish (getp p (js ''delivered'')) (Bool (\<not> outgoing))),
                     (''status'', js_or (getp p (js ''status'')) (Str (if outgoing then js ''sent'' else js ''received'')))]
                    (case p of Obj ps \<Rightarrow> ps | _ \<Rightarrow> [])\<rparr>)))"

definition add_unread :: "jstr \<Rightarrow> chat_view \<Rightarrow> chat_view" where
  "add_unread key v = v\<lparr>unreadCounts := assoc_put key (count_at key (unreadCounts v) + 1) (unreadCounts v)\<rparr>"

fun position :: "('a \<Rightarrow> bool) \<Rightarrow> 'a list \<Rightarrow> nat option" where
  "position p [] = None"
| "position p (x # xs) = (if p x then Some 0 else map_option Suc (position p xs))"

text \<open>A message of an identity that the feed has already replaces it, on screen as well.\<close>

definition replace_message :: "jstr \<Rightarrow> nat \<Rightarrow> props \<Rightarrow> chat_view \<Rightarrow> chat_view" where
  "replace_message key i m v =
     (let r = next_obj (base v); merged = mergeMessage (objects (base v) (feed_at key v ! i)) m;
          b = log_call (SaveMessage key merged) (set_feed key ((feed_at key v)[i := r]) (new_object merged (base v)));
          bs = replace_bubble (objects b) (messageIdentity m) r (bubbles v)
      in v\<lparr>base := (if bs = bubbles v then b else paint_bubble r b), bubbles := bs\<rparr>)"

definition note_contact :: "view_env \<Rightarrow> incoming \<Rightarrow> chat_view \<Rightarrow> chat_view" where
  "note_contact env m v =
     (if in_direct m \<and> in_peer m \<noteq> []
      then addDmContact env (Str (in_peer m)) (in_contact m)
             (reopen (in_peer m) (v\<lparr>conversationsWithMessages := add_once (in_peer m) (conversationsWithMessages v)\<rparr>))
      else v)"

definition add_message :: "view_env \<Rightarrow> incoming \<Rightarrow> chat_view \<Rightarrow> chat_view" where
  "add_message env m v =
     (let r = next_obj (base v); key = in_feed m;
          b = log_call (SaveMessage key (in_message m))
                (set_feed key (push_bounded MAX_FEED_MESSAGES r (feed_at key v)) (new_object (in_message m) (base v)));
          v1 = note_contact env m (set_base b v)
      in if key = currentFeed v1
         then let v2 = append_bubble r v1 in if \<not> chatTabActive v2 \<and> \<not> in_outgoing m then add_unread key v2 else v2
         else if \<not> in_outgoing m then add_unread key v1 else v1)"

definition handleIncomingChatMessage :: "view_env \<Rightarrow> jsval \<Rightarrow> chat_view \<Rightarrow> chat_view" where
  "handleIncomingChatMessage env p v =
     (if historyAccessDenied v \<or> truthy (getp p (js ''station_id'')) \<and> getp p (js ''station_id'') \<noteq> storageStation v then v
      else case read_incoming env (next_obj (base v)) p of
        Inl _ \<Rightarrow> v
      | Inr m \<Rightarrow>
          (case position (\<lambda>r. messageIdentity (objects (base v) r) = messageIdentity (in_message m)) (feed_at (in_feed m) v) of
             Some i \<Rightarrow> replace_message (in_feed m) i (in_message m) v
           | None \<Rightarrow> add_message env m v))"

definition refresh_names :: "view_env \<Rightarrow> chat_view \<Rightarrow> chat_view" where
  "refresh_names env v =
     v\<lparr>dmListUi := map (\<lambda>(pk, name).
         let node = node_at env (canonical env (Str pk)); real = js_or (getp node (js ''alias'')) (getp node (js ''name''))
         in (pk, if pk \<noteq> [] \<and> truthy real then to_string real else name)) (dmListUi v)\<rparr>"

definition on_packet :: "view_env \<Rightarrow> jsval \<Rightarrow> chat_view \<Rightarrow> chat_view" where
  "on_packet env p v =
     (let evType = js_or (getp p (js ''type'')) (getp p (js ''event_type'')) in
      if \<not> is_object p then v
      else if evType = Str (js ''message_status'') then set_base (handleMessageStatus p (base v)) v
      else if evType = Str (js ''message_delivered'') then set_base (handleDeliveryAck (outbox_env env v) p (base v)) v
      else if isCommonChatMessage p then handleIncomingChatMessage env p v
      else if evType \<in> Str ` set (map js [''contact_discovered'', ''contact_updated'', ''contacts_updated'']) then refresh_names env v
      else v)"


subsection \<open>Deleting, and events of the page\<close>

definition clear_start :: "chat_view \<Rightarrow> chat_view" where
  "clear_start v =
     (let feed = currentFeed v
      in start_task (ClearStorage (renderGeneration v + 1) feed)
           (set_state feed (if historyAccessDenied v then AuthNeeded else Ready)
              (v\<lparr>base := set_feed feed [] (base v), renderGeneration := renderGeneration v + 1,
                 feedGenerations := assoc_put feed (count_at feed (feedGenerations v) + 1) (feedGenerations v),
                 historyPages := assoc_del feed (historyPages v)\<rparr>)))"

definition clear_finish :: "nat \<Rightarrow> jstr \<Rightarrow> chat_view \<Rightarrow> chat_view" where
  "clear_finish gen feed v =
     (let v1 = (if gen = renderGeneration v \<and> feed = currentFeed v then paint feed v else v)
      in set_base (toast ''chat.cleared'' Undefined (base v1)) v1)"

definition station_changed :: "jsval \<Rightarrow> chat_view \<Rightarrow> chat_view" where
  "station_changed station v =
     paint (currentFeed v)
       (v\<lparr>base := drop_history (base v), storageStation := station, storageBlocked := False, historyPages := [],
          historyStates := [], visibleFeedKey := None, dmListUi := []\<rparr>)"

definition load_initial :: "chat_view \<Rightarrow> chat_view" where
  "load_initial v = render_start Null True v"

definition credentials_changed :: "chat_view \<Rightarrow> chat_view" where
  "credentials_changed v =
     load_initial (clearProtectedHistory (v\<lparr>storageAuth := storageAuth v + 1, storageBlocked := True\<rparr>))"

definition access_denied :: "chat_view \<Rightarrow> chat_view" where
  "access_denied v = deny_in (currentFeed v) (v\<lparr>storageBlocked := True\<rparr>)"

definition cache_cleared :: "chat_view \<Rightarrow> chat_view" where
  "cache_cleared v =
     paint (currentFeed v)
       (v\<lparr>base := (base v)\<lparr>channelFeeds := []\<rparr>, renderGeneration := renderGeneration v + 1, historyPages := [],
          historyStates := [], visibleFeedKey := None\<rparr>)"

definition save_draft :: "chat_view \<Rightarrow> chat_view" where
  "save_draft v =
     (if draftTimer v
      then let b = base v; key = draft_key (currentFeed v)
           in v\<lparr>base := b\<lparr>drafts := (if trim (chatInputText b) \<noteq> [] then assoc_put key (chatInputText b) (drafts b)
                                  else assoc_del key (drafts b))\<rparr>, draftTimer := False\<rparr>
      else v)"

text \<open>An event of the outbox; a message it creates is appended when its conversation is open.\<close>

definition outbox_event :: "view_env \<Rightarrow> chat_event \<Rightarrow> chat_view \<Rightarrow> chat_view" where
  "outbox_event env ev v =
     (let b = chat_step (outbox_env env v) ev (base v); v1 = set_base b v in
      case job b of
        Some j \<Rightarrow>
          if next_obj b \<noteq> next_obj (base v) \<and> feed_of (canonicalTarget j) (channelIdx j) = currentFeed v1
          then append_bubble (job_msg j) v1 else v1
      | None \<Rightarrow> v1)"

datatype task_result = Elapsed | CacheRows "jsval list" | PageReply page_reply | ThreadsReply threads_reply

definition resume :: "view_env \<Rightarrow> view_task \<Rightarrow> task_result \<Rightarrow> chat_view \<Rightarrow> chat_view" where
  "resume env t r v =
     (case (t, r) of
        (RenderTimer, _) \<Rightarrow> render_start Null False v
      | (CachedRead ctx blocked, CacheRows rows) \<Rightarrow> cached_arrives env ctx blocked rows v
      | (CachedRead ctx blocked, _) \<Rightarrow> cached_arrives env ctx blocked [] v
      | (PageRead ctx, PageReply reply) \<Rightarrow> load_threads (rc_initial ctx) (page_arrives env ctx reply v)
      | (PageRead ctx, _) \<Rightarrow> load_threads (rc_initial ctx) (page_arrives env ctx PageFailed v)
      | (ThreadsRead g a, ThreadsReply reply) \<Rightarrow> threads_arrive env g a reply v
      | (ThreadsRead g a, _) \<Rightarrow> v
      | (ClearStorage g feed, _) \<Rightarrow> start_task (ClearRequest g feed) v
      | (ClearRequest g feed, _) \<Rightarrow> clear_finish g feed v)"

datatype view_event =
    Outbox chat_event
  | RxPacket jsval
  | TaskEnds nat task_result
  | ConversationClosed jsval
  | OlderClicked
  | ClearClicked
  | StationChanged jsval
  | CredentialsChange
  | AccessDenied
  | CacheCleared
  | HistoryImported
  | DraftTimerFires
  | TabShown bool

definition view_step :: "view_env \<Rightarrow> view_event \<Rightarrow> chat_view \<Rightarrow> chat_view" where
  "view_step env ev v =
     (case ev of
        Outbox (ChannelChosen idx) \<Rightarrow> choose_channel idx v
      | Outbox (ConversationOpened pk name) \<Rightarrow> open_conversation env pk name v
      | Outbox (Typed t) \<Rightarrow> (outbox_event env (Typed t) v)\<lparr>draftTimer := True\<rparr>
      | Outbox HistoryCleared \<Rightarrow> v
      | Outbox ev' \<Rightarrow> outbox_event env ev' v
      | RxPacket p \<Rightarrow> on_packet env p v
      | TaskEnds n r \<Rightarrow>
          (case map_of (view_tasks v) n of
             Some t \<Rightarrow> resume env t r (v\<lparr>view_tasks := assoc_del n (view_tasks v)\<rparr>)
           | None \<Rightarrow> v)
      | ConversationClosed pk \<Rightarrow> close_conversation env pk v
      | OlderClicked \<Rightarrow> (case olderButton v of Some c \<Rightarrow> render_start c False (v\<lparr>olderButton := None\<rparr>) | None \<Rightarrow> v)
      | ClearClicked \<Rightarrow> clear_start v
      | StationChanged s \<Rightarrow> station_changed s v
      | CredentialsChange \<Rightarrow> credentials_changed v
      | AccessDenied \<Rightarrow> access_denied v
      | CacheCleared \<Rightarrow> cache_cleared v
      | HistoryImported \<Rightarrow> load_initial v
      | DraftTimerFires \<Rightarrow> save_draft v
      | TabShown shown \<Rightarrow> v\<lparr>chatTabActive := shown\<rparr>)"

definition new_view :: "jsval \<Rightarrow> jstr list \<Rightarrow> chat_view" where
  "new_view station archived =
     \<lparr>base = new_chat, historyPages = [], historyStates = [], renderGeneration = 0, feedGenerations = [],
      historyAccessDenied = False, unreadCounts = [], conversationsWithMessages = [], closedDmThreads = archived, dmListUi = [],
      visibleFeedKey = None, bubbles = [], olderButton = None, chatTabActive = False, draftTimer = False,
      storageStation = station, storageAuth = 0, storageBlocked = False, view_tasks = [], next_task = 0\<rparr>"

end
