(* ===== verification/ChatScreen.thy ===== *)
theory ChatScreen
  imports ChatView
begin

section \<open>What holds of the conversations on screen\<close>

text \<open>
  Invariants of the machine of \<open>ChatView\<close>: overtaken downloads change nothing, closed conversations
  stay off the list, an incoming message is filed once, a download never undoes a confirmed
  delivery, and the outbox keeps its own invariants when it runs inside the view.
\<close>

subsection \<open>Bookkeeping of tasks\<close>

text \<open>Running tasks, the number of the next one and the generation: what most operations leave alone.\<close>

definition book :: "chat_view \<Rightarrow> (nat \<times> view_task) list \<times> nat \<times> nat" where
  "book v = (view_tasks v, next_task v, renderGeneration v)"

lemma book_eq: "book v = book w \<longleftrightarrow>
    view_tasks v = view_tasks w \<and> next_task v = next_task w \<and> renderGeneration v = renderGeneration w"
  by (auto simp: book_def)

lemma book_basic [simp]:
  "book (set_base b v) = book v" "book (set_state f s v) = book v" "book (paint f v) = book v" "book (append_bubble r v) = book v"
  "book (add_unread k v) = book v" "book (reopen pk v) = book v" "book (refresh_names env v) = book v"
  "book (addDmContact env p n v) = book v" "book (save_draft v) = book v"
  by (simp_all add: book_def set_base_def set_state_def paint_def append_bubble_def add_unread_def reopen_def refresh_names_def
      addDmContact_def save_draft_def Let_def)

lemma book_upd [simp]:
  "book (v\<lparr>storageBlocked := x\<rparr>) = book v" "book (v\<lparr>conversationsWithMessages := c\<rparr>) = book v"
  "book (v\<lparr>draftTimer := d\<rparr>) = book v" "book (v\<lparr>olderButton := ob\<rparr>) = book v" "book (v\<lparr>chatTabActive := d\<rparr>) = book v"
  "book (v\<lparr>closedDmThreads := ks, dmListUi := xs\<rparr>) = book v" "book (v\<lparr>base := b, bubbles := bs\<rparr>) = book v"
  "book (v\<lparr>historyPages := ps, historyAccessDenied := d\<rparr>) = book v" "book (v\<lparr>storageAuth := a, storageBlocked := x\<rparr>) = book v"
  by (simp_all add: book_def)

lemma book_thread [simp]: "book (add_thread_item env t v) = book v"
  by (simp add: add_thread_item_def Let_def)

lemma book_threads [simp]: "book (fold (add_thread_item env) ts v) = book v"
  by (induction ts arbitrary: v) simp_all

lemma book_incoming [simp]: "book (handleIncomingChatMessage env p v) = book v"
  by (simp add: handleIncomingChatMessage_def replace_message_def add_message_def note_contact_def Let_def
      split: sum.split option.split)

lemma book_packet [simp]: "book (on_packet env p v) = book v"
  by (simp add: on_packet_def Let_def)

lemma book_outbox [simp]: "book (outbox_event env ev v) = book v"
  by (simp add: outbox_event_def Let_def split: option.split)

text \<open>Later states: tasks end or are added under new numbers, and generations grow.\<close>

definition later :: "chat_view \<Rightarrow> chat_view \<Rightarrow> bool" where
  "later v w \<longleftrightarrow> next_task v \<le> next_task w \<and> renderGeneration v \<le> renderGeneration w \<and>
     (\<forall>n < next_task v. \<forall>t. map_of (view_tasks w) n = Some t \<longrightarrow> map_of (view_tasks v) n = Some t)"

lemma later_same: "book w = book v \<Longrightarrow> later v w"
  by (simp add: later_def book_eq)

lemma later_trans: "later u v \<Longrightarrow> later v w \<Longrightarrow> later u w"
  unfolding later_def by (meson le_trans less_le_trans)

lemma later_start: "later v w \<Longrightarrow> later v (start_task t w)"
  by (auto simp: later_def start_task_def map_add_def split: option.splits if_splits)

lemma later_deny: "later v (deny_in f v)" "later v (clearProtectedHistory v)"
  by (simp_all add: later_def deny_in_def clearProtectedHistory_def paint_def set_state_def Let_def)

lemma later_book: "book w' = book w \<Longrightarrow> later v w \<Longrightarrow> later v w'"
  by (simp add: later_def book_eq)

lemma later_request: "later v w \<Longrightarrow> later v (request_page ctx w)"
  unfolding request_page_def by (intro later_start) (simp add: later_book[of _ w])

lemma later_render: "later v w \<Longrightarrow> later v (render_start before initial w)"
proof -
  assume "later v w"
  then have "later v (w\<lparr>renderGeneration := renderGeneration w + 1, unreadCounts := u\<rparr>)" for u
    by (auto simp: later_def)
  then show ?thesis by (simp add: render_start_def Let_def later_start later_request)
qed

lemma later_cached: "later v w \<Longrightarrow> later v (cached_arrives env ctx blocked rows w)"
proof -
  assume vw: "later v w"
  have "later v (if c then (case x of Inl _ \<Rightarrow> w | Inr acc \<Rightarrow> if d acc then w else paint f (set_state f s (set_base (b acc) w))) else w)"
    for c x d f s b using vw by (auto intro: later_book[of _ w] split: sum.split)
  then show ?thesis unfolding cached_arrives_def Let_def by (rule later_request)
qed

lemma book_install: "install_page env ctx page v = Inr w \<Longrightarrow> book w = book v"
  by (auto simp: install_page_def bindE_eq_Inr Let_def)

lemma later_page: "later v (page_arrives env ctx reply v)"
proof (cases reply)
  case (HistoryPage page)
  have "later v (case install_page env ctx page w of Inl _ \<Rightarrow> paint f (set_state f s w) | Inr w' \<Rightarrow> paint f w')"
    if "book w = book v" for w f s
    using that by (auto intro!: later_same simp: book_install split: sum.split)
  then show ?thesis using HistoryPage by (simp add: page_arrives_def Let_def later_same)
next
  case PageRefused
  have "later v (deny_in f (v\<lparr>storageBlocked := True\<rparr>))" for f
    using later_deny(1)[of "v\<lparr>storageBlocked := True\<rparr>" f] by (simp add: later_def)
  then show ?thesis using PageRefused by (simp add: page_arrives_def Let_def later_same)
qed (simp add: page_arrives_def later_same)

lemma later_threads: "later v (threads_arrive env g a reply v)"
proof (cases reply)
  case ThreadsRefused
  have "later v (deny_in f (v\<lparr>storageBlocked := True\<rparr>))" for f
    using later_deny(1)[of "v\<lparr>storageBlocked := True\<rparr>" f] by (simp add: later_def)
  then show ?thesis using ThreadsRefused by (simp add: threads_arrive_def later_same)
qed (simp_all add: threads_arrive_def later_same)

lemma later_load: "later v w \<Longrightarrow> later v (load_threads i w)"
  by (simp add: load_threads_def later_start)

lemma later_clear_finish: "later v (clear_finish g f v)"
  by (simp add: clear_finish_def Let_def later_same)

lemma later_resume: "later v (resume env t r v)"
proof -
  have r: "later v v" by (simp add: later_same)
  then show ?thesis unfolding resume_def
    by (auto simp: later_render later_cached later_page later_load later_threads later_start later_clear_finish
        split: view_task.split task_result.split)
qed

lemma later_choose: "later v w \<Longrightarrow> later v (choose_channel i w)"
  unfolding choose_channel_def by (rule later_start) (simp add: later_book[of _ w])

lemma later_open: "later v (open_conversation env pk n v)"
  by (auto simp: open_conversation_def Let_def later_same later_start)

lemma later_close: "later v (close_conversation env pk v)"
proof -
  have "later v (v\<lparr>closedDmThreads := ks, dmListUi := xs\<rparr>)" for ks xs by (simp add: later_same)
  then have "later v (choose_channel i (v\<lparr>closedDmThreads := ks, dmListUi := xs\<rparr>))" for i ks xs by (rule later_choose)
  then show ?thesis by (auto simp: close_conversation_def Let_def later_same intro: later_book[OF book_basic(1)])
qed

lemma later_clear_start: "later v (clear_start v)"
proof -
  have "later v (v\<lparr>base := b, renderGeneration := renderGeneration v + 1, feedGenerations := fg, historyPages := ps\<rparr>)" for b fg ps
    by (simp add: later_def)
  then show ?thesis unfolding clear_start_def Let_def by (intro later_start later_book[OF book_basic(2)])
qed

lemma later_session:
  "later v (station_changed s v)" "later v (credentials_changed v)" "later v (access_denied v)" "later v (cache_cleared v)"
  "later v (load_initial v)"
proof -
  show "later v (station_changed s v)" unfolding station_changed_def
    by (rule later_book[OF book_basic(3)]) (simp add: later_def)
  show "later v (credentials_changed v)" unfolding credentials_changed_def load_initial_def
    by (rule later_render) (simp add: later_def clearProtectedHistory_def)
  show "later v (access_denied v)" unfolding access_denied_def
    using later_deny(1)[of "v\<lparr>storageBlocked := True\<rparr>"] by (simp add: later_def)
  show "later v (cache_cleared v)" unfolding cache_cleared_def
    by (rule later_book[OF book_basic(3)]) (simp add: later_def)
  show "later v (load_initial v)" unfolding load_initial_def by (rule later_render) (simp add: later_same)
qed

lemma later_task: "later v (resume env t r (v\<lparr>view_tasks := assoc_del n (view_tasks v)\<rparr>))"
  by (rule later_trans[OF _ later_resume]) (auto simp: later_def map_of_assoc_del split: if_splits)

lemma later_step: "later v (view_step env ev v)"
proof (cases ev)
  case (Outbox oe)
  have "later v ((outbox_event env e v)\<lparr>draftTimer := True\<rparr>)" for e by (simp add: later_same)
  then show ?thesis using Outbox
    by (cases oe) (simp_all add: view_step_def later_same later_choose later_open)
next
  case (TaskEnds n r)
  then show ?thesis by (simp add: view_step_def later_task later_same split: option.split)
next
  case OlderClicked
  have "later v (render_start c False (v\<lparr>olderButton := None\<rparr>))" for c by (rule later_render) (simp add: later_same)
  then show ?thesis using OlderClicked by (simp add: view_step_def later_same split: option.split)
qed (simp_all add: view_step_def later_same later_close later_clear_start later_session)

subsection \<open>Overtaken requests\<close>

text \<open>The generation a task was started in; the timer that starts a rendering belongs to none.\<close>

definition task_gen :: "view_task \<Rightarrow> nat option" where
  "task_gen t =
     (case t of
        RenderTimer \<Rightarrow> None
      | CachedRead ctx _ \<Rightarrow> Some (rc_render ctx)
      | PageRead ctx \<Rightarrow> Some (rc_render ctx)
      | ThreadsRead g _ \<Rightarrow> Some g
      | ClearStorage g _ \<Rightarrow> Some g
      | ClearRequest g _ \<Rightarrow> Some g)"

definition overtaken :: "nat \<Rightarrow> chat_view \<Rightarrow> bool" where
  "overtaken n v \<longleftrightarrow> n < next_task v \<and>
     (\<forall>t. map_of (view_tasks v) n = Some t \<longrightarrow> (\<exists>g. task_gen t = Some g \<and> g < renderGeneration v))"

text \<open>What the user can read of the conversations: feeds with their messages, pages, counts and the list.\<close>

definition readable ::
  "chat_view \<Rightarrow> (jstr \<times> nat list) list \<times> (nat \<Rightarrow> props) \<times> (jstr \<times> jsval) list \<times> bool \<times> (jstr \<times> nat) list \<times> (jstr \<times> jstr) list" where
  "readable v = (channelFeeds (base v), objects (base v), historyPages v, historyAccessDenied v, unreadCounts v, dmListUi v)"

lemma fold_paint_frame:
  "channelFeeds (fold paint_bubble rs b) = channelFeeds b" "objects (fold paint_bubble rs b) = objects b"
  "next_obj (fold paint_bubble rs b) = next_obj b"
  by (induction rs arbitrary: b) (simp_all add: paint_frames)

lemma readable_basic [simp]:
  "readable (paint f v) = readable v" "readable (set_state f s v) = readable v" "readable (start_task t v) = readable v"
  "readable (v\<lparr>storageBlocked := x\<rparr>) = readable v" "readable (v\<lparr>view_tasks := ts\<rparr>) = readable v"
  "readable (set_base (toast k a (base v)) v) = readable v"
  by (simp_all add: readable_def paint_def set_state_def start_task_def set_base_def fold_paint_frame Let_def)

lemma overtaken_stays: "overtaken n v \<Longrightarrow> overtaken n (view_step env ev v)"
  using later_step[of v env ev] unfolding overtaken_def later_def by (meson less_le_trans)

lemma overtaken_resume:
  assumes "task_gen t = Some g" "g < renderGeneration v"
  shows "readable (resume env t r v) = readable v"
proof -
  have stale: "\<not> is_current ctx w" if "rc_render ctx = g" "renderGeneration w = renderGeneration v" for ctx w
    using that assms(2) by (simp add: is_current_def)
  have blocked: "renderGeneration (v\<lparr>storageBlocked := x\<rparr>) = renderGeneration v" for x by simp
  have load: "readable (load_threads i w) = readable w" for i w by (simp add: load_threads_def)
  have request: "readable (request_page ctx w) = readable w" for ctx w by (simp add: request_page_def)
  have page: "readable (page_arrives env ctx reply v) = readable v" if "rc_render ctx = g" for ctx reply
    using stale[OF that] by (simp add: page_arrives_def Let_def split: page_reply.split)
  have cached: "readable (cached_arrives env ctx x rows v) = readable v" if "rc_render ctx = g" for ctx x rows
    using stale[OF that refl] request by (simp add: cached_arrives_def Let_def)
  have thr: "readable (threads_arrive env g a reply v) = readable v" for a reply
    using assms(2) by (simp add: threads_arrive_def)
  have fin: "readable (clear_finish g f v) = readable v" for f
    using assms(2) by (simp add: clear_finish_def Let_def)
  show ?thesis using assms(1) page cached thr fin load
    by (cases t; cases r) (simp_all add: resume_def task_gen_def)
qed

lemma overtaken_ignored: "overtaken n v \<Longrightarrow> readable (view_step env (TaskEnds n r) v) = readable v"
proof (cases "map_of (view_tasks v) n")
  case (Some t)
  assume "overtaken n v"
  with Some obtain g where "task_gen t = Some g" "g < renderGeneration v" by (auto simp: overtaken_def)
  then have "readable (resume env t r (v\<lparr>view_tasks := assoc_del n (view_tasks v)\<rparr>)) = readable v"
    using overtaken_resume[of t g "v\<lparr>view_tasks := assoc_del n (view_tasks v)\<rparr>"] by simp
  then show ?thesis using Some by (simp add: view_step_def)
qed (simp add: view_step_def)

interpretation downloads: overtaken_calls "view_step env" overtaken "\<lambda>n ev. \<exists>r. ev = TaskEnds n r" readable for env
  by unfold_locales (auto simp: overtaken_stays overtaken_ignored)

subsection \<open>A change of session\<close>

text \<open>No task is of a generation to come, and numbers are used once.\<close>

definition gens_ok :: "chat_view \<Rightarrow> bool" where
  "gens_ok v \<longleftrightarrow> (\<forall>n t. (n, t) \<in> set (view_tasks v) \<longrightarrow> n < next_task v \<and> (\<forall>g. task_gen t = Some g \<longrightarrow> g \<le> renderGeneration v))"

lemma gens_later: "gens_ok v \<Longrightarrow> view_tasks w = view_tasks v \<Longrightarrow> next_task w = next_task v \<Longrightarrow> renderGeneration v \<le> renderGeneration w \<Longrightarrow> gens_ok w"
  unfolding gens_ok_def by (metis le_trans)

lemma gens_same: "book w = book v \<Longrightarrow> gens_ok w = gens_ok v"
  by (simp add: gens_ok_def book_eq)

lemma gens_basic [simp]:
  "gens_ok (set_base b v) = gens_ok v" "gens_ok (set_state f s v) = gens_ok v" "gens_ok (paint f v) = gens_ok v"
  "gens_ok (outbox_event env e v) = gens_ok v" "gens_ok (on_packet env p v) = gens_ok v" "gens_ok (save_draft v) = gens_ok v"
  "gens_ok (fold (add_thread_item env) ts v) = gens_ok v" "gens_ok (v\<lparr>draftTimer := d\<rparr>) = gens_ok v"
  "gens_ok (v\<lparr>olderButton := ob\<rparr>) = gens_ok v" "gens_ok (v\<lparr>chatTabActive := d\<rparr>) = gens_ok v"
  "gens_ok (v\<lparr>storageBlocked := d\<rparr>) = gens_ok v" "gens_ok (addDmContact env pk nm v) = gens_ok v" "gens_ok (reopen k v) = gens_ok v"
  by (rule gens_same, simp)+

lemma generation_basic [simp]:
  "renderGeneration (set_base b v) = renderGeneration v" "renderGeneration (set_state f s v) = renderGeneration v"
  "renderGeneration (paint f v) = renderGeneration v"
  by (simp_all add: set_base_def set_state_def paint_def Let_def)

lemma gens_start:
  "gens_ok v \<Longrightarrow> (case task_gen t of None \<Rightarrow> True | Some g \<Rightarrow> g \<le> renderGeneration v) \<Longrightarrow> gens_ok (start_task t v)"
  by (auto simp: gens_ok_def start_task_def less_Suc_eq)

lemma gens_request: "gens_ok v \<Longrightarrow> rc_render ctx \<le> renderGeneration v \<Longrightarrow> gens_ok (request_page ctx v)"
  unfolding request_page_def by (rule gens_start) (simp_all add: task_gen_def)

lemma gens_render: "gens_ok v \<Longrightarrow> gens_ok (render_start before i v)"
proof -
  assume "gens_ok v"
  then have ok: "gens_ok (v\<lparr>renderGeneration := Suc (renderGeneration v), unreadCounts := u\<rparr>)" for u
    by (rule gens_later) simp_all
  then show ?thesis by (simp add: render_start_def Let_def task_gen_def gens_request gens_start)
qed

lemma gens_deny: "gens_ok v \<Longrightarrow> gens_ok (deny_in f v)" "gens_ok v \<Longrightarrow> gens_ok (clearProtectedHistory v)"
proof -
  show "gens_ok v \<Longrightarrow> gens_ok (clearProtectedHistory v)" by (erule gens_later) (simp_all add: clearProtectedHistory_def)
  then show "gens_ok v \<Longrightarrow> gens_ok (deny_in f v)" by (simp add: deny_in_def)
qed

lemma gens_cached: "gens_ok v \<Longrightarrow> rc_render ctx \<le> renderGeneration v \<Longrightarrow> gens_ok (cached_arrives env ctx x rows v)"
  by (auto simp: cached_arrives_def Let_def set_base_def set_state_def paint_def split: sum.split
      intro!: gens_request elim: gens_later)

lemma gens_page: "gens_ok v \<Longrightarrow> gens_ok (page_arrives env ctx reply v)"
  by (auto simp: page_arrives_def Let_def gens_deny gens_same[OF book_install] split: page_reply.split sum.split)

lemma gens_choose: "gens_ok v \<Longrightarrow> gens_ok (choose_channel i v)"
  by (simp add: choose_channel_def gens_start task_gen_def)

lemma gens_load: "gens_ok v \<Longrightarrow> gens_ok (load_threads i v)"
  by (simp add: load_threads_def gens_start task_gen_def)

lemma gens_resume:
  assumes "gens_ok v" "\<And>g. task_gen t = Some g \<Longrightarrow> g \<le> renderGeneration v"
  shows "gens_ok (resume env t r v)"
proof -
  have "gens_ok (threads_arrive env g a reply v)" for g a reply
    using assms(1) by (simp add: threads_arrive_def gens_deny split: threads_reply.split)
  moreover have "gens_ok (clear_finish g f v)" for g f using assms(1) by (simp add: clear_finish_def Let_def)
  ultimately show ?thesis using assms
    by (cases t; cases r) (simp_all add: resume_def task_gen_def gens_render gens_cached gens_load gens_page gens_start)
qed

lemma gens_step: "gens_ok v \<Longrightarrow> gens_ok (view_step env ev v)"
proof (cases ev)
  case (Outbox oe)
  have op: "gens_ok v \<Longrightarrow> gens_ok (open_conversation env pk n v)" for pk n
    by (simp add: open_conversation_def Let_def gens_start task_gen_def)
  assume "gens_ok v"
  then show ?thesis using Outbox op by (cases oe) (simp_all add: view_step_def gens_choose)
next
  case (TaskEnds n r)
  assume ok: "gens_ok v"
  show ?thesis
  proof (cases "map_of (view_tasks v) n")
    case (Some t)
    let ?w = "v\<lparr>view_tasks := assoc_del n (view_tasks v)\<rparr>"
    have "(n, t) \<in> set (view_tasks v)" using Some by (rule map_of_SomeD)
    then have "gens_ok ?w" "\<And>g. task_gen t = Some g \<Longrightarrow> g \<le> renderGeneration ?w" using ok by (auto simp: gens_ok_def assoc_del_def)
    then have "gens_ok (resume env t r ?w)" by (rule gens_resume)
    then show ?thesis using TaskEnds Some by (simp add: view_step_def)
  qed (use ok TaskEnds in \<open>simp add: view_step_def\<close>)
next
  case (ConversationClosed pk)
  assume ok: "gens_ok v"
  have "gens_ok (v\<lparr>closedDmThreads := ks, dmListUi := xs\<rparr>)" for ks xs using ok by (rule gens_later) simp_all
  then show ?thesis using ConversationClosed ok by (simp add: view_step_def close_conversation_def Let_def gens_choose)
next
  case OlderClicked
  assume "gens_ok v"
  then show ?thesis using OlderClicked by (simp add: view_step_def gens_render split: option.split)
next
  case ClearClicked
  assume ok: "gens_ok v"
  have "gens_ok (v\<lparr>base := b, renderGeneration := Suc (renderGeneration v), feedGenerations := fg, historyPages := ps\<rparr>)" for b fg ps
    using ok by (rule gens_later) simp_all
  then show ?thesis using ClearClicked
    by (simp add: view_step_def clear_start_def Let_def gens_start task_gen_def)
next
  case (StationChanged s)
  assume "gens_ok v"
  then show ?thesis using StationChanged by (simp add: view_step_def station_changed_def) (simp add: gens_ok_def)
next
  case CacheCleared
  assume ok: "gens_ok v"
  have "gens_ok (v\<lparr>base := b, renderGeneration := Suc (renderGeneration v), historyPages := ps, historyStates := hs, visibleFeedKey := k\<rparr>)"
    for b ps hs k using ok by (rule gens_later) simp_all
  then show ?thesis using CacheCleared by (simp add: view_step_def cache_cleared_def)
next
  case CredentialsChange
  assume ok: "gens_ok v"
  have "gens_ok (v\<lparr>storageAuth := a, storageBlocked := x\<rparr>)" for a x using ok by (rule gens_later) simp_all
  then show ?thesis using CredentialsChange
    by (simp add: view_step_def credentials_changed_def load_initial_def gens_render gens_deny)
qed (simp_all add: view_step_def access_denied_def load_initial_def gens_deny gens_render)

lemma gens_new: "gens_ok (new_view station archived)"
  by (simp add: gens_ok_def new_view_def)

interpretation tasks: initial_invariant "view_step env" "\<lambda>_. True" gens_ok "new_view station archived" for env station archived
  by unfold_locales (simp_all add: gens_step gens_new)


text \<open>Surroundings for the witnesses.\<close>

definition sample_view_env :: view_env where
  "sample_view_env = chat_env.extend sample_env
     \<lparr>anonymousName = js ''?'', localLabel = js ''me'', parseDate = (\<lambda>_. NaN), isoText = (\<lambda>_. []), nowText = (\<lambda>_. []), freshId = (\<lambda>n. js ''rx_'' @ nat_str n)\<rparr>"


subsection \<open>The outbox inside the view\<close>

definition base_ok :: "chat \<Rightarrow> bool" where
  "base_ok b \<longleftrightarrow> busy_ok b \<and> nonempty_job b \<and> acks_ok b"

lemma base_ok_same:
  "job c = job b \<Longrightarrow> sending c = sending b \<Longrightarrow> pendingOutgoingAcks c = pendingOutgoingAcks b \<Longrightarrow>
   ackTimeoutTimers c = ackTimeoutTimers b \<Longrightarrow> base_ok c = base_ok b"
  by (simp add: base_ok_def busy_ok_def nonempty_job_def acks_ok_def)

lemma base_ok_step: "base_ok b \<Longrightarrow> base_ok (chat_step env ev b)"
  by (simp add: base_ok_def busy_step nonempty_step acks_step)

lemma base_ok_paint: "base_ok b \<Longrightarrow> base_ok (paint_bubble r b)"
  using base_ok_step[of b undefined "BubblePainted r"] by (simp add: chat_step_def)

lemma base_ok_paints: "base_ok b \<Longrightarrow> base_ok (fold paint_bubble rs b)"
  by (induction rs arbitrary: b) (simp_all add: base_ok_paint)

lemma base_ok_drop: "base_ok b \<Longrightarrow> base_ok (drop_history b)"
  by (simp add: base_ok_def busy_ok_def nonempty_job_def acks_ok_def drop_history_def clearAllAckTimeouts_def)

lemma base_ok_basic [simp]:
  "base_ok (b\<lparr>chatInputText := t\<rparr>) = base_ok b" "base_ok (b\<lparr>drafts := d\<rparr>) = base_ok b" "base_ok (b\<lparr>channelFeeds := fs\<rparr>) = base_ok b"
  "base_ok (set_feed k f b) = base_ok b" "base_ok (new_object m b) = base_ok b" "base_ok (log_call c b) = base_ok b"
  "base_ok (toast tk a b) = base_ok b" "base_ok (switchChannel i b) = base_ok b" "base_ok (openDmConversation env pk n b) = base_ok b"
  by (rule base_ok_same; simp add: set_feed_def new_object_def switchChannel_def openDmConversation_def Let_def split: sum.split)+

text \<open>What is on screen: the feeds are well formed, and each bubble is of an existing message, once.\<close>

definition screen_ok :: "chat \<Rightarrow> nat list \<Rightarrow> bool" where
  "screen_ok b bs \<longleftrightarrow> base_ok b \<and> feeds_wf (channelFeeds b) (next_obj b) \<and> distinct bs \<and> (\<forall>r \<in> set bs. r < next_obj b)"

definition view_ok :: "chat_view \<Rightarrow> bool" where
  "view_ok v \<longleftrightarrow> screen_ok (base v) (bubbles v)"

lemma view_ok_same: "base w = base v \<Longrightarrow> bubbles w = bubbles v \<Longrightarrow> view_ok w = view_ok v"
  by (simp add: view_ok_def)

lemma screen_ok_same:
  "base_ok c = base_ok b \<Longrightarrow> channelFeeds c = channelFeeds b \<Longrightarrow> next_obj c = next_obj b \<Longrightarrow> screen_ok c bs = screen_ok b bs"
  by (simp add: screen_ok_def)

lemma feed_at_alt: "feed_at k v = feed_or_empty k (channelFeeds (base v))"
  by (simp add: feed_at_def feed_or_empty_def)

lemma view_ok_feed: "view_ok v \<Longrightarrow> distinct (feed_at k v) \<and> (\<forall>r \<in> set (feed_at k v). r < next_obj (base v))"
  unfolding view_ok_def screen_ok_def feed_at_alt using feeds_wf_feed by blast

lemma view_ok_basic [simp]:
  "view_ok (set_state f s v) = view_ok v" "view_ok (start_task t v) = view_ok v" "view_ok (add_unread k v) = view_ok v"
  "view_ok (reopen pk v) = view_ok v" "view_ok (refresh_names env v) = view_ok v" "view_ok (addDmContact env p n v) = view_ok v"
  "view_ok (load_threads i v) = view_ok v" "view_ok (add_thread_item env th v) = view_ok v"
  by (rule view_ok_same; simp add: set_state_def start_task_def add_unread_def reopen_def refresh_names_def addDmContact_def
      load_threads_def add_thread_item_def Let_def)+

lemma view_ok_upd [simp]:
  "view_ok (v\<lparr>storageBlocked := x\<rparr>) = view_ok v" "view_ok (v\<lparr>conversationsWithMessages := c\<rparr>) = view_ok v"
  "view_ok (v\<lparr>draftTimer := d\<rparr>) = view_ok v" "view_ok (v\<lparr>olderButton := ob\<rparr>) = view_ok v" "view_ok (v\<lparr>chatTabActive := d\<rparr>) = view_ok v"
  "view_ok (v\<lparr>closedDmThreads := ks, dmListUi := xs\<rparr>) = view_ok v" "view_ok (v\<lparr>view_tasks := ts\<rparr>) = view_ok v"
  "view_ok (v\<lparr>renderGeneration := g, unreadCounts := us\<rparr>) = view_ok v"
  "view_ok (v\<lparr>historyPages := ps, historyAccessDenied := d\<rparr>) = view_ok v" "view_ok (v\<lparr>storageAuth := a\<rparr>) = view_ok v"
  by (simp_all add: view_ok_def)

lemma view_ok_threads [simp]: "view_ok (fold (add_thread_item env) ts v) = view_ok v"
  by (induction ts arbitrary: v) simp_all

lemma view_ok_paint: "view_ok v \<Longrightarrow> view_ok (paint f v)"
proof -
  assume ok: "view_ok v"
  then have "screen_ok (fold paint_bubble rs (base v)) (feed_at f v)" for rs
    using view_ok_feed[OF ok, of f] by (simp add: view_ok_def screen_ok_def base_ok_paints fold_paint_frame)
  moreover have "screen_ok (c\<lparr>chatInputText := t\<rparr>) bs = screen_ok c bs" for c t bs by (rule screen_ok_same) simp_all
  ultimately show ?thesis by (simp add: view_ok_def paint_def Let_def)
qed

lemma view_ok_append: "view_ok v \<Longrightarrow> r < next_obj (base v) \<Longrightarrow> r \<notin> set (bubbles v) \<Longrightarrow> view_ok (append_bubble r v)"
proof -
  assume ok: "view_ok v" "r < next_obj (base v)" "r \<notin> set (bubbles v)"
  have "distinct (drop n (bubbles v @ [r]))" for n
    using ok by (intro distinct_drop) (auto simp: view_ok_def screen_ok_def)
  moreover have "\<forall>x \<in> set (drop n (bubbles v @ [r])). x < next_obj (base v)" for n
    using ok by (auto simp: view_ok_def screen_ok_def dest!: in_set_dropD)
  ultimately show ?thesis
    using ok by (simp add: view_ok_def screen_ok_def append_bubble_def base_ok_paint paint_frames Let_def del: drop_append)
qed

lemma view_ok_gone: "view_ok v \<Longrightarrow> view_ok (clearProtectedHistory v)" "view_ok v \<Longrightarrow> view_ok (deny_in f v)"
proof -
  show "view_ok v \<Longrightarrow> view_ok (clearProtectedHistory v)"
    by (auto simp: view_ok_def screen_ok_def clearProtectedHistory_def base_ok_drop feeds_wf_def) (simp add: drop_history_def clearAllAckTimeouts_def)+
  then show "view_ok v \<Longrightarrow> view_ok (deny_in f v)" by (simp add: deny_in_def view_ok_paint)
qed

lemma view_ok_request: "view_ok v \<Longrightarrow> view_ok (request_page ctx v)"
  by (simp add: request_page_def view_ok_paint)

lemma view_ok_render: "view_ok v \<Longrightarrow> view_ok (render_start before i v)"
  by (simp add: render_start_def Let_def view_ok_request)

subsection \<open>Merging\<close>

lemma values_put: "snd ` set (assoc_put k v xs) \<subseteq> insert v (snd ` set xs)"
proof
  fix x
  assume "x \<in> snd ` set (assoc_put k v xs)"
  then obtain k' where "(k', x) \<in> set (assoc_put k v xs)" by auto
  then have "(k', x) = (k, v) \<or> (k', x) \<in> set xs" by (rule set_assoc_put)
  then show "x \<in> insert v (snd ` set xs)" by force
qed

lemma distinct_values_put: "distinct (map snd xs) \<Longrightarrow> v \<notin> snd ` set xs \<Longrightarrow> distinct (map snd (assoc_put k v xs))"
proof (induction xs)
  case (Cons e xs)
  then show ?case using values_put[of k v xs] by (cases e) (auto simp: image_iff)
qed simp

text \<open>A merge under way: its objects exist, each under one identity.\<close>

definition merge_ok :: "chat \<Rightarrow> nat list \<Rightarrow> chat \<times> (jstr \<times> nat) list \<Rightarrow> bool" where
  "merge_ok b0 bs acc \<longleftrightarrow> screen_ok (fst acc) bs \<and> next_obj b0 \<le> next_obj (fst acc) \<and> distinct (map fst (snd acc)) \<and>
     distinct (map snd (snd acc)) \<and> (\<forall>r \<in> snd ` set (snd acc). r < next_obj (fst acc))"

lemma new_object_frame [simp]:
  "channelFeeds (new_object m b) = channelFeeds b" "next_obj (new_object m b) = Suc (next_obj b)"
  "objects (new_object m b) = (objects b)(next_obj b := m)"
  by (simp_all add: new_object_def)

lemma screen_ok_new: "screen_ok b bs \<Longrightarrow> screen_ok (new_object m b) bs"
  unfolding screen_ok_def by (simp add: feeds_wf_def less_Suc_eq)

lemma merge_one_cases:
  assumes "merge_one env msg acc = Inr acc'"
  obtains "acc' = acc"
  | m display i where "msg = Obj m" "i = messageIdentity m" "i \<noteq> []" "displayed env m = Inr display"
      "acc' = (new_object (with_fld ''id'' (Str i)
                 (mergeMessage (case map_of (snd acc) i of Some r \<Rightarrow> objects (fst acc) r | None \<Rightarrow> []) display)) (fst acc),
               assoc_put i (next_obj (fst acc)) (snd acc))"
proof (cases "\<exists>m. msg = Obj m \<and> messageIdentity m \<noteq> [] \<and> (\<exists>d. displayed env m = Inr d) \<and>
    \<not> isCommandOrSystemText (getp msg (js ''text'')) (getp msg (js ''txt_type''))")
  case True
  then obtain m d where m: "msg = Obj m" "messageIdentity m \<noteq> []" "displayed env m = Inr d"
    "\<not> isCommandOrSystemText (getp msg (js ''text'')) (getp msg (js ''txt_type''))" by blast
  show ?thesis
    by (rule that(2)[OF m(1) refl m(2,3)])
      (use assms m in \<open>simp add: merge_one_def is_nullish_def case_prod_unfold Let_def del: js_simps\<close>)
next
  case False
  then show ?thesis
    using assms by (intro that(1)) (auto simp: merge_one_def bindE_eq_Inr case_prod_unfold Let_def simp del: js_simps split: if_splits jsval.splits)
qed

lemma merge_one_ok: "merge_one env msg acc = Inr acc' \<Longrightarrow> merge_ok b0 bs acc \<Longrightarrow> merge_ok b0 bs acc'"
proof (erule merge_one_cases)
  fix m display i
  assume ok: "merge_ok b0 bs acc"
  let ?n = "next_obj (fst acc)"
  assume acc': "acc' = (new_object (with_fld ''id'' (Str i)
      (mergeMessage (case map_of (snd acc) i of Some r \<Rightarrow> objects (fst acc) r | None \<Rightarrow> []) display)) (fst acc), assoc_put i ?n (snd acc))"
  have "?n \<notin> snd ` set (snd acc)" using ok by (force simp: merge_ok_def)
  then have "distinct (map snd (assoc_put i ?n (snd acc)))" using ok by (intro distinct_values_put) (simp_all add: merge_ok_def)
  moreover have "\<forall>r \<in> snd ` set (assoc_put i ?n (snd acc)). r < Suc ?n"
    using values_put[of i ?n "snd acc"] ok by (fastforce simp: merge_ok_def)
  ultimately show "merge_ok b0 bs acc'"
    using ok by (simp add: merge_ok_def acc' screen_ok_new distinct_assoc_put)
qed simp

lemma merge_all_ok: "merge_all env ms acc = Inr acc' \<Longrightarrow> merge_ok b0 bs acc \<Longrightarrow> merge_ok b0 bs acc'"
  by (induction ms arbitrary: acc) (auto simp: bindE_eq_Inr dest: merge_one_ok)

lemma in_order_ok: "merge_ok b0 bs acc \<Longrightarrow> distinct (in_order env acc) \<and> set (in_order env acc) = snd ` set (snd acc)"
proof -
  assume ok: "merge_ok b0 bs acc"
  have m: "mset (in_order env acc) = mset (map snd (snd acc))" by (simp only: in_order_def mset_js_sort)
  have "distinct (in_order env acc)" using ok mset_eq_imp_distinct_iff[OF m] by (simp add: merge_ok_def)
  then show ?thesis using mset_eq_setD[OF m] by simp
qed

lemma by_identity_ok: "distinct refs \<Longrightarrow> distinct (map fst (by_identity b refs)) \<and> distinct (map snd (by_identity b refs)) \<and>
    snd ` set (by_identity b refs) \<subseteq> set refs"
proof -
  have "distinct refs \<Longrightarrow> distinct (map fst xs) \<Longrightarrow> distinct (map snd xs) \<Longrightarrow> snd ` set xs \<inter> set refs = {} \<Longrightarrow>
     let ys = fold (\<lambda>r. assoc_put (messageIdentity (objects b r)) r) refs xs
     in distinct (map fst ys) \<and> distinct (map snd ys) \<and> snd ` set ys \<subseteq> snd ` set xs \<union> set refs" for xs
  proof (induction refs arbitrary: xs)
    case (Cons r refs)
    let ?xs = "assoc_put (messageIdentity (objects b r)) r xs"
    have v: "snd ` set ?xs \<subseteq> insert r (snd ` set xs)" by (rule values_put)
    have d: "distinct (map fst ?xs)" "distinct (map snd ?xs)" "snd ` set ?xs \<inter> set refs = {}"
      using v Cons.prems by (auto intro!: distinct_assoc_put distinct_values_put)
    have "distinct refs" using Cons.prems by simp
    from Cons.IH[OF this d] have ih: "distinct (map fst (fold (\<lambda>r. assoc_put (messageIdentity (objects b r)) r) refs ?xs))"
      "distinct (map snd (fold (\<lambda>r. assoc_put (messageIdentity (objects b r)) r) refs ?xs))"
      "snd ` set (fold (\<lambda>r. assoc_put (messageIdentity (objects b r)) r) refs ?xs) \<subseteq> snd ` set ?xs \<union> set refs"
      unfolding Let_def by blast+
    have sub: "A \<subseteq> B \<union> C \<Longrightarrow> B \<subseteq> insert r D \<Longrightarrow> A \<subseteq> D \<union> insert r C" for A B C D by blast
    from sub[OF ih(3) v] have "snd ` set (fold (\<lambda>r. assoc_put (messageIdentity (objects b r)) r) refs ?xs) \<subseteq> snd ` set xs \<union> set (r # refs)"
      by simp
    with ih(1,2) show ?case unfolding Let_def fold_Cons comp_def by blast
  qed simp
  from this[of "[]"] show "distinct refs \<Longrightarrow> ?thesis" by (simp add: by_identity_def Let_def)
qed

subsection \<open>Well-formed views\<close>

lemma screen_ok_basic [simp]:
  "screen_ok (log_call c b) bs = screen_ok b bs" "screen_ok (toast tk a b) bs = screen_ok b bs"
  "screen_ok (switchChannel i b) bs = screen_ok b bs" "screen_ok (openDmConversation env pk n b) bs = screen_ok b bs"
  "screen_ok (b\<lparr>drafts := d\<rparr>) bs = screen_ok b bs"
  by (rule screen_ok_same; simp add: choice_frames)+

lemma merge_ok_start: "screen_ok b bs \<Longrightarrow> merge_ok b bs (b, [])"
  by (simp add: merge_ok_def)

lemma merge_ok_feed: "view_ok v \<Longrightarrow> merge_ok (base v) (bubbles v) (base v, by_identity (base v) (feed_at f v))"
  using view_ok_feed[of v f] by_identity_ok[of "feed_at f v" "base v"] by (auto simp: view_ok_def merge_ok_def subset_eq)

lemma screen_ok_set_feed: "screen_ok b bs \<Longrightarrow> distinct f \<Longrightarrow> \<forall>r \<in> set f. r < next_obj b \<Longrightarrow> screen_ok (set_feed k f b) bs"
  unfolding screen_ok_def by (auto simp: set_feed_def feeds_wf_put base_ok_basic(3))

lemma screen_ok_merged:
  assumes "merge_ok b0 bs acc" "set f \<subseteq> set (in_order env acc)" "distinct f"
  shows "screen_ok (set_feed k f (fst acc)) bs"
  using assms in_order_ok[OF assms(1), of env] by (intro screen_ok_set_feed) (auto simp: merge_ok_def)

lemma newest_sub: "set (newest xs) \<subseteq> set xs" "distinct xs \<Longrightarrow> distinct (newest xs)"
  by (auto simp: newest_def dest: in_set_dropD)

lemma view_ok_cached: "view_ok v \<Longrightarrow> view_ok (cached_arrives env ctx x rows v)"
proof -
  assume ok: "view_ok v"
  let ?ms = "if x then [] else rows"
  have "view_ok (paint f (set_state f s (set_base (set_feed f (newest (in_order env acc)) (fst acc)) v)))"
    if "merge_all env ?ms (base v, []) = Inr acc" for acc f s
  proof -
    have m: "merge_ok (base v) (bubbles v) acc"
      using merge_all_ok[OF that merge_ok_start] ok by (simp add: view_ok_def)
    have "screen_ok (set_feed f (newest (in_order env acc)) (fst acc)) (bubbles v)"
      by (rule screen_ok_merged[OF m newest_sub(1)]) (use in_order_ok[OF m] newest_sub(2) in blast)
    then show ?thesis by (intro view_ok_paint) (simp add: view_ok_def set_base_def set_state_def)
  qed
  then show ?thesis using ok unfolding cached_arrives_def Let_def
    by (intro view_ok_request) (simp split: sum.split del: split_paired_All)
qed

lemma view_ok_install: "view_ok v \<Longrightarrow> install_page env ctx page v = Inr w \<Longrightarrow> view_ok w"
proof -
  assume ok: "view_ok v" and w: "install_page env ctx page v = Inr w"
  let ?f = "rc_feed ctx"
  obtain ms acc where acc: "merge_all env ms (base v, by_identity (base v) (feed_at ?f v)) = Inr acc"
    and eq: "w = set_state ?f (if truthy (getp page (js ''offline'')) then OfflineCache else Ready)
        ((set_base (set_feed ?f (if is_nullish (rc_before ctx) then newest (in_order env acc) else in_order env acc) (fst acc)) v)
           \<lparr>historyPages := assoc_put ?f page (historyPages v), historyAccessDenied := False\<rparr>)"
    using w by (auto simp: install_page_def bindE_eq_Inr Let_def simp del: js_simps)
  have m: "merge_ok (base v) (bubbles v) acc" by (rule merge_all_ok[OF acc merge_ok_feed[OF ok]])
  have "screen_ok (set_feed ?f (if is_nullish (rc_before ctx) then newest (in_order env acc) else in_order env acc) (fst acc)) (bubbles v)"
    using in_order_ok[OF m, of env] newest_sub[of "in_order env acc"] by (intro screen_ok_merged[OF m, where env = env]) auto
  then show ?thesis by (simp add: eq view_ok_def set_base_def set_state_def)
qed

lemma view_ok_page: "view_ok v \<Longrightarrow> view_ok (page_arrives env ctx reply v)"
proof -
  assume ok: "view_ok v"
  have body: "view_ok (case install_page env ctx page w of Inl _ \<Rightarrow> paint f (set_state f s w) | Inr w' \<Rightarrow> paint f w')"
    if "view_ok w" for w page f s
    using that by (auto intro!: view_ok_paint intro: view_ok_install split: sum.split)
  show ?thesis using ok by (simp add: page_arrives_def Let_def body view_ok_gone view_ok_paint split: page_reply.split)
qed

lemma replace_bubble_ok:
  "distinct bs \<Longrightarrow> r \<notin> set bs \<Longrightarrow> distinct (replace_bubble h i r bs) \<and> set (replace_bubble h i r bs) \<subseteq> insert r (set bs)"
  by (induction bs) auto

lemma position_Some: "position p xs = Some i \<Longrightarrow> i < length xs \<and> p (xs ! i)"
  by (induction xs arbitrary: i) (auto split: if_splits)

lemma position_None: "position p xs = None \<Longrightarrow> \<forall>x \<in> set xs. \<not> p x"
  by (induction xs) (auto split: if_splits)

lemma view_ok_replace: "view_ok v \<Longrightarrow> view_ok (replace_message key i m v)"
proof -
  assume ok: "view_ok v"
  let ?r = "next_obj (base v)"
  let ?f = "(feed_at key v)[i := ?r]"
  note feed = view_ok_feed[OF ok, of key]
  have "distinct ?f" using feed by (intro distinct_list_update) auto
  moreover have "\<forall>x \<in> set ?f. x < Suc ?r" using feed set_update_subset_insert[of "feed_at key v" i ?r] by fastforce
  moreover have "screen_ok (new_object mm (base v)) (bubbles v)" for mm using ok by (simp add: view_ok_def screen_ok_new)
  ultimately have b: "screen_ok (log_call c (set_feed key ?f (new_object mm (base v)))) (bubbles v)" for c mm
    using screen_ok_set_feed[of "new_object mm (base v)" "bubbles v" ?f key] by simp
  have rb: "distinct (replace_bubble h j ?r (bubbles v)) \<and> set (replace_bubble h j ?r (bubbles v)) \<subseteq> insert ?r (set (bubbles v))" for h j
    using ok by (intro replace_bubble_ok) (auto simp: view_ok_def screen_ok_def)
  have n: "next_obj (log_call c (set_feed key ?f (new_object mm (base v)))) = Suc ?r" for c mm by (simp add: set_feed_def)
  have s: "screen_ok (log_call c (set_feed key ?f (new_object mm (base v)))) (replace_bubble h j ?r (bubbles v))" for c mm h j
    using b[of c mm] rb[of h j] n[of c mm] unfolding screen_ok_def by fastforce
  have p: "screen_ok c bs \<Longrightarrow> screen_ok (paint_bubble x c) bs" for c bs x
    by (simp add: screen_ok_def base_ok_paint paint_frames)
  show ?thesis using b s p[OF s] by (simp add: replace_message_def view_ok_def Let_def)
qed

lemma base_after_contact: "base (note_contact env m v) = base v" "bubbles (note_contact env m v) = bubbles v"
  by (simp_all add: note_contact_def addDmContact_def reopen_def Let_def)

lemma view_ok_add: "view_ok v \<Longrightarrow> view_ok (add_message env m v)"
proof -
  assume ok: "view_ok v"
  let ?r = "next_obj (base v)"
  let ?f = "push_bounded MAX_FEED_MESSAGES ?r (feed_at (in_feed m) v)"
  let ?b = "log_call (SaveMessage (in_feed m) (in_message m)) (set_feed (in_feed m) ?f (new_object (in_message m) (base v)))"
  note feed = view_ok_feed[OF ok, of "in_feed m"]
  have "distinct ?f" using feed by (intro distinct_push_bounded) auto
  moreover have "\<forall>x \<in> set ?f. x < Suc ?r" using feed set_push_bounded[of MAX_FEED_MESSAGES ?r "feed_at (in_feed m) v"] by fastforce
  moreover have "screen_ok (new_object (in_message m) (base v)) (bubbles v)" using ok by (simp add: view_ok_def screen_ok_new)
  ultimately have "screen_ok ?b (bubbles v)"
    using screen_ok_set_feed[of "new_object (in_message m) (base v)" "bubbles v" ?f "in_feed m"] by simp
  then have v1: "view_ok (note_contact env m (set_base ?b v))"
    by (simp add: view_ok_def base_after_contact) (simp add: set_base_def)
  have "?r < next_obj (base (note_contact env m (set_base ?b v)))" "?r \<notin> set (bubbles (note_contact env m (set_base ?b v)))"
    using ok by (auto simp: base_after_contact set_base_def set_feed_def view_ok_def screen_ok_def)
  from view_ok_append[OF v1 this] v1 show ?thesis by (simp add: add_message_def Let_def)
qed

lemma view_ok_incoming: "view_ok v \<Longrightarrow> view_ok (handleIncomingChatMessage env p v)"
  by (simp add: handleIncomingChatMessage_def view_ok_add view_ok_replace split: sum.split option.split)

lemma view_ok_base_step: "view_ok v \<Longrightarrow> view_ok (set_base (chat_step env ev (base v)) v)"
proof -
  assume ok: "view_ok v"
  have "next_obj (base v) \<le> next_obj (chat_step env ev (base v))"
    using feeds_step[of "base v" env ev] by (auto simp: feeds_change_def)
  then show ?thesis using ok feeds_wf_change[OF feeds_step, of "base v" env ev]
    by (auto simp: view_ok_def screen_ok_def set_base_def base_ok_step)
qed

lemma view_ok_packet: "view_ok v \<Longrightarrow> view_ok (on_packet env p v)"
  using view_ok_base_step[of v _ "StatusFrame p"] view_ok_base_step[of v _ "AckFrame p"]
  by (simp add: on_packet_def chat_step_def view_ok_incoming Let_def del: js_simps)

lemma view_ok_outbox: "view_ok v \<Longrightarrow> view_ok (outbox_event env ev v)"
proof -
  assume ok: "view_ok v"
  let ?b = "chat_step (outbox_env env v) ev (base v)"
  have v1: "view_ok (set_base ?b v)" using ok by (rule view_ok_base_step)
  have "view_ok (append_bubble (job_msg j) (set_base ?b v))" if "job ?b = Some j" "next_obj ?b \<noteq> next_obj (base v)" for j
  proof (rule view_ok_append[OF v1])
    from feeds_step[of "base v" "outbox_env env v" ev] that have "job_msg j = next_obj (base v)" "next_obj ?b = next_obj (base v) + 1"
      by (auto simp: feeds_change_def)
    then show "job_msg j < next_obj (base (set_base ?b v))" "job_msg j \<notin> set (bubbles (set_base ?b v))"
      using ok by (auto simp: set_base_def view_ok_def screen_ok_def)
  qed
  then show ?thesis using v1 by (simp add: outbox_event_def Let_def split: option.split)
qed

lemma view_ok_resume: "view_ok v \<Longrightarrow> view_ok (resume env t r v)"
proof -
  assume ok: "view_ok v"
  have "view_ok (threads_arrive env g a reply v)" for g a reply
    using ok by (simp add: threads_arrive_def view_ok_gone split: threads_reply.split)
  moreover have "view_ok (clear_finish g f v)" for g f
  proof -
    have "view_ok w \<Longrightarrow> view_ok (set_base (toast ''chat.cleared'' Undefined (base w)) w)" for w
      by (simp add: view_ok_def set_base_def)
    then show ?thesis using ok by (simp add: clear_finish_def Let_def view_ok_paint)
  qed
  ultimately show ?thesis using ok
    by (cases t; cases r) (simp_all add: resume_def view_ok_render view_ok_cached view_ok_page)
qed

lemma view_ok_choose: "view_ok v \<Longrightarrow> view_ok (choose_channel i v)"
  by (simp add: choose_channel_def) (simp add: view_ok_def set_base_def)

lemma view_ok_step: "view_ok v \<Longrightarrow> view_ok (view_step env ev v)"
proof -
  assume ok: "view_ok v"
  show ?thesis
  proof (cases ev)
    case (Outbox oe)
    have "view_ok (set_base (openDmConversation e pk n (base v)) v)" for e pk n
      using ok by (simp add: view_ok_def set_base_def)
    then have "view_ok (open_conversation env pk n v)" for pk n by (simp add: open_conversation_def Let_def)
    then show ?thesis using ok Outbox by (cases oe) (simp_all add: view_step_def view_ok_outbox view_ok_choose)
  next
    case (TaskEnds n r)
    then show ?thesis using ok by (simp add: view_step_def view_ok_resume split: option.split)
  next
    case (ConversationClosed pk)
    have "view_ok w \<Longrightarrow> view_ok (set_base (toast ''chat.chat_closed'' Undefined (base w)) w)" for w
      by (simp add: view_ok_def set_base_def)
    then show ?thesis using ok ConversationClosed by (simp add: view_step_def close_conversation_def Let_def view_ok_choose)
  next
    case ClearClicked
    have "screen_ok (set_feed f [] (base v)) (bubbles v)" for f using ok by (simp add: view_ok_def screen_ok_set_feed)
    then show ?thesis using ClearClicked by (simp add: view_step_def clear_start_def Let_def) (simp add: view_ok_def)
  next
    case (StationChanged s)
    have "screen_ok (drop_history (base v)) (bubbles v)" using ok
      by (auto simp: view_ok_def screen_ok_def base_ok_drop feeds_wf_def) (simp_all add: drop_history_def clearAllAckTimeouts_def)
    then show ?thesis using StationChanged by (simp add: view_step_def station_changed_def) (rule view_ok_paint, simp add: view_ok_def)
  next
    case CacheCleared
    have "screen_ok ((base v)\<lparr>channelFeeds := []\<rparr>) (bubbles v)" using ok by (auto simp: view_ok_def screen_ok_def feeds_wf_def)
    then show ?thesis using CacheCleared by (simp add: view_step_def cache_cleared_def) (rule view_ok_paint, simp add: view_ok_def)
  next
    case DraftTimerFires
    then show ?thesis using ok DraftTimerFires by (simp add: view_step_def save_draft_def view_ok_def Let_def)
  next
    case (RxPacket p)
    then show ?thesis using ok by (simp add: view_step_def view_ok_packet)
  qed (use ok in \<open>simp_all add: view_step_def view_ok_render credentials_changed_def load_initial_def access_denied_def view_ok_gone
      split: option.split\<close>)
qed

lemma view_ok_new: "view_ok (new_view station archived)"
  by (simp add: view_ok_def screen_ok_def base_ok_def new_view_def new_chat_def feeds_wf_def busy_ok_def nonempty_job_def acks_ok_def)

interpretation view: initial_invariant "view_step env" "\<lambda>_. True" view_ok "new_view station archived" for env station archived
  by unfold_locales (simp_all add: view_ok_step view_ok_new)

text \<open>
  C15: the chat is well formed in every state it can reach. Feeds have different keys and hold
  existing messages, each once; each bubble on screen is of an existing message, once; and the
  outbox keeps its own invariants while history, incoming messages and deletions change the same
  messages: the composer is locked exactly while a job runs, a job has fragments, and the timers of
  awaited codes are those of the codes.
\<close>
theorem chat_view_well_formed:
  assumes "v = fold (view_step env) evs (new_view station archived)"
  shows "feeds_wf (channelFeeds (base v)) (next_obj (base v)) \<and> distinct (bubbles v) \<and> (\<forall>r \<in> set (bubbles v). r < next_obj (base v)) \<and>
    busy_ok (base v) \<and> nonempty_job (base v) \<and> acks_ok (base v)"
proof -
  have "view_ok v" unfolding assms by (rule view.always) (simp add: list_all_iff)
  then show ?thesis by (simp add: view_ok_def screen_ok_def base_ok_def)
qed

theorem chat_view_well_formed_witness:
  "distinct (bubbles (fold (view_step sample_view_env) [HistoryImported, Outbox (Typed (js ''hi'')), Outbox Submit] (new_view Null [])))"
  by (rule chat_view_well_formed[THEN conjunct2, THEN conjunct1]) (rule refl)

end
