(* ===== verification/ChatMessages.thy ===== *)
theory ChatMessages
  imports ChatScreen
begin

section \<open>Messages in the feeds\<close>

text \<open>
  What becomes of a message that arrives, live or with a page of history: it is filed once under its
  identity, a confirmed delivery is never undone, and the order of a feed is that of its messages'
  times. Then the list of direct conversations, and two ways in which the view and the composer
  come to belong to another conversation than the one that is open.
\<close>

subsection \<open>Identities under merging\<close>

definition ident :: "chat \<Rightarrow> nat \<Rightarrow> jstr" where
  "ident b r = messageIdentity (objects b r)"

lemma fld_merge:
  assumes "distinct (map fst d)" "js k \<noteq> js ''status''" "js k \<noteq> js ''delivered''"
  shows "fld (mergeMessage p d) k = (case map_of d (js k) of Some x \<Rightarrow> x | None \<Rightarrow> fld p k)"
proof -
  have sp: "fld (spread p d) k = (case map_of d (js k) of Some x \<Rightarrow> x | None \<Rightarrow> fld p k)"
    by (simp add: fld_def getp_def map_of_spread[OF assms(1)] map_add_def del: js_simps split: option.split)
  show ?thesis using assms(2,3) by (simp add: mergeMessage_def Let_def fld_with_fld sp del: js_simps)
qed

lemma fld_known: "map_of m (js k) = Some x \<Longrightarrow> fld m k = x"
  by (simp add: fld_def getp_def del: js_simps)

text \<open>A row of a page is a proper object that carries its identity.\<close>

definition named_row :: "jsval \<Rightarrow> bool" where
  "named_row row \<longleftrightarrow> (case row of Obj m \<Rightarrow> distinct (map fst m) \<and> truthy (fld m ''msg_id'') | _ \<Rightarrow> True)"

lemma displayed_keeps:
  assumes "displayed env m = Inr d" "distinct (map fst m)"
  shows "distinct (map fst d)" "fld d ''msg_id'' = fld m ''msg_id''" "is_delivered d = is_delivered m"
proof -
  have "d = m \<or> (\<exists>x. d = with_fld ''text'' x m)"
    using assms(1) by (auto simp: displayed_def bindE_eq_Inr split: if_splits)
  then show "distinct (map fst d)" "fld d ''msg_id'' = fld m ''msg_id''" "is_delivered d = is_delivered m"
    using assms(2) by (auto simp: fld_with_fld is_delivered_def) (simp add: with_fld_def distinct_set_prop)
qed

lemma fld_some: "truthy (fld m k) \<Longrightarrow> map_of m (js k) = Some (fld m k)"
  by (simp add: fld_def getp_def del: js_simps split: option.splits)

lemma identity_msg_id: "truthy (fld m ''msg_id'') \<Longrightarrow> messageIdentity m = to_string (fld m ''msg_id'')"
  by (simp add: messageIdentity_def js_or_def)

lemma merged_identity:
  assumes "displayed env m = Inr d" "named_row (Obj m)" "i = messageIdentity m"
  shows "messageIdentity (with_fld ''id'' (Str i) (mergeMessage p d)) = i"
proof -
  have m: "distinct (map fst m)" "truthy (fld m ''msg_id'')" using assms(2) by (simp_all add: named_row_def)
  note d = displayed_keeps[OF assms(1) m(1)]
  have "fld (mergeMessage p d) ''msg_id'' = fld m ''msg_id''"
    using fld_merge[OF d(1), of "''msg_id''" p] fld_some[of d "''msg_id''"] d(2) m(2) by simp
  then have "fld (with_fld ''id'' (Str i) (mergeMessage p d)) ''msg_id'' = fld m ''msg_id''" by (simp add: fld_with_fld)
  then show ?thesis using m(2) assms(3) by (simp add: identity_msg_id)
qed

text \<open>A merge under way files every object under its identity, and no delivery is lost.\<close>

definition filed :: "jstr set \<Rightarrow> chat \<times> (jstr \<times> nat) list \<Rightarrow> bool" where
  "filed del acc \<longleftrightarrow> (\<forall>(i, r) \<in> set (snd acc). ident (fst acc) r = i \<and> r < next_obj (fst acc)) \<and>
     (\<forall>i \<in> del. \<exists>r. map_of (snd acc) i = Some r \<and> is_delivered (objects (fst acc) r))"

lemma filed_new:
  assumes "filed del acc" "messageIdentity m = i"
    and "\<And>r. map_of (snd acc) i = Some r \<Longrightarrow> is_delivered (objects (fst acc) r) \<Longrightarrow> is_delivered m"
  shows "filed del (new_object m (fst acc), assoc_put i (next_obj (fst acc)) (snd acc))"
proof -
  have "ident (new_object m (fst acc)) r = j \<and> r < Suc (next_obj (fst acc))"
    if "(j, r) \<in> set (assoc_put i (next_obj (fst acc)) (snd acc))" for j r
    using set_assoc_put[OF that] assms(1,2) by (force simp: filed_def ident_def)
  moreover have "\<exists>r. map_of (assoc_put i (next_obj (fst acc)) (snd acc)) j = Some r \<and> is_delivered (objects (new_object m (fst acc)) r)"
    if j: "j \<in> del" for j
  proof -
    from j assms(1) obtain r where r: "map_of (snd acc) j = Some r" "is_delivered (objects (fst acc) r)" by (auto simp: filed_def)
    then have "r < next_obj (fst acc)" using assms(1) map_of_SomeD[of "snd acc" j r] by (auto simp: filed_def)
    then show ?thesis using r assms(3) by (cases "j = i") auto
  qed
  ultimately show ?thesis unfolding filed_def by auto
qed

lemma merge_one_filed:
  assumes "merge_one env msg acc = Inr acc'" "named_row msg" "filed del acc"
  shows "filed del acc'"
  using assms(1)
proof (cases rule: merge_one_cases)
  case (2 m d i)
  show ?thesis unfolding 2(5)
  proof (rule filed_new[OF assms(3)])
    show "messageIdentity (with_fld ''id'' (Str i) (mergeMessage (case map_of (snd acc) i of Some r \<Rightarrow> objects (fst acc) r | None \<Rightarrow> []) d)) = i"
      using 2 assms(2) by (intro merged_identity) auto
  qed (simp add: with_fld_delivered merge_delivered)
qed (use assms(3) in simp)

lemma merge_all_filed: "merge_all env ms acc = Inr acc' \<Longrightarrow> \<forall>m \<in> set ms. named_row m \<Longrightarrow> filed del acc \<Longrightarrow> filed del acc'"
proof (induction ms arbitrary: acc)
  case (Cons m ms)
  then obtain acc1 where "merge_one env m acc = Inr acc1" "merge_all env ms acc1 = Inr acc'" by (auto simp: bindE_eq_Inr)
  with Cons show ?case using merge_one_filed[of env m acc acc1 del] by auto
qed simp

text \<open>Which identities a merge ends up with.\<close>

definition row_ids :: "jsval list \<Rightarrow> jstr set" where
  "row_ids ms = {messageIdentity m |m. Obj m \<in> set ms \<and> messageIdentity m \<noteq> [] \<and>
     \<not> isCommandOrSystemText (fld m ''text'') (fld m ''txt_type'')}"

lemma fst_assoc_put: "fst ` set (assoc_put k v xs) = insert k (fst ` set xs)"
  by (rule keys_assoc_put)

lemma merge_one_ids:
  assumes "merge_one env msg acc = Inr acc'"
  shows "fst ` set (snd acc') = fst ` set (snd acc) \<union> row_ids [msg]"
proof (cases "\<exists>m. msg = Obj m \<and> messageIdentity m \<noteq> [] \<and> \<not> isCommandOrSystemText (fld m ''text'') (fld m ''txt_type'')")
  case True
  then obtain m where m: "msg = Obj m" "messageIdentity m \<noteq> []"
    "\<not> isCommandOrSystemText (getp (Obj m) (js ''text'')) (getp (Obj m) (js ''txt_type''))" by (auto simp: fld_def simp del: js_simps)
  then have "snd acc' = assoc_put (messageIdentity m) (next_obj (fst acc)) (snd acc)"
    using assms by (auto simp: merge_one_def is_nullish_def bindE_eq_Inr case_prod_unfold Let_def simp del: js_simps)
  then show ?thesis using m True by (auto simp: fst_assoc_put row_ids_def)
next
  case False
  then have "acc' = acc"
    using assms by (auto simp: merge_one_def bindE_eq_Inr case_prod_unfold Let_def fld_def simp del: js_simps split: if_splits jsval.splits)
  then show ?thesis using False by (auto simp: row_ids_def)
qed

lemma merge_all_ids: "merge_all env ms acc = Inr acc' \<Longrightarrow> fst ` set (snd acc') = fst ` set (snd acc) \<union> row_ids ms"
proof (induction ms arbitrary: acc)
  case (Cons m ms)
  then obtain acc1 where a: "merge_one env m acc = Inr acc1" "merge_all env ms acc1 = Inr acc'" by (auto simp: bindE_eq_Inr)
  have "row_ids (m # ms) = row_ids [m] \<union> row_ids ms" by (auto simp: row_ids_def)
  then show ?case using Cons.IH[OF a(2)] merge_one_ids[OF a(1)] by auto
qed (simp add: row_ids_def)

lemma by_identity_maps:
  assumes "distinct (map (ident b) refs)"
  shows "by_identity b refs = map (\<lambda>r. (ident b r, r)) refs"
proof -
  have new: "k \<notin> fst ` set xs \<Longrightarrow> assoc_put k v xs = xs @ [(k, v)]" for k v and xs :: "(jstr \<times> nat) list"
    by (induction xs) auto
  have "distinct (map (ident b) refs) \<Longrightarrow> fst ` set xs \<inter> ident b ` set refs = {} \<Longrightarrow>
      fold (\<lambda>r. assoc_put (messageIdentity (objects b r)) r) refs xs = xs @ map (\<lambda>r. (ident b r, r)) refs" for xs
  proof (induction refs arbitrary: xs)
    case (Cons r refs)
    then have "assoc_put (ident b r) r xs = xs @ [(ident b r, r)]" by (intro new) auto
    then show ?case using Cons.IH[of "xs @ [(ident b r, r)]"] Cons.prems by (auto simp: ident_def)
  qed simp
  from this[OF assms, of "[]"] show ?thesis by (simp add: by_identity_def)
qed

lemma length_newest: "length (newest xs) \<le> MAX_FEED_MESSAGES"
  by (simp add: newest_def)

lemma filed_ident: "filed del acc \<Longrightarrow> (i, r) \<in> set (snd acc) \<Longrightarrow> ident (fst acc) r = i"
  unfolding filed_def by blast

lemma filed_key: "filed del acc \<Longrightarrow> r \<in> snd ` set (snd acc) \<Longrightarrow> (ident (fst acc) r, r) \<in> set (snd acc)"
  using filed_ident by fastforce

lemma filed_keys: "filed del acc \<Longrightarrow> ident (fst acc) ` snd ` set (snd acc) = fst ` set (snd acc)"
  unfolding image_image by (rule image_cong) (auto dest: filed_ident)

lemma distinct_idents:
  assumes "filed del acc" "distinct (map fst (snd acc))" "set rs \<subseteq> snd ` set (snd acc)" "distinct rs"
  shows "distinct (map (ident (fst acc)) rs)"
proof -
  have key: "(ident (fst acc) r, r) \<in> set (snd acc)" if "r \<in> set rs" for r
    using that assms(1,3) filed_key by blast
  have "inj_on (ident (fst acc)) (set rs)"
  proof (rule inj_onI)
    fix r s
    assume rs: "r \<in> set rs" "s \<in> set rs" "ident (fst acc) r = ident (fst acc) s"
    from key[OF rs(1)] key[OF rs(2)] rs(3) assms(2) show "r = s" by (metis eq_key_imp_eq_value)
  qed
  then show ?thesis using assms(4) by (simp add: distinct_map)
qed

subsection \<open>Order\<close>

lemma adjacent_drop: "adjacent p xs \<Longrightarrow> adjacent p (drop n xs)"
proof (induction p xs arbitrary: n rule: adjacent.induct)
  case (1 r x y xs)
  then show ?case by (cases n) auto
qed (auto simp: drop_Cons split: nat.split)

lemma jsub_flip: "jlt (Fin 0) (jsub a b) \<Longrightarrow> truthy (Num (jsub b a)) \<and> \<not> jlt (Fin 0) (jsub b a)"
  by (cases a; cases b) (auto simp: jsub_def jadd_def jneg_def jlt_def)

lemma jsub_zero: "\<not> truthy (Num (jsub a b)) \<longleftrightarrow> \<not> truthy (Num (jsub b a))"
  by (cases a; cases b) (auto simp: jsub_def jadd_def jneg_def)

lemma comes_after_asym: "comes_after env a b \<Longrightarrow> \<not> comes_after env b a"
  unfolding comes_after_def Let_def
  using jsub_flip jsub_zero[of "parseDate env (to_string (fld a ''timestamp''))" "parseDate env (to_string (fld b ''timestamp''))"]
  by (auto split: if_splits)

text \<open>Before the page is merged, every message of the feed is filed under its identity.\<close>

lemma start_filed:
  assumes "view_ok v" "distinct (map (ident (base v)) (feed_at f v))"
    and "del = {ident (base v) r |r. r \<in> set (feed_at f v) \<and> is_delivered (objects (base v) r)}"
  shows "filed del (base v, by_identity (base v) (feed_at f v))"
proof -
  have start: "by_identity (base v) (feed_at f v) = map (\<lambda>r. (ident (base v) r, r)) (feed_at f v)"
    by (rule by_identity_maps[OF assms(2)])
  have mo: "map_of (map (\<lambda>r. (ident (base v) r, r)) (feed_at f v)) (ident (base v) r) = Some r" if "r \<in> set (feed_at f v)" for r
    using that assms(2) by (auto intro!: map_of_is_SomeI simp: comp_def)
  show ?thesis
    unfolding filed_def start fst_conv snd_conv
  proof (intro conjI ballI)
    fix e assume "e \<in> set (map (\<lambda>r. (ident (base v) r, r)) (feed_at f v))"
    then show "case e of (i, r) \<Rightarrow> ident (base v) r = i \<and> r < next_obj (base v)"
      using view_ok_feed[OF assms(1), of f] by auto
  next
    fix i assume "i \<in> del"
    then obtain r where "r \<in> set (feed_at f v)" "is_delivered (objects (base v) r)" "i = ident (base v) r" by (auto simp: assms(3))
    then show "\<exists>r. map_of (map (\<lambda>r. (ident (base v) r, r)) (feed_at f v)) i = Some r \<and> is_delivered (objects (base v) r)"
      using mo[of r] by auto
  qed
qed

lemma filed_delivered:
  assumes "filed del acc" "merge_ok b bs acc" "(ident (fst acc) r, r) \<in> set (snd acc)" "ident (fst acc) r \<in> del"
  shows "is_delivered (objects (fst acc) r)"
proof -
  obtain s where s: "map_of (snd acc) (ident (fst acc) r) = Some s" "is_delivered (objects (fst acc) s)"
    using assms(1,4) by (auto simp: filed_def)
  moreover have "map_of (snd acc) (ident (fst acc) r) = Some r" using assms(2,3) by (simp add: merge_ok_def)
  ultimately show ?thesis by simp
qed

lemma order_adjacent:
  "adjacent (\<lambda>r s. \<not> comes_after env (objects (fst acc) r) (objects (fst acc) s)) (in_order env acc)"
  unfolding in_order_def by (rule js_sort_adjacent) (rule comes_after_asym)


text \<open>A page with one message, which the feed did not hold yet.\<close>

definition sample_page :: jsval where
  "sample_page = Obj [(js ''messages'', Arr [Obj [(js ''msg_id'', Str (js ''a'')), (js ''text'', Str (js ''hello'')),
     (js ''is_outgoing'', Bool True)]])]"

definition sample_ctx :: render_ctx where
  "sample_ctx = \<lparr>rc_render = 0, rc_feed = js ''ch_0'', rc_feed_gen = 0, rc_auth = 0, rc_before = Null, rc_initial = False\<rparr>"

lemma hello_is_no_command: "\<not> isCommandOrSystemText (Str (js ''hello'')) Undefined"
  by code_simp

lemma sample_page_installed: "\<exists>w. install_page sample_view_env sample_ctx sample_page (new_view Null []) = Inr w \<and> feed_at (js ''ch_0'') w = [0]"
  using hello_is_no_command
  by (simp add: install_page_def sample_page_def sample_ctx_def history_rows_def bindE_def merge_one_def displayed_def is_nullish_def
      messageIdentity_def by_identity_def feed_at_def new_view_def new_chat_def in_order_def js_sort_def newest_def fld_def getp_def
      MAX_FEED_MESSAGES_def Let_def set_state_def set_base_def set_feed_def js_or_def)

subsection \<open>Arrival\<close>

lemma merge_identity:
  assumes "distinct (map fst d)" "js ''msg_id'' \<in> fst ` set d" "js ''server_id'' \<in> fst ` set d" "js ''id'' \<in> fst ` set d"
  shows "messageIdentity (mergeMessage p d) = messageIdentity d"
proof -
  have "fld (mergeMessage p d) k = fld d k" if k: "js k \<in> fst ` set d" "js k \<noteq> js ''status''" "js k \<noteq> js ''delivered''" for k
  proof -
    obtain x where "map_of d (js k) = Some x" using k(1) map_of_eq_None_iff[of d "js k"] by (cases "map_of d (js k)") blast+
    then show ?thesis using fld_merge[OF assms(1) k(2,3)] by (simp add: fld_known)
  qed
  then have "fld (mergeMessage p d) ''msg_id'' = fld d ''msg_id''" "fld (mergeMessage p d) ''server_id'' = fld d ''server_id''"
    "fld (mergeMessage p d) ''id'' = fld d ''id''"
    using assms(2-4) by simp_all
  then show ?thesis unfolding messageIdentity_def by (simp only:)
qed

lemma fields_put:
  "distinct (map fst ps) \<Longrightarrow> distinct (map fst (fold (\<lambda>(k, x). with_fld k x) fs ps)) \<and>
     js ` fst ` set fs \<subseteq> fst ` set (fold (\<lambda>(k, x). with_fld k x) fs ps) \<and> fst ` set ps \<subseteq> fst ` set (fold (\<lambda>(k, x). with_fld k x) fs ps)"
proof (induction fs arbitrary: ps)
  case (Cons f fs)
  obtain k x where f: "f = (k, x)" by (cases f)
  have "distinct (map fst (with_fld k x ps))" "fst ` set (with_fld k x ps) = insert (js k) (fst ` set ps)"
    using Cons.prems by (simp_all add: with_fld_def distinct_set_prop keys_set_prop del: js_simps)
  then show ?case using Cons.IH[of "with_fld k x ps"] by (auto simp: f simp del: js_simps)
qed simp

lemma incoming_message_fields:
  assumes "read_incoming env n (Obj ps) = Inr m" "distinct (map fst ps)"
  shows "distinct (map fst (in_message m)) \<and> {js ''msg_id'', js ''server_id'', js ''id''} \<subseteq> fst ` set (in_message m)"
proof -
  have "\<exists>fs. in_message m = fold (\<lambda>(k, x). with_fld k x) fs ps \<and> take 3 (map fst fs) = [''id'', ''msg_id'', ''server_id'']"
    using assms(1) unfolding read_incoming_def Let_def bindE_eq_Inr
    apply (elim exE conjE)
    apply (drule sum.inject(2)[THEN iffD1])
    apply (drule arg_cong[of _ _ in_message])
    apply (simp only: incoming.simps jsval.case)
    apply (rule exI, rule conjI, erule sym)
    by (simp only: list.map fst_conv take_Suc_Cons take_0 numeral_3_eq_3)
  then obtain fs where m: "in_message m = fold (\<lambda>(k, x). with_fld k x) fs ps"
    and fs: "take 3 (map fst fs) = [''id'', ''msg_id'', ''server_id'']" by blast
  have "set (take 3 (map fst fs)) \<subseteq> fst ` set fs" using set_take_subset[of 3 "map fst fs"] by simp
  then have "{''id'', ''msg_id'', ''server_id''} \<subseteq> fst ` set fs" unfolding fs by (simp only: list.set)
  then have names: "js ` {''id'', ''msg_id'', ''server_id''} \<subseteq> js ` fst ` set fs" by (rule image_mono)
  note put = fields_put[OF assms(2), of fs, folded m]
  from names put have "js ` {''id'', ''msg_id'', ''server_id''} \<subseteq> fst ` set (in_message m)" by (meson order_trans)
  then show ?thesis using put by (simp only: image_insert image_empty insert_subset)
qed

text \<open>What a replacement and an addition leave behind.\<close>

lemma after_replace:
  "objects (base (replace_message k i m v)) = (objects (base v))(next_obj (base v) := mergeMessage (objects (base v) (feed_at k v ! i)) m)"
  "feed_at k' (replace_message k i m v) = (if k' = k then (feed_at k v)[i := next_obj (base v)] else feed_at k' v)"
  "unreadCounts (replace_message k i m v) = unreadCounts v"
  by (simp_all add: replace_message_def set_feed_def feed_at_def paint_frames Let_def)

lemma contact_frames:
  "unreadCounts (note_contact env m v) = unreadCounts v" "chatTabActive (note_contact env m v) = chatTabActive v"
  by (simp_all add: note_contact_def addDmContact_def reopen_def Let_def)

lemma append_frames:
  "objects (base (append_bubble r v)) = objects (base v)" "channelFeeds (base (append_bubble r v)) = channelFeeds (base v)"
  "unreadCounts (append_bubble r v) = unreadCounts v" "chatTabActive (append_bubble r v) = chatTabActive v"
  by (simp_all add: append_bubble_def paint_frames Let_def)

lemma after_add:
  "objects (base (add_message env m v)) = (objects (base v))(next_obj (base v) := in_message m)"
  "feed_at k (add_message env m v) =
     (if k = in_feed m then push_bounded MAX_FEED_MESSAGES (next_obj (base v)) (feed_at k v) else feed_at k v)"
  "unreadCounts (add_message env m v) =
     (if \<not> in_outgoing m \<and> (in_feed m \<noteq> currentFeed v \<or> \<not> chatTabActive v)
      then assoc_put (in_feed m) (count_at (in_feed m) (unreadCounts v) + 1) (unreadCounts v) else unreadCounts v)"
  by (simp_all add: add_message_def add_unread_def append_frames base_after_contact contact_frames set_base_def set_feed_def feed_at_def
      currentFeed_def visibleFeed_def log_call_def new_object_def Let_def)

lemma map_ident_same: "\<forall>r \<in> set rs. objects b r = objects c r \<Longrightarrow> map (ident b) rs = map (ident c) rs"
  by (simp add: ident_def)

lemma push_bounded_map: "map f (push_bounded n x xs) = push_bounded n (f x) (map f xs)"
  by (cases xs) (simp_all add: push_bounded_def Let_def)

lemma filed_replace:
  assumes "view_ok v" "position (\<lambda>x. messageIdentity (objects (base v) x) = i) (feed_at k v) = Some j"
    and "distinct (map fst d)" "{js ''msg_id'', js ''server_id'', js ''id''} \<subseteq> fst ` set d" "messageIdentity d = i"
    and "r = next_obj (base v)" "w = replace_message k j d v"
  shows "objects (base w) = (objects (base v))(r := mergeMessage (objects (base v) (feed_at k v ! j)) d)"
    and "map (ident (base w)) (feed_at k w) = map (ident (base v)) (feed_at k v)" "ident (base w) r = i" "r \<in> set (feed_at k w)"
    and "\<exists>r0 \<in> set (feed_at k v). ident (base v) r0 = i \<and> objects (base w) r = mergeMessage (objects (base v) r0) d \<and>
          (is_delivered (objects (base v) r0) \<or> is_delivered d \<longrightarrow> is_delivered (objects (base w) r))"
proof -
  note feed = view_ok_feed[OF assms(1), of k, folded assms(6)]
  note j = position_Some[OF assms(2)]
  show obj: "objects (base w) = (objects (base v))(r := mergeMessage (objects (base v) (feed_at k v ! j)) d)"
    by (simp add: assms(6,7) after_replace)
  have "messageIdentity (mergeMessage (objects (base v) (feed_at k v ! j)) d) = i"
    using assms(3-5) by (simp add: merge_identity)
  then show id_r: "ident (base w) r = i" by (simp add: ident_def obj)
  have same: "map (ident (base w)) (feed_at k v) = map (ident (base v)) (feed_at k v)"
    using feed by (intro map_ident_same) (auto simp: obj)
  have f: "feed_at k w = (feed_at k v)[j := r]" by (simp add: assms(6,7) after_replace)
  show "map (ident (base w)) (feed_at k w) = map (ident (base v)) (feed_at k v)"
    using j id_r by (simp add: f map_update same ident_def list_update_same_conv)
  show "r \<in> set (feed_at k w)" using j by (simp add: f set_update_memI)
  have "feed_at k v ! j \<in> set (feed_at k v)" "ident (base v) (feed_at k v ! j) = i" using j by (simp_all add: ident_def)
  then show "\<exists>r0 \<in> set (feed_at k v). ident (base v) r0 = i \<and> objects (base w) r = mergeMessage (objects (base v) r0) d \<and>
          (is_delivered (objects (base v) r0) \<or> is_delivered d \<longrightarrow> is_delivered (objects (base w) r))"
    by (intro bexI[of _ "feed_at k v ! j"]) (simp_all add: obj merge_delivered)
qed

text \<open>
  C9: an incoming message is filed once. A frame that can be read, for the connected station, while
  history is accessible, leaves every other conversation and every earlier message as they were, and
  no identity twice in its conversation. If its identity is there already it takes that message's
  place, merged with it -- delivered if either was -- and nothing counts as unread; otherwise it is
  added at the end, the oldest beyond 100 leaving, and one more message is unread if it came from
  someone else and its conversation is not in view.
\<close>
theorem incoming_filed_once:
  fixes v env m
  defines "i \<equiv> messageIdentity (in_message m)" and "k \<equiv> in_feed m" and "r \<equiv> next_obj (base v)"
  assumes "view_ok v" "\<not> historyAccessDenied v" "truthy (getp p (js ''station_id'')) \<longrightarrow> getp p (js ''station_id'') = storageStation v"
    and "read_incoming env r p = Inr m" "p = Obj ps" "distinct (map fst ps)" "distinct (map (ident (base v)) (feed_at k v))"
    and "w = handleIncomingChatMessage env p v"
  shows "(\<forall>k'. k' \<noteq> k \<longrightarrow> feed_at k' w = feed_at k' v) \<and> (\<forall>r' < r. objects (base w) r' = objects (base v) r') \<and>
    distinct (map (ident (base w)) (feed_at k w)) \<and> ident (base w) r = i \<and>
    (if i \<in> ident (base v) ` set (feed_at k v)
     then map (ident (base w)) (feed_at k w) = map (ident (base v)) (feed_at k v) \<and> r \<in> set (feed_at k w) \<and>
       unreadCounts w = unreadCounts v \<and>
       (\<exists>r0 \<in> set (feed_at k v). ident (base v) r0 = i \<and> objects (base w) r = mergeMessage (objects (base v) r0) (in_message m) \<and>
          (is_delivered (objects (base v) r0) \<or> is_delivered (in_message m) \<longrightarrow> is_delivered (objects (base w) r)))
     else feed_at k w = push_bounded MAX_FEED_MESSAGES r (feed_at k v) \<and> objects (base w) r = in_message m \<and>
       count_at k (unreadCounts w) = count_at k (unreadCounts v) +
         (if \<not> in_outgoing m \<and> (k \<noteq> currentFeed v \<or> \<not> chatTabActive v) then 1 else 0))"
proof -
  note feed = view_ok_feed[OF assms(4), of k, folded r_def]
  let ?p = "\<lambda>x. messageIdentity (objects (base v) x) = i"
  have w: "w = (case position ?p (feed_at k v) of Some j \<Rightarrow> replace_message k j (in_message m) v | None \<Rightarrow> add_message env m v)"
    using assms(5-7,11) unfolding handleIncomingChatMessage_def i_def k_def r_def by (auto simp del: js_simps)
  note fields = incoming_message_fields[OF assms(7)[unfolded assms(8)] assms(9)]
  show ?thesis
  proof (cases "position ?p (feed_at k v)")
    case (Some j)
    then have w: "w = replace_message k j (in_message m) v" using w by simp
    note put = filed_replace[OF assms(4) Some conjunct1[OF fields] conjunct2[OF fields] meta_eq_to_obj_eq[OF i_def, symmetric] meta_eq_to_obj_eq[OF r_def] w]
    from put(5) have known: "i \<in> ident (base v) ` set (feed_at k v)" by blast
    have other: "\<forall>k'. k' \<noteq> k \<longrightarrow> feed_at k' w = feed_at k' v" "unreadCounts w = unreadCounts v"
      by (simp_all add: w after_replace)
    show ?thesis using other known put(2-5) assms(10) by (simp add: put(1))
  next
    case None
    then have w: "w = add_message env m v" using w by simp
    have new: "i \<notin> ident (base v) ` set (feed_at k v)" using position_None[OF None] by (auto simp: ident_def)
    have obj: "objects (base w) = (objects (base v))(r := in_message m)" by (simp add: w after_add r_def)
    have f: "feed_at k w = push_bounded MAX_FEED_MESSAGES r (feed_at k v)" by (simp add: w after_add k_def r_def)
    have id_r: "ident (base w) r = i" by (simp add: ident_def obj i_def)
    have same: "map (ident (base w)) (feed_at k v) = map (ident (base v)) (feed_at k v)"
      using feed by (intro map_ident_same) (auto simp: obj)
    have d: "distinct (map (ident (base w)) (feed_at k w))"
      unfolding f push_bounded_map same id_r using new assms(10) by (intro distinct_push_bounded) simp_all
    have other: "\<forall>k'. k' \<noteq> k \<longrightarrow> feed_at k' w = feed_at k' v" by (simp add: w after_add k_def)
    have "count_at k (unreadCounts w) = count_at k (unreadCounts v) +
         (if \<not> in_outgoing m \<and> (k \<noteq> currentFeed v \<or> \<not> chatTabActive v) then 1 else 0)"
      by (simp add: w after_add k_def count_at_def)
    with other d id_r f new show ?thesis by (simp add: obj)
  qed
qed

definition sample_frame :: props where
  "sample_frame = [(js ''is_outgoing'', Bool True), (js ''text'', Str (js ''hi'')), (js ''feed_key'', Str (js ''ch_0'')),
     (js ''msg_id'', Str (js ''a''))]"

lemma sample_frame_read: "\<exists>m. read_incoming sample_view_env 0 (Obj sample_frame) = Inr m \<and> in_feed m = js ''ch_0'' \<and> in_outgoing m"
proof -
  have "getp (Obj sample_frame) (js ''is_outgoing'') = Bool True" "getp (Obj sample_frame) (js ''feed_key'') = Str (js ''ch_0'')"
    "getp (Obj sample_frame) (js ''timestamp'') = Undefined"
    by (simp_all add: sample_frame_def getp_def)
  then show ?thesis
    by (simp add: read_incoming_def bindE_def message_time_def Let_def del: js_simps fold.simps fold_simps) simp
qed

theorem incoming_filed_once_witness:
  "\<exists>m. read_incoming sample_view_env 0 (Obj sample_frame) = Inr m \<and> in_feed m = js ''ch_0'' \<and>
     (let w = handleIncomingChatMessage sample_view_env (Obj sample_frame) (new_view Null [])
      in feed_at (js ''ch_0'') w = [0] \<and> objects (base w) 0 = in_message m)"
proof -
  let ?v = "new_view Null []"
  obtain m where m: "read_incoming sample_view_env 0 (Obj sample_frame) = Inr m" "in_feed m = js ''ch_0''"
    using sample_frame_read by blast
  have new: "next_obj (base ?v) = 0" "feed_at k ?v = []" "\<not> historyAccessDenied ?v" for k
    by (simp_all add: new_view_def new_chat_def feed_at_def)
  have "truthy (getp (Obj sample_frame) (js ''station_id'')) \<longrightarrow> getp (Obj sample_frame) (js ''station_id'') = storageStation ?v"
    "distinct (map fst sample_frame)"
    by (simp_all add: sample_frame_def getp_def)
  with incoming_filed_once[of ?v "Obj sample_frame" sample_view_env m sample_frame, OF view_ok_new new(3) _ _ refl _ _ refl] m
  show ?thesis by (simp add: new push_bounded_def MAX_FEED_MESSAGES_def Let_def del: js_simps)
qed

end
