(* ===== verification/ChatPanels.thy ===== *)
theory ChatPanels
  imports ChatScreen
begin

section \<open>Beside the messages\<close>

text \<open>
  The list of direct conversations, which never shows one that the user has closed; and the two ways
  in which the panel and the composer come to belong to another conversation than the open one.
\<close>

subsection \<open>Canonical keys\<close>

text \<open>The keys of known nodes have no white space around them.\<close>

definition tidy_nodes :: "nodes \<Rightarrow> bool" where
  "tidy_nodes known \<longleftrightarrow> list_all (\<lambda>e. trim (node_pk e) = node_pk e) known"

lemma resolve_again:
  assumes "tidy_nodes known"
  shows "resolveCanonicalPubkey known (Str (resolveCanonicalPubkey known p)) = resolveCanonicalPubkey known p"
proof -
  define clean where "clean = toLowerCase (trim (to_string p))"
  let ?r = "resolveCanonicalPubkey known p"
  have known_again: "resolveCanonicalPubkey known (Str m) = m" if m: "m \<in> node_pk ` set known" for m
  proof -
    obtain e where e: "e \<in> set known" "m = node_pk e" using m by blast
    then have "toLowerCase (trim m) = m" using assms by (simp add: tidy_nodes_def list_all_iff) (simp add: node_pk_def)
    then show ?thesis using e by (auto simp: resolveCanonicalPubkey_def list_ex_iff Let_def)
  qed
  let ?ms = "foldl add_match [] (filter (prefix_match clean) (map node_pk known))"
  have "?r = [] \<or> ?r \<in> node_pk ` set known \<or> truthy p \<and> ?r = clean"
  proof (cases "\<exists>m. ?ms = [m]")
    case True
    then obtain m where m: "?ms = [m]" ..
    then have "set (filter (prefix_match clean) (map node_pk known)) = {m}" by (simp only: unique_match)
    then have "m \<in> node_pk ` set known" by auto
    then show ?thesis using m by (auto simp: resolveCanonicalPubkey_def clean_def[symmetric] Let_def)
  next
    case False
    then have "(case ?ms of [m] \<Rightarrow> m | _ \<Rightarrow> clean) = clean" by (auto split: list.split)
    then show ?thesis by (simp add: resolveCanonicalPubkey_def clean_def[symmetric] Let_def)
  qed
  then consider "?r = []" | "?r \<in> node_pk ` set known" | "truthy p" "?r = clean" by blast
  then show ?thesis
  proof cases
    case 3
    have "toLowerCase (trim clean) = clean" by (simp add: clean_def trim_toLowerCase)
    then have "clean \<noteq> [] \<Longrightarrow> resolveCanonicalPubkey known (Str clean) = ?r"
      using 3(1) unfolding resolveCanonicalPubkey_def clean_def[symmetric] by simp
    moreover have "clean = [] \<Longrightarrow> resolveCanonicalPubkey known (Str clean) = []" by (simp add: resolveCanonicalPubkey_def)
    ultimately show ?thesis using 3 by (cases "clean = []") simp_all
  qed (use known_again in \<open>simp_all add: resolveCanonicalPubkey_def\<close>)
qed

subsection \<open>Closed conversations\<close>

text \<open>The keys in the list and the closed ones: what most operations leave alone.\<close>

definition listed :: "chat_view \<Rightarrow> jstr list \<times> jstr list" where
  "listed v = (map fst (dmListUi v), closedDmThreads v)"

lemma listed_basic [simp]:
  "listed (set_base b v) = listed v" "listed (set_state f s v) = listed v" "listed (paint f v) = listed v"
  "listed (append_bubble r v) = listed v" "listed (add_unread k v) = listed v" "listed (save_draft v) = listed v"
  "listed (start_task t v) = listed v" "listed (load_threads i v) = listed v" "listed (choose_channel idx v) = listed v"
  "listed (request_page ctx v) = listed v" "listed (render_start before i v) = listed v" "listed (clear_start v) = listed v"
  "listed (clear_finish g f v) = listed v" "listed (cache_cleared v) = listed v" "listed (load_initial v) = listed v"
  by (simp_all add: listed_def set_base_def set_state_def paint_def append_bubble_def add_unread_def save_draft_def start_task_def
      load_threads_def choose_channel_def request_page_def render_start_def clear_start_def clear_finish_def cache_cleared_def
      load_initial_def Let_def)

lemma listed_names [simp]: "listed (refresh_names env v) = listed v"
  by (simp add: listed_def refresh_names_def comp_def case_prod_unfold Let_def)

lemma listed_upd [simp]:
  "listed (v\<lparr>storageBlocked := x\<rparr>) = listed v" "listed (v\<lparr>conversationsWithMessages := c\<rparr>) = listed v"
  "listed (v\<lparr>draftTimer := d\<rparr>) = listed v" "listed (v\<lparr>olderButton := ob\<rparr>) = listed v" "listed (v\<lparr>chatTabActive := d\<rparr>) = listed v"
  "listed (v\<lparr>view_tasks := ts\<rparr>) = listed v" "listed (v\<lparr>historyPages := ps, historyAccessDenied := d\<rparr>) = listed v"
  "listed (v\<lparr>storageAuth := a, storageBlocked := x\<rparr>) = listed v" "listed (v\<lparr>base := b, bubbles := bs\<rparr>) = listed v"
  by (simp_all add: listed_def)

lemma listed_replace [simp]: "listed (replace_message k i m v) = listed v"
  by (simp add: replace_message_def Let_def)

lemma listed_outbox [simp]: "listed (outbox_event env ev v) = listed v"
  by (simp add: outbox_event_def Let_def split: option.split)

lemma listed_cached [simp]: "listed (cached_arrives env ctx x rows v) = listed v"
  by (simp add: cached_arrives_def Let_def split: sum.split)

lemma listed_install: "install_page env ctx page v = Inr w \<Longrightarrow> listed w = listed v"
  by (auto simp: install_page_def bindE_eq_Inr Let_def)

text \<open>
  No key is listed twice or while it is closed, and every listed one was, in one of the surroundings
  met so far, neither the own station nor a repeater.
\<close>

definition list_ok :: "view_env set \<Rightarrow> chat_view \<Rightarrow> bool" where
  "list_ok envs v \<longleftrightarrow> distinct (map fst (dmListUi v)) \<and> fst ` set (dmListUi v) \<inter> set (closedDmThreads v) = {} \<and>
     (\<forall>k \<in> fst ` set (dmListUi v). \<exists>env \<in> envs. \<not> local_target env k \<and> \<not> isRepeater (node_at env k))"

lemma list_ok_same: "listed w = listed v \<Longrightarrow> list_ok envs w = list_ok envs v"
  unfolding list_ok_def listed_def set_map[symmetric] prod.inject by (elim conjE) (simp only:)

lemma list_ok_gone: "list_ok envs (clearProtectedHistory v)" "list_ok envs (deny_in f v)" "list_ok envs (station_changed s v)"
  by (simp_all add: list_ok_def clearProtectedHistory_def deny_in_def station_changed_def paint_def set_state_def Let_def)

lemma list_ok_reopen: "list_ok envs v \<Longrightarrow> list_ok envs (reopen pk v)"
  by (auto simp: list_ok_def reopen_def)

lemma canonical_again: "tidy_nodes (knownNodes env) \<Longrightarrow> canonical env (Str (canonical env p)) = canonical env p"
  by (simp add: canonical_def resolve_again)

lemma list_ok_contact:
  assumes "list_ok envs v" "env \<in> envs" "canonical env p \<notin> set (closedDmThreads v)"
  shows "list_ok envs (addDmContact env p n v)"
proof -
  have put: "list_ok envs (v\<lparr>dmListUi := assoc_put (canonical env p) x (dmListUi v)\<rparr>)"
    if "\<not> local_target env (canonical env p)" "\<not> isRepeater (node_at env (canonical env p))" for x
    using assms that by (auto simp: list_ok_def distinct_assoc_put keys_assoc_put)
  show ?thesis using put assms(1) by (simp add: addDmContact_def Let_def)
qed

lemma reopened: "pk \<notin> set (closedDmThreads (reopen pk v))"
  by (simp add: reopen_def)

lemma list_ok_listed_contact:
  assumes "list_ok envs v" "env \<in> envs" "tidy_nodes (knownNodes env)" "pk = canonical env p" "pk \<notin> set (closedDmThreads v)"
  shows "list_ok envs (addDmContact env (Str pk) n v)"
  by (rule list_ok_contact[OF assms(1,2)]) (simp add: assms(3-5) canonical_again[OF assms(3)] assms(5)[unfolded assms(4)])

lemma list_ok_thread:
  "list_ok envs v \<Longrightarrow> env \<in> envs \<Longrightarrow> tidy_nodes (knownNodes env) \<Longrightarrow> list_ok envs (add_thread_item env t v)"
  by (auto simp: add_thread_item_def Let_def list_ok_same[of "v\<lparr>conversationsWithMessages := _\<rparr>" v] intro!: list_ok_listed_contact)

lemma in_peer_canonical: "read_incoming env n p = Inr m \<Longrightarrow> \<exists>x. in_peer m = canonical env x"
  by (auto simp: read_incoming_def bindE_eq_Inr Let_def simp del: js_simps fold.simps fold_simps)

lemma list_ok_note:
  assumes "list_ok envs v" "env \<in> envs" "tidy_nodes (knownNodes env)" "in_peer m = canonical env x"
  shows "list_ok envs (note_contact env m v)"
proof -
  have "list_ok envs (reopen (in_peer m) (v\<lparr>conversationsWithMessages := c\<rparr>))" for c
    by (intro list_ok_reopen) (simp add: assms(1) list_ok_same[of _ v])
  then show ?thesis unfolding note_contact_def
    using assms(1) by (auto intro: list_ok_listed_contact[OF _ assms(2,3,4) reopened])
qed

lemma list_ok_basic [simp]:
  "list_ok envs (set_base b v) = list_ok envs v" "list_ok envs (set_state f s v) = list_ok envs v"
  "list_ok envs (paint f v) = list_ok envs v" "list_ok envs (append_bubble r v) = list_ok envs v"
  "list_ok envs (add_unread k v) = list_ok envs v" "list_ok envs (save_draft v) = list_ok envs v"
  "list_ok envs (start_task t v) = list_ok envs v" "list_ok envs (load_threads i v) = list_ok envs v"
  "list_ok envs (choose_channel idx v) = list_ok envs v" "list_ok envs (render_start before i v) = list_ok envs v"
  "list_ok envs (clear_start v) = list_ok envs v" "list_ok envs (clear_finish g f v) = list_ok envs v"
  "list_ok envs (cache_cleared v) = list_ok envs v" "list_ok envs (load_initial v) = list_ok envs v"
  "list_ok envs (refresh_names env v) = list_ok envs v" "list_ok envs (replace_message k j m v) = list_ok envs v"
  "list_ok envs (outbox_event env ev v) = list_ok envs v" "list_ok envs (cached_arrives env ctx x rows v) = list_ok envs v"
  by (rule list_ok_same, simp)+

lemma list_ok_upd [simp]:
  "list_ok envs (v\<lparr>storageBlocked := x\<rparr>) = list_ok envs v" "list_ok envs (v\<lparr>draftTimer := d\<rparr>) = list_ok envs v"
  "list_ok envs (v\<lparr>olderButton := ob\<rparr>) = list_ok envs v" "list_ok envs (v\<lparr>chatTabActive := d\<rparr>) = list_ok envs v"
  "list_ok envs (v\<lparr>view_tasks := ts\<rparr>) = list_ok envs v"
  by (rule list_ok_same, simp)+

lemma list_ok_incoming:
  assumes "list_ok envs v" "env \<in> envs" "tidy_nodes (knownNodes env)"
  shows "list_ok envs (handleIncomingChatMessage env p v)"
proof -
  have add: "list_ok envs (add_message env m v)" if m: "read_incoming env n p = Inr m" for m n
  proof -
    obtain x where "in_peer m = canonical env x" using in_peer_canonical[OF m] ..
    then have "list_ok envs (note_contact env m (set_base b v))" for b
      by (intro list_ok_note[OF _ assms(2,3)]) (simp_all add: assms(1))
    then show ?thesis by (simp add: add_message_def Let_def)
  qed
  then show ?thesis using assms(1) by (simp add: handleIncomingChatMessage_def split: sum.split option.split)
qed

lemma list_ok_packet:
  "list_ok envs v \<Longrightarrow> env \<in> envs \<Longrightarrow> tidy_nodes (knownNodes env) \<Longrightarrow> list_ok envs (on_packet env p v)"
  by (simp add: on_packet_def list_ok_incoming Let_def del: js_simps)

lemma list_ok_open:
  assumes "list_ok envs v" "env \<in> envs" "tidy_nodes (knownNodes env)"
  shows "list_ok envs (open_conversation env pk n v)"
proof -
  have "list_ok envs (addDmContact env (Str (canonical env pk)) x (reopen (canonical env pk) (set_base b v)))" for x b
    by (intro list_ok_listed_contact[OF _ assms(2,3) refl reopened] list_ok_reopen) (simp add: assms(1))
  then show ?thesis using assms(1) by (simp add: open_conversation_def Let_def)
qed

lemma list_ok_fewer:
  assumes "list_ok envs v" "distinct (map fst ds)" "fst ` set ds \<subseteq> fst ` set (dmListUi v) - {k}"
  shows "list_ok envs (v\<lparr>closedDmThreads := add_once k (closedDmThreads v), dmListUi := ds\<rparr>)"
proof -
  have less: "A' \<subseteq> A - {k} \<Longrightarrow> A \<inter> C = {} \<Longrightarrow> A' \<inter> insert k C = {}" for A' A C :: "jstr set" by blast
  have some: "A' \<subseteq> A - {k} \<Longrightarrow> \<forall>x \<in> A. P x \<Longrightarrow> \<forall>x \<in> A'. P x" for A' A :: "jstr set" and P by blast
  have closed: "set (add_once k (closedDmThreads v)) = insert k (set (closedDmThreads v))" by (auto simp: add_once_def)
  from assms(1) have "fst ` set (dmListUi v) \<inter> set (closedDmThreads v) = {}"
    "\<forall>k \<in> fst ` set (dmListUi v). \<exists>env \<in> envs. \<not> local_target env k \<and> \<not> isRepeater (node_at env k)"
    unfolding list_ok_def by blast+
  note facts = assms(2) less[OF assms(3) this(1)] some[OF assms(3) this(2)]
  have "dmListUi (v\<lparr>closedDmThreads := cs, dmListUi := ds\<rparr>) = ds" "closedDmThreads (v\<lparr>closedDmThreads := cs, dmListUi := ds\<rparr>) = cs" for cs
    by simp_all
  then show ?thesis unfolding list_ok_def by (simp only: closed) (intro conjI facts)
qed

lemma list_ok_close: "list_ok envs v \<Longrightarrow> list_ok envs (close_conversation env pk v)"
proof -
  assume ok: "list_ok envs v"
  have "list_ok envs (v\<lparr>closedDmThreads := add_once k (closedDmThreads v), dmListUi := assoc_del k (dmListUi v)\<rparr>)" for k
  proof -
    have "fst ` set (assoc_del k (dmListUi v)) \<subseteq> fst ` set (dmListUi v) - {k}"
      using image_mono[OF set_assoc_del(1)[of k "dmListUi v"], of fst] set_assoc_del(2)[of k "dmListUi v"] by blast
    then show ?thesis by (rule list_ok_fewer[OF ok set_assoc_del(3), rotated]) (use ok in \<open>simp add: list_ok_def\<close>)
  qed
  then show ?thesis using ok by (simp add: close_conversation_def Let_def)
qed

lemma list_ok_page: "list_ok envs v \<Longrightarrow> list_ok envs (page_arrives env ctx reply v)"
proof (cases reply)
  case (HistoryPage page)
  assume ok: "list_ok envs v"
  have "list_ok envs (case install_page env ctx page w of Inl _ \<Rightarrow> paint f (set_state f s w) | Inr w' \<Rightarrow> paint f w')"
    if "list_ok envs w" for w f s
    using that list_ok_same[OF listed_install[of env ctx page w]] by (auto split: sum.split)
  then show ?thesis using HistoryPage ok by (simp add: page_arrives_def Let_def)
qed (simp_all add: page_arrives_def list_ok_gone Let_def)

lemma list_ok_resume:
  assumes "list_ok envs v" "env \<in> envs" "tidy_nodes (knownNodes env)"
  shows "list_ok envs (resume env t r v)"
proof -
  have "list_ok envs (fold (add_thread_item env) ts v)" for ts
    using assms(1) by (rule fold_preserves) (rule list_ok_thread[OF _ assms(2,3)])
  then have threads: "list_ok envs (threads_arrive env g a reply v)" for g a reply
    using assms(1) by (simp add: threads_arrive_def list_ok_gone split: threads_reply.split)
  show ?thesis
    using assms(1) by (simp add: resume_def list_ok_page threads split: view_task.split task_result.split)
qed

lemma list_ok_step:
  assumes "list_ok envs v" "env \<in> envs" "tidy_nodes (knownNodes env)"
  shows "list_ok envs (view_step env ev v)"
proof (cases ev)
  case (Outbox oe)
  then show ?thesis using assms by (cases oe) (simp_all add: view_step_def list_ok_open)
qed (use assms in \<open>simp_all add: view_step_def access_denied_def credentials_changed_def list_ok_gone list_ok_packet list_ok_close
      list_ok_resume split: option.split\<close>)

lemma list_ok_new: "list_ok envs (new_view station archived)"
  by (simp add: list_ok_def new_view_def)

interpretation list: initial_invariant "\<lambda>(env, ev). view_step env ev" "\<lambda>(env, ev). env \<in> envs \<and> tidy_nodes (knownNodes env)"
    "list_ok envs" "new_view station archived" for envs station archived
  by unfold_locales (auto simp: list_ok_step list_ok_new)



subsection \<open>Panel and composer of another conversation\<close>

lemma paint_takes_panel:
  "visibleFeedKey (paint f v) = Some f"
  "visibleFeedKey v \<noteq> Some f \<Longrightarrow> chatInputText (base (paint f v)) = (case map_of (drafts (base v)) (draft_key f) of Some t \<Rightarrow> t | None \<Rightarrow> [])"
  "currentFeed (paint f v) = currentFeed v"
proof -
  have frame: "drafts (paint_bubble r b) = drafts b \<and> visibleFeed (paint_bubble r b) = visibleFeed b" for r b
    by (simp add: paint_bubble_def register_ack_def visibleFeed_def Let_def)
  have frames: "drafts (fold paint_bubble rs b) = drafts b \<and> visibleFeed (fold paint_bubble rs b) = visibleFeed b" for rs b
    by (induction rs arbitrary: b) (simp_all add: frame)
  have composer: "visibleFeed (b\<lparr>chatInputText := t\<rparr>) = visibleFeed b" for b t by (simp add: visibleFeed_def)
  show "visibleFeedKey (paint f v) = Some f" by (simp add: paint_def Let_def)
  show "visibleFeedKey v \<noteq> Some f \<Longrightarrow> chatInputText (base (paint f v)) = (case map_of (drafts (base v)) (draft_key f) of Some t \<Rightarrow> t | None \<Rightarrow> [])"
    using frames[of "feed_at f v" "base v"] by (simp add: paint_def Let_def)
  show "currentFeed (paint f v) = currentFeed v"
    using frames[of "feed_at f v" "base v"] by (simp add: paint_def currentFeed_def composer Let_def)
qed

text \<open>
  An overtaken read of the cache takes the panel back. The answer of the cache to the rendering
  of a conversation that the user has left since, and of which nothing is in memory, still paints
  that conversation: the panel shows it and the composer is filled with its draft, whatever was being
  written there, while the open conversation, to which the composer sends, remains the other one.
\<close>
theorem stale_read_takes_panel:
  assumes "map_of (view_tasks v) n = Some (CachedRead ctx blocked)" "rc_feed ctx \<noteq> currentFeed v"
    and "feed_at (rc_feed ctx) v = []" "visibleFeedKey v \<noteq> Some (rc_feed ctx)" "w = view_step env (TaskEnds n r) v"
  shows "currentFeed w = currentFeed v \<and> visibleFeedKey w = Some (rc_feed ctx) \<and> visibleFeedKey w \<noteq> Some (currentFeed w) \<and>
    chatInputText (base w) = (case map_of (drafts (base v)) (draft_key (rc_feed ctx)) of Some t \<Rightarrow> t | None \<Rightarrow> [])"
proof -
  let ?u = "v\<lparr>view_tasks := assoc_del n (view_tasks v)\<rparr>"
  have frame: "visibleFeedKey (start_task t x) = visibleFeedKey x" "base (start_task t x) = base x" "currentFeed (start_task t x) = currentFeed x"
    "visibleFeedKey (set_state f s x) = visibleFeedKey x" "base (set_state f s x) = base x" "currentFeed (set_state f s x) = currentFeed x" for t x f s
    by (simp_all add: start_task_def set_state_def currentFeed_def)
  have not_current: "\<not> is_current ctx ?u" using assms(2) by (simp add: is_current_def currentFeed_def)
  have "w = cached_arrives env ctx blocked (case r of CacheRows rows \<Rightarrow> rows | _ \<Rightarrow> []) ?u"
    using assms(1,5) by (cases r) (simp_all add: view_step_def resume_def)
  also have "\<dots> = start_task (PageRead ctx) (paint (rc_feed ctx) (set_state (rc_feed ctx) Loading ?u))"
    using assms(3) not_current by (simp add: cached_arrives_def request_page_def feed_at_def Let_def)
  finally show ?thesis
    using assms(2,4) paint_takes_panel(2)[of "set_state (rc_feed ctx) Loading ?u" "rc_feed ctx"]
    by (simp add: frame paint_takes_panel(1,3)) (simp add: currentFeed_def)
qed

text \<open>The page opens on channel 0, whose cache is still being read when the user goes to channel 1.\<close>

theorem stale_read_takes_panel_witness:
  "let v = fold (view_step sample_view_env) [HistoryImported, Outbox (ChannelChosen (Num (Fin 1))), Outbox (Typed (js ''a''))] (new_view Null []);
       w = view_step sample_view_env (TaskEnds 0 (CacheRows [])) v
   in chatInputText (base v) = js ''a'' \<and> chatInputText (base w) = [] \<and> currentFeed w = js ''ch_1'' \<and> visibleFeedKey w = Some (js ''ch_0'')"
proof -
  define v where
    "v = fold (view_step sample_view_env) [HistoryImported, Outbox (ChannelChosen (Num (Fin 1))), Outbox (Typed (js ''a''))] (new_view Null [])"
  define ctx where
    "ctx = \<lparr>rc_render = 1, rc_feed = js ''ch_0'', rc_feed_gen = 0, rc_auth = 0, rc_before = Null, rc_initial = True\<rparr>"
  have facts: "map_of (view_tasks v) 0 = Some (CachedRead ctx False)" "currentFeed v = js ''ch_1''" "feed_at (js ''ch_0'') v = []"
    "visibleFeedKey v = None" "chatInputText (base v) = js ''a''" "drafts (base v) = []"
    unfolding v_def ctx_def by code_simp+
  then show ?thesis
    using stale_read_takes_panel[OF facts(1) _ _ _ refl, of sample_view_env "CacheRows []"]
    unfolding v_def[symmetric] by (simp add: ctx_def Let_def)
qed

text \<open>
  The timer of the draft does not know for which conversation it was set: a text typed before the
  user changes to another channel is filed as a draft of that channel.
\<close>
lemma draft_filed_elsewhere:
  assumes "trim t \<noteq> []" "w = fold (view_step env) [Outbox (Typed t), Outbox (ChannelChosen idx), DraftTimerFires] v"
  shows "map_of (drafts (base w)) (draft_key (currentFeed w)) = Some t"
    and "f \<noteq> currentFeed w \<Longrightarrow> map_of (drafts (base w)) (draft_key f) = map_of (drafts (base v)) (draft_key f)"
proof -
  let ?b = "switchChannel idx ((base v)\<lparr>chatInputText := t\<rparr>)"
  have typed: "outbox_event env (Typed t) v = set_base ((base v)\<lparr>chatInputText := t\<rparr>) v"
    by (simp add: outbox_event_def chat_step_def Let_def split: option.split)
  have "base w = ?b\<lparr>drafts := assoc_put (draft_key (visibleFeed ?b)) t (drafts (base v))\<rparr>" "currentFeed w = visibleFeed ?b"
    using assms(1) unfolding assms(2)
    by (simp_all add: view_step_def typed set_base_def choose_channel_def start_task_def save_draft_def currentFeed_def
        switchChannel_def visibleFeed_def Let_def)
  then show "map_of (drafts (base w)) (draft_key (currentFeed w)) = Some t"
    and "f \<noteq> currentFeed w \<Longrightarrow> map_of (drafts (base w)) (draft_key f) = map_of (drafts (base v)) (draft_key f)"
    by (simp_all add: draft_key_def)
qed

end
