(* ===== verification/SystemDialogs.thy ===== *)
theory SystemDialogs
  imports JsValue Machine
begin

section \<open>Confirmations, alerts and questions (app.js)\<close>

text \<open>
  One dialog element of the page serves every confirmation, alert and question. A request is a
  promise chained after the one before; its dialog is shown when the earlier ones are over, and the
  promise is settled when the element is hidden again. The state holds the requests that wait, the
  dialog that is shown with its answer if it has been given, and the settled requests. Texts
  of the user's language are a parameter; listeners of the page are the events of the machine.
\<close>

datatype dialog_mode = ConfirmMode | AlertMode | PromptMode

record dialog_config =
  d_mode :: dialog_mode
  d_message :: jsval
  d_default :: jsval
  d_title :: jsval
  d_title_key :: jsval
  d_confirm_text :: jsval
  d_confirm_key :: jsval
  d_cancel_text :: jsval
  d_cancel_key :: jsval
  d_danger :: bool
  d_type :: jsval
  d_icon :: jsval

definition key_unless :: "jsval \<Rightarrow> string \<Rightarrow> jsval" where
  "key_unless given key = (if truthy given then Null else Str (js key))"

definition word_or :: "(string \<Rightarrow> jsval) \<Rightarrow> jsval \<Rightarrow> string \<Rightarrow> string \<Rightarrow> jsval" where
  "word_or t given key fallback = js_or given (js_or (t key) (Str (js fallback)))"

definition is_error_type :: "jsval \<Rightarrow> bool" where
  "is_error_type type \<longleftrightarrow> type = Str (js ''error'') \<or> type = Str (js ''danger'')"

definition showConfirm :: "(string \<Rightarrow> jsval) \<Rightarrow> jsval \<Rightarrow> jsval \<Rightarrow> dialog_config" where
  "showConfirm t message options =
     (let o1 = (\<lambda>k. getp options (js k)); isDanger = (truthy (o1 ''isDanger'') \<or> is_error_type (o1 ''type'')) in
      \<lparr>d_mode = ConfirmMode, d_message = message, d_default = Undefined,
       d_title = word_or t (o1 ''title'') ''modal.confirm'' ''Confirmar'', d_title_key = key_unless (o1 ''title'') ''modal.confirm'',
       d_confirm_text = word_or t (o1 ''confirmText'') ''modal.confirm'' ''Confirmar'',
       d_confirm_key = key_unless (o1 ''confirmText'') ''modal.confirm'',
       d_cancel_text = word_or t (o1 ''cancelText'') ''modal.cancel'' ''Cancelar'',
       d_cancel_key = key_unless (o1 ''cancelText'') ''modal.cancel'', d_danger = isDanger,
       d_type = js_or (o1 ''type'') (Str (js (if isDanger then ''danger'' else ''info''))), d_icon = o1 ''icon''\<rparr>)"

definition showAlert :: "(string \<Rightarrow> jsval) \<Rightarrow> jsval \<Rightarrow> jsval \<Rightarrow> dialog_config" where
  "showAlert t message options =
     (let o1 = (\<lambda>k. getp options (js k)); type = o1 ''type''; isError = is_error_type type;
          key = (if isError then ''modal.error'' else if type = Str (js ''warning'') then ''modal.warning''
                 else if type = Str (js ''success'') then ''modal.success'' else ''modal.info'');
          button = js_or (o1 ''confirmText'') (o1 ''buttonText'')
      in \<lparr>d_mode = AlertMode, d_message = message, d_default = Undefined,
          d_title = js_or (o1 ''title'') (t key), d_title_key = key_unless (o1 ''title'') key,
          d_confirm_text = word_or t button ''modal.close'' ''Aceptar'', d_confirm_key = key_unless button ''modal.close'',
          d_cancel_text = Undefined, d_cancel_key = Undefined, d_danger = isError,
          d_type = (if isError then Str (js ''danger'') else js_or type (Str (js ''info''))), d_icon = o1 ''icon''\<rparr>)"

definition showPrompt :: "(string \<Rightarrow> jsval) \<Rightarrow> jsval \<Rightarrow> jsval \<Rightarrow> jsval \<Rightarrow> dialog_config" where
  "showPrompt t message initial options =
     (let o1 = (\<lambda>k. getp options (js k)) in
      \<lparr>d_mode = PromptMode, d_message = message, d_default = initial,
       d_title = js_or (o1 ''title'') (t ''modal.input_title''), d_title_key = key_unless (o1 ''title'') ''modal.input_title'',
       d_confirm_text = word_or t (o1 ''confirmText'') ''modal.confirm'' ''Aceptar'',
       d_confirm_key = key_unless (o1 ''confirmText'') ''modal.confirm'',
       d_cancel_text = word_or t (o1 ''cancelText'') ''modal.cancel'' ''Cancelar'',
       d_cancel_key = key_unless (o1 ''cancelText'') ''modal.cancel'', d_danger = False,
       d_type = js_or (o1 ''type'') (Str (js ''info'')), d_icon = js_or (o1 ''icon'') (Str (js ''edit-3''))\<rparr>)"

subsection \<open>How a dialog looks\<close>

definition is_danger :: "dialog_config \<Rightarrow> bool" where
  "is_danger c \<longleftrightarrow> d_danger c \<or> is_error_type (d_type c)"

definition dialog_type :: "dialog_config \<Rightarrow> jsval" where
  "dialog_type c =
     (let raw = js_or (d_type c) (Str (js (if is_danger c then ''danger'' else ''info'')))
      in if raw = Str (js ''error'') then Str (js ''danger'') else raw)"

definition icon_name :: "dialog_config \<Rightarrow> jsval" where
  "icon_name c =
     (if truthy (d_icon c) then d_icon c
      else Str (js (if is_danger c \<or> dialog_type c = Str (js ''danger'') then ''alert-triangle''
                    else if dialog_type c = Str (js ''warning'') then ''shield-alert''
                    else if dialog_type c = Str (js ''success'') then ''check''
                    else if d_mode c = PromptMode then ''edit-3''
                    else if d_mode c = AlertMode then ''info'' else ''help-circle'')))"

definition icon_classes :: "(string \<times> string) list" where
  "icon_classes =
     [(''alert-triangle'', ''exclamation-triangle''), (''shield-alert'', ''shield-exclamation''), (''check'', ''check-lg''),
      (''edit-3'', ''pencil-square''), (''info'', ''info-circle''), (''help-circle'', ''question-circle''), (''trash-2'', ''trash3''),
      (''refresh-cw'', ''arrow-clockwise''), (''download'', ''download''), (''upload'', ''upload''), (''lock'', ''lock''),
      (''check-circle'', ''check2-circle'')]"

definition icon_class :: "dialog_config \<Rightarrow> string" where
  "icon_class c =
     (case map_of (map (\<lambda>(k, x). (Str (js k), x)) icon_classes) (icon_name c) of Some x \<Rightarrow> x | None \<Rightarrow> ''question-circle'')"

text \<open>Where the focus goes: into the field of a question, to the harmless button of a dangerous confirmation.\<close>

datatype focus_place = FocusInput | FocusCancel | FocusConfirm

definition initial_focus :: "dialog_config \<Rightarrow> focus_place" where
  "initial_focus c =
     (if d_mode c = PromptMode then FocusInput
      else if is_danger c \<and> d_mode c \<noteq> AlertMode then FocusCancel else FocusConfirm)"

subsection \<open>The queue\<close>

datatype outcome = Resolved jsval | Rejection js_error

record shown_dialog =
  s_request :: nat
  s_config :: dialog_config
  s_input :: jstr
  s_answer :: "jsval option"

record dialogs =
  d_waiting :: "(nat \<times> dialog_config) list"
  d_shown :: "shown_dialog option"
  d_outcomes :: "(nat \<times> outcome) list"
  d_next :: nat

definition new_dialogs :: dialogs where
  "new_dialogs = \<lparr>d_waiting = [], d_shown = None, d_outcomes = [], d_next = 0\<rparr>"

definition showSystemDialog :: "dialog_config \<Rightarrow> dialogs \<Rightarrow> dialogs" where
  "showSystemDialog c st = st\<lparr>d_waiting := d_waiting st @ [(d_next st, c)], d_next := d_next st + 1\<rparr>"

text \<open>Without the element, showing the dialog throws and rejects its request; the next one goes on.\<close>

definition displaySystemDialog :: "bool \<Rightarrow> dialogs \<Rightarrow> dialogs" where
  "displaySystemDialog element st =
     (case (d_shown st, d_waiting st) of
        (None, (n, c) # rest) \<Rightarrow>
          if element
          then st\<lparr>d_waiting := rest,
                  d_shown := Some \<lparr>s_request = n, s_config = c,
                    s_input = (if d_mode c = PromptMode then to_string (js_or (d_default c) (Str [])) else []), s_answer = None\<rparr>\<rparr>
          else st\<lparr>d_waiting := rest, d_outcomes := d_outcomes st @ [(n, Rejection TypeError)]\<rparr>
      | _ \<Rightarrow> st)"

text \<open>\<open>finish\<close>: the first answer counts.\<close>

definition finish_dialog :: "(shown_dialog \<Rightarrow> jsval) \<Rightarrow> dialogs \<Rightarrow> dialogs" where
  "finish_dialog answer st =
     (case d_shown st of
        Some s \<Rightarrow> if s_answer s = None then st\<lparr>d_shown := Some (s\<lparr>s_answer := Some (answer s)\<rparr>)\<rparr> else st
      | None \<Rightarrow> st)"

definition confirmed :: "shown_dialog \<Rightarrow> jsval" where
  "confirmed s = (case d_mode (s_config s) of PromptMode \<Rightarrow> Str (s_input s) | ConfirmMode \<Rightarrow> Bool True | AlertMode \<Rightarrow> Undefined)"

definition cancelled :: "shown_dialog \<Rightarrow> jsval" where
  "cancelled s = (case d_mode (s_config s) of PromptMode \<Rightarrow> Null | ConfirmMode \<Rightarrow> Bool False | AlertMode \<Rightarrow> Undefined)"

definition dialog_hidden :: "dialogs \<Rightarrow> dialogs" where
  "dialog_hidden st =
     (case d_shown st of
        Some s \<Rightarrow>
          (case s_answer s of
             Some x \<Rightarrow> st\<lparr>d_shown := None, d_outcomes := d_outcomes st @ [(s_request s, Resolved x)]\<rparr>
           | None \<Rightarrow> st)
      | None \<Rightarrow> st)"

datatype dialog_event =
    Ask dialog_config
  | Turn bool
  | ConfirmClicked
  | CancelClicked
  | CloseClicked
  | Dismissed
  | OverlayClicked bool bool
  | EnterPressed bool bool bool
  | InputTyped jstr
  | Hidden

definition dialogs_step :: "dialog_event \<Rightarrow> dialogs \<Rightarrow> dialogs" where
  "dialogs_step ev st =
     (case ev of
        Ask c \<Rightarrow> showSystemDialog c st
      | Turn element \<Rightarrow> displaySystemDialog element st
      | ConfirmClicked \<Rightarrow> finish_dialog confirmed st
      | CancelClicked \<Rightarrow> finish_dialog cancelled st
      | CloseClicked \<Rightarrow> finish_dialog cancelled st
      | Dismissed \<Rightarrow> finish_dialog cancelled st
      | OverlayClicked on_overlay is_top \<Rightarrow> if on_overlay \<and> is_top then finish_dialog cancelled st else st
      | EnterPressed prevented composing in_field \<Rightarrow>
          (case d_shown st of
             Some s \<Rightarrow>
               if \<not> prevented \<and> \<not> composing \<and> d_mode (s_config s) = PromptMode \<and> in_field then finish_dialog confirmed st else st
           | None \<Rightarrow> st)
      | InputTyped x \<Rightarrow>
          (case d_shown st of
             Some s \<Rightarrow> if d_mode (s_config s) = PromptMode then st\<lparr>d_shown := Some (s\<lparr>s_input := x\<rparr>)\<rparr> else st
           | None \<Rightarrow> st)
      | Hidden \<Rightarrow> dialog_hidden st)"

subsection \<open>Every request is answered once, in turn\<close>

definition shown_numbers :: "dialogs \<Rightarrow> nat list" where
  "shown_numbers st = (case d_shown st of Some s \<Rightarrow> [s_request s] | None \<Rightarrow> [])"

definition request_numbers :: "dialogs \<Rightarrow> nat list" where
  "request_numbers st = map fst (d_outcomes st) @ shown_numbers st @ map fst (d_waiting st)"

definition asked :: "dialog_event list \<Rightarrow> dialog_config list" where
  "asked evs = concat (map (\<lambda>ev. case ev of Ask c \<Rightarrow> [c] | _ \<Rightarrow> []) evs)"

definition answer_fits :: "dialog_config \<Rightarrow> jsval \<Rightarrow> bool" where
  "answer_fits c x \<longleftrightarrow> (case d_mode c of
      ConfirmMode \<Rightarrow> x \<in> {Bool True, Bool False} | AlertMode \<Rightarrow> x = Undefined | PromptMode \<Rightarrow> x = Null \<or> (\<exists>s. x = Str s))"

definition dialogs_run :: "dialog_event list \<Rightarrow> dialogs" where
  "dialogs_run evs = fold dialogs_step evs new_dialogs"

lemma dialogs_run_snoc: "dialogs_run (evs @ [ev]) = dialogs_step ev (dialogs_run evs)"
  by (simp add: dialogs_run_def)

lemma dialogs_run_Nil: "dialogs_run [] = new_dialogs"
  by (simp add: dialogs_run_def)

lemma answers_fit: "answer_fits (s_config s) (confirmed s)" "answer_fits (s_config s) (cancelled s)"
  by (simp_all add: answer_fits_def confirmed_def cancelled_def split: dialog_mode.split)

lemmas dialog_ops = dialogs_step_def showSystemDialog_def displaySystemDialog_def finish_dialog_def dialog_hidden_def

text \<open>The shown dialog after a step: a new one without an answer, or the one before, its answer given at most once.\<close>

lemma shown_after:
  assumes "d_shown (dialogs_step ev st) = Some s'"
  shows "(\<exists>rest. d_waiting st = (s_request s', s_config s') # rest \<and> d_shown st = None \<and> s_answer s' = None) \<or>
    (\<exists>s. d_shown st = Some s \<and> s_request s' = s_request s \<and> s_config s' = s_config s \<and>
       (s_answer s' = s_answer s \<or> s_answer s = None \<and> (s_answer s' = Some (cancelled s) \<or>
          s_answer s' = Some (confirmed s) \<and> (ev = ConfirmClicked \<or> d_mode (s_config s) = PromptMode))))"
  using assms by (auto simp: dialog_ops split: dialog_event.splits option.splits list.splits if_splits)

lemma outcomes_after:
  "d_outcomes (dialogs_step ev st) = d_outcomes st \<or>
   (\<exists>n c rest. d_shown st = None \<and> d_waiting st = (n, c) # rest \<and> d_outcomes (dialogs_step ev st) = d_outcomes st @ [(n, Rejection TypeError)]) \<or>
   (\<exists>s x. d_shown st = Some s \<and> s_answer s = Some x \<and> d_outcomes (dialogs_step ev st) = d_outcomes st @ [(s_request s, Resolved x)])"
  by (auto simp: dialog_ops split: dialog_event.splits option.splits list.splits if_splits)

lemma request_numbers_step:
  "request_numbers (dialogs_step ev st) = (case ev of Ask c \<Rightarrow> request_numbers st @ [d_next st] | _ \<Rightarrow> request_numbers st)"
  "d_next (dialogs_step ev st) = (case ev of Ask c \<Rightarrow> d_next st + 1 | _ \<Rightarrow> d_next st)"
  by (auto simp: request_numbers_def shown_numbers_def dialog_ops split: dialog_event.splits option.splits list.splits if_splits)

definition known_request :: "dialog_config list \<Rightarrow> nat \<Rightarrow> dialog_config \<Rightarrow> bool" where
  "known_request cs n c \<longleftrightarrow> n < length cs \<and> cs ! n = c"

lemma known_request_more: "known_request cs n c \<Longrightarrow> known_request (cs @ ds) n c"
  by (simp add: known_request_def nth_append)

lemma numbers_run: "request_numbers (dialogs_run evs) = [0..<length (asked evs)] \<and> d_next (dialogs_run evs) = length (asked evs)"
proof (induction evs rule: rev_induct)
  case Nil
  show ?case by (simp add: dialogs_run_def new_dialogs_def request_numbers_def shown_numbers_def asked_def)
next
  case (snoc ev evs)
  then show ?case by (auto simp: dialogs_run_snoc request_numbers_step asked_def split: dialog_event.split)
qed

lemma waiting_run: "\<forall>(n, c) \<in> set (d_waiting (dialogs_run evs)). known_request (asked evs) n c"
proof (induction evs rule: rev_induct)
  case (snoc ev evs)
  have "set (d_waiting (dialogs_step ev st)) \<subseteq> set (d_waiting st) \<union> (case ev of Ask c \<Rightarrow> {(d_next st, c)} | _ \<Rightarrow> {})" for st
    by (auto simp: dialog_ops split: dialog_event.splits option.splits list.splits if_splits)
  from this[of "dialogs_run evs"] snoc.IH numbers_run[of evs] show ?case
    by (fastforce simp: dialogs_run_snoc asked_def known_request_def nth_append split: dialog_event.splits)
qed (simp add: dialogs_run_def new_dialogs_def)

text \<open>What is known of the shown dialog and of the answers, with the click that gave a consent.\<close>

definition consented :: "dialog_event list \<Rightarrow> nat \<Rightarrow> bool" where
  "consented evs n \<longleftrightarrow> (\<exists>evs1 evs2 s. evs = evs1 @ ConfirmClicked # evs2 \<and>
     d_shown (dialogs_run evs1) = Some s \<and> s_request s = n \<and> s_answer s = None)"

lemma consented_more: "consented evs n \<Longrightarrow> consented (evs @ [ev]) n"
  unfolding consented_def by (metis append_Cons append_assoc)

definition answered_well :: "dialog_event list \<Rightarrow> nat \<Rightarrow> jsval \<Rightarrow> bool" where
  "answered_well evs n x \<longleftrightarrow> n < length (asked evs) \<and> answer_fits (asked evs ! n) x \<and> (x = Bool True \<longrightarrow> consented evs n)"

lemma answered_well_more: "answered_well evs n x \<Longrightarrow> answered_well (evs @ [ev]) n x"
  by (auto simp: answered_well_def asked_def nth_append consented_more)

lemma shown_run:
  "d_shown (dialogs_run evs) = Some s \<Longrightarrow> known_request (asked evs) (s_request s) (s_config s) \<and>
     (\<forall>x. s_answer s = Some x \<longrightarrow> answered_well evs (s_request s) x)"
proof (induction evs arbitrary: s rule: rev_induct)
  case (snoc ev evs s')
  let ?st = "dialogs_run evs"
  have more: "known_request (asked evs) n c \<Longrightarrow> known_request (asked (evs @ [ev])) n c" for n c
    by (simp add: asked_def known_request_more)
  from shown_after[OF snoc.prems[unfolded dialogs_run_snoc]] show ?case
  proof (elim disjE exE conjE)
    fix rest assume "d_waiting ?st = (s_request s', s_config s') # rest" "s_answer s' = None"
    then show ?thesis using waiting_run[of evs] by (auto intro: more)
  next
    fix s assume s: "d_shown ?st = Some s" "s_request s' = s_request s" "s_config s' = s_config s" "s_answer s' = s_answer s"
    then show ?thesis using snoc.IH[OF s(1)] by (auto intro: more answered_well_more)
  next
    fix s assume s: "d_shown ?st = Some s" "s_request s' = s_request s" "s_config s' = s_config s" "s_answer s' = Some (cancelled s)"
    have "cancelled s \<noteq> Bool True" by (simp add: cancelled_def split: dialog_mode.split)
    then show ?thesis using s more snoc.IH[OF s(1)] answers_fit(2)[of s]
      by (auto simp: answered_well_def known_request_def)
  next
    fix s assume s: "d_shown ?st = Some s" "s_request s' = s_request s" "s_config s' = s_config s" "s_answer s = None"
      "s_answer s' = Some (confirmed s)" "ev = ConfirmClicked"
    then have "consented (evs @ [ev]) (s_request s)" unfolding consented_def by auto
    then show ?thesis using s more snoc.IH[OF s(1)] answers_fit(1)[of s] by (auto simp: answered_well_def known_request_def)
  next
    fix s assume s: "d_shown ?st = Some s" "s_request s' = s_request s" "s_config s' = s_config s"
      "s_answer s' = Some (confirmed s)" "d_mode (s_config s) = PromptMode"
    have "confirmed s \<noteq> Bool True" using s(5) by (simp add: confirmed_def)
    then show ?thesis using s more snoc.IH[OF s(1)] answers_fit(1)[of s] by (auto simp: answered_well_def known_request_def)
  qed
qed (simp add: dialogs_run_def new_dialogs_def)

lemma outcomes_run: "(n, Resolved x) \<in> set (d_outcomes (dialogs_run evs)) \<Longrightarrow> answered_well evs n x"
proof (induction evs rule: rev_induct)
  case (snoc ev evs)
  have "answered_well evs n x"
    using outcomes_after[of ev "dialogs_run evs"] snoc shown_run[of evs] by (auto simp: dialogs_run_snoc)
  then show ?case by (rule answered_well_more)
qed (simp add: dialogs_run_def new_dialogs_def)

lemma outcomes_numbered: "map fst (d_outcomes (dialogs_run evs)) = [0..<length (d_outcomes (dialogs_run evs))]"
proof -
  let ?os = "d_outcomes (dialogs_run evs)" and ?n = "length (asked evs)"
  have all: "map fst ?os @ (shown_numbers (dialogs_run evs) @ map fst (d_waiting (dialogs_run evs))) = [0..<?n]"
    using numbers_run[of evs] by (simp add: request_numbers_def)
  then have "map fst ?os = take (length ?os) [0..<?n]" by (metis append_eq_conv_conj length_map)
  moreover have "length ?os \<le> ?n" using arg_cong[OF all, of length] by simp
  ultimately show ?thesis by (simp add: take_upt)
qed

subsection \<open>Properties\<close>

text \<open>
  C20: dialogs are answered in turn, and consent is never inherited. Whatever requests, clicks, keys and
  transitions come in whatever order, the requests are settled in the order in which they were made, each
  once, with an answer of the kind they asked for; and a confirmation is answered with true only by a
  click on its button while its own dialog is shown and not yet answered.
\<close>
theorem dialogs_answer_in_turn:
  assumes "st = dialogs_run evs"
  shows "map fst (d_outcomes st) = [0..<length (d_outcomes st)] \<and> length (d_outcomes st) \<le> length (asked evs) \<and>
    (\<forall>n x. (n, Resolved x) \<in> set (d_outcomes st) \<longrightarrow> answer_fits (asked evs ! n) x \<and>
       (x = Bool True \<longrightarrow> (\<exists>evs1 evs2 s. evs = evs1 @ ConfirmClicked # evs2 \<and>
          d_shown (dialogs_run evs1) = Some s \<and> s_request s = n \<and> s_answer s = None)))"
proof -
  have "length (d_outcomes st) \<le> length (asked evs)"
    using arg_cong[OF numbers_run[of evs, THEN conjunct1], of length] by (simp add: assms request_numbers_def)
  then show ?thesis
    using outcomes_numbered[of evs] outcomes_run[of _ _ evs] by (auto simp: assms answered_well_def consented_def)
qed

definition sample_question :: dialog_config where
  "sample_question = showConfirm (\<lambda>_. Undefined) (Str (js ''Delete?'')) (Obj [])"

theorem dialogs_answer_in_turn_witness:
  "let evs = [Ask sample_question, Ask sample_question, Turn True, ConfirmClicked, ConfirmClicked, Hidden, Turn True, CancelClicked, Hidden];
       st = dialogs_run evs
   in map snd (d_outcomes st) = [Resolved (Bool True), Resolved (Bool False)] \<and> map fst (d_outcomes st) = [0, 1]"
proof -
  let ?evs = "[Ask sample_question, Ask sample_question, Turn True, ConfirmClicked, ConfirmClicked, Hidden, Turn True, CancelClicked, Hidden]"
  have "map snd (d_outcomes (dialogs_run ?evs)) = [Resolved (Bool True), Resolved (Bool False)]"
    by (simp add: dialogs_run_def dialog_ops new_dialogs_def confirmed_def cancelled_def sample_question_def showConfirm_def Let_def)
  moreover from this have "length (d_outcomes (dialogs_run ?evs)) = 2" using arg_cong[of _ _ length] by force
  ultimately show ?thesis using dialogs_answer_in_turn[OF refl, of ?evs] by (simp add: upt_rec)
qed

lemma one_more_answered:
  fixes st :: dialogs
  defines "st' \<equiv> fold dialogs_step [Turn True, CancelClicked, Hidden] st"
  assumes "length (shown_numbers st @ map fst (d_waiting st)) = Suc k"
  shows "length (shown_numbers st' @ map fst (d_waiting st')) = k"
  using assms by (auto simp: dialog_ops shown_numbers_def split: option.splits list.splits)

text \<open>
  No request waits for ever. While the page has the element, whatever has happened before, it is
  enough that each dialog that comes up is cancelled and its transition ends, as often as there are
  requests outstanding, for every request made to be settled.
\<close>
theorem dialogs_all_answered:
  fixes evs :: "dialog_event list"
  defines "k \<equiv> length (asked evs) - length (d_outcomes (dialogs_run evs))"
  shows "map fst (d_outcomes (dialogs_run (evs @ concat (replicate k [Turn True, CancelClicked, Hidden])))) = [0..<length (asked evs)]"
proof -
  let ?out = "\<lambda>st. length (shown_numbers st @ map fst (d_waiting st))" and ?round = "[Turn True, CancelClicked, Hidden]"
  have rounds: "?out st = n \<Longrightarrow> ?out (fold dialogs_step (concat (replicate n ?round)) st) = 0" for n st
  proof (induction n arbitrary: st)
    case (Suc n)
    have "?out (fold dialogs_step ?round st) = n" by (rule one_more_answered[OF Suc.prems])
    from Suc.IH[OF this] show ?case by simp
  qed simp
  let ?all = "evs @ concat (replicate k ?round)"
  have "?out (dialogs_run evs) = k"
    using arg_cong[OF numbers_run[of evs, THEN conjunct1], of length] by (simp add: k_def request_numbers_def)
  from rounds[OF this] have "?out (dialogs_run ?all) = 0" unfolding dialogs_run_def fold_append comp_def .
  moreover have "asked ?all = asked evs"
  proof -
    have "asked (concat (replicate n ?round)) = []" for n by (induction n) (simp_all add: asked_def)
    then show ?thesis by (simp add: asked_def)
  qed
  ultimately show ?thesis using numbers_run[of ?all] by (simp add: request_numbers_def)
qed

end
