(* ===== verification/RepeaterFields.thy ===== *)
theory RepeaterFields
  imports NodeDirectory MessageCache
begin

section \<open>The forms of a remote repeater (modules/repeater.js)\<close>

text \<open>
  The administration panel shows what is known of a repeater in three forms and sends what the
  user has edited. Fields that the user has edited are drafts: they are not overwritten by
  observations, and their version counts the edits, so that a confirmation of an older text can be
  told from one of the text that is shown. Elements are plain text fields and check boxes here; that a
  browser refuses a text in a number field is left out.
\<close>

datatype field_value = Txt jstr | Chk bool

datatype field_write = SetValue jsval | SetChecked bool

record remote_form =
  fieldValues :: "string \<Rightarrow> field_value"
  dirtyFields :: "string list"
  fieldEditVersions :: "(string \<times> nat) list"
  focusedField :: "string option"
  remoteRadioPreferences :: props

definition version_of :: "string \<Rightarrow> remote_form \<Rightarrow> nat" where
  "version_of k f = (case map_of (fieldEditVersions f) k of Some n \<Rightarrow> n | None \<Rightarrow> 0)"

definition markDirty :: "string \<Rightarrow> remote_form \<Rightarrow> remote_form" where
  "markDirty k f =
     f\<lparr>dirtyFields := (if k \<in> set (dirtyFields f) then dirtyFields f else dirtyFields f @ [k]),
       fieldEditVersions := assoc_put k (version_of k f + 1) (fieldEditVersions f)\<rparr>"

definition edit_field :: "string \<Rightarrow> field_value \<Rightarrow> remote_form \<Rightarrow> remote_form" where
  "edit_field k x f = markDirty k (f\<lparr>fieldValues := (fieldValues f)(k := x)\<rparr>)"

definition REGION_FREQUENCIES :: "(string \<times> string) list" where
  "REGION_FREQUENCIES =
     [(''US915'', ''915.000''), (''EU868'', ''868.000''), (''AU915'', ''915.000''), (''AS923'', ''923.000''),
      (''IN865'', ''865.000''), (''RU864'', ''864.000'')]"

definition choose_region :: "string \<Rightarrow> remote_form \<Rightarrow> remote_form" where
  "choose_region reg f =
     (let f1 = edit_field ''radioRegion'' (Txt (js reg)) f in
      case map_of REGION_FREQUENCIES reg of
        Some mhz \<Rightarrow> markDirty ''radioFreq'' (f1\<lparr>fieldValues := (fieldValues f1)(''radioFreq'' := Txt (js mhz))\<rparr>)
      | None \<Rightarrow> f1)"

text \<open>\<open>_setFieldIfNotDirty\<close>; the field in use is spared too, unless its text has just been confirmed.\<close>

definition setFieldIfNotDirty :: "string list \<Rightarrow> string \<times> field_write \<Rightarrow> remote_form \<Rightarrow> remote_form" where
  "setFieldIfNotDirty confirmed w f =
     (let (k, x) = w in
      if k \<in> set (dirtyFields f) \<or> focusedField f = Some k \<and> k \<notin> set confirmed then f
      else case x of
        SetChecked b \<Rightarrow> f\<lparr>fieldValues := (fieldValues f)(k := Chk b)\<rparr>
      | SetValue v \<Rightarrow> if is_nullish v then f else f\<lparr>fieldValues := (fieldValues f)(k := Txt (to_string v))\<rparr>)"

subsection \<open>Reading a node\<close>

fun first_some :: "('a \<Rightarrow> 'b option) \<Rightarrow> 'a list \<Rightarrow> 'b option" where
  "first_some f [] = None"
| "first_some f (x # xs) = (case f x of Some y \<Rightarrow> Some y | None \<Rightarrow> first_some f xs)"

text \<open>\<open>parseFloat\<close>: the longest prefix that is a decimal numeral.\<close>

definition parse_float :: "jsval \<Rightarrow> jnum" where
  "parse_float v =
     (let s = trim_start (to_string v); neg = (s \<noteq> [] \<and> hd s = 0x2D);
          u = (if s \<noteq> [] \<and> (hd s = 0x2D \<or> hd s = 0x2B) then tl s else s)
      in if startsWith u (js ''Infinity'') then (if neg then NegInf else PosInf)
         else case first_some (\<lambda>n. unsigned_decimal (take n u)) (rev [0..<length u + 1]) of
           None \<Rightarrow> NaN
         | Some q \<Rightarrow> Fin (if neg then - q else q))"

definition fixed_str :: "nat \<Rightarrow> jnum \<Rightarrow> jstr" where
  "fixed_str d n = (case n of Fin q \<Rightarrow> to_fixed d q | _ \<Rightarrow> num_str n)"

text \<open>The first alternative that is neither undefined nor null.\<close>

definition known_of :: "jsval \<Rightarrow> string list \<Rightarrow> jsval \<Rightarrow> jsval" where
  "known_of node ks d = foldr (\<lambda>k v. if is_nullish (getp node (js k)) then v else getp node (js k)) ks d"

definition region_of :: "jnum \<Rightarrow> string option" where
  "region_of f =
     (let between = (\<lambda>a b. jle (Fin a) f \<and> jle f (Fin b)); below = (\<lambda>a b. jle (Fin a) f \<and> jlt f (Fin b)) in
      if below 863 865 then Some ''RU864'' else if below 865 867 then Some ''IN865'' else if between 867 870 then Some ''EU868''
      else if between 920 925 then Some ''AS923'' else if between 902 928 then Some ''US915'' else None)"

definition extractNum :: "jsval list \<Rightarrow> jnum option" where
  "extractNum vs =
     first_some (\<lambda>v. if is_nullish v \<or> v = Str [] \<or> parse_float v = NaN then None else Some (parse_float v)) vs"

definition radio_writes :: "jsval \<Rightarrow> (string \<times> field_write) list" where
  "radio_writes node =
     (let freq = known_of node [''frequency''] (getp node (js ''freq'')); f = parse_float freq;
          power = nullish (getp node (js ''tx_power'')) (getp node (js ''power''));
          sf = known_of node [''spreading_factor''] (getp node (js ''sf''));
          bw = known_of node [''bandwidth''] (getp node (js ''bw'')); raw = parse_float bw;
          mhz = (if jlt (Fin 1000) raw then num_map (\<lambda>q. q / 1000) raw else raw);
          cr = known_of node [''coding_rate''] (getp node (js ''cr'')); cr0 = trim (to_string cr);
          cr1 = (if cr0 \<in> set (map js [''5'', ''6'', ''7'', ''8'']) then js ''4/'' @ cr0 else cr0);
          beacon = known_of node [''advert_interval''] (getp node (js ''beacon_interval''));
          hops = known_of node [''hop_limit'', ''default_hop_limit'', ''hopLimit''] (Str (js ''--''));
          on = known_of node [''repeat_enabled''] (getp node (js ''repeat''))
      in (if is_nullish freq then [] else [(''radioFreq'', SetValue (Str (if f = NaN then to_string freq else fixed_str 3 f)))]) @
         (if truthy (getp node (js ''region'')) then [(''radioRegion'', SetValue (getp node (js ''region'')))]
          else if is_nullish freq then []
          else case region_of f of Some r \<Rightarrow> [(''radioRegion'', SetValue (Str (js r)))] | None \<Rightarrow> []) @
         [(''radioPower'', SetValue (if \<not> is_nullish power \<and> is_integer (Num (to_number power)) then Num (to_number power) else Str [])),
          (''radioHopLimit'', SetValue hops)] @
         (if is_nullish beacon then [] else [(''radioBeaconInterval'', SetValue beacon)]) @
         (if is_nullish sf then [] else [(''radioSf'', SetValue (Str (trim (replace_first (js ''SF'') [] (toUpperCase (to_string sf))))))]) @
         (if is_nullish bw then []
          else [(''radioBw'', SetValue (Str (case find (\<lambda>o1. parse_float (Str (js o1)) = mhz)
                   [''7.8'', ''10.4'', ''15.6'', ''20.8'', ''31.25'', ''41.7'', ''62.5'', ''125'', ''250'', ''500''] of
                     Some o1 \<Rightarrow> js o1 | None \<Rightarrow> num_str mhz)))]) @
         (if \<not> is_nullish cr \<and> cr1 \<in> set (map js [''4/5'', ''4/6'', ''4/7'', ''4/8'']) then [(''radioCr'', SetValue (Str cr1))] else []) @
         (if is_nullish on then [] else [(''radioRepeatMode'', SetChecked (truthy on))]))"

definition owner_writes :: "jsval \<Rightarrow> (string \<times> field_write) list" where
  "owner_writes node =
     (let p = (\<lambda>k. getp node (js k)); gps = p ''gps''; pos = p ''position'';
          number = (\<lambda>k vs. case extractNum vs of Some n \<Rightarrow> [(k, SetValue (Num n))] | None \<Rightarrow> [])
      in (if is_nullish (p ''owner_name'') \<and> is_nullish (p ''name'') then []
          else [(''repOwnerName'', SetValue (nullish (p ''owner_name'') (p ''name'')))]) @
         (if is_nullish (p ''owner_info'') then [] else [(''repOwnerInfo'', SetValue (p ''owner_info''))]) @
         number ''repPosLat'' [p ''latitude'', p ''lat'', p ''gps_lat'', getp gps (js ''latitude''), getp pos (js ''latitude'')] @
         number ''repPosLon'' [p ''longitude'', p ''lon'', p ''gps_lon'', getp gps (js ''longitude''), getp pos (js ''longitude'')] @
         number ''repPosAlt'' [p ''altitude_m'', p ''alt'', p ''altitude'', getp gps (js ''altitude'')] @
         [(''repPosFixed'', SetChecked
            (if \<not> is_nullish (p ''fixed_position'') then truthy (p ''fixed_position'')
             else if \<not> is_nullish (p ''fixed'') then truthy (p ''fixed'')
             else \<not> is_nullish (p ''latitude'') \<and> p ''latitude'' \<noteq> Num (Fin 0)))] @
         (if truthy (p ''acl_mode'') then [(''secAclMode'', SetValue (p ''acl_mode''))] else []))"

definition saved_writes :: "props \<Rightarrow> (string \<times> field_write) list" where
  "saved_writes saved =
     concat (map (\<lambda>(k, i). let v = fld saved k in
         if is_nullish v then []
         else [(i, SetValue (if k = ''coding_rate'' \<and> to_number v \<in> Fin ` {5, 6, 7, 8} then Str (js ''4/'' @ to_string v) else v))])
       [(''frequency'', ''radioFreq''), (''bandwidth'', ''radioBw''), (''spreading_factor'', ''radioSf''), (''coding_rate'', ''radioCr'')])"

definition populateRemoteSavedRadio :: "string list \<Rightarrow> jsval \<Rightarrow> remote_form \<Rightarrow> remote_form" where
  "populateRemoteSavedRadio confirmed saved f =
     (case saved of
        Obj ps \<Rightarrow> fold (setFieldIfNotDirty confirmed) (saved_writes ps)
                    (f\<lparr>remoteRadioPreferences := spread (remoteRadioPreferences f) ps\<rparr>)
      | _ \<Rightarrow> f)"

definition populateRepeaterModalData :: "string list \<Rightarrow> jsval \<Rightarrow> remote_form \<Rightarrow> remote_form" where
  "populateRepeaterModalData confirmed node f =
     (let f1 = fold (setFieldIfNotDirty confirmed) (radio_writes node @ owner_writes node) f
      in if remoteRadioPreferences f1 = [] then f1
         else populateRemoteSavedRadio confirmed (Obj (remoteRadioPreferences f1)) f1)"

subsection \<open>The draft that is sent\<close>

datatype config_kind = RadioConfig | OwnerPosConfig | SecurityConfig

datatype conversion = AsNumber | AsText | AsTrimmed | AsFlag

definition config_fields :: "config_kind \<Rightarrow> (string \<times> string \<times> conversion) list" where
  "config_fields kind =
     (case kind of
        RadioConfig \<Rightarrow>
          [(''radioFreq'', ''frequency'', AsNumber), (''radioPower'', ''tx_power'', AsNumber),
           (''radioSf'', ''spreading_factor'', AsNumber), (''radioBw'', ''bandwidth'', AsNumber),
           (''radioCr'', ''coding_rate'', AsText), (''radioRepeatMode'', ''repeat'', AsFlag),
           (''radioBeaconInterval'', ''advert_interval'', AsNumber), (''radioHopLimit'', ''hop_limit'', AsNumber)]
      | OwnerPosConfig \<Rightarrow>
          [(''repOwnerName'', ''name'', AsTrimmed), (''repOwnerInfo'', ''owner_info'', AsText),
           (''repPosLat'', ''latitude'', AsNumber), (''repPosLon'', ''longitude'', AsNumber),
           (''repPosAlt'', ''altitude'', AsNumber), (''repPosFixed'', ''fixed_position'', AsFlag)]
      | SecurityConfig \<Rightarrow>
          [(''secNewAdminPwd'', ''new_password'', AsText), (''secNewGuestPwd'', ''guest_password'', AsText),
           (''secAclMode'', ''acl_mode'', AsText), (''secIdentityKey'', ''identity_key'', AsText)])"

definition raw_value :: "field_value \<Rightarrow> jsval" where
  "raw_value x = (case x of Txt s \<Rightarrow> Str s | Chk b \<Rightarrow> Bool b)"

definition numeric :: "jsval \<Rightarrow> jnum" where
  "numeric raw = (if trim (to_string raw) = [] then NaN else to_number raw)"

definition convert_field :: "conversion \<Rightarrow> jsval \<Rightarrow> jsval" where
  "convert_field c raw =
     (case c of AsNumber \<Rightarrow> Num (numeric raw) | AsText \<Rightarrow> Str (to_string raw) | AsTrimmed \<Rightarrow> Str (trim (to_string raw))
      | AsFlag \<Rightarrow> Bool (truthy raw))"

definition sound_number :: "jsval \<Rightarrow> bool" where
  "sound_number v \<longleftrightarrow> (case v of Num n \<Rightarrow> finite_num n | _ \<Rightarrow> True)"

definition sound_interval :: "jsval \<Rightarrow> bool" where
  "sound_interval v \<longleftrightarrow> (case v of Num (Fin q) \<Rightarrow> q = 0 \<or> q \<in> \<int> \<and> 60 \<le> q \<and> q \<le> 240 \<and> even \<lfloor>q\<rfloor> | _ \<Rightarrow> True)"

record sent_field =
  sent_key :: string
  sent_raw :: jsval
  sent_version :: nat

type_synonym draft = "props \<times> (string \<times> sent_field) list"

definition draft_field :: "config_kind \<Rightarrow> remote_form \<Rightarrow> string \<times> string \<times> conversion \<Rightarrow> draft \<Rightarrow> draft js_result" where
  "draft_field kind f entry acc =
     (let (i, key, c) = entry; (params, snapshot) = acc; raw = raw_value (fieldValues f i); v = convert_field c raw in
      if i \<notin> set (dirtyFields f) \<or> kind = SecurityConfig \<and> key \<in> {''new_password'', ''guest_password''} \<and> raw = Str [] then Inr acc
      else if \<not> sound_number v then Inl (ErrorMsg (js ''settings.invalid_value''))
      else if key = ''advert_interval'' \<and> \<not> sound_interval v then Inl (ErrorMsg (js ''repeater.advert_minutes_hint''))
      else Inr (set_prop (js key) v params, snapshot @ [(i, \<lparr>sent_key = key, sent_raw = raw, sent_version = version_of i f\<rparr>)]))"

definition baseline_field :: "remote_form \<Rightarrow> string \<times> string \<times> conversion \<Rightarrow> props \<Rightarrow> props js_result" where
  "baseline_field f entry params =
     (let (i, key, c) = entry; raw = raw_value (fieldValues f i); v = convert_field c raw in
      if trim (to_string raw) = [] then Inl (ErrorMsg (js ''repeater.radio_baseline_required''))
      else if \<not> sound_number v then Inl (ErrorMsg (js ''settings.invalid_value''))
      else Inr (set_prop (js key) v params))"

fun foldE :: "('a \<Rightarrow> 'b \<Rightarrow> 'e + 'b) \<Rightarrow> 'a list \<Rightarrow> 'b \<Rightarrow> 'e + 'b" where
  "foldE f [] acc = Inr acc"
| "foldE f (x # xs) acc = bindE (f x acc) (foldE f xs)"

definition radio_keys :: "string list" where
  "radio_keys = [''frequency'', ''bandwidth'', ''spreading_factor'', ''coding_rate'']"

definition collectRemoteDraft :: "config_kind \<Rightarrow> remote_form \<Rightarrow> draft js_result" where
  "collectRemoteDraft kind f =
     bindE (foldE (draft_field kind f) (config_fields kind) ([], [])) (\<lambda>(params, snapshot).
       if kind = RadioConfig \<and> list_ex (\<lambda>k. js k \<in> fst ` set params) radio_keys
       then bindE (foldE (baseline_field f) (filter (\<lambda>(i, key, c). key \<noteq> ''tx_power'') (take 5 (config_fields RadioConfig))) params)
              (\<lambda>params'. Inr (params', snapshot))
       else Inr (params, snapshot))"

subsection \<open>What the repeater has confirmed\<close>

definition aliases :: "string \<Rightarrow> string list" where
  "aliases key = (case map_of
      [(''frequency'', [''frequency'', ''freq'']), (''bandwidth'', [''bandwidth'', ''bw'']),
       (''spreading_factor'', [''spreading_factor'', ''sf'']), (''coding_rate'', [''coding_rate'', ''cr'']),
       (''repeat'', [''repeat'', ''repeat_enabled'']), (''name'', [''name'', ''owner_name'']),
       (''latitude'', [''latitude'', ''lat'']), (''longitude'', [''longitude'', ''lon'']),
       (''advert_interval'', [''advert_interval'', ''beacon_interval'']),
       (''new_password'', [''new_password'', ''admin_password'', ''password''])] key of Some xs \<Rightarrow> xs | None \<Rightarrow> [key])"

definition remoteAppliedKey :: "jsval \<Rightarrow> string \<Rightarrow> string option" where
  "remoteAppliedKey applied key = find (\<lambda>k. \<not> is_nullish (getp applied (js k))) (aliases key)"

text \<open>A field is confirmed when what it shows is what was sent, without an edit since.\<close>

definition confirmed_field :: "jsval \<Rightarrow> remote_form \<Rightarrow> string \<times> sent_field \<Rightarrow> bool" where
  "confirmed_field applied f entry \<longleftrightarrow>
     (let (i, s) = entry in remoteAppliedKey applied (sent_key s) \<noteq> None \<and>
        raw_value (fieldValues f i) = sent_raw s \<and> version_of i f = sent_version s)"

definition commit_field :: "jsval \<Rightarrow> string \<times> sent_field \<Rightarrow> remote_form \<times> string list \<Rightarrow> remote_form \<times> string list" where
  "commit_field applied entry acc =
     (let (f, confirmed) = acc; i = fst entry in
      if \<not> confirmed_field applied f entry then acc
      else (f\<lparr>dirtyFields := filter (\<lambda>k. k \<noteq> i) (dirtyFields f),
              fieldValues := (if i \<in> {''secNewAdminPwd'', ''secNewGuestPwd''} then (fieldValues f)(i := Txt []) else fieldValues f)\<rparr>,
            confirmed @ [i]))"

definition commit_form :: "jsval \<Rightarrow> (string \<times> sent_field) list \<Rightarrow> jsval \<Rightarrow> remote_form \<Rightarrow> remote_form" where
  "commit_form applied snapshot node f =
     (let (f1, confirmed) = fold (commit_field applied) snapshot (f, []) in populateRepeaterModalData confirmed node f1)"

text \<open>The node as it is known after the confirmation.\<close>

definition observed_keys :: "string list" where
  "observed_keys = [''frequency'', ''tx_power'', ''bandwidth'', ''spreading_factor'', ''coding_rate'', ''repeat'', ''name'',
     ''owner_info'', ''latitude'', ''longitude'', ''advert_interval'']"

definition confirmed_node :: "jsval \<Rightarrow> props \<Rightarrow> props" where
  "confirmed_node applied existing =
     (let n1 = fold (\<lambda>key n. case remoteAppliedKey applied key of
                 Some k \<Rightarrow> set_prop (js key) (getp applied (js k)) n | None \<Rightarrow> n) observed_keys existing;
          n2 = (if js ''name'' \<in> fst ` set n1
                then set_prop (js ''owner_name'') (fld n1 ''name'') (set_prop (js ''alias'') (fld n1 ''name'') n1) else n1)
      in if js ''repeat'' \<in> fst ` set n2 then set_prop (js ''repeat_enabled'') (fld n2 ''repeat'') n2 else n2)"

lemma inj_js: "inj js"
proof -
  have "inj (of_char :: char \<Rightarrow> 16 word)"
  proof (rule injI)
    fix c d :: char
    assume "(of_char c :: 16 word) = of_char d"
    then have "unat (of_nat (of_char c) :: 16 word) = unat (of_nat (of_char d) :: 16 word)" by (simp only: of_nat_of_char)
    then have "(of_char c :: nat) = of_char d"
      using nat_of_char_less_256[of c] nat_of_char_less_256[of d] by (simp add: unat_of_nat take_bit_nat_eq_self)
    then show "c = d" by simp
  qed
  from inj_mapI[OF this] show ?thesis by (simp add: js_def[abs_def])
qed

subsection \<open>Drafts are spared\<close>

lemma set_field_frame [simp]:
  "dirtyFields (setFieldIfNotDirty c w f) = dirtyFields f" "fieldEditVersions (setFieldIfNotDirty c w f) = fieldEditVersions f"
  "k \<in> set (dirtyFields f) \<Longrightarrow> fieldValues (setFieldIfNotDirty c w f) k = fieldValues f k"
  by (auto simp: setFieldIfNotDirty_def Let_def split: prod.split field_write.split)

lemma set_fields_frame [simp]:
  "dirtyFields (fold (setFieldIfNotDirty c) ws f) = dirtyFields f"
  "fieldEditVersions (fold (setFieldIfNotDirty c) ws f) = fieldEditVersions f"
  "k \<in> set (dirtyFields f) \<Longrightarrow> fieldValues (fold (setFieldIfNotDirty c) ws f) k = fieldValues f k"
  by (induction ws arbitrary: f) simp_all

lemma saved_frame [simp]:
  "dirtyFields (populateRemoteSavedRadio c saved f) = dirtyFields f"
  "fieldEditVersions (populateRemoteSavedRadio c saved f) = fieldEditVersions f"
  "k \<in> set (dirtyFields f) \<Longrightarrow> fieldValues (populateRemoteSavedRadio c saved f) k = fieldValues f k"
  by (simp_all add: populateRemoteSavedRadio_def split: jsval.split)

lemma populate_frame [simp]:
  "dirtyFields (populateRepeaterModalData c node f) = dirtyFields f"
  "fieldEditVersions (populateRepeaterModalData c node f) = fieldEditVersions f"
  "k \<in> set (dirtyFields f) \<Longrightarrow> fieldValues (populateRepeaterModalData c node f) k = fieldValues f k"
  by (simp_all add: populateRepeaterModalData_def Let_def)

lemma commit_other:
  assumes "i \<noteq> fst entry"
  shows "fieldValues (fst (commit_field applied entry (f, c))) i = fieldValues f i"
    "i \<in> set (dirtyFields (fst (commit_field applied entry (f, c)))) \<longleftrightarrow> i \<in> set (dirtyFields f)"
    "version_of i (fst (commit_field applied entry (f, c))) = version_of i f"
  using assms by (auto simp: commit_field_def version_of_def Let_def)

lemma commit_fields:
  assumes "distinct (map fst snapshot)"
  shows "set (dirtyFields (fst (fold (commit_field applied) snapshot (f, c)))) =
      {i \<in> set (dirtyFields f). \<forall>s. (i, s) \<in> set snapshot \<longrightarrow> \<not> confirmed_field applied f (i, s)} \<and>
    (\<forall>i \<in> set (dirtyFields (fst (fold (commit_field applied) snapshot (f, c)))).
       fieldValues (fst (fold (commit_field applied) snapshot (f, c))) i = fieldValues f i) \<and>
    fieldEditVersions (fst (fold (commit_field applied) snapshot (f, c))) = fieldEditVersions f"
  using assms
proof (induction snapshot arbitrary: f c)
  case (Cons entry snapshot)
  obtain i s where e: "entry = (i, s)" by (cases entry)
  obtain f1 c1 where f1: "commit_field applied entry (f, c) = (f1, c1)" by (cases "commit_field applied entry (f, c)")
  have other: "fieldValues f1 j = fieldValues f j" "j \<in> set (dirtyFields f1) \<longleftrightarrow> j \<in> set (dirtyFields f)" "version_of j f1 = version_of j f"
    if "j \<noteq> i" for j using commit_other[of j entry applied f c] that f1 e by simp_all
  have own: "i \<in> set (dirtyFields f1) \<longleftrightarrow> i \<in> set (dirtyFields f) \<and> \<not> confirmed_field applied f entry"
    "\<not> confirmed_field applied f entry \<Longrightarrow> fieldValues f1 i = fieldValues f i" "fieldEditVersions f1 = fieldEditVersions f"
    using f1 by (auto simp: commit_field_def e Let_def split: if_splits)
  have same: "confirmed_field applied f1 (j, t) = confirmed_field applied f (j, t)" if "(j, t) \<in> set snapshot" for j t
  proof -
    have "j \<noteq> i" using that Cons.prems e by force
    then show ?thesis using other[of j] by (simp add: confirmed_field_def)
  qed
  have fresh: "(i, t) \<notin> set snapshot" for t using Cons.prems e by force
  let ?F = "fst (fold (commit_field applied) snapshot (f1, c1))"
  have IH: "set (dirtyFields ?F) = {j \<in> set (dirtyFields f1). \<forall>t. (j, t) \<in> set snapshot \<longrightarrow> \<not> confirmed_field applied f1 (j, t)}"
    "\<forall>j \<in> set (dirtyFields ?F). fieldValues ?F j = fieldValues f1 j" "fieldEditVersions ?F = fieldEditVersions f1"
    using Cons.IH[of f1 c1] Cons.prems by auto
  have "j \<in> set (dirtyFields ?F) \<longleftrightarrow> j \<in> set (dirtyFields f) \<and> (\<forall>t. (j, t) \<in> set (entry # snapshot) \<longrightarrow> \<not> confirmed_field applied f (j, t))" for j
    using IH(1) same other(2)[of j] own(1) fresh by (cases "j = i") (auto simp: e)
  moreover have "fieldValues ?F j = fieldValues f j" if "j \<in> set (dirtyFields ?F)" for j
    using that IH(1,2) other(1)[of j] own(1,2) by (cases "j = i") auto
  ultimately show ?case using IH(3) own(3) by (auto simp: f1)
qed simp

text \<open>
  C17: a confirmation settles what was sent and nothing else. After the answer to a save, exactly those
  drafts are settled whose keys the repeater has applied and which still show, unedited since, what was
  sent; every other draft is kept with the text that the user has typed, whatever the node reports.
\<close>
theorem confirmation_settles_what_was_sent:
  assumes "distinct (map fst snapshot)" "f' = commit_form applied snapshot node f"
  shows "set (dirtyFields f') = {i \<in> set (dirtyFields f). \<forall>s. (i, s) \<in> set snapshot \<longrightarrow>
       remoteAppliedKey applied (sent_key s) = None \<or> raw_value (fieldValues f i) \<noteq> sent_raw s \<or> version_of i f \<noteq> sent_version s} \<and>
    (\<forall>i \<in> set (dirtyFields f'). fieldValues f' i = fieldValues f i \<and> version_of i f' = version_of i f)"
proof -
  obtain f1 c where f1: "fold (commit_field applied) snapshot (f, []) = (f1, c)" by (cases "fold (commit_field applied) snapshot (f, [])")
  have f': "f' = populateRepeaterModalData c node f1" by (simp add: assms(2) commit_form_def f1)
  show ?thesis using commit_fields[OF assms(1), of applied f "[]"] unfolding f1
    by (auto simp: f' confirmed_field_def version_of_def)
qed

subsection \<open>Drafts are sent\<close>

definition wanted :: "config_kind \<Rightarrow> remote_form \<Rightarrow> string \<times> string \<times> conversion \<Rightarrow> bool" where
  "wanted kind f entry \<longleftrightarrow> (let (i, key, c) = entry in i \<in> set (dirtyFields f) \<and>
     \<not> (kind = SecurityConfig \<and> key \<in> {''new_password'', ''guest_password''} \<and> fieldValues f i = Txt []))"

definition sent_entry :: "remote_form \<Rightarrow> string \<times> string \<times> conversion \<Rightarrow> string \<times> sent_field" where
  "sent_entry f entry = (let (i, key, c) = entry in
     (i, \<lparr>sent_key = key, sent_raw = raw_value (fieldValues f i), sent_version = version_of i f\<rparr>))"

definition sound_entry :: "remote_form \<Rightarrow> string \<times> string \<times> conversion \<Rightarrow> bool" where
  "sound_entry f entry \<longleftrightarrow> (let (i, key, c) = entry; v = convert_field c (raw_value (fieldValues f i)) in
     sound_number v \<and> (key = ''advert_interval'' \<longrightarrow> sound_interval v))"

lemma raw_blank: "raw_value x = Str [] \<longleftrightarrow> x = Txt []"
  by (cases x) (simp_all add: raw_value_def)

lemma draft_field_cases:
  "draft_field kind f entry (ps, ss) =
     (if \<not> wanted kind f entry then Inr (ps, ss)
      else if \<not> sound_entry f entry then draft_field kind f entry (ps, ss)
      else Inr (set_prop (js (fst (snd entry))) (convert_field (snd (snd entry)) (raw_value (fieldValues f (fst entry)))) ps,
                ss @ [sent_entry f entry]))"
  by (cases entry) (auto simp: draft_field_def wanted_def sound_entry_def sent_entry_def raw_blank Let_def)

lemma draft_field_unsound: "wanted kind f entry \<Longrightarrow> \<not> sound_entry f entry \<Longrightarrow> \<exists>e. draft_field kind f entry acc = Inl e"
  by (cases entry; cases acc) (auto simp: draft_field_def wanted_def sound_entry_def raw_blank Let_def)

lemma draft_fields:
  assumes "foldE (draft_field kind f) es (ps, ss) = Inr (ps', ss')"
  shows "ss' = ss @ map (sent_entry f) (filter (wanted kind f) es) \<and>
    fst ` set ps' = fst ` set ps \<union> (\<lambda>e. js (fst (snd e))) ` set (filter (wanted kind f) es) \<and>
    (\<forall>e \<in> set (filter (wanted kind f) es). sound_entry f e)"
  using assms
proof (induction es arbitrary: ps ss)
  case (Cons e es)
  show ?case
  proof (cases "wanted kind f e")
    case False
    then have "foldE (draft_field kind f) es (ps, ss) = Inr (ps', ss')"
      using Cons.prems draft_field_cases[of kind f e ps ss] by (simp add: bindE_def)
    from Cons.IH[OF this] False show ?thesis by simp
  next
    case True
    then have sound: "sound_entry f e" using Cons.prems draft_field_unsound[OF True, of "(ps, ss)"] by (cases "sound_entry f e") (auto simp: bindE_def)
    then have "foldE (draft_field kind f) es (set_prop (js (fst (snd e))) (convert_field (snd (snd e)) (raw_value (fieldValues f (fst e)))) ps,
        ss @ [sent_entry f e]) = Inr (ps', ss')"
      using Cons.prems draft_field_cases[of kind f e ps ss] True by (simp add: bindE_def)
    from Cons.IH[OF this] True sound show ?thesis by (auto simp: keys_set_prop)
  qed
qed simp

lemma baseline_fields:
  assumes "foldE (baseline_field f) es ps = Inr ps'"
  shows "fst ` set ps' = fst ` set ps \<union> (\<lambda>e. js (fst (snd e))) ` set es \<and>
    (\<forall>(i, key, c) \<in> set es. sound_number (convert_field c (raw_value (fieldValues f i))))"
  using assms
proof (induction es arbitrary: ps)
  case (Cons e es)
  obtain i key c where e: "e = (i, key, c)" by (cases e) auto
  let ?v = "convert_field c (raw_value (fieldValues f i))"
  have b: "sound_number ?v" "foldE (baseline_field f) es (set_prop (js key) ?v ps) = Inr ps'"
    using Cons.prems unfolding foldE.simps e baseline_field_def[of f "(i, key, c)"] by (auto simp: bindE_def Let_def split: if_splits)
  from Cons.IH[OF b(2)] b(1) show ?case by (auto simp: e keys_set_prop)
qed simp

text \<open>
  A save sends the drafts of its form. Of the fields of the form exactly those are remembered as
  sent that the user has edited -- blank passwords apart -- with what they show and the count of their
  edits; the parameters have their keys, and with any of the four radio parameters all four, which
  must stand together; every number is finite and an advert interval is 0 or an even number of
  minutes from 60 to 240.
\<close>
theorem save_sends_drafts:
  assumes "collectRemoteDraft kind f = Inr (params, snapshot)"
  shows "snapshot = map (sent_entry f) (filter (wanted kind f) (config_fields kind)) \<and> distinct (map fst snapshot) \<and>
    fst ` set params = js ` (sent_key ` snd ` set snapshot \<union>
      (if kind = RadioConfig \<and> sent_key ` snd ` set snapshot \<inter> set radio_keys \<noteq> {} then set radio_keys else {})) \<and>
    (\<forall>e \<in> set (filter (wanted kind f) (config_fields kind)). sound_entry f e)"
proof -
  let ?es = "filter (wanted kind f) (config_fields kind)"
  have d: "distinct (map fst (config_fields kind))" by (simp add: config_fields_def split: config_kind.split)
  obtain ps where ps: "foldE (draft_field kind f) (config_fields kind) ([], []) = Inr (ps, snapshot)"
    and rest: "if kind = RadioConfig \<and> list_ex (\<lambda>k. js k \<in> fst ` set ps) radio_keys
      then foldE (baseline_field f) (filter (\<lambda>(i, key, c). key \<noteq> ''tx_power'') (take 5 (config_fields RadioConfig))) ps = Inr params
      else params = ps"
    using assms by (auto simp: collectRemoteDraft_def bindE_eq_Inr split: if_splits)
  have sent: "snapshot = map (sent_entry f) ?es" "fst ` set ps = (\<lambda>e. js (fst (snd e))) ` set ?es" "\<forall>e \<in> set ?es. sound_entry f e"
    using draft_fields[OF ps] by simp_all
  have keys: "(\<lambda>e. js (fst (snd e))) ` set ?es = js ` sent_key ` snd ` set snapshot"
    using sent(1) by (simp add: sent_entry_def image_image case_prod_unfold Let_def)
  have fsts: "map fst snapshot = map fst ?es" using sent by (simp add: sent_entry_def case_prod_unfold Let_def)
  have "distinct (map fst snapshot)" unfolding fsts using d by (simp add: distinct_map_filter)
  moreover have "fst ` set params = js ` (sent_key ` snd ` set snapshot \<union>
      (if kind = RadioConfig \<and> sent_key ` snd ` set snapshot \<inter> set radio_keys \<noteq> {} then set radio_keys else {}))"
  proof -
    have in_ps: "js k \<in> fst ` set ps \<longleftrightarrow> k \<in> sent_key ` snd ` set snapshot" for k
      unfolding sent(2) keys by (rule inj_image_mem_iff[OF inj_js])
    show ?thesis
    proof (cases "kind = RadioConfig \<and> list_ex (\<lambda>k. js k \<in> fst ` set ps) radio_keys")
      case True
      then have "sent_key ` snd ` set snapshot \<inter> set radio_keys \<noteq> {}" using in_ps by (auto simp: list_ex_iff)
      moreover have "(\<lambda>e. js (fst (snd e))) ` set (filter (\<lambda>(i, key, c). key \<noteq> ''tx_power'') (take 5 (config_fields RadioConfig))) = js ` set radio_keys"
        by (simp add: config_fields_def radio_keys_def del: js_simps) blast
      moreover from True rest have "foldE (baseline_field f)
          (filter (\<lambda>(i, key, c). key \<noteq> ''tx_power'') (take 5 (config_fields RadioConfig))) ps = Inr params" by simp
      note baseline_fields[OF this, THEN conjunct1]
      ultimately have "fst ` set params = js ` sent_key ` snd ` set snapshot \<union> js ` set radio_keys"
        unfolding sent(2) keys by (simp only:)
      then show ?thesis using True \<open>sent_key ` snd ` set snapshot \<inter> set radio_keys \<noteq> {}\<close> by (simp only: image_Un simp_thms if_True)
    next
      case False
      then have "\<not> (kind = RadioConfig \<and> sent_key ` snd ` set snapshot \<inter> set radio_keys \<noteq> {})" using in_ps by (auto simp: list_ex_iff)
      moreover from False rest have "params = ps" by (simp split: if_splits)
      ultimately show ?thesis unfolding sent(2)[symmetric] using sent(2) keys by (simp only: if_False Un_empty_right)
    qed
  qed
  ultimately show ?thesis using sent by simp
qed

text \<open>An owner's name is edited and sent; before the answer the user writes a note as well.\<close>

definition sample_form :: remote_form where
  "sample_form = edit_field ''repOwnerName'' (Txt (js ''Hill'')) \<lparr>fieldValues = (\<lambda>_. Txt []), dirtyFields = [],
     fieldEditVersions = [], focusedField = None, remoteRadioPreferences = []\<rparr>"

definition sample_snapshot :: "(string \<times> sent_field) list" where
  "sample_snapshot = [(''repOwnerName'', \<lparr>sent_key = ''name'', sent_raw = Str (js ''Hill''), sent_version = 1\<rparr>)]"

theorem save_sends_drafts_witness:
  "\<exists>params. collectRemoteDraft OwnerPosConfig sample_form = Inr (params, sample_snapshot) \<and>
     fst ` set params = {js ''name''}"
proof -
  have c: "collectRemoteDraft OwnerPosConfig sample_form = Inr ([(js ''name'', Str (js ''Hill''))], sample_snapshot)"
    by code_simp
  show ?thesis using save_sends_drafts[OF c] c by (auto simp: sample_snapshot_def simp del: js_simps)
qed

theorem confirmation_settles_what_was_sent_witness:
  "let f = edit_field ''repOwnerInfo'' (Txt (js ''note'')) sample_form;
       f' = commit_form (Obj [(js ''name'', Str (js ''Hill''))]) sample_snapshot (Obj [(js ''owner_info'', Str (js ''old''))]) f
   in set (dirtyFields f') = {''repOwnerInfo''} \<and> fieldValues f' ''repOwnerInfo'' = Txt (js ''note'')"
proof -
  let ?f = "edit_field ''repOwnerInfo'' (Txt (js ''note'')) sample_form"
  let ?f' = "commit_form (Obj [(js ''name'', Str (js ''Hill''))]) sample_snapshot (Obj [(js ''owner_info'', Str (js ''old''))]) ?f"
  have "remoteAppliedKey (Obj [(js ''name'', Str (js ''Hill''))]) ''name'' = Some ''name''" by code_simp
  moreover have "raw_value (fieldValues ?f ''repOwnerName'') = Str (js ''Hill'')" "version_of ''repOwnerName'' ?f = 1"
    "set (dirtyFields ?f) = {''repOwnerName'', ''repOwnerInfo''}" "fieldValues ?f ''repOwnerInfo'' = Txt (js ''note'')"
    by code_simp+
  moreover have "distinct (map fst sample_snapshot)" by (simp add: sample_snapshot_def)
  note confirmation_settles_what_was_sent[OF this refl, of "Obj [(js ''name'', Str (js ''Hill''))]" "Obj [(js ''owner_info'', Str (js ''old''))]" ?f]
  ultimately show ?thesis unfolding Let_def by (auto simp: sample_snapshot_def simp del: js_simps)
qed

end
