(* ===== verification/RepeaterAdmin.thy ===== *)
theory RepeaterAdmin
  imports RepeaterFields
begin

section \<open>Administration of a remote repeater (modules/repeater.js)\<close>

text \<open>
  The panel in which a repeater is unlocked with its password, observed and configured. An
  asynchronous method is cut at its \<open>fetch\<close>: the first part logs the request and starts a numbered
  task with the values it captured, the second part runs when the answer comes. Terminal lines,
  toasts, pings, the lists of neighbours, owners, regions and permissions, and what a disabled button
  prevents are left out.
\<close>

datatype remote_task =
    LoginTask nat jstr jstr jstr
  | SaveTask config_kind nat jstr props "(string \<times> sent_field) list"
  | TelemetryTask nat nat jstr
  | CommandTask nat nat jstr
  | PreferenceTask nat nat jstr string bool

record remote_request =
  rq_path :: string
  rq_target :: jstr
  rq_password :: jstr
  rq_action :: jstr
  rq_params :: jsval

record repeater_admin =
  form :: remote_form
  selectedTarget :: "jstr option"
  authenticatedRepeaters :: "jstr list"
  repeaterPasswords :: "(jstr \<times> jstr) list"
  modalRevision :: nat
  observationRevision :: nat
  saving_kinds :: "config_kind list"
  unlocked :: bool
  gatePassword :: jstr
  commandBusy :: bool
  cooldowns :: "(jstr \<times> int) list"
  registry :: nodes
  prefsEpoch :: nat
  prefs :: "(string \<times> bool) list"
  prefsBusy :: bool
  prefsOutcome :: string
  cadDraft :: bool
  cadValue :: jstr
  sent_requests :: "remote_request list"
  remote_tasks :: "(nat \<times> remote_task) list"
  next_remote :: nat

definition canonical_key :: "repeater_admin \<Rightarrow> jsval \<Rightarrow> jstr" where
  "canonical_key st = resolveCanonicalPubkey (registry st)"

definition selected_key :: "repeater_admin \<Rightarrow> jstr" where
  "selected_key st = (case selectedTarget st of Some t \<Rightarrow> canonical_key st (Str t) | None \<Rightarrow> [])"

definition node_props :: "jsval \<Rightarrow> props" where
  "node_props v = (case v of Obj ps \<Rightarrow> ps | _ \<Rightarrow> [])"

definition known_node :: "repeater_admin \<Rightarrow> jstr \<Rightarrow> jsval" where
  "known_node st k = (case map_of (registry st) k of Some n \<Rightarrow> n | None \<Rightarrow> Undefined)"

definition post :: "remote_request \<Rightarrow> remote_task \<Rightarrow> repeater_admin \<Rightarrow> repeater_admin" where
  "post r t st =
     st\<lparr>sent_requests := sent_requests st @ [r], remote_tasks := remote_tasks st @ [(next_remote st, t)],
        next_remote := next_remote st + 1\<rparr>"

subsection \<open>Passwords and the gate\<close>

definition getStoredRepeaterPassword :: "repeater_admin \<Rightarrow> jstr \<Rightarrow> jstr" where
  "getStoredRepeaterPassword st k =
     (if k = [] then [] else case map_of (repeaterPasswords st) (toLowerCase k) of Some p \<Rightarrow> p | None \<Rightarrow> [])"

definition setStoredRepeaterPassword :: "jstr \<Rightarrow> jstr \<Rightarrow> repeater_admin \<Rightarrow> repeater_admin" where
  "setStoredRepeaterPassword k p st =
     (if k = [] \<or> p = [] then st else st\<lparr>repeaterPasswords := assoc_put (toLowerCase k) p (repeaterPasswords st)\<rparr>)"

definition clearStoredRepeaterPassword :: "jstr \<Rightarrow> repeater_admin \<Rightarrow> repeater_admin" where
  "clearStoredRepeaterPassword k st =
     (if k = [] then st
      else st\<lparr>authenticatedRepeaters := filter (\<lambda>a. a \<noteq> toLowerCase k) (authenticatedRepeaters st),
              repeaterPasswords := assoc_del (toLowerCase k) (repeaterPasswords st)\<rparr>)"

definition getRepeaterPassword :: "repeater_admin \<Rightarrow> jstr \<Rightarrow> jstr" where
  "getRepeaterPassword st target =
     (if target = [] then []
      else let p = getStoredRepeaterPassword st (canonical_key st (Str target)); q = getStoredRepeaterPassword st target
           in if p \<noteq> [] then p else if q \<noteq> [] then q else gatePassword st)"

definition clearRemotePreferences :: "repeater_admin \<Rightarrow> repeater_admin" where
  "clearRemotePreferences st =
     st\<lparr>prefsEpoch := prefsEpoch st + 1, prefs := [], prefsBusy := False, prefsOutcome := '''', cadDraft := False, cadValue := []\<rparr>"

definition lockRepeaterAdminView :: "repeater_admin \<Rightarrow> repeater_admin" where
  "lockRepeaterAdminView st = (clearRemotePreferences st)\<lparr>unlocked := False\<rparr>"

definition unlockRepeaterAdminView :: "repeater_admin \<Rightarrow> repeater_admin" where
  "unlockRepeaterAdminView st = st\<lparr>unlocked := True\<rparr>"

definition handleRepeaterAuthError :: "jstr \<Rightarrow> repeater_admin \<Rightarrow> repeater_admin" where
  "handleRepeaterAuthError k st = lockRepeaterAdminView (clearStoredRepeaterPassword k st)"

definition refresh_start :: "jstr \<Rightarrow> jstr \<Rightarrow> repeater_admin \<Rightarrow> repeater_admin" where
  "refresh_start k password st =
     (if k = [] \<or> password = [] then st
      else post \<lparr>rq_path = ''action'', rq_target = k, rq_password = password, rq_action = js ''refresh_telemetry'', rq_params = Undefined\<rparr>
             (TelemetryTask (modalRevision st) (observationRevision st) k) st)"

definition authenticate_start :: "jstr \<Rightarrow> jstr \<Rightarrow> repeater_admin \<Rightarrow> repeater_admin" where
  "authenticate_start pubkey password st =
     (if pubkey = [] \<or> password = [] then handleRepeaterAuthError pubkey st
      else let k = canonical_key st (Str pubkey)
           in post \<lparr>rq_path = ''login'', rq_target = k, rq_password = password, rq_action = [], rq_params = Undefined\<rparr>
                (LoginTask (modalRevision st) pubkey k password) st)"

text \<open>The body of an answer, if it has one; \<open>json()\<close> rejects otherwise.\<close>

definition body_of :: "net \<Rightarrow> jsval option" where
  "body_of reply = (case reply of Rejected _ \<Rightarrow> None | Responded res \<Rightarrow> http_json res)"

definition status_of :: "net \<Rightarrow> nat" where
  "status_of reply = (case reply of Rejected _ \<Rightarrow> 0 | Responded res \<Rightarrow> http_status res)"

definition is_ok :: "net \<Rightarrow> jsval \<Rightarrow> bool" where
  "is_ok reply d \<longleftrightarrow> (case reply of Rejected _ \<Rightarrow> False | Responded res \<Rightarrow> response_ok res) \<and> getp d (js ''status'') = Str (js ''ok'')"

definition login_answer :: "nat \<Rightarrow> jstr \<Rightarrow> jstr \<Rightarrow> jstr \<Rightarrow> net \<Rightarrow> repeater_admin \<Rightarrow> repeater_admin" where
  "login_answer mrev pubkey k password reply st =
     (case body_of reply of
        None \<Rightarrow> if mrev \<noteq> modalRevision st then st else handleRepeaterAuthError k st
      | Some d \<Rightarrow>
          if mrev \<noteq> modalRevision st \<or> selected_key st \<noteq> k then st
          else if is_ok reply d \<and> getp (getp d (js ''data'')) (js ''authenticated'') = Bool True
          then refresh_start k password (unlockRepeaterAdminView (setStoredRepeaterPassword k password
                 (st\<lparr>authenticatedRepeaters := add_match (add_match (authenticatedRepeaters st) k) pubkey\<rparr>)))
          else handleRepeaterAuthError k st)"

definition gate_submit :: "repeater_admin \<Rightarrow> repeater_admin" where
  "gate_submit st =
     (case selectedTarget st of
        Some t \<Rightarrow> if t = [] then st else authenticate_start t (gatePassword st) st
      | None \<Rightarrow> st)"

definition logout :: "repeater_admin \<Rightarrow> repeater_admin" where
  "logout st =
     (case selectedTarget st of
        Some t \<Rightarrow>
          if t = [] then st
          else (lockRepeaterAdminView (clearStoredRepeaterPassword t st))
                 \<lparr>gatePassword := [], sent_requests := sent_requests st @
                    [\<lparr>rq_path = ''logout'', rq_target = t, rq_password = [], rq_action = [], rq_params = Undefined\<rparr>]\<rparr>
      | None \<Rightarrow> st)"

subsection \<open>Opening and closing\<close>

definition blank_values :: "(string \<Rightarrow> field_value) \<Rightarrow> string \<Rightarrow> field_value" where
  "blank_values old k =
     (if k = ''radioRegion'' then Txt (js ''US915'') else if k = ''secAclMode'' then Txt (js ''public'')
      else if k \<in> {''radioRepeatMode'', ''repPosFixed''} then Chk False
      else if k \<in> {''radioFreq'', ''radioPower'', ''radioHopLimit'', ''radioBeaconInterval'', ''radioSf'', ''radioBw'', ''radioCr'',
                    ''repOwnerName'', ''repOwnerInfo'', ''repPosLat'', ''repPosLon'', ''repPosAlt'',
                    ''secNewAdminPwd'', ''secNewGuestPwd'', ''secIdentityKey''} then Txt []
      else old k)"

definition resetModalInputs :: "repeater_admin \<Rightarrow> repeater_admin" where
  "resetModalInputs st =
     (let st1 = clearRemotePreferences st; f = form st1 in
      st1\<lparr>modalRevision := modalRevision st1 + 1, observationRevision := observationRevision st1 + 1, saving_kinds := [],
          form := f\<lparr>dirtyFields := [], fieldEditVersions := [], remoteRadioPreferences := [],
                    fieldValues := blank_values (fieldValues f)\<rparr>\<rparr>)"

definition not_administrable :: "jstr \<Rightarrow> jstr \<Rightarrow> jsval \<Rightarrow> bool" where
  "not_administrable localKey k node \<longleftrightarrow>
     (let role = toUpperCase (to_string (js_or (getp node (js ''role'')) (js_or (getp node (js ''advert_type'')) (Str [])))) in
      role \<in> set (map js [''LOCAL'', ''CLIENT'', ''SENSOR'']) \<or> getp node (js ''advert_type'') \<in> Num ` Fin ` {0, 1, 4} \<or> k = localKey)"

definition openRepeaterAdminModal :: "jstr \<Rightarrow> jstr \<Rightarrow> repeater_admin \<Rightarrow> repeater_admin" where
  "openRepeaterAdminModal localKey pubkey st =
     (let k = canonical_key st (Str pubkey); existing = js_or (known_node st k) (known_node st pubkey) in
      if truthy existing \<and> not_administrable localKey k existing then st
      else
        let st1 = (resetModalInputs st)\<lparr>selectedTarget := Some pubkey\<rparr>;
            st2 = st1\<lparr>form := populateRepeaterModalData [] (js_or existing (Obj [])) (form st1)\<rparr>; saved = getStoredRepeaterPassword st2 k
        in if k \<in> set (authenticatedRepeaters st2) \<or> pubkey \<in> set (authenticatedRepeaters st2) then unlockRepeaterAdminView st2
           else if saved \<noteq> [] then authenticate_start k saved ((lockRepeaterAdminView st2)\<lparr>gatePassword := saved\<rparr>)
           else (lockRepeaterAdminView st2)\<lparr>gatePassword := []\<rparr>)"

definition closeRepeaterAdminModal :: "repeater_admin \<Rightarrow> repeater_admin" where
  "closeRepeaterAdminModal st = resetModalInputs (st\<lparr>selectedTarget := None, commandBusy := False\<rparr>)"

subsection \<open>Observations\<close>

definition show_node :: "string list \<Rightarrow> jsval \<Rightarrow> repeater_admin \<Rightarrow> repeater_admin" where
  "show_node confirmed node st = st\<lparr>form := populateRepeaterModalData confirmed node (form st)\<rparr>"

text \<open>A node that has reported values; the panel follows when it is open on that node.\<close>

definition merge_observed :: "jstr \<Rightarrow> bool \<Rightarrow> props \<Rightarrow> repeater_admin \<Rightarrow> repeater_admin" where
  "merge_observed k shown observed st =
     (let updated = set_prop (js ''public_key'') (Str k) (spread (node_props (known_node st k)) observed);
          st1 = st\<lparr>registry := assoc_put k (Obj updated) (registry st)\<rparr>
      in if shown then show_node [] (Obj updated) st1 else st1)"

definition mergeRemoteObservation :: "jstr \<Rightarrow> jsval \<Rightarrow> repeater_admin \<Rightarrow> repeater_admin" where
  "mergeRemoteObservation target observation st =
     (case observation of
        Obj ps \<Rightarrow>
          let c = canonical_key st (Str target); k = (if c = [] then target else c);
              st1 = merge_observed k False ps st
          in if selected_key st1 = k then show_node [] (known_node st1 k) st1 else st1
      | _ \<Rightarrow> st)"

definition telemetry_answer :: "nat \<Rightarrow> nat \<Rightarrow> jstr \<Rightarrow> net \<Rightarrow> repeater_admin \<Rightarrow> repeater_admin" where
  "telemetry_answer mrev obs k reply st =
     (case body_of reply of
        None \<Rightarrow> st
      | Some d \<Rightarrow>
          if mrev \<noteq> modalRevision st \<or> obs \<noteq> observationRevision st \<or> is_nullish d then st
          else if is_ok reply d \<and> getp (getp d (js ''data'')) (js ''status'') \<notin> {Str (js ''error''), Str (js ''partial'')}
          then let payload = js_or (getp d (js ''data'')) d; telem = node_props (getp payload (js ''telemetry''));
                   st1 = (if telem = [] then st
                          else merge_observed k (selectedTarget st \<noteq> None \<and> (selectedTarget st = Some k \<or> selected_key st = k)) telem st)
               in st1\<lparr>form := populateRemoteSavedRadio [] (getp payload (js ''saved'')) (form st1)\<rparr>
          else st)"

definition rx_packet :: "jsval \<Rightarrow> repeater_admin \<Rightarrow> repeater_admin" where
  "rx_packet p st =
     (let type = js_or (getp p (js ''type'')) (getp p (js ''event_type'')); contact = js_or (getp p (js ''contact'')) (js_or (getp p (js ''data'')) (Obj []));
          sender = js_or (getp p (js ''sender'')) (js_or (getp p (js ''pubkey'')) (js_or (getp p (js ''from''))
            (js_or (getp contact (js ''public_key'')) (js_or (getp contact (js ''pubkey'')) (getp contact (js ''sender''))))));
          k = canonical_key st sender; telemetry = getp p (js ''telemetry'')
      in if \<not> is_object p \<or> selectedTarget st \<in> {None, Some []} \<or> k = [] \<or> k \<noteq> selected_key st then st
         else if type \<in> Str ` set (map js [''repeater_response'', ''repeater_telemetry''])
         then if is_object telemetry then mergeRemoteObservation k telemetry st else st
         else if type \<in> Str ` set (map js [''contact_updated'', ''contact_discovered'']) then mergeRemoteObservation k contact st
         else if type \<in> Str ` set (map js [''telemetry'', ''stats'', ''STATS''])
         then mergeRemoteObservation k (Obj (spread (spread (node_props p) (node_props contact)) (node_props telemetry))) st
         else st)"

subsection \<open>Saving a form\<close>

definition save_start :: "config_kind \<Rightarrow> repeater_admin \<Rightarrow> repeater_admin" where
  "save_start kind st =
     (case selectedTarget st of
        None \<Rightarrow> st
      | Some t \<Rightarrow>
          let c = canonical_key st (Str t); k = (if c = [] then t else c) in
          if kind \<in> set (saving_kinds st) \<or> t = [] \<or> k \<notin> set (authenticatedRepeaters st) then st
          else case collectRemoteDraft kind (form st) of
            Inl _ \<Rightarrow> st
          | Inr (params, snapshot) \<Rightarrow>
              if params = [] then st
              else post \<lparr>rq_path = ''config'', rq_target = k, rq_password = getRepeaterPassword st k, rq_action = [], rq_params = Obj params\<rparr>
                     (SaveTask kind (modalRevision st) t params snapshot)
                     (st\<lparr>saving_kinds := saving_kinds st @ [kind], observationRevision := observationRevision st + 1\<rparr>))"

text \<open>A confirmed administrator's password becomes the stored one, even if the field has been edited since.\<close>

definition store_new_password :: "jstr \<Rightarrow> jsval \<Rightarrow> string \<times> sent_field \<Rightarrow> repeater_admin \<Rightarrow> repeater_admin" where
  "store_new_password target applied entry st =
     (if fst entry = ''secNewAdminPwd'' \<and> remoteAppliedKey applied (sent_key (snd entry)) \<noteq> None
      then let c = canonical_key st (Str target); k = (if c = [] then target else c); p = to_string (sent_raw (snd entry))
           in (setStoredRepeaterPassword target p (setStoredRepeaterPassword k p st))\<lparr>gatePassword := p\<rparr>
      else st)"

definition commitRemoteConfirmed :: "jstr \<Rightarrow> jsval \<Rightarrow> (string \<times> sent_field) list \<Rightarrow> repeater_admin \<Rightarrow> repeater_admin" where
  "commitRemoteConfirmed target applied snapshot st =
     (let c = canonical_key st (Str target); k = (if c = [] then target else c);
          existing = js_or (known_node st k) (js_or (known_node st target) (Obj []));
          next = confirmed_node applied (node_props existing); st1 = fold (store_new_password target applied) snapshot st
      in st1\<lparr>registry := assoc_put k (Obj next) (registry st1),
             form := commit_form applied snapshot (Obj (set_prop (js ''public_key'') (Str k) next)) (form st1)\<rparr>)"

definition reported :: "jsval \<Rightarrow> jsval" where
  "reported d = (let inner = getp d (js ''data'') in if truthy inner \<and> is_object inner then inner else d)"

definition applied_of :: "jsval \<Rightarrow> jsval" where
  "applied_of res = (let ap = getp res (js ''applied'') in if truthy ap \<and> is_object ap then ap else Obj [])"

definition mentions :: "config_kind \<Rightarrow> jsval \<Rightarrow> jstr \<Rightarrow> bool" where
  "mentions kind src k \<longleftrightarrow> list_ex (\<lambda>(i, key, c). js key = k \<and> remoteAppliedKey src key \<noteq> None) (config_fields kind)"

text \<open>Confirmed, saved until the next start, or dispatched.\<close>

definition save_accepted :: "config_kind \<Rightarrow> props \<Rightarrow> net \<Rightarrow> jsval \<Rightarrow> bool" where
  "save_accepted kind params reply d \<longleftrightarrow>
     (let res = reported d; keys = map fst params; applied = applied_of res; saved = js_or (getp res (js ''saved'')) (Obj []) in
      is_ok reply d \<and>
        (getp res (js ''status'') = Str (js ''ok'') \<and> list_all (mentions kind applied) keys \<or>
         truthy (getp res (js ''pending_reboot'')) \<and> list_all (\<lambda>k. mentions kind applied k \<or> mentions kind saved k) keys \<or>
         getp res (js ''status'') = Str (js ''dispatched'')))"

definition save_observed :: "jstr \<Rightarrow> (string \<times> sent_field) list \<Rightarrow> jsval \<Rightarrow> repeater_admin \<Rightarrow> repeater_admin" where
  "save_observed target snapshot d st =
     (let res = reported d; saved = getp res (js ''saved'');
          st1 = (if truthy saved then st\<lparr>form := populateRemoteSavedRadio [] saved (form st)\<rparr> else st)
      in if node_props (applied_of res) = [] then st1 else commitRemoteConfirmed target (applied_of res) snapshot st1)"

definition save_effect ::
  "config_kind \<Rightarrow> jstr \<Rightarrow> props \<Rightarrow> (string \<times> sent_field) list \<Rightarrow> net \<Rightarrow> jsval \<Rightarrow> repeater_admin \<Rightarrow> repeater_admin" where
  "save_effect kind target params snapshot reply d st =
     (let st1 = st\<lparr>observationRevision := observationRevision st + 1\<rparr>; st2 = save_observed target snapshot d st1 in
      if is_nullish d then st1
      else if \<not> save_accepted kind params reply d \<and> (status_of reply = 401 \<or> getp (reported d) (js ''authenticated'') = Bool False)
      then handleRepeaterAuthError target st2 else st2)"

definition save_answer ::
  "config_kind \<Rightarrow> nat \<Rightarrow> jstr \<Rightarrow> props \<Rightarrow> (string \<times> sent_field) list \<Rightarrow> net \<Rightarrow> repeater_admin \<Rightarrow> repeater_admin" where
  "save_answer kind mrev target params snapshot reply st =
     (let st1 = (case body_of reply of
            None \<Rightarrow> st
          | Some d \<Rightarrow>
              if mrev \<noteq> modalRevision st \<or> selectedTarget st \<noteq> Some target then st
              else save_effect kind target params snapshot reply d st)
      in if mrev = modalRevision st1 then st1\<lparr>saving_kinds := filter (\<lambda>k. k \<noteq> kind) (saving_kinds st1)\<rparr> else st1)"

subsection \<open>Commands\<close>

definition command_start :: "int \<Rightarrow> jstr \<Rightarrow> jsval \<Rightarrow> repeater_admin \<Rightarrow> repeater_admin" where
  "command_start now action params st =
     (case selectedTarget st of
        None \<Rightarrow> st
      | Some t \<Rightarrow>
          if t = [] \<or> now < (case map_of (cooldowns st) (toLowerCase t) of Some e \<Rightarrow> e | None \<Rightarrow> 0) then st
          else post \<lparr>rq_path = ''action'', rq_target = t, rq_password = getRepeaterPassword st t, rq_action = action, rq_params = params\<rparr>
                 (CommandTask (modalRevision st) (observationRevision st) t) (st\<lparr>commandBusy := True\<rparr>))"

definition remaining_seconds :: "jsval \<Rightarrow> int" where
  "remaining_seconds d =
     (case to_number (js_or (getp d (js ''cooldown_remaining'')) (Num (Fin 15))) of Fin q \<Rightarrow> \<lfloor>q * 1000\<rfloor> | _ \<Rightarrow> 0)"

definition command_answer :: "int \<Rightarrow> nat \<Rightarrow> nat \<Rightarrow> jstr \<Rightarrow> net \<Rightarrow> repeater_admin \<Rightarrow> repeater_admin" where
  "command_answer now mrev obs target reply st =
     (case reply of
        Rejected _ \<Rightarrow> st
      | Responded res \<Rightarrow>
          let d = (case http_json res of Some d \<Rightarrow> d | None \<Rightarrow> Obj []) in
          if mrev \<noteq> modalRevision st \<or> obs \<noteq> observationRevision st then st
          else if http_status res = 429 \<or> getp d (js ''code'') = Num (Fin 429)
          then if is_nullish d then st
               else st\<lparr>cooldowns := assoc_put (toLowerCase target) (now + remaining_seconds d) (cooldowns st)\<rparr>
          else if is_nullish d then st
          else if is_ok reply d \<and> getp (getp d (js ''data'')) (js ''status'') \<notin> {Str (js ''error''), Str (js ''partial'')}
          then let payload = js_or (getp d (js ''data'')) d; answer = js_or (getp payload (js ''text'')) (js_or (getp payload (js ''response''))
                     (if getp payload (js ''status'') = Str (js ''ok'') then getp payload (js ''message'') else Str []));
                   parsed = node_props (getp payload (js ''telemetry'')); c = canonical_key st (Str target); k = (if c = [] then target else c);
                   st1 = (if truthy answer \<and> parsed \<noteq> []
                          then merge_observed k (selectedTarget st \<noteq> None \<and> (selectedTarget st = Some target \<or> selected_key st = k)) parsed st
                          else st)
               in st1\<lparr>form := populateRemoteSavedRadio [] (getp payload (js ''saved'')) (form st1)\<rparr>
          else if http_status res = 401 \<or> getp (getp d (js ''data'')) (js ''authenticated'') = Bool False
          then handleRepeaterAuthError target st else st)\<lparr>commandBusy := False\<rparr>"

subsection \<open>Preferences\<close>

definition remotePreferenceTarget :: "jstr \<Rightarrow> repeater_admin \<Rightarrow> jstr option" where
  "remotePreferenceTarget localKey st =
     (let k = selected_key st; node = known_node st k; role = toUpperCase (to_string (js_or (getp node (js ''role'')) (Str [])));
          advert = nullish (getp node (js ''advert_type'')) (nullish (getp node (js ''adv_type'')) (getp node (js ''type''))) in
      if length k \<noteq> 64 \<or> \<not> list_all is_hex k \<or> k = localKey \<or> \<not> truthy node \<or>
         role \<notin> set (map js [''REPEATER'', ''ROUTER'', ''ROOM'']) \<or> truthy (getp node (js ''is_local'')) \<or>
         \<not> is_nullish advert \<and> (advert \<notin> {Num (Fin 2), Num (Fin 3)} \<or> (advert = Num (Fin 3)) \<noteq> (role = js ''ROOM'')) \<or>
         k \<notin> set (authenticatedRepeaters st)
      then None else Some k)"

definition drop_pref :: "string \<Rightarrow> repeater_admin \<Rightarrow> repeater_admin" where
  "drop_pref k st = st\<lparr>prefs := assoc_del k (prefs st)\<rparr>"

definition preference_start :: "jstr \<Rightarrow> string \<Rightarrow> repeater_admin \<Rightarrow> repeater_admin" where
  "preference_start localKey action st =
     (case remotePreferenceTarget localKey st of
        None \<Rightarrow> st
      | Some k \<Rightarrow>
          let saving = (action = ''set_cad''); on = (cadValue st = js ''on'') in
          if prefsBusy st \<or> action \<notin> {''get_cad'', ''get_rx_gain'', ''set_cad''} \<or>
             saving \<and> (map_of (prefs st) ''cad'' = None \<or> cadValue st \<notin> {js ''on'', js ''off''}) then st
          else post \<lparr>rq_path = ''action'', rq_target = k, rq_password = getRepeaterPassword st k, rq_action = js action,
                      rq_params = Obj (if saving then [(js ''enabled'', Bool on)] else [])\<rparr>
                 (PreferenceTask (modalRevision st) (prefsEpoch st) k action on)
                 ((drop_pref (if action = ''get_rx_gain'' then ''rx_gain'' else ''cad'') st)
                    \<lparr>prefsBusy := True, prefsOutcome := ''repeater.preferences_waiting''\<rparr>))"

definition preference_result :: "jstr \<Rightarrow> string \<Rightarrow> bool \<Rightarrow> net \<Rightarrow> jsval \<Rightarrow> repeater_admin \<Rightarrow> repeater_admin" where
  "preference_result k action on reply d st =
     (let res = getp d (js ''data''); outcome = (\<lambda>o1. st\<lparr>prefsOutcome := ''repeater.preferences_'' @ o1\<rparr>);
          field = (if action = ''get_cad'' then ''cad'' else ''rx_gain''); seen = getp (getp res (js ''preferences'')) (js field) in
      if \<not> is_ok reply d \<or> \<not> truthy res \<or> getp res (js ''target_node'') \<noteq> Str k
      then if status_of reply = 401 \<or> getp res (js ''authenticated'') = Bool False
           then handleRepeaterAuthError k st else outcome ''failed''
      else if getp res (js ''status'') \<noteq> Str (js ''ok'') \<or> getp res (js ''hardware_verified'') \<noteq> Bool False then outcome ''unconfirmed''
      else if action = ''set_cad''
      then if getp res (js ''acknowledged'') \<noteq> Bool True \<or> getp (getp res (js ''saved_preferences'')) (js ''cad'') \<noteq> Bool on
           then outcome ''unconfirmed'' else (outcome ''accepted'')\<lparr>cadDraft := False\<rparr>
      else case seen of
        Bool b \<Rightarrow>
          if getp res (js ''preferences_source'') \<noteq> Str (js ''saved_preferences'') then outcome ''unconfirmed''
          else (outcome ''observed'')\<lparr>prefs := assoc_put field b (prefs st),
                 cadValue := (if field = ''cad'' \<and> \<not> cadDraft st then (if b then js ''on'' else js ''off'') else cadValue st)\<rparr>
      | _ \<Rightarrow> outcome ''unconfirmed'')"

definition preference_answer ::
  "jstr \<Rightarrow> nat \<Rightarrow> nat \<Rightarrow> jstr \<Rightarrow> string \<Rightarrow> bool \<Rightarrow> net \<Rightarrow> repeater_admin \<Rightarrow> repeater_admin" where
  "preference_answer localKey mrev epoch k action on reply st =
     (let failed = (\<lambda>s. if epoch = prefsEpoch s then s\<lparr>prefsOutcome := ''repeater.preferences_failed''\<rparr> else s);
          st1 = (case reply of
             Rejected _ \<Rightarrow> failed st
           | Responded res \<Rightarrow>
               let d = (case http_json res of Some d \<Rightarrow> d | None \<Rightarrow> Obj []) in
               if epoch \<noteq> prefsEpoch st \<or> mrev \<noteq> modalRevision st \<or> remotePreferenceTarget localKey st \<noteq> Some k then st
               else if is_nullish d then failed st else preference_result k action on reply d st)
      in if epoch = prefsEpoch st1 \<and> mrev = modalRevision st1 then st1\<lparr>prefsBusy := False\<rparr> else st1)"

subsection \<open>The panel as a machine\<close>

datatype remote_event =
    Opened jstr
  | Closed
  | GateTyped jstr
  | GateSubmitted
  | LogoutClicked
  | Edited string field_value
  | RegionChosen string
  | Focused "string option"
  | SaveClicked config_kind
  | RefreshClicked
  | CommandEntered int jstr jsval
  | PreferenceClicked string
  | CadChosen jstr
  | PreferencesStale
  | Packet jsval
  | DirectoryChanged nodes
  | Answered int nat net

definition remote_resume :: "jstr \<Rightarrow> int \<Rightarrow> remote_task \<Rightarrow> net \<Rightarrow> repeater_admin \<Rightarrow> repeater_admin" where
  "remote_resume localKey now t reply st =
     (case t of
        LoginTask mrev pubkey k p \<Rightarrow> login_answer mrev pubkey k p reply st
      | SaveTask kind mrev target params snapshot \<Rightarrow> save_answer kind mrev target params snapshot reply st
      | TelemetryTask mrev obs k \<Rightarrow> telemetry_answer mrev obs k reply st
      | CommandTask mrev obs target \<Rightarrow> command_answer now mrev obs target reply st
      | PreferenceTask mrev epoch k action on \<Rightarrow> preference_answer localKey mrev epoch k action on reply st)"

definition remote_step :: "jstr \<Rightarrow> remote_event \<Rightarrow> repeater_admin \<Rightarrow> repeater_admin" where
  "remote_step localKey ev st =
     (case ev of
        Opened pubkey \<Rightarrow> openRepeaterAdminModal localKey pubkey st
      | Closed \<Rightarrow> closeRepeaterAdminModal st
      | GateTyped p \<Rightarrow> st\<lparr>gatePassword := p\<rparr>
      | GateSubmitted \<Rightarrow> gate_submit st
      | LogoutClicked \<Rightarrow> logout st
      | Edited k x \<Rightarrow> st\<lparr>form := edit_field k x (form st)\<rparr>
      | RegionChosen reg \<Rightarrow> st\<lparr>form := choose_region reg (form st)\<rparr>
      | Focused k \<Rightarrow> st\<lparr>form := (form st)\<lparr>focusedField := k\<rparr>\<rparr>
      | SaveClicked kind \<Rightarrow> save_start kind st
      | RefreshClicked \<Rightarrow>
          (case selectedTarget st of
             Some t \<Rightarrow> refresh_start t (getRepeaterPassword st t) st
           | None \<Rightarrow> st)
      | CommandEntered now action params \<Rightarrow> command_start now action params st
      | PreferenceClicked action \<Rightarrow> preference_start localKey action st
      | CadChosen v \<Rightarrow> st\<lparr>cadValue := v, cadDraft := True, prefsOutcome := ''''\<rparr>
      | PreferencesStale \<Rightarrow> clearRemotePreferences st
      | Packet p \<Rightarrow> rx_packet p st
      | DirectoryChanged ns \<Rightarrow> st\<lparr>registry := ns\<rparr>
      | Answered now n reply \<Rightarrow>
          (case map_of (remote_tasks st) n of
             Some t \<Rightarrow> remote_resume localKey now t reply (st\<lparr>remote_tasks := assoc_del n (remote_tasks st)\<rparr>)
           | None \<Rightarrow> st))"

definition new_repeater_admin :: "nodes \<Rightarrow> (string \<Rightarrow> field_value) \<Rightarrow> repeater_admin" where
  "new_repeater_admin known page =
     \<lparr>form = \<lparr>fieldValues = page, dirtyFields = [], fieldEditVersions = [], focusedField = None, remoteRadioPreferences = []\<rparr>,
      selectedTarget = None, authenticatedRepeaters = [], repeaterPasswords = [], modalRevision = 0, observationRevision = 0,
      saving_kinds = [], unlocked = False, gatePassword = [], commandBusy = False, cooldowns = [], registry = known,
      prefsEpoch = 0, prefs = [], prefsBusy = False, prefsOutcome = '''', cadDraft = False, cadValue = [],
      sent_requests = [], remote_tasks = [], next_remote = 0\<rparr>"

subsection \<open>Answers to requests of an earlier panel\<close>

definition counters :: "repeater_admin \<Rightarrow> nat \<times> nat \<times> nat \<times> (nat \<times> remote_task) list" where
  "counters st = (modalRevision st, prefsEpoch st, next_remote st, remote_tasks st)"

text \<open>A request carries the numbers of its time.\<close>

definition task_dated :: "nat \<Rightarrow> nat \<Rightarrow> remote_task \<Rightarrow> bool" where
  "task_dated r e t \<longleftrightarrow> (case t of
      LoginTask r1 _ _ _ \<Rightarrow> r1 \<le> r | SaveTask _ r1 _ _ _ \<Rightarrow> r1 \<le> r | TelemetryTask r1 _ _ \<Rightarrow> r1 \<le> r
    | CommandTask r1 _ _ \<Rightarrow> r1 \<le> r | PreferenceTask r1 e1 _ _ _ \<Rightarrow> r1 \<le> r \<and> e1 \<le> e)"

definition tasks_dated :: "repeater_admin \<Rightarrow> bool" where
  "tasks_dated st \<longleftrightarrow>
     list_all (\<lambda>(n, t). n < next_remote st \<and> task_dated (modalRevision st) (prefsEpoch st) t) (remote_tasks st)"

text \<open>
  What every operation does to the numbers: they only grow, the revision not without the epoch, no
  request appears under a number that has been given, and requests stay dated.
\<close>

definition onward :: "repeater_admin \<Rightarrow> repeater_admin \<Rightarrow> bool" where
  "onward v w \<longleftrightarrow> modalRevision v \<le> modalRevision w \<and> prefsEpoch v \<le> prefsEpoch w \<and> next_remote v \<le> next_remote w \<and>
     (modalRevision v \<noteq> modalRevision w \<longrightarrow> prefsEpoch v < prefsEpoch w) \<and>
     (\<forall>n < next_remote v. \<forall>t. map_of (remote_tasks w) n = Some t \<longrightarrow> map_of (remote_tasks v) n = Some t) \<and>
     (tasks_dated v \<longrightarrow> tasks_dated w)"

lemma dated_later:
  "tasks_dated w \<Longrightarrow> modalRevision w \<le> modalRevision x \<Longrightarrow> prefsEpoch w \<le> prefsEpoch x \<Longrightarrow> next_remote x = next_remote w \<Longrightarrow>
     set (remote_tasks x) \<subseteq> set (remote_tasks w) \<Longrightarrow> tasks_dated x"
  by (fastforce simp: tasks_dated_def task_dated_def list_all_iff split: remote_task.splits)

lemma dated_counters: "counters x = counters w \<Longrightarrow> tasks_dated x = tasks_dated w"
  by (simp add: counters_def tasks_dated_def)

lemma onward_counters: "counters w' = counters w \<Longrightarrow> onward v w \<Longrightarrow> onward v w'"
  using dated_counters[of w' w] by (simp add: onward_def counters_def)

lemma onward_refl: "onward v v"
  by (simp add: onward_def)

lemma onward_trans: "onward u v \<Longrightarrow> onward v w \<Longrightarrow> onward u w"
  unfolding onward_def by (auto 0 3 dest: less_le_trans)

lemma counters_ops [simp]:
  "counters (setStoredRepeaterPassword k p st) = counters st" "counters (clearStoredRepeaterPassword k st) = counters st"
  "counters (unlockRepeaterAdminView st) = counters st" "counters (show_node c node st) = counters st"
  "counters (merge_observed k shown ps st) = counters st" "counters (mergeRemoteObservation k x st) = counters st"
  "counters (drop_pref q st) = counters st"
  "counters (store_new_password k x e st) = counters st"
  by (simp_all add: counters_def setStoredRepeaterPassword_def clearStoredRepeaterPassword_def unlockRepeaterAdminView_def show_node_def
      merge_observed_def mergeRemoteObservation_def drop_pref_def store_new_password_def Let_def split: jsval.split)

lemma counters_packet [simp]: "counters (rx_packet pkt st) = counters st"
  by (simp add: rx_packet_def Let_def del: js_simps)

lemma counters_passwords [simp]: "counters (fold (store_new_password k x) es st) = counters st"
  by (induction es arbitrary: st) simp_all

lemma counters_commit [simp]: "counters (commitRemoteConfirmed k x es st) = counters st"
  using counters_passwords[of k x es st] by (simp add: commitRemoteConfirmed_def counters_def Let_def)

lemma counters_upd [simp]:
  "counters (st\<lparr>form := f\<rparr>) = counters st" "counters (st\<lparr>authenticatedRepeaters := a\<rparr>) = counters st"
  "counters (st\<lparr>gatePassword := g\<rparr>) = counters st" "counters (st\<lparr>saving_kinds := s\<rparr>) = counters st"
  "counters (st\<lparr>observationRevision := r\<rparr>) = counters st" "counters (st\<lparr>saving_kinds := s, observationRevision := r\<rparr>) = counters st"
  "counters (st\<lparr>commandBusy := b\<rparr>) = counters st" "counters (st\<lparr>cooldowns := c\<rparr>) = counters st"
  "counters (st\<lparr>registry := ns\<rparr>) = counters st" "counters (st\<lparr>prefsOutcome := o1\<rparr>) = counters st"
  "counters (st\<lparr>prefsBusy := b\<rparr>) = counters st" "counters (st\<lparr>prefsBusy := b, prefsOutcome := o1\<rparr>) = counters st"
  "counters (st\<lparr>unlocked := b\<rparr>) = counters st" "counters (st\<lparr>selectedTarget := t\<rparr>) = counters st"
  "counters (st\<lparr>selectedTarget := t, commandBusy := b\<rparr>) = counters st"
  "counters (st\<lparr>gatePassword := g, sent_requests := rq\<rparr>) = counters st"
  "counters (st\<lparr>prefsOutcome := o1, cadDraft := b\<rparr>) = counters st"
  "counters (st\<lparr>cadDraft := b\<rparr>) = counters st" "counters (st\<lparr>prefs := ps, cadValue := cv\<rparr>) = counters st"
  "counters (st\<lparr>cadValue := cv, cadDraft := b, prefsOutcome := o1\<rparr>) = counters st"
  by (simp_all add: counters_def)

lemma onward_clear: "onward v w \<Longrightarrow> onward v (clearRemotePreferences w)"
  using dated_later[of w "clearRemotePreferences w"] by (auto simp: onward_def clearRemotePreferences_def)

lemma onward_lock: "onward v w \<Longrightarrow> onward v (lockRepeaterAdminView w)"
  unfolding lockRepeaterAdminView_def by (rule onward_counters[OF counters_upd(13)]) (rule onward_clear)

lemma onward_error: "onward v w \<Longrightarrow> onward v (handleRepeaterAuthError k w)"
  unfolding handleRepeaterAuthError_def by (rule onward_lock, erule onward_counters[rotated], simp)

lemma onward_post: "onward v w \<Longrightarrow> task_dated (modalRevision w) (prefsEpoch w) t \<Longrightarrow> onward v (post r t w)"
  by (auto simp: onward_def post_def map_add_def tasks_dated_def list_all_iff split: option.splits if_splits)

lemma onward_reset: "onward v w \<Longrightarrow> onward v (resetModalInputs w)"
  using dated_later[of w "resetModalInputs w"] by (auto simp: onward_def resetModalInputs_def clearRemotePreferences_def Let_def)

lemma onward_refresh: "onward v w \<Longrightarrow> onward v (refresh_start k p w)"
  by (simp add: refresh_start_def onward_post task_dated_def)

lemma onward_auth: "onward v w \<Longrightarrow> onward v (authenticate_start k p w)"
  by (simp add: authenticate_start_def onward_post onward_error task_dated_def Let_def)

lemma onward_login: "onward v w \<Longrightarrow> onward v (login_answer mrev pk k p reply w)"
  by (auto simp: login_answer_def onward_error intro!: onward_refresh elim: onward_counters[rotated] split: option.split)

lemma onward_open: "onward v w \<Longrightarrow> onward v (openRepeaterAdminModal lk pk w)"
proof -
  assume vw: "onward v w"
  have st2: "onward v ((resetModalInputs w)\<lparr>selectedTarget := t, form := f\<rparr>)" for t f
    using onward_reset[OF vw] by (rule onward_counters[rotated]) (simp add: counters_def)
  have gate: "onward v (x\<lparr>gatePassword := g\<rparr>)" if "onward v x" for x g using that by (rule onward_counters[rotated]) simp
  have unlock: "onward v (unlockRepeaterAdminView x)" if "onward v x" for x using that by (rule onward_counters[rotated]) simp
  show ?thesis using vw by (simp add: openRepeaterAdminModal_def Let_def unlock onward_auth gate onward_lock st2)
qed

lemma onward_save: "onward v w \<Longrightarrow> onward v (save_start kind w)"
  by (auto simp: save_start_def Let_def intro!: onward_post simp: task_dated_def elim: onward_counters[rotated] split: option.split sum.split)

lemma counters_observed [simp]: "counters (save_observed target snapshot d st) = counters st"
  by (simp add: save_observed_def Let_def)

lemma onward_save_answer: "onward v w \<Longrightarrow> onward v (save_answer kind mrev target params snapshot reply w)"
proof -
  assume vw: "onward v w"
  have same: "onward v x" if "counters x = counters w" for x using that vw by (rule onward_counters)
  have "onward v (save_effect kind target params snapshot reply d w)" for d
    unfolding save_effect_def Let_def by (simp add: same onward_error)
  moreover have "onward v (x\<lparr>saving_kinds := s\<rparr>)" if "onward v x" for x s using that by (rule onward_counters[rotated]) simp
  ultimately show ?thesis using vw by (simp add: save_answer_def Let_def split: option.split)
qed

lemma onward_telemetry: "onward v w \<Longrightarrow> onward v (telemetry_answer mrev obs k reply w)"
proof -
  assume vw: "onward v w"
  have same: "onward v x" if "counters x = counters w" for x using that vw by (rule onward_counters)
  show ?thesis unfolding telemetry_answer_def Let_def by (simp add: vw same split: option.split)
qed

lemma onward_command: "onward v w \<Longrightarrow> onward v (command_start now a ps w)"
proof -
  assume vw: "onward v w"
  have "onward v (w\<lparr>commandBusy := True\<rparr>)" using vw by (rule onward_counters[rotated]) simp
  then show ?thesis using vw by (simp add: command_start_def onward_post task_dated_def split: option.split)
qed

lemma onward_command_answer: "onward v w \<Longrightarrow> onward v (command_answer now mrev obs target reply w)"
proof -
  assume vw: "onward v w"
  have same: "onward v x" if "counters x = counters w" for x using that vw by (rule onward_counters)
  have busy: "onward v (x\<lparr>commandBusy := False\<rparr>)" if "onward v x" for x using that by (rule onward_counters[rotated]) simp
  show ?thesis unfolding command_answer_def Let_def by (rule busy) (simp add: vw same onward_error split: net.split)
qed

lemma drop_pref_sel [simp]:
  "modalRevision (drop_pref q w) = modalRevision w" "prefsEpoch (drop_pref q w) = prefsEpoch w"
  by (simp_all add: drop_pref_def)

lemma onward_preference: "onward v w \<Longrightarrow> onward v (preference_start lk act w)"
proof -
  assume vw: "onward v w"
  have "onward v ((drop_pref q w)\<lparr>prefsBusy := b, prefsOutcome := o1\<rparr>)" for q b o1
    using vw by (rule onward_counters[rotated]) simp
  then show ?thesis using vw by (simp add: preference_start_def Let_def onward_post task_dated_def split: option.split)
qed

lemma onward_if: "onward v a \<Longrightarrow> onward v b \<Longrightarrow> onward v (if c then a else b)"
  by simp

lemma counters_outcomes:
  "counters (st\<lparr>prefsOutcome := o1\<rparr>) = counters st"
  "counters (st\<lparr>prefsOutcome := o1, cadDraft := b\<rparr>) = counters st"
  "counters (st\<lparr>prefsOutcome := o1, prefs := ps, cadValue := cv\<rparr>) = counters st"
  "counters (st\<lparr>prefsBusy := b\<rparr>) = counters st"
  by (simp_all add: counters_def)

lemma onward_seen:
  "onward v d \<Longrightarrow> (\<And>b. onward v (f b)) \<Longrightarrow>
     onward v (case x of Undefined \<Rightarrow> d | Null \<Rightarrow> d | Bool b \<Rightarrow> f b | Num n \<Rightarrow> d | Str s \<Rightarrow> d | Arr xs \<Rightarrow> d | Obj ps \<Rightarrow> d)"
  by (cases x) simp_all

lemma onward_preference_result: "onward v w \<Longrightarrow> onward v (preference_result k act on reply d w)"
  unfolding preference_result_def Let_def
  by (rule onward_if onward_seen onward_error | assumption | rule onward_counters[OF counters_outcomes(1)]
      | rule onward_counters[OF counters_outcomes(2)] | rule onward_counters[OF counters_outcomes(3)])+

lemma onward_preference_answer: "onward v w \<Longrightarrow> onward v (preference_answer lk mrev e k act on reply w)"
proof -
  assume vw: "onward v w"
  have failed: "onward v (if e = prefsEpoch w then w\<lparr>prefsOutcome := o1\<rparr> else w)" for o1
    by (rule onward_if[OF onward_counters[OF counters_outcomes(1) vw] vw])
  have "onward v (case reply of Rejected x \<Rightarrow> if e = prefsEpoch w then w\<lparr>prefsOutcome := o1\<rparr> else w
      | Responded res \<Rightarrow> if c res then w else if is_nullish (d res) then (if e = prefsEpoch w then w\<lparr>prefsOutcome := o1\<rparr> else w)
          else preference_result k act on reply (d res) w)" for c d o1
    by (cases reply; simp only: net.case; (rule failed vw onward_preference_result onward_if)+)
  then show ?thesis
    unfolding preference_answer_def Let_def by (intro onward_if onward_counters[OF counters_outcomes(4)]) assumption+
qed

lemma onward_resume: "onward v w \<Longrightarrow> onward v (remote_resume lk now t reply w)"
  by (simp add: remote_resume_def onward_login onward_save_answer onward_telemetry onward_command_answer onward_preference_answer
      split: remote_task.split)

lemma onward_task: "onward v (v\<lparr>remote_tasks := assoc_del n (remote_tasks v)\<rparr>)"
  using dated_later[of v "v\<lparr>remote_tasks := assoc_del n (remote_tasks v)\<rparr>"] by (auto simp: onward_def map_of_assoc_del set_assoc_del)

lemma onward_step: "onward v (remote_step lk ev v)"
proof -
  have same: "onward v x" if "counters x = counters v" for x using that onward_refl by (rule onward_counters)
  have cad: "onward v (v\<lparr>cadValue := x, cadDraft := b, prefsOutcome := o1\<rparr>)" for x b o1
    by (rule same) (simp add: counters_def)
  have close: "onward v (closeRepeaterAdminModal v)"
    unfolding closeRepeaterAdminModal_def by (rule onward_reset) (simp add: same)
  have submit: "onward v (gate_submit v)" by (simp add: gate_submit_def onward_auth onward_refl split: option.split)
  have out: "onward v (logout v)"
  proof -
    have "onward v (lockRepeaterAdminView (clearStoredRepeaterPassword t v))" for t by (rule onward_lock) (simp add: same)
    then have "onward v ((lockRepeaterAdminView (clearStoredRepeaterPassword t v))\<lparr>gatePassword := g, sent_requests := rq\<rparr>)" for t g rq
      by (rule onward_counters[rotated]) simp
    then show ?thesis by (simp add: logout_def onward_refl split: option.split)
  qed
  show ?thesis
    by (cases ev) (simp_all add: remote_step_def onward_open onward_refl cad close submit out same onward_save onward_refresh onward_command
        onward_preference onward_clear onward_resume onward_task split: option.split)
qed

definition stale_task :: "repeater_admin \<Rightarrow> remote_task \<Rightarrow> bool" where
  "stale_task st t \<longleftrightarrow> (case t of
      LoginTask r _ _ _ \<Rightarrow> r < modalRevision st | SaveTask _ r _ _ _ \<Rightarrow> r < modalRevision st
    | TelemetryTask r _ _ \<Rightarrow> r < modalRevision st | CommandTask r _ _ \<Rightarrow> r < modalRevision st
    | PreferenceTask r e _ _ _ \<Rightarrow> r < modalRevision st \<and> e < prefsEpoch st)"

definition outdated :: "nat \<Rightarrow> repeater_admin \<Rightarrow> bool" where
  "outdated n st \<longleftrightarrow> n < next_remote st \<and> (\<forall>t. map_of (remote_tasks st) n = Some t \<longrightarrow> stale_task st t)"

text \<open>Everything but the list of tasks and the flag that a command is being sent.\<close>

definition panel :: "repeater_admin \<Rightarrow> repeater_admin" where
  "panel st = st\<lparr>remote_tasks := [], commandBusy := False\<rparr>"

lemma panel_upd [simp]: "panel (st\<lparr>remote_tasks := ts\<rparr>) = panel st" "panel (st\<lparr>commandBusy := b\<rparr>) = panel st"
  by (simp_all add: panel_def)

lemma stale_stays: "onward v w \<Longrightarrow> stale_task v t \<Longrightarrow> stale_task w t"
  by (auto simp: stale_task_def onward_def split: remote_task.splits)

lemma outdated_stays: "outdated n v \<Longrightarrow> outdated n (remote_step lk ev v)"
proof -
  assume o1: "outdated n v"
  have on: "onward v (remote_step lk ev v)" by (rule onward_step)
  show ?thesis unfolding outdated_def
  proof (intro conjI allI impI)
    show "n < next_remote (remote_step lk ev v)" using o1 on by (simp add: outdated_def onward_def)
    fix t
    assume "map_of (remote_tasks (remote_step lk ev v)) n = Some t"
    then have "map_of (remote_tasks v) n = Some t" using o1 on by (simp add: outdated_def onward_def)
    then show "stale_task (remote_step lk ev v) t" using o1 stale_stays[OF on] by (simp add: outdated_def)
  qed
qed

lemma stale_login: "r < modalRevision st \<Longrightarrow> login_answer r pk k p reply st = st"
  by (simp add: login_answer_def split: option.split)

lemma stale_save: "r < modalRevision st \<Longrightarrow> save_answer kind r t ps sn reply st = st"
  by (simp add: save_answer_def split: option.split)

lemma stale_telemetry: "r < modalRevision st \<Longrightarrow> telemetry_answer r obs k reply st = st"
  by (simp add: telemetry_answer_def split: option.split)

lemma stale_command: "r < modalRevision st \<Longrightarrow> command_answer now r obs t reply st = st\<lparr>commandBusy := False\<rparr>"
  unfolding command_answer_def Let_def by (cases reply) (simp_all only: net.case, simp)

lemma stale_preference: "e < prefsEpoch st \<Longrightarrow> preference_answer lk r e k act on reply st = st"
  unfolding preference_answer_def Let_def by (cases reply) (simp_all only: net.case, simp_all)

lemma stale_ignored: "stale_task st t \<Longrightarrow> panel (remote_resume lk now t reply st) = panel st"
  by (cases t) (simp_all add: stale_task_def remote_resume_def stale_login stale_save stale_telemetry stale_command stale_preference)

lemma outdated_ignored: "outdated n st \<Longrightarrow> panel (remote_step lk (Answered now n reply) st) = panel st"
proof (cases "map_of (remote_tasks st) n")
  case (Some t)
  assume "outdated n st"
  then have "stale_task (st\<lparr>remote_tasks := assoc_del n (remote_tasks st)\<rparr>) t"
    using Some by (auto simp: outdated_def stale_task_def split: remote_task.splits)
  then show ?thesis using Some by (simp add: remote_step_def stale_ignored)
qed (simp add: remote_step_def)

interpretation answers: overtaken_calls "remote_step lk" outdated "\<lambda>n ev. \<exists>now reply. ev = Answered now n reply" panel for lk
  by unfold_locales (auto simp: outdated_stays outdated_ignored)

interpretation dated: initial_invariant "remote_step lk" "\<lambda>_. True" tasks_dated "new_repeater_admin known page" for lk known page
  using onward_step by unfold_locales (auto simp: onward_def tasks_dated_def new_repeater_admin_def)

lemma renewal_outdates:
  assumes "tasks_dated v" "modalRevision (remote_step lk ev v) \<noteq> modalRevision v" "n < next_remote v"
  shows "outdated n (remote_step lk ev v)"
proof -
  have on: "onward v (remote_step lk ev v)" by (rule onward_step)
  have "stale_task (remote_step lk ev v) t" if "map_of (remote_tasks (remote_step lk ev v)) n = Some t" for t
  proof -
    have "(n, t) \<in> set (remote_tasks v)" using \<open>map_of (remote_tasks (remote_step lk ev v)) n = Some t\<close> on assms(3)
      by (auto simp: onward_def dest: map_of_SomeD)
    then have "task_dated (modalRevision v) (prefsEpoch v) t" using assms(1) by (auto simp: tasks_dated_def list_all_iff)
    then show ?thesis using on assms(2) by (auto simp: stale_task_def task_dated_def onward_def split: remote_task.splits)
  qed
  then show ?thesis using on assms(3) by (simp add: outdated_def onward_def)
qed



subsection \<open>Logging out\<close>

lemma keys_frame [simp]:
  "canonical_key (lockRepeaterAdminView st) pk = canonical_key st pk"
  "canonical_key (clearStoredRepeaterPassword t st) pk = canonical_key st pk"
  "canonical_key (resetModalInputs st) pk = canonical_key st pk"
  "known_node (lockRepeaterAdminView st) x = known_node st x"
  "known_node (clearStoredRepeaterPassword t st) x = known_node st x"
  "known_node (resetModalInputs st) x = known_node st x"
  by (simp_all add: canonical_key_def known_node_def lockRepeaterAdminView_def clearRemotePreferences_def clearStoredRepeaterPassword_def
      resetModalInputs_def Let_def)

lemma keys_upd [simp]:
  "canonical_key (st\<lparr>gatePassword := g, sent_requests := rq\<rparr>) pk = canonical_key st pk"
  "canonical_key (st\<lparr>selectedTarget := s, commandBusy := b\<rparr>) pk = canonical_key st pk"
  "canonical_key (st\<lparr>selectedTarget := s, form := f\<rparr>) pk = canonical_key st pk"
  "known_node (st\<lparr>gatePassword := g, sent_requests := rq\<rparr>) x = known_node st x"
  "known_node (st\<lparr>selectedTarget := s, commandBusy := b\<rparr>) x = known_node st x"
  by (simp_all add: canonical_key_def known_node_def)

lemma access_frame [simp]:
  "authenticatedRepeaters (lockRepeaterAdminView st) = authenticatedRepeaters st"
  "repeaterPasswords (lockRepeaterAdminView st) = repeaterPasswords st"
  "remote_tasks (lockRepeaterAdminView st) = remote_tasks st" "unlocked (lockRepeaterAdminView st) = False"
  "authenticatedRepeaters (resetModalInputs st) = authenticatedRepeaters st"
  "repeaterPasswords (resetModalInputs st) = repeaterPasswords st" "remote_tasks (resetModalInputs st) = remote_tasks st"
  by (simp_all add: lockRepeaterAdminView_def clearRemotePreferences_def resetModalInputs_def Let_def)

lemma stored_frame:
  "getStoredRepeaterPassword ((resetModalInputs st)\<lparr>selectedTarget := s, form := f\<rparr>) k = getStoredRepeaterPassword st k"
  by (simp add: getStoredRepeaterPassword_def)

lemma authenticate_access [simp]: "password \<noteq> [] \<Longrightarrow> unlocked (authenticate_start k password st) = (k \<noteq> [] \<and> unlocked st)"
  by (simp add: authenticate_start_def post_def handleRepeaterAuthError_def Let_def)

lemma login_start_locked [simp]: "unlocked (authenticate_start k password ((lockRepeaterAdminView st)\<lparr>gatePassword := g\<rparr>)) = False"
  by (simp add: authenticate_start_def post_def handleRepeaterAuthError_def Let_def)

definition reopened :: "jstr \<Rightarrow> repeater_admin \<Rightarrow> jstr \<Rightarrow> repeater_admin" where
  "reopened lk st t = openRepeaterAdminModal lk t (closeRepeaterAdminModal (logout st))"

definition administrable :: "jstr \<Rightarrow> repeater_admin \<Rightarrow> jstr \<Rightarrow> bool" where
  "administrable lk st t \<longleftrightarrow>
     (let k = canonical_key st (Str t); node = js_or (known_node st k) (known_node st t) in \<not> (truthy node \<and> not_administrable lk k node))"

lemma open_access:
  assumes "administrable lk st t"
  shows "unlocked (openRepeaterAdminModal lk t st) \<longleftrightarrow>
      canonical_key st (Str t) \<in> set (authenticatedRepeaters st) \<or> t \<in> set (authenticatedRepeaters st)"
    and "canonical_key st (Str t) \<notin> set (authenticatedRepeaters st) \<and> t \<notin> set (authenticatedRepeaters st) \<Longrightarrow>
      getStoredRepeaterPassword st (canonical_key st (Str t)) = [] \<Longrightarrow>
      gatePassword (openRepeaterAdminModal lk t st) = [] \<and> remote_tasks (openRepeaterAdminModal lk t st) = remote_tasks st"
proof -
  have no: "\<not> (truthy (js_or (known_node st (canonical_key st (Str t))) (known_node st t)) \<and>
      not_administrable lk (canonical_key st (Str t)) (js_or (known_node st (canonical_key st (Str t))) (known_node st t)))"
    using assms by (simp add: administrable_def Let_def)
  note eq = openRepeaterAdminModal_def Let_def if_not_P[OF no]
  show "unlocked (openRepeaterAdminModal lk t st) \<longleftrightarrow>
      canonical_key st (Str t) \<in> set (authenticatedRepeaters st) \<or> t \<in> set (authenticatedRepeaters st)"
    unfolding eq by (simp add: unlockRepeaterAdminView_def)
  show "gatePassword (openRepeaterAdminModal lk t st) = [] \<and> remote_tasks (openRepeaterAdminModal lk t st) = remote_tasks st"
    if "canonical_key st (Str t) \<notin> set (authenticatedRepeaters st) \<and> t \<notin> set (authenticatedRepeaters st)"
      and "getStoredRepeaterPassword st (canonical_key st (Str t)) = []"
    using that unfolding eq by (simp add: stored_frame)
qed

lemma logged_out:
  assumes "selectedTarget st = Some t" "t \<noteq> []"
  defines "u \<equiv> closeRepeaterAdminModal (logout st)"
  shows "authenticatedRepeaters u = filter (\<lambda>a. a \<noteq> toLowerCase t) (authenticatedRepeaters st)"
    and "repeaterPasswords u = assoc_del (toLowerCase t) (repeaterPasswords st)"
    and "remote_tasks u = remote_tasks st" and "canonical_key u pk = canonical_key st pk" and "known_node u x = known_node st x"
  using assms by (simp_all add: closeRepeaterAdminModal_def logout_def, simp_all add: clearStoredRepeaterPassword_def)

text \<open>
  Logging out of a repeater and opening its panel again shows the gate exactly when the session
  was kept under the lower-case text of the name by which the panel had been opened: then the
  stored password is gone too, no request is made and the gate is empty. A session kept under
  another spelling survives: for a node whose key is written with capitals, or was opened by a
  prefix of its key, the panel is unlocked again without a password.
\<close>

theorem reopened_after_logout:
  assumes "selectedTarget st = Some t" "t \<noteq> []" "administrable lk st t"
  defines "k \<equiv> canonical_key st (Str t)"
  shows "(unlocked (reopened lk st t) \<longleftrightarrow> (\<exists>a \<in> {k, t} \<inter> set (authenticatedRepeaters st). a \<noteq> toLowerCase t)) \<and>
    (k = t \<and> toLowerCase t = t \<longrightarrow>
      \<not> unlocked (reopened lk st t) \<and> gatePassword (reopened lk st t) = [] \<and> remote_tasks (reopened lk st t) = remote_tasks st)"
proof -
  note u = logged_out[OF assms(1,2)]
  have adm: "administrable lk (closeRepeaterAdminModal (logout st)) t" using assms(3) by (simp add: administrable_def u)
  have acc: "unlocked (reopened lk st t) \<longleftrightarrow> (\<exists>a \<in> {k, t} \<inter> set (authenticatedRepeaters st). a \<noteq> toLowerCase t)"
    unfolding reopened_def open_access(1)[OF adm] by (auto simp: u k_def)
  then show ?thesis
    using open_access(2)[OF adm] by (simp add: reopened_def u k_def getStoredRepeaterPassword_def map_of_assoc_del)
qed

lemma reopened_after_logout_witness:
  "\<forall>p. unlocked (reopened [] ((new_repeater_admin [] p)\<lparr>selectedTarget := Some (js ''AB''), authenticatedRepeaters := [js ''ab'', js ''AB'']\<rparr>) (js ''AB''))
     \<and> \<not> unlocked (reopened [] ((new_repeater_admin [] p)\<lparr>selectedTarget := Some (js ''ab''), authenticatedRepeaters := [js ''ab'']\<rparr>) (js ''ab''))"
proof (intro allI conjI)
  fix p
  let ?u = "(new_repeater_admin [] p)\<lparr>selectedTarget := Some (js ''AB''), authenticatedRepeaters := [js ''ab'', js ''AB'']\<rparr>"
  let ?l = "(new_repeater_admin [] p)\<lparr>selectedTarget := Some (js ''ab''), authenticatedRepeaters := [js ''ab'']\<rparr>"
  have adm: "administrable [] ?u (js ''AB'')" "administrable [] ?l (js ''ab'')"
    by (simp_all add: administrable_def known_node_def new_repeater_admin_def js_or_def Let_def)
  have up: "toLowerCase (js ''AB'') = js ''ab''" "js ''AB'' \<noteq> js ''ab''" "toLowerCase (js ''ab'') = js ''ab''" by code_simp+
  have k: "canonical_key ?l (Str (js ''ab'')) = js ''ab''"
    by (simp add: canonical_key_def resolveCanonicalPubkey_def new_repeater_admin_def) code_simp
  have ne: "js ''AB'' \<noteq> []" "js ''ab'' \<noteq> []" by code_simp+
  show "unlocked (reopened [] ?u (js ''AB''))"
    using reopened_after_logout[OF _ ne(1) adm(1)] up by (auto simp del: js_simps)
  show "\<not> unlocked (reopened [] ?l (js ''ab''))"
    using reopened_after_logout[OF _ ne(2) adm(2)] k up(3) by (simp del: js_simps)
qed

end
