(* ===== verification/Analytics.thy ===== *)
theory Analytics
  imports Machine Numbers ApiClient
begin

section \<open>Traffic measurements (modules/analytics.js)\<close>

text \<open>
  The analytics tab downloads measurements for a range of time and the use of the air, and receives
  the latter over the bus as well. Requests carry a generation and an abort controller; changes of
  session or station clear what is shown. What the tab shows is a function of the last payloads:
  key figures, bars and rows are defined first, then the machine. Numbers are not put into the text of
  a locale; measurements have the shape that the bridge gives them (lists are lists, keys are text).
\<close>

subsection \<open>Figures\<close>

definition figure :: "jsval \<Rightarrow> string \<Rightarrow> jnum" where
  "figure v k = to_number (js_or (getp v (js k)) (Num (Fin 0)))"

definition figure_or_zero :: "jsval \<Rightarrow> string \<Rightarrow> jnum" where
  "figure_or_zero v k = to_number (if is_nullish (getp v (js k)) then Num (Fin 0) else getp v (js k))"

datatype tone = Success | Warning | Danger | Primary

record kpis =
  k_rx :: jnum
  k_tx :: jnum
  k_total :: jnum
  k_direct_pct :: jnum
  k_direct_tone :: tone
  k_direct :: jnum
  k_flood :: jnum
  k_error_rate :: jnum
  k_error_tone :: tone
  k_errors :: jnum

text \<open>The sum that the bridge gives, or else the sum of what was received and sent.\<close>

definition sum_of :: "jsval \<Rightarrow> string \<Rightarrow> string \<Rightarrow> string \<Rightarrow> jnum" where
  "sum_of v whole a b =
     (if truthy (getp v (js whole)) then to_number (getp v (js whole)) else jadd (figure v a) (figure v b))"

definition renderKpis :: "jsval \<Rightarrow> jsval \<Rightarrow> kpis" where
  "renderKpis summary data =
     (let eff = js_or (getp data (js ''routing_efficiency'')) (Obj []); rx = figure summary ''total_rx_packets'';
          tx = figure summary ''total_tx_packets'';
          direct = jmax (Fin 0) (jsub (Fin 100) (figure_or_zero eff ''flood_ratio_pct''));
          rate = figure_or_zero summary ''global_error_rate_pct''
      in \<lparr>k_rx = rx, k_tx = tx, k_total = jadd rx tx,
          k_direct_pct = direct,
          k_direct_tone = (if jle (Fin 70) direct then Success else if jle (Fin 40) direct then Warning else Primary),
          k_direct = sum_of eff ''total_direct'' ''direct_rx'' ''direct_tx'',
          k_flood = sum_of eff ''total_flood'' ''flood_rx'' ''flood_tx'',
          k_error_rate = rate,
          k_error_tone = (if jlt (Fin 5) rate then Danger else if jlt (Fin 1) rate then Warning else Success),
          k_errors = figure summary ''total_errors''\<rparr>)"

definition list_of :: "jsval \<Rightarrow> jsval list" where
  "list_of v = (case v of Arr xs \<Rightarrow> xs | _ \<Rightarrow> [])"

text \<open>The small curves need two points.\<close>

definition sparkline_values :: "jsval \<Rightarrow> string \<Rightarrow> jnum list option" where
  "sparkline_values data k =
     (let points = list_of (getp (getp data (js ''time_series'')) (js ''points'')) in
      if 1 < length points then Some (map (\<lambda>p. figure p k) points) else None)"

definition error_bars :: "jsval \<Rightarrow> (string \<times> jnum) list" where
  "error_bars data =
     (let e = js_or (getp data (js ''error_breakdown'')) (Obj []) in
      [(''analytics.err_crc'', figure e ''crc_errors''), (''analytics.err_timeout'', figure e ''timeouts''),
       (''analytics.err_cutoff'', figure e ''airtime_cutoff''), (''analytics.err_queue'', figure e ''queue_overflow'')])"

definition palette :: "(string \<times> string) list" where
  "palette =
     [(''CHAT'', ''analytics.type_chat''), (''ADVERT'', ''analytics.type_advert''), (''TELEMETRY'', ''analytics.type_telemetry''),
      (''TRACEROUTE'', ''analytics.type_traceroute''), (''PING'', ''analytics.type_ping''), (''ADMIN'', ''analytics.type_admin''),
      (''OTHER'', ''analytics.type_other'')]"

text \<open>Slices of the ring: the label's key, or the type itself when it has no label.\<close>

definition donut_slices :: "jsval \<Rightarrow> (jstr \<times> jnum) list" where
  "donut_slices data =
     (case getp data (js ''packet_type_breakdown'') of
        Obj ps \<Rightarrow> map (\<lambda>(k, v). ((case map_of (map (\<lambda>(a, b). (js a, js b)) palette) k of Some l \<Rightarrow> l | None \<Rightarrow> k),
                    if to_number v = NaN then Fin 0 else to_number v)) ps
      | _ \<Rightarrow> [])"

record top_row =
  r_name :: jstr
  r_role :: jstr
  r_role_class :: string
  r_rx :: jnum
  r_tx :: jnum
  r_total :: jnum
  r_signal :: string
  r_signal_class :: string

definition role_class :: "jsval \<Rightarrow> string" where
  "role_class r =
     (if r \<in> {Str (js ''REPEATER''), Str (js ''ROUTER'')} then ''badge-purple'' else if r = Str (js ''LOCAL'') then ''badge-success''
      else if r = Str (js ''ROOM'') then ''badge-warning'' else if r = Str (js ''SENSOR'') then ''badge-secondary'' else ''badge-primary'')"

definition signal_quality :: "jnum \<Rightarrow> string \<times> string" where
  "signal_quality snr =
     (if jlt snr (Fin (-10)) then (''signal.critical'', ''badge-danger'') else if jlt snr (Fin 0) then (''signal.weak'', ''badge-warning'')
      else if jlt snr (Fin 6) then (''signal.acceptable'', ''badge-primary'') else (''signal.excellent'', ''badge-success''))"

definition top_row_of :: "jsval \<Rightarrow> top_row" where
  "top_row_of n =
     (let p = (\<lambda>k. getp n (js k)); key = p ''public_key'';
          name = js_or (p ''name'') (js_or (p ''alias'') (if truthy key then Str ([0x5B] @ take 8 (to_string key) @ [0x5D]) else Str (js ''Nodo'')));
          role = js_or (p ''role'') (Str (js ''CLIENT'')); rx = figure n ''rx_packets''; tx = figure n ''tx_packets'';
          q = signal_quality (to_number (p ''last_snr''))
      in \<lparr>r_name = to_string name, r_role = to_string role, r_role_class = role_class role, r_rx = rx, r_tx = tx,
          r_total = (if truthy (p ''total_packets'') then to_number (p ''total_packets'') else jadd rx tx),
          r_signal = fst q, r_signal_class = snd q\<rparr>)"

definition renderTopActiveTable :: "jsval \<Rightarrow> top_row list" where
  "renderTopActiveTable nodes = map top_row_of (take 6 (list_of nodes))"

subsection \<open>Use of the air\<close>

definition jmul :: "jnum \<Rightarrow> jnum \<Rightarrow> jnum" where
  "jmul a b =
     (case (a, b) of
        (Fin x, Fin y) \<Rightarrow> Fin (x * y)
      | (NaN, _) \<Rightarrow> NaN | (_, NaN) \<Rightarrow> NaN
      | (Fin x, i) \<Rightarrow> if x = 0 then NaN else if 0 < x then i else jneg i
      | (i, Fin x) \<Rightarrow> if x = 0 then NaN else if 0 < x then i else jneg i
      | (i, j) \<Rightarrow> if i = j then PosInf else NegInf)"

text \<open>Division by a positive number.\<close>

definition jdiv_pos :: "jnum \<Rightarrow> jnum \<Rightarrow> jnum" where
  "jdiv_pos a b = (case b of Fin y \<Rightarrow> num_map (\<lambda>x. x / y) a | _ \<Rightarrow> (case a of Fin _ \<Rightarrow> Fin 0 | _ \<Rightarrow> NaN))"

datatype air_level = AirNormal | AirWarning | AirCritical

record airtime_view =
  av_used_ms :: jnum
  av_budget_ms :: jnum
  av_limit_pct :: jnum
  av_warn_pct :: jnum
  av_duty_pct :: jnum
  av_level :: air_level
  av_fill_pct :: jnum

definition fill_width :: "jnum \<Rightarrow> jnum \<Rightarrow> jnum" where
  "fill_width duty limit =
     (if jlt (Fin 0) limit then jmin (jmax (num_map (\<lambda>x. x * 100) (jdiv_pos duty limit)) (Fin 0)) (Fin 100) else Fin 0)"

definition airtime_level :: "jsval \<Rightarrow> jnum \<Rightarrow> jnum \<Rightarrow> jnum \<Rightarrow> air_level" where
  "airtime_level a duty limit warn =
     (let level = getp a (js ''level'');
          critical = (truthy (getp a (js ''is_critical'')) \<or> level = Str (js ''critical'') \<or> jle limit duty);
          warning = (truthy (getp a (js ''is_warning'')) \<or> level = Str (js ''warning'') \<or>
                     \<not> critical \<and> jle (jmul limit (num_map (\<lambda>x. x / 100) warn)) duty)
      in if critical then AirCritical else if warning then AirWarning else AirNormal)"

definition renderAirtimeStats :: "jsval \<Rightarrow> airtime_view" where
  "renderAirtimeStats a =
     (let limit = to_number (js_or (getp a (js ''hourly_limit_pct'')) (Num (Fin 1)));
          warn = to_number (js_or (getp a (js ''warn_threshold_pct'')) (Num (Fin 80)));
          duty = (if is_nullish (getp a (js ''hourly_duty_cycle_pct'')) then figure a ''duty_cycle_pct''
                  else to_number (getp a (js ''hourly_duty_cycle_pct'')))
      in \<lparr>av_used_ms = (if is_nullish (getp a (js ''hourly_used_ms'')) then figure a ''airtime_ms'' else to_number (getp a (js ''hourly_used_ms''))),
          av_budget_ms = (if truthy (getp a (js ''hourly_budget_ms'')) then to_number (getp a (js ''hourly_budget_ms''))
                          else jmul (Fin 3600000) (num_map (\<lambda>x. x / 100) limit)),
          av_limit_pct = limit, av_warn_pct = warn, av_duty_pct = duty, av_level = airtime_level a duty limit warn,
          av_fill_pct = fill_width duty limit\<rparr>)"

text \<open>The bar has a width between 0 and 100 per cent, whatever is reported, unless there is no number for it.\<close>

lemma fill_width_cases:
  "fill_width duty limit = NaN \<and> jlt (Fin 0) limit \<and> (duty = NaN \<or> \<not> finite_num duty \<and> limit = PosInf) \<or>
   (\<exists>q. fill_width duty limit = Fin q \<and> 0 \<le> q \<and> q \<le> 100)"
  by (cases duty; cases limit; simp add: fill_width_def jdiv_pos_def jmax_def jmin_def)

lemma fill_full: "0 < y \<Longrightarrow> fill_width (Fin x) (Fin y) = Fin 100 \<longleftrightarrow> y \<le> x"
  by (auto simp: fill_width_def jdiv_pos_def field_simps min_def max_def)

subsection \<open>The requests\<close>

datatype failure = Aborted | Failed

datatype request_state = Ready | Loading | LoadError | AuthRequired | AirtimeMissing

datatype analytics_task =
    Settling nat jstr
  | ReadingAnalytics nat jstr "http_response option"
  | ReadingAirtime nat jstr jsval

record analytics =
  currentRange :: jstr
  lastAnalytics :: "jsval option"
  shownRange :: jstr
  lastAirtime :: "jsval option"
  requestGeneration :: nat
  requestController :: "nat option"
  abortedControllers :: "nat list"
  requestState :: request_state
  panelBusy :: bool
  analyticsAccessDenied :: bool
  refreshTimer :: bool
  liveInterval :: bool
  a_requests :: "jstr list"
  a_tasks :: "(nat \<times> analytics_task) list"
  a_next :: nat

definition setRequestState :: "request_state \<Rightarrow> analytics \<Rightarrow> analytics" where
  "setRequestState s st = st\<lparr>requestState := s, panelBusy := (s = Loading)\<rparr>"

definition clearProtectedAnalytics :: "analytics \<Rightarrow> analytics" where
  "clearProtectedAnalytics st =
     st\<lparr>analyticsAccessDenied := True, lastAnalytics := None, lastAirtime := None, shownRange := js ''--''\<rparr>"

definition abort_controller :: "analytics \<Rightarrow> analytics" where
  "abort_controller st =
     (case requestController st of Some c \<Rightarrow> st\<lparr>abortedControllers := abortedControllers st @ [c]\<rparr> | None \<Rightarrow> st)"

definition add_task :: "analytics_task \<Rightarrow> analytics \<Rightarrow> analytics" where
  "add_task t st = st\<lparr>a_tasks := a_tasks st @ [(a_next st, t)], a_next := a_next st + 1\<rparr>"

text \<open>A new request takes the place of the one before; its number names its controller as well.\<close>

definition fetchAnalytics :: "analytics \<Rightarrow> analytics" where
  "fetchAnalytics st =
     (let st1 = abort_controller (st\<lparr>requestGeneration := requestGeneration st + 1\<rparr>); g = requestGeneration st1;
          st2 = setRequestState Loading (st1\<lparr>requestController := Some g, a_requests := a_requests st1 @ [currentRange st1]\<rparr>)
      in add_task (Settling g (currentRange st)) st2)"

text \<open>\<open>finally\<close>, and the three ways in which a request fails.\<close>

definition settled :: "nat \<Rightarrow> analytics \<Rightarrow> analytics" where
  "settled g st = (if g = requestGeneration st then st\<lparr>requestController := None, panelBusy := False\<rparr> else st)"

definition failed :: "nat \<Rightarrow> failure \<Rightarrow> analytics \<Rightarrow> analytics" where
  "failed g f st = settled g (if g \<noteq> requestGeneration st \<or> f = Aborted then st else setRequestState LoadError st)"

definition unauthorized :: "nat \<Rightarrow> analytics \<Rightarrow> analytics" where
  "unauthorized g st =
     settled g (if g \<noteq> requestGeneration st then st else setRequestState AuthRequired (clearProtectedAnalytics st))"

definition refused_by :: "failure + http_response \<Rightarrow> bool" where
  "refused_by r \<longleftrightarrow> (case r of Inl _ \<Rightarrow> False | Inr res \<Rightarrow> http_status res = 401 \<or> http_status res = 403)"

definition settle_answer :: "nat \<Rightarrow> jstr \<Rightarrow> failure + http_response \<Rightarrow> failure + http_response \<Rightarrow> analytics \<Rightarrow> analytics" where
  "settle_answer g rg ra rt st =
     (if g \<noteq> requestGeneration st then st
      else if refused_by ra \<or> refused_by rt then unauthorized g st
      else case ra of
        Inl f \<Rightarrow> failed g f st
      | Inr res \<Rightarrow>
          if \<not> response_ok res then failed g Failed st
          else add_task (ReadingAnalytics g rg (case rt of Inr r \<Rightarrow> if response_ok r then Some r else None | Inl _ \<Rightarrow> None)) st)"

text \<open>Both bodies have been read: what is shown is replaced, unless the request has been superseded.\<close>

definition present :: "nat \<Rightarrow> jstr \<Rightarrow> jsval \<Rightarrow> jsval \<Rightarrow> analytics \<Rightarrow> analytics" where
  "present g rg da dt st =
     (if g \<noteq> requestGeneration st \<or> g \<in> set (abortedControllers st) then settled g st
      else if getp da (js ''status'') = Str (js ''ok'') \<and> truthy (getp da (js ''data''))
      then let st1 = st\<lparr>analyticsAccessDenied := False, lastAnalytics := Some (getp da (js ''data'')), shownRange := rg\<rparr>
           in settled g (if getp dt (js ''status'') = Str (js ''ok'') \<and> truthy (getp dt (js ''data''))
                then setRequestState Ready (st1\<lparr>lastAirtime := Some (getp dt (js ''data''))\<rparr>)
                else setRequestState AirtimeMissing st1)
      else failed g Failed st)"

definition analytics_read :: "nat \<Rightarrow> jstr \<Rightarrow> http_response option \<Rightarrow> failure + jsval \<Rightarrow> analytics \<Rightarrow> analytics" where
  "analytics_read g rg airtime body st =
     (case body of
        Inl f \<Rightarrow> failed g f st
      | Inr da \<Rightarrow> (case airtime of Some _ \<Rightarrow> add_task (ReadingAirtime g rg da) st | None \<Rightarrow> present g rg da Null st))"

definition airtime_read :: "nat \<Rightarrow> jstr \<Rightarrow> jsval \<Rightarrow> failure + jsval \<Rightarrow> analytics \<Rightarrow> analytics" where
  "airtime_read g rg da body st =
     (case body of Inl Aborted \<Rightarrow> failed g Aborted st | Inl Failed \<Rightarrow> present g rg da Null st | Inr dt \<Rightarrow> present g rg da dt st)"

text \<open>Measurements that are pushed: the payload's airtime, or the payload itself when it has a duty cycle.\<close>

definition metrics_airtime :: "jsval \<Rightarrow> jsval" where
  "metrics_airtime p =
     js_or (getp p (js ''airtime''))
       (if \<not> is_nullish (getp p (js ''duty_cycle_pct'')) \<or> \<not> is_nullish (getp p (js ''hourly_duty_cycle_pct'')) then p else Null)"

definition show_airtime :: "jsval \<Rightarrow> jsval \<Rightarrow> analytics \<Rightarrow> analytics" where
  "show_airtime p a st = (if truthy p \<and> \<not> analyticsAccessDenied st \<and> truthy a then st\<lparr>lastAirtime := Some a\<rparr> else st)"

definition access_changed :: "analytics \<Rightarrow> analytics" where
  "access_changed st = clearProtectedAnalytics (abort_controller (st\<lparr>requestGeneration := requestGeneration st + 1\<rparr>))"

datatype answer = Settled "failure + http_response" "failure + http_response" | Read "failure + jsval"

datatype analytics_event =
    RefreshClicked
  | RangeClicked jstr
  | ResetConfirmed jsval
  | SessionChanged
  | HistoryDenied
  | TabChanged bool
  | LiveTick bool bool
  | PacketSeen bool
  | RefreshFired bool bool
  | MetricsUpdate jsval
  | DutyCycleAlert jsval
  | LanguageChanged
  | TaskAnswered nat answer
  | Destroyed

definition task_answered :: "analytics_task \<Rightarrow> answer \<Rightarrow> analytics \<Rightarrow> analytics" where
  "task_answered t a st =
     (case (t, a) of
        (Settling g rg, Settled ra rt) \<Rightarrow> settle_answer g rg ra rt st
      | (ReadingAnalytics g rg airtime, Read body) \<Rightarrow> analytics_read g rg airtime body st
      | (ReadingAirtime g rg da, Read body) \<Rightarrow> airtime_read g rg da body st
      | _ \<Rightarrow> st)"

definition analytics_step :: "analytics_event \<Rightarrow> analytics \<Rightarrow> analytics" where
  "analytics_step ev st =
     (case ev of
        RefreshClicked \<Rightarrow> fetchAnalytics st
      | RangeClicked r \<Rightarrow> if r = [] \<or> r = currentRange st then st else fetchAnalytics (st\<lparr>currentRange := r\<rparr>)
      | ResetConfirmed d \<Rightarrow> if getp d (js ''status'') = Str (js ''ok'') then fetchAnalytics st else st
      | SessionChanged \<Rightarrow> fetchAnalytics (access_changed st)
      | HistoryDenied \<Rightarrow> setRequestState AuthRequired (clearProtectedAnalytics
           ((abort_controller (st\<lparr>requestGeneration := requestGeneration st + 1\<rparr>))\<lparr>requestController := None\<rparr>))
      | TabChanged analytics \<Rightarrow>
          if analytics then (fetchAnalytics st)\<lparr>liveInterval := True\<rparr> else st\<lparr>liveInterval := False\<rparr>
      | LiveTick hidden active \<Rightarrow>
          if \<not> liveInterval st \<or> hidden then st else if active then fetchAnalytics st else st\<lparr>liveInterval := False\<rparr>
      | PacketSeen hidden \<Rightarrow> if hidden then st else st\<lparr>refreshTimer := True\<rparr>
      | RefreshFired hidden active \<Rightarrow>
          if \<not> refreshTimer st then st
          else let st1 = st\<lparr>refreshTimer := False\<rparr> in if \<not> hidden \<and> active then fetchAnalytics st1 else st1
      | MetricsUpdate p \<Rightarrow> show_airtime p (metrics_airtime p) st
      | DutyCycleAlert p \<Rightarrow> show_airtime p p st
      | LanguageChanged \<Rightarrow> setRequestState (requestState st) st
      | TaskAnswered n a \<Rightarrow>
          (case map_of (a_tasks st) n of
             Some t \<Rightarrow> task_answered t a (st\<lparr>a_tasks := filter (\<lambda>(m, _). m \<noteq> n) (a_tasks st)\<rparr>)
           | None \<Rightarrow> st)
      | Destroyed \<Rightarrow> (abort_controller (st\<lparr>liveInterval := False, refreshTimer := False\<rparr>))\<lparr>requestController := None\<rparr>)"

definition new_analytics :: analytics where
  "new_analytics = clearProtectedAnalytics
     \<lparr>currentRange = js ''24h'', lastAnalytics = None, shownRange = [], lastAirtime = None, requestGeneration = 0,
      requestController = None, abortedControllers = [], requestState = Ready, panelBusy = False, analyticsAccessDenied = False,
      refreshTimer = False, liveInterval = False, a_requests = [], a_tasks = [], a_next = 0\<rparr>"

subsection \<open>Superseded requests\<close>

fun task_gen :: "analytics_task \<Rightarrow> nat" where
  "task_gen (Settling g rg) = g"
| "task_gen (ReadingAnalytics g rg r) = g"
| "task_gen (ReadingAirtime g rg d) = g"

fun task_range :: "analytics_task \<Rightarrow> jstr" where
  "task_range (Settling g rg) = rg"
| "task_range (ReadingAnalytics g rg r) = rg"
| "task_range (ReadingAirtime g rg d) = rg"

text \<open>Everything but the list of tasks.\<close>

definition panel_of :: "analytics \<Rightarrow> analytics" where
  "panel_of st = st\<lparr>a_tasks := [], a_next := 0\<rparr>"

lemma panel_of_upd [simp]: "panel_of (st\<lparr>a_tasks := ts\<rparr>) = panel_of st" "panel_of (add_task t st) = panel_of st"
  by (simp_all add: panel_of_def add_task_def)

lemma superseded_ignored: "task_gen t \<noteq> requestGeneration st \<Longrightarrow> panel_of (task_answered t a st) = panel_of st"
  by (cases t; cases a)
    (auto simp: task_answered_def settle_answer_def analytics_read_def airtime_read_def failed_def settled_def present_def
      split: sum.split option.split failure.split)

subsection \<open>What the panel shows\<close>

definition measured :: "analytics \<Rightarrow> bool" where
  "measured st \<longleftrightarrow> (analyticsAccessDenied st \<longleftrightarrow> lastAnalytics st = None) \<and> (lastAnalytics st = None \<longrightarrow> lastAirtime st = None)"

definition range_shown :: "analytics \<Rightarrow> bool" where
  "range_shown st \<longleftrightarrow> requestState st \<in> {Ready, AirtimeMissing} \<and> lastAnalytics st \<noteq> None \<longrightarrow> shownRange st = currentRange st"

definition task_current :: "nat \<Rightarrow> jstr \<Rightarrow> analytics_task \<Rightarrow> bool" where
  "task_current g rg t \<longleftrightarrow> task_gen t \<le> g \<and> (task_gen t = g \<longrightarrow> task_range t = rg)"

definition tasks_current :: "analytics \<Rightarrow> bool" where
  "tasks_current st \<longleftrightarrow> (\<forall>(n, t) \<in> set (a_tasks st). task_current (requestGeneration st) (currentRange st) t)"

definition analytics_sound :: "analytics \<Rightarrow> bool" where
  "analytics_sound st \<longleftrightarrow> measured st \<and> range_shown st \<and> tasks_current st"

lemmas sound_defs = analytics_sound_def measured_def range_shown_def tasks_current_def task_current_def

lemma abort_sel [simp]:
  "requestGeneration (abort_controller st) = requestGeneration st" "currentRange (abort_controller st) = currentRange st"
  "a_tasks (abort_controller st) = a_tasks st" "lastAnalytics (abort_controller st) = lastAnalytics st"
  "lastAirtime (abort_controller st) = lastAirtime st" "analyticsAccessDenied (abort_controller st) = analyticsAccessDenied st"
  "requestState (abort_controller st) = requestState st" "shownRange (abort_controller st) = shownRange st"
  "a_next (abort_controller st) = a_next st"
  by (simp_all add: abort_controller_def split: option.split)

lemma settled_sound [simp]: "analytics_sound (settled g st) = analytics_sound st"
  by (simp add: settled_def sound_defs)

lemma failed_sound: "analytics_sound st \<Longrightarrow> analytics_sound (failed g f st)"
  by (simp add: failed_def, auto simp: sound_defs setRequestState_def)

lemma unauthorized_sound: "analytics_sound st \<Longrightarrow> analytics_sound (unauthorized g st)"
  by (simp add: unauthorized_def, auto simp: sound_defs setRequestState_def clearProtectedAnalytics_def)

lemma task_sound:
  "analytics_sound st \<Longrightarrow> task_current (requestGeneration st) (currentRange st) t \<Longrightarrow> analytics_sound (add_task t st)"
  by (auto simp: sound_defs add_task_def)

lemma present_sound:
  "analytics_sound st \<Longrightarrow> (g = requestGeneration st \<longrightarrow> rg = currentRange st) \<Longrightarrow> analytics_sound (present g rg da dt st)"
  by (simp add: present_def failed_sound Let_def, auto simp: sound_defs setRequestState_def)

text \<open>A new request makes the state sound, whatever range and access there were before.\<close>

lemma fetch_sound:
  "measured st \<Longrightarrow> \<forall>(n, t) \<in> set (a_tasks st). task_gen t \<le> requestGeneration st \<Longrightarrow> analytics_sound (fetchAnalytics st)"
  by (fastforce simp: fetchAnalytics_def sound_defs add_task_def setRequestState_def Let_def)

lemma task_answered_sound:
  assumes "analytics_sound st" "task_current (requestGeneration st) (currentRange st) t"
  shows "analytics_sound (task_answered t a st)"
proof -
  have next_task: "task_current (requestGeneration st) (currentRange st) u" if "task_gen u = task_gen t" "task_range u = task_range t" for u
    using that assms(2) by (simp add: task_current_def)
  have rg: "task_gen t = requestGeneration st \<longrightarrow> task_range t = currentRange st" using assms(2) by (simp add: task_current_def)
  show ?thesis
    using assms(1) next_task rg
    by (cases t; cases a)
      (auto simp: task_answered_def settle_answer_def analytics_read_def airtime_read_def failed_sound unauthorized_sound present_sound
        intro!: task_sound split: sum.split option.split failure.split)
qed

lemma analytics_step_sound:
  assumes "analytics_sound st"
  shows "analytics_sound (analytics_step ev st)"
proof -
  have m: "measured st" and t: "\<forall>(n, t) \<in> set (a_tasks st). task_gen t \<le> requestGeneration st"
    using assms by (auto simp: sound_defs)
  have fetch: "analytics_sound (fetchAnalytics st)" using m t by (rule fetch_sound)
  have range: "analytics_sound (fetchAnalytics (st\<lparr>currentRange := r\<rparr>))" for r
    by (rule fetch_sound) (use m t in \<open>auto simp: measured_def\<close>)
  have timer: "analytics_sound (fetchAnalytics (st\<lparr>refreshTimer := b\<rparr>))" for b
    by (rule fetch_sound) (use m t in \<open>auto simp: measured_def\<close>)
  have session: "analytics_sound (fetchAnalytics (access_changed st))"
    by (rule fetch_sound) (use m t in \<open>fastforce simp: measured_def access_changed_def clearProtectedAnalytics_def\<close>)+
  have denied: "analytics_sound (setRequestState AuthRequired (clearProtectedAnalytics
      ((abort_controller (st\<lparr>requestGeneration := Suc (requestGeneration st)\<rparr>))\<lparr>requestController := None\<rparr>)))"
    using t by (fastforce simp: sound_defs setRequestState_def clearProtectedAnalytics_def)
  have plain: "analytics_sound (x\<lparr>liveInterval := b\<rparr>) = analytics_sound x" "analytics_sound (x\<lparr>refreshTimer := b\<rparr>) = analytics_sound x"
    "analytics_sound (x\<lparr>requestController := c\<rparr>) = analytics_sound x"
    "analytics_sound (abort_controller x) = analytics_sound x" "analytics_sound (setRequestState (requestState x) x) = analytics_sound x"
    for x b c by (simp_all add: sound_defs setRequestState_def)
  have air: "analytics_sound (show_airtime p a st)" for p a using assms by (auto simp: show_airtime_def sound_defs)
  have answered: "analytics_sound (task_answered t a (st\<lparr>a_tasks := filter (\<lambda>(m, _). m \<noteq> n) (a_tasks st)\<rparr>))"
    if "map_of (a_tasks st) n = Some t" for n t a
    by (rule task_answered_sound) (use assms map_of_SomeD[OF that] in \<open>auto simp: sound_defs\<close>)
  show ?thesis
    by (cases ev) (simp_all add: analytics_step_def assms fetch range timer session denied plain air answered Let_def split: option.split)
qed

interpretation measurements: initial_invariant analytics_step "\<lambda>_. True" analytics_sound new_analytics
  by unfold_locales (simp_all add: analytics_step_sound, simp add: sound_defs new_analytics_def clearProtectedAnalytics_def)

text \<open>
  C30: When the tab says that its measurements are complete, or that only the use of the air is missing,
  the measurements it shows are those of the range that is selected, in every run and however the
  answers of overlapping requests arrive.
\<close>

theorem ready_panel_shows_selected_range:
  assumes "st = fold analytics_step evs new_analytics" "requestState st = Ready \<or> requestState st = AirtimeMissing"
  shows "if analyticsAccessDenied st then lastAnalytics st = None \<and> lastAirtime st = None
    else lastAnalytics st \<noteq> None \<and> shownRange st = currentRange st"
proof -
  have "analytics_sound st" unfolding assms(1) by (rule measurements.always) (simp add: list_all_iff)
  with assms(2) show ?thesis by (auto simp: sound_defs)
qed

definition sample_answer :: "jsval \<Rightarrow> http_response" where
  "sample_answer d = \<lparr>http_status = 200, http_statusText = [], http_contentType = None, http_json = Some d, http_text = []\<rparr>"

lemma ready_panel_shows_selected_range_witness:
  "let d = Obj [(js ''status'', Str (js ''ok'')), (js ''data'', Obj [])]; r = sample_answer d;
       st = fold analytics_step [RefreshClicked, RangeClicked (js ''7d''), TaskAnswered 0 (Settled (Inr r) (Inl Failed)),
              TaskAnswered 1 (Settled (Inr r) (Inl Failed)), TaskAnswered 2 (Read (Inr d))] new_analytics
   in requestState st = AirtimeMissing \<and> \<not> analyticsAccessDenied st \<and> shownRange st = js ''7d''"
proof -
  let ?d = "Obj [(js ''status'', Str (js ''ok'')), (js ''data'', Obj [])]"
  let ?r = "sample_answer ?d"
  let ?evs = "[RefreshClicked, RangeClicked (js ''7d''), TaskAnswered 0 (Settled (Inr ?r) (Inl Failed)),
    TaskAnswered 1 (Settled (Inr ?r) (Inl Failed)), TaskAnswered 2 (Read (Inr ?d))]"
  let ?st = "fold analytics_step ?evs new_analytics"
  have run: "requestState ?st = AirtimeMissing" "\<not> analyticsAccessDenied ?st" "currentRange ?st = js ''7d''"
    by code_simp+
  have "shownRange ?st = currentRange ?st"
    using ready_panel_shows_selected_range[OF refl, of ?evs] run by (simp del: fold_simps js_simps)
  with run show ?thesis by (simp only: Let_def) blast
qed

subsection \<open>Changes of session\<close>

definition answers_newer :: "nat \<Rightarrow> analytics \<Rightarrow> analytics_event \<Rightarrow> bool" where
  "answers_newer g st ev \<longleftrightarrow> (case ev of
      TaskAnswered n _ \<Rightarrow> (case map_of (a_tasks st) n of Some t \<Rightarrow> g < task_gen t | None \<Rightarrow> False) | _ \<Rightarrow> False)"

definition forgotten :: "nat \<Rightarrow> analytics \<Rightarrow> bool" where
  "forgotten g st \<longleftrightarrow> g < requestGeneration st \<and> analyticsAccessDenied st \<and> lastAnalytics st = None \<and> lastAirtime st = None"

lemma forgotten_panel: "panel_of x = panel_of st \<Longrightarrow> forgotten g x = forgotten g st"
  by (drule arg_cong[of _ _ "\<lambda>s. (requestGeneration s, analyticsAccessDenied s, lastAnalytics s, lastAirtime s)"])
    (simp add: panel_of_def forgotten_def)

lemma forgotten_fetch: "forgotten g st \<Longrightarrow> forgotten g (fetchAnalytics st)"
  by (simp add: forgotten_def fetchAnalytics_def add_task_def setRequestState_def Let_def)

lemma forgotten_stays:
  assumes "forgotten g st" "\<not> answers_newer g st ev"
  shows "forgotten g (analytics_step ev st)"
proof -
  have plain: "forgotten g (x\<lparr>liveInterval := b\<rparr>) = forgotten g x" "forgotten g (x\<lparr>refreshTimer := b\<rparr>) = forgotten g x"
    "forgotten g (x\<lparr>requestController := c\<rparr>) = forgotten g x" "forgotten g (x\<lparr>currentRange := r\<rparr>) = forgotten g x"
    "forgotten g (abort_controller x) = forgotten g x" "forgotten g (setRequestState s x) = forgotten g x"
    for x b c r s by (simp_all add: forgotten_def setRequestState_def)
  have cleared: "forgotten g (clearProtectedAnalytics x)" if "g < requestGeneration x" for x
    using that by (simp add: forgotten_def clearProtectedAnalytics_def)
  have air: "show_airtime p a st = st" for p a using assms(1) by (simp add: show_airtime_def forgotten_def)
  have g: "g < requestGeneration st" using assms(1) by (simp add: forgotten_def)
  have answered: "forgotten g (task_answered t a (st\<lparr>a_tasks := ts\<rparr>))" if "task_gen t \<le> g" for t a ts
  proof -
    have "panel_of (task_answered t a (st\<lparr>a_tasks := ts\<rparr>)) = panel_of st"
      using superseded_ignored[of t "st\<lparr>a_tasks := ts\<rparr>" a] that g by simp
    from forgotten_panel[OF this] show ?thesis using assms(1) by simp
  qed
  have change: "forgotten g (clearProtectedAnalytics ((abort_controller (st\<lparr>requestGeneration := Suc (requestGeneration st)\<rparr>))\<lparr>requestController := c\<rparr>))"
    "forgotten g (access_changed st)" for c
    using g by (simp_all add: cleared access_changed_def)
  show ?thesis
  proof (cases "\<exists>n a. ev = TaskAnswered n a")
    case True
    then obtain n a where ev: "ev = TaskAnswered n a" by blast
    show ?thesis
    proof (cases "map_of (a_tasks st) n")
      case (Some t)
      with assms(2) have "task_gen t \<le> g" by (simp add: ev answers_newer_def)
      with Some show ?thesis by (simp add: ev analytics_step_def answered)
    qed (simp add: ev analytics_step_def assms(1))
  next
    case False
    then show ?thesis
      by (cases ev) (simp_all add: analytics_step_def plain forgotten_fetch air change assms(1) Let_def)
  qed
qed

lemma forgotten_until:
  "forgotten g st \<Longrightarrow> \<not> forgotten g (fold analytics_step evs st) \<Longrightarrow>
     \<exists>evs1 ev evs2. evs = evs1 @ ev # evs2 \<and> answers_newer g (fold analytics_step evs1 st) ev"
proof (induction evs arbitrary: st)
  case (Cons ev evs)
  show ?case
  proof (cases "answers_newer g st ev")
    case True
    then have "ev # evs = [] @ ev # evs \<and> answers_newer g (fold analytics_step [] st) ev" by simp
    then show ?thesis by blast
  next
    case False
    with Cons obtain evs1 e evs2 where "evs = evs1 @ e # evs2" "answers_newer g (fold analytics_step evs1 (analytics_step ev st)) e"
      using forgotten_stays[of g st ev] by fastforce
    then have "ev # evs = (ev # evs1) @ e # evs2 \<and> answers_newer g (fold analytics_step (ev # evs1) st) e" by simp
    then show ?thesis by blast
  qed
qed simp

text \<open>
  C31: A change of session or station, or the loss of access, forgets the measurements: whatever is
  shown afterwards came after the answer to a request that was made after the change. Neither late
  answers to older requests nor measurements pushed over the bus bring anything back.
\<close>

theorem session_change_forgets_measurements:
  assumes "ev0 = SessionChanged \<or> ev0 = HistoryDenied"
    and "w = fold analytics_step evs (analytics_step ev0 v)"
    and "lastAnalytics w \<noteq> None \<or> lastAirtime w \<noteq> None \<or> \<not> analyticsAccessDenied w"
  shows "\<exists>evs1 n a evs2 t. evs = evs1 @ TaskAnswered n a # evs2 \<and>
    map_of (a_tasks (fold analytics_step evs1 (analytics_step ev0 v))) n = Some t \<and> requestGeneration v < task_gen t"
proof -
  have "forgotten (requestGeneration v) (analytics_step ev0 v)"
    using assms(1) by (auto simp: forgotten_def analytics_step_def access_changed_def fetchAnalytics_def add_task_def
        setRequestState_def clearProtectedAnalytics_def Let_def)
  moreover have "\<not> forgotten (requestGeneration v) w" using assms(3) by (auto simp: forgotten_def)
  ultimately obtain evs1 ev evs2 where "evs = evs1 @ ev # evs2"
    and "answers_newer (requestGeneration v) (fold analytics_step evs1 (analytics_step ev0 v)) ev"
    unfolding assms(2) using forgotten_until by blast
  then show ?thesis by (cases ev) (auto simp: answers_newer_def split: option.splits)
qed

lemma session_change_forgets_measurements_witness:
  "let d = Obj [(js ''status'', Str (js ''ok'')), (js ''data'', Obj [])]; r = sample_answer d;
       evs = [TaskAnswered 0 (Settled (Inr r) (Inl Failed)), TaskAnswered 1 (Settled (Inr r) (Inl Failed)), TaskAnswered 2 (Read (Inr d))]
   in \<exists>evs1 n a evs2 t. evs = evs1 @ TaskAnswered n a # evs2 \<and>
        map_of (a_tasks (fold analytics_step evs1 (analytics_step SessionChanged (analytics_step RefreshClicked new_analytics)))) n = Some t \<and>
        1 < task_gen t"
proof -
  let ?d = "Obj [(js ''status'', Str (js ''ok'')), (js ''data'', Obj [])]"
  let ?r = "sample_answer ?d"
  let ?v = "analytics_step RefreshClicked new_analytics"
  let ?evs = "[TaskAnswered 0 (Settled (Inr ?r) (Inl Failed)), TaskAnswered 1 (Settled (Inr ?r) (Inl Failed)), TaskAnswered 2 (Read (Inr ?d))]"
  have shown: "lastAnalytics (fold analytics_step ?evs (analytics_step SessionChanged ?v)) \<noteq> None"
    by (simp add: analytics_step_def access_changed_def fetchAnalytics_def abort_controller_def add_task_def setRequestState_def
        task_answered_def settle_answer_def analytics_read_def present_def settled_def refused_by_def sample_answer_def response_ok_def
        new_analytics_def clearProtectedAnalytics_def getp_def Let_def)
  have g: "requestGeneration ?v = 1"
    by (simp add: analytics_step_def fetchAnalytics_def add_task_def setRequestState_def new_analytics_def clearProtectedAnalytics_def Let_def)
  show ?thesis unfolding Let_def
    using session_change_forgets_measurements[OF _ refl, of SessionChanged ?evs ?v] shown unfolding g by blast
qed

text \<open>
  The bar of the use of the air stays between 0 and 100 per cent for every duty cycle and every
  positive limit, it is full exactly when the limit is reached, and then the level is critical
  whatever the bridge says of it.
\<close>

theorem airtime_bar_bounded:
  assumes "v = renderAirtimeStats a" "av_duty_pct v = Fin d" "av_limit_pct v = Fin l" "0 < l"
  shows "\<exists>q. av_fill_pct v = Fin q \<and> 0 \<le> q \<and> q \<le> 100 \<and> (q = 100 \<longleftrightarrow> l \<le> d) \<and> (q = 100 \<longrightarrow> av_level v = AirCritical)"
proof -
  have v: "av_fill_pct v = fill_width (Fin d) (Fin l)" "av_level v = airtime_level a (Fin d) (Fin l) (av_warn_pct v)"
    using assms by (auto simp: renderAirtimeStats_def Let_def)
  obtain q where q: "fill_width (Fin d) (Fin l) = Fin q" "0 \<le> q" "q \<le> 100" using fill_width_cases[of "Fin d" "Fin l"] by auto
  have full: "q = 100 \<longleftrightarrow> l \<le> d" using fill_full[OF assms(4), of d] q(1) by simp
  have "av_level v = AirCritical" if "l \<le> d" using that v(2) by (simp add: airtime_level_def)
  with q full show ?thesis by (simp add: v(1))
qed

lemma airtime_bar_bounded_witness:
  "\<exists>q. av_fill_pct (renderAirtimeStats (Obj [(js ''duty_cycle_pct'', Num (Fin (3 / 2)))])) = Fin q \<and> 0 \<le> q \<and> q \<le> 100"
  using airtime_bar_bounded[OF refl, of "Obj [(js ''duty_cycle_pct'', Num (Fin (3 / 2)))]" "3 / 2" 1]
  by (simp add: renderAirtimeStats_def figure_def getp_def js_or_def is_nullish_def to_number_def Let_def)

end
