(* ===== verification/StationSettings.thy ===== *)
theory StationSettings
  imports RepeaterFields Machine
begin

section \<open>The settings of the station itself (modules/settings.js)\<close>

text \<open>
  Radio parameters, identity and position of the station, its clock and uptime. Fields are kept as in
  the panel of a repeater (\<open>RepeaterFields\<close>, whose \<open>remoteRadioPreferences\<close> stay empty here): edits are
  drafts with versions. A configuration is read over REST, pushed over the bus, or part of the answer
  to a save; reads carry the revision and the sequence of their start. Badges, summaries, messages, the
  firmware console, custom variables, flood scope and automatic contacts are left out, and what a
  browser refuses of a text in a number field.
\<close>

subsection \<open>Fields\<close>

text \<open>A coding rate is written as a fraction.\<close>

definition coding_rate_text :: "jsval \<Rightarrow> jstr" where
  "coding_rate_text v =
     (if 0x2F \<in> set (to_string v) then to_string v
      else if v \<in> Num ` Fin ` {5, 6, 7, 8} then js ''4/'' @ to_string v else to_string v)"

definition bandwidth_text :: "jsval \<Rightarrow> jstr" where
  "bandwidth_text v =
     (let raw = parse_float v; b = (if jlt (Fin 1000) raw then num_map (\<lambda>q. q / 1000) raw else raw) in
      case find (\<lambda>o1. parse_float (Str (js o1)) = b)
        [''7.8'', ''10.4'', ''15.6'', ''20.8'', ''31.25'', ''41.7'', ''62.5'', ''125'', ''250'', ''500''] of
        Some o1 \<Rightarrow> js o1 | None \<Rightarrow> num_str b)"

text \<open>The first name that has a value.\<close>

definition cfg_of :: "props \<Rightarrow> string list \<Rightarrow> jsval" where
  "cfg_of cfg ks = foldr (\<lambda>k v. nullish (fld cfg k) v) ks Undefined"

definition has_cfg :: "props \<Rightarrow> string list \<Rightarrow> bool" where
  "has_cfg cfg ks \<longleftrightarrow> list_ex (\<lambda>k. fld cfg k \<noteq> Undefined) ks"

definition write_value :: "string \<Rightarrow> jsval \<Rightarrow> (string \<times> field_write) list" where
  "write_value i v = (if is_nullish v then [] else [(i, SetValue v)])"

definition write_text :: "string \<Rightarrow> (jsval \<Rightarrow> jstr) \<Rightarrow> jsval \<Rightarrow> (string \<times> field_write) list" where
  "write_text i text v = (if is_nullish v then [] else [(i, SetValue (Str (text v)))])"

definition positive :: "jsval \<Rightarrow> bool" where
  "positive v \<longleftrightarrow> jlt (Fin 0) (to_number v)"

text \<open>An interval field: switched off, it is given a value only if it has none.\<close>

definition interval_writes :: "string \<Rightarrow> string \<Rightarrow> string \<Rightarrow> bool \<Rightarrow> jsval \<Rightarrow> remote_form \<Rightarrow> (string \<times> field_write) list" where
  "interval_writes toggle input initial on v f =
     (if is_nullish v then []
      else [(toggle, SetChecked on)] @
        (if (if toggle = ''localAdvertEnable'' then on else positive v) then [(input, SetValue v)]
         else if raw_value (fieldValues f input) = Str [] then [(input, SetValue (Str (js initial)))] else []))"

definition station_writes :: "props \<Rightarrow> remote_form \<Rightarrow> (string \<times> field_write) list" where
  "station_writes cfg f =
     (let c = cfg_of cfg; adv = c [''advert_interval'', ''beacon_interval'']; telem = c [''telemetry_interval''];
          flag = (\<lambda>i v. if is_nullish v then [] else [(i, SetChecked (truthy v))]);
          flag_if = (\<lambda>i k. if fld cfg k = Undefined then [] else [(i, SetChecked (truthy (fld cfg k)))]);
          text_if = (\<lambda>i k. if fld cfg k = Undefined then [] else [(i, SetValue (Str (if fld cfg k = Null then [] else to_string (fld cfg k))))]);
          shown_if = (\<lambda>i k. if fld cfg k = Undefined then [] else [(i, SetValue (Str (to_string (fld cfg k))))])
      in (if truthy (fld cfg ''name'') then [(''localNodeName'', SetValue (fld cfg ''name''))] else []) @
         write_value ''localFreq'' (c [''frequency'', ''radio_freq'']) @
         write_value ''localSf'' (c [''spreading_factor'', ''radio_sf'', ''sf'']) @
         write_text ''localBw'' bandwidth_text (c [''bandwidth'', ''radio_bw'', ''bw'']) @
         write_text ''localCr'' coding_rate_text (c [''coding_rate'', ''radio_cr'', ''cr'']) @
         write_value ''localTxPower'' (c [''tx_power'', ''power'']) @
         write_value ''localHopLimit'' (c [''hop_limit'', ''hops'']) @
         flag ''localRepeatMode'' (c [''repeat'', ''repeat_enabled'']) @
         interval_writes ''localAdvertEnable'' ''localAdvertInterval'' ''300'' (positive adv) adv f @
         interval_writes ''localTelemetryEnable'' ''localTelemetryInterval'' ''60''
           (positive telem \<and> fld cfg ''telemetry_mode_base'' \<noteq> Num (Fin 0)) telem f @
         (if has_cfg cfg [''owner_info'', ''owner'']
          then [(''localOwnerInfo'', SetValue (nullish (c [''owner_info'', ''owner'']) (Str [])))] else []) @
         write_value ''localGpsLat'' (c [''latitude'', ''adv_lat'']) @
         write_value ''localGpsLon'' (c [''longitude'', ''adv_lon'']) @
         write_value ''localGpsAlt'' (c [''altitude_m'', ''altitude'', ''alt'']) @
         flag ''localPosFixed'' (c [''fixed_position'', ''pos_fixed'']) @
         (if has_cfg cfg [''pin'', ''device_pin'']
          then [(''localDevicePin'', SetValue (Str (let p = c [''pin'', ''device_pin''] in if is_nullish p then [] else to_string p)))] else []) @
         shown_if ''localPathHashMode'' ''path_hash_mode'' @ text_if ''localRxDelay'' ''rx_delay'' @
         text_if ''localAirtimeFactor'' ''airtime_factor'' @ shown_if ''localTelemBase'' ''telemetry_mode_base'' @
         shown_if ''localTelemLoc'' ''telemetry_mode_loc'' @ shown_if ''localTelemEnv'' ''telemetry_mode_env'' @
         flag_if ''localAdvLocPolicy'' ''adv_loc_policy'' @ flag_if ''localMultiAcks'' ''multi_acks'' @
         flag_if ''localManualAddContacts'' ''manual_add_contacts'')"

text \<open>Intervals that the station does not support are emptied, drafts included.\<close>

definition unsupported_fields :: "props \<Rightarrow> string list" where
  "unsupported_fields cfg =
     (let cap = js_or (fld cfg ''capabilities'') (Obj []); off = (\<lambda>k. getp cap (js k) = Bool False) in
      (if off ''telemetry_interval'' then [''localTelemetryEnable'', ''localTelemetryInterval''] else []) @
      (if off ''advert_interval'' then [''localAdvertEnable'', ''localAdvertInterval''] else []))"

definition empty_field :: "string \<Rightarrow> field_value" where
  "empty_field i = (if i \<in> {''localTelemetryEnable'', ''localAdvertEnable''} then Chk False else Txt [])"

definition applyLocalConfigCapabilities :: "props \<Rightarrow> remote_form \<Rightarrow> remote_form" where
  "applyLocalConfigCapabilities cfg f =
     f\<lparr>fieldValues := (\<lambda>i. if i \<in> set (unsupported_fields cfg) then empty_field i else fieldValues f i)\<rparr>"

definition show_config :: "string list \<Rightarrow> props \<Rightarrow> remote_form \<Rightarrow> remote_form" where
  "show_config confirmed cfg f =
     applyLocalConfigCapabilities cfg (fold (setFieldIfNotDirty confirmed) (station_writes cfg f) f)"

text \<open>A preset is an edit of five fields.\<close>

definition preset_edits :: "jsval \<Rightarrow> (string \<times> jstr) list" where
  "preset_edits p =
     (let g = (\<lambda>k. getp p (js k)); shown = (\<lambda>i k. if truthy (g k) then [(i, to_string (g k))] else []) in
      shown ''localFreq'' ''frequency'' @ shown ''localSf'' ''spreading_factor'' @ shown ''localBw'' ''bandwidth'' @
      (if truthy (g ''coding_rate'') then [(''localCr'', coding_rate_text (g ''coding_rate''))] else []) @
      (if is_nullish (g ''path_hash_mode'') then [] else [(''localPathHashMode'', to_string (g ''path_hash_mode''))]))"

definition apply_preset :: "jsval \<Rightarrow> remote_form \<Rightarrow> remote_form" where
  "apply_preset p f = fold (\<lambda>(i, s). edit_field i (Txt s)) (preset_edits p) f"

definition station_region :: "string \<Rightarrow> remote_form \<Rightarrow> remote_form" where
  "station_region reg f =
     (let f1 = edit_field ''localRegion'' (Txt (js reg)) f in
      case map_of REGION_FREQUENCIES reg of Some mhz \<Rightarrow> edit_field ''localFreq'' (Txt (js mhz)) f1 | None \<Rightarrow> f1)"

subsection \<open>Drafts\<close>

datatype save_kind = RadioSave | IdentitySave

datatype station_conversion = Numeric | AsString | Trimmed | Flag | Pin

definition station_fields :: "save_kind \<Rightarrow> (string \<times> string \<times> station_conversion) list" where
  "station_fields kind =
     (case kind of
        RadioSave \<Rightarrow>
          [(''localFreq'', ''frequency'', Numeric), (''localTxPower'', ''tx_power'', Numeric), (''localSf'', ''spreading_factor'', Numeric),
           (''localBw'', ''bandwidth'', Numeric), (''localCr'', ''coding_rate'', AsString), (''localRepeatMode'', ''repeat'', Flag),
           (''localHopLimit'', ''hop_limit'', Numeric), (''localPathHashMode'', ''path_hash_mode'', Numeric),
           (''localRxDelay'', ''rx_delay'', Numeric), (''localAirtimeFactor'', ''airtime_factor'', Numeric),
           (''localTelemBase'', ''telemetry_mode_base'', Numeric), (''localTelemLoc'', ''telemetry_mode_loc'', Numeric),
           (''localTelemEnv'', ''telemetry_mode_env'', Numeric), (''localAdvLocPolicy'', ''adv_loc_policy'', Flag),
           (''localMultiAcks'', ''multi_acks'', Flag), (''localManualAddContacts'', ''manual_add_contacts'', Flag),
           (''localDevicePin'', ''pin'', Pin), (''localAdvertInterval'', ''advert_interval'', Numeric),
           (''localTelemetryInterval'', ''telemetry_interval'', Numeric)]
      | IdentitySave \<Rightarrow>
          [(''localNodeName'', ''name'', Trimmed), (''localOwnerInfo'', ''owner_info'', Trimmed), (''localGpsLat'', ''latitude'', Numeric),
           (''localGpsLon'', ''longitude'', Numeric), (''localGpsAlt'', ''altitude_m'', Numeric), (''localPosFixed'', ''fixed_position'', Flag)])"

definition convert_station :: "station_conversion \<Rightarrow> jsval \<Rightarrow> jsval" where
  "convert_station c raw =
     (case c of Numeric \<Rightarrow> Num (numeric raw) | AsString \<Rightarrow> Str (to_string raw) | Trimmed \<Rightarrow> Str (trim (to_string raw))
      | Flag \<Rightarrow> Bool (truthy raw) | Pin \<Rightarrow> Num (if trim (to_string raw) = [] then Fin 0 else to_number raw))"

definition collect_field :: "remote_form \<Rightarrow> string \<times> string \<times> station_conversion \<Rightarrow> draft \<Rightarrow> draft js_result" where
  "collect_field f entry acc =
     (let (i, key, c) = entry; (payload, snapshot) = acc; raw = raw_value (fieldValues f i); v = convert_station c raw in
      if i \<notin> set (dirtyFields f) then Inr acc
      else if \<not> sound_number v then Inl (ErrorMsg (js ''settings.invalid_value''))
      else Inr (set_prop (js key) v payload, snapshot @ [(i, \<lparr>sent_key = key, sent_raw = raw, sent_version = version_of i f\<rparr>)]))"

definition collectLocalConfigDraft :: "(string \<times> string \<times> station_conversion) list \<Rightarrow> remote_form \<Rightarrow> draft js_result" where
  "collectLocalConfigDraft fs f = foldE (collect_field f) fs ([], [])"

text \<open>A switch that has been turned decides its interval: zero when it is off.\<close>

definition collect_toggle :: "remote_form \<Rightarrow> string \<times> string \<times> string \<Rightarrow> draft \<Rightarrow> draft js_result" where
  "collect_toggle f entry acc =
     (let (toggle, input, key) = entry; (payload, snapshot) = acc; raw = raw_value (fieldValues f toggle);
          n = (if truthy raw then numeric (raw_value (fieldValues f input)) else Fin 0)
      in if toggle \<notin> set (dirtyFields f) then Inr acc
         else if \<not> finite_num n then Inl (ErrorMsg (js ''settings.invalid_value''))
         else Inr (set_prop (js key) (Num n) payload,
                   snapshot @ [(toggle, \<lparr>sent_key = key, sent_raw = raw, sent_version = version_of toggle f\<rparr>)]))"

definition station_draft :: "save_kind \<Rightarrow> remote_form \<Rightarrow> draft js_result" where
  "station_draft kind f =
     (case kind of
        RadioSave \<Rightarrow> bindE (collectLocalConfigDraft (station_fields RadioSave) f)
          (foldE (collect_toggle f) [(''localAdvertEnable'', ''localAdvertInterval'', ''advert_interval''),
             (''localTelemetryEnable'', ''localTelemetryInterval'', ''telemetry_interval'')])
      | IdentitySave \<Rightarrow> collectLocalConfigDraft (station_fields IdentitySave) f)"

subsection \<open>What the station has confirmed\<close>

definition hasAppliedConfigKey :: "jsval \<Rightarrow> string \<Rightarrow> bool" where
  "hasAppliedConfigKey applied key \<longleftrightarrow>
     list_ex (\<lambda>k. let v = getp applied (js k) in \<not> is_nullish v \<and> sound_number v) [key, if key = ''altitude_m'' then ''altitude'' else key]"

definition config_result :: "jsval \<Rightarrow> jsval" where
  "config_result d = (let inner = getp d (js ''data'') in if truthy inner \<and> is_object inner then inner else d)"

definition config_applied :: "jsval \<Rightarrow> jsval" where
  "config_applied res = (let ap = getp res (js ''applied'') in if truthy ap \<and> is_object ap then ap else Obj [])"

definition awaits_reboot :: "jsval \<Rightarrow> bool" where
  "awaits_reboot res \<longleftrightarrow> truthy (getp res (js ''pending_reboot'')) \<or> truthy (getp res (js ''reboot_required''))"

definition accepted_field :: "jsval \<Rightarrow> remote_form \<Rightarrow> string \<times> sent_field \<Rightarrow> bool" where
  "accepted_field res f entry \<longleftrightarrow>
     (let (i, s) = entry in hasAppliedConfigKey (config_applied res) (sent_key s) \<and> \<not> awaits_reboot res \<and>
        raw_value (fieldValues f i) = sent_raw s \<and> version_of i f = sent_version s)"

definition accept_fields :: "jsval \<Rightarrow> (string \<times> sent_field) list \<Rightarrow> remote_form \<Rightarrow> remote_form \<times> string list" where
  "accept_fields res snapshot f =
     (let confirmed = map fst (filter (accepted_field res f) snapshot) in
      (f\<lparr>dirtyFields := filter (\<lambda>i. i \<notin> set confirmed) (dirtyFields f)\<rparr>, confirmed))"

subsection \<open>The station's state\<close>

datatype station_task = ReadTask nat nat | SaveTask save_kind props "(string \<times> sent_field) list"

record station =
  s_form :: remote_form
  cachedConfig :: props
  configRevision :: nat
  configReadSequence :: nat
  savingStation :: "save_kind list"
  clockBase :: "int option"
  uptimeBase :: "(jnum \<times> int) option"
  justReconnected :: bool
  wasDisconnected :: bool
  lastFetchTime :: "int option"
  shownClock :: "jnum option"
  shownDrift :: "jnum option"
  ownPubkey :: jstr
  st_requests :: "(string \<times> jsval) list"
  st_tasks :: "(nat \<times> station_task) list"
  st_next :: nat

definition start_task :: "string \<Rightarrow> jsval \<Rightarrow> station_task \<Rightarrow> station \<Rightarrow> station" where
  "start_task path body t st =
     st\<lparr>st_requests := st_requests st @ [(path, body)], st_tasks := st_tasks st @ [(st_next st, t)], st_next := st_next st + 1\<rparr>"

definition next_read :: "station \<Rightarrow> station" where
  "next_read st = st\<lparr>configReadSequence := configReadSequence st + 1\<rparr>"

definition next_revision :: "station \<Rightarrow> station" where
  "next_revision st = st\<lparr>configRevision := configRevision st + 1\<rparr>"

text \<open>Known values are replaced, never removed.\<close>

definition merge_config :: "props \<Rightarrow> props \<Rightarrow> props" where
  "merge_config incoming cfg = fold (\<lambda>(k, v). if is_nullish v then id else set_prop k v) incoming cfg"

definition jabs :: "jnum \<Rightarrow> jnum" where
  "jabs a = (case a of Fin x \<Rightarrow> Fin \<bar>x\<bar> | NegInf \<Rightarrow> PosInf | _ \<Rightarrow> a)"

text \<open>The station's clock in milliseconds, as shown at a moment of the host's clock.\<close>

definition clock_at :: "int \<Rightarrow> props \<Rightarrow> int option \<Rightarrow> jnum" where
  "clock_at now cfg clock_base =
     jadd (num_map (\<lambda>x. x * 1000) (to_number (fld cfg ''device_epoch_time'')))
       (Fin (case clock_base of Some b \<Rightarrow> of_int (now - b) | None \<Rightarrow> 0))"

definition drift_of :: "props \<Rightarrow> int option \<Rightarrow> jnum" where
  "drift_of cfg clock_base =
     (if \<not> is_nullish (fld cfg ''device_time_drift'') then jabs (to_number (fld cfg ''device_time_drift''))
      else case clock_base of
        Some b \<Rightarrow> jabs (jsub (Fin (of_int (b div 1000))) (to_number (fld cfg ''device_epoch_time'')))
      | None \<Rightarrow> Fin 0)"

definition note_clock :: "int \<Rightarrow> props \<Rightarrow> station \<Rightarrow> station" where
  "note_clock now incoming st =
     (let st1 = (if truthy (fld incoming ''device_epoch_time'') \<and> (clockBase st = None \<or> justReconnected st)
                 then st\<lparr>clockBase := Some now\<rparr> else st);
          up = nullish (fld incoming ''device_uptime'') (nullish (fld incoming ''uptime_secs'') (fld incoming ''uptime''))
      in if \<not> is_nullish up \<and> (uptimeBase st1 = None \<or> justReconnected st1)
         then st1\<lparr>uptimeBase := Some (to_number up, now), justReconnected := False\<rparr> else st1)"

definition show_clock :: "int \<Rightarrow> station \<Rightarrow> station" where
  "show_clock now st =
     (if truthy (fld (cachedConfig st) ''device_epoch_time'')
      then st\<lparr>shownClock := Some (clock_at now (cachedConfig st) (clockBase st)), shownDrift := Some (drift_of (cachedConfig st) (clockBase st))\<rparr>
      else st)"

text \<open>A configuration of another station overtakes the reads that are on their way.\<close>

definition other_station :: "props \<Rightarrow> station \<Rightarrow> bool" where
  "other_station incoming st \<longleftrightarrow>
     (let new = fld incoming ''public_key''; old = fld (cachedConfig st) ''public_key'' in truthy new \<and> truthy old \<and> new \<noteq> old)"

definition populateLocalConfig :: "int \<Rightarrow> string list \<Rightarrow> jsval \<Rightarrow> station \<Rightarrow> station" where
  "populateLocalConfig now confirmed incoming st =
     (case incoming of
        Obj ps \<Rightarrow>
          let st1 = (if other_station ps st then next_read st else st);
              st2 = note_clock now ps (st1\<lparr>cachedConfig := merge_config ps (cachedConfig st1)\<rparr>); cfg = cachedConfig st2;
              key = fld cfg ''public_key''
          in show_clock now
               (st2\<lparr>s_form := show_config confirmed cfg (s_form st2),
                    ownPubkey := (if truthy key then toLowerCase (to_string key) else ownPubkey st2)\<rparr>)
      | _ \<Rightarrow> st)"

definition fetchLocalNodeConfig :: "bool \<Rightarrow> station \<Rightarrow> station" where
  "fetchLocalNodeConfig force st =
     (if savingStation st \<noteq> [] then st
      else let st1 = next_read st in
        start_task (if force then ''/api/config/refresh'' else ''/api/config'') Undefined
          (ReadTask (configRevision st1) (configReadSequence st1)) st1)"

definition station_body :: "net \<Rightarrow> jsval option" where
  "station_body reply = (case reply of Rejected _ \<Rightarrow> None | Responded res \<Rightarrow> http_json res)"

definition station_ok :: "net \<Rightarrow> jsval \<Rightarrow> bool" where
  "station_ok reply d \<longleftrightarrow> (case reply of Rejected _ \<Rightarrow> False | Responded res \<Rightarrow> response_ok res) \<and> getp d (js ''status'') = Str (js ''ok'')"

definition config_read :: "int \<Rightarrow> nat \<Rightarrow> nat \<Rightarrow> net \<Rightarrow> station \<Rightarrow> station" where
  "config_read now r q reply st =
     (case station_body reply of
        None \<Rightarrow> st
      | Some d \<Rightarrow>
          if station_ok reply d \<and> truthy (getp d (js ''data'')) \<and> r = configRevision st \<and> q = configReadSequence st
          then populateLocalConfig now [] (getp d (js ''data'')) (st\<lparr>lastFetchTime := Some now\<rparr>)
          else st)"

definition save_station :: "save_kind \<Rightarrow> station \<Rightarrow> station" where
  "save_station kind st =
     (if kind \<in> set (savingStation st) then st
      else case station_draft kind (s_form st) of
        Inl _ \<Rightarrow> st
      | Inr (payload, snapshot) \<Rightarrow>
          if payload = [] then st
          else start_task (if kind = RadioSave then ''/api/config/radio'' else ''/api/config/identity'') (Obj payload)
                 (SaveTask kind payload snapshot) (next_revision (st\<lparr>savingStation := savingStation st @ [kind]\<rparr>)))"

definition applyLocalConfigSaveResult :: "int \<Rightarrow> jsval \<Rightarrow> (string \<times> sent_field) list \<Rightarrow> station \<Rightarrow> station" where
  "applyLocalConfigSaveResult now d snapshot st =
     (let res = config_result d; (f, confirmed) = accept_fields res snapshot (s_form st);
          shown = js_or (getp res (js ''config'')) (js_or (getp d (js ''config'')) (config_applied res))
      in populateLocalConfig now confirmed shown (st\<lparr>s_form := f\<rparr>))"

definition station_saved :: "int \<Rightarrow> save_kind \<Rightarrow> (string \<times> sent_field) list \<Rightarrow> net \<Rightarrow> station \<Rightarrow> station" where
  "station_saved now kind snapshot reply st =
     (let st1 = next_revision st;
          st2 = (case station_body reply of
              None \<Rightarrow> st1
            | Some d \<Rightarrow> if is_nullish d then next_revision st1 else applyLocalConfigSaveResult now d snapshot st1)
      in st2\<lparr>savingStation := filter (\<lambda>k. k \<noteq> kind) (savingStation st2)\<rparr>)"

definition metric_keys :: "string list" where
  "metric_keys = [''rx_count'', ''tx_count'', ''error_rate'', ''queue_depth'', ''airtime_ms'', ''duty_cycle_pct'', ''packet_errors'',
     ''duplicate_packets'']"

definition note_metrics :: "props \<Rightarrow> props \<Rightarrow> props" where
  "note_metrics p cfg = fold (\<lambda>k c. if is_nullish (fld p k) then c else set_prop (js k) (fld p k) c) metric_keys cfg"

text \<open>The radio is lost and found again; the flag tells a loss from the metrics that repeat it.\<close>

definition metrics_update :: "props \<Rightarrow> station \<Rightarrow> station" where
  "metrics_update p st =
     (let connected = nullish (fld p ''serial_connected'') (fld p ''radio_connected'');
          st1 = (if connected = Bool False
                 then (if wasDisconnected st then st else next_read st)\<lparr>wasDisconnected := True, uptimeBase := None, clockBase := None\<rparr>
                 else if connected = Bool True \<and> wasDisconnected st
                 then fetchLocalNodeConfig True (st\<lparr>wasDisconnected := False, justReconnected := True\<rparr>) else st)
      in st1\<lparr>cachedConfig := note_metrics p (cachedConfig st1)\<rparr>)"

definition packet_kind :: "jsval \<Rightarrow> jstr" where
  "packet_kind p =
     toLowerCase (to_string (js_or (getp p (js ''event'')) (js_or (getp p (js ''event_type'')) (js_or (getp p (js ''type'')) (Str [])))))"

datatype station_event =
    FieldEdited string field_value
  | FieldFocused "string option"
  | PresetChosen jsval
  | RegionPicked string
  | SettingsShown int
  | RefreshAsked bool
  | SaveAsked save_kind
  | CredentialsChanged
  | PacketSeen int jsval
  | MetricsSeen jsval
  | Ticked int
  | StationAnswered int nat net

definition station_answered :: "int \<Rightarrow> station_task \<Rightarrow> net \<Rightarrow> station \<Rightarrow> station" where
  "station_answered now t reply st =
     (case t of ReadTask r q \<Rightarrow> config_read now r q reply st | SaveTask kind _ snapshot \<Rightarrow> station_saved now kind snapshot reply st)"

definition station_step :: "station_event \<Rightarrow> station \<Rightarrow> station" where
  "station_step ev st =
     (case ev of
        FieldEdited i x \<Rightarrow> st\<lparr>s_form := edit_field i x (s_form st)\<rparr>
      | FieldFocused i \<Rightarrow> st\<lparr>s_form := (s_form st)\<lparr>focusedField := i\<rparr>\<rparr>
      | PresetChosen p \<Rightarrow> st\<lparr>s_form := apply_preset p (s_form st)\<rparr>
      | RegionPicked r \<Rightarrow> st\<lparr>s_form := station_region r (s_form st)\<rparr>
      | SettingsShown now \<Rightarrow>
          (case lastFetchTime st of
             Some t \<Rightarrow> if 30000 < now - t then fetchLocalNodeConfig False st else st
           | None \<Rightarrow> fetchLocalNodeConfig False st)
      | RefreshAsked force \<Rightarrow> fetchLocalNodeConfig force st
      | SaveAsked kind \<Rightarrow> save_station kind st
      | CredentialsChanged \<Rightarrow> next_read st
      | PacketSeen now p \<Rightarrow>
          if packet_kind p \<in> set (map js [''self_info'', ''device_info'', ''battery'', ''clock_synced''])
          then populateLocalConfig now [] (js_or (getp p (js ''data'')) p) st else st
      | MetricsSeen p \<Rightarrow> (case p of Obj ps \<Rightarrow> metrics_update ps st | _ \<Rightarrow> st)
      | Ticked now \<Rightarrow>
          if truthy (fld (cachedConfig st) ''device_epoch_time'') \<and> clockBase st \<noteq> None
          then st\<lparr>shownClock := Some (clock_at now (cachedConfig st) (clockBase st))\<rparr> else st
      | StationAnswered now n reply \<Rightarrow>
          (case map_of (st_tasks st) n of
             Some t \<Rightarrow> station_answered now t reply (st\<lparr>st_tasks := assoc_del n (st_tasks st)\<rparr>)
           | None \<Rightarrow> st))"

definition new_station :: "(string \<Rightarrow> field_value) \<Rightarrow> station" where
  "new_station page =
     \<lparr>s_form = \<lparr>fieldValues = page, dirtyFields = [], fieldEditVersions = [], focusedField = None, remoteRadioPreferences = []\<rparr>,
      cachedConfig = [], configRevision = 0, configReadSequence = 0, savingStation = [], clockBase = None, uptimeBase = None,
      justReconnected = False, wasDisconnected = False, lastFetchTime = None, shownClock = None, shownDrift = None, ownPubkey = [],
      st_requests = [], st_tasks = [], st_next = 0\<rparr>"

subsection \<open>A draft is settled by its own confirmation only\<close>

lemma show_config_frame [simp]:
  "dirtyFields (show_config c cfg f) = dirtyFields f" "fieldEditVersions (show_config c cfg f) = fieldEditVersions f"
  "version_of i (show_config c cfg f) = version_of i f"
  "i \<in> set (dirtyFields f) \<Longrightarrow>
     fieldValues (show_config c cfg f) i = (if i \<in> set (unsupported_fields cfg) then empty_field i else fieldValues f i)"
  by (simp_all add: show_config_def applyLocalConfigCapabilities_def version_of_def)

lemma task_frame [simp]:
  "s_form (start_task p b t st) = s_form st" "cachedConfig (start_task p b t st) = cachedConfig st"
  "s_form (next_read st) = s_form st" "cachedConfig (next_read st) = cachedConfig st"
  "s_form (next_revision st) = s_form st" "cachedConfig (next_revision st) = cachedConfig st"
  "s_form (fetchLocalNodeConfig force st) = s_form st" "cachedConfig (fetchLocalNodeConfig force st) = cachedConfig st"
  "s_form (show_clock now st) = s_form st" "cachedConfig (show_clock now st) = cachedConfig st"
  "s_form (note_clock now ps st) = s_form st" "cachedConfig (note_clock now ps st) = cachedConfig st"
  "s_form (metrics_update ps st) = s_form st"
  by (simp_all add: start_task_def next_read_def next_revision_def fetchLocalNodeConfig_def show_clock_def note_clock_def metrics_update_def Let_def)

lemma save_frame [simp]: "s_form (save_station kind st) = s_form st"
  by (simp add: save_station_def split: sum.split)

lemma populate_form:
  "s_form (populateLocalConfig now c v st) =
     (case v of Obj ps \<Rightarrow> show_config c (cachedConfig (populateLocalConfig now c v st)) (s_form st) | _ \<Rightarrow> s_form st)"
  by (simp add: populateLocalConfig_def Let_def split: jsval.split)

text \<open>A draft is kept as it is, or emptied because the station does not support it.\<close>

definition draft_kept :: "string \<Rightarrow> station \<Rightarrow> station \<Rightarrow> bool" where
  "draft_kept i v w \<longleftrightarrow> i \<in> set (dirtyFields (s_form w)) \<and> version_of i (s_form w) = version_of i (s_form v) \<and>
     (fieldValues (s_form w) i = fieldValues (s_form v) i \<or>
      i \<in> set (unsupported_fields (cachedConfig w)) \<and> fieldValues (s_form w) i = empty_field i)"

lemma draft_kept_form: "s_form w = s_form v \<Longrightarrow> i \<in> set (dirtyFields (s_form v)) \<Longrightarrow> draft_kept i v w"
  by (simp add: draft_kept_def)

lemma draft_kept_populate:
  assumes "i \<in> set (dirtyFields (s_form x))" "version_of i (s_form x) = version_of i (s_form v)"
    "fieldValues (s_form x) i = fieldValues (s_form v) i"
  shows "draft_kept i v (populateLocalConfig now c p x)"
  using assms by (auto simp: draft_kept_def populate_form split: jsval.split)

lemma accept_fields_frame:
  assumes "accept_fields res snapshot f = (f', confirmed)"
  shows "fieldValues f' = fieldValues f" "version_of i f' = version_of i f"
    "i \<in> set (dirtyFields f') \<longleftrightarrow> i \<in> set (dirtyFields f) \<and> (\<forall>s. (i, s) \<in> set snapshot \<longrightarrow> \<not> accepted_field res f (i, s))"
proof -
  have f': "f' = f\<lparr>dirtyFields := filter (\<lambda>i. i \<notin> fst ` {x \<in> set snapshot. accepted_field res f x}) (dirtyFields f)\<rparr>"
    using assms by (auto simp: accept_fields_def Let_def)
  show "fieldValues f' = fieldValues f" "version_of i f' = version_of i f" by (simp_all add: f' version_of_def)
  show "i \<in> set (dirtyFields f') \<longleftrightarrow> i \<in> set (dirtyFields f) \<and> (\<forall>s. (i, s) \<in> set snapshot \<longrightarrow> \<not> accepted_field res f (i, s))"
    by (force simp: f' image_iff)
qed

lemma edit_other: "i \<noteq> j \<Longrightarrow> i \<in> set (dirtyFields f) \<Longrightarrow>
  i \<in> set (dirtyFields (edit_field j x f)) \<and> version_of i (edit_field j x f) = version_of i f \<and> fieldValues (edit_field j x f) i = fieldValues f i"
  by (auto simp: edit_field_def markDirty_def version_of_def map_of_assoc_put)

text \<open>The fields that an event of the user edits.\<close>

definition edits :: "station_event \<Rightarrow> string set" where
  "edits ev =
     (case ev of FieldEdited i x \<Rightarrow> {i} | PresetChosen p \<Rightarrow> fst ` set (preset_edits p)
      | RegionPicked r \<Rightarrow> {''localRegion'', ''localFreq''} | _ \<Rightarrow> {})"

lemma edits_other:
  "i \<notin> fst ` set es \<Longrightarrow> i \<in> set (dirtyFields f) \<Longrightarrow>
     i \<in> set (dirtyFields (fold (\<lambda>(j, s). edit_field j (Txt s)) es f)) \<and>
     version_of i (fold (\<lambda>(j, s). edit_field j (Txt s)) es f) = version_of i f \<and>
     fieldValues (fold (\<lambda>(j, s). edit_field j (Txt s)) es f) i = fieldValues f i"
proof (induction es arbitrary: f)
  case (Cons e es)
  obtain j s where e: "e = (j, s)" by (cases e)
  have "i \<noteq> j" using Cons.prems(1) e by auto
  from edit_other[OF this Cons.prems(2), of "Txt s"] Cons.IH[of "edit_field j (Txt s) f"] Cons.prems(1) e show ?case by simp
qed simp

lemma saved_draft:
  assumes "i \<in> set (dirtyFields (s_form v))" "s_form x = s_form v"
    and "\<And>d s. station_body reply = Some d \<Longrightarrow> (i, s) \<in> set snapshot \<Longrightarrow> \<not> accepted_field (config_result d) (s_form v) (i, s)"
  shows "draft_kept i v (station_saved now kind snapshot reply x)"
proof -
  have pad: "draft_kept i v (y\<lparr>savingStation := k\<rparr>) = draft_kept i v y" for y k by (simp add: draft_kept_def)
  have "draft_kept i v (applyLocalConfigSaveResult now d snapshot (next_revision x))" if d: "station_body reply = Some d" for d
  proof -
    obtain f c where fc: "accept_fields (config_result d) snapshot (s_form v) = (f, c)"
      by (cases "accept_fields (config_result d) snapshot (s_form v)")
    from accept_fields_frame(1)[OF fc] accept_fields_frame(2,3)[OF fc, of i] assms(1) assms(3)[OF d]
    show ?thesis by (simp add: applyLocalConfigSaveResult_def assms(2) fc draft_kept_populate Let_def)
  qed
  then show ?thesis
    by (simp add: station_saved_def Let_def pad draft_kept_form assms(1,2) split: option.split)
qed

lemma others_keep_draft:
  assumes "i \<in> set (dirtyFields (s_form v))" "i \<notin> edits ev" "\<nexists>now n reply t. ev = StationAnswered now n reply \<and> map_of (st_tasks v) n = Some t"
  shows "draft_kept i v (station_step ev v)"
proof -
  note kept = draft_kept_form[OF _ assms(1)]
  show ?thesis
  proof (cases ev)
    case (FieldEdited j x)
    then have "i \<noteq> j" using assms(2) by (simp add: edits_def)
    from edit_other[OF this assms(1), of x] show ?thesis by (simp add: FieldEdited station_step_def draft_kept_def)
  next
    case (PresetChosen p)
    then show ?thesis using edits_other[of i "preset_edits p" "s_form v"] assms
      by (simp add: edits_def station_step_def apply_preset_def draft_kept_def)
  next
    case (RegionPicked r)
    have far: "i \<noteq> ''localRegion''" "i \<noteq> ''localFreq''" using assms(2) RegionPicked by (simp_all add: edits_def)
    note one = edit_other[OF far(1) assms(1), of "Txt (js r)"]
    note two = edit_other[OF far(2) one[THEN conjunct1]]
    from one two show ?thesis by (simp add: RegionPicked station_step_def station_region_def draft_kept_def Let_def split: option.split)
  next
    case (PacketSeen now p)
    then show ?thesis by (simp add: station_step_def kept draft_kept_populate assms(1))
  next
    case (FieldFocused k)
    then show ?thesis by (simp add: station_step_def draft_kept_def assms(1) version_of_def)
  next
    case (MetricsSeen p)
    then show ?thesis by (simp add: station_step_def kept split: jsval.split)
  next
    case (SettingsShown now)
    then show ?thesis by (simp add: station_step_def kept split: option.split)
  next
    case (StationAnswered now n reply)
    with assms(3) have "map_of (st_tasks v) n = None" by (cases "map_of (st_tasks v) n") auto
    then show ?thesis by (simp add: StationAnswered station_step_def kept)
  qed (simp_all add: station_step_def kept)
qed

lemma answers_keep_draft:
  assumes "i \<in> set (dirtyFields (s_form v))"
    and "\<And>kind payload snapshot d s. t = SaveTask kind payload snapshot \<Longrightarrow> station_body reply = Some d \<Longrightarrow> (i, s) \<in> set snapshot \<Longrightarrow>
      \<not> accepted_field (config_result d) (s_form v) (i, s)"
  shows "draft_kept i v (station_answered now t reply (v\<lparr>st_tasks := ts\<rparr>))"
proof (cases t)
  case (ReadTask r q)
  then show ?thesis
    by (simp add: station_answered_def config_read_def draft_kept_form assms(1) draft_kept_populate split: option.split)
next
  case (SaveTask kind payload snapshot)
  have "draft_kept i v (station_saved now kind snapshot reply (v\<lparr>st_tasks := ts\<rparr>))"
    using assms(2)[OF SaveTask] by (intro saved_draft) (auto simp: assms(1))
  then show ?thesis by (simp add: station_answered_def SaveTask)
qed



subsection \<open>Overtaken reads\<close>

definition read_dated :: "nat \<Rightarrow> nat \<Rightarrow> station_task \<Rightarrow> bool" where
  "read_dated r q t \<longleftrightarrow> (case t of ReadTask r1 q1 \<Rightarrow> r1 \<le> r \<and> q1 \<le> q | _ \<Rightarrow> True)"

definition reads_dated :: "station \<Rightarrow> bool" where
  "reads_dated st \<longleftrightarrow> (\<forall>(n, t) \<in> set (st_tasks st). n < st_next st \<and> read_dated (configRevision st) (configReadSequence st) t)"

text \<open>Numbers only grow, and no task appears under a number that has been given.\<close>

definition later_state :: "station \<Rightarrow> station \<Rightarrow> bool" where
  "later_state v w \<longleftrightarrow> configRevision v \<le> configRevision w \<and> configReadSequence v \<le> configReadSequence w \<and> st_next v \<le> st_next w \<and>
     (\<forall>n < st_next v. \<forall>t. map_of (st_tasks w) n = Some t \<longrightarrow> map_of (st_tasks v) n = Some t) \<and>
     (reads_dated v \<longrightarrow> reads_dated w)"

text \<open>The parts of the state that hold no number are of no account here.\<close>

definition numbers_of :: "station \<Rightarrow> nat \<times> nat \<times> nat \<times> (nat \<times> station_task) list" where
  "numbers_of st = (configRevision st, configReadSequence st, st_next st, st_tasks st)"

lemma later_refl: "later_state v v"
  by (simp add: later_state_def)

lemma later_numbers: "numbers_of w' = numbers_of w \<Longrightarrow> later_state v w' = later_state v w"
  by (simp add: numbers_of_def later_state_def reads_dated_def)

lemma numbers_upd [simp]:
  "numbers_of (st\<lparr>s_form := f\<rparr>) = numbers_of st" "numbers_of (st\<lparr>cachedConfig := c\<rparr>) = numbers_of st"
  "numbers_of (st\<lparr>savingStation := s\<rparr>) = numbers_of st" "numbers_of (st\<lparr>lastFetchTime := l\<rparr>) = numbers_of st"
  "numbers_of (st\<lparr>s_form := f, ownPubkey := k\<rparr>) = numbers_of st" "numbers_of (st\<lparr>shownClock := sc\<rparr>) = numbers_of st"
  "numbers_of (st\<lparr>wasDisconnected := b, justReconnected := b2\<rparr>) = numbers_of st"
  "numbers_of (st\<lparr>wasDisconnected := b, uptimeBase := u, clockBase := cb\<rparr>) = numbers_of st"
  "numbers_of (show_clock now st) = numbers_of st" "numbers_of (note_clock now ps st) = numbers_of st"
  by (simp_all add: numbers_of_def show_clock_def note_clock_def Let_def)

lemma later_upd [simp]:
  "later_state v (st\<lparr>s_form := f\<rparr>) = later_state v st" "later_state v (st\<lparr>cachedConfig := c\<rparr>) = later_state v st"
  "later_state v (st\<lparr>savingStation := s\<rparr>) = later_state v st" "later_state v (st\<lparr>lastFetchTime := l\<rparr>) = later_state v st"
  "later_state v (st\<lparr>s_form := f, ownPubkey := k\<rparr>) = later_state v st" "later_state v (st\<lparr>shownClock := sc\<rparr>) = later_state v st"
  "later_state v (st\<lparr>wasDisconnected := b, justReconnected := b2\<rparr>) = later_state v st"
  "later_state v (st\<lparr>wasDisconnected := b, uptimeBase := u, clockBase := cb\<rparr>) = later_state v st"
  "later_state v (show_clock now st) = later_state v st" "later_state v (note_clock now ps st) = later_state v st"
  by (rule later_numbers, simp)+

lemma later_next:
  "later_state v w \<Longrightarrow> later_state v (next_read w)" "later_state v w \<Longrightarrow> later_state v (next_revision w)"
  by (fastforce simp: later_state_def reads_dated_def read_dated_def next_read_def next_revision_def split: station_task.splits)+

lemma later_station_start: "later_state v w \<Longrightarrow> read_dated (configRevision w) (configReadSequence w) t \<Longrightarrow> later_state v (start_task p b t w)"
  by (auto simp: later_state_def start_task_def reads_dated_def read_dated_def map_add_def split: option.splits station_task.splits)

lemma later_done: "later_state v (v\<lparr>st_tasks := assoc_del n (st_tasks v)\<rparr>)"
  by (auto simp: later_state_def reads_dated_def read_dated_def map_of_assoc_del split: station_task.splits dest!: subsetD[OF set_assoc_del(1)])

lemma later_populate: "later_state v w \<Longrightarrow> later_state v (populateLocalConfig now c p w)"
  by (simp add: populateLocalConfig_def Let_def later_next split: jsval.split)

lemma later_fetch: "later_state v w \<Longrightarrow> later_state v (fetchLocalNodeConfig force w)"
  by (simp add: fetchLocalNodeConfig_def Let_def later_station_start later_next read_dated_def)

lemma later_read: "later_state v w \<Longrightarrow> later_state v (config_read now r q reply w)"
  by (simp add: config_read_def later_populate split: option.split)

lemma later_save: "later_state v w \<Longrightarrow> later_state v (save_station kind w)"
  by (auto simp: save_station_def read_dated_def intro!: later_station_start later_next split: sum.split)

lemma later_saved: "later_state v w \<Longrightarrow> later_state v (station_saved now kind snapshot reply w)"
  by (simp add: station_saved_def applyLocalConfigSaveResult_def Let_def later_next later_populate split: option.split prod.split)

lemma later_metrics: "later_state v w \<Longrightarrow> later_state v (metrics_update p w)"
  by (simp add: metrics_update_def Let_def later_next later_fetch)

lemma later_answered: "later_state v w \<Longrightarrow> later_state v (station_answered now t reply w)"
  by (cases t) (simp_all add: station_answered_def later_read later_saved)

lemma later_station_step: "later_state v (station_step ev v)"
  by (cases ev) (simp_all add: station_step_def later_refl later_fetch later_save later_next later_populate later_metrics later_answered
      later_done split: option.split jsval.split)

definition overtaken_read :: "nat \<Rightarrow> station \<Rightarrow> bool" where
  "overtaken_read n st \<longleftrightarrow> n < st_next st \<and> (\<forall>t. map_of (st_tasks st) n = Some t \<longrightarrow>
     (\<exists>r q. t = ReadTask r q \<and> (r < configRevision st \<or> q < configReadSequence st)))"

definition station_view :: "station \<Rightarrow> station" where
  "station_view st = st\<lparr>st_tasks := []\<rparr>"

lemma overtaken_read_stays: "overtaken_read n v \<Longrightarrow> overtaken_read n (station_step ev v)"
proof -
  assume o1: "overtaken_read n v"
  note on = later_station_step[of v ev, unfolded later_state_def]
  have "\<exists>r q. t = ReadTask r q \<and> (r < configRevision (station_step ev v) \<or> q < configReadSequence (station_step ev v))"
    if "map_of (st_tasks (station_step ev v)) n = Some t" for t
  proof -
    have "map_of (st_tasks v) n = Some t" using that on o1 by (simp add: overtaken_read_def)
    with o1 obtain r q where "t = ReadTask r q" "r < configRevision v \<or> q < configReadSequence v"
      by (auto simp: overtaken_read_def)
    then show ?thesis using on by auto
  qed
  then show ?thesis using on o1 by (auto simp: overtaken_read_def)
qed

lemma overtaken_dropped: "overtaken_read n st \<Longrightarrow> station_view (station_step (StationAnswered now n reply) st) = station_view st"
  by (auto simp: overtaken_read_def station_step_def station_answered_def config_read_def station_view_def split: option.split)

interpretation reads: overtaken_calls station_step overtaken_read "\<lambda>n ev. \<exists>now reply. ev = StationAnswered now n reply" station_view
  by unfold_locales (auto simp: overtaken_read_stays overtaken_dropped)

interpretation dates: initial_invariant station_step "\<lambda>_. True" reads_dated "new_station page" for page
  using later_station_step by unfold_locales (auto simp: later_state_def reads_dated_def new_station_def)

text \<open>
  A configuration that has been asked for before a save, before a later read, before a change of
  session or station, or before the radio was lost, is never shown: in every run, once a step has
  overtaken a read, its answer changes nothing, whenever it comes.
\<close>

theorem overtaken_read_is_dropped:
  assumes "v = fold station_step evs (new_station page)" "map_of (st_tasks v) n = Some (ReadTask r q)"
    and "configRevision (station_step ev v) \<noteq> configRevision v \<or> configReadSequence (station_step ev v) \<noteq> configReadSequence v"
    and "\<And>now reply. ev \<noteq> StationAnswered now n reply" and "w = fold station_step later (station_step ev v)"
  shows "station_view (station_step (StationAnswered now n reply) w) = station_view w"
proof -
  have dated: "reads_dated v" unfolding assms(1) by (rule dates.always) (simp add: list_all_iff)
  note on = later_station_step[of v ev, unfolded later_state_def]
  have old: "n < st_next v" "r \<le> configRevision v" "q \<le> configReadSequence v"
    using dated map_of_SomeD[OF assms(2)] by (auto simp: reads_dated_def read_dated_def)
  have "overtaken_read n (station_step ev v)" unfolding overtaken_read_def
  proof (intro conjI allI impI)
    show "n < st_next (station_step ev v)" using old(1) on by simp
    fix t
    assume "map_of (st_tasks (station_step ev v)) n = Some t"
    then have "t = ReadTask r q" using on old(1) assms(2) by auto
    then show "\<exists>r q. t = ReadTask r q \<and> (r < configRevision (station_step ev v) \<or> q < configReadSequence (station_step ev v))"
      using on old(2,3) assms(3) by auto
  qed
  then show ?thesis unfolding assms(5) by (rule reads.dropped_for_ever) blast
qed

lemma overtaken_read_is_dropped_witness:
  "\<forall>reply. station_view (station_step (StationAnswered 9 0 reply) (fold station_step [SaveAsked RadioSave]
     (station_step CredentialsChanged (fold station_step [RefreshAsked False] (new_station (\<lambda>_. Txt []))))))
   = station_view (fold station_step [SaveAsked RadioSave]
     (station_step CredentialsChanged (fold station_step [RefreshAsked False] (new_station (\<lambda>_. Txt [])))))"
  by (intro allI, rule overtaken_read_is_dropped[OF refl _ _ _ refl, of _ _ _ 0 1])
    (simp_all add: station_step_def fetchLocalNodeConfig_def next_read_def start_task_def new_station_def Let_def)

subsection \<open>The clock\<close>

lemma map_of_merge:
  "distinct (map fst qs) \<Longrightarrow>
     map_of (merge_config qs cfg) x =
       (case map_of qs x of Some v \<Rightarrow> if is_nullish v then map_of cfg x else Some v | None \<Rightarrow> map_of cfg x)"
proof (induction qs arbitrary: cfg)
  case (Cons kv qs)
  obtain k v where kv: "kv = (k, v)" by (cases kv)
  then have fresh: "map_of qs k = None" using Cons.prems by (simp add: map_of_eq_None_iff)
  show ?case using Cons.IH[of "if is_nullish v then cfg else set_prop k v cfg"] Cons.prems fresh
    by (cases "is_nullish v"; cases "x = k") (simp_all add: merge_config_def kv map_of_set_prop split: option.splits)
qed (simp add: merge_config_def)



end
