(* ===== verification/ServicesForm.thy ===== *)
theory ServicesForm
  imports RepeaterFields MeshUri
begin

section \<open>The form of the services (modules/settings.js)\<close>

text \<open>
  Settings of the bridge's own services: the external MQTT broker, the local one, and the TCP server.
  \<open>_populateServicesForm\<close> writes a configuration into some forty controls of the page and the
  \<open>_gather...\<close> functions read the controls into the body of a save. Each control is a row of a table,
  with its element, its key and the way in which it is written and read. A selection shows one of the
  options of the page, or nothing when it is given another value. What a browser refuses of a text in
  a number field, and the visibility of rows, are left out.
\<close>

datatype control =
    Check
  | CheckUnlessFalse
  | TrimText string
  | TrimOrNull
  | UpperText string
  | WholeNumber int
  | Quality
  | Choice string
  | Secret string bool
  | ClearBox

type_synonym controls = "string \<Rightarrow> field_value"

definition text_of :: "controls \<Rightarrow> string \<Rightarrow> jstr" where
  "text_of f i = (case f i of Txt s \<Rightarrow> s | Chk _ \<Rightarrow> [])"

definition checked_of :: "controls \<Rightarrow> string \<Rightarrow> bool" where
  "checked_of f i = (case f i of Chk b \<Rightarrow> b | Txt _ \<Rightarrow> False)"

definition text_or :: "jstr \<Rightarrow> string \<Rightarrow> jsval" where
  "text_or s d = Str (if s = [] then js d else s)"

definition number_or :: "jnum \<Rightarrow> int \<Rightarrow> jsval" where
  "number_or n d = Num (if n = NaN \<or> n = Fin 0 then Fin (of_int d) else n)"

text \<open>How a control is read, and what is written into it.\<close>

definition gather_control :: "controls \<Rightarrow> string \<Rightarrow> control \<Rightarrow> jsval" where
  "gather_control f i c =
     (case c of
        Check \<Rightarrow> Bool (checked_of f i)
      | CheckUnlessFalse \<Rightarrow> Bool (checked_of f i)
      | TrimText d \<Rightarrow> text_or (trim (text_of f i)) d
      | TrimOrNull \<Rightarrow> (if trim (text_of f i) = [] then Null else Str (trim (text_of f i)))
      | UpperText d \<Rightarrow> text_or (toUpperCase (trim (text_of f i))) d
      | WholeNumber d \<Rightarrow> number_or (parse_int (text_of f i)) d
      | Quality \<Rightarrow> number_or (parse_int (text_of f i)) 0
      | Choice d \<Rightarrow> text_or (text_of f i) d
      | Secret box trimmed \<Rightarrow> Str (if checked_of f box then [] else if trimmed then trim (text_of f i) else text_of f i)
      | ClearBox \<Rightarrow> Bool (checked_of f i))"

definition shown_text :: "(string \<Rightarrow> jstr list) \<Rightarrow> string \<Rightarrow> jsval \<Rightarrow> field_value" where
  "shown_text options i v = Txt (if options i = [] \<or> to_string v \<in> set (options i) then to_string v else [])"

definition control_value :: "(string \<Rightarrow> jstr list) \<Rightarrow> string \<Rightarrow> control \<Rightarrow> jsval \<Rightarrow> field_value" where
  "control_value options i c v =
     (case c of
        Check \<Rightarrow> Chk (truthy v)
      | CheckUnlessFalse \<Rightarrow> Chk (v \<noteq> Bool False)
      | TrimText d \<Rightarrow> shown_text options i (js_or v (Str (js d)))
      | TrimOrNull \<Rightarrow> shown_text options i (js_or v (Str []))
      | UpperText d \<Rightarrow> shown_text options i (js_or v (Str (js d)))
      | WholeNumber d \<Rightarrow> shown_text options i (js_or v (Num (Fin (of_int d))))
      | Quality \<Rightarrow> shown_text options i (nullish v (Num (Fin 0)))
      | Choice d \<Rightarrow> shown_text options i (js_or v (Str (js d)))
      | Secret _ _ \<Rightarrow> shown_text options i (js_or v (Str []))
      | ClearBox \<Rightarrow> Chk False)"

type_synonym control_row = "string \<times> string \<times> control"

definition external_controls :: "control_row list" where
  "external_controls =
     [(''chkExternalMqttEnabled'', ''enabled'', Check), (''inputExtMqttHost'', ''host'', TrimText ''''),
      (''inputExtMqttPort'', ''port'', WholeNumber 1883), (''selExtMqttTransport'', ''transport'', Choice ''tcp''),
      (''chkExtMqttTls'', ''tls_enabled'', Check), (''chkExtMqttTlsVerify'', ''tls_verify'', CheckUnlessFalse),
      (''inputExtMqttCaFile'', ''tls_ca_file'', TrimOrNull), (''selExtMqttAuthType'', ''auth_type'', Choice ''anonymous''),
      (''selExtMqttPrivacy'', ''location_privacy'', Choice ''fuzzed''), (''inputExtMqttUser'', ''username'', TrimText ''''),
      (''inputExtMqttPass'', ''password'', Secret ''chkClearExtMqttPass'' False),
      (''inputExtMqttToken'', ''token'', Secret ''chkClearExtMqttToken'' True),
      (''chkClearExtMqttPass'', ''clear_password'', ClearBox), (''chkClearExtMqttToken'', ''clear_token'', ClearBox),
      (''chkExtDownlink'', ''downlink_enabled'', Check), (''selExtMqttTopicMode'', ''topic_mode'', Choice ''standard''),
      (''inputExtMqttPrefix'', ''topic_prefix'', TrimText ''meshcore/remote''), (''inputExtMqttIata'', ''region_iata'', UpperText ''XXX''),
      (''selExtMqttFormat'', ''payload_format'', Choice ''json_canonical''), (''selExtMqttQos'', ''qos'', Quality),
      (''chkExtObserverMode'', ''filter_observer_mode'', Check), (''chkExtFilterPublic'', ''filter_public'', Check),
      (''chkExtFilterChannels'', ''filter_channels'', Check), (''chkExtFilterDirect'', ''filter_direct'', Check),
      (''chkExtFilterTelemetry'', ''filter_telemetry'', Check), (''chkExtFilterNodes'', ''filter_nodes'', Check),
      (''chkExtFilterRaw'', ''filter_raw'', Check), (''selExtMqttPreset'', ''selected_preset_id'', Choice ''custom'')]"

definition local_controls :: "control_row list" where
  "local_controls =
     [(''chkLocalMqttEnabled'', ''enabled'', CheckUnlessFalse), (''inputLocalMqttHost'', ''host'', TrimText ''127.0.0.1''),
      (''inputLocalMqttPort'', ''port'', WholeNumber 1883), (''inputLocalMqttPrefix'', ''topic_prefix'', TrimText ''meshcore''),
      (''chkLocalMqttAuth'', ''auth_enabled'', Check), (''inputLocalMqttUser'', ''username'', TrimText ''''),
      (''inputLocalMqttPass'', ''password'', Secret ''chkClearLocalMqttPass'' False),
      (''chkClearLocalMqttPass'', ''clear_password'', ClearBox)]"

definition tcp_controls :: "control_row list" where
  "tcp_controls =
     [(''chkTcpServerEnabled'', ''enabled'', CheckUnlessFalse), (''selTcpServerHost'', ''host'', Choice ''127.0.0.1''),
      (''inputTcpServerPort'', ''port'', WholeNumber 5000), (''inputTcpMaxClients'', ''max_clients'', WholeNumber 8),
      (''inputTcpAllowedIps'', ''allowed_ips'', TrimText '''')]"

definition service_sections :: "(string \<times> control_row list) list" where
  "service_sections = [(''external_mqtt'', external_controls), (''local_mqtt'', local_controls), (''tcp_server'', tcp_controls)]"

definition gather_section :: "controls \<Rightarrow> control_row list \<Rightarrow> jsval" where
  "gather_section f rows = Obj (map (\<lambda>(i, k, c). (js k, gather_control f i c)) rows)"

definition gather_services :: "controls \<Rightarrow> jsval" where
  "gather_services f = Obj (map (\<lambda>(name, rows). (js name, gather_section f rows)) service_sections)"

definition populate_section :: "(string \<Rightarrow> jstr list) \<Rightarrow> control_row list \<Rightarrow> jsval \<Rightarrow> controls \<Rightarrow> controls" where
  "populate_section options rows cfg f = fold (\<lambda>(i, k, c) g. g(i := control_value options i c (getp cfg (js k)))) rows f"

definition populateServicesForm :: "(string \<Rightarrow> jstr list) \<Rightarrow> jsval \<Rightarrow> controls \<Rightarrow> controls" where
  "populateServicesForm options d f =
     fold (\<lambda>(name, rows). populate_section options rows (js_or (getp d (js name)) (Obj []))) service_sections f"

text \<open>A preset sets the controls of the external broker but its switch and the choice of the preset itself.\<close>

definition applyPresetToForm :: "(string \<Rightarrow> jstr list) \<Rightarrow> jsval \<Rightarrow> controls \<Rightarrow> controls" where
  "applyPresetToForm options p =
     populate_section options (filter (\<lambda>(i, k, c). k \<notin> {''enabled'', ''selected_preset_id''}) external_controls) p"

text \<open>The options of the page, with the presets that the bridge has sent.\<close>

definition page_options :: "jstr list \<Rightarrow> string \<Rightarrow> jstr list" where
  "page_options presets i =
     (if i = ''selExtMqttPreset'' then js ''custom'' # presets
      else case map_of
        [(''selExtMqttTransport'', [''tcp'', ''websockets'']), (''selExtMqttAuthType'', [''anonymous'', ''user_pass'', ''token'']),
         (''selExtMqttPrivacy'', [''fuzzed'', ''exact'', ''hidden'']), (''selExtMqttTopicMode'', [''standard'', ''hierarchical'', ''custom'']),
         (''selExtMqttFormat'', [''json_canonical'', ''analyzer_packet'']), (''selExtMqttQos'', [''0'', ''1'']),
         (''selTcpServerHost'', [''0.0.0.0'', ''127.0.0.1''])] i of Some os \<Rightarrow> map js os | None \<Rightarrow> [])"

subsection \<open>Saving and loading\<close>

record services =
  controls :: controls
  servicesPresets :: "jsval list"
  savingServices :: bool
  sv_requests :: "(string \<times> jsval) list"

definition preset_ids :: "jsval list \<Rightarrow> jstr list" where
  "preset_ids ps = map (\<lambda>p. to_string (getp p (js ''id''))) ps"

definition chosen_preset :: "services \<Rightarrow> jstr \<Rightarrow> jsval option" where
  "chosen_preset st v = find (\<lambda>p. getp p (js ''id'') = Str v) (servicesPresets st)"

definition preset_changed :: "jstr \<Rightarrow> services \<Rightarrow> services" where
  "preset_changed v st =
     (let st1 = st\<lparr>controls := (controls st)(''selExtMqttPreset'' := Txt v)\<rparr> in
      if v = js ''custom'' then st1
      else case chosen_preset st v of
        Some p \<Rightarrow> st1\<lparr>controls := applyPresetToForm (page_options (preset_ids (servicesPresets st))) p (controls st1)\<rparr>
      | None \<Rightarrow> st1)"

definition load_start :: "services \<Rightarrow> services" where
  "load_start st = st\<lparr>sv_requests := sv_requests st @ [(''GET'', Undefined)]\<rparr>"

definition services_loaded :: "net \<Rightarrow> services \<Rightarrow> services" where
  "services_loaded reply st =
     (case reply of
        Rejected _ \<Rightarrow> st
      | Responded res \<Rightarrow>
          (case http_json res of
             None \<Rightarrow> st
           | Some d \<Rightarrow>
               let data = getp d (js ''data''); ps = (case getp data (js ''all_presets'') of Arr xs \<Rightarrow> xs | _ \<Rightarrow> []) in
               if \<not> response_ok res \<or> getp d (js ''status'') \<noteq> Str (js ''ok'') \<or> \<not> truthy data then st
               else st\<lparr>servicesPresets := ps, controls := populateServicesForm (page_options (preset_ids ps)) data (controls st)\<rparr>))"

definition saveServicesConfig :: "services \<Rightarrow> services" where
  "saveServicesConfig st =
     (if savingServices st then st
      else st\<lparr>savingServices := True, sv_requests := sv_requests st @ [(''POST'', gather_services (controls st))]\<rparr>)"

text \<open>An accepted save reads everything back; the flag is kept until that has been done.\<close>

definition services_accepted :: "net \<Rightarrow> bool" where
  "services_accepted reply \<longleftrightarrow>
     (case reply of
        Rejected _ \<Rightarrow> False
      | Responded res \<Rightarrow> response_ok res \<and> (case http_json res of Some d \<Rightarrow> getp d (js ''status'') = Str (js ''ok'') | None \<Rightarrow> False))"

definition services_saved :: "net \<Rightarrow> services \<Rightarrow> services" where
  "services_saved reply st = (if services_accepted reply then load_start st else st\<lparr>savingServices := False\<rparr>)"

definition services_reloaded :: "net \<Rightarrow> services \<Rightarrow> services" where
  "services_reloaded reply st = (services_loaded reply st)\<lparr>savingServices := False\<rparr>"

subsection \<open>What is saved is shown again\<close>

lemma upper_unit_cases:
  assumes "d \<in> set (upper_unit c)"
  shows "unat d = unat c - 32 \<and> (0x61 \<le> unat c \<and> unat c \<le> 0x7A \<or> 0xE0 \<le> unat c \<and> unat c \<le> 0xFE) \<or>
    d = 0x39C \<or> d = 0x53 \<or> d = 0x178 \<or> upper_unit c = [d] \<and> d = c"
proof -
  have shift: "unat (c - 32) = unat c - 32" if "0x61 \<le> c" using that by (simp add: unat_sub word_le_nat_alt)
  have far: "0x61 \<le> c" if "0xE0 \<le> c" using that by (simp add: word_le_nat_alt)
  show ?thesis
  proof (cases "0x61 \<le> c \<and> c \<le> 0x7A \<or> 0xE0 \<le> c \<and> c \<le> 0xFE \<and> c \<noteq> 0xF7")
    case True
    then have "d = c - 32" using assms by (simp add: upper_unit_def)
    with True shift far show ?thesis by (auto simp: word_le_nat_alt)
  next
    case False
    then have "upper_unit c = (if c = 0xB5 then [0x39C] else if c = 0xDF then [0x53, 0x53] else if c = 0xFF then [0x178] else [c])"
      by (simp only: upper_unit_def if_False)
    then show ?thesis using assms by (simp split: if_splits)
  qed
qed

lemma upper_unit_small: "unat d < 0x61 \<or> 0xC0 \<le> unat d \<and> unat d \<le> 0xDE \<Longrightarrow> upper_unit d = [d] \<or> unat d = 0xDF"
  by (auto simp: upper_unit_def word_le_nat_alt word_unat_eq_iff)

lemma upper_unit_upper: "d \<in> set (upper_unit c) \<Longrightarrow> upper_unit d = [d]"
proof (drule upper_unit_cases, elim disjE conjE)
  assume "unat d = unat c - 32" "0x61 \<le> unat c" "unat c \<le> 0x7A"
  then have "unat d < 0x61" by auto
  then show ?thesis using upper_unit_small[of d] by auto
next
  assume "unat d = unat c - 32" "0xE0 \<le> unat c" "unat c \<le> 0xFE"
  then have "0xC0 \<le> unat d" "unat d \<le> 0xDE" by auto
  then show ?thesis using upper_unit_small[of d] by auto
qed (simp_all add: upper_unit_def)

lemma toUpperCase_idem [simp]: "toUpperCase (toUpperCase s) = toUpperCase s"
proof -
  have "toUpperCase t = t" if "\<forall>c \<in> set t. upper_unit c = [c]" for t using that by (induction t) auto
  moreover have "\<forall>c \<in> set (toUpperCase s). upper_unit c = [c]" by (auto simp: toUpperCase_def intro: upper_unit_upper)
  ultimately show ?thesis by blast
qed

lemma upper_unit_visible: "\<not> is_space c \<Longrightarrow> d \<in> set (upper_unit c) \<Longrightarrow> \<not> is_space d"
proof (drule upper_unit_cases, elim disjE conjE)
  assume "unat d = unat c - 32" "0x61 \<le> unat c" "unat c \<le> 0x7A"
  then have "0x41 \<le> unat d" "unat d \<le> 0x5A" by auto
  then show "\<not> is_space d" by (auto simp: is_space_def word_le_nat_alt word_unat_eq_iff)
next
  assume "unat d = unat c - 32" "0xE0 \<le> unat c" "unat c \<le> 0xFE"
  then have "0xC0 \<le> unat d" "unat d \<le> 0xDE" by auto
  then show "\<not> is_space d" by (auto simp: is_space_def word_le_nat_alt word_unat_eq_iff)
qed (simp_all add: is_space_def)

lemma upper_unit_nonempty [simp]: "upper_unit c \<noteq> []"
  by (simp add: upper_unit_def)

lemma toUpperCase_nonempty [simp]: "toUpperCase s = [] \<longleftrightarrow> s = []"
  by (cases s) auto

lemma trim_toUpperCase_trim [simp]: "trim (toUpperCase (trim s)) = toUpperCase (trim s)"
proof (cases "trim s = []")
  case False
  from trim_ends[OF False] have ends: "\<not> is_space (hd (trim s))" "\<not> is_space (last (trim s))" by auto
  have "\<not> is_space (hd (toUpperCase t))" if "t \<noteq> []" "\<not> is_space (hd t)" for t
    using that upper_unit_visible[of "hd t" "hd (upper_unit (hd t))"] by (cases t) auto
  moreover have "\<not> is_space (last (toUpperCase t))" if "t \<noteq> []" "\<not> is_space (last t)" for t
  proof -
    have "toUpperCase (butlast t @ [last t]) = toUpperCase (butlast t) @ upper_unit (last t)" by (simp add: toUpperCase_def)
    then have "toUpperCase t = toUpperCase (butlast t) @ upper_unit (last t)" using that(1) by simp
    then show ?thesis using upper_unit_visible[OF that(2), of "last (upper_unit (last t))"] by simp
  qed
  ultimately show ?thesis using False ends by (intro trim_id) simp
qed simp

lemma parse_int_str [simp]: "parse_int (int_str i) = Fin (of_int i)"
proof (cases "i < 0")
  case True
  have "trim_start (int_str i) = int_str i" using True by (simp add: int_str_def trim_start_def is_space_def)
  then show ?thesis using True by (simp add: parse_int_def int_str_def Let_def)
next
  case False
  then show ?thesis by (simp add: int_str_def)
qed

lemma parse_int_integer: "parse_int s = NaN \<or> (\<exists>i. parse_int s = Fin (of_int i))"
  by (simp add: parse_int_def Let_def)

text \<open>Each control reads back what has been written into it from what it gave.\<close>

definition legal_value :: "(string \<Rightarrow> jstr list) \<Rightarrow> controls \<Rightarrow> string \<times> string \<times> control \<Rightarrow> bool" where
  "legal_value options f row \<longleftrightarrow>
     (let (i, k, c) = row in
      case c of Choice d \<Rightarrow> [] \<notin> set (options i) \<and> text_of f i \<in> set (options i)
      | Quality \<Rightarrow> options i = [js ''0'', js ''1''] \<and> text_of f i \<in> set (options i)
      | TrimText d \<Rightarrow> options i = [] \<and> trim (js d) = js d
      | UpperText d \<Rightarrow> options i = [] \<and> toUpperCase (trim (js d)) = js d | _ \<Rightarrow> options i = [])"

definition echo_of :: "control \<Rightarrow> jsval \<Rightarrow> jsval" where
  "echo_of c v = (if c = ClearBox then Bool False else v)"

lemma control_echo:
  assumes "legal_value options f (i, k, c)" "g i = control_value options i c (gather_control f i c)"
    and "\<And>box t. c = Secret box t \<Longrightarrow> \<not> checked_of g box"
  shows "gather_control g i c = echo_of c (gather_control f i c)"
proof (cases c)
  case (WholeNumber d)
  have "g i = Txt (case number_or (parse_int (text_of f i)) d of v \<Rightarrow> to_string (js_or v (Num (Fin (of_int d)))))"
    using assms by (simp add: WholeNumber control_value_def shown_text_def legal_value_def gather_control_def)
  then show ?thesis using parse_int_integer[of "text_of f i"]
    by (auto simp: WholeNumber gather_control_def echo_of_def text_of_def number_or_def js_or_def num_str_def rat_str_int)
next
  case Quality
  have opts: "options i = [js ''0'', js ''1'']" and "text_of f i = js ''0'' \<or> text_of f i = js ''1''"
    using assms(1) by (auto simp: Quality legal_value_def)
  have lit: "parse_int (js ''0'') = Fin 0" "parse_int (js ''1'') = Fin 1" "num_str (Fin 0) = js ''0''" "num_str (Fin 1) = js ''1''"
    by code_simp+
  have read: "gather_control h i Quality = Num (Fin q)" if "text_of h i = js s" "parse_int (js s) = Fin q" for h s q
    using that by (simp add: gather_control_def number_or_def del: js_simps)
  have "text_of g i = text_of f i"
    using \<open>text_of f i = js ''0'' \<or> text_of f i = js ''1''\<close> assms(2) lit opts read[of f "''0''" 0] read[of f "''1''" 1]
    by (auto simp: Quality control_value_def shown_text_def nullish_def is_nullish_def text_of_def simp del: js_simps split: field_value.splits)
  then show ?thesis by (simp add: Quality gather_control_def echo_of_def)
next
  case (Choice d)
  then show ?thesis using assms
    by (auto simp: gather_control_def echo_of_def legal_value_def control_value_def shown_text_def text_or_def text_of_def js_or_def
        split: field_value.splits)
next
  case (Secret box t)
  then show ?thesis using assms
    by (auto simp: gather_control_def echo_of_def legal_value_def control_value_def shown_text_def js_or_def text_of_def)
qed (use assms in \<open>auto simp: gather_control_def echo_of_def legal_value_def control_value_def shown_text_def text_or_def text_of_def
  checked_of_def js_or_def\<close>)

lemma populate_section_other: "i \<notin> fst ` set rows \<Longrightarrow> populate_section options rows cfg f i = f i"
  unfolding populate_section_def by (induction rows arbitrary: f) auto

lemma populate_section_row:
  "distinct (map fst rows) \<Longrightarrow> (i, k, c) \<in> set rows \<Longrightarrow>
     populate_section options rows cfg f i = control_value options i c (getp cfg (js k))"
proof (induction rows arbitrary: f)
  case (Cons row rows)
  obtain i1 k1 c1 where row: "row = (i1, k1, c1)" by (cases row)
  let ?f = "f(i1 := control_value options i1 c1 (getp cfg (js k1)))"
  have step: "populate_section options (row # rows) cfg f = populate_section options rows cfg ?f"
    by (simp add: populate_section_def row)
  show ?case
  proof (cases "(i, k, c) = row")
    case True
    then have "i \<notin> fst ` set rows" using Cons.prems(1) row by auto
    then show ?thesis unfolding step using True row by (simp add: populate_section_other)
  next
    case False
    then have "distinct (map fst rows)" "(i, k, c) \<in> set rows" using Cons.prems by auto
    from Cons.IH[OF this] show ?thesis unfolding step .
  qed
qed simp

text \<open>No element belongs to two rows, and no section has a key twice.\<close>

definition row_ids :: "(string \<times> control_row list) list \<Rightarrow> string list" where
  "row_ids ss = concat (map (\<lambda>(name, rows). map fst rows) ss)"

lemma sections_distinct:
  "distinct (row_ids service_sections)" "distinct (map fst service_sections)"
  "(name, rows) \<in> set service_sections \<Longrightarrow> distinct (map (fst \<circ> snd) rows)"
  by (simp_all add: row_ids_def service_sections_def external_controls_def local_controls_def tcp_controls_def)
    (auto simp: external_controls_def local_controls_def tcp_controls_def)

lemma populate_row:
  assumes "(name, rows) \<in> set service_sections" "(i, k, c) \<in> set rows"
  shows "populateServicesForm options d f i = control_value options i c (getp (js_or (getp d (js name)) (Obj [])) (js k))"
proof -
  have "fold (\<lambda>(name, rows). populate_section options rows (js_or (getp d (js name)) (Obj []))) ss f i =
      control_value options i c (getp (js_or (getp d (js name)) (Obj [])) (js k))"
    if "distinct (row_ids ss)" "(name, rows) \<in> set ss" for ss f
    using that
  proof (induction ss arbitrary: f)
    case (Cons s ss)
    obtain n1 r1 where s: "s = (n1, r1)" by (cases s)
    have d: "distinct (map fst r1)" "distinct (row_ids ss)" "set (map fst r1) \<inter> set (row_ids ss) = {}"
      using Cons.prems(1) by (auto simp: row_ids_def s)
    show ?case
    proof (cases "(name, rows) = s")
      case True
      then have "i \<notin> set (row_ids ss)" using d(3) assms(2) s by (auto simp: rev_image_eqI)
      then have "fold (\<lambda>(name, rows). populate_section options rows (js_or (getp d (js name)) (Obj []))) ss g i = g i" for g
        by (induction ss arbitrary: g) (auto simp: row_ids_def populate_section_other)
      then show ?thesis using True s populate_section_row[OF d(1), of i k c] assms(2) by simp
    next
      case False
      then have "(name, rows) \<in> set ss" using Cons.prems(2) by auto
      from Cons.IH[OF d(2) this] show ?thesis by (simp add: s)
    qed
  qed simp
  then show ?thesis unfolding populateServicesForm_def using sections_distinct(1) assms(1) by blast
qed

lemma gathered_row:
  assumes "(name, rows) \<in> set service_sections" "(i, k, c) \<in> set rows"
  shows "getp (js_or (getp (gather_services f) (js name)) (Obj [])) (js k) = gather_control f i c"
proof -
  have keys: "map_of (map (\<lambda>(i, k, c). (js k, gather_control f i c)) rs) (js k) = Some (gather_control f i c)"
    if "distinct (map (fst \<circ> snd) rs)" "(i, k, c) \<in> set rs" for rs
    using that by (induction rs) (auto simp: inj_eq[OF inj_js] rev_image_eqI)
  have names: "map_of (map (\<lambda>(name, rows). (js name, gather_section f rows)) ss) (js name) = Some (gather_section f rows)"
    if "distinct (map fst ss)" "(name, rows) \<in> set ss" for ss
    using that by (induction ss) (auto simp: inj_eq[OF inj_js] rev_image_eqI)
  show ?thesis
    using names[OF sections_distinct(2) assms(1)] keys[OF sections_distinct(3)[OF assms(1)] assms(2)]
    by (simp add: gather_services_def gather_section_def getp_def js_or_def)
qed

text \<open>Selections show one of their options.\<close>

definition select_ids :: "string list" where
  "select_ids =
     [''selExtMqttTransport'', ''selExtMqttAuthType'', ''selExtMqttPrivacy'', ''selExtMqttTopicMode'', ''selExtMqttFormat'', ''selExtMqttQos'',
      ''selTcpServerHost'', ''selExtMqttPreset'']"

definition page_legal :: "jstr list \<Rightarrow> controls \<Rightarrow> bool" where
  "page_legal presets f \<longleftrightarrow> [] \<notin> set presets \<and> list_all (\<lambda>i. text_of f i \<in> set (page_options presets i)) select_ids"

definition row_fits :: "control_row \<Rightarrow> bool" where
  "row_fits row \<longleftrightarrow>
     (let (i, k, c) = row in
      case c of Choice d \<Rightarrow> i \<in> set select_ids | Quality \<Rightarrow> i = ''selExtMqttQos''
      | TrimText d \<Rightarrow> i \<notin> set select_ids \<and> trim (js d) = js d
      | UpperText d \<Rightarrow> i \<notin> set select_ids \<and> toUpperCase (trim (js d)) = js d | _ \<Rightarrow> i \<notin> set select_ids)"

lemma rows_fit: "list_all (\<lambda>(name, rows). list_all row_fits rows) service_sections"
  by code_simp

lemma free_text: "i \<notin> set select_ids \<Longrightarrow> page_options presets i = []"
  by (simp add: select_ids_def page_options_def)

lemma options_nonempty: "[] \<notin> set presets \<Longrightarrow> [] \<notin> set (page_options presets i)"
  by (simp add: page_options_def)

lemma rows_legal:
  assumes "page_legal presets f" "(name, rows) \<in> set service_sections" "row \<in> set rows"
  shows "legal_value (page_options presets) f row"
proof -
  obtain i k c where row: "row = (i, k, c)" by (cases row)
  have fits: "row_fits (i, k, c)" using rows_fit assms(2,3) row by (fastforce simp: list_all_iff)
  have legal: "text_of f j \<in> set (page_options presets j)" if "j \<in> set select_ids" for j
    using assms(1) that by (simp add: page_legal_def list_all_iff)
  have none: "[] \<notin> set (page_options presets j)" for j using assms(1) options_nonempty by (simp add: page_legal_def)
  have quality: "''selExtMqttQos'' \<in> set select_ids" "page_options presets ''selExtMqttQos'' = [js ''0'', js ''1'']"
    by (simp_all add: select_ids_def page_options_def)
  show ?thesis
    using fits legal[of i] none[of i] quality free_text[of i presets]
    by (cases c) (auto simp: row row_fits_def legal_value_def simp del: js_simps)
qed

text \<open>
  C32: What is saved is shown again. When the bridge keeps the body of a save and sends it back, the form
  that is filled from it, whatever it held before, gives the same body at the next save, but for the
  requests to forget a password, which are not repeated: white space around texts, empty numbers and
  texts, and the case of the region have been settled by the first save.
\<close>

theorem services_form_reads_back:
  assumes "page_legal presets f"
  shows "gather_services (populateServicesForm (page_options presets) (gather_services f) g) =
    Obj (map (\<lambda>(name, rows). (js name, Obj (map (\<lambda>(i, k, c). (js k, echo_of c (gather_control f i c))) rows))) service_sections)"
proof -
  let ?h = "populateServicesForm (page_options presets) (gather_services f) g"
  have echo: "gather_control ?h i c = echo_of c (gather_control f i c)"
    if sec: "(name, rows) \<in> set service_sections" and row: "(i, k, c) \<in> set rows" for name rows i k c
  proof (rule control_echo[OF rows_legal[OF assms sec row]])
    show "?h i = control_value (page_options presets) i c (gather_control f i c)"
      using populate_row[OF sec row] gathered_row[OF sec row] by simp
    fix box t
    assume c: "c = Secret box t"
    have "\<exists>k. (box, k, ClearBox) \<in> set rows"
      using sec row unfolding c
      by (auto simp: service_sections_def external_controls_def local_controls_def tcp_controls_def)
    then obtain k' where "(box, k', ClearBox) \<in> set rows" ..
    from populate_row[OF sec this] show "\<not> checked_of ?h box" by (simp add: control_value_def checked_of_def)
  qed
  show ?thesis
    unfolding gather_services_def[of ?h] gather_section_def using echo by (auto intro!: map_cong)
qed

definition sample_controls :: controls where
  "sample_controls = (\<lambda>_. Txt [])(''selExtMqttTransport'' := Txt (js ''tcp''), ''selExtMqttAuthType'' := Txt (js ''token''),
     ''selExtMqttPrivacy'' := Txt (js ''exact''), ''selExtMqttTopicMode'' := Txt (js ''custom''), ''selExtMqttFormat'' := Txt (js ''json_canonical''),
     ''selExtMqttQos'' := Txt (js ''1''), ''selTcpServerHost'' := Txt (js ''0.0.0.0''), ''selExtMqttPreset'' := Txt (js ''custom''))"

lemma services_form_reads_back_witness:
  "gather_services (populateServicesForm (page_options []) (gather_services sample_controls) (\<lambda>_. Txt [])) =
    Obj (map (\<lambda>(name, rows). (js name, Obj (map (\<lambda>(i, k, c). (js k, echo_of c (gather_control sample_controls i c))) rows))) service_sections)"
  by (rule services_form_reads_back) (simp add: page_legal_def select_ids_def page_options_def sample_controls_def text_of_def)

text \<open>
  A choice that the page does not offer is replaced without being touched. When the configuration
  of a service holds a value that is not among the options of its selection, the selection shows
  nothing, and the next save of the form sends the default in its place: a TCP server that listens on
  one address of the host is moved to the loopback address by saving any other setting.
\<close>

theorem unlisted_choice_is_replaced:
  assumes "(name, rows) \<in> set service_sections" "(i, k, Choice d) \<in> set rows"
    and "getp (getp cfg (js name)) (js k) = Str v" "v \<noteq> []" "v \<notin> set (page_options presets i)" "page_options presets i \<noteq> []"
  shows "gather_control (populateServicesForm (page_options presets) cfg f) i (Choice d) = Str (js d)"
proof -
  have "getp (js_or (getp cfg (js name)) (Obj [])) (js k) = Str v"
    using assms(3) by (cases "getp cfg (js name)") (auto simp: js_or_def getp_def)
  with populate_row[OF assms(1,2), of "page_options presets" cfg f] assms(4-6)
  have "populateServicesForm (page_options presets) cfg f i = Txt []"
    by (simp add: control_value_def shown_text_def js_or_def)
  then show ?thesis by (simp add: gather_control_def text_of_def text_or_def)
qed

lemma unlisted_choice_is_replaced_witness:
  "gather_control (populateServicesForm (page_options []) (Obj [(js ''tcp_server'', Obj [(js ''host'', Str (js ''192.168.1.5''))])]) sample_controls)
     ''selTcpServerHost'' (Choice ''127.0.0.1'') = Str (js ''127.0.0.1'')"
proof (rule unlisted_choice_is_replaced)
  show "(''tcp_server'', tcp_controls) \<in> set service_sections" by (simp add: service_sections_def)
  show "(''selTcpServerHost'', ''host'', Choice ''127.0.0.1'') \<in> set tcp_controls" by (simp add: tcp_controls_def)
  show "getp (getp (Obj [(js ''tcp_server'', Obj [(js ''host'', Str (js ''192.168.1.5''))])]) (js ''tcp_server'')) (js ''host'') = Str (js ''192.168.1.5'')"
    by (simp add: getp_def)
qed (simp_all add: page_options_def)

end
