(* ===== verification/NodeCards.thy ===== *)
theory NodeCards
  imports RepeaterFields TimeFormat ArraySort
begin

section \<open>The directory of nodes on the page (modules/nodes.js)\<close>

text \<open>
  The known nodes and their cards: one grid of cards for all nodes and one for the contacts among
  them. The directory is filled by a download or a pushed list, grows with single nodes that are heard,
  is filtered by text and by a pill, sorted, counted, and changed by favourites and deletions. A card
  is what the code reads back of it: its data attributes and whether it is hidden. Its markup is left
  out: what it says at a moment, like the clock and the elements elsewhere on the page, is given by the
  page. Roles and names of nodes are texts.
\<close>

type_synonym known_nodes = "(jstr \<times> props) list"

record node_page =
  pg_now :: int
  pg_own :: jstr
  pg_elsewhere :: "jstr list"
  pg_text :: "nat \<Rightarrow> jstr"

record node_card =
  card_id :: nat
  card_pk :: jstr
  card_role :: jstr
  card_favorite :: bool
  card_online :: bool
  card_gps :: bool
  card_hidden :: bool

record node_counts =
  cnt_all :: nat
  cnt_repeaters :: nat
  cnt_sensors :: nat
  cnt_rooms :: nat
  cnt_clients :: nat
  cnt_contacts :: nat
  cnt_favorites :: nat
  cnt_online :: nat
  cnt_gps :: nat

datatype card_task = FavoriteTask nat jstr bool | DeleteTask nat jstr

record directory =
  known :: known_nodes
  contactCards :: "node_card list"
  nodeCards :: "node_card list"
  contactsFilter :: string
  nodesFilter :: jstr
  contactsQuery :: jstr
  nodesQuery :: jstr
  counts :: node_counts
  sortPending :: bool
  fetchGeneration :: nat
  published :: "props list"
  discovered :: "jstr list"
  bannerShown :: bool
  card_tasks :: "(nat \<times> card_task) list"
  next_card :: nat

subsection \<open>Nodes\<close>

definition as_nodes :: "known_nodes \<Rightarrow> nodes" where
  "as_nodes kn = map (\<lambda>(k, p). (k, Obj p)) kn"

definition node_key :: "props \<Rightarrow> jstr" where
  "node_key p = toLowerCase (to_string (fld p ''public_key''))"

definition role_is :: "props \<Rightarrow> string \<Rightarrow> bool" where
  "role_is p r \<longleftrightarrow> fld p ''role'' = Str (js r)"

definition is_local :: "props \<Rightarrow> bool" where
  "is_local p \<longleftrightarrow> truthy (fld p ''is_local'')"

text \<open>The station itself: by its mark, its role, the key \<open>local\<close>, or the key in the settings.\<close>

definition own_node :: "node_page \<Rightarrow> props \<Rightarrow> bool" where
  "own_node env p \<longleftrightarrow>
     (let key = trim (node_key p); own = trim (toLowerCase (pg_own env)) in
      is_local p \<or> truthy (fld p ''role'') \<and> toUpperCase (to_string (fld p ''role'')) = js ''LOCAL'' \<or> key = js ''local'' \<or>
      own \<noteq> [] \<and> (key = own \<or> 8 \<le> length own \<and> startsWith key (take 8 own)))"

definition directory_node :: "node_page \<Rightarrow> props \<Rightarrow> props" where
  "directory_node env p =
     (let own = own_node env p; role = js_or (fld p ''role'') (Str (js ''CLIENT''));
          rep = (\<not> own \<and> toUpperCase (to_string role) \<in> {js ''REPEATER'', js ''ROUTER''})
      in spread p
           [(js ''is_local'', if own then Bool True else if trim (toLowerCase (pg_own env)) = [] then Str [] else Bool False),
            (js ''role'', if own then Str (js ''LOCAL'') else if rep then Str (js ''REPEATER'') else role)])"

definition plain_client :: "props \<Rightarrow> bool" where
  "plain_client p \<longleftrightarrow> \<not> is_local p \<and> \<not> role_is p ''REPEATER'' \<and> \<not> role_is p ''SENSOR'' \<and> \<not> role_is p ''ROOM''"

definition is_contact :: "props \<Rightarrow> bool" where
  "is_contact p \<longleftrightarrow> \<not> is_local p \<and> \<not> role_is p ''REPEATER'' \<and> (role_is p ''CLIENT'' \<or> plain_client p)"

definition coordinate :: "props \<Rightarrow> string list \<Rightarrow> string \<Rightarrow> jnum" where
  "coordinate p names inner =
     (let v = foldr (\<lambda>k. nullish (fld p k)) names (getp (fld p ''gps'') (js inner)) in
      if is_nullish v then NaN else parse_float v)"

definition has_gps :: "bool \<Rightarrow> props \<Rightarrow> bool" where
  "has_gps at_zero p \<longleftrightarrow>
     (let lat = coordinate p [''latitude'', ''lat'', ''adv_lat''] ''latitude''; lon = coordinate p [''longitude'', ''lon'', ''adv_lon''] ''longitude''
      in lat \<noteq> NaN \<and> lon \<noteq> NaN \<and> (lat \<noteq> Fin 0 \<or> lon \<noteq> Fin 0 \<or> at_zero))"

definition presence_of :: "node_page \<Rightarrow> props \<Rightarrow> bool \<Rightarrow> presence" where
  "presence_of env p own = getPresenceState (pg_now env) (fld p ''last_seen'') own"

text \<open>A node that the bridge calls offline is shown so, whatever its last signal.\<close>

definition shown_online :: "node_page \<Rightarrow> props \<Rightarrow> bool" where
  "shown_online env p \<longleftrightarrow>
     (is_local p \<or> fld p ''presence_status'' \<noteq> Str (js ''offline'')) \<and> presence_of env p (is_local p) = Online"

subsection \<open>Cards\<close>

definition createNodeCard :: "node_page \<Rightarrow> bool \<Rightarrow> nat \<Rightarrow> props \<Rightarrow> node_card" where
  "createNodeCard env contact n p =
     (let rep = (role_is p ''REPEATER'' \<or> role_is p ''ROUTER'');
          role = (if is_local p then ''LOCAL'' else if rep then ''REPEATER'' else if role_is p ''SENSOR'' then ''SENSOR''
                  else if role_is p ''ROOM'' then ''ROOM'' else ''CLIENT'')
      in \<lparr>card_id = n, card_pk = to_string (fld p ''public_key''), card_role = (if contact then [] else js role),
          card_favorite = (contact \<and> truthy (fld p ''is_favorite'')), card_online = (presence_of env p (is_local p) = Online),
          card_gps = has_gps False p, card_hidden = False\<rparr>)"

definition count_where :: "('a \<Rightarrow> bool) \<Rightarrow> 'a list \<Rightarrow> nat" where
  "count_where f xs = length (filter f xs)"

definition updateCounts :: "node_page \<Rightarrow> props list \<Rightarrow> node_counts" where
  "updateCounts env ps =
     (let contacts = filter is_contact ps in
      \<lparr>cnt_all = length ps, cnt_repeaters = count_where (\<lambda>p. role_is p ''REPEATER'') ps, cnt_sensors = count_where (\<lambda>p. role_is p ''SENSOR'') ps,
       cnt_rooms = count_where (\<lambda>p. role_is p ''ROOM'') ps, cnt_clients = count_where plain_client ps,
       cnt_contacts = length contacts, cnt_favorites = count_where (\<lambda>p. truthy (fld p ''is_favorite'')) contacts,
       cnt_online = count_where (\<lambda>p. presence_of env p False = Online) contacts, cnt_gps = count_where (has_gps False) contacts\<rparr>)"

definition search_text :: "jstr \<Rightarrow> jstr" where
  "search_text q = trim (toLowerCase q)"

definition says :: "node_page \<Rightarrow> jstr \<Rightarrow> node_card \<Rightarrow> bool" where
  "says env q c \<longleftrightarrow> search_text q = [] \<or> str_includes (toLowerCase (pg_text env (card_id c))) (search_text q)"

definition contact_matches :: "node_page \<Rightarrow> string \<Rightarrow> jstr \<Rightarrow> node_card \<Rightarrow> bool" where
  "contact_matches env pill q c \<longleftrightarrow>
     says env q c \<and> (if pill = ''favorites'' then card_favorite c else if pill = ''online'' then card_online c
                     else if pill = ''gps'' then card_gps c else True)"

definition node_matches :: "node_page \<Rightarrow> jstr \<Rightarrow> jstr \<Rightarrow> node_card \<Rightarrow> bool" where
  "node_matches env pill q c \<longleftrightarrow>
     (let role = toUpperCase pill in (role = js ''ALL'' \<or> toUpperCase (card_role c) = role) \<and> says env q c)"

definition filterContactsGrid :: "node_page \<Rightarrow> directory \<Rightarrow> directory" where
  "filterContactsGrid env st = st\<lparr>contactCards :=
     map (\<lambda>c. c\<lparr>card_hidden := \<not> contact_matches env (contactsFilter st) (contactsQuery st) c\<rparr>) (contactCards st)\<rparr>"

definition filterNodesGrid :: "node_page \<Rightarrow> directory \<Rightarrow> directory" where
  "filterNodesGrid env st = st\<lparr>nodeCards :=
     map (\<lambda>c. c\<lparr>card_hidden := \<not> node_matches env (nodesFilter st) (nodesQuery st) c\<rparr>) (nodeCards st)\<rparr>"

text \<open>The comparator is positive; a card whose node is not known compares equal to every other.\<close>

definition card_after :: "known_nodes \<Rightarrow> node_card \<Rightarrow> node_card \<Rightarrow> bool" where
  "card_after kn a b \<longleftrightarrow>
     (case (map_of kn (toLowerCase (card_pk a)), map_of kn (toLowerCase (card_pk b))) of
        (Some p, Some q) \<Rightarrow>
          let fav = (\<lambda>r. truthy (fld r ''is_favorite'')); seen = (\<lambda>r. to_number (js_or (fld r ''last_seen'') (Num (Fin 0)))) in
          if is_local p \<noteq> is_local q then is_local q
          else if fav p \<noteq> fav q then fav q
          else jlt (Fin 0) (jsub (seen q) (seen p))
      | _ \<Rightarrow> False)"

definition sortCardsInGrid :: "known_nodes \<Rightarrow> node_card list \<Rightarrow> node_card list" where
  "sortCardsInGrid kn cards = (if length cards \<le> 1 then cards else js_sort (card_after kn) cards)"

subsection \<open>The whole directory\<close>

definition valid_nodes :: "jsval list \<Rightarrow> props list" where
  "valid_nodes xs =
     concat (map (\<lambda>v. case v of Obj p \<Rightarrow> if isValidNodeKey (fld p ''public_key'') then [p] else [] | _ \<Rightarrow> []) xs)"

definition known_map :: "props list \<Rightarrow> known_nodes" where
  "known_map ns = fold (\<lambda>p. assoc_put (node_key p) p) ns []"

definition refilter :: "node_page \<Rightarrow> directory \<Rightarrow> directory" where
  "refilter env st = filterNodesGrid env (filterContactsGrid env st)"

text \<open>New cards take the numbers from \<open>next_card\<close> on, two for each node.\<close>

definition renderNodesDirectory :: "node_page \<Rightarrow> jsval list \<Rightarrow> directory \<Rightarrow> directory" where
  "renderNodesDirectory env xs st =
     (if xs = [] then st\<lparr>known := [], contactCards := [], nodeCards := [], published := []\<rparr>
      else let ns = map (directory_node env) (valid_nodes xs); cards = zip [next_card st..<next_card st + length ns] ns
        in refilter env
          (st\<lparr>known := known_map ns,
              contactCards := map (\<lambda>(n, p). createNodeCard env True n p) (filter (\<lambda>(n, p). is_contact p) cards),
              nodeCards := map (\<lambda>(n, p). createNodeCard env False (n + length ns) p) cards,
              counts := updateCounts env ns, published := ns, next_card := next_card st + 2 * length ns\<rparr>))"

subsection \<open>Single nodes\<close>

definition add_node_card :: "node_page \<Rightarrow> props \<Rightarrow> directory \<Rightarrow> directory" where
  "add_node_card env p st = filterNodesGrid env
     (st\<lparr>nodeCards := nodeCards st @ [createNodeCard env False (next_card st) p], next_card := next_card st + 1\<rparr>)"

definition add_contact_card :: "node_page \<Rightarrow> props \<Rightarrow> directory \<Rightarrow> directory" where
  "add_contact_card env p st =
     (if \<not> is_local p \<and> role_is p ''CLIENT''
      then filterContactsGrid env
        (st\<lparr>contactCards := contactCards st @ [createNodeCard env True (next_card st) p], next_card := next_card st + 1\<rparr>)
      else st)"

definition insertNodeCardIncremental :: "node_page \<Rightarrow> props \<Rightarrow> directory \<Rightarrow> directory" where
  "insertNodeCardIncremental env raw st =
     (if \<not> isValidNodeKey (fld raw ''public_key'') then st
      else let p = directory_node env raw; kn = assoc_put (trim (node_key raw)) p (known st);
               st1 = add_contact_card env p (add_node_card env p (st\<lparr>known := kn\<rparr>))
        in st1\<lparr>counts := updateCounts env (map snd kn), published := map snd kn\<rparr>)"

definition refresh_card :: "node_page \<Rightarrow> props \<Rightarrow> jstr \<Rightarrow> node_card \<Rightarrow> node_card" where
  "refresh_card env p pk c =
     (if card_pk c = pk
      then c\<lparr>card_online := shown_online env p, card_gps := has_gps (truthy (fld p ''position_valid'')) p\<rparr> else c)"

text \<open>The selector finds every element of the page that carries the key, in the grids or elsewhere.\<close>

definition on_page :: "node_page \<Rightarrow> directory \<Rightarrow> jstr \<Rightarrow> bool" where
  "on_page env st pk \<longleftrightarrow> pk \<in> set (pg_elsewhere env) \<union> card_pk ` (set (contactCards st) \<union> set (nodeCards st))"

definition known_props :: "known_nodes \<Rightarrow> jstr \<Rightarrow> props" where
  "known_props kn k = (case map_of kn k of Some p \<Rightarrow> p | None \<Rightarrow> [])"

definition updateNodeInDom :: "node_page \<Rightarrow> props \<Rightarrow> directory \<Rightarrow> directory" where
  "updateNodeInDom env p st =
     (let pk = node_key p in
      if on_page env st pk
      then st\<lparr>contactCards := map (refresh_card env p pk) (contactCards st), nodeCards := map (refresh_card env p pk) (nodeCards st)\<rparr>
      else (insertNodeCardIncremental env (spread (known_props (known st) pk) p) st)\<lparr>sortPending := True\<rparr>)"

definition fetch_nodes_start :: "directory \<Rightarrow> directory" where
  "fetch_nodes_start st = st\<lparr>fetchGeneration := fetchGeneration st + 1\<rparr>"

text \<open>All pages of a download have been answered, or one answer has ended it.\<close>

definition nodes_fetched :: "node_page \<Rightarrow> nat \<Rightarrow> net list \<Rightarrow> directory \<Rightarrow> directory" where
  "nodes_fetched env g replies st =
     (case fetchNodes (map (\<lambda>r. (g = fetchGeneration st, r)) replies) nodes_fetch_start of
        Rendered xs \<Rightarrow> renderNodesDirectory env xs st
      | _ \<Rightarrow> st)"

definition contact_seen :: "node_page \<Rightarrow> jsval \<Rightarrow> directory \<Rightarrow> directory" where
  "contact_seen env c st =
     (let pk = getp c (js ''public_key'') in
      if truthy pk \<and> isValidNodeKey pk
      then let key = (let k = resolveCanonicalPubkey (as_nodes (known st)) pk in if k = [] then trim (toLowerCase (to_string pk)) else k);
               merged = set_prop (js ''public_key'') (Str key)
                 (spread (known_props (known st) key) (case c of Obj ps \<Rightarrow> ps | _ \<Rightarrow> []))
           in updateNodeInDom env merged (st\<lparr>known := assoc_put key merged (known st)\<rparr>)
      else fetch_nodes_start st)"

text \<open>A value of the payload, or else of its contact, replaces what is known.\<close>

definition copy_known :: "jsval list \<Rightarrow> string \<Rightarrow> props \<Rightarrow> props" where
  "copy_known sources k p =
     (case filter (\<lambda>v. \<not> is_nullish v) sources of v # _ \<Rightarrow> set_prop (js k) v p | [] \<Rightarrow> p)"

definition heard_node :: "node_page \<Rightarrow> jsval \<Rightarrow> props \<Rightarrow> props" where
  "heard_node env payload p0 =
     (let g = (\<lambda>k. getp payload (js k)); c = (\<lambda>k. getp (js_or (g ''contact'') (Obj [])) (js k));
          p1 = set_prop (js ''last_seen'') (Num (Fin (of_int (pg_now env div 1000)))) p0;
          p2 = copy_known [g ''snr''] ''last_snr'' (copy_known [g ''rssi''] ''last_rssi'' p1);
          p3 = copy_known [g ''hops'', c ''hops''] ''hops''
                 (copy_known [g ''voltage_v'', c ''voltage_v''] ''voltage_v'' (copy_known [g ''battery_pct'', c ''battery_pct''] ''battery_pct'' p2))
      in if truthy (g ''sender_name'') \<and> \<not> truthy (fld p3 ''name'') then set_prop (js ''name'') (g ''sender_name'') p3 else p3)"

definition sender_of :: "jsval \<Rightarrow> jsval" where
  "sender_of p = (let g = (\<lambda>k. getp p (js k)) in
     js_or (g ''sender'') (js_or (g ''from'') (js_or (g ''pubkey'') (getp (g ''contact'') (js ''public_key'')))))"

definition node_heard :: "node_page \<Rightarrow> jsval \<Rightarrow> directory \<Rightarrow> directory" where
  "node_heard env payload st =
     (let sender = sender_of payload; key = resolveCanonicalPubkey (as_nodes (known st)) sender in
      if \<not> truthy sender \<or> \<not> isValidNodeKey sender \<or> key = [] \<or> key = js ''local'' then st
      else let p = heard_node env payload
                 (case map_of (known st) key of Some p \<Rightarrow> p
                  | None \<Rightarrow> [(js ''public_key'', Str key), (js ''role'', Str (js ''CLIENT''))])
        in updateNodeInDom env p (st\<lparr>known := assoc_put key p (known st)\<rparr>))"

definition is_sent :: "jsval \<Rightarrow> bool" where
  "is_sent p \<longleftrightarrow> getp p (js ''direction'') = Str (js ''tx'') \<or> getp p (js ''is_rx'') = Bool False \<or>
     getp p (js ''status'') = Str (js ''sent'') \<or> getp p (js ''type'') = Str (js ''tx_sent'')"

definition presence_events :: "string list" where
  "presence_events = [''telemetry'', ''chat_msg'', ''channel_msg'', ''advert'', ''packet_rx'', ''ping_reply'', ''message_delivered'', ''rf_packet'']"

definition handlePayload :: "node_page \<Rightarrow> jsval \<Rightarrow> directory \<Rightarrow> directory" where
  "handlePayload env payload st =
     (let kind = js_or (getp payload (js ''type'')) (getp payload (js ''event_type'')) in
      if kind = Str (js ''contacts_updated'')
      then (case getp payload (js ''data'') of Arr xs \<Rightarrow> renderNodesDirectory env xs st | _ \<Rightarrow> fetch_nodes_start st)
      else if kind = Str (js ''contact_discovered'') \<or> kind = Str (js ''contact_updated'')
      then contact_seen env (js_or (getp payload (js ''contact'')) (getp payload (js ''data''))) st
      else if \<not> is_sent payload \<and> kind \<in> set (map (\<lambda>k. Str (js k)) presence_events) then node_heard env payload st
      else st)"

subsection \<open>Favourites, deletion and discovery\<close>

definition add_card_task :: "card_task \<Rightarrow> directory \<Rightarrow> directory" where
  "add_card_task t st = st\<lparr>card_tasks := card_tasks st @ [(next_card st, t)], next_card := next_card st + 1\<rparr>"

definition card_with :: "nat \<Rightarrow> directory \<Rightarrow> node_card option" where
  "card_with n st = find (\<lambda>c. card_id c = n) (contactCards st)"

text \<open>The button is disabled while the request of its card is on its way.\<close>

definition favorite_busy :: "nat \<Rightarrow> directory \<Rightarrow> bool" where
  "favorite_busy n st \<longleftrightarrow> list_ex (\<lambda>(m, t). case t of FavoriteTask i _ _ \<Rightarrow> i = n | DeleteTask _ _ \<Rightarrow> False) (card_tasks st)"

definition favorite_clicked :: "nat \<Rightarrow> directory \<Rightarrow> directory" where
  "favorite_clicked n st =
     (case card_with n st of
        Some c \<Rightarrow> if favorite_busy n st then st else add_card_task (FavoriteTask n (card_pk c) (\<not> card_favorite c)) st
      | None \<Rightarrow> st)"

definition answered_ok :: "net \<Rightarrow> bool" where
  "answered_ok reply \<longleftrightarrow>
     (case reply of
        Rejected _ \<Rightarrow> False
      | Responded res \<Rightarrow> response_ok res \<and> (case http_json res of Some d \<Rightarrow> getp d (js ''status'') = Str (js ''ok'') | None \<Rightarrow> False))"

definition favorite_answered :: "node_page \<Rightarrow> nat \<Rightarrow> jstr \<Rightarrow> bool \<Rightarrow> net \<Rightarrow> directory \<Rightarrow> directory" where
  "favorite_answered env n pk fav reply st =
     (if \<not> answered_ok reply then st
      else let key = toLowerCase pk;
               cards = map (\<lambda>c. if card_id c = n then c\<lparr>card_favorite := fav\<rparr> else c) (contactCards st);
               kn = (case map_of (known st) key of
                   Some p \<Rightarrow> assoc_put key (set_prop (js ''is_favorite'') (Bool fav) p) (known st) | None \<Rightarrow> known st)
        in filterContactsGrid env (st\<lparr>contactCards := cards, known := kn, counts := (counts st)\<lparr>cnt_favorites := count_where card_favorite cards\<rparr>\<rparr>))"

text \<open>The card may have been replaced while the user was asked; its request goes on with its key.\<close>

definition delete_answered :: "nat \<Rightarrow> jstr \<Rightarrow> net \<Rightarrow> directory \<Rightarrow> directory" where
  "delete_answered n pk reply st =
     (if (case reply of Responded res \<Rightarrow> response_ok res | Rejected _ \<Rightarrow> False)
      then st\<lparr>contactCards := filter (\<lambda>c. card_id c \<noteq> n) (contactCards st), known := assoc_del (toLowerCase pk) (known st)\<rparr> else st)"

definition card_answered :: "node_page \<Rightarrow> card_task \<Rightarrow> net \<Rightarrow> directory \<Rightarrow> directory" where
  "card_answered env t reply st =
     (case t of FavoriteTask n pk fav \<Rightarrow> favorite_answered env n pk fav reply st | DeleteTask n pk \<Rightarrow> delete_answered n pk reply st)"

definition note_discovered :: "jsval \<Rightarrow> directory \<Rightarrow> directory" where
  "note_discovered evt st =
     (let pk = getp (getp evt (js ''contact'')) (js ''public_key'') in
      if truthy (getp evt (js ''is_new'')) \<and> truthy pk
      then st\<lparr>discovered := add_match (discovered st) (toLowerCase (to_string pk)), bannerShown := True\<rparr> else st)"

definition presence_tick :: "node_page \<Rightarrow> directory \<Rightarrow> directory" where
  "presence_tick env st =
     (let tick = (\<lambda>c. case map_of (known st) (toLowerCase (card_pk c)) of
                        Some p \<Rightarrow> if card_pk c = [] then c else c\<lparr>card_online := shown_online env p\<rparr> | None \<Rightarrow> c)
      in st\<lparr>contactCards := map tick (contactCards st), nodeCards := map tick (nodeCards st)\<rparr>)"

subsection \<open>The machine\<close>

datatype directory_event =
    RefreshAsked
  | NodesFetched nat "net list"
  | BusPayload jsval
  | ContactsSearched jstr
  | NodesSearched jstr
  | ContactsPill string
  | NodesPill jstr
  | SortFired
  | PresenceTick bool
  | LanguageSwitched
  | FavoriteClicked nat
  | DeleteConfirmed nat jstr
  | CardAnswered nat net
  | ContactDiscovered jsval
  | DiscoveredAccepted

definition directory_step :: "node_page \<times> directory_event \<Rightarrow> directory \<Rightarrow> directory" where
  "directory_step e st =
     (let (env, ev) = e in
      case ev of
        RefreshAsked \<Rightarrow> fetch_nodes_start st
      | NodesFetched g replies \<Rightarrow> nodes_fetched env g replies st
      | BusPayload p \<Rightarrow> handlePayload env p st
      | ContactsSearched q \<Rightarrow> filterContactsGrid env (st\<lparr>contactsQuery := q\<rparr>)
      | NodesSearched q \<Rightarrow> filterNodesGrid env (st\<lparr>nodesQuery := q\<rparr>)
      | ContactsPill f \<Rightarrow> filterContactsGrid env (st\<lparr>contactsFilter := f\<rparr>)
      | NodesPill f \<Rightarrow> filterNodesGrid env (st\<lparr>nodesFilter := f\<rparr>)
      | SortFired \<Rightarrow>
          if sortPending st
          then st\<lparr>sortPending := False, nodeCards := sortCardsInGrid (known st) (nodeCards st),
                  contactCards := sortCardsInGrid (known st) (contactCards st)\<rparr> else st
      | PresenceTick hidden \<Rightarrow> if hidden then st else presence_tick env st
      | LanguageSwitched \<Rightarrow> renderNodesDirectory env (map (\<lambda>(k, p). Obj p) (known st)) st
      | FavoriteClicked n \<Rightarrow> favorite_clicked n st
      | DeleteConfirmed n pk \<Rightarrow> add_card_task (DeleteTask n pk) st
      | CardAnswered m reply \<Rightarrow>
          (case map_of (card_tasks st) m of
             Some t \<Rightarrow> card_answered env t reply (st\<lparr>card_tasks := assoc_del m (card_tasks st)\<rparr>)
           | None \<Rightarrow> st)
      | ContactDiscovered evt \<Rightarrow> note_discovered evt st
      | DiscoveredAccepted \<Rightarrow> st\<lparr>discovered := [], bannerShown := False\<rparr>)"

definition new_directory :: directory where
  "new_directory =
     \<lparr>known = [], contactCards = [], nodeCards = [], contactsFilter = ''all'', nodesFilter = js ''all'', contactsQuery = [],
      nodesQuery = [], counts = updateCounts \<lparr>pg_now = 0, pg_own = [], pg_elsewhere = [], pg_text = (\<lambda>_. [])\<rparr> [],
      sortPending = False, fetchGeneration = 0, published = [], discovered = [], bannerShown = False, card_tasks = [], next_card = 0\<rparr>"

subsection \<open>Order of the cards\<close>

text \<open>What the comparator compares, as a key: the station first, then favourites, then the latest signal.\<close>

definition seen_number :: "props \<Rightarrow> rat" where
  "seen_number p = (case to_number (js_or (fld p ''last_seen'') (Num (Fin 0))) of Fin q \<Rightarrow> q | _ \<Rightarrow> 0)"

definition card_rank :: "known_nodes \<Rightarrow> node_card \<Rightarrow> bool \<times> bool \<times> rat" where
  "card_rank kn c =
     (let p = known_props kn (toLowerCase (card_pk c)) in (\<not> is_local p, \<not> truthy (fld p ''is_favorite''), - seen_number p))"

definition rankable :: "known_nodes \<Rightarrow> node_card \<Rightarrow> bool" where
  "rankable kn c \<longleftrightarrow>
     (case map_of kn (toLowerCase (card_pk c)) of
        Some p \<Rightarrow> finite_num (to_number (js_or (fld p ''last_seen'') (Num (Fin 0)))) | None \<Rightarrow> False)"

lemma finite_num_Fin: "finite_num n \<longleftrightarrow> (\<exists>q. n = Fin q)"
  by (cases n) simp_all

lemma card_after_rank:
  assumes "rankable kn a" "rankable kn b"
  shows "card_after kn a b \<longleftrightarrow> card_rank kn b < card_rank kn a"
proof -
  from assms obtain p q x y where kn: "map_of kn (toLowerCase (card_pk a)) = Some p" "map_of kn (toLowerCase (card_pk b)) = Some q"
    and seen: "to_number (js_or (fld p ''last_seen'') (Num (Fin 0))) = Fin x" "to_number (js_or (fld q ''last_seen'') (Num (Fin 0))) = Fin y"
    by (auto simp: rankable_def finite_num_Fin split: option.splits)
  show ?thesis
    by (auto simp: card_after_def card_rank_def known_props_def kn seen seen_number_def less_prod_def Let_def)
qed

text \<open>
  Sorting the cards of a grid is the stable sort by a key, the station first, then the favourites,
  then the others, each by their latest signal, whenever all cards belong to known nodes whose time of
  the last signal is a number: what the comparator says pair by pair is a total order then.
\<close>

theorem cards_sorted_by_rank:
  assumes "\<forall>c \<in> set cards. rankable kn c"
  shows "sortCardsInGrid kn cards = sort_key (card_rank kn) cards"
proof (cases "length cards \<le> 1")
  case True
  then show ?thesis by (cases cards) (simp_all add: sortCardsInGrid_def)
next
  case False
  have "js_sort (card_after kn) cards = js_sort (\<lambda>x y. card_rank kn y < card_rank kn x) cards"
    by (rule js_sort_cong) (simp add: assms card_after_rank)
  then show ?thesis using False by (simp add: sortCardsInGrid_def js_sort_by_key)
qed

lemma cards_sorted_by_rank_witness:
  "let card = (\<lambda>n k. \<lparr>card_id = n, card_pk = js k, card_role = [], card_favorite = False, card_online = False, card_gps = False,
                        card_hidden = False\<rparr>);
       kn = [(js ''aaaaaaaa'', [(js ''last_seen'', Num (Fin 5))]), (js ''bbbbbbbb'', [(js ''last_seen'', Num (Fin 7))]),
             (js ''cccccccc'', [(js ''is_local'', Bool True)])]
   in sortCardsInGrid kn [card 7 ''aaaaaaaa'', card 8 ''bbbbbbbb'', card 9 ''cccccccc''] =
        [card 9 ''cccccccc'', card 8 ''bbbbbbbb'', card 7 ''aaaaaaaa'']"
proof -
  let ?card = "\<lambda>n k. \<lparr>card_id = n, card_pk = js k, card_role = [], card_favorite = False, card_online = False, card_gps = False,
                        card_hidden = False\<rparr>"
  let ?kn = "[(js ''aaaaaaaa'', [(js ''last_seen'', Num (Fin 5))]), (js ''bbbbbbbb'', [(js ''last_seen'', Num (Fin 7))]),
             (js ''cccccccc'', [(js ''is_local'', Bool True)])]"
  have ok: "\<forall>c \<in> set [?card 7 ''aaaaaaaa'', ?card 8 ''bbbbbbbb'', ?card 9 ''cccccccc'']. rankable ?kn c" by code_simp
  have rank: "card_rank ?kn (?card 7 ''aaaaaaaa'') = (True, True, -5)" "card_rank ?kn (?card 8 ''bbbbbbbb'') = (True, True, -7)"
    "card_rank ?kn (?card 9 ''cccccccc'') = (False, True, 0)" by code_simp+
  show ?thesis unfolding Let_def cards_sorted_by_rank[OF ok] by (simp add: rank del: js_simps)
qed

subsection \<open>Every known node has one card\<close>

definition plain_key :: "jstr \<Rightarrow> bool" where
  "plain_key k \<longleftrightarrow> isValidNodeKey (Str k) \<and> toLowerCase k = k \<and> trim k = k"

text \<open>A node under its key; every property of an object occurs once.\<close>

definition keyed :: "jstr \<Rightarrow> props \<Rightarrow> bool" where
  "keyed k p \<longleftrightarrow> plain_key k \<and> fld p ''public_key'' = Str k \<and> distinct (map fst p)"

definition cards_ok :: "jstr list \<Rightarrow> jstr list \<Rightarrow> jstr list \<Rightarrow> bool" where
  "cards_ok ks contacts ns \<longleftrightarrow> distinct ks \<and> distinct contacts \<and> distinct ns \<and> set ks \<subseteq> set ns \<and> set contacts \<subseteq> set ns"

definition card_keys :: "node_card list \<Rightarrow> jstr list" where
  "card_keys cs = map card_pk cs"

definition directory_ok :: "directory \<Rightarrow> bool" where
  "directory_ok st \<longleftrightarrow> (\<forall>(k, p) \<in> set (known st). keyed k p) \<and>
     cards_ok (map fst (known st)) (card_keys (contactCards st)) (card_keys (nodeCards st))"

lemma card_keys_append [simp]: "card_keys (xs @ ys) = card_keys xs @ card_keys ys"
  by (simp add: card_keys_def)

lemma card_keys_map: "(\<And>c. card_pk (f c) = card_pk c) \<Longrightarrow> card_keys (map f cs) = card_keys cs"
  by (simp add: card_keys_def)

lemma card_keys_map_hidden [simp]: "card_keys (map (\<lambda>c. c\<lparr>card_hidden := h c\<rparr>) cs) = card_keys cs"
  by (simp add: card_keys_map)

lemma keys_of_filtered [simp]:
  "card_keys (contactCards (filterContactsGrid env st)) = card_keys (contactCards st)"
  "card_keys (nodeCards (filterContactsGrid env st)) = card_keys (nodeCards st)" "known (filterContactsGrid env st) = known st"
  "card_keys (contactCards (filterNodesGrid env st)) = card_keys (contactCards st)"
  "card_keys (nodeCards (filterNodesGrid env st)) = card_keys (nodeCards st)" "known (filterNodesGrid env st) = known st"
  by (simp_all add: filterContactsGrid_def filterNodesGrid_def)

lemma directory_ok_filter [simp]:
  "directory_ok (filterContactsGrid env st) = directory_ok st" "directory_ok (filterNodesGrid env st) = directory_ok st"
  "directory_ok (refilter env st) = directory_ok st"
  by (simp_all add: directory_ok_def refilter_def)

lemma card_keys_sort: "mset (card_keys (sortCardsInGrid kn cs)) = mset (card_keys cs)"
  by (simp add: card_keys_def sortCardsInGrid_def mset_js_sort)

lemma card_keys_sorted [simp]:
  "distinct (card_keys (sortCardsInGrid kn cs)) = distinct (card_keys cs)" "set (card_keys (sortCardsInGrid kn cs)) = set (card_keys cs)"
  by (rule mset_eq_imp_distinct_iff[OF card_keys_sort], rule mset_eq_setD[OF card_keys_sort])

subsection \<open>Keys\<close>

lemma canonical_trim_lower:
  assumes "isValidNodeKey (Str s)"
  shows "plain_key (toLowerCase (trim s))"
proof -
  let ?c = "toLowerCase (trim s)"
  have c: "trim ?c = ?c" "toLowerCase ?c = ?c" by (simp_all add: trim_toLowerCase)
  have v: "?c = js ''local'' \<or> ?c = js ''000000000000'' \<or> 8 \<le> length ?c \<and> list_all is_hex ?c"
    using assms by (simp add: isValidNodeKey_def Let_def)
  then have "length ?c \<noteq> 0" by (elim disjE conjE) (simp_all only: length_js, simp_all)
  then have "?c \<noteq> []" by force
  then show ?thesis using c v by (simp add: plain_key_def isValidNodeKey_def Let_def)
qed

lemma keyed_key: "keyed k p \<Longrightarrow> node_key p = k" "keyed k p \<Longrightarrow> k \<noteq> []"
  by (auto simp: keyed_def plain_key_def node_key_def isValidNodeKey_def)

lemma node_pk_keyed: "keyed k p \<Longrightarrow> node_pk (k, Obj p) = k"
  using keyed_key[of k p] by (simp add: node_pk_def node_key_def fld_def js_or_def keyed_def)

lemma resolved_canonical:
  assumes "\<forall>(k, p) \<in> set kn. keyed k p" "isValidNodeKey pk"
  shows "plain_key (resolveCanonicalPubkey (as_nodes kn) pk)"
proof -
  obtain s where s: "pk = Str s" using assms(2) by (auto simp: isValidNodeKey_def split: jsval.splits)
  let ?c = "toLowerCase (trim s)"
  have c: "plain_key ?c" using canonical_trim_lower assms(2) s by simp
  have m: "plain_key m" if "set (filter (prefix_match ?c) (map node_pk (as_nodes kn))) = {m}" for m
  proof -
    have "m \<in> node_pk ` set (as_nodes kn)" using that by auto
    then obtain k p where "(k, p) \<in> set kn" "m = node_pk (k, Obj p)" by (auto simp: as_nodes_def)
    then show ?thesis using assms(1) node_pk_keyed by (auto simp: keyed_def)
  qed
  have s0: "s \<noteq> []" using assms(2) s by (auto simp: isValidNodeKey_def)
  show ?thesis
  proof (cases "\<exists>m. foldl add_match [] (filter (prefix_match ?c) (map node_pk (as_nodes kn))) = [m]")
    case True
    then obtain m where mm: "foldl add_match [] (filter (prefix_match ?c) (map node_pk (as_nodes kn))) = [m]" ..
    then have "plain_key m" using m unique_match by blast
    then show ?thesis using c s0 by (auto simp: resolveCanonicalPubkey_def s mm Let_def)
  next
    case False
    then have "(case foldl add_match [] (filter (prefix_match ?c) (map node_pk (as_nodes kn))) of [m] \<Rightarrow> m | _ \<Rightarrow> ?c) = ?c"
      by (auto split: list.split)
    then show ?thesis using c s0 by (auto simp: resolveCanonicalPubkey_def s Let_def)
  qed
qed

subsection \<open>The operations keep the directory\<close>

lemma fld_set_prop: "fld (set_prop k v p) k' = (if k = js k' then v else fld p k')"
  by (simp add: fld_def getp_def map_of_set_prop)

lemma directory_node_key [simp]: "fld (directory_node env p) ''public_key'' = fld p ''public_key''"
  by (simp add: directory_node_def spread_def fld_set_prop Let_def)

lemma directory_node_node_key [simp]: "node_key (directory_node env p) = node_key p"
  by (simp add: node_key_def)

lemma card_pk_created [simp]: "card_pk (createNodeCard env c n p) = to_string (fld p ''public_key'')"
  by (simp add: createNodeCard_def Let_def)

lemma keyed_created: "keyed k p \<Longrightarrow> card_pk (createNodeCard env c n p) = k"
  by (simp add: keyed_def)

lemma distinct_spread: "distinct (map fst p) \<Longrightarrow> distinct (map fst (spread p q))"
  unfolding spread_def by (rule fold_preserves) (auto simp: distinct_set_prop)

lemma keyed_directory_node [simp]: "keyed k p \<Longrightarrow> keyed k (directory_node env p)"
  unfolding keyed_def directory_node_key by (simp add: directory_node_def distinct_spread Let_def)

lemma assoc_put_fresh: "k \<notin> fst ` set xs \<Longrightarrow> assoc_put k v xs = xs @ [(k, v)]"
  by (induction xs) auto

lemma known_map_fresh:
  assumes "distinct (map node_key ns)"
  shows "known_map ns = map (\<lambda>p. (node_key p, p)) ns"
proof -
  have "fold (\<lambda>p. assoc_put (node_key p) p) ns xs = xs @ map (\<lambda>p. (node_key p, p)) ns"
    if "distinct (map node_key ns)" "fst ` set xs \<inter> node_key ` set ns = {}" for xs
    using that
  proof (induction ns arbitrary: xs)
    case (Cons p ns)
    have "node_key p \<notin> fst ` set xs" using Cons.prems(2) by auto
    then have "assoc_put (node_key p) p xs = xs @ [(node_key p, p)]" by (rule assoc_put_fresh)
    moreover have "fst ` set (xs @ [(node_key p, p)]) \<inter> node_key ` set ns = {}" using Cons.prems by auto
    ultimately show ?case using Cons.IH[of "xs @ [(node_key p, p)]"] Cons.prems(1) by simp
  qed simp
  from this[OF assms, of "[]"] show ?thesis by (simp add: known_map_def)
qed

text \<open>A list with one entry for each key, all keys in lower case and without blanks.\<close>

definition nodes_ok :: "jsval list \<Rightarrow> bool" where
  "nodes_ok xs \<longleftrightarrow> distinct (map node_key (valid_nodes xs)) \<and> (\<forall>p \<in> set (valid_nodes xs). keyed (node_key p) p)"

lemma card_keys_created:
  assumes "\<forall>p \<in> set ns. keyed (node_key p) p" "length ids = length ns"
  shows "card_keys (map (\<lambda>(n, p). createNodeCard env c (h n) p) (zip ids ns)) = map node_key ns"
    and "card_keys (map (\<lambda>(n, p). createNodeCard env c (h n) p) (filter (\<lambda>(n, p). is_contact p) (zip ids ns))) = map node_key (filter is_contact ns)"
proof -
  have e: "to_string (fld p ''public_key'') = node_key p" if "p \<in> set ns" for p
    using assms(1) that by (auto simp: keyed_def)
  then show "card_keys (map (\<lambda>(n, p). createNodeCard env c (h n) p) (zip ids ns)) = map node_key ns"
    using assms(2)
    by (induction ids ns rule: list_induct2') (auto simp: card_keys_def)
  show "card_keys (map (\<lambda>(n, p). createNodeCard env c (h n) p) (filter (\<lambda>(n, p). is_contact p) (zip ids ns))) = map node_key (filter is_contact ns)"
    using e assms(2) by (induction ids ns rule: list_induct2') (auto simp: card_keys_def)
qed

lemma render_ok:
  assumes "nodes_ok xs"
  shows "directory_ok (renderNodesDirectory env xs st)"
proof (cases "xs = []")
  case True
  then show ?thesis by (simp add: renderNodesDirectory_def directory_ok_def cards_ok_def card_keys_def)
next
  case False
  let ?ns = "map (directory_node env) (valid_nodes xs)"
  have k: "\<forall>p \<in> set ?ns. keyed (node_key p) p" and d: "distinct (map node_key ?ns)"
    using assms by (auto simp: nodes_ok_def comp_def)
  let ?cards = "zip [next_card st..<next_card st + length ?ns] ?ns"
  note keys = card_keys_created[OF k, of "[next_card st..<next_card st + length ?ns]"]
  have "card_keys (map (\<lambda>(n, p). createNodeCard env False (n + length ?ns) p) ?cards) = map node_key ?ns"
    using keys(1)[where h = "\<lambda>n. n + length ?ns"] by simp
  moreover have "card_keys (map (\<lambda>(n, p). createNodeCard env True n p) (filter (\<lambda>(n, p). is_contact p) ?cards)) = map node_key (filter is_contact ?ns)"
    using keys(2)[where h = "\<lambda>n. n"] by simp
  moreover have "distinct (map node_key (filter is_contact ?ns))" using d by (rule distinct_map_filter)
  ultimately have "cards_ok (map fst (known_map ?ns))
      (card_keys (map (\<lambda>(n, p). createNodeCard env True n p) (filter (\<lambda>(n, p). is_contact p) ?cards)))
      (card_keys (map (\<lambda>(n, p). createNodeCard env False (n + length ?ns) p) ?cards))"
    using d by (auto simp: cards_ok_def known_map_fresh[OF d] comp_def)
  moreover have "\<forall>(k, p) \<in> set (known_map ?ns). keyed k p" using k by (auto simp: known_map_fresh[OF d])
  ultimately have "directory_ok (st\<lparr>known := known_map ?ns,
      contactCards := map (\<lambda>(n, p). createNodeCard env True n p) (filter (\<lambda>(n, p). is_contact p) ?cards),
      nodeCards := map (\<lambda>(n, p). createNodeCard env False (n + length ?ns) p) ?cards,
      counts := updateCounts env ?ns, published := ?ns, next_card := next_card st + 2 * length ?ns\<rparr>)"
    unfolding directory_ok_def by simp
  then show ?thesis using False unfolding renderNodesDirectory_def Let_def by (simp only: if_False directory_ok_filter)
qed

text \<open>All is well but that the node with the key may not have a card yet.\<close>

definition near_ok :: "jstr \<Rightarrow> directory \<Rightarrow> bool" where
  "near_ok k st \<longleftrightarrow> (\<forall>(k', p) \<in> set (known st). keyed k' p) \<and> distinct (map fst (known st)) \<and>
     (let cs = card_keys (contactCards st); ns = card_keys (nodeCards st) in
      distinct cs \<and> distinct ns \<and> fst ` set (known st) \<subseteq> insert k (set ns) \<and> set cs \<subseteq> set ns)"

lemma set_assoc_put_in: "(k', v') \<in> set (assoc_put k v xs) \<Longrightarrow> (k', v') = (k, v) \<or> (k', v') \<in> set xs"
  by (induction xs) (auto split: if_splits)

lemma near_known:
  assumes "directory_ok st" "keyed k p"
  shows "near_ok k (st\<lparr>known := assoc_put k p (known st)\<rparr>)"
  using assms
  by (auto simp: directory_ok_def cards_ok_def near_ok_def Let_def keys_assoc_put distinct_assoc_put dest!: set_assoc_put_in)

lemma near_to_ok: "near_ok k st \<Longrightarrow> k \<in> set (card_keys (nodeCards st)) \<Longrightarrow> directory_ok st"
  by (auto simp: near_ok_def directory_ok_def cards_ok_def Let_def)

lemma insert_ok:
  assumes "near_ok k st" "keyed k raw" "k \<notin> set (card_keys (nodeCards st))"
  shows "directory_ok (insertNodeCardIncremental env raw st)"
proof -
  let ?p = "directory_node env raw" and ?kn = "assoc_put k (directory_node env raw) (known st)"
  have k: "trim (node_key raw) = k" "isValidNodeKey (fld raw ''public_key'')" "to_string (fld raw ''public_key'') = k"
    using assms(2) keyed_key(1)[OF assms(2)] by (simp_all add: keyed_def plain_key_def)
  let ?st1 = "add_contact_card env ?p (add_node_card env ?p (st\<lparr>known := ?kn\<rparr>))"
  have keys: "card_keys (nodeCards ?st1) = card_keys (nodeCards st) @ [k]"
    "card_keys (contactCards ?st1) \<in> {card_keys (contactCards st), card_keys (contactCards st) @ [k]}" "known ?st1 = ?kn"
    by (simp_all add: add_contact_card_def add_node_card_def k(3), simp_all add: card_keys_def k(3))
  have cs: "k \<notin> set (card_keys (contactCards st))" using assms(1,3) by (auto simp: near_ok_def Let_def)
  have "near_ok k ?st1"
    using assms cs keys
    by (auto simp: near_ok_def Let_def keys_assoc_put distinct_assoc_put dest!: set_assoc_put_in)
  then have "directory_ok ?st1" by (rule near_to_ok) (simp add: keys(1))
  then show ?thesis by (simp add: insertNodeCardIncremental_def k(1,2) directory_ok_def Let_def)
qed

lemma refresh_pk [simp]: "card_keys (map (refresh_card env p pk) cs) = card_keys cs"
  by (rule card_keys_map) (simp add: refresh_card_def)

lemma keyed_spread: "keyed k p \<Longrightarrow> distinct (map fst q) \<Longrightarrow> keyed k (spread q p)"
  by (auto simp: keyed_def fld_def getp_def map_of_spread map_add_def distinct_spread split: option.splits
      simp del: js_simps map_of_eq_Some_iff)

lemma keyed_props: "directory_ok st \<Longrightarrow> map_of (known st) k = Some p \<Longrightarrow> keyed k p"
  by (auto simp: directory_ok_def dest: map_of_SomeD)

lemma update_ok:
  assumes "near_ok k st" "map_of (known st) k = Some p" "pg_elsewhere env = []"
  shows "directory_ok (updateNodeInDom env p st)"
proof -
  have p: "keyed k p" using assms(1,2) by (auto simp: near_ok_def dest: map_of_SomeD)
  have on: "on_page env st k \<longleftrightarrow> k \<in> set (card_keys (nodeCards st))"
    using assms(1,3) by (auto simp: on_page_def near_ok_def card_keys_def Let_def)
  show ?thesis
  proof (cases "k \<in> set (card_keys (nodeCards st))")
    case True
    then have "directory_ok st" using assms(1) near_to_ok by blast
    then show ?thesis using True on by (simp add: updateNodeInDom_def keyed_key(1)[OF p] directory_ok_def Let_def)
  next
    case False
    have "keyed k (spread p p)" using p by (intro keyed_spread) (simp_all add: keyed_def)
    from insert_ok[OF assms(1) this False, of env]
    show ?thesis using False on by (simp add: updateNodeInDom_def keyed_key(1)[OF p] known_props_def assms(2) directory_ok_def Let_def)
  qed
qed

lemma learned_ok:
  assumes "directory_ok st" "keyed k p" "pg_elsewhere env = []"
  shows "directory_ok (updateNodeInDom env p (st\<lparr>known := assoc_put k p (known st)\<rparr>))"
  by (rule update_ok[OF near_known[OF assms(1,2)] _ assms(3)]) simp

lemma fetch_start_ok [simp]: "directory_ok (fetch_nodes_start st) = directory_ok st"
  by (simp add: fetch_nodes_start_def directory_ok_def)

lemma contact_seen_ok:
  assumes "directory_ok st" "pg_elsewhere env = []"
  shows "directory_ok (contact_seen env c st)"
proof (cases "truthy (getp c (js ''public_key'')) \<and> isValidNodeKey (getp c (js ''public_key''))")
  case True
  define key where "key = resolveCanonicalPubkey (as_nodes (known st)) (getp c (js ''public_key''))"
  have k: "plain_key key" unfolding key_def
    using assms(1) True by (intro resolved_canonical) (auto simp: directory_ok_def)
  then have ne: "key \<noteq> []" by (auto simp: plain_key_def isValidNodeKey_def)
  let ?m = "set_prop (js ''public_key'') (Str key) (spread (known_props (known st) key) (case c of Obj ps \<Rightarrow> ps | _ \<Rightarrow> []))"
  have "distinct (map fst (known_props (known st) key))"
    using keyed_props[OF assms(1), of key] by (auto simp: known_props_def keyed_def split: option.splits)
  then have "keyed key ?m" using k by (simp add: keyed_def fld_set_prop distinct_set_prop distinct_spread)
  from learned_ok[OF assms(1) this assms(2)] show ?thesis
    using True ne by (simp add: contact_seen_def key_def[symmetric] Let_def del: js_simps)
next
  case False
  then show ?thesis using assms(1) by (auto simp: contact_seen_def Let_def simp del: js_simps)
qed

lemma keyed_set_prop: "keyed k p \<Longrightarrow> n \<noteq> js ''public_key'' \<Longrightarrow> keyed k (set_prop n v p)"
  by (simp add: keyed_def fld_set_prop distinct_set_prop del: js_simps)

lemma keyed_copy: "keyed k p \<Longrightarrow> n \<noteq> ''public_key'' \<Longrightarrow> keyed k (copy_known vs n p)"
  by (auto simp: copy_known_def inj_eq[OF inj_js] intro!: keyed_set_prop simp del: js_simps split: list.split)

lemma keyed_heard: "keyed k p \<Longrightarrow> keyed k (heard_node env payload p)"
  by (simp add: heard_node_def keyed_copy keyed_set_prop inj_eq[OF inj_js] Let_def del: js_simps)

lemma node_heard_ok:
  assumes "directory_ok st" "pg_elsewhere env = []"
  shows "directory_ok (node_heard env payload st)"
proof -
  define key where "key = resolveCanonicalPubkey (as_nodes (known st)) (sender_of payload)"
  let ?p = "case map_of (known st) key of Some p \<Rightarrow> p | None \<Rightarrow> [(js ''public_key'', Str key), (js ''role'', Str (js ''CLIENT''))]"
  have "directory_ok (updateNodeInDom env (heard_node env payload ?p) (st\<lparr>known := assoc_put key (heard_node env payload ?p) (known st)\<rparr>))"
    if v: "isValidNodeKey (sender_of payload)"
  proof -
    have "plain_key key" unfolding key_def
      using assms(1) v by (intro resolved_canonical) (auto simp: directory_ok_def)
    then have "keyed key ?p"
      using keyed_props[OF assms(1), of key]
      by (cases "map_of (known st) key") (simp_all add: keyed_def fld_def getp_def)
    then show ?thesis by (intro learned_ok[OF assms(1) _ assms(2)] keyed_heard)
  qed
  then show ?thesis using assms(1) unfolding node_heard_def Let_def key_def by (simp del: js_simps)
qed

subsection \<open>The whole machine\<close>

text \<open>What the page and the bridge are expected to give: no other elements with keys, lists of distinct nodes.\<close>

definition orderly :: "node_page \<times> directory_event \<Rightarrow> bool" where
  "orderly e \<longleftrightarrow>
     (let (env, ev) = e in pg_elsewhere env = [] \<and>
        (case ev of
           BusPayload p \<Rightarrow> (case getp p (js ''data'') of Arr xs \<Rightarrow> nodes_ok xs | _ \<Rightarrow> True)
         | NodesFetched g replies \<Rightarrow>
             (case fetchNodes (map (\<lambda>r. (True, r)) replies) nodes_fetch_start of Rendered xs \<Rightarrow> nodes_ok xs | _ \<Rightarrow> True)
         | _ \<Rightarrow> True))"

lemma payload_ok:
  assumes "directory_ok st" "orderly (env, BusPayload p)"
  shows "directory_ok (handlePayload env p st)"
  using assms
  by (simp add: handlePayload_def orderly_def contact_seen_ok node_heard_ok render_ok Let_def del: js_simps split: jsval.splits)

text \<open>Whether a download is the latest one matters only for what is done with the last page.\<close>

lemma fetch_page_stale: "fetch_page c reply nf = Rendered xs \<Longrightarrow> c \<and> fetch_page True reply nf = Rendered xs"
  by (auto simp: fetch_page_def Let_def split: net.splits option.splits if_splits)

lemma fetch_page_request: "fetch_page c reply nf = RequestPage nf' \<Longrightarrow> fetch_page True reply nf = RequestPage nf'"
  by (auto simp: fetch_page_def Let_def split: net.splits option.splits if_splits)

lemma fetched_current:
  "fetchNodes (map (\<lambda>r. (c, r)) replies) nf = Rendered xs \<Longrightarrow> c \<and> fetchNodes (map (\<lambda>r. (True, r)) replies) nf = Rendered xs"
proof (induction replies arbitrary: nf)
  case (Cons r replies)
  show ?case
  proof (cases "fetch_page c r nf")
    case (RequestPage nf')
    then show ?thesis using Cons.IH[of nf'] Cons.prems fetch_page_request[OF RequestPage] by simp
  next
    case (Rendered ys)
    then show ?thesis using Cons.prems fetch_page_stale[OF Rendered] by simp
  qed (use Cons.prems in simp)
qed simp

lemma nodes_fetched_ok:
  assumes "directory_ok st" "orderly (env, NodesFetched g replies)"
  shows "directory_ok (nodes_fetched env g replies st)"
  using assms fetched_current[of "g = fetchGeneration st" replies nodes_fetch_start]
  by (auto simp: nodes_fetched_def orderly_def intro: render_ok split: fetch_outcome.splits)

lemma favorite_ok:
  assumes "directory_ok st"
  shows "directory_ok (favorite_answered env n pk fav reply st)"
proof -
  let ?cs = "map (\<lambda>c. if card_id c = n then c\<lparr>card_favorite := fav\<rparr> else c) (contactCards st)"
  have cs: "card_keys ?cs = card_keys (contactCards st)" by (rule card_keys_map) simp
  show ?thesis
  proof (cases "map_of (known st) (toLowerCase pk)")
    case None
    then show ?thesis using assms cs by (simp add: favorite_answered_def directory_ok_def Let_def)
  next
    case (Some p)
    let ?kn = "assoc_put (toLowerCase pk) (set_prop (js ''is_favorite'') (Bool fav) p) (known st)"
    have "keyed (toLowerCase pk) (set_prop (js ''is_favorite'') (Bool fav) p)"
      using keyed_props[OF assms Some] by (rule keyed_set_prop) simp
    moreover have "fst ` set ?kn = fst ` set (known st)" using map_of_SomeD[OF Some] by (force simp: keys_assoc_put)
    ultimately have "directory_ok (st\<lparr>contactCards := ?cs, known := ?kn\<rparr>)"
      using assms cs by (auto simp: directory_ok_def cards_ok_def distinct_assoc_put dest!: set_assoc_put_in)
    then show ?thesis using assms Some by (simp add: favorite_answered_def directory_ok_def Let_def)
  qed
qed

lemma delete_ok: "directory_ok st \<Longrightarrow> directory_ok (delete_answered n pk reply st)"
  by (auto simp: delete_answered_def directory_ok_def cards_ok_def assoc_del_def card_keys_def distinct_map_filter)

lemma tick_ok: "directory_ok st \<Longrightarrow> directory_ok (presence_tick env st)"
  by (simp add: presence_tick_def directory_ok_def card_keys_map Let_def split: option.split)

lemma languages_ok:
  assumes "directory_ok st"
  shows "nodes_ok (map (\<lambda>(k, p). Obj p) (known st))"
proof -
  have "valid_nodes (map (\<lambda>(k, p). Obj p) kn) = map snd kn \<and> map node_key (map snd kn) = map fst kn"
    if "\<forall>(k, p) \<in> set kn. keyed k p" for kn
    using that by (induction kn) (auto simp: valid_nodes_def keyed_key keyed_def plain_key_def)
  moreover have "\<forall>(k, p) \<in> set (known st). keyed k p" using assms by (simp add: directory_ok_def)
  ultimately have v: "valid_nodes (map (\<lambda>(k, p). Obj p) (known st)) = map snd (known st)"
    and k: "map node_key (map snd (known st)) = map fst (known st)" by blast+
  show ?thesis unfolding nodes_ok_def v k using assms by (auto simp: directory_ok_def cards_ok_def keyed_key)
qed

lemma directory_ok_upd [simp]:
  "directory_ok (st\<lparr>contactsQuery := q\<rparr>) = directory_ok st" "directory_ok (st\<lparr>nodesQuery := q\<rparr>) = directory_ok st"
  "directory_ok (st\<lparr>contactsFilter := f\<rparr>) = directory_ok st" "directory_ok (st\<lparr>nodesFilter := f'\<rparr>) = directory_ok st"
  "directory_ok (st\<lparr>card_tasks := ts\<rparr>) = directory_ok st" "directory_ok (st\<lparr>discovered := ds, bannerShown := b\<rparr>) = directory_ok st"
  "directory_ok (add_card_task t st) = directory_ok st" "directory_ok (favorite_clicked n st) = directory_ok st"
  "directory_ok (note_discovered evt st) = directory_ok st"
  by (simp_all add: directory_ok_def add_card_task_def favorite_clicked_def note_discovered_def Let_def split: option.split)

lemma directory_step_ok:
  assumes "directory_ok st" "orderly e"
  shows "directory_ok (directory_step e st)"
proof -
  obtain env ev where e: "e = (env, ev)" by (cases e)
  show ?thesis
  proof (cases ev)
    case SortFired
    then show ?thesis using assms(1) by (simp add: e directory_step_def directory_ok_def cards_ok_def)
  next
    case (CardAnswered m reply)
    then show ?thesis using assms(1)
      by (simp add: e directory_step_def card_answered_def favorite_ok delete_ok split: option.split card_task.split)
  next
    case (BusPayload p)
    then show ?thesis using assms by (simp add: e directory_step_def payload_ok)
  next
    case (NodesFetched g replies)
    then show ?thesis using assms by (simp add: e directory_step_def nodes_fetched_ok)
  qed (use assms(1) in \<open>simp_all add: e directory_step_def render_ok languages_ok tick_ok\<close>)
qed

interpretation directory: initial_invariant directory_step orderly directory_ok new_directory
  by unfold_locales (auto simp: directory_step_ok, simp add: new_directory_def directory_ok_def cards_ok_def card_keys_def)


definition quiet_page :: node_page where
  "quiet_page = \<lparr>pg_now = 1000000, pg_own = [], pg_elsewhere = [], pg_text = (\<lambda>_. [])\<rparr>"

definition sample_node :: "string \<Rightarrow> jsval" where
  "sample_node k = Obj [(js ''public_key'', Str (js k)), (js ''name'', Str (js ''N''))]"


text \<open>
  C35: A node whose conversation is open does not enter the directory. The selector that looks for
  the cards of a node searches the whole page, and an item of the list of conversations carries the
  key as well: when such a node is discovered it is recorded, but it gets no card and is not counted.
\<close>

theorem open_conversation_hides_node:
  assumes "keyed k c" "k \<in> set (pg_elsewhere env)" "resolveCanonicalPubkey (as_nodes (known st)) (Str k) = k"
    and "payload = Obj [(js ''type'', Str (js ''contact_discovered'')), (js ''contact'', Obj c)]"
    and "w = directory_step (env, BusPayload payload) st"
  shows "k \<in> fst ` set (known w) \<and> map card_pk (nodeCards w) = map card_pk (nodeCards st) \<and>
    map card_pk (contactCards w) = map card_pk (contactCards st) \<and> counts w = counts st \<and> published w = published st"
proof -
  have k: "getp (Obj c) (js ''public_key'') = Str k" "isValidNodeKey (Str k)" "k \<noteq> []"
    using assms(1) keyed_key(2)[OF assms(1)] by (simp_all add: keyed_def plain_key_def fld_def)
  define m where "m = set_prop (js ''public_key'') (Str k) (spread (known_props (known st) k) c)"
  have m: "node_key m = k"
    using assms(1) by (simp add: m_def node_key_def fld_set_prop keyed_def plain_key_def)
  have "w = contact_seen env (Obj c) st"
    unfolding assms(4,5) directory_step_def handlePayload_def by (simp add: getp_def js_or_def)
  also have "\<dots> = updateNodeInDom env m (st\<lparr>known := assoc_put k m (known st)\<rparr>)"
    unfolding contact_seen_def k(1) assms(3) Let_def m_def using k(2,3) by simp
  finally have w: "w = updateNodeInDom env m (st\<lparr>known := assoc_put k m (known st)\<rparr>)" .
  have on: "on_page env (st\<lparr>known := assoc_put k m (known st)\<rparr>) k" using assms(2) by (simp add: on_page_def)
  have "map card_pk (map (refresh_card env p pk) cs) = map card_pk cs" for p pk cs
    using refresh_pk[of env p pk cs] by (simp add: card_keys_def)
  then show ?thesis using on by (simp add: w updateNodeInDom_def m keys_assoc_put Let_def)
qed

lemma open_conversation_hides_node_witness:
  "let c = [(js ''public_key'', Str (js ''aaaaaaaa01''))];
       w = directory_step (quiet_page\<lparr>pg_elsewhere := [js ''aaaaaaaa01'']\<rparr>, BusPayload (Obj [(js ''type'', Str (js ''contact_discovered'')), (js ''contact'', Obj c)])) new_directory
   in known w \<noteq> [] \<and> nodeCards w = [] \<and> cnt_all (counts w) = 0"
proof -
  let ?c = "[(js ''public_key'', Str (js ''aaaaaaaa01''))]"
  have a: "keyed (js ''aaaaaaaa01'') ?c" "resolveCanonicalPubkey (as_nodes (known new_directory)) (Str (js ''aaaaaaaa01'')) = js ''aaaaaaaa01''"
    by code_simp+
  have e: "js ''aaaaaaaa01'' \<in> set (pg_elsewhere (quiet_page\<lparr>pg_elsewhere := [js ''aaaaaaaa01'']\<rparr>))" by (simp del: js_simps)
  have n: "nodeCards new_directory = []" "cnt_all (counts new_directory) = 0" by (simp_all add: new_directory_def updateCounts_def Let_def)
  show ?thesis using open_conversation_hides_node[OF a(1) e a(2) refl refl] n unfolding Let_def by (auto simp del: js_simps)
qed

end
