(* ===== verification/Charts.thy ===== *)
theory Charts
  imports Numbers
begin

section \<open>Charts (core/chart_engine.js)\<close>

text \<open>
  The geometry of the four charts: where points, ticks, segments and bars are drawn, which point a
  pointer selects, and the path texts. Lengths are exact fractions; those along the ring are given as
  parts of its circumference. Elements, colours and texts around the drawing are left out.
\<close>

definition jdiv :: "jnum \<Rightarrow> jnum \<Rightarrow> jnum" where
  "jdiv a b =
     (case (a, b) of
        (Fin x, Fin y) \<Rightarrow> if y \<noteq> 0 then Fin (x / y) else if x = 0 then NaN else if 0 < x then PosInf else NegInf
      | (Fin x, NaN) \<Rightarrow> NaN | (Fin x, _) \<Rightarrow> Fin 0
      | (PosInf, Fin y) \<Rightarrow> if y < 0 then NegInf else PosInf | (NegInf, Fin y) \<Rightarrow> if y < 0 then PosInf else NegInf
      | _ \<Rightarrow> NaN)"

lemma jdiv_Fin [simp]: "y \<noteq> 0 \<Longrightarrow> jdiv (Fin x) (Fin y) = Fin (x / y)"
  by (simp add: jdiv_def)

text \<open>\<open>Number(v) || 0\<close> and \<open>Number(p.k || 0)\<close>.\<close>

definition value_or_zero :: "jsval \<Rightarrow> jnum" where
  "value_or_zero v = (if to_number v = NaN then Fin 0 else to_number v)"

definition point_value :: "jsval \<Rightarrow> string \<Rightarrow> jnum" where
  "point_value p k = to_number (js_or (getp p (js k)) (Num (Fin 0)))"

text \<open>Paths: a move to the first point, lines to the others, coordinates with one decimal.\<close>

definition coordinate_text :: "jnum \<Rightarrow> jstr" where
  "coordinate_text a = (case a of Fin q \<Rightarrow> to_fixed 1 q | _ \<Rightarrow> num_str a)"

definition spot_text :: "rat \<times> jnum \<Rightarrow> jstr" where
  "spot_text s = to_fixed 1 (fst s) @ [0x20] @ coordinate_text (snd s)"

definition line_path :: "(rat \<times> jnum) list \<Rightarrow> jstr" where
  "line_path spots = (case spots of [] \<Rightarrow> [] | s # rest \<Rightarrow> js ''M '' @ spot_text s @ concat (map (\<lambda>r. js '' L '' @ spot_text r) rest))"

subsection \<open>The area chart\<close>

definition plot_max :: "jnum list \<Rightarrow> jnum" where
  "plot_max vs =
     (let m = fold (\<lambda>v m. if jlt m v then v else m) vs (Fin 1); c = num_map (\<lambda>x. of_int \<lceil>x * 115 / 100\<rceil>) m in
      if c = NaN \<or> c = Fin 0 then Fin 5 else c)"

definition area_x :: "nat \<Rightarrow> nat \<Rightarrow> rat" where
  "area_x n i = 64 + of_nat i / of_nat (max (n - 1) 1) * 560"

definition area_y :: "jnum \<Rightarrow> jnum \<Rightarrow> jnum" where
  "area_y m v = jsub (Fin 208) (num_map (\<lambda>r. r * 192) (jdiv (jmin v m) m))"

definition area_max :: "jsval list \<Rightarrow> string list \<Rightarrow> jnum" where
  "area_max points keys = plot_max (concat (map (\<lambda>p. map (point_value p) keys) points))"

definition area_spots :: "jsval list \<Rightarrow> string list \<Rightarrow> string \<Rightarrow> (rat \<times> jnum) list" where
  "area_spots points keys k =
     map (\<lambda>i. (area_x (length points) i, area_y (area_max points keys) (point_value (points ! i) k))) [0..<length points]"

text \<open>The filled area starts and ends on the line of zero.\<close>

definition area_path :: "jnum \<Rightarrow> (rat \<times> jnum) list \<Rightarrow> jstr" where
  "area_path m spots =
     (let zero = area_y m (Fin 0) in
      js ''M '' @ spot_text (fst (hd spots), zero) @ concat (map (\<lambda>r. js '' L '' @ spot_text r) spots) @
      js '' L '' @ spot_text (fst (last spots), zero) @ js '' Z'')"

definition y_ticks :: "jnum \<Rightarrow> (jnum \<times> jnum) list" where
  "y_ticks m = map (\<lambda>i. let v = num_map (\<lambda>x. of_int (js_round (x / 4 * of_nat i))) m in (v, area_y m v)) [0..<5]"

text \<open>At most six labels of time. A single point has none: its share of the axis is 0/0.\<close>

definition x_ticks :: "nat \<Rightarrow> nat list" where
  "x_ticks n =
     (let c = min 6 n in
      if c = 1 then [] else map (\<lambda>i. nat (js_round (of_nat i / (of_nat c - 1) * (of_nat n - 1)))) [0..<c])"

text \<open>The point that a pointer at a horizontal position selects.\<close>

definition nearest_point :: "nat \<Rightarrow> rat \<Rightarrow> nat option" where
  "nearest_point n x =
     (if x < 64 \<or> 624 < x then None
      else Some (nat (max 0 (min (int n - 1) (js_round ((x - 64) / 560 * (of_nat n - 1)))))))"

definition tooltip_left :: "rat \<Rightarrow> rat \<Rightarrow> rat" where
  "tooltip_left width snap = (let left = snap / 640 * width in if 320 < snap then left - 130 else left + 15)"

definition hover :: "jsval list \<Rightarrow> rat \<Rightarrow> rat \<Rightarrow> rat \<Rightarrow> (nat \<times> rat) option" where
  "hover points left width client =
     (case nearest_point (length points) ((client - left) / width * 640) of
        Some i \<Rightarrow> Some (i, tooltip_left width (area_x (length points) i))
      | None \<Rightarrow> None)"

subsection \<open>The ring\<close>

record segment =
  seg_label :: jstr
  seg_start :: jnum
  seg_share :: jnum

definition ring_total :: "(jstr \<times> jnum) list \<Rightarrow> jnum" where
  "ring_total items = foldl (\<lambda>acc it. jadd acc (snd it)) (Fin 0) items"

fun ring_segments :: "jnum \<Rightarrow> jnum \<Rightarrow> (jstr \<times> jnum) list \<Rightarrow> segment list" where
  "ring_segments whole start [] = []"
| "ring_segments whole start ((l, v) # items) =
     (if jle v (Fin 0) then ring_segments whole start items
      else let share = jdiv v whole
        in \<lparr>seg_label = l, seg_start = start, seg_share = share\<rparr> # ring_segments whole (jadd start share) items)"

definition renderDonutChart :: "(jstr \<times> jsval) list \<Rightarrow> segment list" where
  "renderDonutChart entries =
     (let items = map (\<lambda>(l, v). (l, value_or_zero v)) entries; whole = ring_total items in
      if whole = Fin 0 then [] else ring_segments whole (Fin 0) items)"

definition legend_percent :: "jnum \<Rightarrow> jnum \<Rightarrow> jstr" where
  "legend_percent whole v =
     (if jlt (Fin 0) whole then coordinate_text (num_map (\<lambda>x. x * 100) (jdiv v whole)) else js ''0.0'')"

subsection \<open>Bars and small curves\<close>

definition bar_widths :: "jnum list \<Rightarrow> jnum list" where
  "bar_widths vs = (let m = foldr jmax vs (Fin 1) in map (\<lambda>v. jmin (num_map (\<lambda>x. x * 100) (jdiv v m)) (Fin 100)) vs)"

definition spark_y :: "jnum \<Rightarrow> jnum \<Rightarrow> jnum \<Rightarrow> jnum" where
  "spark_y low extent v = jsub (Fin 25) (num_map (\<lambda>x. x * 22) (jdiv (jsub v low) extent))"

definition renderSparkline :: "jnum list \<Rightarrow> (rat \<times> jnum) list" where
  "renderSparkline vs =
     (if length vs < 2 then []
      else let high = foldr jmax vs (Fin 1); low = foldr jmin vs (Fin 0); d = jsub high low;
               extent = (if d = NaN \<or> d = Fin 0 then Fin 1 else d)
        in map (\<lambda>i. (of_nat i / (of_nat (length vs) - 1) * 100, spark_y low extent (vs ! i))) [0..<length vs])"

definition spark_area :: "(rat \<times> jnum) list \<Rightarrow> jstr" where
  "spark_area spots =
     js ''M '' @ to_fixed 1 (fst (hd spots)) @ js '' 28'' @ concat (map (\<lambda>r. js '' L '' @ spot_text r) spots) @ js '' L 100 28 Z''"

subsection \<open>What is drawn stays in its frame\<close>

lemma fold_larger:
  assumes "\<forall>v \<in> set vs. finite_num v"
  shows "\<exists>x. fold (\<lambda>v m. if jlt m v then v else m) vs (Fin a) = Fin x \<and> a \<le> x \<and> (\<forall>q. Fin q \<in> set vs \<longrightarrow> q \<le> x)"
  using assms
proof (induction vs arbitrary: a)
  case (Cons v vs)
  then obtain q where v: "v = Fin q" by (auto elim: finite_numE)
  obtain x where "fold (\<lambda>v m. if jlt m v then v else m) vs (Fin (max a q)) = Fin x" "max a q \<le> x" "\<forall>r. Fin r \<in> set vs \<longrightarrow> r \<le> x"
    using Cons.IH[of "max a q"] Cons.prems by auto
  moreover have "(if jlt (Fin a) v then v else Fin a) = Fin (max a q)" by (simp add: v max_def)
  ultimately show ?case using v by auto
qed simp

lemma plot_max_above:
  assumes "\<forall>v \<in> set vs. finite_num v"
  shows "\<exists>m. plot_max vs = Fin m \<and> 1 < m \<and> (\<forall>q. Fin q \<in> set vs \<longrightarrow> q < m)"
proof -
  obtain x where x: "fold (\<lambda>v m. if jlt m v then v else m) vs (Fin 1) = Fin x" "1 \<le> x" "\<forall>q. Fin q \<in> set vs \<longrightarrow> q \<le> x"
    using fold_larger[OF assms] by blast
  have "x * 115 / 100 \<le> of_int \<lceil>x * 115 / 100\<rceil>" by simp
  then have c: "x < of_int \<lceil>x * 115 / 100\<rceil>" using x(2) by linarith
  then have "plot_max vs = Fin (of_int \<lceil>x * 115 / 100\<rceil>)" using x(1,2) by (simp add: plot_max_def Let_def)
  then show ?thesis using c x(2,3) by force
qed

lemma area_y_inside:
  assumes "0 \<le> q" "q < m"
  shows "\<exists>h. area_y (Fin m) (Fin q) = Fin h \<and> 16 < h \<and> h \<le> 208"
proof -
  have "q / m * 192 < 192" "0 \<le> q / m * 192" using assms by (simp_all add: field_simps)
  then show ?thesis using assms by (simp add: area_y_def)
qed

lemma area_x_inside: "i < n \<Longrightarrow> 64 \<le> area_x n i \<and> area_x n i \<le> 624"
proof -
  assume i: "i < n"
  define r :: rat where "r = of_nat i / of_nat (max (n - 1) 1)"
  have "0 \<le> r" by (simp add: r_def)
  moreover have "(of_nat i :: rat) \<le> of_nat (max (n - 1) 1)" "(0::rat) < of_nat (max (n - 1) 1)" using i by auto
  then have "r \<le> 1" unfolding r_def by (simp only: divide_le_eq_1_pos)
  ultimately show ?thesis unfolding area_x_def r_def[symmetric] by simp
qed



subsection \<open>The pointer\<close>

lemma round_near: "\<bar>t - of_int (js_round t)\<bar> \<le> 1 / 2" for t :: rat
  unfolding js_round_def by linarith

lemma round_nearest: "\<bar>t - of_int (js_round t)\<bar> \<le> \<bar>t - of_int j\<bar>" for t :: rat
proof (cases "j = js_round t")
  case False
  then have "1 \<le> \<bar>of_int (js_round t) - of_int j :: rat\<bar>" by linarith
  with round_near[of t] show ?thesis by linarith
qed simp

text \<open>
  A pointer inside the frame selects a point, and no other point is nearer to it.
\<close>

theorem pointer_selects_nearest:
  assumes "0 < n" "64 \<le> x" "x \<le> 624"
  shows "\<exists>i. nearest_point n x = Some i \<and> i < n \<and> (\<forall>j < n. \<bar>x - area_x n i\<bar> \<le> \<bar>x - area_x n j\<bar>)"
proof (cases "n = 1")
  case True
  then show ?thesis using assms by (simp add: nearest_point_def)
next
  case False
  define t :: rat where "t = (x - 64) / 560 * (of_nat n - 1)"
  have n: "(0::rat) < of_nat n - 1" using assms(1) False by simp
  have t: "0 \<le> t" "t \<le> of_nat n - 1"
  proof -
    show "0 \<le> t" using assms(2) n by (simp add: t_def)
    have "(x - 64) / 560 \<le> 1" using assms(3) by simp
    then show "t \<le> of_nat n - 1" using n mult_right_mono[of "(x - 64) / 560" 1 "of_nat n - 1"] by (simp add: t_def)
  qed
  have r: "0 \<le> js_round t" "js_round t \<le> int n - 1"
  proof -
    show "0 \<le> js_round t" using t(1) by (simp add: js_round_def le_floor_iff)
    have "js_round (of_nat n - 1) = int n - 1" by (simp add: js_round_def) linarith
    with js_round_mono[OF t(2)] show "js_round t \<le> int n - 1" by simp
  qed
  let ?i = "nat (js_round t)"
  have sel: "nearest_point n x = Some ?i" using assms r unfolding nearest_point_def t_def[symmetric] by simp
  have i: "of_nat ?i = (of_int (js_round t) :: rat)" using r(1) by simp
  have "max (n - 1) 1 = n - 1" using assms(1) False by simp
  then have pos: "x - area_x n j = (t - of_nat j) * (560 / (of_nat n - 1))" for j
    using n assms(1) False by (simp add: area_x_def t_def of_nat_diff field_simps)
  have "\<bar>x - area_x n ?i\<bar> \<le> \<bar>x - area_x n j\<bar>" for j
    using round_nearest[of t "int j"] n by (simp add: pos i abs_mult divide_right_mono mult_right_mono)
  then show ?thesis using sel r by (intro exI[of _ ?i]) auto
qed

lemma pointer_selects_nearest_witness:
  "nearest_point 3 400 = Some 1 \<and> (\<forall>j < 3. \<bar>400 - area_x 3 1\<bar> \<le> \<bar>400 - area_x 3 j\<bar>)"
proof -
  have s: "nearest_point 3 400 = Some 1" by code_simp
  obtain i where i: "nearest_point 3 400 = Some i" "\<forall>j < 3. \<bar>400 - area_x 3 i\<bar> \<le> \<bar>400 - area_x 3 j\<bar>"
    using pointer_selects_nearest[of 3 400] by auto
  then have "i = 1" using s by simp
  with i s show ?thesis by blast
qed

subsection \<open>The ring is covered\<close>

text \<open>Segments one after the other, from one place of the ring to another.\<close>

fun joined :: "rat \<Rightarrow> segment list \<Rightarrow> rat \<Rightarrow> bool" where
  "joined a [] b \<longleftrightarrow> a = b"
| "joined a (s # ss) b \<longleftrightarrow> seg_start s = Fin a \<and> (\<exists>q > 0. seg_share s = Fin q \<and> joined (a + q) ss b)"

definition counts_only :: "(jstr \<times> jnum) list \<Rightarrow> bool" where
  "counts_only items \<longleftrightarrow> (\<forall>(l, v) \<in> set items. \<exists>q \<ge> 0. v = Fin q)"

definition plain_value :: "jnum \<Rightarrow> rat" where
  "plain_value v = (case v of Fin q \<Rightarrow> q | _ \<Rightarrow> 0)"

lemma ring_total_sum: "counts_only items \<Longrightarrow> foldl (\<lambda>acc it. jadd acc (snd it)) (Fin a) items = Fin (a + sum_list (map (plain_value \<circ> snd) items))"
  by (induction items arbitrary: a) (auto simp: counts_only_def plain_value_def)

lemma ring_joined:
  "counts_only items \<Longrightarrow> 0 < w \<Longrightarrow> joined a (ring_segments (Fin w) (Fin a) items) (a + sum_list (map (plain_value \<circ> snd) items) / w)"
proof (induction items arbitrary: a)
  case (Cons it items)
  obtain l q where it: "it = (l, Fin q)" "0 \<le> q" and rest: "counts_only items"
    using Cons.prems(1) by (cases it) (auto simp: counts_only_def)
  show ?case
  proof (cases "q = 0")
    case True
    then show ?thesis using Cons.IH[OF rest Cons.prems(2)] it by (simp add: plain_value_def)
  next
    case False
    then show ?thesis using Cons.IH[OF rest Cons.prems(2), of "a + q / w"] Cons.prems(2) it
      by (simp add: plain_value_def add_divide_distrib add.assoc)
  qed
qed simp

lemma member_sum: "q \<in> set xs \<Longrightarrow> \<forall>x \<in> set xs. 0 \<le> x \<Longrightarrow> q \<le> sum_list xs" for q :: rat
  by (induction xs) (auto intro: add_increasing add_increasing2 sum_list_nonneg)

text \<open>
  The ring is covered exactly once: when the values are counts and not all zero, the segments
  follow one another without gap or overlap, each longer than nothing, from the start of the ring to its end.
\<close>

theorem ring_covered_once:
  assumes "\<forall>(l, v) \<in> set entries. \<exists>q \<ge> 0. to_number v = Fin q" "\<exists>(l, v) \<in> set entries. to_number v \<noteq> Fin 0"
  shows "joined 0 (renderDonutChart entries) 1"
proof -
  let ?items = "map (\<lambda>(l, v). (l, value_or_zero v)) entries"
  let ?w = "sum_list (map (plain_value \<circ> snd) ?items)"
  have c: "counts_only ?items" using assms(1) by (fastforce simp: counts_only_def value_or_zero_def)
  obtain l v where e: "(l, v) \<in> set entries" "to_number v \<noteq> Fin 0" using assms(2) by blast
  then obtain q where q: "0 < q" "to_number v = Fin q" using assms(1) by (fastforce simp: less_le)
  have pos: "\<forall>x \<in> set (map (plain_value \<circ> snd) ?items). 0 \<le> x" using c by (auto simp: counts_only_def plain_value_def)
  have "q \<in> set (map (plain_value \<circ> snd) ?items)" using e(1) q(2) by (force simp: plain_value_def value_or_zero_def)
  then have "q \<le> ?w" using pos by (rule member_sum)
  then have w: "0 < ?w" using q(1) by simp
  have t: "ring_total ?items = Fin ?w" using ring_total_sum[OF c, of 0] by (simp add: ring_total_def)
  show ?thesis using ring_joined[OF c w, of 0] w by (simp add: renderDonutChart_def t Let_def del: map_map)
qed

lemma ring_covered_once_witness:
  "joined 0 (renderDonutChart [(js ''a'', Num (Fin 3)), (js ''b'', Num (Fin 0)), (js ''c'', Str (js ''5''))]) 1"
proof (rule ring_covered_once)
  have "to_number (Str (js ''5'')) = Fin 5" by code_simp
  then show "\<forall>(l, v) \<in> set [(js ''a'', Num (Fin 3)), (js ''b'', Num (Fin 0)), (js ''c'', Str (js ''5''))]. \<exists>q \<ge> 0. to_number v = Fin q"
    by (simp add: to_number_def)
qed (simp add: to_number_def)

subsection \<open>Small curves\<close>

lemma foldr_bounds:
  assumes "\<forall>v \<in> set vs. finite_num v"
  shows "\<exists>x. foldr jmax vs (Fin a) = Fin x \<and> a \<le> x \<and> (\<forall>q. Fin q \<in> set vs \<longrightarrow> q \<le> x)"
    and "\<exists>x. foldr jmin vs (Fin a) = Fin x \<and> x \<le> a \<and> (\<forall>q. Fin q \<in> set vs \<longrightarrow> x \<le> q)"
  using assms by (induction vs) (auto elim!: finite_numE simp: le_max_iff_disj min_le_iff_disj)

text \<open>
  The small curves stay in their box for all numbers, negative ones included, and the bars between nothing and full.
\<close>

theorem small_charts_in_frame:
  assumes "\<forall>v \<in> set vs. finite_num v"
  shows "\<forall>(x, y) \<in> set (renderSparkline vs). 0 \<le> x \<and> x \<le> 100 \<and> (\<exists>h. y = Fin h \<and> 3 \<le> h \<and> h \<le> 25)"
    and "\<forall>w \<in> set (bar_widths vs). \<exists>q. w = Fin q \<and> q \<le> 100"
proof -
  obtain hi where hi: "foldr jmax vs (Fin 1) = Fin hi" "1 \<le> hi" "\<forall>q. Fin q \<in> set vs \<longrightarrow> q \<le> hi" using foldr_bounds(1)[OF assms] by blast
  obtain lo where lo: "foldr jmin vs (Fin 0) = Fin lo" "lo \<le> 0" "\<forall>q. Fin q \<in> set vs \<longrightarrow> lo \<le> q" using foldr_bounds(2)[OF assms] by blast
  have y: "\<exists>h. spark_y (Fin lo) (Fin (hi - lo)) (Fin q) = Fin h \<and> 3 \<le> h \<and> h \<le> 25" if "Fin q \<in> set vs" for q
  proof -
    define r where "r = (q - lo) / (hi - lo)"
    have d: "0 < hi - lo" "0 \<le> q - lo" "q - lo \<le> hi - lo" using hi(2,3) lo(2,3) that by auto
    then have "0 \<le> r" "r \<le> 1" unfolding r_def by (simp, simp only: divide_le_eq_1_pos)
    then show ?thesis using d(1) by (simp add: spark_y_def r_def[symmetric])
  qed
  show "\<forall>(x, y) \<in> set (renderSparkline vs). 0 \<le> x \<and> x \<le> 100 \<and> (\<exists>h. y = Fin h \<and> 3 \<le> h \<and> h \<le> 25)"
  proof (cases "length vs < 2")
    case True
    then show ?thesis by (simp add: renderSparkline_def)
  next
    case False
    have "0 \<le> (of_nat i :: rat) / (of_nat (length vs) - 1) * 100 \<and> (of_nat i :: rat) / (of_nat (length vs) - 1) * 100 \<le> 100" if "i < length vs" for i
    proof -
      define r :: rat where "r = of_nat i / (of_nat (length vs) - 1)"
      have d: "(0::rat) < of_nat (length vs) - 1" "(of_nat i :: rat) \<le> of_nat (length vs) - 1" using that False by auto
      then have "0 \<le> r" "r \<le> 1" unfolding r_def by (simp, simp only: divide_le_eq_1_pos)
      then show ?thesis unfolding r_def[symmetric] by simp
    qed
    moreover have "\<exists>h. spark_y (Fin lo) (Fin (hi - lo)) (vs ! i) = Fin h \<and> 3 \<le> h \<and> h \<le> 25" if "i < length vs" for i
    proof -
      have i: "vs ! i \<in> set vs" using that by simp
      with assms have "finite_num (vs ! i)" by blast
      then obtain q where "vs ! i = Fin q" by (rule finite_numE)
      then show ?thesis using y[of q] i by simp
    qed
    ultimately show ?thesis using False hi(1,2) lo(1,2) by (auto simp: renderSparkline_def Let_def)
  qed
  have "\<exists>q. jmin (num_map (\<lambda>x. x * 100) (jdiv v (Fin hi))) (Fin 100) = Fin q \<and> q \<le> 100" if "v \<in> set vs" for v
    using assms that hi(2) by (auto elim!: finite_numE)
  then show "\<forall>w \<in> set (bar_widths vs). \<exists>q. w = Fin q \<and> q \<le> 100" by (simp add: bar_widths_def hi(1) Let_def)
qed

end
