(* ===== verification/Translations.thy ===== *)
theory Translations
  imports Numbers Machine
begin

section \<open>Translated texts (i18n.js)\<close>

text \<open>
  The look-up of a text with its plural form, its fall-back and its placeholders, the names of roles,
  and the labels of the page that follow the language. The dictionary is a parameter, a missing entry
  is the empty text. A label is an element without children; the table of selectors for
  elements that carry no key of their own is left out.
\<close>

datatype language = Es | En

type_synonym dictionary = "language \<Rightarrow> jstr \<Rightarrow> jstr"

type_synonym params = "(jstr \<times> jsval) list"

subsection \<open>Placeholders\<close>

definition word_unit :: "jchar \<Rightarrow> bool" where
  "word_unit c \<longleftrightarrow> 0x61 \<le> c \<and> c \<le> 0x7A \<or> 0x41 \<le> c \<and> c \<le> 0x5A \<or> 0x30 \<le> c \<and> c \<le> 0x39 \<or> c = 0x5F"

text \<open>A name in braces is replaced when there is such a parameter; what replaces it is not searched again.\<close>

function fill :: "(jstr \<Rightarrow> jstr option) \<Rightarrow> jstr \<Rightarrow> jstr" where
  "fill look [] = []"
| "fill look (c # s) =
     (let name = takeWhile word_unit s; rest = dropWhile word_unit s in
      if c = 0x7B \<and> name \<noteq> [] \<and> rest \<noteq> [] \<and> hd rest = 0x7D
      then (case look name of Some v \<Rightarrow> v | None \<Rightarrow> 0x7B # name @ [0x7D]) @ fill look (tl rest)
      else c # fill look s)"
  by pat_completeness auto
termination
  by (relation "measure (\<lambda>(look, s). length s)") (auto simp: less_Suc_eq_le intro: le_trans[OF diff_le_self length_dropWhile_le])

declare fill.simps(2) [simp del]

definition param_of :: "params \<Rightarrow> jstr \<Rightarrow> jstr option" where
  "param_of ps name = map_option to_string (map_of ps name)"

definition param_count :: "params \<Rightarrow> jsval" where
  "param_count ps =
     (let g = (\<lambda>k. getp (Obj ps) (js k)) in nullish (g ''count'') (nullish (g ''n'') (nullish (g ''hops'') (g ''p0''))))"

definition chosen_text :: "jstr list \<Rightarrow> jstr" where
  "chosen_text ts = (case filter (\<lambda>s. s \<noteq> []) ts of s # _ \<Rightarrow> s | [] \<Rightarrow> [])"

definition translate :: "dictionary \<Rightarrow> language \<Rightarrow> jstr \<Rightarrow> params \<Rightarrow> jstr" where
  "translate d lang key0 ps =
     (let one = key0 @ js ''.one''; key = (if to_number (param_count ps) = Fin 1 \<and> d lang one \<noteq> [] then one else key0)
      in fill (param_of ps) (chosen_text [d lang key, d Es key, key]))"

subsection \<open>Roles\<close>

definition role_aliases :: "(jstr \<times> jstr) list" where
  "role_aliases = map (\<lambda>(a, b). (js a, js b))
     [(''NONE'', ''CLIENT''), (''CHAT'', ''CLIENT''), (''ROUTER'', ''REPEATER''), (''0'', ''CLIENT''), (''1'', ''CLIENT''),
      (''2'', ''REPEATER''), (''3'', ''ROOM''), (''4'', ''SENSOR'')]"

definition canonical_role :: "jsval \<Rightarrow> jstr" where
  "canonical_role v =
     (let u = toUpperCase (to_string (if v = Undefined then Str (js ''CLIENT'') else v)) in
      case map_of role_aliases u of Some r \<Rightarrow> r | None \<Rightarrow> u)"

definition role_text :: "dictionary \<Rightarrow> language \<Rightarrow> jsval \<Rightarrow> jstr" where
  "role_text d lang v =
     (let key = js ''node.role_'' @ toLowerCase (canonical_role v) in
      if d lang key \<noteq> [] then translate d lang key [] else translate d lang (js ''node.role_unknown'') [])"

subsection \<open>Labels that follow the language\<close>

text \<open>Parameters are kept with the label as JSON.\<close>

definition json_scalar :: "jsval \<Rightarrow> jsval option" where
  "json_scalar v = (case v of Undefined \<Rightarrow> None | Num n \<Rightarrow> Some (if finite_num n then v else Null) | _ \<Rightarrow> Some v)"

definition json_params :: "params \<Rightarrow> params" where
  "json_params ps = concat (map (\<lambda>(k, v). case json_scalar v of Some w \<Rightarrow> [(k, w)] | None \<Rightarrow> []) ps)"

record label =
  lb_key :: "jstr option"
  lb_params :: params
  lb_text :: jstr

record labels =
  lang :: language
  saved_lang :: "jstr option"
  page_labels :: "label list"

definition initial_language :: "jstr option \<Rightarrow> jstr \<Rightarrow> language" where
  "initial_language saved navigator =
     (case saved of
        Some s \<Rightarrow>
          if s = [] then (if startsWith (toLowerCase navigator) (js ''es'') then Es else En)
          else if s = js ''en'' then En else Es
      | None \<Rightarrow> if startsWith (toLowerCase navigator) (js ''es'') then Es else En)"

definition setText :: "dictionary \<Rightarrow> nat \<Rightarrow> jstr \<Rightarrow> params \<Rightarrow> labels \<Rightarrow> labels" where
  "setText d i key ps st =
     (if i < length (page_labels st)
      then st\<lparr>page_labels := (page_labels st)[i := \<lparr>lb_key = Some key, lb_params = json_params ps, lb_text = translate d (lang st) key ps\<rparr>]\<rparr>
      else st)"

definition apply_label :: "dictionary \<Rightarrow> language \<Rightarrow> label \<Rightarrow> label" where
  "apply_label d l x = (case lb_key x of Some k \<Rightarrow> x\<lparr>lb_text := translate d l k (lb_params x)\<rparr> | None \<Rightarrow> x)"

definition apply_all :: "dictionary \<Rightarrow> labels \<Rightarrow> labels" where
  "apply_all d st = st\<lparr>page_labels := map (apply_label d (lang st)) (page_labels st)\<rparr>"

definition toggle :: "dictionary \<Rightarrow> bool \<Rightarrow> labels \<Rightarrow> labels" where
  "toggle d storage st =
     (let l = (if lang st = Es then En else Es) in
      apply_all d (st\<lparr>lang := l, saved_lang := (if storage then Some (js (if l = En then ''en'' else ''es'')) else saved_lang st)\<rparr>))"

text \<open>A module that writes a text of its own takes the key away first.\<close>

definition write_plain :: "nat \<Rightarrow> jstr \<Rightarrow> labels \<Rightarrow> labels" where
  "write_plain i s st =
     (if i < length (page_labels st)
      then st\<lparr>page_labels := (page_labels st)[i := (page_labels st ! i)\<lparr>lb_key := None, lb_text := s\<rparr>]\<rparr> else st)"

datatype label_event = SetText nat jstr params | PlainText nat jstr | LanguageToggled bool

definition label_step :: "dictionary \<Rightarrow> label_event \<Rightarrow> labels \<Rightarrow> labels" where
  "label_step d ev st =
     (case ev of
        SetText i key ps \<Rightarrow> setText d i key ps st
      | PlainText i s \<Rightarrow> write_plain i s st
      | LanguageToggled storage \<Rightarrow> toggle d storage st)"

subsection \<open>Placeholders are replaced once\<close>

lemma fill_plain: "0x7B \<notin> set s \<Longrightarrow> fill look (s @ t) = s @ fill look t"
  by (induction s) (auto simp: fill.simps(2) Let_def)

lemma fill_name:
  assumes "name \<noteq> []" "list_all word_unit name"
  shows "fill look (0x7B # name @ 0x7D # t) = (case look name of Some v \<Rightarrow> v | None \<Rightarrow> 0x7B # name @ [0x7D]) @ fill look t"
proof -
  have "takeWhile word_unit (name @ 0x7D # t) = name" "dropWhile word_unit (name @ 0x7D # t) = 0x7D # t"
    using assms(2) by (induction name) (simp_all add: word_unit_def)
  then show ?thesis using assms(1) by (simp add: fill.simps(2))
qed

text \<open>A message as its author means it: stretches of text and named places.\<close>

datatype text_piece = Words jstr | Place jstr

fun piece_ok :: "text_piece \<Rightarrow> bool" where
  "piece_ok (Words s) \<longleftrightarrow> 0x7B \<notin> set s"
| "piece_ok (Place n) \<longleftrightarrow> n \<noteq> [] \<and> list_all word_unit n"

fun piece_source :: "text_piece \<Rightarrow> jstr" where
  "piece_source (Words s) = s"
| "piece_source (Place n) = 0x7B # n @ [0x7D]"

fun piece_filled :: "params \<Rightarrow> text_piece \<Rightarrow> jstr" where
  "piece_filled ps (Words s) = s"
| "piece_filled ps (Place n) = (case map_of ps n of Some v \<Rightarrow> to_string v | None \<Rightarrow> 0x7B # n @ [0x7D])"

lemma fill_pieces:
  assumes "list_all piece_ok xs"
  shows "fill (param_of ps) (concat (map piece_source xs)) = concat (map (piece_filled ps) xs)"
  using assms
proof (induction xs)
  case (Cons x xs)
  then show ?case by (cases x) (auto simp: fill_plain fill_name param_of_def split: option.split)
qed simp

text \<open>
  A message shows every parameter at its places, as it is, and once: text in braces that a
  parameter brings along is not taken for a place, and a place without a parameter stays visible.
\<close>

theorem message_filled_once:
  assumes "list_all piece_ok xs" "d l key = concat (map piece_source xs)" "d l key \<noteq> []"
    and "to_number (param_count ps) \<noteq> Fin 1 \<or> d l (key @ js ''.one'') = []"
  shows "translate d l key ps = concat (map (piece_filled ps) xs)"
proof -
  have "translate d l key ps = fill (param_of ps) (d l key)"
    using assms(3,4) by (auto simp: translate_def chosen_text_def Let_def)
  then show ?thesis by (simp add: assms(2) fill_pieces[OF assms(1)])
qed

lemma message_filled_once_witness:
  "translate (\<lambda>l k. if k = js ''greet'' then js ''Hello {name}, {rest}!'' else []) En (js ''greet'') [(js ''name'', Str (js ''{rest}''))]
   = js ''Hello {rest}, {rest}!''"
proof -
  let ?xs = "[Words (js ''Hello ''), Place (js ''name''), Words (js '', ''), Place (js ''rest''), Words (js ''!'')]"
  let ?d = "\<lambda>(l::language) k. if k = js ''greet'' then js ''Hello {name}, {rest}!'' else []"
  have x: "list_all piece_ok ?xs" "js ''Hello {name}, {rest}!'' = concat (map piece_source ?xs)" by code_simp+
  have "translate ?d En (js ''greet'') [(js ''name'', Str (js ''{rest}''))] = concat (map (piece_filled [(js ''name'', Str (js ''{rest}''))]) ?xs)"
    using x by (intro message_filled_once) (simp_all add: param_count_def getp_def nullish_def is_nullish_def to_number_def)
  also have "\<dots> = js ''Hello {rest}, {rest}!''" by code_simp
  finally show ?thesis .
qed

subsection \<open>Labels\<close>

definition label_current :: "dictionary \<Rightarrow> language \<Rightarrow> label \<Rightarrow> bool" where
  "label_current d l x \<longleftrightarrow> (\<forall>k. lb_key x = Some k \<longrightarrow> lb_text x = translate d l k (lb_params x))"

definition labels_current :: "dictionary \<Rightarrow> labels \<Rightarrow> bool" where
  "labels_current d st \<longleftrightarrow> list_all (label_current d (lang st)) (page_labels st)"

text \<open>Parameters that JSON gives back as they are.\<close>

definition json_safe :: "params \<Rightarrow> bool" where
  "json_safe ps \<longleftrightarrow> list_all (\<lambda>(k, v). json_scalar v = Some v) ps"

definition safe_event :: "label_event \<Rightarrow> bool" where
  "safe_event ev \<longleftrightarrow> (case ev of SetText i k ps \<Rightarrow> json_safe ps | _ \<Rightarrow> True)"

lemma json_params_safe: "json_safe ps \<Longrightarrow> json_params ps = ps"
  by (induction ps) (auto simp: json_safe_def json_params_def)

lemma apply_label_current [simp]: "label_current d l (apply_label d l x)"
  by (simp add: label_current_def apply_label_def split: option.split)

lemma apply_all_current [simp]: "labels_current d (apply_all d st)"
  by (simp add: labels_current_def apply_all_def list_all_iff)

lemma labels_update: "labels_current d st \<Longrightarrow> label_current d (lang st) x \<Longrightarrow> labels_current d (st\<lparr>page_labels := (page_labels st)[i := x]\<rparr>)"
  by (auto simp: labels_current_def list_all_iff dest: set_update_subset_insert[THEN subsetD])

lemma label_step_current:
  assumes "labels_current d st" "safe_event ev"
  shows "labels_current d (label_step d ev st)"
proof (cases ev)
  case (SetText i k ps)
  then have "json_params ps = ps" using assms(2) json_params_safe by (simp add: safe_event_def)
  then show ?thesis using assms(1) SetText
    by (simp add: label_step_def setText_def labels_update label_current_def)
next
  case (PlainText i s)
  then show ?thesis using assms(1) by (simp add: label_step_def write_plain_def labels_update label_current_def)
next
  case (LanguageToggled b)
  then show ?thesis by (simp add: label_step_def toggle_def Let_def)
qed

interpretation labels: initial_invariant "label_step d" safe_event "labels_current d" "apply_all d page" for d page
  by unfold_locales (simp_all add: label_step_current)



end
