(* ===== verification/MapMarkers.thy ===== *)
theory MapMarkers
  imports NodeCards Translations
begin

section \<open>The map of the nodes (modules/map.js)\<close>

text \<open>
  The nodes that have a position are shown as markers and in a list, over one of four layers of tiles. The
  library that draws the map is not modelled: what the code has put on the map is the state. What the module
  reads of its surroundings at an event, the known nodes, the position in the settings, the theme, the
  connection and the dictionary, is given by the page. Keys, roles and names of nodes are texts; a popup is
  the record of the texts in it.
\<close>

record map_env =
  me_dict :: dictionary
  me_lang :: language
  me_known :: known_nodes
  me_inputs :: "(jstr \<times> jstr) option"
  me_online :: bool
  me_light :: bool

datatype node_kind = StationKind | RepeaterKind | SensorKind | RoomKind | ClientKind

record popup =
  pp_kind :: node_kind
  pp_name :: jstr
  pp_role :: jstr
  pp_key :: jstr
  pp_pos :: jstr
  pp_rssi :: "jstr option"
  pp_snr :: "jstr option"

record marker =
  mk_pos :: "rat \<times> rat"
  mk_icon :: node_kind
  mk_popup :: popup

record node_item =
  it_key :: "jstr option"
  it_kind :: node_kind
  it_name :: jstr
  it_role :: jstr
  it_pos :: jstr
  it_snr :: "jstr option"

type_synonym markers = "(jstr \<times> marker) list"

subsection \<open>Positions\<close>

definition isValidCoords :: "jnum \<Rightarrow> jnum \<Rightarrow> bool" where
  "isValidCoords lat lon \<longleftrightarrow>
     (case (lat, lon) of (Fin a, Fin b) \<Rightarrow> \<bar>a\<bar> \<le> 90 \<and> \<bar>b\<bar> \<le> 180 \<and> (a \<noteq> 0 \<or> b \<noteq> 0) | _ \<Rightarrow> False)"

definition valid_position :: "jnum \<Rightarrow> jnum \<Rightarrow> (rat \<times> rat) option" where
  "valid_position lat lon =
     (if isValidCoords lat lon then (case (lat, lon) of (Fin a, Fin b) \<Rightarrow> Some (a, b) | _ \<Rightarrow> None) else None)"

definition node_position :: "props \<Rightarrow> (rat \<times> rat) option" where
  "node_position p =
     valid_position (coordinate p [''latitude'', ''lat'', ''adv_lat''] ''latitude'') (coordinate p [''longitude'', ''lon'', ''adv_lon''] ''longitude'')"

definition is_station :: "props \<Rightarrow> bool" where
  "is_station p \<longleftrightarrow> is_local p \<or> toUpperCase (to_string (fld p ''role'')) = js ''LOCAL''"

definition role_upper :: "props \<Rightarrow> jstr" where
  "role_upper p = toUpperCase (to_string (js_or (fld p ''role'') (Str [])))"

definition kind_of :: "props \<Rightarrow> node_kind" where
  "kind_of p =
     (if is_station p then StationKind else if role_upper p = js ''REPEATER'' then RepeaterKind
      else if role_upper p = js ''SENSOR'' then SensorKind else if role_upper p = js ''ROOM'' then RoomKind else ClientKind)"

definition position_text :: "nat \<Rightarrow> rat \<times> rat \<Rightarrow> jstr" where
  "position_text n pos = to_fixed n (fst pos) @ js '', '' @ to_fixed n (snd pos)"

definition with_unit :: "jsval \<Rightarrow> string \<Rightarrow> jstr option" where
  "with_unit v u = (if is_nullish v then None else Some (to_string v @ js u))"

definition shown_role :: "map_env \<Rightarrow> props \<Rightarrow> jstr" where
  "shown_role env p = role_text (me_dict env) (me_lang env) (js_or (fld p ''role'') (Str (js (if is_station p then ''LOCAL'' else ''CLIENT''))))"

definition map_word :: "map_env \<Rightarrow> string \<Rightarrow> jstr" where
  "map_word env key = translate (me_dict env) (me_lang env) (js key) []"

subsection \<open>Markers\<close>

definition marker_key :: "props \<Rightarrow> jstr" where
  "marker_key p = toLowerCase (to_string (js_or (fld p ''public_key'') (Str (if is_local p then js ''local'' else []))))"

definition node_popup :: "map_env \<Rightarrow> props \<Rightarrow> rat \<times> rat \<Rightarrow> popup" where
  "node_popup env p pos =
     \<lparr>pp_kind = kind_of p,
      pp_name = to_string (js_or (fld p ''name'') (js_or (fld p ''alias'')
        (Str (if is_station p then map_word env ''map.local_station_you'' else take 8 (marker_key p))))),
      pp_role = shown_role env p, pp_key = take 8 (marker_key p) @ js ''...'', pp_pos = position_text 5 pos,
      pp_rssi = with_unit (fld p ''last_rssi'') '' dBm'', pp_snr = with_unit (fld p ''last_snr'') '' dB''\<rparr>"

text \<open>A marker that is there is moved and gets a new popup; its icon stays the one that it was made with.\<close>

definition updateSingleNodeMarker :: "map_env \<Rightarrow> props \<Rightarrow> markers \<Rightarrow> markers" where
  "updateSingleNodeMarker env p ms =
     (case node_position p of
        None \<Rightarrow> ms
      | Some pos \<Rightarrow>
          let k = marker_key p in
          if k = [] then ms
          else case map_of ms k of
            Some m \<Rightarrow> assoc_put k (m\<lparr>mk_pos := pos, mk_popup := node_popup env p pos\<rparr>) ms
          | None \<Rightarrow> assoc_put k \<lparr>mk_pos = pos, mk_icon = kind_of p, mk_popup = node_popup env p pos\<rparr> ms)"

definition current_key :: "props \<Rightarrow> jstr" where
  "current_key p = toLowerCase (trim (to_string (js_or (fld p ''public_key'') (js_or (fld p ''pubkey'') (Str [])))))"

definition updateMapMarkers :: "map_env \<Rightarrow> props list \<Rightarrow> markers \<Rightarrow> markers" where
  "updateMapMarkers env ps ms =
     (let current = filter (\<lambda>k. k \<noteq> []) (map current_key ps) in
      filter (\<lambda>(k, m). k \<in> set current) (fold (updateSingleNodeMarker env) ps ms))"

subsection \<open>The list of positioned nodes\<close>

definition node_item_of :: "map_env \<Rightarrow> props \<Rightarrow> rat \<times> rat \<Rightarrow> node_item" where
  "node_item_of env p pos =
     (let key = fld p ''public_key'' in
      \<lparr>it_key = (if truthy key then Some (toLowerCase (to_string key)) else None),
       it_kind = (if kind_of p = RoomKind then ClientKind else kind_of p),
       it_name = to_string (js_or (fld p ''name'') (js_or (fld p ''alias'')
         (Str (if truthy key then take 8 (to_string key) else map_word env ''common.node'')))),
       it_role = shown_role env p, it_pos = position_text 4 pos, it_snr = with_unit (fld p ''last_snr'') '' dB''\<rparr>)"

definition updateMapNodesOverlayList :: "map_env \<Rightarrow> props list \<Rightarrow> node_item list" where
  "updateMapNodesOverlayList env ps =
     concat (map (\<lambda>p. case node_position p of Some pos \<Rightarrow> [node_item_of env p pos] | None \<Rightarrow> []) ps)"

subsection \<open>Positions of stations\<close>

text \<open>The station's own position: the first node that is the station and has one, or else the settings.\<close>

definition getLocalNodeCoordinates :: "map_env \<Rightarrow> ((rat \<times> rat) \<times> jstr \<times> props option) option" where
  "getLocalNodeCoordinates env =
     (case first_some (\<lambda>(k, p). if is_station p then map_option (\<lambda>pos. (pos, p)) (node_position p) else None) (me_known env) of
        Some (pos, p) \<Rightarrow> Some (pos, to_string (js_or (fld p ''name'') (Str (map_word env ''map.local_station''))), Some p)
      | None \<Rightarrow>
          (case me_inputs env of
             None \<Rightarrow> None
           | Some (a, b) \<Rightarrow> map_option (\<lambda>pos. (pos, map_word env ''map.local_station'', None)) (valid_position (parse_float (Str a)) (parse_float (Str b)))))"

definition getNodeCoordinates :: "map_env \<Rightarrow> jsval \<Rightarrow> ((rat \<times> rat) \<times> jstr \<times> props option) option" where
  "getNodeCoordinates env key =
     (if \<not> truthy key then None
      else let clean = trim (toLowerCase (to_string key)) in
        if clean = js ''local'' then getLocalNodeCoordinates env
        else case (case map_of (me_known env) clean of
                     Some p \<Rightarrow> Some p
                   | None \<Rightarrow> map_option snd (find (\<lambda>(k, p). startsWith k clean \<or> startsWith clean k) (me_known env))) of
          None \<Rightarrow> None
        | Some p \<Rightarrow> map_option (\<lambda>pos. (pos, to_string (js_or (fld p ''name'') (js_or (fld p ''alias'') (Str (take 8 clean)))), Some p))
                     (node_position p))"

subsection \<open>What an update leaves on the map\<close>

definition placed :: "jstr \<Rightarrow> props \<Rightarrow> bool" where
  "placed k p \<longleftrightarrow> marker_key p = k \<and> k \<noteq> [] \<and> node_position p \<noteq> None"

definition marker_after :: "map_env \<Rightarrow> marker option \<Rightarrow> props \<Rightarrow> props \<Rightarrow> marker" where
  "marker_after env old p q =
     \<lparr>mk_pos = the (node_position q), mk_icon = (case old of Some m \<Rightarrow> mk_icon m | None \<Rightarrow> kind_of p),
      mk_popup = node_popup env q (the (node_position q))\<rparr>"

lemma marker_after_again [simp]: "marker_after env (Some (marker_after env old p q)) p' q' = marker_after env old p q'"
  by (simp add: marker_after_def)

lemma map_of_single_marker:
  "map_of (updateSingleNodeMarker env p ms) k = (if placed k p then Some (marker_after env (map_of ms k) p p) else map_of ms k)"
  by (auto simp: updateSingleNodeMarker_def placed_def marker_after_def Let_def split: option.split)

text \<open>The last node with a key decides where its marker is, the first one which icon a new marker has.\<close>

lemma map_of_all_markers:
  "map_of (fold (updateSingleNodeMarker env) ps ms) k =
     (case filter (placed k) ps of [] \<Rightarrow> map_of ms k | q # qs \<Rightarrow> Some (marker_after env (map_of ms k) q (last (q # qs))))"
proof (induction ps arbitrary: ms)
  case (Cons p ps)
  show ?case
    by (cases "filter (placed k) ps") (simp_all add: Cons.IH map_of_single_marker)
qed simp

lemma map_of_filter_keys: "map_of (filter (\<lambda>(k, v). k \<in> A) xs) k = (if k \<in> A then map_of xs k else None)"
  by (induction xs) auto

lemma map_of_updateMapMarkers:
  "map_of (updateMapMarkers env ps ms) k =
     (if k \<in> current_key ` set ps - {[]}
      then (case filter (placed k) ps of [] \<Rightarrow> map_of ms k | q # qs \<Rightarrow> Some (marker_after env (map_of ms k) q (last (q # qs))))
      else None)"
  unfolding updateMapMarkers_def Let_def map_of_filter_keys map_of_all_markers by (simp add: image_iff)

lemma filter_last: "filter P xs \<noteq> [] \<Longrightarrow> Q (last (filter P xs)) \<Longrightarrow> last (filter (\<lambda>x. P x \<and> Q x) xs) = last (filter P xs)"
  by (induction xs rule: rev_induct) (auto split: if_splits)

lemma map_of_known_map:
  "map_of (known_map ns) k = (let qs = filter (\<lambda>p. node_key p = k) ns in if qs = [] then None else Some (last qs))"
proof -
  have "map_of (fold (\<lambda>p. assoc_put (node_key p) p) ns xs) k =
      (let qs = filter (\<lambda>p. node_key p = k) ns in if qs = [] then map_of xs k else Some (last qs))" for xs
    by (induction ns arbitrary: xs) (auto simp: Let_def)
  then show ?thesis by (simp add: known_map_def Let_def)
qed


lemma placed_iff:
  "fld p ''public_key'' = Str s \<Longrightarrow> s \<noteq> [] \<Longrightarrow> placed k p \<longleftrightarrow> node_key p = k \<and> k \<noteq> [] \<and> node_position p \<noteq> None"
  by (simp add: placed_def marker_key_def node_key_def js_or_def truthy_def)

lemma published_keys:
  assumes "p \<in> set (published (renderNodesDirectory env xs st))"
  obtains s where "fld p ''public_key'' = Str s" "s \<noteq> []"
proof -
  have "isValidNodeKey (fld p ''public_key'')"
    using assms by (auto simp: renderNodesDirectory_def Let_def valid_nodes_def refilter_def filterNodesGrid_def filterContactsGrid_def
      split: if_splits jsval.splits)
  then have "\<exists>s. fld p ''public_key'' = Str s \<and> s \<noteq> []"
    by (cases "fld p ''public_key''") (auto simp: isValidNodeKey_def)
  then show thesis using that by blast
qed

lemma known_render: "known (renderNodesDirectory env xs st) = known_map (published (renderNodesDirectory env xs st))"
  by (simp add: renderNodesDirectory_def Let_def refilter_def filterNodesGrid_def filterContactsGrid_def known_map_def)

text \<open>
  C38: The map shows the directory. After the directory has been downloaded and its nodes are passed on to
  the map, whatever markers there were, the markers are those of known nodes, and every known node that
  has a position has a marker there with the popup of the node; keys do not begin or end with white space.
\<close>

theorem map_shows_directory:
  assumes "\<forall>p \<in> set (published (renderNodesDirectory env xs st)). trim (to_string (fld p ''public_key'')) = to_string (fld p ''public_key'')"
  shows "(map_of (updateMapMarkers me (published (renderNodesDirectory env xs st)) ms) k = None \<or>
          map_of (known (renderNodesDirectory env xs st)) k \<noteq> None) \<and>
    (\<forall>p pos. map_of (known (renderNodesDirectory env xs st)) k = Some p \<and> node_position p = Some pos \<longrightarrow>
      (\<exists>m. map_of (updateMapMarkers me (published (renderNodesDirectory env xs st)) ms) k = Some m \<and>
           mk_pos m = pos \<and> mk_popup m = node_popup me p pos))"
proof -
  define ps where "ps = published (renderNodesDirectory env xs st)"
  have keys: "current_key p = node_key p \<and> node_key p \<noteq> [] \<and> placed k p = (node_key p = k \<and> node_position p \<noteq> None)" if p: "p \<in> set ps" for p
  proof -
    from p obtain s where s: "fld p ''public_key'' = Str s" "s \<noteq> []" unfolding ps_def by (rule published_keys)
    moreover have "trim s = s" using assms s(1) p unfolding ps_def by fastforce
    ultimately show ?thesis using placed_iff[OF s] by (auto simp: current_key_def node_key_def js_or_def truthy_def toLowerCase_def)
  qed
  have current: "k \<in> current_key ` set ps - {[]} \<longleftrightarrow> filter (\<lambda>p. node_key p = k) ps \<noteq> []"
    using keys by (auto simp: filter_empty_conv image_iff)
  have same: "filter (placed k) ps = filter (\<lambda>p. node_key p = k \<and> node_position p \<noteq> None) ps"
    using keys by (intro filter_cong) auto
  show ?thesis
    unfolding known_render ps_def[symmetric] map_of_known_map map_of_updateMapMarkers Let_def current
  proof (intro conjI allI impI)
    fix p pos
    assume p: "(if filter (\<lambda>p. node_key p = k) ps = [] then None else Some (last (filter (\<lambda>p. node_key p = k) ps))) = Some p \<and> node_position p = Some pos"
    then have here: "filter (\<lambda>p. node_key p = k) ps \<noteq> []" "p = last (filter (\<lambda>p. node_key p = k) ps)" by (auto split: if_splits)
    have l: "last (filter (placed k) ps) = p"
      using filter_last[of "\<lambda>p. node_key p = k" ps "\<lambda>p. node_position p \<noteq> None"] here p by (simp add: same)
    have "filter (placed k) ps \<noteq> []" using here p last_in_set[OF here(1)] by (auto simp: same filter_empty_conv)
    then obtain q qs where q: "filter (placed k) ps = q # qs" by (cases "filter (placed k) ps") auto
    show "\<exists>m. (if filter (\<lambda>p. node_key p = k) ps \<noteq> [] then case filter (placed k) ps of [] \<Rightarrow> map_of ms k
          | q # qs \<Rightarrow> Some (marker_after me (map_of ms k) q (last (q # qs))) else None) = Some m \<and> mk_pos m = pos \<and> mk_popup m = node_popup me p pos"
      using here(1) l p unfolding q by (simp add: marker_after_def)
  qed (simp split: if_split)
qed

definition sample_station :: "string \<Rightarrow> rat \<Rightarrow> rat \<Rightarrow> jsval" where
  "sample_station k a b = Obj [(js ''public_key'', Str (js k)), (js ''name'', Str (js ''N'')), (js ''lat'', Num (Fin a)), (js ''lon'', Num (Fin b))]"

definition sample_map_env :: map_env where
  "sample_map_env = \<lparr>me_dict = (\<lambda>l k. []), me_lang = Es, me_known = [], me_inputs = None, me_online = True, me_light = False\<rparr>"

lemma published_render: "xs \<noteq> [] \<Longrightarrow> published (renderNodesDirectory env xs st) = map (directory_node env) (valid_nodes xs)"
  by (simp add: renderNodesDirectory_def Let_def refilter_def filterNodesGrid_def filterContactsGrid_def)

definition sample_directory :: directory where
  "sample_directory = renderNodesDirectory quiet_page [sample_station ''aaaaaaaa01'' 20 (- 75)] new_directory"

lemma map_shows_directory_witness:
  "\<exists>m. map_of (updateMapMarkers sample_map_env (published sample_directory) []) (js ''aaaaaaaa01'') = Some m \<and> mk_pos m = (20, - 75)"
proof -
  let ?ps = "map (directory_node quiet_page) (valid_nodes [sample_station ''aaaaaaaa01'' 20 (- 75)])"
  have published: "published sample_directory = ?ps" by (simp add: sample_directory_def published_render)
  have "list_all (\<lambda>p. trim (to_string (fld p ''public_key'')) = to_string (fld p ''public_key'')) ?ps" by code_simp
  then have keys: "\<forall>p \<in> set (published sample_directory). trim (to_string (fld p ''public_key'')) = to_string (fld p ''public_key'')"
    unfolding published list_all_iff .
  have "case map_of (known_map ?ps) (js ''aaaaaaaa01'') of Some p \<Rightarrow> node_position p = Some (20, - 75) | None \<Rightarrow> False" by code_simp
  then obtain p where p: "map_of (known sample_directory) (js ''aaaaaaaa01'') = Some p \<and> node_position p = Some (20, - 75)"
    unfolding sample_directory_def known_render published[unfolded sample_directory_def] by (auto split: option.splits)
  from map_shows_directory[OF keys[unfolded sample_directory_def], of sample_map_env "[]" "js ''aaaaaaaa01''"] p
  show ?thesis unfolding sample_directory_def by blast
qed

text \<open>
  The station itself gets the key \<open>local\<close> when it has none of its own. A single update shows it, and the
  next update of all nodes takes it away again, because its key is not among those of the nodes.
\<close>

lemma station_without_key_is_taken_away:
  assumes "is_local p" "fld p ''public_key'' = Undefined" "fld p ''pubkey'' = Undefined" "node_position p = Some pos"
  shows "map_of (updateSingleNodeMarker env p ms) (js ''local'') \<noteq> None" "map_of (updateMapMarkers env [p] ms) (js ''local'') = None"
proof -
  have "toLowerCase (js ''local'') = js ''local''" by code_simp
  then have "marker_key p = js ''local''" using assms(1,2) by (simp add: marker_key_def js_or_def truthy_def del: js_simps)
  then show "map_of (updateSingleNodeMarker env p ms) (js ''local'') \<noteq> None"
    using assms(4) by (simp add: map_of_single_marker placed_def)
  have "current_key p = []" using assms(2,3) by (simp add: current_key_def js_or_def truthy_def)
  then show "map_of (updateMapMarkers env [p] ms) (js ''local'') = None" by (simp add: map_of_updateMapMarkers)
qed

subsection \<open>The map as a machine\<close>

datatype tiles = DarkTiles | LightTiles | SatelliteTiles | LocalTiles

text \<open>Where the map looks: at a point, or at all of some points, both with a zoom.\<close>

datatype map_look = LookAt jnum jnum jsval | FitAll "(rat \<times> rat) list" nat

record map_view =
  map_ready :: bool
  mapMarkers :: markers
  mapNodesList :: "node_item list"
  onMap :: "tiles list"
  mapLayerMode :: jstr
  savedLayerMode :: "jstr option"
  remoteTilesUnreachable :: bool
  looks :: map_look
  openedPopup :: "jstr option"
  hasInitiallyCentered :: bool
  userInteractedWithMap :: bool
  map_toasts :: "string list"

definition auto_mode :: jstr where
  "auto_mode = js ''auto''"

definition isBaseLayerMode :: "jstr \<Rightarrow> bool" where
  "isBaseLayerMode mode \<longleftrightarrow> mode = [] \<or> mode \<in> set (map js [''auto'', ''standard'', ''map'', ''dark'', ''osm''])"

definition initial_mode :: "jstr option \<Rightarrow> jstr" where
  "initial_mode saved =
     (case saved of
        None \<Rightarrow> auto_mode
      | Some s \<Rightarrow> if s = [] \<or> s \<in> set (map js [''dark'', ''osm'', ''cartodb'', ''tactical_radar'']) then auto_mode else s)"

definition tile_layer :: "jstr \<Rightarrow> tiles option" where
  "tile_layer mode =
     map_of [(js ''dark'', DarkTiles), (js ''cartodb'', DarkTiles), (js ''osm'', LightTiles), (js ''satellite'', SatelliteTiles), (js ''local'', LocalTiles)] mode"

definition theme_tiles :: "bool \<Rightarrow> tiles" where
  "theme_tiles light = (if light then LightTiles else DarkTiles)"

definition setMapLayer :: "map_env \<Rightarrow> jstr \<Rightarrow> map_view \<Rightarrow> map_view" where
  "setMapLayer env mode0 v =
     (if \<not> map_ready v then v
      else let mode = (if isBaseLayerMode mode0 \<or> tile_layer mode0 = None then auto_mode else mode0);
               chosen = (if mode = auto_mode then (if \<not> me_online env then LocalTiles else theme_tiles (me_light env))
                         else case tile_layer mode of Some t \<Rightarrow> t | None \<Rightarrow> DarkTiles)
           in v\<lparr>onMap := [chosen], mapLayerMode := mode, savedLayerMode := Some mode\<rparr>)"

definition add_tiles :: "tiles \<Rightarrow> tiles list \<Rightarrow> tiles list" where
  "add_tiles t ts = (if t \<in> set ts then ts else ts @ [t])"

definition onThemeChanged :: "bool \<Rightarrow> map_view \<Rightarrow> map_view" where
  "onThemeChanged light v =
     (if \<not> map_ready v \<or> \<not> isBaseLayerMode (mapLayerMode v) \<or> remoteTilesUnreachable v \<and> mapLayerMode v = auto_mode then v
      else v\<lparr>onMap := add_tiles (theme_tiles light) (remove1 (theme_tiles (\<not> light)) (onMap v))\<rparr>)"

definition switchToLocalOnAutoError :: "map_view \<Rightarrow> map_view" where
  "switchToLocalOnAutoError v =
     (if mapLayerMode v \<noteq> auto_mode \<or> \<not> map_ready v then v
      else v\<lparr>remoteTilesUnreachable := True, onMap := add_tiles LocalTiles (remove1 LightTiles (remove1 DarkTiles (onMap v)))\<rparr>)"

definition show_markers :: "map_env \<Rightarrow> props list \<Rightarrow> map_view \<Rightarrow> map_view" where
  "show_markers env ps v =
     (if map_ready v then v\<lparr>mapMarkers := updateMapMarkers env ps (mapMarkers v), mapNodesList := updateMapNodesOverlayList env ps\<rparr> else v)"

definition map_toast :: "bool \<Rightarrow> string \<Rightarrow> map_view \<Rightarrow> map_view" where
  "map_toast asked t v = (if asked then v\<lparr>map_toasts := map_toasts v @ [t]\<rparr> else v)"

definition local_marker_key :: "props option \<Rightarrow> jstr" where
  "local_marker_key p =
     (case p of
        Some q \<Rightarrow> (case fld q ''public_key'' of Str s \<Rightarrow> if s = [] then js ''local'' else toLowerCase s | _ \<Rightarrow> js ''local'')
      | None \<Rightarrow> js ''local'')"

definition centerOnLocalNode :: "map_env \<Rightarrow> nat \<Rightarrow> bool \<Rightarrow> map_view \<Rightarrow> map_view" where
  "centerOnLocalNode env zoom toast v =
     (if \<not> map_ready v then v
      else case getLocalNodeCoordinates env of
        Some (pos, name, p) \<Rightarrow>
          let k = local_marker_key p;
              v1 = v\<lparr>looks := LookAt (Fin (fst pos)) (Fin (snd pos)) (Num (Fin (of_nat zoom)))\<rparr>;
              v2 = (if map_of (mapMarkers v) k \<noteq> None \<and> toast then v1\<lparr>openedPopup := Some k\<rparr> else v1)
          in map_toast toast ''toast.map_centered_local'' v2
      | None \<Rightarrow>
          if mapMarkers v \<noteq> [] then map_toast toast ''toast.map_adjusted'' (v\<lparr>looks := FitAll (map (mk_pos \<circ> snd) (mapMarkers v)) 14\<rparr>)
          else map_toast toast ''toast.map_no_local_gps'' v)"

definition center_first :: "map_env \<Rightarrow> map_view \<Rightarrow> map_view" where
  "center_first env v = (if hasInitiallyCentered v then v else (centerOnLocalNode env 13 False v)\<lparr>hasInitiallyCentered := True\<rparr>)"

definition show_known :: "map_env \<Rightarrow> map_view \<Rightarrow> map_view" where
  "show_known env v = (if me_known env = [] then v else show_markers env (map snd (me_known env)) v)"

definition ensureMapInitialized :: "map_env \<Rightarrow> map_view \<Rightarrow> map_view" where
  "ensureMapInitialized env v =
     (if map_ready v then v
      else let v1 = v\<lparr>map_ready := True, looks := LookAt (Fin (2015/100)) (Fin (- 7520/100)) (Num (Fin 12))\<rparr>
           in centerOnLocalNode env 13 False (show_known env (setMapLayer env (mapLayerMode v) v1)))"

definition centerMapOnCoords :: "map_env \<Rightarrow> jsval \<Rightarrow> jsval \<Rightarrow> jsval \<Rightarrow> map_view \<Rightarrow> map_view" where
  "centerMapOnCoords env lat lon zoom v =
     (let v1 = ensureMapInitialized env v in
      if parse_float lat \<noteq> NaN \<and> parse_float lon \<noteq> NaN then v1\<lparr>looks := LookAt (parse_float lat) (parse_float lon) zoom\<rparr> else v1)"


datatype map_event =
    MapIdle
  | TabShown
  | TabTimer
  | NodesChanged
  | NodesGiven "props list"
  | NodeGiven props
  | CentreAt jsval jsval jsval
  | CentreClicked
  | ItemClicked props
  | UserMoved
  | LayerClicked jstr
  | ThemeChanged bool
  | TilesFailed tiles
  | LanguageChanged

definition update_one :: "map_env \<Rightarrow> props \<Rightarrow> map_view \<Rightarrow> map_view" where
  "update_one env p v =
     (let v1 = (if map_ready v then v\<lparr>mapMarkers := updateSingleNodeMarker env p (mapMarkers v)\<rparr> else v)
      in if (is_local p \<or> role_is p ''LOCAL'') \<and> \<not> hasInitiallyCentered v1 \<and> \<not> userInteractedWithMap v1
         then (centerOnLocalNode env 13 False v1)\<lparr>hasInitiallyCentered := True\<rparr> else v1)"

definition item_clicked :: "props \<Rightarrow> map_view \<Rightarrow> map_view" where
  "item_clicked p v =
     (case node_position p of
        Some pos \<Rightarrow>
          if map_ready v
          then let k = toLowerCase (to_string (js_or (fld p ''public_key'') (Str [])));
                   v1 = v\<lparr>looks := LookAt (Fin (fst pos)) (Fin (snd pos)) (Num (Fin 15))\<rparr>
               in if map_of (mapMarkers v) k \<noteq> None then v1\<lparr>openedPopup := Some k\<rparr> else v1
          else v
      | None \<Rightarrow> v)"

definition map_step :: "map_env \<times> map_event \<Rightarrow> map_view \<Rightarrow> map_view" where
  "map_step e v =
     (let env = fst e in
      case snd e of
        MapIdle \<Rightarrow> ensureMapInitialized env v
      | TabShown \<Rightarrow> onThemeChanged (me_light env) (ensureMapInitialized env v)
      | TabTimer \<Rightarrow> if map_ready v then center_first env (show_known env v) else v
      | NodesChanged \<Rightarrow> center_first env (show_markers env (map snd (me_known env)) v)
      | NodesGiven ps \<Rightarrow> center_first env (show_markers env ps v)
      | NodeGiven p \<Rightarrow> update_one env p v
      | CentreAt lat lon zoom \<Rightarrow>
          if is_nullish lat \<or> is_nullish lon then v else centerMapOnCoords env lat lon (js_or zoom (Num (Fin 14))) v
      | CentreClicked \<Rightarrow> centerOnLocalNode env 14 True (v\<lparr>userInteractedWithMap := False\<rparr>)
      | ItemClicked p \<Rightarrow> item_clicked p v
      | UserMoved \<Rightarrow> if map_ready v then v\<lparr>userInteractedWithMap := True\<rparr> else v
      | LayerClicked mode \<Rightarrow> if mode = [] then v else setMapLayer env mode v
      | ThemeChanged light \<Rightarrow> onThemeChanged light v
      | TilesFailed t \<Rightarrow> if t \<in> {DarkTiles, LightTiles} then switchToLocalOnAutoError v else v
      | LanguageChanged \<Rightarrow> (show_markers env (map snd (me_known env)) v)\<lparr>mapNodesList := updateMapNodesOverlayList env (map snd (me_known env))\<rparr>)"

definition new_map :: "jstr option \<Rightarrow> map_view" where
  "new_map saved =
     \<lparr>map_ready = False, mapMarkers = [], mapNodesList = [], onMap = [], mapLayerMode = initial_mode saved, savedLayerMode = saved,
      remoteTilesUnreachable = False, looks = FitAll [] 0, openedPopup = None, hasInitiallyCentered = False,
      userInteractedWithMap = False, map_toasts = []\<rparr>"

subsection \<open>What every event keeps\<close>

definition markers_ok :: "markers \<Rightarrow> bool" where
  "markers_ok ms \<longleftrightarrow> distinct (map fst ms) \<and> (\<forall>(k, m) \<in> set ms. k \<noteq> [] \<and> isValidCoords (Fin (fst (mk_pos m))) (Fin (snd (mk_pos m))))"

definition tiles_ok :: "map_view \<Rightarrow> bool" where
  "tiles_ok v \<longleftrightarrow>
     (\<not> map_ready v \<longrightarrow> onMap v = []) \<and>
     (map_ready v \<longrightarrow>
        mapLayerMode v = auto_mode \<and> onMap v \<in> {[DarkTiles], [LightTiles], [LocalTiles], [LocalTiles, DarkTiles], [LocalTiles, LightTiles]} \<or>
        \<not> isBaseLayerMode (mapLayerMode v) \<and> (\<exists>t. tile_layer (mapLayerMode v) = Some t \<and> onMap v = [t]))"

lemma node_position_valid: "node_position p = Some (a, b) \<Longrightarrow> isValidCoords (Fin a) (Fin b)"
  by (auto simp: node_position_def valid_position_def split: if_splits jnum.splits)

lemma markers_ok_single: "markers_ok ms \<Longrightarrow> markers_ok (updateSingleNodeMarker env p ms)"
  unfolding updateSingleNodeMarker_def Let_def markers_ok_def
  by (auto simp: distinct_assoc_put node_position_valid dest!: set_assoc_put_in split: option.split)

lemma markers_ok_update: "markers_ok ms \<Longrightarrow> markers_ok (updateMapMarkers env ps ms)"
proof -
  assume "markers_ok ms"
  then have "markers_ok (fold (updateSingleNodeMarker env) ps ms)" by (rule fold_preserves) (simp add: markers_ok_single)
  then show ?thesis
    unfolding updateMapMarkers_def Let_def markers_ok_def by (auto simp: distinct_map_filter)
qed

definition map_ok :: "map_view \<Rightarrow> bool" where
  "map_ok v \<longleftrightarrow> markers_ok (mapMarkers v) \<and> tiles_ok v"

lemma centre_keeps [simp]:
  "mapMarkers (centerOnLocalNode env z t v) = mapMarkers v" "onMap (centerOnLocalNode env z t v) = onMap v"
  "map_ready (centerOnLocalNode env z t v) = map_ready v" "mapLayerMode (centerOnLocalNode env z t v) = mapLayerMode v"
  by (simp_all add: centerOnLocalNode_def map_toast_def Let_def split: option.split prod.split)

lemma map_ok_centre [simp]: "map_ok (centerOnLocalNode env z t v) = map_ok v"
  by (simp add: map_ok_def tiles_ok_def)

lemma map_ok_same:
  "map_ok v \<Longrightarrow> map_ready w = map_ready v \<Longrightarrow> mapMarkers w = mapMarkers v \<Longrightarrow> onMap w = onMap v \<Longrightarrow> mapLayerMode w = mapLayerMode v \<Longrightarrow> map_ok w"
  by (simp add: map_ok_def tiles_ok_def)

lemma map_ok_show: "map_ok v \<Longrightarrow> map_ok (show_markers env ps v)"
  by (simp add: show_markers_def map_ok_def tiles_ok_def markers_ok_update)

lemma map_ok_known: "map_ok v \<Longrightarrow> map_ok (show_known env v)"
  by (simp add: show_known_def map_ok_show)

lemma map_ok_first: "map_ok v \<Longrightarrow> map_ok (center_first env v)"
  by (auto simp: center_first_def intro: map_ok_same)

lemma tile_modes: "isBaseLayerMode (auto_mode)" "auto_mode \<noteq> []" "tile_layer (auto_mode) = None"
  by code_simp+

text \<open>Choosing a layer leaves that layer and no other on the map, whatever was there before.\<close>

lemma chosen_layer:
  assumes "map_ready v" "w = setMapLayer env mode v"
  shows "\<exists>t. onMap w = [t] \<and>
    (if isBaseLayerMode mode \<or> tile_layer mode = None then t = (if me_online env then theme_tiles (me_light env) else LocalTiles) \<and> mapLayerMode w = auto_mode
     else tile_layer mode = Some t \<and> mapLayerMode w = mode)"
  using assms tile_modes by (auto simp: setMapLayer_def Let_def)

lemma map_ok_layer:
  assumes "map_ready v" "markers_ok (mapMarkers v)"
  shows "map_ok (setMapLayer env mode v)"
proof -
  have "map_ready (setMapLayer env mode v)" "mapMarkers (setMapLayer env mode v) = mapMarkers v"
    using assms(1) by (simp_all add: setMapLayer_def Let_def)
  moreover obtain t where "onMap (setMapLayer env mode v) = [t]"
    "if isBaseLayerMode mode \<or> tile_layer mode = None
     then t = (if me_online env then theme_tiles (me_light env) else LocalTiles) \<and> mapLayerMode (setMapLayer env mode v) = auto_mode
     else tile_layer mode = Some t \<and> mapLayerMode (setMapLayer env mode v) = mode"
    using chosen_layer[OF assms(1) refl] by blast
  ultimately show ?thesis
    using assms(2) by (auto simp: map_ok_def tiles_ok_def theme_tiles_def split: if_splits)
qed

lemma map_ok_choose: "map_ok v \<Longrightarrow> map_ok (setMapLayer env mode v)"
  using map_ok_layer[of v env mode] by (cases "map_ready v") (simp_all add: map_ok_def setMapLayer_def[of _ _ v])

lemma map_ok_init: "map_ok v \<Longrightarrow> map_ok (ensureMapInitialized env v)"
  by (auto simp: ensureMapInitialized_def Let_def map_ok_def[of v] intro!: map_ok_known map_ok_layer)

lemma map_ok_theme: "map_ok v \<Longrightarrow> map_ok (onThemeChanged light v)"
  using tile_modes
  by (auto simp: onThemeChanged_def map_ok_def tiles_ok_def theme_tiles_def add_tiles_def)

lemma map_ok_error: "map_ok v \<Longrightarrow> map_ok (switchToLocalOnAutoError v)"
  using tile_modes
  by (auto simp: switchToLocalOnAutoError_def map_ok_def tiles_ok_def add_tiles_def)

lemma map_ok_one: "map_ok v \<Longrightarrow> map_ok (update_one env p v)"
proof -
  assume v: "map_ok v"
  define w where "w = (if map_ready v then v\<lparr>mapMarkers := updateSingleNodeMarker env p (mapMarkers v)\<rparr> else v)"
  have "map_ok w" using v by (simp add: w_def map_ok_def tiles_ok_def markers_ok_single)
  moreover from this have "map_ok ((centerOnLocalNode env 13 False w)\<lparr>hasInitiallyCentered := True\<rparr>)" by (rule map_ok_same) simp_all
  ultimately show ?thesis unfolding update_one_def Let_def w_def[symmetric] by simp
qed

lemma map_ok_coords: "map_ok v \<Longrightarrow> map_ok (centerMapOnCoords env lat lon zoom v)"
  unfolding centerMapOnCoords_def Let_def by (simp add: map_ok_init map_ok_same[OF map_ok_init[of v env]])

lemma map_ok_item: "map_ok v \<Longrightarrow> map_ok (item_clicked p v)"
  unfolding item_clicked_def Let_def by (auto intro: map_ok_same split: option.split)

lemma map_ok_fields:
  "map_ok v \<Longrightarrow> map_ok (v\<lparr>mapNodesList := xs\<rparr>)" "map_ok v \<Longrightarrow> map_ok (v\<lparr>userInteractedWithMap := b\<rparr>)"
  by (simp_all add: map_ok_def tiles_ok_def)

lemma map_ok_step: "map_ok v \<Longrightarrow> map_ok (map_step e v)"
  unfolding map_step_def Let_def
  by (cases "snd e") (simp_all add: map_ok_init map_ok_theme map_ok_error map_ok_one map_ok_known map_ok_show map_ok_first
    map_ok_choose map_ok_coords map_ok_item map_ok_fields)

interpretation the_map: initial_invariant map_step "\<lambda>_. True" map_ok "new_map saved"
  by unfold_locales (simp_all add: map_ok_step, simp add: map_ok_def markers_ok_def tiles_ok_def new_map_def)

text \<open>
  The map stays consistent. In every run there is at most one marker for a key, every marker has a key and
  stands at a position on the globe other than 0, 0, and once the map is there it shows one layer of tiles: the
  one that was chosen, or in automatic mode that of a theme or the local one, with at most that of one
  theme above the local one.
\<close>

theorem map_stays_consistent:
  assumes "v = fold map_step evs (new_map saved)"
  shows "distinct (map fst (mapMarkers v)) \<and>
    (\<forall>(k, m) \<in> set (mapMarkers v). k \<noteq> [] \<and> isValidCoords (Fin (fst (mk_pos m))) (Fin (snd (mk_pos m)))) \<and>
    (map_ready v \<longrightarrow>
       mapLayerMode v = auto_mode \<and> onMap v \<in> {[DarkTiles], [LightTiles], [LocalTiles], [LocalTiles, DarkTiles], [LocalTiles, LightTiles]} \<or>
       (\<exists>t. tile_layer (mapLayerMode v) = Some t \<and> onMap v = [t]))"
proof -
  have "map_ok v" unfolding assms by (rule the_map.always) (simp add: list_all_iff)
  then show ?thesis unfolding map_ok_def tiles_ok_def markers_ok_def by blast
qed

lemma map_stays_consistent_witness:
  "let v = fold map_step [(sample_map_env, MapIdle), (sample_map_env, LayerClicked (js ''satellite''))] (new_map None)
   in onMap v = [SatelliteTiles]"
proof -
  let ?v = "fold map_step [(sample_map_env, MapIdle), (sample_map_env, LayerClicked (js ''satellite''))] (new_map None)"
  have s: "\<not> isBaseLayerMode (js ''satellite'')" "tile_layer (js ''satellite'') = Some SatelliteTiles" "js ''satellite'' \<noteq> auto_mode"
    "js ''satellite'' \<noteq> []"
    by code_simp+
  define w where "w = map_step (sample_map_env, MapIdle) (new_map None)"
  have "map_ready w" by (simp add: w_def map_step_def ensureMapInitialized_def show_known_def sample_map_env_def setMapLayer_def Let_def)
  moreover have run: "?v = map_step (sample_map_env, LayerClicked (js ''satellite'')) w" by (simp add: w_def)
  ultimately have v: "map_ready ?v" "mapLayerMode ?v = js ''satellite''"
    unfolding run using s by (simp_all add: map_step_def setMapLayer_def Let_def del: js_simps)
  from map_stays_consistent[OF refl, of "[(sample_map_env, MapIdle), (sample_map_env, LayerClicked (js ''satellite''))]" None] v s
  show ?thesis unfolding Let_def by (auto simp del: js_simps)
qed

text \<open>
  After tiles have failed once, a change of theme has no effect in automatic mode any more, even when the mode
  has been chosen again and shows the tiles of a theme.
\<close>

lemma theme_ignored_after_failure:
  assumes "map_ready v" "mapLayerMode v = auto_mode" "me_online env" "\<not> me_light env"
  shows "onMap (fold map_step [(env, TilesFailed DarkTiles), (env, LayerClicked auto_mode), (env', ThemeChanged True)] v) = [DarkTiles]"
  using assms tile_modes
  by (simp add: map_step_def switchToLocalOnAutoError_def setMapLayer_def onThemeChanged_def theme_tiles_def Let_def)

text \<open>A node that is updated alone gets its marker, but the list and its count stay as they were.\<close>

lemma single_update_keeps_list: "mapNodesList (map_step (env, NodeGiven p) v) = mapNodesList v"
  by (simp add: map_step_def update_one_def Let_def centerOnLocalNode_def map_toast_def split: option.split prod.split)

text \<open>Whatever is found for a key is a place on the globe.\<close>

lemma first_some_in: "first_some f xs = Some y \<Longrightarrow> \<exists>x \<in> set xs. f x = Some y"
  by (induction xs) (auto split: option.splits)

lemma local_coordinates_valid:
  "getLocalNodeCoordinates env = Some ((a, b), name, p) \<Longrightarrow> isValidCoords (Fin a) (Fin b)"
  unfolding getLocalNodeCoordinates_def
  by (auto simp: node_position_valid valid_position_def dest!: first_some_in split: option.splits if_splits jnum.splits)

lemma node_coordinates_valid:
  "getNodeCoordinates env key = Some ((a, b), name, p) \<Longrightarrow> isValidCoords (Fin a) (Fin b)"
  unfolding getNodeCoordinates_def Let_def
  by (auto simp: node_position_valid local_coordinates_valid split: option.splits if_splits)

end
