(* ===== verification/MapTrace.thy ===== *)
theory MapTrace
  imports Machine MapMarkers
begin

section \<open>Heat map, traces and routes on the map (modules/map.js)\<close>

text \<open>
  The layer of signal circles with its switch and timer, the panel that traces the way to a node, the
  route of a trace as it is drawn on the map with its figures, and the line of a direct ping. Requests are
  answered in any order, or never. Points, hops and metrics have the shape that the bridge gives them:
  lists of objects, with numbers for positions and texts for keys and names.
\<close>

subsection \<open>The heat map\<close>

datatype signal_grade = GradeExcellent | GradeGood | GradeMarginal | GradeWeak

record heat_circle =
  hc_at :: "jsval \<times> jsval"
  hc_radius :: jnum
  hc_grade :: signal_grade
  hc_rssi :: "jstr option"
  hc_snr :: "jstr option"
  hc_noise :: "jstr option"
  hc_role :: jsval

definition or_number :: "rat \<Rightarrow> jsval \<Rightarrow> jnum" where
  "or_number d v = (if is_nullish v then Fin d else to_number v)"

definition heat_radius :: "jnum \<Rightarrow> jnum" where
  "heat_radius rssi = jmax (Fin 500) (jmin (Fin 3500) (num_map (\<lambda>x. (x + 135) * 45) rssi))"

definition heat_grade :: "jnum \<Rightarrow> bool \<Rightarrow> signal_grade" where
  "heat_grade rssi station =
     (if jle (Fin (- 75)) rssi \<or> station \<and> jle (Fin (- 85)) rssi then GradeExcellent
      else if jle (Fin (- 95)) rssi then GradeGood else if jle (Fin (- 110)) rssi then GradeMarginal else GradeWeak)"

definition signed_text :: "jnum \<Rightarrow> jstr" where
  "signed_text n = (if jlt (Fin 0) n then [0x2B] else []) @ fixed_str 1 n @ js '' dB''"

definition heat_circle_of :: "jsval \<Rightarrow> heat_circle" where
  "heat_circle_of pt =
     (let g = (\<lambda>k. getp pt (js k)); rssi = or_number (- 100) (g ''rssi''); station = truthy (g ''is_local'') in
      \<lparr>hc_at = (g ''lat'', g ''lon''), hc_radius = heat_radius rssi, hc_grade = heat_grade rssi station,
       hc_rssi = (if is_nullish (g ''rssi'') then None else Some (num_str (num_map (\<lambda>x. of_int (js_round x)) rssi) @ js '' dBm'')),
       hc_snr = (if is_nullish (g ''snr'') then None else Some (signed_text (to_number (g ''snr'')))),
       hc_noise = with_unit (g ''noise_floor'') '' dBm'',
       hc_role = js_or (g ''role'') (Str (js (if station then ''LOCAL'' else ''CLIENT'')))\<rparr>)"

text \<open>A circle has between half a kilometre and three and a half, unless the signal is no number.\<close>

lemma heat_radius_bounds: "heat_radius n = Fin r \<Longrightarrow> 500 \<le> r \<and> r \<le> 3500"
  by (cases n) (auto simp: heat_radius_def jmax_def jmin_def split: if_splits)

lemma heat_radius_number: "heat_radius n = NaN \<longleftrightarrow> n = NaN" "n \<noteq> NaN \<Longrightarrow> \<exists>r. heat_radius n = Fin r"
  by (cases n; simp add: heat_radius_def jmax_def jmin_def)+

record heat_map =
  hm_ready :: bool
  rfHeatmapActive :: bool
  heatmapGeneration :: nat
  rfHeatmapInterval :: bool
  heat_circles :: "heat_circle list"
  heat_calls :: "(nat \<times> nat \<times> bool) list"
  heat_next :: nat
  heat_toasts :: "string list"

text \<open>A request carries its generation and whether it was made by the switch, which sets the timer afterwards.\<close>

definition refreshRfHeatmap :: "bool \<Rightarrow> heat_map \<Rightarrow> heat_map" where
  "refreshRfHeatmap switched h =
     (if \<not> hm_ready h \<or> \<not> rfHeatmapActive h then h
      else h\<lparr>heat_calls := heat_calls h @ [(heat_next h, heatmapGeneration h, switched)], heat_next := heat_next h + 1\<rparr>)"

definition heat_toast :: "string \<Rightarrow> heat_map \<Rightarrow> heat_map" where
  "heat_toast t h = h\<lparr>heat_toasts := heat_toasts h @ [t]\<rparr>"

definition setRfHeatmap :: "bool \<Rightarrow> heat_map \<Rightarrow> heat_map" where
  "setRfHeatmap active h =
     (if \<not> hm_ready h then h
      else let h1 = h\<lparr>heatmapGeneration := heatmapGeneration h + 1, rfHeatmapActive := active\<rparr> in
        if active then refreshRfHeatmap True h1
        else heat_toast ''toast.heatmap_off'' (h1\<lparr>heat_circles := [], rfHeatmapInterval := False\<rparr>))"

definition heat_current :: "nat \<Rightarrow> heat_map \<Rightarrow> bool" where
  "heat_current g h \<longleftrightarrow> rfHeatmapActive h \<and> g = heatmapGeneration h"

definition heat_answered :: "nat \<Rightarrow> bool \<Rightarrow> jsval option \<Rightarrow> heat_map \<Rightarrow> heat_map" where
  "heat_answered g switched reply h =
     (if \<not> heat_current g h then h
      else let h1 =
          (case reply of
             None \<Rightarrow> if switched then heat_toast ''toast.heatmap_err'' h else h
           | Some d \<Rightarrow>
               (case (getp d (js ''status'') = Str (js ''ok''), getp (getp d (js ''data'')) (js ''points'')) of
                  (True, Arr pts) \<Rightarrow>
                    (let h2 = h\<lparr>heat_circles := map heat_circle_of pts\<rparr> in if switched then heat_toast ''toast.heatmap_on'' h2 else h2)
                | _ \<Rightarrow> h))
        in if switched then h1\<lparr>rfHeatmapInterval := True\<rparr> else h1)"

datatype heat_event = HeatSwitched bool | HeatTick bool | HeatAnswered nat "jsval option"

text \<open>The timer ticks only while it is set; the page is visible and shows the map or not.\<close>

definition heat_step :: "heat_event \<Rightarrow> heat_map \<Rightarrow> heat_map" where
  "heat_step ev h =
     (case ev of
        HeatSwitched b \<Rightarrow> setRfHeatmap b h
      | HeatTick looking \<Rightarrow> if rfHeatmapInterval h \<and> looking then refreshRfHeatmap False h else h
      | HeatAnswered n reply \<Rightarrow>
          (case map_of (heat_calls h) n of
             None \<Rightarrow> h
           | Some (g, switched) \<Rightarrow> heat_answered g switched reply (h\<lparr>heat_calls := assoc_del n (heat_calls h)\<rparr>)))"

definition new_heat_map :: "bool \<Rightarrow> heat_map" where
  "new_heat_map ready =
     \<lparr>hm_ready = ready, rfHeatmapActive = False, heatmapGeneration = 0, rfHeatmapInterval = False, heat_circles = [],
      heat_calls = [], heat_next = 0, heat_toasts = []\<rparr>"

definition heat_ok :: "heat_map \<Rightarrow> bool" where
  "heat_ok h \<longleftrightarrow> (\<not> rfHeatmapActive h \<longrightarrow> heat_circles h = [] \<and> \<not> rfHeatmapInterval h) \<and>
     (\<forall>(n, g, s) \<in> set (heat_calls h). g \<le> heatmapGeneration h \<and> n < heat_next h)"

lemma heat_answered_ok: "heat_ok h \<Longrightarrow> heat_ok (heat_answered g s r h)"
  by (auto simp: heat_answered_def heat_ok_def heat_current_def heat_toast_def Let_def split: option.split jsval.split bool.split)

interpretation heat: initial_invariant heat_step "\<lambda>_. True" heat_ok "new_heat_map ready"
proof unfold_locales
  show "heat_ok (new_heat_map ready)" by (simp add: heat_ok_def new_heat_map_def)
  fix h ev assume h: "heat_ok h"
  have "heat_ok (h\<lparr>heat_calls := assoc_del n (heat_calls h)\<rparr>)" for n using h by (auto simp: heat_ok_def assoc_del_def)
  then show "heat_ok (heat_step ev h)"
    using h by (auto simp: heat_step_def heat_answered_ok split: heat_event.split option.split)
      (auto simp: heat_ok_def setRfHeatmap_def refreshRfHeatmap_def heat_toast_def Let_def)
qed

text \<open>The answer to a request of an earlier switch changes nothing that is shown.\<close>

definition heat_overtaken :: "nat \<Rightarrow> heat_map \<Rightarrow> bool" where
  "heat_overtaken n h \<longleftrightarrow>
     n < heat_next h \<and>
     (case map_of (heat_calls h) n of None \<Rightarrow> True | Some (g, s) \<Rightarrow> g < heatmapGeneration h \<or> g = heatmapGeneration h \<and> \<not> rfHeatmapActive h)"

lemma heat_answered_fields [simp]:
  "heat_calls (heat_answered g s r h) = heat_calls h" "heat_next (heat_answered g s r h) = heat_next h"
  "heatmapGeneration (heat_answered g s r h) = heatmapGeneration h" "rfHeatmapActive (heat_answered g s r h) = rfHeatmapActive h"
  by (simp_all add: heat_answered_def heat_toast_def Let_def split: option.split jsval.split bool.split)

lemma heat_refresh_overtaken: "heat_overtaken n h \<Longrightarrow> heat_overtaken n (refreshRfHeatmap s h)"
  by (auto simp: heat_overtaken_def refreshRfHeatmap_def map_add_def split: option.splits)

lemma heat_switch_overtaken: "heat_overtaken n h \<Longrightarrow> heat_overtaken n (setRfHeatmap b h)"
proof -
  assume n: "heat_overtaken n h"
  then have "heat_overtaken n (h\<lparr>heatmapGeneration := heatmapGeneration h + 1, rfHeatmapActive := True\<rparr>)"
    by (auto simp: heat_overtaken_def split: option.splits)
  from heat_refresh_overtaken[OF this] have on: "b \<Longrightarrow> heat_overtaken n (setRfHeatmap b h)"
    using n by (simp add: setRfHeatmap_def)
  have "\<not> b \<Longrightarrow> heat_overtaken n (setRfHeatmap b h)"
    using n by (auto simp: setRfHeatmap_def heat_toast_def heat_overtaken_def split: option.splits)
  with on show ?thesis by blast
qed

interpretation late_heat: overtaken_calls heat_step heat_overtaken "\<lambda>n ev. \<exists>r. ev = HeatAnswered n r"
  "\<lambda>h. (heat_circles h, rfHeatmapInterval h, heat_toasts h)"
proof unfold_locales
  fix n h ev assume n: "heat_overtaken n h"
  show "heat_overtaken n (heat_step ev h)"
  proof (cases ev)
    case (HeatAnswered m r)
    then show ?thesis using n by (auto simp: heat_step_def heat_overtaken_def map_of_assoc_del split: option.splits)
  qed (simp_all add: heat_step_def n heat_refresh_overtaken heat_switch_overtaken)
  assume "\<exists>r. ev = HeatAnswered n r"
  then show "(heat_circles (heat_step ev h), rfHeatmapInterval (heat_step ev h), heat_toasts (heat_step ev h)) =
      (heat_circles h, rfHeatmapInterval h, heat_toasts h)"
    using n by (auto simp: heat_step_def heat_overtaken_def heat_answered_def heat_current_def split: option.splits)
qed



subsection \<open>Hops\<close>

definition hops_of :: "jsval \<Rightarrow> props list" where
  "hops_of trace =
     (case getp trace (js ''hops_breakdown'') of Arr xs \<Rightarrow> map (\<lambda>x. case x of Obj p \<Rightarrow> p | _ \<Rightarrow> []) xs | _ \<Rightarrow> [])"

datatype hop_mark = HopStart | HopRepeater | HopTarget

record graph_node =
  gn_mark :: hop_mark
  gn_name :: jstr
  gn_snr :: "jstr option"

definition key_start :: "jsval \<Rightarrow> jstr" where
  "key_start v = take 8 (to_string v)"

definition renderTracerouteGraph :: "props list \<Rightarrow> graph_node list" where
  "renderTracerouteGraph hops =
     map (\<lambda>(i, hop).
       \<lparr>gn_mark = (if i = 0 then HopStart else if i = length hops - 1 then HopTarget else HopRepeater),
        gn_name = to_string (js_or (fld hop ''name'')
          (Str (if truthy (fld hop ''pubkey'') then key_start (fld hop ''pubkey'') else js ''Hop '' @ nat_str i))),
        gn_snr = with_unit (fld hop ''snr'') '' dB''\<rparr>) (zip [0..<length hops] hops)"

record hop_row =
  hr_index :: jstr
  hr_key :: "jstr option"
  hr_name :: jstr
  hr_role :: jstr
  hr_snr :: "jstr option"
  hr_rtt :: "jstr option"

definition finite_text :: "jsval \<Rightarrow> string \<Rightarrow> jstr option" where
  "finite_text v u =
     (if is_nullish v then None else if finite_num (to_number v) then Some (num_str (to_number v) @ js u) else None)"

definition renderTracerouteTable :: "map_env \<Rightarrow> props list \<Rightarrow> hop_row list" where
  "renderTracerouteTable env hops =
     map (\<lambda>(i, hop). let key = to_string (js_or (fld hop ''pubkey'') (Str [])) in
       \<lparr>hr_index = 0x23 # (if is_integer (fld hop ''hop_index'') then to_string (fld hop ''hop_index'') else nat_str i),
        hr_key = (if key = [] then None else Some (take 8 key)),
        hr_name = to_string (js_or (fld hop ''name'') (Str (map_word env ''common.node''))),
        hr_role = role_text (me_dict env) (me_lang env) (js_or (fld hop ''role'') (Str (js ''UNKNOWN''))),
        hr_snr = finite_text (fld hop ''snr'') '' dB'', hr_rtt = finite_text (fld hop ''rtt_ms'') '' ms''\<rparr>)
       (zip [0..<length hops] hops)"

subsection \<open>The route of a trace on the map\<close>

record route_hop =
  rh_hop :: props
  rh_pos :: "rat \<times> rat"
  rh_name :: jstr

datatype link_colour = LinkGood | LinkFair | LinkBad

record route_link =
  rl_from :: "rat \<times> rat"
  rl_to :: "rat \<times> rat"
  rl_colour :: link_colour
  rl_broken :: bool
  rl_snr :: "jstr option"

datatype route_mark = RouteStart | RouteLost | RouteTarget | RouteVia nat

record route_hud =
  hud_target :: jstr
  hud_hops :: jstr
  hud_rtt :: "jstr option"
  hud_snr :: "jstr option"
  hud_broken :: "jstr option"
  hud_no_gps :: nat
  hud_hop1 :: "(jstr \<times> jstr) option"

definition hop_position :: "map_env \<Rightarrow> nat \<Rightarrow> props \<Rightarrow> ((rat \<times> rat) \<times> jstr \<times> props option) option" where
  "hop_position env i hop =
     (if i = 0 then getLocalNodeCoordinates env
      else getNodeCoordinates env (js_or (fld hop ''pubkey'') (js_or (fld hop ''key'') (fld hop ''name''))))"

definition positioned_hops :: "map_env \<Rightarrow> props list \<Rightarrow> route_hop list" where
  "positioned_hops env hops =
     concat (map (\<lambda>(i, hop). case hop_position env i hop of
         Some (pos, name, _) \<Rightarrow> [\<lparr>rh_hop = hop, rh_pos = pos, rh_name = to_string (js_or (Str name) (fld hop ''name''))\<rparr>] | None \<Rightarrow> [])
       (zip [0..<length hops] hops))"

definition unpositioned_hops :: "map_env \<Rightarrow> props list \<Rightarrow> nat list" where
  "unpositioned_hops env hops = map fst (filter (\<lambda>(i, hop). hop_position env i hop = None) (zip [0..<length hops] hops))"

definition trace_lost :: "jsval \<Rightarrow> bool" where
  "trace_lost trace \<longleftrightarrow> truthy (getp trace (js ''timeout'')) \<or> getp trace (js ''status'') = Str (js ''error'')"

definition link_snr :: "props \<Rightarrow> props \<Rightarrow> jnum option" where
  "link_snr a b =
     (if \<not> is_nullish (fld b ''snr'') then Some (to_number (fld b ''snr''))
      else if \<not> is_nullish (fld a ''snr'') then Some (to_number (fld a ''snr'')) else None)"

definition link_colour_of :: "jnum option \<Rightarrow> link_colour" where
  "link_colour_of s =
     (case s of None \<Rightarrow> LinkBad | Some n \<Rightarrow> if jlt n (Fin (- 5)) then LinkBad else if jlt n (Fin 2) then LinkFair else LinkGood)"

definition route_links :: "jsval \<Rightarrow> route_hop list \<Rightarrow> route_link list" where
  "route_links trace hs =
     (let failed = js_or (getp trace (js ''failed_at_hop'')) (Num (Fin (of_nat (length (hops_of trace)) - 1))) in
      map (\<lambda>i. let a = hs ! i; b = hs ! (i + 1); s = link_snr (rh_hop a) (rh_hop b);
                   broken = (trace_lost trace \<and>
                     (i + 2 = length hs \<or> jle (to_number failed) (to_number (fld (rh_hop b) ''hop_index''))))
               in \<lparr>rl_from = rh_pos a, rl_to = rh_pos b, rl_colour = (if broken then LinkBad else link_colour_of s),
                   rl_broken = broken, rl_snr = map_option signed_text s\<rparr>) [0..<length hs - 1])"

definition route_mark_of :: "jsval \<Rightarrow> nat \<Rightarrow> nat \<Rightarrow> route_mark" where
  "route_mark_of trace n i =
     (if i = 0 then RouteStart else if i + 1 = n then (if trace_lost trace then RouteLost else RouteTarget) else RouteVia i)"

definition renderRouteHud :: "jstr \<Rightarrow> jsval \<Rightarrow> nat list \<Rightarrow> route_hud" where
  "renderRouteHud selected trace missing =
     (let g = (\<lambda>k. getp trace (js k)); hops = hops_of trace;
          snr = nullish (g ''snr_there'') (nullish (g ''snr_back'') (if 1 < length hops then fld (hops ! 1) ''snr'' else Undefined)) in
      \<lparr>hud_target = (if truthy (g ''target_node'') then (if selected \<noteq> [] then selected else key_start (g ''target_node'')) else js ''Destino''),
       hud_hops = (if is_nullish (g ''total_hops'') then (case g ''path'' of Arr xs \<Rightarrow> nat_str (length xs) | Str s \<Rightarrow> nat_str (length s) | _ \<Rightarrow> js ''0'')
                   else to_string (g ''total_hops'')),
       hud_rtt = with_unit (g ''total_rtt_ms'') '' ms'',
       hud_snr = (if is_nullish snr then None else Some (signed_text (to_number snr))),
       hud_broken = (if trace_lost trace then Some (to_string (js_or (g ''message'') (Str (js ''Ruta interrumpida sin respuesta'')))) else None),
       hud_no_gps = length missing,
       hud_hop1 = (if trace_lost trace \<and> truthy (g ''first_hop'')
                   then Some (to_string (g ''first_hop''), to_string (js_or (g ''first_hop_name'') (Str (key_start (g ''first_hop''))))) else None)\<rparr>)"

record drawn_route =
  dr_trace :: jsval
  dr_links :: "route_link list"
  dr_marks :: "(route_mark \<times> (rat \<times> rat) \<times> jstr) list"

definition route_marks :: "jsval \<Rightarrow> route_hop list \<Rightarrow> (route_mark \<times> (rat \<times> rat) \<times> jstr) list" where
  "route_marks trace hs = map (\<lambda>(i, h). (route_mark_of trace (length hs) i, rh_pos h, rh_name h)) (zip [0..<length hs] hs)"

definition draw_route :: "map_env \<Rightarrow> jsval \<Rightarrow> drawn_route" where
  "draw_route env trace =
     (let hs = positioned_hops env (hops_of trace) in
      \<lparr>dr_trace = trace, dr_links = route_links trace hs, dr_marks = route_marks trace hs\<rparr>)"

subsection \<open>The line of a direct ping\<close>

record ping_line =
  pl_from :: "rat \<times> rat"
  pl_to :: "rat \<times> rat"
  pl_colour :: link_colour
  pl_rtt :: "jstr option"
  pl_back :: "jstr option"
  pl_there :: "jstr option"
  pl_rssi :: "jstr option"

definition drawDirectPingVector :: "map_env \<Rightarrow> jsval \<Rightarrow> jsval \<Rightarrow> ping_line option" where
  "drawDirectPingVector env target metrics =
     (case (getLocalNodeCoordinates env, getNodeCoordinates env target) of
        (Some (a, _), Some (b, _)) \<Rightarrow>
          (let g = (\<lambda>k. getp metrics (js k)); back = nullish (g ''snr_back'') (g ''snr'') in
           Some \<lparr>pl_from = a, pl_to = b,
                 pl_colour = (if \<not> is_nullish back \<and> jlt (to_number back) (Fin (- 5)) then LinkBad
                              else if \<not> is_nullish back \<and> jlt (to_number back) (Fin 2) then LinkFair else LinkGood),
                 pl_rtt = with_unit (g ''rtt_ms'') '' ms'', pl_back = with_unit back '' dB'',
                 pl_there = with_unit (nullish (g ''snr_there'') back) '' dB'', pl_rssi = with_unit (g ''rssi'') '' dBm''\<rparr>)
      | _ \<Rightarrow> None)"

subsection \<open>The panel that traces\<close>

datatype trace_status = TraceReady | TraceRunning | TraceDone jsval jsval | TraceFailed | TraceOffline

record trace_panel =
  selectedTraceTarget :: jstr
  selectedTraceName :: jstr
  traceGeneration :: nat
  tracePanelHidden :: bool
  traceStatus :: trace_status
  traceBusy :: bool
  tracePath :: jstr
  traceGraph :: "graph_node list"
  traceRows :: "hop_row list"
  lastTraceHops :: "props list option"
  lastTraceData :: "jsval option"
  plotEnabled :: bool
  failureHint :: "jstr option"
  pingHop1 :: "(jstr \<times> jstr) option"
  shownRoute :: "drawn_route option"
  routeVisible :: bool
  routeLayer :: "bool option"
  routeHud :: "route_hud option"
  pingLine :: "ping_line option"
  trace_calls :: "(nat \<times> nat \<times> jstr) list"
  trace_next :: nat
  trace_sent :: "(jstr \<times> jstr) list"
  trace_toasts :: "string list"

definition trace_toast :: "string \<Rightarrow> trace_panel \<Rightarrow> trace_panel" where
  "trace_toast t p = p\<lparr>trace_toasts := trace_toasts p @ [t]\<rparr>"

definition openTracerouteModal :: "map_env \<Rightarrow> jstr \<Rightarrow> jstr \<Rightarrow> trace_panel \<Rightarrow> trace_panel" where
  "openTracerouteModal env target name p =
     p\<lparr>traceGeneration := traceGeneration p + 1, lastTraceHops := None, selectedTraceTarget := target,
       selectedTraceName := (if name \<noteq> [] then name else if target \<noteq> [] then take 8 target else map_word env ''common.node''),
       tracePath := [], traceBusy := False, traceStatus := TraceReady, traceGraph := [], traceRows := [], tracePanelHidden := False\<rparr>"

definition trace_current :: "nat \<Rightarrow> jstr \<Rightarrow> trace_panel \<Rightarrow> bool" where
  "trace_current g target p \<longleftrightarrow> g = traceGeneration p \<and> selectedTraceTarget p = target \<and> \<not> tracePanelHidden p"

definition executeTraceroute :: "trace_panel \<Rightarrow> trace_panel" where
  "executeTraceroute p =
     (if selectedTraceTarget p = [] then p
      else p\<lparr>traceStatus := TraceRunning, traceBusy := True,
             trace_calls := trace_calls p @ [(trace_next p, traceGeneration p, selectedTraceTarget p)], trace_next := trace_next p + 1,
             trace_sent := trace_sent p @ [(selectedTraceTarget p, trim (tracePath p))]\<rparr>)"

definition show_hops :: "map_env \<Rightarrow> props list \<Rightarrow> trace_panel \<Rightarrow> trace_panel" where
  "show_hops env hops p =
     p\<lparr>lastTraceHops := Some hops, traceGraph := renderTracerouteGraph hops, traceRows := renderTracerouteTable env hops\<rparr>"

definition trace_succeeded :: "map_env \<Rightarrow> jsval \<Rightarrow> trace_panel \<Rightarrow> trace_panel" where
  "trace_succeeded env trace p =
     trace_toast ''toast.trace_completed'' (show_hops env (hops_of trace)
       (p\<lparr>lastTraceData := Some trace, plotEnabled := True, failureHint := None, pingHop1 := None,
          traceStatus := TraceDone (js_or (getp trace (js ''total_hops'')) (Num (Fin 0))) (js_or (getp trace (js ''total_rtt_ms'')) (Num (Fin 0)))\<rparr>))"

definition trace_refused :: "map_env \<Rightarrow> jsval \<Rightarrow> trace_panel \<Rightarrow> trace_panel" where
  "trace_refused env d p =
     (let trace = js_or (getp d (js ''data'')) d; hops = hops_of trace; hop1 = getp trace (js ''first_hop'');
          p1 = p\<lparr>lastTraceData := Some trace\<rparr>;
          p2 = (if hops \<noteq> [] then (show_hops env hops p1)\<lparr>plotEnabled := True\<rparr> else p1);
          p3 = (if truthy hop1
                then p2\<lparr>pingHop1 := Some (to_string hop1, to_string (js_or (getp trace (js ''first_hop_name'')) (Str (key_start hop1))))\<rparr> else p2)
      in trace_toast ''toast.trace_err''
           (p3\<lparr>failureHint := Some (to_string (js_or (getp d (js ''message'')) (Str (js ''Timeout de respuesta'')))), traceStatus := TraceFailed\<rparr>))"

text \<open>An answer that is no longer current is dropped; otherwise the button is free again afterwards.\<close>

definition trace_answered :: "map_env \<Rightarrow> nat \<Rightarrow> jstr \<Rightarrow> jsval option \<Rightarrow> trace_panel \<Rightarrow> trace_panel" where
  "trace_answered env g target reply p =
     (if \<not> trace_current g target p then p
      else (case reply of
              None \<Rightarrow> trace_toast ''toast.net_err'' (p\<lparr>traceStatus := TraceOffline\<rparr>)
            | Some d \<Rightarrow>
                if getp d (js ''status'') = Str (js ''ok'') \<and> truthy (getp d (js ''data'')) then trace_succeeded env (getp d (js ''data'')) p
                else trace_refused env d p)\<lparr>traceBusy := False\<rparr>)"

text \<open>
  The layer of the route is put on the map when it is made; later it is only emptied. Whether it is on the
  map is kept apart from the flag that the button goes by.
\<close>

definition drawTraceroutePath :: "map_env \<Rightarrow> jsval \<Rightarrow> trace_panel \<Rightarrow> trace_panel" where
  "drawTraceroutePath env trace p =
     (if \<not> truthy trace then p
      else let p1 = p\<lparr>routeVisible := True, routeLayer := Some (case routeLayer p of None \<Rightarrow> True | Some b \<Rightarrow> b), shownRoute := None\<rparr> in
        if hops_of trace = [] then p1
        else p1\<lparr>shownRoute := Some (draw_route env trace),
                routeHud := Some (renderRouteHud (selectedTraceName p) trace (unpositioned_hops env (hops_of trace)))\<rparr>)"

definition clearTraceroutePath :: "trace_panel \<Rightarrow> trace_panel" where
  "clearTraceroutePath p = p\<lparr>shownRoute := None, routeHud := None\<rparr>"

definition toggleRouteVisibility :: "trace_panel \<Rightarrow> trace_panel" where
  "toggleRouteVisibility p =
     (if routeLayer p = None then p else p\<lparr>routeVisible := \<not> routeVisible p, routeLayer := Some (\<not> routeVisible p)\<rparr>)"

definition show_ping :: "map_env \<Rightarrow> jsval \<Rightarrow> jsval \<Rightarrow> trace_panel \<Rightarrow> trace_panel" where
  "show_ping env target metrics p =
     (if \<not> truthy target then p
      else case drawDirectPingVector env target metrics of
        Some l \<Rightarrow> p\<lparr>pingLine := Some l\<rparr>
      | None \<Rightarrow> trace_toast ''ping without position'' (p\<lparr>pingLine := None\<rparr>))"

datatype trace_event =
    TraceOpened jstr jstr
  | TraceHideEvent
  | TraceClosed
  | PathTyped jstr
  | TraceExecuted
  | TraceAnswered nat "jsval option"
  | PlotClicked
  | RouteGiven jsval
  | RouteCleared
  | RouteToggled
  | PingShown jsval jsval
  | PingCleared
  | TraceLanguageChanged

definition trace_step :: "map_env \<times> trace_event \<Rightarrow> trace_panel \<Rightarrow> trace_panel" where
  "trace_step e p =
     (let env = fst e in
      case snd e of
        TraceOpened target name \<Rightarrow> openTracerouteModal env target name p
      | TraceHideEvent \<Rightarrow> p\<lparr>traceGeneration := traceGeneration p + 1\<rparr>
      | TraceClosed \<Rightarrow> p\<lparr>tracePanelHidden := True\<rparr>
      | PathTyped s \<Rightarrow> p\<lparr>tracePath := s\<rparr>
      | TraceExecuted \<Rightarrow> if traceBusy p then p else executeTraceroute p
      | TraceAnswered n reply \<Rightarrow>
          (case map_of (trace_calls p) n of
             None \<Rightarrow> p
           | Some (g, target) \<Rightarrow> trace_answered env g target reply (p\<lparr>trace_calls := assoc_del n (trace_calls p)\<rparr>))
      | PlotClicked \<Rightarrow>
          (if \<not> plotEnabled p then p
           else let p1 = p\<lparr>tracePanelHidden := True\<rparr> in case lastTraceData p of Some d \<Rightarrow> drawTraceroutePath env d p1 | None \<Rightarrow> p1)
      | RouteGiven trace \<Rightarrow> drawTraceroutePath env trace p
      | RouteCleared \<Rightarrow> clearTraceroutePath p
      | RouteToggled \<Rightarrow> toggleRouteVisibility p
      | PingShown target metrics \<Rightarrow> show_ping env target metrics p
      | PingCleared \<Rightarrow> p\<lparr>pingLine := None\<rparr>
      | TraceLanguageChanged \<Rightarrow> (case lastTraceHops p of Some hops \<Rightarrow> show_hops env hops p | None \<Rightarrow> p))"

definition new_trace_panel :: trace_panel where
  "new_trace_panel =
     \<lparr>selectedTraceTarget = [], selectedTraceName = [], traceGeneration = 0, tracePanelHidden = True, traceStatus = TraceReady,
      traceBusy = False, tracePath = [], traceGraph = [], traceRows = [], lastTraceHops = None, lastTraceData = None,
      plotEnabled = False, failureHint = None, pingHop1 = None, shownRoute = None, routeVisible = False, routeLayer = None,
      routeHud = None, pingLine = None, trace_calls = [], trace_next = 0, trace_sent = [], trace_toasts = []\<rparr>"

subsection \<open>Every hop is drawn or counted\<close>

lemma hops_drawn_or_counted: "length (positioned_hops env hops) + length (unpositioned_hops env hops) = length hops"
proof -
  have "length (concat (map (\<lambda>(i, hop). case hop_position env i hop of
         Some (pos, name, _) \<Rightarrow> [\<lparr>rh_hop = hop, rh_pos = pos, rh_name = to_string (js_or (Str name) (fld hop ''name''))\<rparr>] | None \<Rightarrow> []) xs)) +
       length (filter (\<lambda>(i, hop). hop_position env i hop = None) xs) = length xs" for xs
    by (induction xs) (auto split: option.split)
  from this[of "zip [0..<length hops] hops"] show ?thesis by (simp add: positioned_hops_def unpositioned_hops_def)
qed

text \<open>The links follow one another from the first position to the last; a lost trace has its last link broken.\<close>

lemma links_join:
  "i + 1 < length (route_links trace hs) \<Longrightarrow> rl_to (route_links trace hs ! i) = rl_from (route_links trace hs ! (i + 1))"
  by (simp add: route_links_def Let_def)

lemma lost_trace_breaks_last:
  assumes "2 \<le> length hs"
  shows "rl_broken (last (route_links trace hs)) = trace_lost trace" "rl_to (last (route_links trace hs)) = rh_pos (last hs)"
proof -
  obtain m where m: "length hs = 2 + m" using le_Suc_ex[OF assms] by blast
  have "hs \<noteq> []" using assms by auto
  then show "rl_broken (last (route_links trace hs)) = trace_lost trace" "rl_to (last (route_links trace hs)) = rh_pos (last hs)"
    by (simp_all add: route_links_def Let_def last_map last_conv_nth[of hs] m)
qed

subsection \<open>Late answers\<close>

definition trace_overtaken :: "nat \<Rightarrow> trace_panel \<Rightarrow> bool" where
  "trace_overtaken n p \<longleftrightarrow>
     n < trace_next p \<and>
     (case map_of (trace_calls p) n of None \<Rightarrow> True | Some (g, t) \<Rightarrow> g < traceGeneration p \<or> g = traceGeneration p \<and> tracePanelHidden p)"

definition trace_seen :: "trace_panel \<Rightarrow> trace_panel" where
  "trace_seen p = p\<lparr>trace_calls := []\<rparr>"

lemma trace_answered_fields [simp]:
  "trace_calls (trace_answered env g t r p) = trace_calls p" "trace_next (trace_answered env g t r p) = trace_next p"
  "traceGeneration (trace_answered env g t r p) = traceGeneration p" "tracePanelHidden (trace_answered env g t r p) = tracePanelHidden p"
  by (simp_all add: trace_answered_def trace_succeeded_def trace_refused_def show_hops_def trace_toast_def Let_def split: option.split)

lemma drawing_fields [simp]:
  "trace_calls (drawTraceroutePath env t p) = trace_calls p" "trace_next (drawTraceroutePath env t p) = trace_next p"
  "traceGeneration (drawTraceroutePath env t p) = traceGeneration p" "tracePanelHidden (drawTraceroutePath env t p) = tracePanelHidden p"
  by (simp_all add: drawTraceroutePath_def Let_def)

lemma pinging_fields [simp]:
  "trace_calls (show_ping env t m p) = trace_calls p" "trace_next (show_ping env t m p) = trace_next p"
  "traceGeneration (show_ping env t m p) = traceGeneration p" "tracePanelHidden (show_ping env t m p) = tracePanelHidden p"
  by (simp_all add: show_ping_def trace_toast_def split: option.split)

lemma trace_overtaken_cong:
  "trace_overtaken n p \<Longrightarrow> trace_calls q = trace_calls p \<Longrightarrow> trace_next q = trace_next p \<Longrightarrow> traceGeneration p \<le> traceGeneration q \<Longrightarrow>
   traceGeneration q = traceGeneration p \<longrightarrow> tracePanelHidden p \<longrightarrow> tracePanelHidden q \<Longrightarrow> trace_overtaken n q"
  by (auto simp: trace_overtaken_def split: option.splits)

lemma trace_overtaken_answered:
  assumes "trace_overtaken n p"
  shows "trace_overtaken n (trace_step (env, TraceAnswered m r) p)"
  using assms by (auto simp: trace_step_def trace_overtaken_def map_of_assoc_del split: option.splits)

lemma trace_overtaken_executed:
  assumes "trace_overtaken n p"
  shows "trace_overtaken n (executeTraceroute p)"
  using assms by (auto simp: executeTraceroute_def trace_overtaken_def map_add_def split: option.splits)

lemma trace_overtaken_step: "trace_overtaken n p \<Longrightarrow> trace_overtaken n (trace_step e p)"
proof -
  assume n: "trace_overtaken n p"
  note same = trace_overtaken_cong[OF n]
  obtain env ev where e: "e = (env, ev)" by (cases e)
  show ?thesis
  proof (cases ev)
    case (TraceAnswered m r)
    then show ?thesis using n by (simp add: e trace_overtaken_answered)
  next
    case TraceExecuted
    then show ?thesis using n by (simp add: e trace_step_def trace_overtaken_executed)
  qed (simp_all add: e trace_step_def same openTracerouteModal_def clearTraceroutePath_def toggleRouteVisibility_def show_hops_def Let_def
      split: option.split)
qed

interpretation late_trace: overtaken_calls trace_step trace_overtaken "\<lambda>n e. \<exists>r. snd e = TraceAnswered n r" trace_seen
proof unfold_locales
  fix n p e assume n: "trace_overtaken n p"
  then show "trace_overtaken n (trace_step e p)" by (rule trace_overtaken_step)
  assume "\<exists>r. snd e = TraceAnswered n r"
  then show "trace_seen (trace_step e p) = trace_seen p"
    using n by (auto simp: trace_step_def trace_overtaken_def trace_answered_def trace_current_def trace_seen_def split: option.splits)
qed

definition traces_ok :: "trace_panel \<Rightarrow> bool" where
  "traces_ok p \<longleftrightarrow>
     (\<forall>(n, g, t) \<in> set (trace_calls p). n < trace_next p \<and> g \<le> traceGeneration p \<and> (g = traceGeneration p \<longrightarrow> t = selectedTraceTarget p))"

lemma traces_ok_cong:
  "traces_ok p \<Longrightarrow> set (trace_calls q) \<subseteq> set (trace_calls p) \<Longrightarrow> trace_next q = trace_next p \<Longrightarrow>
   traceGeneration p < traceGeneration q \<or> traceGeneration q = traceGeneration p \<and> selectedTraceTarget q = selectedTraceTarget p \<Longrightarrow> traces_ok q"
  by (fastforce simp: traces_ok_def)

lemma target_fields [simp]:
  "selectedTraceTarget (trace_answered env g t r p) = selectedTraceTarget p" "selectedTraceTarget (drawTraceroutePath env tr p) = selectedTraceTarget p"
  "selectedTraceTarget (show_ping env k m p) = selectedTraceTarget p"
  by (simp_all add: trace_answered_def trace_succeeded_def trace_refused_def show_hops_def trace_toast_def drawTraceroutePath_def show_ping_def
    Let_def split: option.split)

lemma traces_ok_step: "traces_ok p \<Longrightarrow> traces_ok (trace_step e p)"
proof -
  assume p: "traces_ok p"
  note same = traces_ok_cong[OF p]
  obtain env ev where e: "e = (env, ev)" by (cases e)
  show ?thesis
  proof (cases ev)
    case (TraceAnswered m r)
    then show ?thesis using p by (auto simp: e trace_step_def assoc_del_def intro!: same split: option.split)
  next
    case TraceExecuted
    then show ?thesis using p by (auto simp: e trace_step_def executeTraceroute_def traces_ok_def)
  qed (simp_all add: e trace_step_def same openTracerouteModal_def clearTraceroutePath_def toggleRouteVisibility_def show_hops_def Let_def
      split: option.split)
qed

interpretation traces: initial_invariant trace_step "\<lambda>_. True" traces_ok new_trace_panel
  by unfold_locales (simp_all add: traces_ok_step, simp add: traces_ok_def new_trace_panel_def)

text \<open>
  A trace shows up in the panel that asked for it or not at all. In every run, once the panel has been closed
  or opened anew, the answer to a trace that was on its way then, a failure included, changes nothing that can
  be seen of the panel and of the map, whatever has happened in between.
\<close>

theorem late_trace_is_dropped:
  assumes "p = fold trace_step evs new_trace_panel" "map_of (trace_calls p) n = Some (g, target)" "\<not> trace_current g target p"
  shows "trace_seen (trace_step (env, TraceAnswered n reply) (fold trace_step evs' p)) = trace_seen (fold trace_step evs' p)"
proof -
  have "traces_ok p" unfolding assms(1) by (rule traces.always) (simp add: list_all_iff)
  then have "trace_overtaken n p"
    using assms(2,3) map_of_SomeD[OF assms(2)] by (auto simp: traces_ok_def trace_overtaken_def trace_current_def)
  then show ?thesis by (rule late_trace.dropped_for_ever) simp
qed

lemma late_trace_is_dropped_witness:
  "let p = fold trace_step [(sample_map_env, TraceOpened (js ''aa'') (js ''A'')), (sample_map_env, TraceExecuted), (sample_map_env, TraceOpened (js ''bb'') (js ''B''))] new_trace_panel
   in trace_seen (trace_step (sample_map_env, TraceAnswered 0 None) p) = trace_seen p"
proof -
  let ?evs = "[(sample_map_env, TraceOpened (js ''aa'') (js ''A'')), (sample_map_env, TraceExecuted), (sample_map_env, TraceOpened (js ''bb'') (js ''B''))]"
  have "map_of (trace_calls (fold trace_step ?evs new_trace_panel)) 0 = Some (1, js ''aa'')" "\<not> trace_current 1 (js ''aa'') (fold trace_step ?evs new_trace_panel)"
    by (simp_all add: trace_step_def openTracerouteModal_def executeTraceroute_def trace_current_def new_trace_panel_def)
  from late_trace_is_dropped[OF refl this, of sample_map_env None "[]"] show ?thesis by (simp add: Let_def)
qed

text \<open>
  C40: An old trace is drawn under a new name. Opening the panel for another node empties the panel but keeps
  the last trace and leaves the button that draws it enabled: it then draws the route to the first node,
  and the figures beside it carry the name of the second, which has never been traced.
\<close>

theorem old_trace_under_new_name:
  assumes "a \<noteq> []" "name \<noteq> []" "getp d (js ''status'') = Str (js ''ok'')" "trace = getp d (js ''data'')" "truthy trace"
    and "hops_of trace \<noteq> []" "truthy (getp trace (js ''target_node''))"
    and "p = fold trace_step [(env, TraceOpened a first), (env, TraceExecuted), (env, TraceAnswered 0 (Some d)), (env, TraceClosed),
           (env, TraceOpened b name), (env, PlotClicked)] new_trace_panel"
  shows "map fst (trace_sent p) = [a] \<and> map_option dr_trace (shownRoute p) = Some trace \<and>
    selectedTraceTarget p = b \<and> map_option hud_target (routeHud p) = Some name"
  using assms(1-7)
  by (simp add: assms(8) trace_step_def openTracerouteModal_def executeTraceroute_def trace_answered_def trace_current_def trace_succeeded_def
    trace_toast_def show_hops_def drawTraceroutePath_def draw_route_def renderRouteHud_def new_trace_panel_def Let_def del: js_simps)

lemma old_trace_under_new_name_witness:
  "let d = Obj [(js ''status'', Str (js ''ok'')), (js ''data'', Obj [(js ''target_node'', Str (js ''aa'')), (js ''hops_breakdown'', Arr [Obj []])])];
       p = fold trace_step [(sample_map_env, TraceOpened (js ''aa'') (js ''A'')), (sample_map_env, TraceExecuted), (sample_map_env, TraceAnswered 0 (Some d)),
             (sample_map_env, TraceClosed), (sample_map_env, TraceOpened (js ''bb'') (js ''B'')), (sample_map_env, PlotClicked)] new_trace_panel
   in map_option hud_target (routeHud p) = Some (js ''B'')"
proof -
  let ?d = "Obj [(js ''status'', Str (js ''ok'')), (js ''data'', Obj [(js ''target_node'', Str (js ''aa'')), (js ''hops_breakdown'', Arr [Obj []])])]"
  have d: "getp ?d (js ''status'') = Str (js ''ok'')" "truthy (getp ?d (js ''data''))" "hops_of (getp ?d (js ''data'')) \<noteq> []"
    "truthy (getp (getp ?d (js ''data'')) (js ''target_node''))"
    by (simp_all add: getp_def truthy_def hops_of_def)
  from old_trace_under_new_name[OF _ _ d(1) refl d(2-4) refl, of "js ''aa''" "js ''B''" sample_map_env "js ''A''" "js ''bb''"]
  show ?thesis unfolding Let_def by simp
qed

text \<open>
  The flag of the button and the layer can part: a route that is drawn while the layer is hidden is not on
  the map, though it counts as visible, and the next click hides it once more.
\<close>

lemma hidden_route_stays_hidden:
  assumes "routeLayer p = Some True" "routeVisible p" "truthy trace"
  shows "routeLayer (fold trace_step [(env, RouteToggled), (env, RouteGiven trace)] p) = Some False"
    "routeVisible (fold trace_step [(env, RouteToggled), (env, RouteGiven trace)] p)"
    "routeLayer (fold trace_step [(env, RouteToggled), (env, RouteGiven trace), (env, RouteToggled)] p) = Some False"
  using assms by (auto simp: trace_step_def toggleRouteVisibility_def drawTraceroutePath_def Let_def)

text \<open>Marks go by the place among the hops that have a position: without a position of its own the station's mark goes to another node.\<close>

lemma first_positioned_is_start: "hs \<noteq> [] \<Longrightarrow> hd (route_marks trace hs) = (RouteStart, rh_pos (hd hs), rh_name (hd hs))"
  by (cases hs) (simp_all add: route_marks_def route_mark_of_def upt_rec)

end
