(* ===== verification/Spec2Isabelle.thy ===== *)
theory Spec2Isabelle
  imports Theme Geo TimeFormat EventBus ReactiveStore WebSocketClient HistoryAccess DialogStack FormWidgets
    MeshUri MessageText LoraText QrModel SnifferView ChatMessages ChatPanels SystemDialogs RepeaterAdmin
    Analytics StationSettings ServicesForm NodeCards Charts Translations MapTrace
begin

text \<open>
  \<^bold>\<open>The MeshCore bridge web client: a verification development\<close>

  The program is the browser part of the MeshCore bridge, \<open>src/src/web/static/js\<close>. A page talks to
  the bridge over a REST interface (\<open>core/api_client.js\<close>, behind the \<open>fetch\<close> that \<open>core/auth.js\<close>
  wraps) and over one WebSocket (\<open>core/websocket.js\<close>), whose frames are published on an event bus
  (\<open>core/eventbus.js\<close>) and mirrored in a reactive store (\<open>core/store.js\<close>). The modules of the page
  subscribe to the bus: the chat (\<open>modules/chat.js\<close>), the packet sniffer (\<open>modules/sniffer.js\<close>, with
  \<open>workers/packet_worker.js\<close>), the node directory (\<open>modules/nodes.js\<close>), the administration of remote
  repeaters (\<open>modules/repeater.js\<close>), the measurements (\<open>modules/analytics.js\<close>), the map
  (\<open>modules/map.js\<close>) and the settings (\<open>modules/settings.js\<close>). Messages are kept in
  IndexedDB by \<open>core/storage.js\<close>, whose access follows the session. Contacts and channels are shared
  as links (\<open>core/utils.js\<close>) and shown as QR codes (\<open>qrcode.js\<close>).

  \<^bold>\<open>The theories and the code\<close>

  The language and its library: \<open>Prelude\<close> (lemma collections, assignment lists, bounded lists),
  \<open>JsString\<close> (strings of 16-bit units: search, trim, case, split, join), \<open>JsValue\<close> (values, property
  access, truthiness, conversions, errors), \<open>Numbers\<close> (numerals and their text), \<open>Utf\<close> (UTF-16 to
  code points), \<open>UriCodec\<close> (\<open>encodeURIComponent\<close> and its inverse, byte by byte), \<open>QueryString\<close>
  (\<open>URLSearchParams\<close>), \<open>Greedy\<close> (a locale for greedy grouping under a size bound), \<open>Machine\<close>
  (reachable states, invariants and overtaken answers of event-driven modules, as locales).

  \<^item> \<open>MessageText\<close>, \<open>MeshUri\<close>, \<open>LoraText\<close>, \<open>TimeFormat\<close>, \<open>Geo\<close>: the functions of \<open>core/utils.js\<close>.
    Escaping, sender extraction, links and tags, fragmentation to the byte budget of a radio frame,
    texts for times, distances and presence. Escaping is invertible and leaves no markup, links are
    read back as what they were made of, fragments fit, lose nothing and are as few as possible.
  \<^item> \<open>EventBus\<close>, \<open>ReactiveStore\<close>: the two publish/subscribe objects; the bus refines a table of
    listeners, the events of the store are exactly its changes.
  \<^item> \<open>WebSocketClient\<close>: connection life cycle as a state machine, with the timers of reconnection and
    heartbeat as part of the state.
  \<^item> \<open>BrowserAuth\<close>, \<open>HistoryAccess\<close>, \<open>MessageCache\<close>: session and gate, the generations that guard
    asynchronous access to the cache, and the tables of the cache with the operations on them.
    A locale \<open>cache_operation\<close> states what every operation of the cache keeps.
  \<^item> \<open>DialogStack\<close>, \<open>FormWidgets\<close>, \<open>Theme\<close>: dialogs, tabs, form validation, theme and density.
    \<open>SystemDialogs\<close>: the queue of confirmations, alerts and questions of \<open>app.js\<close>. Requests are
    answered in turn, and consent is never inherited by the next one.
  \<^item> \<open>QrMath\<close>, \<open>QrField\<close>, \<open>QrData\<close>, \<open>QrCodewords\<close>, \<open>QrSymbol\<close>, \<open>QrModel\<close>: the QR code generator, from
    the tables of the field with 256 elements and Reed-Solomon codewords to the module matrix.
  \<^item> \<open>ApiClient\<close>: every endpoint as the request it makes, and the reading of answers and problems.
  \<^item> \<open>PacketWorker\<close>, \<open>HexDump\<close>, \<open>Sniffer\<close>, \<open>SnifferView\<close>: captured packets and logs as bounded buffers
    with generations, their merging with downloaded lists, filters, and the rows shown for them.
  \<^item> \<open>NodeDirectory\<close>, \<open>NodeCards\<close>: keys of nodes and the paged download of the directory; the grids of
    cards, their order (\<open>ArraySort\<close>: the engine's sort and \<open>sort_key\<close>), filters and counts, and the nodes
    that are heard one by one. Every known node has one card.
  \<^item> \<open>ChatOutbox\<close>, \<open>ChatDelivery\<close>: sending a text in fragments, the acknowledgements and status frames
    that change messages meanwhile, and the calls they make of the cache, run on \<open>MessageCache\<close>.
  \<^item> \<open>ChatView\<close>, \<open>ChatScreen\<close>, \<open>ChatMessages\<close>, \<open>ChatPanels\<close>: the reading side of the chat on the
    same state: incoming messages, the history from the cache and page by page from the bridge, the
    list of direct conversations, drafts and unread counts. \<open>ChatView\<close> has the definitions and the
    step function, \<open>ChatScreen\<close> what every step keeps and what a change of session forgets,
    \<open>ChatMessages\<close> that messages are filed once and that a page completes its feed, \<open>ChatPanels\<close>
    which conversations are listed and what a late answer of the cache can do.
  \<^item> \<open>RepeaterFields\<close>, \<open>RepeaterAdmin\<close>: the forms of a remote repeater, what is sent of them and what
    a confirmation settles; and the panel around them with its gate, passwords, observations, saves,
    commands and preferences. Closing the panel forgets every request that is on its way.
  \<^item> \<open>Analytics\<close>: the requests of the measurements with their generations, what a change of session
    forgets, and the figures computed for the tab.
  \<^item> \<open>StationSettings\<close>, \<open>ServicesForm\<close>: the configuration of the station, whose fields are drafts like
    those of a repeater, read, pushed and saved under two counters; and the form of the brokers and
    the TCP server as a table of controls, read back as it has been sent.
  \<^item> \<open>Charts\<close>: the geometry of the charts of \<open>core/chart_engine.js\<close>, which the measurements are drawn with:
    scales, points, ticks, the point under the pointer, the segments of the ring, bars and small curves.
  \<^item> \<open>Translations\<close>: the texts of \<open>i18n.js\<close>: look-up with fall-back and plural, placeholders, names of roles,
    and the labels of a page, which follow the language; the dictionary is a parameter.
  \<^item> \<open>MapMarkers\<close>, \<open>MapTrace\<close>: the map of \<open>modules/map.js\<close>: which node has a marker where, the list beside
    the map, layers and centring; the heat map with its switch and timer, the panel that traces the way to
    a node, and the route drawn from a trace. The map shows the directory of \<open>NodeCards\<close>.

  \<^bold>\<open>How code becomes definitions\<close>

  A string is a list of 16-bit words, a number a value of \<open>jnum\<close> (a real, an infinity or NaN), an
  object a list of properties in order. A class is a record and each method a function of the state;
  an asynchronous method is cut at each \<open>await\<close> into parts, and a step function runs whichever part
  or event comes next, so the theorems hold for all interleavings. A thrown error is the left value
  of \<open>js_result\<close>. What the page reads of its surroundings (clock, random identities, the words of the
  user's language, engine messages) is a parameter. Messages that several feeds and a running method
  share are cells of a heap.

  \<^bold>\<open>Bounds and termination\<close>

  Loops are structural recursion or have a measure. The paged download of the directory and the
  conversation list use fuel, and theorems state how much is enough for the number of pages there
  are. Feeds hold at most 100 messages, the sniffer at most 200 packets and 300 log records.
  QR versions 1 to 10 are covered: the generator has no block table beyond them.

  \<^bold>\<open>Not modelled\<close>

  DOM construction and layout beyond the markup strings named above (white space between the tags of
  row templates is left out), focus movement and Bootstrap internals; the elements and colours of the
  charts; the drawing of the map, which a vendored library does, and the popups of routes and pings; of the
  settings the channels, the firmware console, custom
  variables, flood scope, automatic contacts, the connection of a companion, messaging and sharing;
  the words of the dictionary of \<open>i18n.js\<close> and its table of selectors; of \<open>app.js\<close> everything but the
  system dialogs: wiring, toasts, the views. Of the chat, the markup of bubbles, search, sharing, export,
  reactions and emoji are left out, and the length of the pause between fragments; of the repeaters,
  pings, neighbours, owners, regions, permissions and the lines of the terminal; of the directory, the
  markup of the cards, sensor subscriptions, pings and rooms.
  Vendored and minified files are not the program's source.
\<close>

end
